(* ===== verification/Prelude.thy ===== *)
theory Prelude
  imports Complex_Main "HOL-Library.Word" "HOL-Library.Multiset" "HOL-Library.Signed_Division"
begin

unbundle bit_operations_syntax

text \<open>
  The vocabulary every component shares: machine integers and byte vectors, the outcomes of a
  failing operation, the random tape, the resizing of vectors, and the lemma collections of the
  development.

  A C++ \<open>int\<close> that is stored, compared bitwise or serialised is a 32-bit word; \<open>sint\<close> reads its
  two's complement value. Container sizes, tree levels and loop counters, which the code keeps in
  small non-negative \<open>int\<close>s, are natural numbers; tree node indices, on which the code does signed
  arithmetic, are integers.
\<close>

type_synonym byte = "8 word"
type_synonym bytes = "8 word list"
type_synonym i32 = "32 word"

named_theorems oblivious_simps \<open>the branch-free primitives as conditionals\<close>
named_theorems frame_simps \<open>fields an operation leaves alone\<close>

section \<open>Outcomes\<close>

text \<open>
  Every \<open>throw\<close> of the modelled code is an error value. \<open>OutOfBounds\<close> stands for an access
  outside a \<open>std::vector\<close>, which the code never checks: it is undefined behaviour in C++, and a
  theorem that an operation does not end in it is a theorem that the code stays in bounds.
  \<open>DivideByZero\<close> is the undefined integer division, \<open>LengthError\<close> the exception of a container asked for a
  negative size, \<open>NullPointer\<close> the use of a storage that is not there, \<open>TransportError\<close> a failed system call on a socket,
  \<open>StackExhausted\<close> a recursion deeper than the bound the model gives it, and \<open>Diverges\<close> a loop that never ends.
\<close>

datatype error =
    StashOverflow nat nat
  | KeyNotFound i32
  | NotInMap i32
  | BufferTooSmall
  | BlobTooSmall
  | OutOfBounds
  | ServerError string
  | Disconnected
  | StackExhausted
  | DivideByZero
  | NullPointer
  | LengthError
  | CryptoFailure string
  | TransportError string
  | Diverges

type_synonym 'a result = "error + 'a"

definition bind_result :: "'a result \<Rightarrow> ('a \<Rightarrow> 'b result) \<Rightarrow> 'b result" where
  [code_unfold]: "bind_result r f = (case r of Inl e \<Rightarrow> Inl e | Inr x \<Rightarrow> f x)"

lemma bind_result_simps [simp]:
  "bind_result (Inl e) f = Inl e"
  "bind_result (Inr x) f = f x"
  by (simp_all add: bind_result_def)

lemma bind_result_Inr_iff:
  "bind_result r f = Inr y \<longleftrightarrow> (\<exists>x. r = Inr x \<and> f x = Inr y)"
  by (cases r) auto

lemma bind_result_Inl_iff:
  "bind_result r f = Inl e \<longleftrightarrow> r = Inl e \<or> (\<exists>x. r = Inr x \<and> f x = Inl e)"
  by (cases r) auto

lemma bind_result_cong [fundef_cong]:
  "r = r' \<Longrightarrow> (\<And>x. r' = Inr x \<Longrightarrow> f x = g x) \<Longrightarrow> bind_result r f = bind_result r' g"
  by (cases r') auto

text \<open>
  The one failure a caller cannot rule out is the overflow of a stash. \<open>safe_run x P\<close> says that \<open>x\<close>
  either is such an overflow or returns a value with \<open>P\<close>.
\<close>

definition safe_run :: "'a result \<Rightarrow> ('a \<Rightarrow> bool) \<Rightarrow> bool" where
  "safe_run x P \<longleftrightarrow> (case x of Inl e \<Rightarrow> (\<exists>n m. e = StashOverflow n m \<and> m < n) | Inr y \<Rightarrow> P y)"

lemma safe_run_simps [simp]:
  "safe_run (Inr y) P = P y"
  "safe_run (Inl e) P = (\<exists>n m. e = StashOverflow n m \<and> m < n)"
  by (simp_all add: safe_run_def)

lemma safe_run_mono: "safe_run x P \<Longrightarrow> (\<And>y. P y \<Longrightarrow> Q y) \<Longrightarrow> safe_run x Q"
  by (auto simp: safe_run_def split: sum.splits)

lemma safe_run_bind:
  "safe_run x P \<Longrightarrow> (\<And>y. P y \<Longrightarrow> safe_run (f y) Q) \<Longrightarrow> safe_run (bind_result x f) Q"
  by (cases x) simp_all

text \<open>\<open>for (int d = d0; d < d0 + n; ++d)\<close> with a body that may fail.\<close>

fun for_loop :: "(nat \<Rightarrow> 's \<Rightarrow> 's result) \<Rightarrow> nat \<Rightarrow> nat \<Rightarrow> 's \<Rightarrow> 's result" where
  "for_loop body d 0 s = Inr s"
| "for_loop body d (Suc n) s =
     (case body d s of Inl e \<Rightarrow> Inl e | Inr s' \<Rightarrow> for_loop body (Suc d) n s')"

lemma for_loop_inv:
  assumes "for_loop body d n s = Inr s'" "P d s"
    and "\<And>i t t'. d \<le> i \<Longrightarrow> i < d + n \<Longrightarrow> P i t \<Longrightarrow> body i t = Inr t' \<Longrightarrow> P (Suc i) t'"
  shows "P (d + n) s'"
  using assms
proof (induction n arbitrary: d s)
  case (Suc n)
  then obtain t where t: "body d s = Inr t" "for_loop body (Suc d) n t = Inr s'"
    by (auto split: sum.splits)
  have "P (Suc d) t" using Suc.prems(2,3) t(1) by auto
  with Suc.IH [OF t(2) this] Suc.prems(3) show ?case by simp
qed simp

lemma for_loop_safe:
  assumes "P d s" "\<And>i t. d \<le> i \<Longrightarrow> i < d + n \<Longrightarrow> P i t \<Longrightarrow> safe_run (body i t) (P (Suc i))"
  shows "safe_run (for_loop body d n s) (P (d + n))"
  using assms
proof (induction n arbitrary: d s)
  case (Suc n)
  have step: "safe_run (body d s) (P (Suc d))" using Suc.prems by auto
  show ?case
  proof (cases "body d s")
    case (Inr t)
    with step have "P (Suc d) t" by simp
    from Suc.IH [OF this] Suc.prems(2) Inr show ?thesis by simp
  qed (use step in simp)
qed simp

lemma for_loop_split:
  "for_loop body d (m + n) s =
   (case for_loop body d m s of Inl e \<Rightarrow> Inl e | Inr t \<Rightarrow> for_loop body (d + m) n t)"
  by (induction m arbitrary: d s) (auto split: sum.splits)

section \<open>The random tape\<close>

text \<open>
  The draws of the run are a tape of natural numbers, read from the front and continued by zeros.
  A finite run reads finitely many draws, and every value a draw can have is on some tape.
\<close>

type_synonym rng = "nat list"

section \<open>Vectors\<close>

text \<open>\<open>std::vector::resize\<close>: cut off, or fill up with a given value.\<close>

definition resize_with :: "'a \<Rightarrow> nat \<Rightarrow> 'a list \<Rightarrow> 'a list" where
  "resize_with x n xs = take n xs @ replicate (n - length xs) x"

lemma length_resize_with [simp]: "length (resize_with x n xs) = n"
  by (simp add: resize_with_def)

lemma resize_with_same [simp]: "n = length xs \<Longrightarrow> resize_with x n xs = xs"
  by (simp add: resize_with_def)

lemma resize_with_ge: "length xs \<le> n \<Longrightarrow> resize_with x n xs = xs @ replicate (n - length xs) x"
  by (simp add: resize_with_def)

lemma set_resize_with: "set (resize_with x n xs) \<subseteq> insert x (set xs)"
  by (auto simp: resize_with_def dest: in_set_takeD split: if_splits)

text \<open>A vector access, checked where the code relies on the index being in range.\<close>

definition in_range :: "int \<Rightarrow> 'a list \<Rightarrow> bool" where
  "in_range i xs \<longleftrightarrow> 0 \<le> i \<and> i < int (length xs)"

lemma in_range_nat [simp]: "in_range i xs \<Longrightarrow> nat i < length xs"
  by (auto simp: in_range_def)

lemma in_range_update [simp]: "in_range i (xs[j := x]) = in_range i xs"
  by (simp add: in_range_def)

lemma all_set_update: "\<forall>x\<in>set xs. P x \<Longrightarrow> P y \<Longrightarrow> \<forall>x\<in>set (xs[i := y]). P x"
  using set_update_subset_insert [of xs i y] by auto

lemma mset_update_concat:
  assumes "i < length xs"
  shows "mset (concat (xs[i := y])) + mset (xs ! i) = mset (concat xs) + mset y"
  using assms
proof (induction xs arbitrary: i)
  case Nil
  then show ?case by simp
next
  case (Cons x xs)
  then show ?case by (cases i) (auto simp: union_assoc)
qed

end
