(* ===== verification/Common.thy ===== *)
theory Common
  imports Prelude "HOL-Library.Log_Nat"
begin

text \<open>
  \<open>include/tiered_omap/common.h\<close>: blocks, bandwidth counters, random leaves, the conversion of
  integers to bytes, padding, \<open>ceil_log2\<close>, and the epoch metadata kept at the tail of a value.
  The lemmas give the round trips, the range of a random draw and the meaning of \<open>ceil_log2\<close>.
\<close>

section \<open>Blocks and counters\<close>

definition INVALID_KEY :: i32 where
  "INVALID_KEY = - 1"

definition INVALID_LEAF :: i32 where
  "INVALID_LEAF = - 1"

record block =
  key :: i32
  leaf :: i32
  val :: bytes

definition default_block :: block where
  "default_block = \<lparr>key = INVALID_KEY, leaf = INVALID_LEAF, val = []\<rparr>"

definition is_dummy :: "block \<Rightarrow> bool" where
  "is_dummy b \<longleftrightarrow> key b = INVALID_KEY"

text \<open>The counters are \<open>uint64_t\<close>.\<close>

record bandwidth =
  bytes_downloaded :: "64 word"
  bytes_uploaded :: "64 word"
  rounds :: "64 word"

definition zero_bandwidth :: bandwidth where
  "zero_bandwidth = \<lparr>bytes_downloaded = 0, bytes_uploaded = 0, rounds = 0\<rparr>"

definition total_bytes :: "bandwidth \<Rightarrow> 64 word" where
  "total_bytes s = bytes_downloaded s + bytes_uploaded s"

definition add_bandwidth :: "bandwidth \<Rightarrow> bandwidth \<Rightarrow> bandwidth" where
  "add_bandwidth s t =
     \<lparr>bytes_downloaded = bytes_downloaded s + bytes_downloaded t,
      bytes_uploaded = bytes_uploaded s + bytes_uploaded t,
      rounds = rounds s + rounds t\<rparr>"

section \<open>Random leaves\<close>

text \<open>
  \<open>SecureRandom::rand_below\<close>: a value below \<open>n\<close> from the tape, and 0 without a draw when \<open>n\<close>
  is not positive.
\<close>

fun rand_below :: "int \<Rightarrow> rng \<Rightarrow> int \<times> rng" where
  "rand_below n r =
     (if n \<le> 0 then (0, r)
      else case r of [] \<Rightarrow> (0, []) | x # r' \<Rightarrow> (int x mod n, r'))"

declare rand_below.simps [simp del]

lemma rand_below_range: "0 < n \<Longrightarrow> 0 \<le> fst (rand_below n r) \<and> fst (rand_below n r) < n"
  by (auto simp: rand_below.simps split: list.split)

lemma rand_below_surj: "0 \<le> v \<Longrightarrow> v < n \<Longrightarrow> rand_below n (nat v # r) = (v, r)"
  by (simp add: rand_below.simps)

section \<open>Integers as bytes\<close>

text \<open>\<open>memcpy\<close> of an \<open>int\<close> on the little-endian machines the code targets.\<close>

definition int_to_bytes :: "i32 \<Rightarrow> bytes" where
  "int_to_bytes v =
     [ucast v, ucast (drop_bit 8 v), ucast (drop_bit 16 v), ucast (drop_bit 24 v)]"

definition join_int :: "byte \<Rightarrow> byte \<Rightarrow> byte \<Rightarrow> byte \<Rightarrow> i32" where
  "join_int b0 b1 b2 b3 =
     ucast b0 OR push_bit 8 (ucast b1) OR push_bit 16 (ucast b2) OR push_bit 24 (ucast b3)"

definition load_int :: "nat \<Rightarrow> bytes \<Rightarrow> i32" where
  "load_int off b =
     (case drop off b of b0 # b1 # b2 # b3 # _ \<Rightarrow> join_int b0 b1 b2 b3 | _ \<Rightarrow> 0)"

definition bytes_to_int :: "bytes \<Rightarrow> i32" where
  "bytes_to_int b = (if length b \<ge> 4 then load_int 0 b else 0)"

lemma length_int_to_bytes [simp]: "length (int_to_bytes v) = 4"
  by (simp add: int_to_bytes_def)

lemma bit_byte_of: "bit (push_bit m (ucast (ucast (drop_bit m v) :: byte)) :: i32) n \<longleftrightarrow>
    m \<le> n \<and> n < m + 8 \<and> n < 32 \<and> bit (v :: i32) n"
  by (auto simp: bit_simps)

lemma bit_byte_at: "bit (push_bit m (ucast (b :: byte)) :: i32) n \<longleftrightarrow>
    m \<le> n \<and> n < m + 8 \<and> n < 32 \<and> bit b (n - m)"
  by (auto simp: bit_simps dest: bit_imp_le_length)

lemma byte_of_eqI:
  "m + 8 \<le> 32 \<Longrightarrow> (\<And>n. m \<le> n \<Longrightarrow> n < m + 8 \<Longrightarrow> bit w n \<longleftrightarrow> bit b (n - m)) \<Longrightarrow>
   ucast (drop_bit m (w :: i32)) = (b :: byte)"
  by (rule bit_word_eqI) (simp add: bit_simps)

lemma join_int_of_bytes [simp]:
  "join_int (ucast v) (ucast (drop_bit 8 v)) (ucast (drop_bit 16 v)) (ucast (drop_bit 24 v)) = v"
  (is "?l = v")
proof (rule bit_word_eqI)
  fix n assume "n < LENGTH(32)"
  then show "bit ?l n = bit v n"
    using bit_byte_of [of 0 v n] by (auto simp: join_int_def bit_or_iff bit_byte_of)
qed

lemma bytes_of_join_int [simp]:
  "ucast (join_int b0 b1 b2 b3) = b0" "ucast (drop_bit 8 (join_int b0 b1 b2 b3)) = b1"
  "ucast (drop_bit 16 (join_int b0 b1 b2 b3)) = b2"
  "ucast (drop_bit 24 (join_int b0 b1 b2 b3)) = b3"
proof -
  let ?v = "join_int b0 b1 b2 b3"
  have b: "bit ?v n \<longleftrightarrow> n < 8 \<and> bit b0 n \<or> 8 \<le> n \<and> n < 16 \<and> bit b1 (n - 8)
     \<or> 16 \<le> n \<and> n < 24 \<and> bit b2 (n - 16) \<or> 24 \<le> n \<and> n < 32 \<and> bit b3 (n - 24)" for n
    using bit_byte_at [of 0 b0 n] by (auto simp: join_int_def bit_or_iff bit_byte_at)
  have "ucast (drop_bit 0 ?v) = b0" by (rule byte_of_eqI) (auto simp: b)
  then show "ucast ?v = b0" by simp
  show "ucast (drop_bit 8 ?v) = b1" by (rule byte_of_eqI) (auto simp: b)
  show "ucast (drop_bit 16 ?v) = b2" by (rule byte_of_eqI) (auto simp: b)
  show "ucast (drop_bit 24 ?v) = b3" by (rule byte_of_eqI) (auto simp: b)
qed

lemma load_int_at: "off = length xs \<Longrightarrow> load_int off (xs @ int_to_bytes v @ ys) = v"
  by (simp add: load_int_def int_to_bytes_def)

lemma load_int_0 [simp]: "load_int 0 (int_to_bytes v @ ys) = v"
  using load_int_at [of 0 "[]"] by simp

lemma load_int_0' [simp]: "load_int 0 (int_to_bytes v) = v"
  using load_int_0 [of v "[]"] by simp

lemma int_to_bytes_load_int:
  assumes "off + 4 \<le> length b"
  shows "int_to_bytes (load_int off b) = take 4 (drop off b)"
proof (cases "drop off b")
  case (Cons b0 r)
  then have "length (b0 # r) = length b - off" by (metis length_drop)
  then have "3 \<le> length r" using assms by simp
  then obtain b1 b2 b3 r' where r: "r = b1 # b2 # b3 # r'"
    by (metis Suc_le_length_iff numeral_3_eq_3)
  show ?thesis
    unfolding load_int_def Cons r by (simp add: int_to_bytes_def)
qed (use assms in auto)

lemma int_bytes_roundtrip [simp]: "bytes_to_int (int_to_bytes v) = v"
  by (simp add: bytes_to_int_def)

lemma bytes_int_roundtrip: "length b = 4 \<Longrightarrow> int_to_bytes (bytes_to_int b) = b"
  by (simp add: bytes_to_int_def int_to_bytes_load_int)

lemma sint_of_small_nat: "d < 2 ^ 31 \<Longrightarrow> sint (of_nat d :: i32) = int d"
  using sint_sbintrunc' [of "int d", where 'a = 32] by (simp add: signed_take_bit_int_eq_self)

section \<open>Padding\<close>

definition pad_bytes :: "bytes \<Rightarrow> nat \<Rightarrow> bytes" where
  "pad_bytes b n =
     (if length b \<ge> n then b else resize_with 0 n b)"

lemma length_pad_bytes [simp]: "length (pad_bytes b n) = max (length b) n"
  by (simp add: pad_bytes_def)

lemma pad_bytes_id [simp]: "n \<le> length b \<Longrightarrow> pad_bytes b n = b"
  by (simp add: pad_bytes_def)

lemma take_pad_bytes: "take (length b) (pad_bytes b n) = b"
  by (simp add: pad_bytes_def resize_with_def)

section \<open>Logarithms\<close>

text \<open>
  \<open>std::ceil(std::log2(n))\<close>: for the arguments of an \<open>int\<close> the double computation is exact
  after rounding up.
\<close>

definition ceil_log2 :: "int \<Rightarrow> nat" where
  "ceil_log2 n = (if n \<le> 1 then 0 else ceillog2 (nat n))"

lemma ceil_log2_least: "1 \<le> n \<Longrightarrow> ceil_log2 n \<le> l \<longleftrightarrow> n \<le> 2 ^ l"
proof -
  assume "1 \<le> n"
  moreover have "nat n \<le> 2 ^ l \<longleftrightarrow> n \<le> 2 ^ l"
    by (simp add: nat_le_iff)
  ultimately show ?thesis
    by (cases "n = 1") (auto simp: ceil_log2_def ceillog2_le_iff)
qed

lemma ceil_log2_eqI: "2 ^ l < 2 * n \<Longrightarrow> n \<le> 2 ^ l \<Longrightarrow> ceil_log2 n = l"
proof -
  assume *: "2 ^ l < 2 * n" "n \<le> 2 ^ l"
  have "0 < n" using *(1) by (smt (verit) zero_less_power)
  have "ceil_log2 n \<le> l" using * \<open>0 < n\<close> by (simp add: ceil_log2_least)
  moreover have "\<not> ceil_log2 n \<le> l - 1" if "0 < l"
    using * \<open>0 < n\<close> that by (cases l) (auto simp: ceil_log2_least)
  ultimately show ?thesis by (cases l) auto
qed

section \<open>Epoch metadata\<close>

record epoch_meta =
  cnt :: i32
  ep :: i32
  fp :: i32

definition default_meta :: epoch_meta where
  "default_meta = \<lparr>cnt = 0, ep = - 1, fp = 0\<rparr>"

definition EPOCH_META_SIZE :: nat where
  "EPOCH_META_SIZE = 3 * 4"

definition encode_with_epoch :: "bytes \<Rightarrow> epoch_meta \<Rightarrow> bytes" where
  "encode_with_epoch value m =
     value @ int_to_bytes (cnt m) @ int_to_bytes (ep m) @ int_to_bytes (fp m)"

definition decode_epoch :: "bytes \<Rightarrow> bytes \<times> epoch_meta" where
  "decode_epoch raw =
     (if length raw < EPOCH_META_SIZE then (raw, default_meta)
      else let val_len = length raw - EPOCH_META_SIZE
           in (take val_len raw,
               \<lparr>cnt = load_int val_len raw, ep = load_int (val_len + 4) raw,
                fp = load_int (val_len + 2 * 4) raw\<rparr>))"

lemma length_encode_with_epoch [simp]:
  "length (encode_with_epoch v m) = length v + EPOCH_META_SIZE"
  by (simp add: encode_with_epoch_def EPOCH_META_SIZE_def)

lemma decode_encode_epoch [simp]: "decode_epoch (encode_with_epoch v m) = (v, m)"
proof -
  let ?c = "int_to_bytes (cnt m)" and ?e = "int_to_bytes (ep m)" and ?f = "int_to_bytes (fp m)"
  have "load_int (length v) (v @ ?c @ ?e @ ?f) = cnt m"
    by (rule load_int_at) simp
  moreover have "load_int (length v + 4) ((v @ ?c) @ ?e @ ?f) = ep m"
    by (rule load_int_at) simp
  moreover have "load_int (length v + 8) ((v @ ?c @ ?e) @ ?f @ []) = fp m"
    by (rule load_int_at) simp
  ultimately show ?thesis
    by (simp add: decode_epoch_def encode_with_epoch_def EPOCH_META_SIZE_def)
qed

lemma decode_epoch_short: "length raw < EPOCH_META_SIZE \<Longrightarrow> decode_epoch raw = (raw, default_meta)"
  by (simp add: decode_epoch_def)

lemma take_take_drop: "take a (drop n xs) @ take b (drop (n + a) xs) = take (a + b) (drop n xs)"
  by (simp add: take_add add.commute)

lemma encode_decode_epoch:
  assumes "EPOCH_META_SIZE \<le> length raw" and "decode_epoch raw = (v, m)"
  shows "encode_with_epoch v m = raw"
proof -
  let ?n = "length raw - EPOCH_META_SIZE"
  have n: "?n + 12 = length raw" using assms(1) by (simp add: EPOCH_META_SIZE_def)
  from assms have v: "v = take ?n raw"
    and m: "cnt m = load_int ?n raw" "ep m = load_int (?n + 4) raw" "fp m = load_int (?n + 8) raw"
    by (auto simp: decode_epoch_def Let_def)
  have "take 4 (drop ?n raw) @ take 4 (drop (?n + 4) raw) @ take 4 (drop (?n + 8) raw) = drop ?n raw"
    using take_take_drop [of 4 ?n raw 4] take_take_drop [of 8 ?n raw 4] n
    by (simp flip: append_assoc)
  then have "encode_with_epoch v m = take ?n raw @ drop ?n raw"
    using n by (simp add: encode_with_epoch_def v m int_to_bytes_load_int)
  then show ?thesis by simp
qed

end
