(* ===== verification/Oblivious.thy ===== *)
theory Oblivious
  imports Common
begin

text \<open>
  \<open>include/tiered_omap/tee/oblivious.h\<close>: the branch-free primitives. Each is the mask arithmetic of
  the portable branch of the header (the inline assembly computes the same function); the lemmas in
  \<open>oblivious_simps\<close> read it back as a conditional.
\<close>

definition mask_of :: "bool \<Rightarrow> 'a::len word" where
  "mask_of c = - of_bool c"

definition o_mov_i :: "bool \<Rightarrow> i32 \<Rightarrow> i32 \<Rightarrow> i32" where
  "o_mov_i cond dst src = (src AND mask_of cond) OR (dst AND NOT (mask_of cond))"

definition o_mov_bool :: "bool \<Rightarrow> bool \<Rightarrow> bool \<Rightarrow> bool" where
  "o_mov_bool cond dst src = (o_mov_i cond (of_bool dst) (of_bool src) \<noteq> 0)"

definition o_swap_i :: "bool \<Rightarrow> i32 \<Rightarrow> i32 \<Rightarrow> i32 \<times> i32" where
  "o_swap_i cond a b = (let diff = (a XOR b) AND mask_of cond in (a XOR diff, b XOR diff))"

definition o_mov_bytes :: "bool \<Rightarrow> bytes \<Rightarrow> bytes \<Rightarrow> bytes" where
  "o_mov_bytes cond dst src =
     map2 (\<lambda>s d. (s AND mask_of cond) OR (d AND NOT (mask_of cond)))
       src (resize_with 0 (length src) dst)"

definition o_swap_bytes :: "bool \<Rightarrow> bytes \<Rightarrow> bytes \<Rightarrow> bytes \<times> bytes" where
  "o_swap_bytes cond a b =
     (let len = max (length a) (length b);
          a' = resize_with 0 len a; b' = resize_with 0 len b;
          diff = map2 (\<lambda>x y. (x XOR y) AND mask_of cond) a' b'
      in (map2 (XOR) a' diff, map2 (XOR) b' diff))"

definition o_select_i :: "bool \<Rightarrow> i32 \<Rightarrow> i32 \<Rightarrow> i32" where
  "o_select_i cond a b = o_mov_i cond b a"

definition o_equal :: "i32 \<Rightarrow> i32 \<Rightarrow> i32" where
  "o_equal a b = (let diff = a XOR b in 1 - drop_bit 31 (diff OR (0 - diff)))"

definition o_less :: "i32 \<Rightarrow> i32 \<Rightarrow> i32" where
  "o_less a b = drop_bit 31 (a - b)"

definition o_max :: "i32 \<Rightarrow> i32 \<Rightarrow> i32" where
  "o_max a b = o_select_i (drop_bit 31 (a - b) \<noteq> 0) b a"

definition o_min :: "i32 \<Rightarrow> i32 \<Rightarrow> i32" where
  "o_min a b = o_select_i (drop_bit 31 (a - b) \<noteq> 0) a b"

section \<open>What the primitives compute\<close>

lemma mask_of_simps [simp]: "mask_of True = (- 1 :: 'a::len word)" "mask_of False = (0 :: 'a::len word)"
  by (simp_all add: mask_of_def)

lemma o_mov_i_if [simp, code]: "o_mov_i c d s = (if c then s else d)"
  by (cases c) (simp_all add: o_mov_i_def)

lemma o_select_i_if [simp, code]: "o_select_i c a b = (if c then a else b)"
  by (simp add: o_select_i_def)

lemma o_mov_bool_if [simp, code]: "o_mov_bool c d s = (if c then s else d)"
  by (cases c) (simp_all add: o_mov_bool_def)

lemma xor_cancel [simp]:
  "a XOR (a XOR b) = (b :: 'a::len word)" "b XOR (a XOR b) = a"
  by (rule bit_word_eqI; auto simp: bit_simps)+

lemma o_swap_i_if [simp, code]: "o_swap_i c a b = (if c then (b, a) else (a, b))"
  by (cases c) (simp_all add: o_swap_i_def)

lemma o_mov_bytes_if [simp, code]:
  "o_mov_bytes c d s = (if c then s else resize_with 0 (length s) d)"
  by (cases c) (auto simp: o_mov_bytes_def list_eq_iff_nth_eq)

lemma o_swap_bytes_resized [code]:
  "o_swap_bytes c a b =
     (if c then (resize_with 0 (max (length a) (length b)) b, resize_with 0 (max (length a) (length b)) a)
      else (resize_with 0 (max (length a) (length b)) a, resize_with 0 (max (length a) (length b)) b))"
  by (cases c) (auto simp: o_swap_bytes_def Let_def list_eq_iff_nth_eq)

lemma o_swap_bytes_if:
  "length a = length b \<Longrightarrow> o_swap_bytes c a b = (if c then (b, a) else (a, b))"
  by (cases c) (auto simp: o_swap_bytes_def Let_def list_eq_iff_nth_eq)

lemma sign_bit: "drop_bit 31 (w :: i32) = of_bool (bit w 31)"
proof (rule bit_word_eqI)
  fix n assume "n < LENGTH(32)"
  then show "bit (drop_bit 31 w) n = bit (of_bool (bit w 31) :: i32) n"
    using bit_imp_le_length [of w "31 + n"] by (cases "n = 0") (auto simp: bit_simps)
qed

lemma bit_sign_iff: "bit (w :: i32) 31 \<longleftrightarrow> sint w < 0"
  by (simp add: sint_uint bit_simps not_le flip: bit_last_iff)

lemma sint_range32: "- (2 ^ 31) \<le> sint (a :: i32)" "sint (a :: i32) < 2 ^ 31"
  using sint_ge [of a] sint_lt [of a] by simp_all

lemma sint_nonneg_minus: "0 < sint (w :: i32) \<Longrightarrow> sint (- w) = - sint w"
  using sint_range32 [of w] by (simp add: sint_word_minus signed_take_bit_int_eq_self)

lemma sign_or_neg: "bit (w :: i32) 31 \<or> bit (- w) 31 \<longleftrightarrow> w \<noteq> 0"
proof (cases "w = 0")
  case False
  then have "sint w \<noteq> 0" by (simp add: signed_eq_0_iff)
  then show ?thesis
    using False sint_nonneg_minus [of w] by (cases "sint w < 0") (auto simp: bit_sign_iff)
qed simp

lemma o_equal_if [simp, code]: "o_equal a b = of_bool (a = b)"
proof -
  have "a XOR b = 0 \<longleftrightarrow> a = b"
    by (metis xor_cancel(1) xor.right_neutral xor_self_eq)
  then show ?thesis
    using sign_or_neg [of "a XOR b"] by (auto simp: o_equal_def sign_bit bit_or_iff Let_def)
qed

lemma o_less_sign [code]: "o_less a b = of_bool (sint (a - b) < 0)"
  by (simp add: o_less_def sign_bit bit_sign_iff)

lemma o_max_sign [code]: "o_max a b = (if sint (a - b) < 0 then b else a)"
  by (simp add: o_max_def sign_bit bit_sign_iff)

lemma o_min_sign [code]: "o_min a b = (if sint (a - b) < 0 then a else b)"
  by (simp add: o_min_def sign_bit bit_sign_iff)

text \<open>
  The subtraction wraps, so \<open>o_less\<close>, \<open>o_max\<close> and \<open>o_min\<close> are the comparison of signed integers
  exactly when the difference is representable; keys and counters of one sign always are.
\<close>

definition diff_fits :: "i32 \<Rightarrow> i32 \<Rightarrow> bool" where
  "diff_fits a b \<longleftrightarrow> - (2 ^ 31) \<le> sint a - sint b \<and> sint a - sint b < 2 ^ 31"

lemma diff_fits_nonneg: "0 \<le> sint a \<Longrightarrow> 0 \<le> sint b \<Longrightarrow> diff_fits a b"
  using sint_range32 [of a] sint_range32 [of b] by (simp add: diff_fits_def)

lemma sint_minus_fits: "diff_fits a b \<Longrightarrow> sint (a - b) = sint a - sint b"
  by (simp add: diff_fits_def sint_word_diff signed_take_bit_int_eq_self)

lemma o_less_fits: "diff_fits a b \<Longrightarrow> o_less a b = of_bool (sint a < sint b)"
  by (simp add: o_less_sign sint_minus_fits)

lemma o_max_fits: "diff_fits a b \<Longrightarrow> sint (o_max a b) = max (sint a) (sint b)"
  by (simp add: o_max_def sign_bit bit_sign_iff sint_minus_fits)

lemma o_min_fits: "diff_fits a b \<Longrightarrow> sint (o_min a b) = min (sint a) (sint b)"
  by (simp add: o_min_def sign_bit bit_sign_iff sint_minus_fits)

text \<open>Flags are the words 0 and 1; the code combines them with \<open>&\<close>, \<open>|\<close> and \<open>1 - x\<close>.\<close>

lemma flag_simps [simp]:
  "(1 :: i32) - of_bool p = of_bool (\<not> p)"
  "(of_bool p :: i32) AND of_bool q = of_bool (p \<and> q)"
  "(of_bool p :: i32) OR of_bool q = of_bool (p \<or> q)"
  "(of_bool p :: i32) \<noteq> 0 \<longleftrightarrow> p"
  by (simp_all split: if_splits)

end
