(* ===== verification/Interfaces.thy ===== *)
theory Interfaces
  imports Common
begin

text \<open>
  The interfaces between components, as locales: what a client calls and what the provider promises.
  \<open>key_directory\<close> is the hot-key directory as the enclave map uses it.
\<close>

section \<open>A directory of position labels\<close>

locale key_directory =
  fixes lookup :: "'d \<Rightarrow> i32 \<Rightarrow> i32"
    and update :: "'d \<Rightarrow> i32 \<Rightarrow> i32 \<Rightarrow> bool \<times> 'd"
    and add :: "'d \<Rightarrow> i32 \<Rightarrow> i32 \<Rightarrow> bool \<times> 'd"
    and drop_key :: "'d \<Rightarrow> i32 \<Rightarrow> bool \<times> 'd"
    and size_of :: "'d \<Rightarrow> int"
    and room :: "'d \<Rightarrow> nat"
    and inv :: "'d \<Rightarrow> bool"
    and abs_map :: "'d \<Rightarrow> i32 \<rightharpoonup> i32"
  assumes finite_keys: "inv d \<Longrightarrow> finite (dom (abs_map d)) \<and> INVALID_KEY \<notin> dom (abs_map d)"
    and size_card: "inv d \<Longrightarrow> size_of d = int (card (dom (abs_map d))) \<and> size_of d \<le> int (room d)"
    and lookup_abs: "inv d \<Longrightarrow>
      lookup d k = (case abs_map d k of None \<Rightarrow> INVALID_LEAF | Some p \<Rightarrow> p)"
    and update_abs: "inv d \<Longrightarrow> k \<noteq> INVALID_KEY \<Longrightarrow> update d k p = (found, d') \<Longrightarrow>
      inv d' \<and> found = (k \<in> dom (abs_map d)) \<and> room d' = room d \<and>
      abs_map d' = (if k \<in> dom (abs_map d) then (abs_map d)(k \<mapsto> p) else abs_map d)"
    and add_abs: "inv d \<Longrightarrow> k \<notin> dom (abs_map d) \<Longrightarrow> add d k p = (done, d') \<Longrightarrow>
      inv d' \<and> done = (k \<noteq> INVALID_KEY \<and> size_of d < int (room d)) \<and> room d' = room d \<and>
      abs_map d' = (if done then (abs_map d)(k \<mapsto> p) else abs_map d)"
    and drop_abs: "inv d \<Longrightarrow> drop_key d k = (found, d') \<Longrightarrow>
      inv d' \<and> found = (k \<in> dom (abs_map d)) \<and> room d' = room d \<and>
      abs_map d' = (abs_map d)(k := None)"
begin

lemma add_size:
  assumes "inv d" "k \<notin> dom (abs_map d)" "add d k p = (True, d')"
  shows "size_of d' = size_of d + 1"
proof -
  have "inv d'" and "abs_map d' = (abs_map d)(k \<mapsto> p)"
    using add_abs [OF assms] by auto
  then show ?thesis
    using assms finite_keys [OF assms(1)] by (simp add: size_card card_insert_if)
qed

lemma drop_size:
  assumes "inv d" "drop_key d k = (found, d')"
  shows "size_of d' = size_of d - of_bool found"
proof -
  have "inv d'" "abs_map d' = (abs_map d)(k := None)" "found = (k \<in> dom (abs_map d))"
    using drop_abs [OF assms] by auto
  moreover have "0 < card (dom (abs_map d))" if "k \<in> dom (abs_map d)"
    using that finite_keys [OF assms(1)] by (auto simp: card_gt_0_iff)
  ultimately show ?thesis
    using assms finite_keys [OF assms(1)] by (auto simp: size_card card_Diff_singleton_if Suc_leI int_ops(6))
qed

text \<open>A key that was added is found under its label until it is dropped, and nothing else moves.\<close>

lemma add_then_lookup:
  assumes "inv d" "k \<notin> dom (abs_map d)" "add d k p = (True, d')"
  shows "lookup d' k' = (if k' = k then p else lookup d k')"
  using add_abs [OF assms] assms by (auto simp: lookup_abs)

lemma drop_then_lookup:
  assumes "inv d" "drop_key d k = (found, d')"
  shows "lookup d' k' = (if k' = k then INVALID_LEAF else lookup d k')"
  using drop_abs [OF assms] assms by (auto simp: lookup_abs)

lemma update_then_lookup:
  assumes "inv d" "k \<noteq> INVALID_KEY" "update d k p = (found, d')"
  shows "lookup d' k' = (if found \<and> k' = k then p else lookup d k')"
  using update_abs [OF assms] assms by (auto simp: lookup_abs)

lemma add_then_drop:
  assumes "inv d" "k \<notin> dom (abs_map d)" "add d k p = (True, d1)" "drop_key d1 k = (found, d2)"
  shows "found \<and> abs_map d2 = abs_map d"
  using add_abs [OF assms(1-3)] drop_abs [of d1 k found d2] assms by (auto simp: fun_eq_iff)

end

section \<open>An ORAM as a store of blocks\<close>

text \<open>
  What the AVL maps use of an ORAM. A client takes a block out along the path of its leaf (\<open>fetch\<close>),
  works on it, and puts it back under a leaf of its choice (\<open>put\<close>). \<open>amap\<close> is the map of the stored
  blocks, \<open>fits\<close> says which values the store takes and \<open>norm\<close> what it keeps of them.
\<close>

locale block_store =
  fixes inv :: "'o \<Rightarrow> bool"
    and amap :: "'o \<Rightarrow> i32 \<rightharpoonup> i32 \<times> bytes"
    and lf_ok :: "'o \<Rightarrow> i32 \<Rightarrow> bool"
    and fits :: "'o \<Rightarrow> bytes \<Rightarrow> bool"
    and norm :: "'o \<Rightarrow> bytes \<Rightarrow> bytes"
    and shape :: "'o \<Rightarrow> 's"
    and fetch :: "i32 \<Rightarrow> i32 \<Rightarrow> 'o \<Rightarrow> (block \<times> 'o) result"
    and put :: "i32 \<Rightarrow> i32 \<Rightarrow> bytes \<Rightarrow> 'o \<Rightarrow> 'o"
  assumes fetch_present: "inv s \<Longrightarrow> amap s k = Some (lf, v) \<Longrightarrow>
      safe_run (fetch lf k s) (\<lambda>(b, s'). inv s' \<and> shape s' = shape s
        \<and> amap s' = (amap s)(k := None) \<and> b = \<lparr>key = k, leaf = lf, val = v\<rparr>)"
    and put_new: "inv s \<Longrightarrow> k \<noteq> INVALID_KEY \<Longrightarrow> amap s k = None \<Longrightarrow> lf_ok s lf \<Longrightarrow> fits s v \<Longrightarrow>
      inv (put k lf v s) \<and> shape (put k lf v s) = shape s \<and> amap (put k lf v s) = (amap s)(k \<mapsto> (lf, norm s v))"
    and leaf_law: "inv s \<Longrightarrow> amap s k = Some (lf, v) \<Longrightarrow> lf_ok s lf \<and> k \<noteq> INVALID_KEY"
    and shape_law: "shape s = shape s' \<Longrightarrow> lf_ok s = lf_ok s' \<and> fits s = fits s' \<and> norm s = norm s'"
begin

text \<open>A block that is taken out, changed and put back under a new leaf.\<close>

lemma refile:
  assumes "inv s" "amap s k = Some (lf, v)" "lf_ok s lf'" "fits s v'"
  shows "safe_run (bind_result (fetch lf k s) (\<lambda>(b, s'). Inr (put k lf' v' s')))
    (\<lambda>s'. inv s' \<and> shape s' = shape s \<and> amap s' = (amap s)(k \<mapsto> (lf', norm s v')))"
proof (rule safe_run_bind [OF fetch_present [OF assms(1,2)]], clarify)
  fix b s' assume s': "inv s'" "shape s' = shape s" "amap s' = (amap s)(k := None)"
  note same = shape_law [OF s'(2)]
  have "inv (put k lf' v' s') \<and> shape (put k lf' v' s') = shape s'
      \<and> amap (put k lf' v' s') = (amap s')(k \<mapsto> (lf', norm s' v'))"
    by (rule put_new) (use s' same assms(3,4) leaf_law [OF assms(1,2)] in auto)
  then show "safe_run (Inr (put k lf' v' s')) (\<lambda>s'. inv s' \<and> shape s' = shape s
      \<and> amap s' = (amap s)(k \<mapsto> (lf', norm s v')))"
    using s' same by simp
qed

end

text \<open>An oblivious store also serves dummies: a miss and a dummy block change nothing.\<close>

locale oblivious_store = block_store +
  assumes fetch_missing: "inv s \<Longrightarrow> amap s k = None \<Longrightarrow> k \<noteq> INVALID_KEY \<Longrightarrow> lf_ok s lf \<Longrightarrow>
      safe_run (fetch lf k s) (\<lambda>(b, s'). inv s' \<and> shape s' = shape s \<and> amap s' = amap s \<and> fits s (val b))"
    and put_dummy: "inv s \<Longrightarrow> fits s v \<Longrightarrow>
      inv (put INVALID_KEY lf v s) \<and> shape (put INVALID_KEY lf v s) = shape s
      \<and> amap (put INVALID_KEY lf v s) = amap s"
begin

lemma fetch_any:
  assumes "inv s" "lf_ok s lf" "k \<noteq> INVALID_KEY" "\<And>l v. amap s k = Some (l, v) \<Longrightarrow> l = lf"
  shows "safe_run (fetch lf k s) (\<lambda>(b, s'). inv s' \<and> shape s' = shape s \<and> amap s' = (amap s)(k := None))"
proof (cases "amap s k")
  case None
  then have "(amap s)(k := None) = amap s" by auto
  then show ?thesis
    using fetch_missing [OF assms(1) None assms(3,2)] by (auto elim!: safe_run_mono)
next
  case (Some lv)
  then obtain v where "amap s k = Some (lf, v)" using assms(4) by (cases lv) auto
  then show ?thesis
    by (rule safe_run_mono [OF fetch_present [OF assms(1)]]) auto
qed

end

end
