(* ===== verification/Packed_Directory.thy ===== *)
theory Packed_Directory
  imports Oblivious Interfaces
begin

text \<open>
  \<open>src/tee/packed_directory.cpp\<close>: the hot-key directory of the enclave, a flat array on which every
  operation is a full scan of conditional moves. The abstraction \<open>dir_map\<close> is the partial map from
  keys to position labels; the lemmas show that each scan implements the map operation of its name,
  keeps the invariant \<open>dir_inv\<close> and keeps the entry count.
\<close>

section \<open>State and operations\<close>

record entry =
  ekey :: i32
  pos_label :: i32
  freq_count :: i32
  freq_epoch :: i32

definition empty_entry :: entry where
  "empty_entry = \<lparr>ekey = INVALID_KEY, pos_label = INVALID_LEAF, freq_count = 0, freq_epoch = 0\<rparr>"

text \<open>\<open>entries_\<close> has \<open>capacity_\<close> elements from the constructor on and is never resized.\<close>

record packed_directory =
  dir_capacity :: nat
  dir_count :: int
  dir_entries :: "entry list"

definition new_directory :: "nat \<Rightarrow> packed_directory" where
  "new_directory capacity =
     \<lparr>dir_capacity = capacity, dir_count = 0, dir_entries = replicate capacity empty_entry\<rparr>"

definition dir_lookup :: "packed_directory \<Rightarrow> i32 \<Rightarrow> i32" where
  "dir_lookup d k =
     foldl (\<lambda>result e. o_mov_i (o_equal (ekey e) k \<noteq> 0) result (pos_label e))
       INVALID_LEAF (dir_entries d)"

definition update_pos_entry :: "i32 \<Rightarrow> i32 \<Rightarrow> entry \<Rightarrow> entry" where
  "update_pos_entry k new_pos e =
     e\<lparr>pos_label := o_mov_i (o_equal (ekey e) k \<noteq> 0) (pos_label e) new_pos\<rparr>"

definition dir_update_pos :: "packed_directory \<Rightarrow> i32 \<Rightarrow> i32 \<Rightarrow> bool \<times> packed_directory" where
  "dir_update_pos d k new_pos =
     (let found = foldl (\<lambda>found e. found OR o_equal (ekey e) k) 0 (dir_entries d)
      in (found \<noteq> 0, d\<lparr>dir_entries := map (update_pos_entry k new_pos) (dir_entries d)\<rparr>))"

fun insert_scan :: "i32 \<Rightarrow> i32 \<Rightarrow> i32 \<Rightarrow> i32 \<Rightarrow> entry list \<Rightarrow> i32 \<times> entry list" where
  "insert_scan is_real k pos inserted [] = (inserted, [])"
| "insert_scan is_real k pos inserted (e # es) =
     (let not_inserted = 1 - inserted;
          is_empty = o_equal (ekey e) INVALID_KEY;
          is_slot = is_real AND not_inserted AND is_empty;
          e' = e\<lparr>ekey := o_mov_i (is_slot \<noteq> 0) (ekey e) k,
                 pos_label := o_mov_i (is_slot \<noteq> 0) (pos_label e) pos\<rparr>;
          (inserted', es') = insert_scan is_real k pos (inserted OR is_slot) es
      in (inserted', e' # es'))"

definition dir_insert :: "packed_directory \<Rightarrow> i32 \<Rightarrow> i32 \<Rightarrow> bool \<times> packed_directory" where
  "dir_insert d k pos =
     (let is_real = 1 - o_equal k INVALID_KEY;
          (inserted, es) = insert_scan is_real k pos 0 (dir_entries d)
      in (inserted \<noteq> 0, d\<lparr>dir_entries := es, dir_count := dir_count d + sint inserted\<rparr>))"

definition remove_entry :: "i32 \<Rightarrow> i32 \<Rightarrow> entry \<Rightarrow> entry" where
  "remove_entry is_real k e =
     (let match = (is_real AND o_equal (ekey e) k) \<noteq> 0
      in \<lparr>ekey = o_mov_i match (ekey e) INVALID_KEY,
          pos_label = o_mov_i match (pos_label e) INVALID_LEAF,
          freq_count = o_mov_i match (freq_count e) 0,
          freq_epoch = o_mov_i match (freq_epoch e) 0\<rparr>)"

definition dir_remove :: "packed_directory \<Rightarrow> i32 \<Rightarrow> bool \<times> packed_directory" where
  "dir_remove d k =
     (let is_real = 1 - o_equal k INVALID_KEY;
          removed = foldl (\<lambda>removed e. removed OR (is_real AND o_equal (ekey e) k)) 0 (dir_entries d)
      in (removed \<noteq> 0,
          d\<lparr>dir_entries := map (remove_entry is_real k) (dir_entries d),
            dir_count := dir_count d - sint removed\<rparr>))"

definition dir_lookup_and_update :: "packed_directory \<Rightarrow> i32 \<Rightarrow> i32 \<Rightarrow> i32 \<times> packed_directory" where
  "dir_lookup_and_update d k new_pos =
     (foldl (\<lambda>old_pos e. o_mov_i (o_equal (ekey e) k \<noteq> 0) old_pos (pos_label e))
        INVALID_LEAF (dir_entries d),
      d\<lparr>dir_entries := map (update_pos_entry k new_pos) (dir_entries d)\<rparr>)"

definition bump_entry :: "i32 \<Rightarrow> i32 \<Rightarrow> entry \<Rightarrow> entry" where
  "bump_entry k current_epoch e =
     (let match = o_equal (ekey e) k;
          stale = match AND o_less (freq_epoch e) current_epoch;
          fresh = match AND (1 - stale);
          e1 = e\<lparr>freq_count := o_mov_i (stale \<noteq> 0) (freq_count e) 1,
                 freq_epoch := o_mov_i (stale \<noteq> 0) (freq_epoch e) current_epoch\<rparr>
      in e1\<lparr>freq_count := o_mov_i (fresh \<noteq> 0) (freq_count e1) (freq_count e1 + 1)\<rparr>)"

definition dir_bump_freq :: "packed_directory \<Rightarrow> i32 \<Rightarrow> i32 \<Rightarrow> packed_directory" where
  "dir_bump_freq d k current_epoch =
     d\<lparr>dir_entries := map (bump_entry k current_epoch) (dir_entries d)\<rparr>"

definition should_demote :: "i32 \<Rightarrow> i32 \<Rightarrow> i32 \<Rightarrow> entry \<Rightarrow> i32" where
  "should_demote current_epoch staleness_windows demote_threshold e =
     (let is_real = 1 - o_equal (ekey e) INVALID_KEY;
          is_stale = is_real AND (o_less (freq_epoch e) (current_epoch - staleness_windows + 1)
                                  OR o_equal (freq_epoch e) 0);
          is_cold = is_real AND o_less (freq_count e) demote_threshold
      in is_stale OR is_cold)"

definition dir_find_demote_candidate ::
  "packed_directory \<Rightarrow> nat \<Rightarrow> i32 \<Rightarrow> i32 \<Rightarrow> i32 \<Rightarrow> i32" where
  "dir_find_demote_candidate d scan_idx current_epoch staleness_windows demote_threshold =
     (let cap = dir_capacity d
      in foldl (\<lambda>result i.
           let e = dir_entries d ! ((scan_idx + i) mod cap);
               should = should_demote current_epoch staleness_windows demote_threshold e;
               not_found = o_equal result INVALID_KEY
           in o_mov_i ((should AND not_found) \<noteq> 0) result (ekey e))
         INVALID_KEY [0..<cap])"

section \<open>Abstraction and invariant\<close>

definition live_entries :: "entry list \<Rightarrow> entry list" where
  "live_entries es = filter (\<lambda>e. ekey e \<noteq> INVALID_KEY) es"

definition dir_map :: "packed_directory \<Rightarrow> i32 \<rightharpoonup> i32" where
  "dir_map d = map_of (map (\<lambda>e. (ekey e, pos_label e)) (live_entries (dir_entries d)))"

definition dir_inv :: "packed_directory \<Rightarrow> bool" where
  "dir_inv d \<longleftrightarrow>
     length (dir_entries d) = dir_capacity d
     \<and> distinct (map ekey (live_entries (dir_entries d)))
     \<and> (\<forall>e\<in>set (dir_entries d). ekey e = INVALID_KEY \<longrightarrow> pos_label e = INVALID_LEAF)
     \<and> dir_count d = int (length (live_entries (dir_entries d)))"

lemma live_entries_simps [simp]:
  "live_entries [] = []"
  "live_entries (e # es) = (if ekey e = INVALID_KEY then live_entries es else e # live_entries es)"
  by (simp_all add: live_entries_def)

lemma set_live_entries [simp]:
  "set (live_entries es) = {e \<in> set es. ekey e \<noteq> INVALID_KEY}"
  by (auto simp: live_entries_def)

text \<open>Scans that only look for a key.\<close>

lemma lookup_scan:
  "distinct (map ekey (live_entries es)) \<Longrightarrow>
   \<forall>e\<in>set es. ekey e = INVALID_KEY \<longrightarrow> pos_label e = INVALID_LEAF \<Longrightarrow>
   (k \<in> ekey ` set (live_entries es) \<Longrightarrow> p = INVALID_LEAF) \<Longrightarrow>
   (k = INVALID_KEY \<Longrightarrow> p = INVALID_LEAF) \<Longrightarrow>
   foldl (\<lambda>result e. o_mov_i (o_equal (ekey e) k \<noteq> 0) result (pos_label e)) p es =
   (case map_of (map (\<lambda>e. (ekey e, pos_label e)) (live_entries es)) k of None \<Rightarrow> p | Some l \<Rightarrow> l)"
proof (induction es arbitrary: p)
  case Nil
  then show ?case by simp
next
  case (Cons e es)
  show ?case
  proof (cases "ekey e = k \<and> k \<noteq> INVALID_KEY")
    case True
    then have k: "k \<notin> ekey ` set (live_entries es)"
      using Cons.prems(1) by auto
    then have "map_of (map (\<lambda>e. (ekey e, pos_label e)) (live_entries es)) k = None"
      by (force simp: map_of_eq_None_iff image_iff)
    with True k Cons.IH [of "pos_label e"] Cons.prems show ?thesis by auto
  next
    case False
    with Cons.IH [of p] Cons.IH [of "pos_label e"] Cons.prems show ?thesis
      by (auto split: if_splits)
  qed
qed

lemma found_scan:
  "foldl (\<lambda>found e. found OR o_equal (ekey e) k) (of_bool b) es =
   of_bool (b \<or> (\<exists>e\<in>set es. ekey e = k))"
  by (induction es arbitrary: b) (auto simp del: of_bool_eq)

lemma removed_scan:
  "foldl (\<lambda>found e. found OR (of_bool r AND o_equal (ekey e) k)) (of_bool b) es =
   of_bool (b \<or> r \<and> (\<exists>e\<in>set es. ekey e = k))"
  by (induction es arbitrary: b) (auto simp del: of_bool_eq)

section \<open>The scans implement the map operations\<close>

lemma dir_map_dom:
  "dom (dir_map d) = {k. k \<noteq> INVALID_KEY \<and> (\<exists>e\<in>set (dir_entries d). ekey e = k)}"
  by (auto simp: dir_map_def dom_map_of_conv_image_fst image_iff)

lemma dir_map_None [simp]: "dir_map d INVALID_KEY = None"
  using dir_map_dom [of d] by auto

lemma dir_inv_labels:
  "dir_inv d \<Longrightarrow> e \<in> set (dir_entries d) \<Longrightarrow> ekey e = INVALID_KEY \<Longrightarrow> pos_label e = INVALID_LEAF"
  by (simp add: dir_inv_def)

lemma dir_count_card:
  assumes "dir_inv d"
  shows "dir_count d = int (card (dom (dir_map d)))" "dir_count d \<le> int (dir_capacity d)"
proof -
  let ?l = "live_entries (dir_entries d)"
  have "card (set (map ekey ?l)) = length ?l"
    using assms distinct_card [of "map ekey ?l"] by (simp add: dir_inv_def)
  moreover have "set (map ekey ?l) = dom (dir_map d)"
    by (auto simp: dir_map_dom)
  ultimately show "dir_count d = int (card (dom (dir_map d)))"
    using assms by (simp add: dir_inv_def)
  show "dir_count d \<le> int (dir_capacity d)"
    using assms length_filter_le [of "\<lambda>e. ekey e \<noteq> INVALID_KEY" "dir_entries d"]
    by (auto simp: dir_inv_def live_entries_def)
qed

lemma new_directory_inv: "dir_inv (new_directory n)" "dir_map (new_directory n) = Map.empty"
  by (auto simp: dir_inv_def new_directory_def live_entries_def empty_entry_def dir_map_def)

lemma dir_lookup_abs:
  "dir_inv d \<Longrightarrow> dir_lookup d k = (case dir_map d k of None \<Rightarrow> INVALID_LEAF | Some p \<Rightarrow> p)"
  unfolding dir_lookup_def dir_map_def
  by (rule lookup_scan) (auto simp: dir_inv_def)

lemma live_update_pos:
  "k \<noteq> INVALID_KEY \<Longrightarrow>
   live_entries (map (update_pos_entry k p) es) = map (update_pos_entry k p) (live_entries es)"
  by (induction es) (auto simp: update_pos_entry_def)

lemma ekey_update_pos [simp]: "ekey (update_pos_entry k p e) = ekey e"
  by (simp add: update_pos_entry_def)

lemma map_of_update_pos:
  "map_of (map (\<lambda>e. (ekey (update_pos_entry k p e), pos_label (update_pos_entry k p e))) es) =
   (let m = map_of (map (\<lambda>e. (ekey e, pos_label e)) es) in if k \<in> dom m then m(k \<mapsto> p) else m)"
  by (induction es) (auto simp: Let_def update_pos_entry_def fun_upd_twist split: if_splits)

lemma dir_update_pos_abs:
  assumes "dir_inv d" "k \<noteq> INVALID_KEY" "dir_update_pos d k p = (found, d')"
  shows "dir_inv d' \<and> found = (k \<in> dom (dir_map d)) \<and> dir_capacity d' = dir_capacity d \<and>
    dir_map d' = (if k \<in> dom (dir_map d) then (dir_map d)(k \<mapsto> p) else dir_map d)"
proof -
  have d': "d' = d\<lparr>dir_entries := map (update_pos_entry k p) (dir_entries d)\<rparr>"
    and "found = (\<exists>e\<in>set (dir_entries d). ekey e = k)"
    using assms(3) found_scan [of k False "dir_entries d"] by (auto simp: dir_update_pos_def)
  then have "found = (k \<in> dom (dir_map d))"
    using assms(2) by (auto simp: dir_map_dom)
  moreover have "dir_inv d'"
    using assms by (auto simp: dir_inv_def d' live_update_pos comp_def)
      (auto simp: update_pos_entry_def)
  moreover have "dir_map d' = (if k \<in> dom (dir_map d) then (dir_map d)(k \<mapsto> p) else dir_map d)"
    using assms(2) map_of_update_pos [of k p "live_entries (dir_entries d)"]
    by (simp add: dir_map_def d' live_update_pos comp_def Let_def)
  ultimately show ?thesis by (simp add: d')
qed

text \<open>The insertion takes the first empty slot.\<close>

lemma insert_scan_idle:
  "insert_scan r k p 1 es = (1, es)" "insert_scan 0 k p b es = (b, es)"
  by (induction es arbitrary: b) (auto simp: Let_def)

lemma insert_scan_full:
  "INVALID_KEY \<notin> ekey ` set es \<Longrightarrow> insert_scan r k p 0 es = (0, es)"
  by (induction es) auto

lemma insert_scan_slot:
  "INVALID_KEY \<notin> ekey ` set xs \<Longrightarrow> ekey e = INVALID_KEY \<Longrightarrow>
   insert_scan 1 k p 0 (xs @ e # ys) = (1, xs @ e\<lparr>ekey := k, pos_label := p\<rparr> # ys)"
  by (induction xs) (auto simp: insert_scan_idle)

lemma live_entries_append [simp]: "live_entries (xs @ ys) = live_entries xs @ live_entries ys"
  by (simp add: live_entries_def)

lemma map_of_insert_mid:
  "k \<notin> fst ` set xs \<Longrightarrow> map_of (xs @ (k, p) # ys) = (map_of (xs @ ys))(k \<mapsto> p)"
  by (induction xs) (auto simp: fun_upd_twist)

lemma dir_insert_abs:
  assumes "dir_inv d" "k \<notin> dom (dir_map d)" "dir_insert d k p = (done, d')"
  shows "dir_inv d' \<and> done = (k \<noteq> INVALID_KEY \<and> dir_count d < int (dir_capacity d))
    \<and> dir_capacity d' = dir_capacity d
    \<and> dir_map d' = (if done then (dir_map d)(k \<mapsto> p) else dir_map d)"
proof (cases "k \<noteq> INVALID_KEY \<and> INVALID_KEY \<in> ekey ` set (dir_entries d)")
  case False
  then have "insert_scan (1 - o_equal k INVALID_KEY) k p 0 (dir_entries d) = (0, dir_entries d)"
    by (auto simp: insert_scan_idle insert_scan_full)
  then have "done = False \<and> d' = d"
    using assms(3) by (auto simp: dir_insert_def)
  moreover have "\<not> (k \<noteq> INVALID_KEY \<and> dir_count d < int (dir_capacity d))"
  proof (cases "k = INVALID_KEY")
    case False
    with \<open>\<not> (k \<noteq> INVALID_KEY \<and> INVALID_KEY \<in> ekey ` set (dir_entries d))\<close>
    have "\<forall>e\<in>set (dir_entries d). ekey e \<noteq> INVALID_KEY" by force
    then have "live_entries (dir_entries d) = dir_entries d"
      by (simp add: live_entries_def)
    then show ?thesis using assms(1) by (simp add: dir_inv_def)
  qed simp
  ultimately show ?thesis using assms(1) by simp
next
  case True
  then obtain xs e ys where d: "dir_entries d = xs @ e # ys" "ekey e = INVALID_KEY"
    "INVALID_KEY \<notin> ekey ` set xs"
    using split_list_first_prop [of "dir_entries d" "\<lambda>e. ekey e = INVALID_KEY"] by force
  let ?e = "e\<lparr>ekey := k, pos_label := p\<rparr>"
  have "insert_scan (1 - o_equal k INVALID_KEY) k p 0 (dir_entries d) = (1, xs @ ?e # ys)"
    using d True by (simp add: insert_scan_slot)
  then have r: "done" "d' = d\<lparr>dir_entries := xs @ ?e # ys, dir_count := dir_count d + 1\<rparr>"
    using assms(3) by (auto simp: dir_insert_def)
  have new: "k \<notin> ekey ` set (live_entries (xs @ ys))"
    using assms(2) True by (auto simp: dir_map_dom d)
  have "length (live_entries (dir_entries d)) < length (dir_entries d)"
    using d length_filter_le [of _ xs] length_filter_le [of _ ys]
    by (simp add: live_entries_def add_le_less_mono less_Suc_eq_le add_mono)
  then have "dir_count d < int (dir_capacity d)" using assms(1) by (simp add: dir_inv_def)
  moreover have "dir_inv d'"
    using assms(1) new True d by (auto simp: dir_inv_def r)
  moreover have "dir_map d' = (dir_map d)(k \<mapsto> p)"
  proof -
    have "k \<notin> fst ` set (map (\<lambda>e. (ekey e, pos_label e)) (live_entries xs))"
      using new by force
    then show ?thesis
      using True d by (simp add: dir_map_def r map_of_insert_mid del: map_of_append)
  qed
  ultimately show ?thesis using True r by simp
qed

lemma live_remove:
  "k \<noteq> INVALID_KEY \<Longrightarrow> live_entries (map (remove_entry 1 k) es) =
   filter (\<lambda>e. ekey e \<noteq> k) (live_entries es)"
  by (induction es) (auto simp: remove_entry_def Let_def)

lemma remove_entry_idle [simp]: "remove_entry 0 k e = e"
  by (simp add: remove_entry_def)

lemma map_of_filter_key:
  "map_of (map (\<lambda>e. (ekey e, pos_label e)) (filter (\<lambda>e. ekey e \<noteq> k) es)) =
   (map_of (map (\<lambda>e. (ekey e, pos_label e)) es))(k := None)"
  by (induction es) (auto simp: fun_eq_iff)

lemma distinct_filter_length:
  "distinct (map ekey es) \<Longrightarrow>
   length (filter (\<lambda>e. ekey e \<noteq> k) es) + of_bool (k \<in> ekey ` set es) = length es"
  by (induction es) (auto simp: filter_id_conv image_iff)

lemma dir_remove_abs:
  assumes "dir_inv d" "dir_remove d k = (found, d')"
  shows "dir_inv d' \<and> found = (k \<in> dom (dir_map d)) \<and> dir_capacity d' = dir_capacity d \<and>
    dir_map d' = (dir_map d)(k := None)"
proof (cases "k = INVALID_KEY")
  case True
  then have "found = False \<and> d' = d"
    using assms(2) removed_scan [of False k False "dir_entries d"]
    by (auto simp: dir_remove_def map_idI)
  with True assms(1) show ?thesis by (auto simp: fun_eq_iff)
next
  case False
  let ?es = "dir_entries d"
  have found: "found = (k \<in> dom (dir_map d))"
    and d': "d' = d\<lparr>dir_entries := map (remove_entry 1 k) ?es, dir_count := dir_count d - of_bool found\<rparr>"
    using False assms(2) removed_scan [of True k False ?es]
    by (auto simp: dir_remove_def dir_map_dom Let_def split: if_splits)
  have "dir_map d' = (dir_map d)(k := None)"
    using False by (simp add: dir_map_def d' live_remove map_of_filter_key)
  moreover have "dir_inv d'"
  proof -
    have "length (filter (\<lambda>e. ekey e \<noteq> k) (live_entries ?es)) + of_bool found = length (live_entries ?es)"
    proof -
      have "found = (k \<in> ekey ` set (live_entries ?es))"
        using False by (auto simp: found dir_map_dom)
      then show ?thesis
        using distinct_filter_length [of "live_entries ?es" k] assms(1) by (simp add: dir_inv_def)
    qed
    moreover have "distinct (map ekey (filter (\<lambda>e. ekey e \<noteq> k) (live_entries ?es)))"
      using assms(1) by (simp add: dir_inv_def distinct_map inj_on_def)
    ultimately show ?thesis
      using assms(1) False
      by (auto simp: dir_inv_def d' live_remove remove_entry_def Let_def split: if_splits)
  qed
  ultimately show ?thesis using found by (simp add: d')
qed

interpretation dir: key_directory dir_lookup dir_update_pos dir_insert dir_remove dir_count
  dir_capacity dir_inv dir_map
proof unfold_locales
  show "finite (dom (dir_map d)) \<and> INVALID_KEY \<notin> dom (dir_map d)" for d
    by (auto simp: dir_map_def finite_dom_map_of simp flip: dir_map_def)
qed (use dir_lookup_abs dir_update_pos_abs dir_insert_abs dir_remove_abs dir_count_card in blast)+

text \<open>\<open>lookup_and_update\<close> is a lookup followed by an update, in one scan.\<close>

lemma dir_lookup_and_update_eq:
  "dir_lookup_and_update d k p = (dir_lookup d k, snd (dir_update_pos d k p))"
  by (simp add: dir_lookup_and_update_def dir_lookup_def dir_update_pos_def Let_def)

section \<open>Frequencies\<close>

lemma bump_entry_keeps [simp]:
  "ekey (bump_entry k t e) = ekey e" "pos_label (bump_entry k t e) = pos_label e"
  by (simp_all add: bump_entry_def Let_def)

lemma bump_entry_eq:
  "bump_entry k t e =
   (if ekey e \<noteq> k then e
    else if o_less (freq_epoch e) t \<noteq> 0 then e\<lparr>freq_count := 1, freq_epoch := t\<rparr>
    else e\<lparr>freq_count := freq_count e + 1\<rparr>)"
  by (auto simp: bump_entry_def Let_def o_less_sign)

lemma live_bump: "live_entries (map (bump_entry k t) es) = map (bump_entry k t) (live_entries es)"
  by (induction es) auto

lemma dir_bump_keeps:
  "dir_map (dir_bump_freq d k t) = dir_map d"
  "dir_inv d \<Longrightarrow> dir_inv (dir_bump_freq d k t)"
  "dir_count (dir_bump_freq d k t) = dir_count d"
  "dir_capacity (dir_bump_freq d k t) = dir_capacity d"
  by (simp_all add: dir_map_def dir_bump_freq_def live_bump comp_def dir_inv_def)

section \<open>The demotion scan\<close>

definition demotable :: "i32 \<Rightarrow> i32 \<Rightarrow> i32 \<Rightarrow> entry \<Rightarrow> bool" where
  "demotable t w th e \<longleftrightarrow> ekey e \<noteq> INVALID_KEY \<and>
     (sint (freq_epoch e - (t - w + 1)) < 0 \<or> freq_epoch e = 0 \<or> sint (freq_count e - th) < 0)"

lemma should_demote_flag: "should_demote t w th e = of_bool (demotable t w th e)"
  by (auto simp: should_demote_def demotable_def o_less_sign Let_def)

lemma demote_scan:
  "(\<And>e. P e \<Longrightarrow> ekey e \<noteq> INVALID_KEY) \<Longrightarrow>
   foldl (\<lambda>result e. if P e \<and> result = INVALID_KEY then ekey e else result) r es =
   (if r \<noteq> INVALID_KEY then r
    else case find P es of None \<Rightarrow> INVALID_KEY | Some e \<Rightarrow> ekey e)"
  by (induction es arbitrary: r) auto

lemma rotate_as_map:
  assumes "es \<noteq> []"
  shows "map (\<lambda>i. es ! ((s + i) mod length es)) [0..<length es] = rotate s es"
  by (rule nth_equalityI) (simp_all add: nth_rotate add.commute)

lemma foldl_map': "foldl f a (map g xs) = foldl (\<lambda>a x. f a (g x)) a xs"
  by (induction xs arbitrary: a) auto

lemma dir_find_demote_eq:
  assumes "dir_inv d"
  shows "dir_find_demote_candidate d s t w th =
    (case find (demotable t w th) (rotate s (dir_entries d)) of
       None \<Rightarrow> INVALID_KEY | Some e \<Rightarrow> ekey e)"
proof (cases "dir_entries d = []")
  case True
  then show ?thesis using assms by (simp add: dir_find_demote_candidate_def dir_inv_def)
next
  case False
  let ?f = "\<lambda>result e. if demotable t w th e \<and> result = INVALID_KEY then ekey e else result"
  have "dir_find_demote_candidate d s t w th =
      foldl ?f INVALID_KEY (map (\<lambda>i. dir_entries d ! ((s + i) mod length (dir_entries d)))
        [0..<length (dir_entries d)])"
    using assms unfolding dir_find_demote_candidate_def foldl_map'
    by (simp add: Let_def should_demote_flag dir_inv_def conj_commute cong: if_cong)
  also have "\<dots> = foldl ?f INVALID_KEY (rotate s (dir_entries d))"
    using rotate_as_map [OF False] by simp
  also have "\<dots> = (case find (demotable t w th) (rotate s (dir_entries d)) of
      None \<Rightarrow> INVALID_KEY | Some e \<Rightarrow> ekey e)"
    by (subst demote_scan) (auto simp: demotable_def)
  finally show ?thesis .
qed

end
