(* ===== verification/Avl_Node.thy ===== *)
theory Avl_Node
  imports Common Complex_Main
begin

text \<open>
  What the two AVL maps share: the node record \<open>AVLNodeData\<close> with its encoding
  (\<open>src/omap/avl_omap.cpp\<close>) and the height bound \<open>ceil(1.44 * log2(capacity))\<close> of their constructors.
\<close>

section \<open>Nodes\<close>

record avl_node =
  avl_data :: bytes
  l_key :: i32
  l_leaf :: i32
  l_height :: i32
  r_key :: i32
  r_leaf :: i32
  r_height :: i32

definition AVL_HEADER_SIZE :: nat where
  "AVL_HEADER_SIZE = 6 * 4"

definition new_avl_node :: "bytes \<Rightarrow> avl_node" where
  "new_avl_node d = \<lparr>avl_data = d, l_key = INVALID_KEY, l_leaf = INVALID_LEAF, l_height = 0,
     r_key = INVALID_KEY, r_leaf = INVALID_LEAF, r_height = 0\<rparr>"

definition max_i32 :: "i32 \<Rightarrow> i32 \<Rightarrow> i32" where
  "max_i32 a b = (if sint a < sint b then b else a)"

definition node_height :: "avl_node \<Rightarrow> i32" where
  "node_height n = 1 + max_i32 (l_height n) (r_height n)"

definition node_balance :: "avl_node \<Rightarrow> i32" where
  "node_balance n = l_height n - r_height n"

definition encode_node :: "avl_node \<Rightarrow> bytes" where
  "encode_node n =
     int_to_bytes (l_key n) @ int_to_bytes (l_leaf n) @ int_to_bytes (l_height n)
     @ int_to_bytes (r_key n) @ int_to_bytes (r_leaf n) @ int_to_bytes (r_height n) @ avl_data n"

definition decode_node :: "bytes \<Rightarrow> avl_node result" where
  "decode_node raw =
     (if length raw < AVL_HEADER_SIZE then Inl BufferTooSmall
      else Inr \<lparr>avl_data = drop AVL_HEADER_SIZE raw,
                l_key = load_int 0 raw, l_leaf = load_int 4 raw, l_height = load_int 8 raw,
                r_key = load_int 12 raw, r_leaf = load_int 16 raw, r_height = load_int 20 raw\<rparr>)"

lemma length_encode_node [simp]: "length (encode_node n) = AVL_HEADER_SIZE + length (avl_data n)"
  by (simp add: encode_node_def AVL_HEADER_SIZE_def)

lemma drop_int_to_bytes: "drop 4 (int_to_bytes v @ xs) = xs"
  by simp

lemma load_int_later: "off \<ge> 4 \<Longrightarrow> load_int off (int_to_bytes v @ xs) = load_int (off - 4) xs"
  by (simp add: load_int_def)

lemma decode_encode_node [simp]: "decode_node (encode_node n) = Inr n"
  by (simp add: decode_node_def) (simp add: encode_node_def AVL_HEADER_SIZE_def load_int_later)

lemma encode_node_inject [simp]: "encode_node a = encode_node b \<longleftrightarrow> a = b"
  by (metis decode_encode_node sum.inject(2))

lemma decode_node_short: "decode_node raw = Inl e \<longleftrightarrow> e = BufferTooSmall \<and> length raw < AVL_HEADER_SIZE"
  by (auto simp: decode_node_def)

lemma encode_decode_node:
  assumes "decode_node raw = Inr n"
  shows "encode_node n = raw"
proof -
  have len: "24 \<le> length raw"
    using assms by (simp add: decode_node_def AVL_HEADER_SIZE_def split: if_splits)
  have n: "n = \<lparr>avl_data = drop 24 raw, l_key = load_int 0 raw, l_leaf = load_int 4 raw,
      l_height = load_int 8 raw, r_key = load_int 12 raw, r_leaf = load_int 16 raw,
      r_height = load_int 20 raw\<rparr>"
    using assms by (simp add: decode_node_def AVL_HEADER_SIZE_def split: if_splits)
  have ints: "int_to_bytes (load_int off raw) = take 4 (drop off raw)" if "off + 4 \<le> 24" for off
    by (rule int_to_bytes_load_int) (use len that in simp)
  have step: "take 4 (drop m raw) @ drop (m + 4) raw = drop m raw" for m
    by (metis append_take_drop_id drop_drop add.commute)
  show ?thesis
    unfolding encode_node_def n
    using step [of 0] step [of 4] step [of 8] step [of 12] step [of 16] step [of 20]
    by (simp add: ints)
qed

text \<open>A zero value decodes to a node, so a dummy block never fails to decode.\<close>

lemma decode_node_total: "AVL_HEADER_SIZE \<le> length raw \<Longrightarrow> \<exists>n. decode_node raw = Inr n \<and> encode_node n = raw"
  using encode_decode_node by (fastforce simp: decode_node_def)

section \<open>Nodes taken out of the ORAM\<close>

text \<open>\<open>LocalNode\<close>: a node held by the client (or enclave) while an operation works on it.\<close>

record local_node =
  n_key :: i32
  n_leaf :: i32
  n_avl :: avl_node
  n_parent :: i32
  n_depth :: i32

section \<open>The height bound\<close>

text \<open>
  \<open>max(1, ceil(1.44 * log2(max(capacity, 2))))\<close>. \<open>1.44 = 36/25\<close>, so the ceiling is the least \<open>h\<close> with
  \<open>n^36 \<le> 2^(25 h)\<close>; the double computation rounds to the same integer for every \<open>int\<close> capacity.
\<close>

definition avl_max_height :: "int \<Rightarrow> nat" where
  "avl_max_height capacity = max 1 ((ceil_log2 (max capacity 2 ^ 36) + 24) div 25)"

lemma avl_max_height_least: "avl_max_height c \<le> h \<longleftrightarrow> max c 2 ^ 36 \<le> 2 ^ (25 * h) \<and> 1 \<le> h"
proof -
  have "1 \<le> max c 2 ^ 36" by (rule one_le_power) simp
  then have "ceil_log2 (max c 2 ^ 36) \<le> 25 * h \<longleftrightarrow> max c 2 ^ 36 \<le> 2 ^ (25 * h)"
    by (rule ceil_log2_least)
  moreover have "(m + 24) div 25 \<le> h \<longleftrightarrow> m \<le> 25 * h" for m :: nat by linarith
  ultimately show ?thesis by (auto simp: avl_max_height_def)
qed

lemma avl_max_height_ceiling:
  "int (avl_max_height c) = max 1 \<lceil>1.44 * log 2 (real_of_int (max c 2))\<rceil>"
proof -
  let ?n = "max c 2" and ?h = "avl_max_height c"
  have n: "0 < real_of_int ?n" by simp
  have le: "?n ^ 36 \<le> 2 ^ (25 * h) \<longleftrightarrow> 1.44 * log 2 (real_of_int ?n) \<le> real h" for h
  proof -
    have "?n ^ 36 \<le> 2 ^ (25 * h) \<longleftrightarrow> real_of_int ?n ^ 36 \<le> 2 ^ (25 * h)"
      by (metis of_int_le_iff of_int_numeral of_int_power)
    also have "\<dots> \<longleftrightarrow> log 2 (real_of_int ?n ^ 36) \<le> log 2 (2 ^ (25 * h))"
      using n by (subst log_le_cancel_iff) auto
    also have "\<dots> \<longleftrightarrow> 36 * log 2 (real_of_int ?n) \<le> 25 * real h"
      using n by (simp add: log_nat_power)
    finally show ?thesis by auto
  qed
  have "int ?h \<le> int h \<longleftrightarrow> max 1 \<lceil>1.44 * log 2 (real_of_int ?n)\<rceil> \<le> int h" for h
    unfolding of_nat_le_iff avl_max_height_least le max.bounded_iff ceiling_le_iff by auto
  from this [of ?h] this [of "nat (max 1 \<lceil>1.44 * log 2 (real_of_int ?n)\<rceil>)"] show ?thesis
    by linarith
qed

end
