(* ===== verification/Data_Properties.thy ===== *)
theory Data_Properties
  imports Packed_Directory Avl_Node "HOL-Library.Tree"
begin

text \<open>
  The properties of the data layer: the branch-free comparisons, the two codecs, the height bound of
  the AVL maps and the packed directory, which is refined to a partial map for whole call sequences.
\<close>

section \<open>The directory over a sequence of calls\<close>

datatype dir_call =
    CInsert i32 i32
  | CUpdate i32 i32
  | CSwap i32 i32
  | CRemove i32
  | CBump i32 i32

fun run_call :: "dir_call \<Rightarrow> packed_directory \<Rightarrow> packed_directory" where
  "run_call (CInsert k p) d = snd (dir_insert d k p)"
| "run_call (CUpdate k p) d = snd (dir_update_pos d k p)"
| "run_call (CSwap k p) d = snd (dir_lookup_and_update d k p)"
| "run_call (CRemove k) d = snd (dir_remove d k)"
| "run_call (CBump k t) d = dir_bump_freq d k t"

text \<open>
  What the calls mean on a map with room for \<open>cap\<close> keys. \<open>None\<close>: outside the contract, which asks
  for a new key on insert and for a valid key on a label update.
\<close>

fun call_spec :: "nat \<Rightarrow> dir_call \<Rightarrow> (i32 \<rightharpoonup> i32) \<Rightarrow> (i32 \<rightharpoonup> i32) option" where
  "call_spec cap (CInsert k p) m =
     (if k \<in> dom m then None
      else if k \<noteq> INVALID_KEY \<and> card (dom m) < cap then Some (m(k \<mapsto> p)) else Some m)"
| "call_spec cap (CUpdate k p) m =
     (if k = INVALID_KEY then None else Some (if k \<in> dom m then m(k \<mapsto> p) else m))"
| "call_spec cap (CSwap k p) m =
     (if k = INVALID_KEY then None else Some (if k \<in> dom m then m(k \<mapsto> p) else m))"
| "call_spec cap (CRemove k) m = Some (m(k := None))"
| "call_spec cap (CBump k t) m = Some m"

fun calls_spec :: "nat \<Rightarrow> dir_call list \<Rightarrow> (i32 \<rightharpoonup> i32) \<Rightarrow> (i32 \<rightharpoonup> i32) option" where
  "calls_spec cap [] m = Some m"
| "calls_spec cap (c # cs) m = (case call_spec cap c m of None \<Rightarrow> None | Some m' \<Rightarrow> calls_spec cap cs m')"

lemma run_call_spec:
  assumes "dir_inv d" "call_spec (dir_capacity d) c (dir_map d) = Some m"
  shows "dir_inv (run_call c d) \<and> dir_map (run_call c d) = m
    \<and> dir_capacity (run_call c d) = dir_capacity d"
proof (cases c)
  case (CInsert k p)
  then show ?thesis
    using assms dir_insert_abs [OF assms(1), of k p "fst (dir_insert d k p)" "snd (dir_insert d k p)"]
      dir_count_card [OF assms(1)]
    by (auto split: if_splits)
next
  case (CUpdate k p)
  then show ?thesis
    using assms dir_update_pos_abs [OF assms(1), of k p "fst (dir_update_pos d k p)" "snd (dir_update_pos d k p)"]
    by (auto split: if_splits)
next
  case (CSwap k p)
  then show ?thesis
    using assms dir_update_pos_abs [OF assms(1), of k p "fst (dir_update_pos d k p)" "snd (dir_update_pos d k p)"]
    by (auto simp: dir_lookup_and_update_eq split: if_splits)
next
  case (CRemove k)
  then show ?thesis
    using assms dir_remove_abs [OF assms(1), of k "fst (dir_remove d k)" "snd (dir_remove d k)"] by auto
qed (use assms in \<open>auto simp: dir_bump_keeps\<close>)

lemma run_calls_spec:
  "dir_inv d \<Longrightarrow> calls_spec (dir_capacity d) cs (dir_map d) = Some m \<Longrightarrow>
   dir_inv (fold run_call cs d) \<and> dir_map (fold run_call cs d) = m
   \<and> dir_capacity (fold run_call cs d) = dir_capacity d"
proof (induction cs arbitrary: d)
  case (Cons c cs)
  then obtain m' where m': "call_spec (dir_capacity d) c (dir_map d) = Some m'"
    "calls_spec (dir_capacity d) cs m' = Some m"
    by (auto split: option.splits)
  note s = run_call_spec [OF Cons.prems(1) m'(1)]
  then show ?case using Cons.IH [of "run_call c d"] m'(2) by simp
qed simp

text \<open>
  Claim C13: the packed directory refines a partial map. After any sequence of inserts, label updates,
  removals and frequency bumps that the contract allows, started on a new directory, a lookup scan
  returns the label of the map, and the entry count is the number of keys and within the capacity.
\<close>

theorem directory_refines_map:
  assumes "calls_spec cap cs Map.empty = Some m"
  shows "dir_lookup (fold run_call cs (new_directory cap)) k =
      (case m k of None \<Rightarrow> INVALID_LEAF | Some p \<Rightarrow> p)
    \<and> dir_count (fold run_call cs (new_directory cap)) = int (card (dom m))
    \<and> card (dom m) \<le> cap"
proof -
  have "dir_capacity (new_directory cap) = cap" by (simp add: new_directory_def)
  then have "dir_inv (fold run_call cs (new_directory cap))
      \<and> dir_map (fold run_call cs (new_directory cap)) = m
      \<and> dir_capacity (fold run_call cs (new_directory cap)) = cap"
    using run_calls_spec [OF new_directory_inv(1), of cap cs m] assms new_directory_inv(2) by simp
  then show ?thesis
    using dir_count_card [of "fold run_call cs (new_directory cap)"] by (auto simp: dir_lookup_abs)
qed

theorem directory_refines_map_witness:
  "dir_lookup (fold run_call [CInsert 7 3, CBump 7 1, CSwap 7 4, CInsert 8 5] (new_directory 1)) 7 = 4"
proof -
  have "calls_spec 1 [CInsert 7 3, CBump 7 1, CSwap 7 4, CInsert 8 5] Map.empty = Some [7 \<mapsto> 4]"
    by (simp add: INVALID_KEY_def)
  from directory_refines_map [OF this, of 7] show ?thesis by simp
qed

text \<open>
  The demotion scan returns the first demotable key in round-robin order from \<open>scan_idx\<close>,
  and \<open>INVALID_KEY\<close> when no entry is stale or cold, although it always visits the whole array. (The
  comment of \<open>packed_directory.h\<close> promises the key at \<open>scan_idx\<close> alone; the code goes on to the next ones.)
\<close>

lemma directory_demote_scan:
  assumes "dir_inv d"
  shows "dir_find_demote_candidate d scan_idx epoch windows threshold =
    (case find (\<lambda>e. ekey e \<noteq> INVALID_KEY \<and>
         (sint (freq_epoch e - (epoch - windows + 1)) < 0 \<or> freq_epoch e = 0
          \<or> sint (freq_count e - threshold) < 0)) (rotate scan_idx (dir_entries d)) of
       None \<Rightarrow> INVALID_KEY | Some e \<Rightarrow> ekey e)"
  using dir_find_demote_eq [OF assms, of scan_idx epoch windows threshold]
  unfolding demotable_def .

text \<open>
  Claim C27: a bump changes only the entry of its key: a stale entry restarts at 1 in the current epoch,
  a fresh one counts up; labels, keys and the invariant stay.
\<close>

theorem directory_bump_counts:
  assumes "dir_inv d" "\<forall>e\<in>set (dir_entries d). diff_fits (freq_epoch e) t"
  shows "dir_entries (dir_bump_freq d k t) =
      map (\<lambda>e. if ekey e \<noteq> k then e
               else if sint (freq_epoch e) < sint t then e\<lparr>freq_count := 1, freq_epoch := t\<rparr>
               else e\<lparr>freq_count := freq_count e + 1\<rparr>) (dir_entries d)
    \<and> dir_map (dir_bump_freq d k t) = dir_map d \<and> dir_inv (dir_bump_freq d k t)"
proof -
  have "dir_entries (dir_bump_freq d k t) =
      map (\<lambda>e. if ekey e \<noteq> k then e
               else if sint (freq_epoch e) < sint t then e\<lparr>freq_count := 1, freq_epoch := t\<rparr>
               else e\<lparr>freq_count := freq_count e + 1\<rparr>) (dir_entries d)"
    using assms(2) by (auto simp: dir_bump_freq_def bump_entry_eq o_less_fits)
  then show ?thesis using assms(1) by (simp add: dir_bump_keeps)
qed

theorem directory_bump_counts_witness:
  "dir_entries (dir_bump_freq (new_directory 1) INVALID_KEY 5) =
     [empty_entry\<lparr>freq_count := 1, freq_epoch := 5\<rparr>]"
proof -
  have "\<forall>e\<in>set (dir_entries (new_directory 1)). diff_fits (freq_epoch e) 5"
    by (simp add: new_directory_def empty_entry_def diff_fits_def)
  from directory_bump_counts [OF new_directory_inv(1) this, of INVALID_KEY] show ?thesis
    by (simp add: new_directory_def empty_entry_def)
qed

section \<open>Primitives and codecs\<close>

text \<open>
  Claim C31: the branch-free comparisons agree with the C comparisons: equality always, the order, the
  maximum and the minimum whenever the difference of the operands is an \<open>int\<close>.
\<close>

theorem branch_free_comparisons:
  "o_equal a b = (if a = b then 1 else 0)
   \<and> (diff_fits a b \<longrightarrow> o_less a b = (if sint a < sint b then 1 else 0)
        \<and> sint (o_max a b) = max (sint a) (sint b) \<and> sint (o_min a b) = min (sint a) (sint b))"
  by (simp add: o_less_fits o_max_fits o_min_fits)

theorem branch_free_comparisons_witness: "o_less (- 3) 4 = 1 \<and> sint (o_max (- 3) 4) = 4"
proof -
  have "diff_fits (- 3) 4" by (simp add: diff_fits_def)
  then show ?thesis using branch_free_comparisons [of "- 3" 4] by simp
qed

text \<open>
  The epoch tail is a codec: a decoded encoding gives value and metadata back, and a buffer
  that has room for the tail is the encoding of what it decodes to. A shorter buffer decodes to itself.
\<close>

theorem epoch_tail_roundtrip:
  "decode_epoch (encode_with_epoch v m) = (v, m)
   \<and> (EPOCH_META_SIZE \<le> length raw \<longrightarrow>
        encode_with_epoch (fst (decode_epoch raw)) (snd (decode_epoch raw)) = raw)
   \<and> (length raw < EPOCH_META_SIZE \<longrightarrow> decode_epoch raw = (raw, default_meta))"
  by (simp add: encode_decode_epoch [OF _ prod.collapse [symmetric]] decode_epoch_short)

theorem epoch_tail_roundtrip_witness:
  "encode_with_epoch (fst (decode_epoch (replicate 13 9))) (snd (decode_epoch (replicate 13 9)))
     = replicate 13 9 \<and> decode_epoch [1] = ([1], default_meta)"
  using epoch_tail_roundtrip [of "[]" default_meta "replicate 13 9"]
    epoch_tail_roundtrip [of "[]" default_meta "[1]"]
  by (simp add: EPOCH_META_SIZE_def)

text \<open>
  Claim C30: node encoding and decoding are inverse to each other, and decoding fails exactly on a
  buffer that is shorter than the header.
\<close>

theorem avl_node_roundtrip:
  "decode_node (encode_node n) = Inr n
   \<and> (AVL_HEADER_SIZE \<le> length raw \<longrightarrow> (\<exists>n'. decode_node raw = Inr n' \<and> encode_node n' = raw))
   \<and> (length raw < AVL_HEADER_SIZE \<longrightarrow> decode_node raw = Inl BufferTooSmall)"
  by (simp add: decode_node_total decode_node_short)

theorem avl_node_roundtrip_witness:
  "(\<exists>n. decode_node (replicate 25 1) = Inr n \<and> encode_node n = replicate 25 1)
   \<and> decode_node [] = Inl BufferTooSmall"
  using avl_node_roundtrip [of "new_avl_node []" "replicate 25 1"] avl_node_roundtrip [of "new_avl_node []" "[]"]
  by (simp add: AVL_HEADER_SIZE_def)

section \<open>The height bound\<close>

text \<open>The height bound of the AVL maps, computed here on integers, is the expression of the source.\<close>

lemma avl_max_height_source: "int (avl_max_height c) = max 1 \<lceil>1.44 * log 2 (real_of_int (max c 2))\<rceil>"
  by (rule avl_max_height_ceiling)

text \<open>The condition of an AVL tree, and the least number of nodes such a tree of a height has.\<close>

fun height_balanced :: "'a tree \<Rightarrow> bool" where
  "height_balanced Leaf \<longleftrightarrow> True"
| "height_balanced (Node l x r) \<longleftrightarrow>
     height l \<le> height r + 1 \<and> height r \<le> height l + 1 \<and> height_balanced l \<and> height_balanced r"

fun least_size :: "nat \<Rightarrow> nat" where
  "least_size 0 = 0"
| "least_size (Suc 0) = 1"
| "least_size (Suc (Suc h)) = least_size h + least_size (Suc h) + 1"

lemma least_size_Suc: "least_size h \<le> least_size (Suc h)"
  by (cases h) auto

lemma least_size_mono: "h \<le> h' \<Longrightarrow> least_size h \<le> least_size h'"
  by (rule lift_Suc_mono_le [of least_size, OF least_size_Suc])

lemma balanced_size: "height_balanced t \<Longrightarrow> least_size (height t) \<le> size t"
proof (induction t)
  case (Node l x r)
  let ?m = "max (height l) (height r)"
  show ?case
  proof (cases ?m)
    case (Suc h)
    have "height l = Suc h \<and> h \<le> height r \<or> height r = Suc h \<and> h \<le> height l"
      using Suc Node.prems by (auto simp: max_def split: if_splits)
    then have "least_size h + least_size (Suc h) \<le> size l + size r"
      using Node.IH Node.prems least_size_mono [of h "height l"] least_size_mono [of h "height r"] by auto
    then show ?thesis using Suc by simp
  qed (use Node in simp)
qed simp

text \<open>
  The trees with less than \<open>2 ^ 31\<close> nodes have at most 44 levels. The bound is checked for each height, with
  \<open>7 / 5\<close> for \<open>1.44 = 36 / 25\<close>, which keeps the numbers short.
\<close>

fun height_check :: "nat \<Rightarrow> nat \<Rightarrow> int \<Rightarrow> int \<Rightarrow> bool" where
  "height_check 0 h a b \<longleftrightarrow> 2 ^ 31 \<le> b"
| "height_check (Suc n) h a b \<longleftrightarrow> 2 ^ (5 * h) < b ^ 7 \<and> height_check n (Suc h) b (a + b + 1)"

lemma height_check_spec:
  "height_check n h (int (least_size h)) (int (least_size (Suc h))) \<Longrightarrow>
   (\<forall>i<n. 2 ^ (5 * (h + i)) < int (least_size (Suc (h + i))) ^ 7) \<and> 2 ^ 31 \<le> int (least_size (Suc (h + n)))"
proof (induction n arbitrary: h)
  case (Suc n)
  have s: "int (least_size h) + int (least_size (Suc h)) + 1 = int (least_size (Suc (Suc h)))" by simp
  have now: "2 ^ (5 * h) < int (least_size (Suc h)) ^ 7"
    and rest: "height_check n (Suc h) (int (least_size (Suc h))) (int (least_size (Suc (Suc h))))"
    using Suc.prems unfolding height_check.simps s by blast+
  note ih = Suc.IH [OF rest]
  show ?case
  proof (intro conjI allI impI)
    fix i assume "i < Suc n"
    then show "2 ^ (5 * (h + i)) < int (least_size (Suc (h + i))) ^ 7"
      using now conjunct1 [OF ih, rule_format, of "i - 1"] by (cases i) simp_all
  qed (use ih in simp)
qed simp

lemma height_check_numeral:
  "height_check (numeral n) h a b \<longleftrightarrow> 2 ^ (5 * h) < b ^ 7 \<and> height_check (pred_numeral n) (Suc h) b (a + b + 1)"
  by (simp add: numeral_eq_Suc)

lemma heights_checked: "height_check 43 1 1 2"
  by (simp add: height_check_numeral)

text \<open>
  Claim C32: the height bound of the AVL maps is enough. Whatever the capacity below \<open>2 ^ 31\<close>, a tree with at most
  that many nodes in which the two subtrees of every node differ in height by at most one is not higher than
  \<open>max_height\<close>, so the loop of a descent, of \<open>max_height\<close> iterations, reaches the end of every path of it.
\<close>

theorem avl_height_sufficient:
  assumes "height_balanced t" "int (size t) \<le> c" "c < 2 ^ 31"
  shows "height t \<le> avl_max_height c"
proof (cases "height t \<le> 1")
  case True
  then show ?thesis by (simp add: avl_max_height_def)
next
  case False
  then obtain i where i: "height t = Suc (1 + i)" using that [of "height t - 2"] by simp
  have ls: "int (least_size 1) = 1" "int (least_size (Suc 1)) = 2" by (simp_all add: numeral_2_eq_2)
  note chk = height_check_spec [of 43 1, unfolded ls, OF heights_checked]
  have sz: "int (least_size (Suc (1 + i))) \<le> c" using balanced_size [OF assms(1)] assms(2) i by simp
  have "i < 43"
  proof (rule ccontr)
    assume "\<not> i < 43"
    then have "int (least_size (Suc (1 + 43))) \<le> c" using least_size_mono [of "Suc (1 + 43)" "Suc (1 + i)"] sz by simp
    then show False using chk assms(3) by simp
  qed
  then have seven: "2 ^ (5 * (1 + i)) < int (least_size (Suc (1 + i))) ^ 7" using chk by blast
  have "(2 :: int) ^ (25 * (1 + i)) = (2 ^ (5 * (1 + i))) ^ (5 :: nat)" by (simp flip: power_mult)
  also have "\<dots> < (int (least_size (Suc (1 + i))) ^ 7) ^ 5" by (rule power_strict_mono [OF seven]) simp_all
  also have "\<dots> = int (least_size (Suc (1 + i))) ^ 35" by (simp flip: power_mult)
  also have "\<dots> \<le> int (least_size (Suc (1 + i))) ^ 36"
    by (rule power_increasing) (use least_size_mono [of 1 "Suc (1 + i)"] in simp_all)
  also have "\<dots> \<le> max c 2 ^ 36" by (rule power_mono) (use sz in simp_all)
  finally have "\<not> avl_max_height c \<le> 1 + i" unfolding avl_max_height_least by simp
  then show ?thesis using i by simp
qed

theorem avl_height_sufficient_witness:
  "height (Node (Node (Node Leaf 1 Leaf) 2 Leaf) (3 :: nat) (Node Leaf 4 Leaf)) = 3 \<and> 3 \<le> avl_max_height 4"
  using avl_height_sufficient [of "Node (Node (Node Leaf 1 Leaf) 2 Leaf) (3 :: nat) (Node Leaf 4 Leaf)" 4] by simp

end
