(* ===== verification/Tree_Geometry.thy ===== *)
theory Tree_Geometry
  imports Common
begin

text \<open>
  The array layout of the ORAM trees, shared by \<open>EnclaveOram\<close> and \<open>BinaryTreeStorage\<close>: node \<open>i\<close>
  has children \<open>2i+1\<close>, \<open>2i+2\<close> and parent \<open>(i-1)/2\<close>. Counting nodes from one turns the parent into
  a halving, which is how the lemmas give the length, the range and the ends of a path.
\<close>

definition parent :: "int \<Rightarrow> int" where
  "parent node = (node - 1) sdiv 2"

definition left_child :: "int \<Rightarrow> int" where
  "left_child node = 2 * node + 1"

definition right_child :: "int \<Rightarrow> int" where
  "right_child node = 2 * node + 2"

text \<open>The loop that climbs from a node to the root, at most \<open>d\<close> nodes.\<close>

fun walk_up :: "nat \<Rightarrow> int \<Rightarrow> int list" where
  "walk_up 0 node = []"
| "walk_up (Suc d) node = node # (if node = 0 then [] else walk_up d (parent node))"

text \<open>The nodes of the path to a leaf, from the leaf up, in a tree of \<open>level\<close> levels.\<close>

definition leaf_node :: "nat \<Rightarrow> int \<Rightarrow> int" where
  "leaf_node level l = 2 ^ (level - 1) - 1 + l"

definition path_up :: "nat \<Rightarrow> int \<Rightarrow> int list" where
  "path_up level l = walk_up level (leaf_node level l)"

definition valid_leaf :: "nat \<Rightarrow> int \<Rightarrow> bool" where
  "valid_leaf level l \<longleftrightarrow> 0 \<le> l \<and> l < 2 ^ (level - 1)"

section \<open>Parents and children\<close>

lemma parent_succ: "0 < node \<Longrightarrow> parent node + 1 = (node + 1) div 2"
  by (simp add: parent_def signed_divide_int_def sgn_if) presburger

lemma parent_bounds: "0 < node \<Longrightarrow> 0 \<le> parent node \<and> parent node < node"
  using parent_succ [of node] by linarith

lemma parent_child [simp]:
  "0 \<le> node \<Longrightarrow> parent (left_child node) = node" "0 \<le> node \<Longrightarrow> parent (right_child node) = node"
  using parent_succ [of "left_child node"] parent_succ [of "right_child node"]
  unfolding left_child_def right_child_def by linarith+

lemma child_of_parent: "0 < node \<Longrightarrow> node = left_child (parent node) \<or> node = right_child (parent node)"
  using parent_succ [of node] unfolding left_child_def right_child_def by linarith

section \<open>Paths\<close>

text \<open>A node at depth \<open>d\<close>, counted from one, lies between \<open>2 ^ d\<close> and \<open>2 ^ (d + 1)\<close>.\<close>

definition at_depth :: "nat \<Rightarrow> int \<Rightarrow> bool" where
  "at_depth d node \<longleftrightarrow> 2 ^ d \<le> node + 1 \<and> node + 1 < 2 ^ (d + 1)"

lemma at_depth_0 [simp]: "at_depth 0 node \<longleftrightarrow> node = 0"
  by (auto simp: at_depth_def)

lemma at_depth_Suc: "at_depth (Suc d) node \<longleftrightarrow> 0 < node \<and> at_depth d (parent node)"
proof -
  define x where "x = (2::int) ^ d"
  have "0 < x" by (simp add: x_def)
  have "at_depth (Suc d) node \<longleftrightarrow> 2 * x \<le> node + 1 \<and> node + 1 < 4 * x"
    by (simp add: at_depth_def x_def)
  also have "\<dots> \<longleftrightarrow> 0 < node \<and> x \<le> (node + 1) div 2 \<and> (node + 1) div 2 < 2 * x"
    using \<open>0 < x\<close> by presburger
  also have "\<dots> \<longleftrightarrow> 0 < node \<and> at_depth d (parent node)"
    using parent_succ [of node] by (auto simp: at_depth_def x_def)
  finally show ?thesis .
qed

lemma at_depth_pos: "at_depth (Suc d) node \<Longrightarrow> 0 < node"
  and at_depth_parent: "at_depth (Suc d) node \<Longrightarrow> at_depth d (parent node)"
  by (simp_all add: at_depth_Suc)

lemma at_depth_range: "at_depth d node \<Longrightarrow> 0 \<le> node \<and> node < 2 ^ (d + 1) - 1"
proof -
  have "(1::int) \<le> 2 ^ d" by simp
  then show "at_depth d node \<Longrightarrow> ?thesis" unfolding at_depth_def by linarith
qed

lemma at_depth_leaf: "1 \<le> level \<Longrightarrow> valid_leaf level l \<Longrightarrow> at_depth (level - 1) (leaf_node level l)"
  by (cases level) (auto simp: at_depth_def leaf_node_def valid_leaf_def)

lemma walk_up_at_depth:
  "at_depth d node \<Longrightarrow> length (walk_up (Suc d) node) = Suc d \<and> last (walk_up (Suc d) node) = 0
    \<and> (\<forall>i \<le> d. at_depth (d - i) (walk_up (Suc d) node ! i))"
proof (induction d arbitrary: node)
  case 0
  then show ?case by simp
next
  case (Suc d)
  have IH: "length (walk_up (Suc d) (parent node)) = Suc d"
    "last (walk_up (Suc d) (parent node)) = 0"
    "\<And>i. i \<le> d \<Longrightarrow> at_depth (d - i) (walk_up (Suc d) (parent node) ! i)"
    using Suc.IH [OF at_depth_parent [OF Suc.prems]] by auto
  have w: "walk_up (Suc (Suc d)) node = node # walk_up (Suc d) (parent node)"
    using at_depth_pos [OF Suc.prems] by simp
  show ?case
    unfolding w using IH Suc.prems
    by (auto simp: nth_Cons simp del: walk_up.simps split: nat.split)
qed

lemma path_up_props:
  assumes "1 \<le> level" "valid_leaf level l"
  shows "length (path_up level l) = level" "hd (path_up level l) = leaf_node level l"
    "last (path_up level l) = 0" "path_up level l \<noteq> []"
    "\<And>i. i < level \<Longrightarrow> at_depth (level - 1 - i) (path_up level l ! i)"
proof -
  obtain d where d: "level = Suc d" using assms(1) by (cases level) auto
  have "at_depth d (leaf_node level l)" using at_depth_leaf [OF assms] by (simp add: d)
  from walk_up_at_depth [OF this]
  show "length (path_up level l) = level" "last (path_up level l) = 0"
    "\<And>i. i < level \<Longrightarrow> at_depth (level - 1 - i) (path_up level l ! i)"
    by (auto simp: path_up_def d simp del: walk_up.simps)
  then show "path_up level l \<noteq> []" using d by auto
  show "hd (path_up level l) = leaf_node level l" by (simp add: path_up_def d)
qed

lemma path_up_range:
  assumes "1 \<le> level" "valid_leaf level l" "node \<in> set (path_up level l)"
  shows "0 \<le> node \<and> node < 2 ^ level - 1"
proof -
  obtain i where i: "i < level" "node = path_up level l ! i"
    using assms path_up_props(1) [OF assms(1,2)] by (auto simp: in_set_conv_nth)
  then have d: "at_depth (level - 1 - i) node" using path_up_props(5) [OF assms(1,2)] by blast
  have "(2::int) ^ (level - 1 - i + 1) \<le> 2 ^ level"
    by (rule power_increasing) (use i assms(1) in auto)
  then show ?thesis using at_depth_range [OF d] by linarith
qed

lemma at_depth_unique: "at_depth d node \<Longrightarrow> at_depth e node \<Longrightarrow> d = e"
proof (induction d e arbitrary: node rule: diff_induct)
  case (1 d)
  then show ?case by (cases d) (auto dest: at_depth_pos)
next
  case (2 e)
  then show ?case by (auto dest: at_depth_pos)
next
  case (3 d e)
  then show ?case using at_depth_parent by blast
qed

lemma distinct_path_up:
  assumes "1 \<le> level" "valid_leaf level l"
  shows "distinct (path_up level l)"
proof (unfold distinct_conv_nth, intro allI impI)
  fix i j
  assume ij: "i < length (path_up level l)" "j < length (path_up level l)" "i \<noteq> j"
  show "path_up level l ! i \<noteq> path_up level l ! j"
  proof
    assume "path_up level l ! i = path_up level l ! j"
    then have "level - 1 - i = level - 1 - j"
      using path_up_props(5) [OF assms, of i] path_up_props(5) [OF assms, of j] ij
        path_up_props(1) [OF assms] by (auto intro: at_depth_unique)
    with ij show False using path_up_props(1) [OF assms] by auto
  qed
qed

lemma root_in_path_up: "1 \<le> level \<Longrightarrow> valid_leaf level l \<Longrightarrow> 0 \<in> set (path_up level l)"
  using path_up_props(3,4) [of level l] by (metis last_in_set)

text \<open>Climbing without stopping at the root sees the same nodes, and then the root again.\<close>

lemma walk_up_subset: "set (walk_up d node) \<subseteq> {n. n \<le> node} " if "0 \<le> node"
  using that
proof (induction d arbitrary: node)
  case (Suc d)
  then show ?case
    using parent_bounds [of node] by (cases "node = 0") (force simp: subset_iff)+
qed simp

end
