(* ===== verification/Enclave_Oram.thy ===== *)
theory Enclave_Oram
  imports Oblivious Tree_Geometry
begin

text \<open>
  \<open>src/tee/enclave_oram.cpp\<close>: the Path ORAM that runs inside the enclave. The tree and the stash are
  vectors of fixed-size blocks, empty slots are blocks with \<open>INVALID_KEY\<close>, and every operation moves
  blocks by conditional moves only. The definitions follow the code loop by loop; their correctness
  is in \<open>Enclave_Oram_Correct\<close>.
\<close>

section \<open>State\<close>

record oram_stats =
  pages_touched :: nat
  node_accesses :: nat
  accesses :: nat

record enclave_oram =
  eo_value_size :: nat
  eo_bucket_size :: nat
  eo_level :: nat
  eo_leaf_range :: int
  eo_num_nodes :: int
  eo_stash_max :: nat
  eo_tree :: "block list list"
  eo_stash :: "block list"
  eo_last_stats :: oram_stats
  eo_total_stats :: oram_stats
  touched_pages :: "nat set"
  node_access_count :: nat

definition zero_stats :: oram_stats where
  "zero_stats = \<lparr>pages_touched = 0, node_accesses = 0, accesses = 0\<rparr>"

text \<open>A default block whose value is resized to \<open>value_size_\<close> zeros.\<close>

definition empty_slot :: "nat \<Rightarrow> block" where
  "empty_slot vs = default_block\<lparr>val := resize_with 0 vs []\<rparr>"

definition new_enclave_oram :: "int \<Rightarrow> nat \<Rightarrow> nat \<Rightarrow> nat \<Rightarrow> enclave_oram" where
  "new_enclave_oram num_data vsize bsize stash_scale =
     (let lv = max 1 (ceil_log2 num_data);
          nodes = 2 ^ lv - 1
      in \<lparr>eo_value_size = vsize, eo_bucket_size = bsize, eo_level = lv,
          eo_leaf_range = 2 ^ (lv - 1), eo_num_nodes = nodes, eo_stash_max = stash_scale * lv,
          eo_tree = replicate (nat nodes) (replicate bsize (empty_slot vsize)),
          eo_stash = [], eo_last_stats = zero_stats, eo_total_stats = zero_stats,
          touched_pages = {}, node_access_count = 0\<rparr>)"

definition leaf_to_node :: "enclave_oram \<Rightarrow> i32 \<Rightarrow> int" where
  "leaf_to_node o1 lf = eo_leaf_range o1 - 1 + sint lf"

definition random_leaf :: "enclave_oram \<Rightarrow> rng \<Rightarrow> i32 \<times> rng" where
  "random_leaf o1 r = (let (x, r') = rand_below (eo_leaf_range o1) r in (word_of_int x, r'))"

section \<open>Page tracking\<close>

definition PAGE_SIZE :: nat where
  "PAGE_SIZE = 4096"

definition node_byte_size :: "enclave_oram \<Rightarrow> nat" where
  "node_byte_size o1 = eo_bucket_size o1 * (4 * 2 + eo_value_size o1)"

definition begin_page_tracking :: "enclave_oram \<Rightarrow> enclave_oram" where
  "begin_page_tracking o1 = o1\<lparr>touched_pages := {}, node_access_count := 0\<rparr>"

definition end_page_tracking :: "enclave_oram \<Rightarrow> nat" where
  "end_page_tracking o1 = card (touched_pages o1)"

definition record_node_access :: "int \<Rightarrow> enclave_oram \<Rightarrow> enclave_oram" where
  "record_node_access node_idx o1 =
     (let bytes_per_node = node_byte_size o1;
          byte_start = nat node_idx * bytes_per_node;
          byte_end = byte_start + bytes_per_node;
          page_start = byte_start div PAGE_SIZE;
          last_byte = (if byte_end = 0 then 2 ^ 64 - 1 else byte_end - 1);
          page_end = last_byte div PAGE_SIZE
      in o1\<lparr>node_access_count := node_access_count o1 + 1,
            touched_pages := touched_pages o1 \<union> set [page_start..<page_end + 1]\<rparr>)"

section \<open>Path geometry\<close>

text \<open>The climb of fixed length; the root is its own parent.\<close>

fun contains_climb :: "nat \<Rightarrow> int \<Rightarrow> int \<Rightarrow> i32 \<Rightarrow> i32" where
  "contains_climb 0 cur node found = found"
| "contains_climb (Suc d) cur node found =
     contains_climb d (if cur > 0 then parent cur else 0) node
       (found OR o_equal (word_of_int cur) (word_of_int node))"

definition path_contains_oblivious :: "enclave_oram \<Rightarrow> i32 \<Rightarrow> int \<Rightarrow> bool" where
  "path_contains_oblivious o1 lf node =
     (contains_climb (eo_level o1) (leaf_to_node o1 lf) node 0 \<noteq> 0)"

function node_depth :: "int \<Rightarrow> nat" where
  "node_depth n = (if n > 0 then node_depth (parent n) + 1 else 0)"
  by pat_completeness auto
termination
  by (relation "measure nat") (use parent_bounds in \<open>force+\<close>)

declare node_depth.simps [simp del]

section \<open>Stash\<close>

definition pad_stash :: "enclave_oram \<Rightarrow> enclave_oram" where
  "pad_stash o1 =
     o1\<lparr>eo_stash := eo_stash o1 @ replicate (eo_stash_max o1 - length (eo_stash o1)) (empty_slot (eo_value_size o1))\<rparr>"

definition valid_count :: "block list \<Rightarrow> nat" where
  "valid_count bs = foldl (\<lambda>c sb. c + unat (1 - o_equal (key sb) INVALID_KEY)) 0 bs"

definition stash_valid_count :: "enclave_oram \<Rightarrow> nat" where
  "stash_valid_count o1 = valid_count (eo_stash o1)"

definition add_to_stash :: "i32 \<Rightarrow> i32 \<Rightarrow> bytes \<Rightarrow> enclave_oram \<Rightarrow> enclave_oram" where
  "add_to_stash k lf v o1 =
     o1\<lparr>eo_stash := eo_stash o1 @ [\<lparr>key = k, leaf = lf, val = pad_bytes v (eo_value_size o1)\<rparr>]\<rparr>"

text \<open>Every matching block is invalidated, and the last one is the result.\<close>

definition extract_step :: "i32 \<Rightarrow> block \<Rightarrow> block \<Rightarrow> block \<times> block" where
  "extract_step k result sb =
     (let key_match = o_equal (key sb) k;
          not_invalid = 1 - o_equal (key sb) INVALID_KEY;
          match = (key_match AND not_invalid) \<noteq> 0
      in (\<lparr>key = o_mov_i match (key result) (key sb),
           leaf = o_mov_i match (leaf result) (leaf sb),
           val = o_mov_bytes match (val result) (val sb)\<rparr>,
          sb\<lparr>key := o_mov_i match (key sb) INVALID_KEY\<rparr>))"

fun extract_scan :: "i32 \<Rightarrow> block \<Rightarrow> block list \<Rightarrow> block \<times> block list" where
  "extract_scan k result [] = (result, [])"
| "extract_scan k result (sb # sbs) =
     (case extract_step k result sb of (result', sb') \<Rightarrow>
      case extract_scan k result' sbs of (res, sbs') \<Rightarrow> (res, sb' # sbs'))"

definition extract_from_stash :: "i32 \<Rightarrow> enclave_oram \<Rightarrow> block \<times> enclave_oram" where
  "extract_from_stash k o1 =
     (let (res, st) = extract_scan k (empty_slot (eo_value_size o1)) (eo_stash o1)
      in (res, o1\<lparr>eo_stash := st\<rparr>))"

section \<open>Reading a path\<close>

text \<open>
  Every slot of every bucket on the way to the root moves to the stash, the empty ones too. A node
  outside the tree is an access outside \<open>tree_\<close>.
\<close>

definition read_node :: "int \<Rightarrow> enclave_oram \<Rightarrow> enclave_oram" where
  "read_node node o1 =
     (let o2 = record_node_access node o1
      in o2\<lparr>eo_stash := eo_stash o2 @ eo_tree o2 ! nat node,
            eo_tree := (eo_tree o2)[nat node := map (\<lambda>_. empty_slot (eo_value_size o2)) (eo_tree o2 ! nat node)]\<rparr>)"

fun read_climb :: "nat \<Rightarrow> int \<Rightarrow> enclave_oram \<Rightarrow> (int list \<times> enclave_oram) result" where
  "read_climb 0 node o1 = Inr ([], o1)"
| "read_climb (Suc d) node o1 =
     (if \<not> in_range node (eo_tree o1) then Inl OutOfBounds
      else if node = 0 then Inr ([node], read_node node o1)
      else case read_climb d (parent node) (read_node node o1) of
             Inl e \<Rightarrow> Inl e
           | Inr (nodes, o2) \<Rightarrow> Inr (node # nodes, o2))"

definition read_path :: "i32 \<Rightarrow> enclave_oram \<Rightarrow> (int list \<times> enclave_oram) result" where
  "read_path lf o1 = read_climb (eo_level o1) (leaf_to_node o1 lf) o1"

definition read_path_to_stash :: "i32 \<Rightarrow> enclave_oram \<Rightarrow> enclave_oram result" where
  "read_path_to_stash lf o1 = bind_result (read_path lf o1) (\<lambda>(nodes, o2). Inr o2)"

section \<open>Eviction\<close>

text \<open>One slot takes the first real stash block whose path contains the node.\<close>

definition evict_step ::
  "enclave_oram \<Rightarrow> int \<Rightarrow> block \<Rightarrow> i32 \<Rightarrow> block \<Rightarrow> block \<times> i32 \<times> block" where
  "evict_step o1 node slot filled sb =
     (let is_real = 1 - o_equal (key sb) INVALID_KEY;
          on_path = (if path_contains_oblivious o1 (leaf sb) node then 1 else 0);
          not_filled = 1 - filled;
          candidate = (is_real AND on_path AND not_filled) \<noteq> 0
      in (\<lparr>key = o_mov_i candidate (key slot) (key sb),
           leaf = o_mov_i candidate (leaf slot) (leaf sb),
           val = o_mov_bytes candidate (val slot) (val sb)\<rparr>,
          o_mov_i candidate filled 1,
          sb\<lparr>key := o_mov_i candidate (key sb) INVALID_KEY\<rparr>))"

fun evict_slot :: "enclave_oram \<Rightarrow> int \<Rightarrow> block \<Rightarrow> i32 \<Rightarrow> block list \<Rightarrow> block \<times> block list" where
  "evict_slot o1 node slot filled [] = (slot, [])"
| "evict_slot o1 node slot filled (sb # sbs) =
     (case evict_step o1 node slot filled sb of (slot', filled', sb') \<Rightarrow>
      case evict_slot o1 node slot' filled' sbs of (res, sbs') \<Rightarrow> (res, sb' # sbs'))"

fun evict_bucket :: "enclave_oram \<Rightarrow> int \<Rightarrow> block list \<Rightarrow> block list \<Rightarrow> block list \<times> block list" where
  "evict_bucket o1 node [] st = ([], st)"
| "evict_bucket o1 node (slot # slots) st =
     (case evict_slot o1 node slot 0 st of (slot', st') \<Rightarrow>
      case evict_bucket o1 node slots st' of (slots', st'') \<Rightarrow> (slot' # slots', st''))"

definition evict_node :: "int \<Rightarrow> enclave_oram \<Rightarrow> enclave_oram" where
  "evict_node node o1 =
     (let o2 = record_node_access node o1;
          (bucket, st) = evict_bucket o2 node (eo_tree o2 ! nat node) (eo_stash o2)
      in o2\<lparr>eo_tree := (eo_tree o2)[nat node := bucket], eo_stash := st\<rparr>)"

fun evict_nodes :: "int list \<Rightarrow> enclave_oram \<Rightarrow> enclave_oram result" where
  "evict_nodes [] o1 = Inr o1"
| "evict_nodes (node # nodes) o1 =
     (if \<not> in_range node (eo_tree o1) then Inl OutOfBounds
      else evict_nodes nodes (evict_node node o1))"

text \<open>One pass of the compaction: adjacent blocks are swapped where an empty one stands on the left.\<close>

definition swap_block :: "bool \<Rightarrow> block \<Rightarrow> block \<Rightarrow> block \<times> block" where
  "swap_block c a b =
     (let (ka, kb) = o_swap_i c (key a) (key b);
          (la, lb) = o_swap_i c (leaf a) (leaf b);
          (va, vb) = o_swap_bytes c (val a) (val b)
      in (\<lparr>key = ka, leaf = la, val = va\<rparr>, \<lparr>key = kb, leaf = lb, val = vb\<rparr>))"

definition compact_step :: "block \<Rightarrow> block \<Rightarrow> block \<times> block" where
  "compact_step a b =
     (let left_inv = o_equal (key a) INVALID_KEY;
          right_val = 1 - o_equal (key b) INVALID_KEY
      in swap_block ((left_inv AND right_val) \<noteq> 0) a b)"

fun compact_pass :: "block list \<Rightarrow> block list" where
  "compact_pass (a # b # bs) =
     (case compact_step a b of (a', b') \<Rightarrow> a' # compact_pass (b' # bs))"
| "compact_pass bs = bs"

definition compact :: "block list \<Rightarrow> block list" where
  "compact bs = (compact_pass ^^ length bs) bs"

definition evict_path :: "int list \<Rightarrow> enclave_oram \<Rightarrow> enclave_oram result" where
  "evict_path path_nodes o1 =
     bind_result (evict_nodes path_nodes o1) (\<lambda>o2.
       let st = compact (eo_stash o2);
           valid = valid_count st;
           o3 = pad_stash (o2\<lparr>eo_stash := resize_with default_block (max valid (eo_stash_max o2)) st\<rparr>)
       in if valid > eo_stash_max o3 then Inl (StashOverflow valid (eo_stash_max o3)) else Inr o3)"

definition evict_one_path :: "i32 \<Rightarrow> enclave_oram \<Rightarrow> enclave_oram result" where
  "evict_one_path lf o1 = evict_path (walk_up (eo_level o1) (leaf_to_node o1 lf)) o1"

section \<open>Access\<close>

definition access_step ::
  "i32 \<Rightarrow> i32 \<Rightarrow> i32 \<Rightarrow> i32 \<Rightarrow> bytes \<Rightarrow> bytes \<Rightarrow> block \<Rightarrow> bytes \<times> block" where
  "access_step real_i has_new k new_leaf padded_new result sb =
     (let match = real_i AND o_equal (key sb) k;
          do_write = match AND has_new
      in (o_mov_bytes (match \<noteq> 0) result (val sb),
          sb\<lparr>val := o_mov_bytes (do_write \<noteq> 0) (val sb) padded_new,
             leaf := o_mov_i (match \<noteq> 0) (leaf sb) new_leaf\<rparr>))"

fun access_scan :: "i32 \<Rightarrow> i32 \<Rightarrow> i32 \<Rightarrow> i32 \<Rightarrow> bytes \<Rightarrow> bytes \<Rightarrow> block list \<Rightarrow> bytes \<times> block list" where
  "access_scan real_i has_new k new_leaf padded_new result [] = (result, [])"
| "access_scan real_i has_new k new_leaf padded_new result (sb # sbs) =
     (case access_step real_i has_new k new_leaf padded_new result sb of (result', sb') \<Rightarrow>
      case access_scan real_i has_new k new_leaf padded_new result' sbs of (res, sbs') \<Rightarrow>
        (res, sb' # sbs'))"

definition access_or_dummy ::
  "i32 \<Rightarrow> i32 \<Rightarrow> i32 \<Rightarrow> bool \<Rightarrow> bytes option \<Rightarrow> enclave_oram \<Rightarrow> rng \<Rightarrow>
   (bytes \<times> enclave_oram \<times> rng) result" where
  "access_or_dummy k old_leaf new_leaf is_real new_value o0 r =
     (let o1 = begin_page_tracking (o0\<lparr>eo_last_stats := zero_stats\<rparr>);
          (dummy_leaf, r1) = random_leaf o1 r;
          use_leaf = o_select_i is_real old_leaf dummy_leaf
      in bind_result (read_path use_leaf o1) (\<lambda>(path_nodes, o2).
           let padded_new = (case new_value of None \<Rightarrow> replicate (eo_value_size o2) 0
                             | Some v \<Rightarrow> pad_bytes v (eo_value_size o2));
               (res, st) = access_scan (of_bool is_real) (of_bool (new_value \<noteq> None)) k new_leaf
                             padded_new (replicate (eo_value_size o2) 0) (eo_stash o2)
           in bind_result (evict_path path_nodes (o2\<lparr>eo_stash := st\<rparr>)) (\<lambda>o3.
                let ls = \<lparr>pages_touched = end_page_tracking o3,
                          node_accesses = node_access_count o3, accesses = 1\<rparr>;
                    ts = \<lparr>pages_touched = pages_touched (eo_total_stats o3) + pages_touched ls,
                          node_accesses = node_accesses (eo_total_stats o3) + node_accesses ls,
                          accesses = accesses (eo_total_stats o3) + accesses ls\<rparr>
                in Inr (res, o3\<lparr>eo_last_stats := ls, eo_total_stats := ts\<rparr>, r1))))"

definition access_oram ::
  "i32 \<Rightarrow> i32 \<Rightarrow> i32 \<Rightarrow> bytes option \<Rightarrow> enclave_oram \<Rightarrow> rng \<Rightarrow> (bytes \<times> enclave_oram \<times> rng) result" where
  "access_oram k old_leaf new_leaf new_value o1 r =
     access_or_dummy k old_leaf new_leaf True new_value o1 r"

definition oram_dummy_access :: "enclave_oram \<Rightarrow> rng \<Rightarrow> (enclave_oram \<times> rng) result" where
  "oram_dummy_access o1 r =
     (let (rl, r1) = random_leaf o1 r
      in bind_result (access_or_dummy INVALID_KEY rl rl False None o1 r1)
           (\<lambda>(_, o2, r2). Inr (o2, r2)))"

section \<open>Initial load\<close>

text \<open>The first entry of a key fixes its leaf: a preset one, or a fresh draw.\<close>

fun assign_leaves ::
  "int \<Rightarrow> (i32 \<rightharpoonup> i32) \<Rightarrow> (i32 \<times> bytes) list \<Rightarrow> (i32 \<times> i32) list \<Rightarrow> rng \<Rightarrow> (i32 \<times> i32) list \<times> rng" where
  "assign_leaves lrange preset [] leaf_map r = (leaf_map, r)"
| "assign_leaves lrange preset ((k, v) # data) leaf_map r =
     (if map_of leaf_map k \<noteq> None then assign_leaves lrange preset data leaf_map r
      else case preset k of
             Some lf \<Rightarrow> assign_leaves lrange preset data (leaf_map @ [(k, lf)]) r
           | None \<Rightarrow> (let (x, r') = rand_below lrange r
                      in assign_leaves lrange preset data (leaf_map @ [(k, word_of_int x)]) r'))"

text \<open>The first empty slot of a bucket.\<close>

fun fill_slot :: "block \<Rightarrow> block list \<Rightarrow> block list option" where
  "fill_slot b [] = None"
| "fill_slot b (s # ss) =
     (if key s = INVALID_KEY then Some (b # ss) else map_option ((#) s) (fill_slot b ss))"

text \<open>The climb from the leaf to the first bucket with room; none leaves the block to the stash.\<close>

function place_climb :: "block \<Rightarrow> int \<Rightarrow> block list list \<Rightarrow> (block list list option) result" where
  "place_climb b node t =
     (if node < 0 then Inr None
      else if \<not> in_range node t then Inl OutOfBounds
      else case fill_slot b (t ! nat node) of
             Some bucket \<Rightarrow> Inr (Some (t[nat node := bucket]))
           | None \<Rightarrow> if node = 0 then Inr None else place_climb b (parent node) t)"
  by pat_completeness auto
termination
  by (relation "measure (\<lambda>(b, node, t). nat node)") (use parent_bounds in \<open>force+\<close>)

declare place_climb.simps [simp del]

fun init_place :: "(i32 \<times> bytes) list \<Rightarrow> (i32 \<times> i32) list \<Rightarrow> enclave_oram \<Rightarrow> enclave_oram result" where
  "init_place [] leaf_map o1 = Inr o1"
| "init_place ((k, v) # data) leaf_map o1 =
     (let lf = the (map_of leaf_map k);
          b = \<lparr>key = k, leaf = lf, val = pad_bytes v (eo_value_size o1)\<rparr>
      in bind_result (place_climb b (leaf_to_node o1 lf) (eo_tree o1)) (\<lambda>placed.
           init_place data leaf_map
             (case placed of Some t \<Rightarrow> o1\<lparr>eo_tree := t\<rparr>
              | None \<Rightarrow> o1\<lparr>eo_stash := eo_stash o1 @ [b]\<rparr>)))"

definition oram_init ::
  "(i32 \<times> bytes) list \<Rightarrow> (i32 \<rightharpoonup> i32) \<Rightarrow> enclave_oram \<Rightarrow> rng \<Rightarrow>
   ((i32 \<times> i32) list \<times> enclave_oram \<times> rng) result" where
  "oram_init data preset o0 r =
     (let o1 = o0\<lparr>eo_stash := []\<rparr>;
          (leaf_map, r1) = assign_leaves (eo_leaf_range o1) preset data [] r
      in bind_result (init_place data leaf_map o1)
           (\<lambda>o2. Inr (leaf_map, pad_stash o2, r1)))"

end
