(* ===== verification/Block_Lists.thy ===== *)
theory Block_Lists
  imports Common
begin

text \<open>
  Lists of blocks read as a map: the blocks that are not dummies, by key. Both ORAMs move blocks
  between a tree and a stash; what they keep is the multiset of live blocks, and with distinct keys
  that multiset determines the map.
\<close>

definition live :: "block list \<Rightarrow> block list" where
  "live bs = filter (\<lambda>b. key b \<noteq> INVALID_KEY) bs"

definition block_map :: "block list \<Rightarrow> i32 \<rightharpoonup> i32 \<times> bytes" where
  "block_map bs = map_of (map (\<lambda>b. (key b, (leaf b, val b))) (live bs))"

definition keys_distinct :: "block list \<Rightarrow> bool" where
  "keys_distinct bs \<longleftrightarrow> distinct (map key (live bs))"

lemma live_simps [simp]:
  "live [] = []"
  "live (b # bs) = (if key b = INVALID_KEY then live bs else b # live bs)"
  "live (xs @ ys) = live xs @ live ys"
  by (simp_all add: live_def)

lemma set_live [simp]: "set (live bs) = {b \<in> set bs. key b \<noteq> INVALID_KEY}"
  by (auto simp: live_def)

lemma live_concat: "live (concat bss) = concat (map live bss)"
  by (induction bss) simp_all

lemma mset_live: "mset (live bs) = filter_mset (\<lambda>b. key b \<noteq> INVALID_KEY) (mset bs)"
  by (simp add: live_def)

lemma live_empty_iff: "live bs = [] \<longleftrightarrow> (\<forall>b\<in>set bs. key b = INVALID_KEY)"
  by (simp add: live_def filter_empty_conv)

lemma live_replicate [simp]: "key b = INVALID_KEY \<Longrightarrow> live (replicate n b) = []"
  by (simp add: live_empty_iff)

lemma length_live_le: "length (live bs) \<le> length bs"
  by (simp add: live_def)

lemma keys_distinct_mset:
  "mset (live xs) = mset (live ys) \<Longrightarrow> keys_distinct xs \<longleftrightarrow> keys_distinct ys"
  by (metis keys_distinct_def mset_map mset_eq_imp_distinct_iff)

lemma block_map_mset:
  assumes "mset (live xs) = mset (live ys)" "keys_distinct xs"
  shows "block_map xs = block_map ys"
proof -
  have "set (live xs) = set (live ys)"
    using assms(1) by (metis set_mset_mset)
  moreover have "keys_distinct ys"
    using assms keys_distinct_mset by blast
  ultimately show ?thesis
    using assms(2) unfolding block_map_def keys_distinct_def
    by (subst map_of_inject_set) (auto simp: comp_def)
qed

lemma block_map_Some_iff:
  "keys_distinct bs \<Longrightarrow>
   block_map bs k = Some (l, v) \<longleftrightarrow> (\<exists>b\<in>set bs. key b = k \<and> k \<noteq> INVALID_KEY \<and> leaf b = l \<and> val b = v)"
  unfolding block_map_def keys_distinct_def
  by (subst map_of_eq_Some_iff) (auto simp: comp_def)

lemma dom_block_map: "dom (block_map bs) = key ` set (live bs)"
  by (auto simp: block_map_def dom_map_of_conv_image_fst image_iff)

lemma block_map_INVALID [simp]: "block_map bs INVALID_KEY = None"
  using dom_block_map [of bs] by (force simp: domIff)

lemma block_map_None_iff: "block_map bs k = None \<longleftrightarrow> (\<forall>b\<in>set bs. key b = k \<longrightarrow> k = INVALID_KEY)"
  using dom_block_map [of bs] by (force simp: set_eq_iff domIff)

text \<open>The block of a key, and the map without it.\<close>

lemma keys_distinct_split:
  assumes "keys_distinct (xs @ b # ys)" "key b \<noteq> INVALID_KEY"
  shows "keys_distinct (xs @ ys)" "key b \<notin> dom (block_map (xs @ ys))"
  using assms by (auto simp: keys_distinct_def dom_block_map)

lemma block_map_mid:
  assumes "keys_distinct (xs @ b # ys)" "key b \<noteq> INVALID_KEY"
  shows "block_map (xs @ b # ys) = (block_map (xs @ ys))(key b \<mapsto> (leaf b, val b))"
proof -
  have "block_map (xs @ b # ys) = block_map (b # xs @ ys)"
    by (rule block_map_mset) (use assms in auto)
  then show ?thesis using assms by (simp add: block_map_def)
qed

lemma block_map_Cons:
  "block_map (b # bs) =
   (if key b = INVALID_KEY then block_map bs else (block_map bs)(key b \<mapsto> (leaf b, val b)))"
  by (simp add: block_map_def)

lemma keys_distinct_Cons:
  "keys_distinct (b # bs) \<longleftrightarrow>
   keys_distinct bs \<and> (key b \<noteq> INVALID_KEY \<longrightarrow> key b \<notin> dom (block_map bs))"
  by (auto simp: keys_distinct_def dom_block_map)

lemma fun_upd_delete: "k \<notin> dom m \<Longrightarrow> (m(k \<mapsto> x))(k := None) = m"
  by (auto simp: domIff)

text \<open>Replacing one vector entry, seen as multisets of live blocks.\<close>

lemma live_update_concat:
  "i < length xs \<Longrightarrow>
   mset (live (concat (xs[i := y]))) + mset (live (xs ! i)) = mset (live (concat xs)) + mset (live y)"
  using mset_update_concat [of i xs y] by (simp add: mset_live flip: filter_union_mset)

end
