(* ===== verification/Enclave_Oram_Correct.thy ===== *)
theory Enclave_Oram_Correct
  imports Enclave_Oram Block_Lists
begin

text \<open>
  Correctness of the enclave ORAM. The invariant \<open>eo_inv\<close> is that of Path ORAM: a live block of the
  tree stands on the path of its leaf, keys are distinct, all values have the fixed size. The
  abstraction \<open>eo_map\<close> maps a key to its leaf and value. Reading a path and evicting along it keep
  the multiset of live blocks, so the map; extracting and adding change it as their names say. The
  last section fixes what an observer of the memory sees.
\<close>

section \<open>Invariant and abstraction\<close>

definition eo_shape :: "enclave_oram \<Rightarrow> bool" where
  "eo_shape o1 \<longleftrightarrow>
     1 \<le> eo_level o1 \<and> eo_level o1 \<le> 30
     \<and> eo_leaf_range o1 = 2 ^ (eo_level o1 - 1) \<and> eo_num_nodes o1 = 2 ^ eo_level o1 - 1
     \<and> int (length (eo_tree o1)) = eo_num_nodes o1
     \<and> (\<forall>bucket\<in>set (eo_tree o1). length bucket = eo_bucket_size o1)"

definition leaf_ok :: "enclave_oram \<Rightarrow> i32 \<Rightarrow> bool" where
  "leaf_ok o1 lf \<longleftrightarrow> valid_leaf (eo_level o1) (sint lf)"

definition path_of :: "enclave_oram \<Rightarrow> i32 \<Rightarrow> int list" where
  "path_of o1 lf = path_up (eo_level o1) (sint lf)"

definition eo_blocks :: "enclave_oram \<Rightarrow> block list" where
  "eo_blocks o1 = eo_stash o1 @ concat (eo_tree o1)"

definition eo_map :: "enclave_oram \<Rightarrow> i32 \<rightharpoonup> i32 \<times> bytes" where
  "eo_map o1 = block_map (eo_blocks o1)"

definition placed :: "enclave_oram \<Rightarrow> bool" where
  "placed o1 \<longleftrightarrow> (\<forall>i < length (eo_tree o1). \<forall>b\<in>set (live (eo_tree o1 ! i)).
     int i \<in> set (path_of o1 (leaf b)))"

definition eo_inv :: "enclave_oram \<Rightarrow> bool" where
  "eo_inv o1 \<longleftrightarrow>
     eo_shape o1 \<and> placed o1
     \<and> (\<forall>b\<in>set (live (eo_blocks o1)). leaf_ok o1 (leaf b))
     \<and> (\<forall>b\<in>set (eo_blocks o1). length (val b) = eo_value_size o1)
     \<and> keys_distinct (eo_blocks o1)
     \<and> eo_stash_max o1 \<le> length (eo_stash o1)"

text \<open>The part of the state no operation changes, and with it the geometry.\<close>

definition same_geometry :: "enclave_oram \<Rightarrow> enclave_oram \<Rightarrow> bool" where
  "same_geometry o1 o2 \<longleftrightarrow>
     eo_value_size o2 = eo_value_size o1 \<and> eo_bucket_size o2 = eo_bucket_size o1
     \<and> eo_level o2 = eo_level o1 \<and> eo_leaf_range o2 = eo_leaf_range o1
     \<and> eo_num_nodes o2 = eo_num_nodes o1 \<and> eo_stash_max o2 = eo_stash_max o1
     \<and> length (eo_tree o2) = length (eo_tree o1)"

lemma same_geometry_refl [simp]: "same_geometry o1 o1"
  by (simp add: same_geometry_def)

lemma same_geometry_trans [trans]:
  "same_geometry o1 o2 \<Longrightarrow> same_geometry o2 o3 \<Longrightarrow> same_geometry o1 o3"
  by (simp add: same_geometry_def)

lemma same_geometryD:
  assumes "same_geometry o1 o2"
  shows "eo_value_size o2 = eo_value_size o1" "eo_level o2 = eo_level o1"
    "leaf_ok o2 = leaf_ok o1" "path_of o2 = path_of o1" "leaf_to_node o2 = leaf_to_node o1"
    "eo_stash_max o2 = eo_stash_max o1" "length (eo_tree o2) = length (eo_tree o1)"
    "eo_leaf_range o2 = eo_leaf_range o1" "random_leaf o2 = random_leaf o1"
  using assms
  by (auto simp: same_geometry_def leaf_ok_def path_of_def leaf_to_node_def random_leaf_def fun_eq_iff)

section \<open>Geometry of a tree in shape\<close>

lemma leaf_to_node_eq: "eo_shape o1 \<Longrightarrow> leaf_to_node o1 lf = leaf_node (eo_level o1) (sint lf)"
  by (simp add: leaf_to_node_def leaf_node_def eo_shape_def)

lemma path_of_eq:
  "eo_shape o1 \<Longrightarrow> walk_up (eo_level o1) (leaf_to_node o1 lf) = path_of o1 lf"
  by (simp add: path_of_def path_up_def leaf_to_node_eq)

lemma path_of_range:
  assumes "eo_shape o1" "leaf_ok o1 lf" "node \<in> set (path_of o1 lf)"
  shows "in_range node (eo_tree o1)" "0 \<le> node" "node < 2 ^ 31"
proof -
  have r: "0 \<le> node \<and> node < 2 ^ eo_level o1 - 1"
    using assms path_up_range [of "eo_level o1" "sint lf" node]
    by (auto simp: eo_shape_def leaf_ok_def path_of_def)
  then show "in_range node (eo_tree o1)" "0 \<le> node"
    using assms(1) by (auto simp: in_range_def eo_shape_def)
  have "(2::int) ^ eo_level o1 \<le> 2 ^ 30"
    by (rule power_increasing) (use assms(1) in \<open>auto simp: eo_shape_def\<close>)
  with r show "node < 2 ^ 31" by simp
qed

lemma path_of_props:
  assumes "eo_shape o1" "leaf_ok o1 lf"
  shows "distinct (path_of o1 lf)" "length (path_of o1 lf) = eo_level o1" "0 \<in> set (path_of o1 lf)"
  using assms distinct_path_up path_up_props(1) root_in_path_up
  by (auto simp: eo_shape_def leaf_ok_def path_of_def)

lemma of_int_inj32:
  assumes "0 \<le> a" "a < 2 ^ 31" "0 \<le> b" "b < 2 ^ 31"
  shows "(word_of_int a :: i32) = word_of_int b \<longleftrightarrow> a = b"
  using assms by (auto simp: word_of_int_eq_iff take_bit_int_eq_self)

text \<open>The climb of the oblivious test sees the path, and the root again and again.\<close>

lemma contains_climb_flag:
  assumes "0 \<le> cur" "cur < 2 ^ 31" "0 \<le> node" "node < 2 ^ 31"
  shows "contains_climb d cur node (of_bool b) = of_bool (b \<or> node \<in> set (walk_up d cur))"
  using assms
proof (induction d arbitrary: cur b)
  case (Suc d)
  have eq: "o_equal (word_of_int cur) (word_of_int node) = of_bool (cur = node)"
    using Suc.prems by (simp add: of_int_inj32)
  show ?case
  proof (cases "cur = 0")
    case True
    have stay: "contains_climb d 0 node (of_bool c) = of_bool (c \<or> (0 < d \<and> node = 0))" for c d
    proof (induction d arbitrary: c)
      case (Suc d)
      then show ?case
        using of_int_inj32 [of 0 node] assms by (auto simp del: of_bool_eq)
    qed simp
    show ?thesis using True eq stay by (auto simp del: of_bool_eq)
  next
    case False
    then have "0 \<le> parent cur \<and> parent cur < cur"
      using Suc.prems parent_bounds by auto
    with Suc.IH [of "parent cur" "b \<or> cur = node"] Suc.prems False eq show ?thesis
      by (auto simp del: of_bool_eq)
  qed
qed simp

lemma path_contains_iff:
  assumes "eo_shape o1" "leaf_ok o1 lf" "0 \<le> node" "node < 2 ^ 31"
  shows "path_contains_oblivious o1 lf node \<longleftrightarrow> node \<in> set (path_of o1 lf)"
proof -
  have w: "path_of o1 lf \<noteq> []" "hd (path_of o1 lf) = leaf_to_node o1 lf"
    using assms path_up_props(2,4) [of "eo_level o1" "sint lf"]
    by (auto simp: path_of_def leaf_ok_def eo_shape_def leaf_to_node_eq)
  then have "leaf_to_node o1 lf \<in> set (path_of o1 lf)"
    by (metis list.set_sel(1))
  then have "0 \<le> leaf_to_node o1 lf" "leaf_to_node o1 lf < 2 ^ 31"
    using path_of_range [OF assms(1,2)] by auto
  then show ?thesis
    using contains_climb_flag [of "leaf_to_node o1 lf" node "eo_level o1" False] assms
    by (simp add: path_contains_oblivious_def path_of_eq)
qed

section \<open>Reading a path\<close>

lemma read_climb_eq:
  "\<forall>node\<in>set (walk_up d node). in_range node (eo_tree o1) \<Longrightarrow>
   read_climb d node o1 = Inr (walk_up d node, fold read_node (walk_up d node) o1)"
proof (induction d arbitrary: node o1)
  case (Suc d)
  have "length (eo_tree (read_node n o')) = length (eo_tree o')" for n o'
    by (simp add: read_node_def Let_def record_node_access_def)
  then have "\<forall>n\<in>set (walk_up d (parent node)). in_range n (eo_tree (read_node node o1))"
    if "node \<noteq> 0"
    using Suc.prems that by (auto simp: in_range_def)
  with Suc show ?case by auto
qed simp

lemma record_node_access_fields [simp]:
  "eo_value_size (record_node_access n o1) = eo_value_size o1"
  "eo_bucket_size (record_node_access n o1) = eo_bucket_size o1"
  "eo_level (record_node_access n o1) = eo_level o1"
  "eo_leaf_range (record_node_access n o1) = eo_leaf_range o1"
  "eo_num_nodes (record_node_access n o1) = eo_num_nodes o1"
  "eo_stash_max (record_node_access n o1) = eo_stash_max o1"
  "eo_tree (record_node_access n o1) = eo_tree o1"
  "eo_stash (record_node_access n o1) = eo_stash o1"
  "eo_last_stats (record_node_access n o1) = eo_last_stats o1"
  "eo_total_stats (record_node_access n o1) = eo_total_stats o1"
  by (simp_all add: record_node_access_def Let_def)

lemma empty_slot_simps [simp]:
  "key (empty_slot n) = INVALID_KEY" "length (val (empty_slot n)) = n"
  by (simp_all add: empty_slot_def default_block_def)

lemma read_node_props:
  assumes "eo_inv o1" "in_range node (eo_tree o1)"
  shows "eo_inv (read_node node o1)" "same_geometry o1 (read_node node o1)"
    "mset (live (eo_blocks (read_node node o1))) = mset (live (eo_blocks o1))"
    "live (eo_tree (read_node node o1) ! nat node) = []"
    "\<And>i. i < length (eo_tree o1) \<Longrightarrow> i \<noteq> nat node \<Longrightarrow>
       eo_tree (read_node node o1) ! i = eo_tree o1 ! i"
    "set (eo_tree o1 ! nat node) \<subseteq> set (eo_stash (read_node node o1))"
proof -
  let ?o = "read_node node o1" and ?i = "nat node"
  let ?empty = "map (\<lambda>_. empty_slot (eo_value_size o1)) (eo_tree o1 ! ?i)"
  have i: "?i < length (eo_tree o1)" using assms(2) by simp
  have st: "eo_stash ?o = eo_stash o1 @ eo_tree o1 ! ?i" and tr: "eo_tree ?o = (eo_tree o1)[?i := ?empty]"
    by (simp_all add: read_node_def Let_def)
  show geo: "same_geometry o1 ?o" by (simp add: same_geometry_def read_node_def Let_def)
  have le: "live ?empty = []" by (simp add: live_empty_iff)
  then show "live (eo_tree ?o ! ?i) = []" using i by (simp add: tr)
  show "\<And>j. j < length (eo_tree o1) \<Longrightarrow> j \<noteq> ?i \<Longrightarrow> eo_tree ?o ! j = eo_tree o1 ! j"
    by (simp add: tr)
  show "set (eo_tree o1 ! ?i) \<subseteq> set (eo_stash ?o)" by (simp add: st)
  show m: "mset (live (eo_blocks ?o)) = mset (live (eo_blocks o1))"
    using live_update_concat [OF i, of ?empty] le by (simp add: eo_blocks_def st tr add.commute)
  then have live_eq: "set (live (eo_blocks ?o)) = set (live (eo_blocks o1))"
    by (metis set_mset_mset)
  show "eo_inv ?o"
    unfolding eo_inv_def
  proof (intro conjI)
    have all: "\<forall>b\<in>set (eo_tree o1). length b = eo_bucket_size o1"
      using assms(1) by (simp add: eo_inv_def eo_shape_def)
    have "\<forall>b\<in>set (eo_tree ?o). length b = eo_bucket_size o1"
      unfolding tr by (rule all_set_update) (use all bspec [OF all nth_mem [OF i]] in simp_all)
    then show "eo_shape ?o"
      using assms(1) by (simp add: eo_inv_def eo_shape_def tr) (simp add: read_node_def Let_def)
    show "placed ?o"
      using assms(1) i le unfolding eo_inv_def placed_def same_geometryD [OF geo]
      by (auto simp: tr nth_list_update)
    show "\<forall>b\<in>set (live (eo_blocks ?o)). leaf_ok ?o (leaf b)"
      using assms(1) live_eq unfolding eo_inv_def same_geometryD [OF geo] by auto
    show "\<forall>b\<in>set (eo_blocks ?o). length (val b) = eo_value_size ?o"
      using assms(1) i unfolding eo_inv_def same_geometryD [OF geo]
      by (auto simp: eo_blocks_def st tr dest!: subsetD [OF set_update_subset_insert])
    show "keys_distinct (eo_blocks ?o)"
      using assms(1) keys_distinct_mset [OF m] by (simp add: eo_inv_def)
    show "eo_stash_max ?o \<le> length (eo_stash ?o)"
      using assms(1) unfolding eo_inv_def same_geometryD [OF geo] by (simp add: st)
  qed
qed

text \<open>A whole path: the state after reading the nodes one by one.\<close>

definition path_empty :: "enclave_oram \<Rightarrow> int list \<Rightarrow> bool" where
  "path_empty o1 nodes \<longleftrightarrow> (\<forall>node\<in>set nodes. live (eo_tree o1 ! nat node) = [])"

lemma read_nodes_props:
  assumes "eo_inv o1" "\<forall>node\<in>set nodes. in_range node (eo_tree o1)"
  shows "eo_inv (fold read_node nodes o1) \<and> same_geometry o1 (fold read_node nodes o1)
    \<and> mset (live (eo_blocks (fold read_node nodes o1))) = mset (live (eo_blocks o1))
    \<and> path_empty (fold read_node nodes o1) nodes
    \<and> (\<forall>i < length (eo_tree o1). live (eo_tree o1 ! i) = [] \<longrightarrow>
         live (eo_tree (fold read_node nodes o1) ! i) = [])"
  using assms
proof (induction nodes arbitrary: o1)
  case Nil
  then show ?case by (simp add: path_empty_def)
next
  case (Cons n ns)
  let ?o = "read_node n o1"
  have n: "in_range n (eo_tree o1)" using Cons.prems(2) by simp
  note p = read_node_props [OF Cons.prems(1) n]
  have "\<forall>node\<in>set ns. in_range node (eo_tree ?o)"
    using Cons.prems(2) same_geometryD(7) [OF p(2)] by (auto simp: in_range_def)
  note IH = Cons.IH [OF p(1) this]
  let ?f = "fold read_node ns ?o"
  have keep: "live (eo_tree ?f ! i) = []" if "i < length (eo_tree o1)" "live (eo_tree o1 ! i) = []" for i
    using that p(4,5) IH same_geometryD(7) [OF p(2)] by (cases "i = nat n") auto
  have "live (eo_tree ?f ! nat n) = []"
    using p(4) IH n same_geometryD(7) [OF p(2)] by auto
  then show ?case
    using IH p(2,3) keep by (auto simp: path_empty_def intro: same_geometry_trans)
qed

lemma read_path_spec:
  assumes "eo_inv o1" "leaf_ok o1 lf"
  obtains o2 where "read_path lf o1 = Inr (path_of o1 lf, o2)"
    "o2 = fold read_node (path_of o1 lf) o1"
    "eo_inv o2" "same_geometry o1 o2" "path_empty o2 (path_of o1 lf)"
    "mset (live (eo_blocks o2)) = mset (live (eo_blocks o1))"
proof -
  have shape: "eo_shape o1" using assms(1) by (simp add: eo_inv_def)
  have r: "\<forall>node\<in>set (path_of o1 lf). in_range node (eo_tree o1)"
    using path_of_range [OF shape assms(2)] by blast
  have "read_path lf o1 = Inr (path_of o1 lf, fold read_node (path_of o1 lf) o1)"
    using read_climb_eq [of "eo_level o1" "leaf_to_node o1 lf" o1] r path_of_eq [OF shape]
    by (simp add: read_path_def)
  with read_nodes_props [OF assms(1) r] that show thesis by blast
qed

end
