(* ===== verification/Stash_Compaction.thy ===== *)
theory Stash_Compaction
  imports Enclave_Oram Block_Lists
begin

text \<open>
  The two loops over the stash that eviction is made of: filling one bucket from the stash, and the
  bubble passes of \<open>compact_stash\<close>, which bring the live blocks to the front in their order. Both are
  stated for stashes whose values have one length, as the enclave keeps them.
\<close>

definition same_size :: "nat \<Rightarrow> block list \<Rightarrow> bool" where
  "same_size n bs \<longleftrightarrow> (\<forall>b\<in>set bs. length (val b) = n)"

lemma same_size_simps [simp]:
  "same_size n []"
  "same_size n (b # bs) \<longleftrightarrow> length (val b) = n \<and> same_size n bs"
  "same_size n (xs @ ys) \<longleftrightarrow> same_size n xs \<and> same_size n ys"
  "same_size n (replicate m b) \<longleftrightarrow> m = 0 \<or> length (val b) = n"
  by (auto simp: same_size_def)

lemma block_collapse [simp]: "\<lparr>key = key b, leaf = leaf b, val = val b\<rparr> = b"
  by simp

lemma block_collapse_key: "key b = k \<Longrightarrow> \<lparr>key = k, leaf = leaf b, val = val b\<rparr> = b"
  by auto

lemma block_key_same: "key b = k \<Longrightarrow> b\<lparr>key := k\<rparr> = b"
  by auto

section \<open>Filling a bucket\<close>

definition candidate :: "enclave_oram \<Rightarrow> int \<Rightarrow> block \<Rightarrow> bool" where
  "candidate o1 node b \<longleftrightarrow> key b \<noteq> INVALID_KEY \<and> path_contains_oblivious o1 (leaf b) node"

lemma evict_slot_Cons:
  assumes "length (val slot) = length (val sb)"
  shows "evict_slot o1 node slot (of_bool f) (sb # sbs) =
    (if candidate o1 node sb \<and> \<not> f
     then (let (r, rest) = evict_slot o1 node sb (of_bool True) sbs in (r, sb\<lparr>key := INVALID_KEY\<rparr> # rest))
     else (let (r, rest) = evict_slot o1 node slot (of_bool f) sbs in (r, sb # rest)))"
proof -
  have "resize_with 0 (length (val sb)) (val slot) = val slot"
    using assms by (simp add: resize_with_def)
  then show ?thesis
    by (cases f) (auto simp: evict_step_def candidate_def Let_def block_collapse block_key_same)
qed

declare evict_slot.simps(2) [simp del]

lemma evict_slot_filled:
  "same_size n (slot # st) \<Longrightarrow> evict_slot o1 node slot (of_bool True) st = (slot, st)"
  by (induction st) (simp_all add: evict_slot_Cons del: of_bool_eq)

lemma evict_slot_skip:
  assumes "same_size n (slot # xs)" "\<forall>b\<in>set xs. \<not> candidate o1 node b"
  shows "evict_slot o1 node slot (of_bool False) (xs @ ys) =
    (let (r, rest) = evict_slot o1 node slot (of_bool False) ys in (r, xs @ rest))"
  using assms
  by (induction xs) (auto simp: evict_slot_Cons Let_def simp del: of_bool_eq split: prod.splits)

lemma evict_slot_cases:
  assumes "same_size n (slot # st)"
  obtains (none) "\<forall>b\<in>set st. \<not> candidate o1 node b" "evict_slot o1 node slot 0 st = (slot, st)"
  | (some) xs b ys where "st = xs @ b # ys" "\<forall>b\<in>set xs. \<not> candidate o1 node b" "candidate o1 node b"
      "evict_slot o1 node slot 0 st = (b, xs @ b\<lparr>key := INVALID_KEY\<rparr> # ys)"
proof (cases "\<exists>b\<in>set st. candidate o1 node b")
  case True
  then obtain xs b ys where split: "st = xs @ b # ys" "\<forall>b\<in>set xs. \<not> candidate o1 node b"
    "candidate o1 node b"
    by (metis split_list_first_prop)
  have "evict_slot o1 node slot (of_bool False) (b # ys) = (b, b\<lparr>key := INVALID_KEY\<rparr> # ys)"
    using assms split evict_slot_filled [of n b ys o1 node]
    by (simp add: evict_slot_Cons del: of_bool_eq)
  then have "evict_slot o1 node slot (of_bool False) st = (b, xs @ b\<lparr>key := INVALID_KEY\<rparr> # ys)"
    using assms split evict_slot_skip [of n slot xs o1 node "b # ys"] by (simp del: of_bool_eq)
  then show thesis using some split by simp
next
  case False
  then have "evict_slot o1 node slot (of_bool False) (st @ []) = (slot, st)"
    using assms by (subst evict_slot_skip) (auto simp del: of_bool_eq)
  then show thesis using none False by simp
qed

lemma evict_bucket_props:
  assumes "same_size n (slots @ st)" "live slots = []"
  shows "case evict_bucket o1 node slots st of (slots', st') \<Rightarrow>
    length slots' = length slots \<and> length st' = length st \<and> same_size n (slots' @ st')
    \<and> mset (live slots') + mset (live st') = mset (live st)
    \<and> (\<forall>b\<in>set (live slots'). path_contains_oblivious o1 (leaf b) node)
    \<and> (live slots' = slots' \<or> (\<forall>b\<in>set st'. \<not> candidate o1 node b))"
  using assms
proof (induction slots arbitrary: st)
  case (Cons slot slots)
  have "same_size n (slot # st)" using Cons.prems(1) by simp
  then show ?case
  proof (cases rule: evict_slot_cases [where ?o1.0 = o1 and node = node])
    case none
    obtain slots' st' where r: "evict_bucket o1 node slots st = (slots', st')" by fastforce
    have "same_size n (slots @ st)" "live slots = []"
      using Cons.prems by (auto split: if_splits)
    note IH = Cons.IH [OF this, unfolded r prod.case]
    have "set (live st') \<subseteq> set (live st)"
      using IH by (metis mset_subset_eq_add_right set_mset_mono set_mset_mset)
    with none(1) have "\<forall>b\<in>set st'. \<not> candidate o1 node b"
      by (auto simp: candidate_def)
    with IH none(2) r Cons.prems show ?thesis by (auto split: if_splits)
  next
    case (some xs b ys)
    let ?st = "xs @ b\<lparr>key := INVALID_KEY\<rparr> # ys"
    obtain slots' st' where r: "evict_bucket o1 node slots ?st = (slots', st')" by fastforce
    have b: "key b \<noteq> INVALID_KEY" "path_contains_oblivious o1 (leaf b) node"
      using some(3) by (auto simp: candidate_def)
    have "same_size n (slots @ ?st)" "live slots = []"
      using Cons.prems some(1) by (auto split: if_splits)
    note IH = Cons.IH [OF this, unfolded r prod.case]
    from IH r b some(1,4) Cons.prems(1) show ?thesis
      by (auto split: if_splits)
  qed
qed simp

section \<open>Compaction\<close>

definition dead :: "block list \<Rightarrow> block list" where
  "dead bs = filter (\<lambda>b. key b = INVALID_KEY) bs"

lemma dead_simps [simp]:
  "dead [] = []"
  "dead (b # bs) = (if key b = INVALID_KEY then b # dead bs else dead bs)"
  "dead (xs @ ys) = dead xs @ dead ys"
  by (simp_all add: dead_def)

lemma length_live_dead: "length (live bs) + length (dead bs) = length bs"
  by (induction bs) auto

lemma live_dead_same_size: "same_size n bs \<Longrightarrow> same_size n (live bs @ dead bs)"
  by (auto simp: same_size_def dead_def)

lemma compact_pass_swap:
  assumes "length (val a) = length (val b)"
  shows "compact_pass (a # b # bs) =
    (if key a = INVALID_KEY \<and> key b \<noteq> INVALID_KEY then b # compact_pass (a # bs)
     else a # compact_pass (b # bs))"
  using assms by (auto simp: compact_step_def swap_block_def Let_def o_swap_bytes_if block_collapse_key)

declare compact_pass.simps(1) [simp del]

lemma compact_pass_dead_tail:
  assumes "same_size n (ys @ zs)" "live zs = []"
  shows "compact_pass (ys @ zs) = compact_pass ys @ zs"
proof -
  have dead_pass: "compact_pass zs = zs" if "same_size n zs" "live zs = []" for zs
  proof (cases zs)
    case (Cons z zs')
    with that show ?thesis
      by (induction zs' arbitrary: z zs) (auto simp: compact_pass_swap split: if_splits)
  qed simp
  show ?thesis
    using assms
  proof (induction "length ys" arbitrary: ys)
    case 0
    then show ?case using dead_pass by simp
  next
    case (Suc m)
    then obtain a ys' where ys: "ys = a # ys'" by (cases ys) auto
    show ?case
    proof (cases ys')
      case Nil
      then show ?thesis
        using Suc.prems ys dead_pass [of zs] by (cases zs) (auto simp: compact_pass_swap split: if_splits)
    next
      case (Cons b ys'')
      have len: "length (val a) = length (val b)" using Suc.prems ys Cons by simp
      have "compact_pass ((a # ys'') @ zs) = compact_pass (a # ys'') @ zs"
        "compact_pass ((b # ys'') @ zs) = compact_pass (b # ys'') @ zs"
        using Suc.hyps(1) [of "a # ys''"] Suc.hyps(1) [of "b # ys''"] Suc.hyps(2) Suc.prems ys Cons by auto
      then show ?thesis using ys Cons len by (simp add: compact_pass_swap)
    qed
  qed
qed

lemma compact_pass_keeps:
  "same_size n bs \<Longrightarrow>
   live (compact_pass bs) = live bs \<and> dead (compact_pass bs) = dead bs
   \<and> length (compact_pass bs) = length bs \<and> same_size n (compact_pass bs)"
proof (induction "length bs" arbitrary: bs)
  case (Suc m)
  then obtain a bs' where bs: "bs = a # bs'" by (cases bs) auto
  show ?case
  proof (cases bs')
    case (Cons b cs)
    have len: "length (val a) = length (val b)" using Suc.prems bs Cons by simp
    show ?thesis
      using Suc.hyps(1) [of "a # cs"] Suc.hyps(1) [of "b # cs"] Suc.hyps(2) Suc.prems bs Cons len
      by (auto simp: compact_pass_swap)
  qed (use bs Suc in auto)
qed simp

lemma compact_pass_live: "same_size n bs \<Longrightarrow> dead bs = [] \<Longrightarrow> compact_pass bs = bs"
proof (cases bs)
  case (Cons b bs')
  then show "same_size n bs \<Longrightarrow> dead bs = [] \<Longrightarrow> compact_pass bs = bs"
    by (induction bs' arbitrary: b bs) (auto simp: compact_pass_swap split: if_splits)
qed simp

text \<open>A pass carries a dummy to the end.\<close>

lemma compact_pass_last:
  "same_size n bs \<Longrightarrow> dead bs \<noteq> [] \<Longrightarrow>
   \<exists>ys d. compact_pass bs = ys @ [d] \<and> key d = INVALID_KEY"
proof (induction "length bs" arbitrary: bs)
  case (Suc m)
  then obtain a bs' where bs: "bs = a # bs'" by (cases bs) auto
  show ?case
  proof (cases bs')
    case Nil
    then show ?thesis using bs Suc.prems by (auto split: if_splits)
  next
    case (Cons b cs)
    have len: "length (val a) = length (val b)" using Suc.prems bs Cons by simp
    show ?thesis
    proof (cases "key a = INVALID_KEY \<and> key b \<noteq> INVALID_KEY")
      case True
      with Suc.hyps(1) [of "a # cs"] Suc.hyps(2) Suc.prems bs Cons len
      show ?thesis by (auto simp: compact_pass_swap)
    next
      case False
      then have "dead (b # cs) \<noteq> []" using Suc.prems bs Cons by (auto split: if_splits)
      with Suc.hyps(1) [of "b # cs"] Suc.hyps(2) Suc.prems bs Cons len False
      show ?thesis by (auto simp: compact_pass_swap)
    qed
  qed
qed simp

lemma compact_passes:
  "same_size n bs \<Longrightarrow> length bs \<le> m \<Longrightarrow> (compact_pass ^^ m) bs = live bs @ dead bs"
proof (induction m arbitrary: bs)
  case (Suc m)
  show ?case
  proof (cases "dead bs = []")
    case True
    have "(compact_pass ^^ k) bs = bs" for k
      using compact_pass_live [OF Suc.prems(1) True] by (induction k) auto
    note this [of "Suc m"]
    moreover have "live bs = bs"
      using True by (induction bs) (auto split: if_splits)
    ultimately show ?thesis using True by (simp del: funpow.simps)
  next
    case False
    then obtain ys d where p: "compact_pass bs = ys @ [d]" "key d = INVALID_KEY"
      using compact_pass_last Suc.prems(1) by blast
    have k: "live ys = live bs" "dead ys @ [d] = dead bs" "Suc (length ys) = length bs"
      "same_size n (ys @ [d])"
      using compact_pass_keeps [OF Suc.prems(1)] p by auto
    have "(compact_pass ^^ j) (ys @ [d]) = (compact_pass ^^ j) ys @ [d] \<and> same_size n ((compact_pass ^^ j) ys)" for j
    proof (induction j)
      case (Suc j)
      then show ?case
        using compact_pass_dead_tail [of n "(compact_pass ^^ j) ys" "[d]"] p k compact_pass_keeps
        by auto
    qed (use k in auto)
    then show ?thesis
      using Suc.IH [of ys] Suc.prems k p by (simp add: funpow_swap1)
  qed
qed simp

lemma compact_eq: "same_size n bs \<Longrightarrow> compact bs = live bs @ dead bs"
  by (simp add: compact_def compact_passes)

lemma valid_count_eq: "valid_count bs = length (live bs)"
proof -
  have "foldl (\<lambda>c sb. c + unat (1 - o_equal (key sb) INVALID_KEY)) m bs = m + length (live bs)" for m
    by (induction bs arbitrary: m) auto
  then show ?thesis by (simp add: valid_count_def)
qed

end
