(* ===== verification/Enclave_Oram_Evict.thy ===== *)
theory Enclave_Oram_Evict
  imports Enclave_Oram_Correct Stash_Compaction
begin

text \<open>
  Eviction of a path that was read before: every live block stays, the placed ones stand on their
  path, a block remains in the stash only if no bucket of the path it fits has room, and the one
  error is the overflow of the stash.
\<close>

section \<open>One node\<close>

lemma evict_nodes_eq:
  "\<forall>node\<in>set nodes. in_range node (eo_tree o1) \<Longrightarrow>
   evict_nodes nodes o1 = Inr (fold evict_node nodes o1)"
proof (induction nodes arbitrary: o1)
  case (Cons n ns)
  have "length (eo_tree (evict_node n o1)) = length (eo_tree o1)"
    by (simp add: evict_node_def Let_def split: prod.split)
  then have "\<forall>node\<in>set ns. in_range node (eo_tree (evict_node n o1))"
    using Cons.prems by (auto simp: in_range_def)
  from Cons.IH [OF this] Cons.prems show ?case
    by (auto simp: evict_node_def Let_def split: prod.splits)
qed simp

lemma candidate_geometry: "same_geometry o1 o2 \<Longrightarrow> candidate o2 = candidate o1"
  by (intro ext)
    (simp add: candidate_def path_contains_oblivious_def same_geometryD(2,5))

text \<open>The stash block of a node that fits there keeps only if the bucket is full.\<close>

definition saturated :: "enclave_oram \<Rightarrow> int \<Rightarrow> bool" where
  "saturated o1 node \<longleftrightarrow>
     live (eo_tree o1 ! nat node) = eo_tree o1 ! nat node
     \<or> (\<forall>b\<in>set (live (eo_stash o1)). node \<notin> set (path_of o1 (leaf b)))"

lemma eo_inv_same_size:
  "eo_inv o1 \<Longrightarrow> same_size (eo_value_size o1) (eo_blocks o1)"
  by (simp add: eo_inv_def same_size_def)

lemma record_candidate [simp]: "candidate (record_node_access n o1) = candidate o1"
  by (rule candidate_geometry) (simp add: same_geometry_def)

lemma record_path_contains [simp]:
  "path_contains_oblivious (record_node_access n o1) = path_contains_oblivious o1"
  by (intro ext) (simp add: path_contains_oblivious_def leaf_to_node_def)

lemma evict_node_props:
  assumes inv: "eo_inv o1" and node: "in_range node (eo_tree o1)" "node < 2 ^ 31"
    and free: "live (eo_tree o1 ! nat node) = []"
  shows "eo_inv (evict_node node o1)" "same_geometry o1 (evict_node node o1)"
    "mset (live (eo_blocks (evict_node node o1))) = mset (live (eo_blocks o1))"
    "length (eo_stash (evict_node node o1)) = length (eo_stash o1)"
    "\<And>i. i < length (eo_tree o1) \<Longrightarrow> i \<noteq> nat node \<Longrightarrow>
       eo_tree (evict_node node o1) ! i = eo_tree o1 ! i"
    "set (live (eo_stash (evict_node node o1))) \<subseteq> set (live (eo_stash o1))"
    "saturated (evict_node node o1) node"
proof -
  let ?o = "evict_node node o1" and ?i = "nat node" and ?n = "eo_value_size o1"
  let ?r = "record_node_access node o1"
  have i: "?i < length (eo_tree o1)" and n0: "0 \<le> node"
    using node by (auto simp: in_range_def)
  obtain bucket st where e: "evict_bucket ?r node (eo_tree o1 ! ?i) (eo_stash o1) = (bucket, st)"
    by fastforce
  have tr: "eo_tree ?o = (eo_tree o1)[?i := bucket]" and st: "eo_stash ?o = st"
    by (simp_all add: evict_node_def e)
  have "same_size ?n (eo_tree o1 ! ?i @ eo_stash o1)"
    using eo_inv_same_size [OF inv] i by (fastforce simp: eo_blocks_def same_size_def)
  note b = evict_bucket_props [OF this free, of ?r node, unfolded e prod.case]
  show geo: "same_geometry o1 ?o"
    by (simp add: same_geometry_def evict_node_def Let_def split: prod.split)
  show "\<And>j. j < length (eo_tree o1) \<Longrightarrow> j \<noteq> ?i \<Longrightarrow> eo_tree ?o ! j = eo_tree o1 ! j"
    by (simp add: tr)
  show "length (eo_stash ?o) = length (eo_stash o1)" using b st by simp
  have "mset (live st) \<subseteq># mset (live (eo_stash o1))"
    using b by (metis mset_subset_eq_add_right)
  then show sub: "set (live (eo_stash ?o)) \<subseteq> set (live (eo_stash o1))"
    unfolding st by (metis set_mset_mono set_mset_mset)
  show m: "mset (live (eo_blocks ?o)) = mset (live (eo_blocks o1))"
  proof -
    have "mset (live st) + mset (live bucket) = mset (live (eo_stash o1))"
      using b by (simp add: add.commute)
    then show ?thesis
      using live_update_concat [OF i, of bucket] free by (simp add: eo_blocks_def st tr)
  qed
  then have live_eq: "set (live (eo_blocks ?o)) = set (live (eo_blocks o1))"
    by (metis set_mset_mset)
  have shape: "eo_shape o1" using inv by (simp add: eo_inv_def)
  have leaves: "leaf_ok o1 (leaf x)" if "x \<in> set (live (eo_blocks ?o))" for x
    using that inv unfolding live_eq by (simp add: eo_inv_def)
  have on_path: "node \<in> set (path_of o1 (leaf x)) \<longleftrightarrow> path_contains_oblivious o1 (leaf x) node"
    if "x \<in> set (live (eo_blocks ?o))" for x
    using path_contains_iff [OF shape leaves [OF that] n0] node(2) by simp
  have in_bucket: "x \<in> set (live (eo_blocks ?o))" if "x \<in> set (live bucket)" for x
    using that i by (auto simp: eo_blocks_def tr set_update_memI)
  have in_stash: "x \<in> set (live (eo_blocks ?o))" if "x \<in> set (live st)" for x
    using that by (auto simp: eo_blocks_def st)
  show "saturated ?o node"
    unfolding saturated_def tr st same_geometryD [OF geo]
    using b i on_path in_stash by (auto simp: candidate_def)
  show "eo_inv ?o"
    unfolding eo_inv_def
  proof (intro conjI)
    have "\<forall>b\<in>set (eo_tree ?o). length b = eo_bucket_size o1"
      unfolding tr by (rule all_set_update) (use shape b nth_mem [OF i] in \<open>simp_all add: eo_shape_def\<close>)
    then show "eo_shape ?o"
      using shape by (simp add: eo_shape_def tr) (simp add: evict_node_def Let_def split: prod.split)
    show "placed ?o"
      unfolding placed_def same_geometryD [OF geo]
    proof (intro allI impI ballI)
      fix j x assume j: "j < length (eo_tree o1)" "x \<in> set (live (eo_tree ?o ! j))"
      show "int j \<in> set (path_of o1 (leaf x))"
      proof (cases "j = ?i")
        case True
        then have "x \<in> set (live bucket)" using j i by (simp add: tr)
        then show ?thesis using b on_path [OF in_bucket] True n0 by auto
      next
        case False
        then show ?thesis using j inv by (simp add: tr eo_inv_def placed_def)
      qed
    qed
    show "\<forall>b\<in>set (live (eo_blocks ?o)). leaf_ok ?o (leaf b)"
      using leaves unfolding same_geometryD [OF geo] by blast
    have "\<forall>bs\<in>set (eo_tree ?o). same_size ?n bs"
      unfolding tr by (rule all_set_update)
        (use b eo_inv_same_size [OF inv] in \<open>auto simp: eo_blocks_def same_size_def\<close>)
    then show "\<forall>b\<in>set (eo_blocks ?o). length (val b) = eo_value_size ?o"
      using b unfolding same_geometryD [OF geo] by (auto simp: eo_blocks_def st same_size_def)
    show "keys_distinct (eo_blocks ?o)"
      using inv keys_distinct_mset [OF m] by (simp add: eo_inv_def)
    show "eo_stash_max ?o \<le> length (eo_stash ?o)"
      using inv b unfolding same_geometryD [OF geo] by (simp add: st eo_inv_def)
  qed
qed

section \<open>The whole path\<close>

lemma saturated_later:
  assumes "saturated o1 node" "same_geometry o1 o2" "eo_tree o2 ! nat node = eo_tree o1 ! nat node"
    "set (live (eo_stash o2)) \<subseteq> set (live (eo_stash o1))"
  shows "saturated o2 node"
  using assms by (auto simp: saturated_def same_geometryD(4))

lemma evict_fold_props:
  assumes "eo_inv o1" "\<forall>node\<in>set nodes. in_range node (eo_tree o1) \<and> node < 2 ^ 31"
    "path_empty o1 nodes" "distinct nodes"
  shows "eo_inv (fold evict_node nodes o1) \<and> same_geometry o1 (fold evict_node nodes o1)
    \<and> mset (live (eo_blocks (fold evict_node nodes o1))) = mset (live (eo_blocks o1))
    \<and> length (eo_stash (fold evict_node nodes o1)) = length (eo_stash o1)
    \<and> (\<forall>i < length (eo_tree o1). int i \<notin> set nodes \<longrightarrow>
         eo_tree (fold evict_node nodes o1) ! i = eo_tree o1 ! i)
    \<and> set (live (eo_stash (fold evict_node nodes o1))) \<subseteq> set (live (eo_stash o1))
    \<and> (\<forall>node\<in>set nodes. saturated (fold evict_node nodes o1) node)"
  using assms
proof (induction nodes arbitrary: o1)
  case (Cons n ns)
  let ?o = "evict_node n o1"
  have n: "in_range n (eo_tree o1)" "n < 2 ^ 31" "live (eo_tree o1 ! nat n) = []"
    using Cons.prems by (auto simp: path_empty_def)
  note p = evict_node_props [OF Cons.prems(1) n]
  have other: "nat m \<noteq> nat n" if "m \<in> set ns" for m
  proof -
    have "0 \<le> m" "0 \<le> n" "m \<noteq> n"
      using Cons.prems that n(1) by (auto simp: in_range_def)
    then show ?thesis by simp
  qed
  have "\<forall>node\<in>set ns. in_range node (eo_tree ?o) \<and> node < 2 ^ 31"
    using Cons.prems(2) same_geometryD(7) [OF p(2)] by (auto simp: in_range_def)
  moreover have "path_empty ?o ns"
    using Cons.prems(2,3) other p(5) by (fastforce simp: path_empty_def in_range_def)
  moreover have "distinct ns" using Cons.prems(4) by simp
  ultimately have IH: "eo_inv (fold evict_node ns ?o)" "same_geometry ?o (fold evict_node ns ?o)"
    "mset (live (eo_blocks (fold evict_node ns ?o))) = mset (live (eo_blocks ?o))"
    "length (eo_stash (fold evict_node ns ?o)) = length (eo_stash ?o)"
    "\<forall>i < length (eo_tree ?o). int i \<notin> set ns \<longrightarrow> eo_tree (fold evict_node ns ?o) ! i = eo_tree ?o ! i"
    "set (live (eo_stash (fold evict_node ns ?o))) \<subseteq> set (live (eo_stash ?o))"
    "\<forall>node\<in>set ns. saturated (fold evict_node ns ?o) node"
    using Cons.IH [OF p(1)] by blast+
  have "int (nat n) = n" using n(1) by (simp add: in_range_def)
  then have "eo_tree (fold evict_node ns ?o) ! nat n = eo_tree ?o ! nat n"
    using IH(5) Cons.prems(4) n(1) same_geometryD(7) [OF p(2)] by auto
  then have "saturated (fold evict_node ns ?o) n"
    using saturated_later [OF p(7) IH(2) _ IH(6)] by blast
  moreover have "eo_tree (fold evict_node ns ?o) ! i = eo_tree o1 ! i"
    if "i < length (eo_tree o1)" "int i \<noteq> n" "int i \<notin> set ns" for i
  proof -
    have "i \<noteq> nat n" using that(2) \<open>int (nat n) = n\<close> by auto
    then show ?thesis using that IH(5) p(5) [of i] same_geometryD(7) [OF p(2)] by auto
  qed
  ultimately show ?case
    using IH(1-4,6,7) p(2-4,6) same_geometry_trans [OF p(2) IH(2)] by auto
qed (simp add: path_empty_def)

text \<open>
  The end of an eviction: the stash is compacted, cut to \<open>stash_max_\<close> slots and checked.
\<close>

lemma compact_cut:
  assumes "same_size n bs" "m \<le> length bs" "length (live bs) \<le> m"
  shows "resize_with x m (compact bs) = live bs @ take (m - length (live bs)) (dead bs)"
  using assms length_live_dead [of bs] by (simp add: compact_eq resize_with_def)

lemma live_live [simp]: "live (live bs) = live bs"
  by (simp add: live_def)

lemma live_take_dead [simp]: "live (take m (dead bs)) = []"
  by (auto simp: live_empty_iff dead_def dest: in_set_takeD)

lemma evict_path_spec:
  assumes "eo_inv o1" "leaf_ok o1 lf" "path_empty o1 (path_of o1 lf)"
  obtains
    (overflow) n where "evict_path (path_of o1 lf) o1 = Inl (StashOverflow n (eo_stash_max o1))"
      "eo_stash_max o1 < n" "n \<le> length (live (eo_blocks o1))"
  | (kept) o2 where "evict_path (path_of o1 lf) o1 = Inr o2"
      "eo_inv o2" "same_geometry o1 o2"
      "mset (live (eo_blocks o2)) = mset (live (eo_blocks o1))"
      "length (eo_stash o2) = eo_stash_max o1"
      "\<forall>node\<in>set (path_of o1 lf). saturated o2 node"
      "o2 = (fold evict_node (path_of o1 lf) o1)\<lparr>eo_stash := eo_stash o2\<rparr>"
proof -
  let ?p = "path_of o1 lf"
  let ?e = "fold evict_node ?p o1"
  have shape: "eo_shape o1" using assms(1) by (simp add: eo_inv_def)
  have r: "\<forall>node\<in>set ?p. in_range node (eo_tree o1) \<and> node < 2 ^ 31"
    using path_of_range [OF shape assms(2)] by blast
  note e = evict_fold_props [OF assms(1) r assms(3) path_of_props(1) [OF shape assms(2)]]
  have geo: "same_geometry o1 ?e" and inv: "eo_inv ?e" using e by blast+
  have ev: "evict_nodes ?p o1 = Inr ?e"
    by (rule evict_nodes_eq) (use r in blast)
  let ?st = "eo_stash ?e" and ?n = "eo_value_size ?e" and ?m = "eo_stash_max o1"
  have size: "same_size ?n ?st" using eo_inv_same_size [OF inv] by (simp add: eo_blocks_def)
  have len: "?m \<le> length ?st" using inv same_geometryD [OF geo] by (simp add: eo_inv_def)
  have count: "valid_count (compact ?st) = length (live ?st)"
    using live_take_dead [of "length (dead ?st)" ?st]
    by (simp add: valid_count_eq compact_eq [OF size] del: live_take_dead)
  show thesis
  proof (cases "?m < length (live ?st)")
    case True
    have "length (live ?st) \<le> length (live (eo_blocks ?e))" by (simp add: eo_blocks_def)
    also have "\<dots> = length (live (eo_blocks o1))" using e by (metis size_mset)
    finally show ?thesis
      using True ev overflow count same_geometryD(6) [OF geo]
      by (simp add: evict_path_def Let_def pad_stash_def)
  next
    case False
    let ?cut = "live ?st @ take (?m - length (live ?st)) (dead ?st)"
    let ?o = "?e\<lparr>eo_stash := ?cut\<rparr>"
    have lcut: "length ?cut = ?m" using len False length_live_dead [of ?st] by simp
    have res: "evict_path ?p o1 = Inr ?o"
      using ev count False len compact_cut [OF size len] lcut same_geometryD(6) [OF geo]
      by (simp add: evict_path_def Let_def pad_stash_def max_absorb2)
    have lv: "live ?cut = live ?st" by simp
    have g: "same_geometry o1 ?o" using geo by (simp add: same_geometry_def)
    have sz: "\<forall>b\<in>set ?cut. length (val b) = ?n"
      using live_dead_same_size [OF size] by (auto simp: same_size_def dest: in_set_takeD)
    have bl: "live (eo_blocks ?o) = live (eo_blocks ?e)"
      using lv by (simp add: eo_blocks_def)
    have "eo_inv ?o"
    proof -
      have a: "placed ?o = placed ?e" "eo_shape ?o = eo_shape ?e" "leaf_ok ?o = leaf_ok ?e"
        by (simp_all add: placed_def path_of_def eo_shape_def leaf_ok_def fun_eq_iff)
      have k: "keys_distinct (eo_blocks ?o) = keys_distinct (eo_blocks ?e)"
        unfolding keys_distinct_def bl ..
      have "\<forall>b\<in>set (eo_blocks ?o). length (val b) = eo_value_size ?o"
        using sz inv by (auto simp: eo_blocks_def eo_inv_def)
      then show ?thesis
        using inv lcut same_geometryD(6) [OF geo] unfolding eo_inv_def a k bl by simp
    qed
    moreover have "mset (live (eo_blocks ?o)) = mset (live (eo_blocks o1))"
      using e unfolding bl by blast
    moreover have "\<forall>node\<in>set ?p. saturated ?o node"
      using e lv by (auto simp: saturated_def path_of_def)
    ultimately show ?thesis using kept [OF res _ g] lcut by simp
  qed
qed

end
