(* ===== verification/Enclave_Oram_Access.thy ===== *)
theory Enclave_Oram_Access
  imports Enclave_Oram_Evict
begin

text \<open>
  The access of the enclave ORAM: what it returns, what it does to the map, when it fails, and what
  an observer of pages and node accesses sees of it.
\<close>

lemma block_map_append_out:
  "k \<notin> key ` set ys \<Longrightarrow> block_map (xs @ ys) k = block_map xs k"
proof -
  assume "k \<notin> key ` set ys"
  then have "map_of (map (\<lambda>b. (key b, leaf b, val b)) (live ys)) k = None"
    by (auto simp: map_of_eq_None_iff)
  then show ?thesis by (simp add: block_map_def map_add_def split: option.split)
qed

section \<open>The scan of the stash\<close>

definition relabel :: "i32 \<Rightarrow> i32 \<Rightarrow> bytes option \<Rightarrow> block \<Rightarrow> block" where
  "relabel k nl nv b =
     (if key b = k then b\<lparr>leaf := nl, val := (case nv of None \<Rightarrow> val b | Some v \<Rightarrow> v)\<rparr> else b)"

lemma relabel_key [simp]: "key (relabel k nl nv b) = key b"
  by (simp add: relabel_def)

lemma live_map_relabel: "live (map (relabel k nl nv) bs) = map (relabel k nl nv) (live bs)"
  by (induction bs) auto

lemma block_map_relabel:
  "block_map (map (relabel k nl nv) bs) =
   (case block_map bs k of
      None \<Rightarrow> block_map bs
    | Some (l, v) \<Rightarrow> (block_map bs)(k \<mapsto> (nl, case nv of None \<Rightarrow> v | Some w \<Rightarrow> w)))"
proof (induction bs)
  case (Cons b bs)
  then show ?case
    by (cases "key b = k"; cases "block_map bs k")
       (auto simp: block_map_Cons relabel_def fun_eq_iff split: option.splits)
qed (simp add: block_map_def)

lemma keys_distinct_relabel: "keys_distinct (map (relabel k nl nv) bs) = keys_distinct bs"
  by (simp add: keys_distinct_def live_map_relabel comp_def)

lemma resize_same [simp]: "n = length xs \<Longrightarrow> resize_with x n xs = xs"
  by (simp add: resize_with_def)

lemma access_scan_dummy:
  "same_size n bs \<Longrightarrow> length p = n \<Longrightarrow> length res = n \<Longrightarrow> access_scan 0 h k nl p res bs = (res, bs)"
  by (induction bs) (auto simp: access_step_def Let_def)

lemma access_scan_real:
  assumes "same_size n bs" "length p = n" "length res = n" "k \<noteq> INVALID_KEY" "keys_distinct bs"
  shows "access_scan 1 (of_bool h) k nl p res bs =
    (case block_map bs k of None \<Rightarrow> res | Some (l, v) \<Rightarrow> v,
     map (relabel k nl (if h then Some p else None)) bs)"
  using assms
proof (induction bs arbitrary: res)
  case (Cons b bs)
  have len: "length (val b) = n" "same_size n bs" and kd: "keys_distinct bs"
    using Cons.prems by (auto simp: keys_distinct_Cons)
  note IH = Cons.IH [OF len(2) Cons.prems(2) _ Cons.prems(4) kd]
  show ?case
  proof (cases "key b = k")
    case True
    then have "block_map bs k = None" "\<forall>c\<in>set bs. key c \<noteq> k"
      using Cons.prems(4,5) by (auto simp: keys_distinct_Cons domIff block_map_None_iff)
    with True IH [of "val b"] len Cons.prems show ?thesis
      by (cases h) (auto simp: access_step_def Let_def block_map_Cons relabel_def)
  next
    case False
    with IH [of res] len Cons.prems show ?thesis
      by (cases h) (auto simp: access_step_def Let_def block_map_Cons relabel_def)
  qed
qed (simp add: block_map_def)

section \<open>What the observer sees\<close>

definition page_span :: "nat \<Rightarrow> int \<Rightarrow> nat set" where
  "page_span sz node =
     (let e = nat node * sz + sz; last_byte = (if e = 0 then 2 ^ 64 - 1 else e - 1)
      in set [nat node * sz div PAGE_SIZE..<last_byte div PAGE_SIZE + 1])"

lemma touched_record [simp]:
  "touched_pages (record_node_access n o1) = touched_pages o1 \<union> page_span (node_byte_size o1) n"
  "node_access_count (record_node_access n o1) = node_access_count o1 + 1"
  by (simp_all add: record_node_access_def Let_def page_span_def)

lemma node_byte_size_geometry: "same_geometry o1 o2 \<Longrightarrow> node_byte_size o2 = node_byte_size o1"
  by (simp add: node_byte_size_def same_geometry_def)

lemma same_geometry_steps:
  "same_geometry o1 (read_node n o1)" "same_geometry o1 (evict_node n o1)"
  by (simp_all add: same_geometry_def read_node_def evict_node_def Let_def split: prod.split)

lemma touched_steps:
  "touched_pages (read_node n o1) = touched_pages o1 \<union> page_span (node_byte_size o1) n"
  "node_access_count (read_node n o1) = node_access_count o1 + 1"
  "touched_pages (evict_node n o1) = touched_pages o1 \<union> page_span (node_byte_size o1) n"
  "node_access_count (evict_node n o1) = node_access_count o1 + 1"
  by (simp_all add: read_node_def evict_node_def Let_def split: prod.split)

lemma touched_fold:
  assumes "f = read_node \<or> f = evict_node"
  shows "touched_pages (fold f ns o1) = touched_pages o1 \<union> (\<Union>n\<in>set ns. page_span (node_byte_size o1) n)
    \<and> node_access_count (fold f ns o1) = node_access_count o1 + length ns
    \<and> node_byte_size (fold f ns o1) = node_byte_size o1"
proof (induction ns arbitrary: o1)
  case (Cons n ns)
  have "node_byte_size (f n o1) = node_byte_size o1"
    using assms same_geometry_steps node_byte_size_geometry by metis
  then show ?case
    using Cons [of "f n o1"] assms by (auto simp: touched_steps)
qed simp

lemma stats_fold:
  assumes "f = read_node \<or> f = evict_node"
  shows "eo_total_stats (fold f ns o1) = eo_total_stats o1"
proof (induction ns arbitrary: o1)
  case (Cons n ns)
  have "eo_total_stats (f n o1) = eo_total_stats o1"
    using assms by (auto simp: read_node_def evict_node_def Let_def split: prod.split)
  then show ?case using Cons [of "f n o1"] by simp
qed simp

text \<open>The cost of an access, as a function of the shape of the ORAM and of the leaf alone.\<close>

definition path_stats :: "enclave_oram \<Rightarrow> i32 \<Rightarrow> oram_stats" where
  "path_stats o1 lf =
     \<lparr>pages_touched = card (\<Union>n\<in>set (path_of o1 lf). page_span (node_byte_size o1) n),
      node_accesses = 2 * eo_level o1, accesses = 1\<rparr>"

section \<open>Rewriting the stash\<close>

lemma eo_inv_relabel:
  assumes inv: "eo_inv o1" and nl: "leaf_ok o1 nl" and nv: "\<forall>v. nv = Some v \<longrightarrow> length v = eo_value_size o1"
    and out: "k \<notin> key ` set (concat (eo_tree o1))" and k: "k \<noteq> INVALID_KEY"
  defines "o2 \<equiv> o1\<lparr>eo_stash := map (relabel k nl nv) (eo_stash o1)\<rparr>"
  shows "eo_inv o2" "same_geometry o1 o2" "eo_blocks o2 = map (relabel k nl nv) (eo_blocks o1)"
proof -
  have id: "map (relabel k nl nv) (concat (eo_tree o1)) = concat (eo_tree o1)"
    using out by (intro map_idI) (auto simp: relabel_def)
  show bl: "eo_blocks o2 = map (relabel k nl nv) (eo_blocks o1)"
    using id by (simp add: eo_blocks_def o2_def)
  show geo: "same_geometry o1 o2" by (simp add: same_geometry_def o2_def)
  have a: "placed o2 = placed o1" "eo_shape o2 = eo_shape o1" "leaf_ok o2 = leaf_ok o1"
    "eo_value_size o2 = eo_value_size o1" "eo_stash_max o2 = eo_stash_max o1"
    "length (eo_stash o2) = length (eo_stash o1)"
    by (simp_all add: placed_def path_of_def eo_shape_def leaf_ok_def fun_eq_iff o2_def)
  have "\<forall>b\<in>set (live (eo_blocks o2)). leaf_ok o1 (leaf b)"
    unfolding bl live_map_relabel using inv nl by (auto simp: eo_inv_def relabel_def)
  moreover have "\<forall>b\<in>set (eo_blocks o2). length (val b) = eo_value_size o1"
    unfolding bl using inv nv by (auto simp: eo_inv_def relabel_def split: option.split)
  moreover have "keys_distinct (eo_blocks o2)"
    unfolding bl keys_distinct_relabel using inv by (simp add: eo_inv_def)
  ultimately show "eo_inv o2"
    using inv unfolding eo_inv_def a by simp
qed

lemma read_out_of_tree:
  assumes "eo_inv o2" "path_empty o2 (path_of o2 lf)" "\<forall>l v. eo_map o2 k = Some (l, v) \<longrightarrow> l = lf"
    "k \<noteq> INVALID_KEY"
  shows "k \<notin> key ` set (concat (eo_tree o2))"
proof
  assume "k \<in> key ` set (concat (eo_tree o2))"
  then obtain b i where b: "key b = k" "b \<in> set (eo_tree o2 ! i)" "i < length (eo_tree o2)"
  proof -
    from \<open>k \<in> _\<close> obtain b bs where "b \<in> set bs" "bs \<in> set (eo_tree o2)" "key b = k"
      by auto
    then show ?thesis using that by (metis in_set_conv_nth)
  qed
  then have "b \<in> set (eo_blocks o2)" by (auto simp: eo_blocks_def)
  then have "eo_map o2 k = Some (leaf b, val b)"
    using assms(1,4) b(1) by (auto simp: eo_map_def eo_inv_def block_map_Some_iff)
  then have "leaf b = lf" using assms(3) by blast
  then have "int i \<in> set (path_of o2 lf)"
    using assms(1,4) b by (auto simp: eo_inv_def placed_def)
  then have "live (eo_tree o2 ! i) = []"
    using assms(2) by (fastforce simp: path_empty_def)
  then show False using b assms(4) by (auto simp: live_empty_iff)
qed

lemma random_leaf_ok: "eo_shape o1 \<Longrightarrow> leaf_ok o1 (fst (random_leaf o1 r))"
proof -
  assume s: "eo_shape o1"
  obtain x r' where x: "rand_below (eo_leaf_range o1) r = (x, r')" by fastforce
  have "(2::int) ^ (eo_level o1 - 1) \<le> 2 ^ 30"
    by (rule power_increasing) (use s in \<open>auto simp: eo_shape_def\<close>)
  moreover have "0 \<le> x \<and> x < 2 ^ (eo_level o1 - 1)"
    using rand_below_range [of "eo_leaf_range o1" r] x s by (simp add: eo_shape_def)
  ultimately have "0 \<le> x \<and> x < 2 ^ (eo_level o1 - 1) \<and> x < 2 ^ 31" by simp
  then show ?thesis
    using x by (simp add: random_leaf_def leaf_ok_def valid_leaf_def sint_sbintrunc'
        signed_take_bit_int_eq_self)
qed

section \<open>The access\<close>

lemma begin_tracking_inv:
  assumes "eo_inv o0"
  defines "o1 \<equiv> begin_page_tracking (o0\<lparr>eo_last_stats := zero_stats\<rparr>)"
  shows "eo_inv o1" "same_geometry o0 o1" "eo_blocks o1 = eo_blocks o0" "touched_pages o1 = {}"
    "node_access_count o1 = 0" "eo_total_stats o1 = eo_total_stats o0"
  using assms
  by (simp_all add: begin_page_tracking_def eo_inv_def eo_shape_def placed_def leaf_ok_def path_of_def
      eo_blocks_def same_geometry_def)

definition add_stats :: "oram_stats \<Rightarrow> oram_stats \<Rightarrow> oram_stats" where
  "add_stats s t = \<lparr>pages_touched = pages_touched s + pages_touched t,
     node_accesses = node_accesses s + node_accesses t, accesses = accesses s + accesses t\<rparr>"

definition access_result :: "i32 \<Rightarrow> bool \<Rightarrow> enclave_oram \<Rightarrow> bytes" where
  "access_result k is_real o0 =
     (case eo_map o0 k of Some (l, v) \<Rightarrow> if is_real then v else replicate (eo_value_size o0) 0
      | None \<Rightarrow> replicate (eo_value_size o0) 0)"

definition accessed_map ::
  "i32 \<Rightarrow> i32 \<Rightarrow> bytes option \<Rightarrow> nat \<Rightarrow> (i32 \<rightharpoonup> i32 \<times> bytes) \<Rightarrow> i32 \<rightharpoonup> i32 \<times> bytes" where
  "accessed_map k nl nv vs m =
     (case m k of
        None \<Rightarrow> m
      | Some (l, v) \<Rightarrow> m(k \<mapsto> (nl, case nv of None \<Rightarrow> v | Some w \<Rightarrow> pad_bytes w vs)))"

lemma access_or_dummy_cases:
  fixes nv :: "bytes option" and r :: rng
  assumes inv: "eo_inv o0"
    and lf_def: "lf = (if is_real then old_leaf else fst (random_leaf o0 r))"
    and real: "is_real \<longrightarrow> leaf_ok o0 old_leaf \<and> leaf_ok o0 new_leaf \<and> k \<noteq> INVALID_KEY
      \<and> (\<forall>l v. eo_map o0 k = Some (l, v) \<longrightarrow> l = old_leaf)"
    and nv: "\<forall>v. nv = Some v \<longrightarrow> length v \<le> eo_value_size o0"
  obtains
    (overflow) n where "access_or_dummy k old_leaf new_leaf is_real nv o0 r =
        Inl (StashOverflow n (eo_stash_max o0))" "eo_stash_max o0 < n"
      "n \<le> length (live (eo_blocks o0))"
  | (kept) o3 where
      "access_or_dummy k old_leaf new_leaf is_real nv o0 r =
         Inr (access_result k is_real o0, o3, snd (random_leaf o0 r))"
      "eo_inv o3" "same_geometry o0 o3" "length (eo_stash o3) = eo_stash_max o0"
      "eo_map o3 = (if is_real then accessed_map k new_leaf nv (eo_value_size o0) (eo_map o0) else eo_map o0)"
      "eo_last_stats o3 = path_stats o0 lf"
      "eo_total_stats o3 = add_stats (eo_total_stats o0) (path_stats o0 lf)"
      "\<forall>node\<in>set (path_of o0 lf). saturated o3 node"
      "touched_pages o3 = (\<Union>n\<in>set (path_of o0 lf). page_span (node_byte_size o0) n)"
proof -
  have shape: "eo_shape o0" using inv by (simp add: eo_inv_def)
  have lf: "leaf_ok o0 lf" using real random_leaf_ok [OF shape] lf_def by auto
  let ?o1 = "begin_page_tracking (o0\<lparr>eo_last_stats := zero_stats\<rparr>)"
  note b = begin_tracking_inv [OF inv]
  note g1 = same_geometryD [OF b(2)]
  let ?p = "path_of o0 lf"
  obtain r1 where rl: "random_leaf ?o1 r = (fst (random_leaf o0 r), r1)" "r1 = snd (random_leaf o0 r)"
    using g1(9) by simp
  have use_leaf: "o_select_i is_real old_leaf (fst (random_leaf o0 r)) = lf"
    by (simp add: lf_def)
  obtain o2 where o2: "read_path lf ?o1 = Inr (?p, o2)" "o2 = fold read_node ?p ?o1"
    "eo_inv o2" "same_geometry ?o1 o2" "path_empty o2 ?p" "mset (live (eo_blocks o2)) = mset (live (eo_blocks o0))"
    using read_path_spec [OF b(1), of lf] lf unfolding g1 b(3) by metis
  note g2 = same_geometryD [OF same_geometry_trans [OF b(2) o2(4)]]
  have map2: "eo_map o2 = eo_map o0"
    unfolding eo_map_def by (rule block_map_mset [OF o2(6)]) (use o2(3) in \<open>simp add: eo_inv_def\<close>)
  let ?pad = "case nv of None \<Rightarrow> replicate (eo_value_size o2) 0 | Some v \<Rightarrow> pad_bytes v (eo_value_size o2)"
  let ?nv = "map_option (\<lambda>w. pad_bytes w (eo_value_size o0)) nv"
  define st where "st = (if is_real then map (relabel k new_leaf ?nv) (eo_stash o2) else eo_stash o2)"
  let ?o2 = "o2\<lparr>eo_stash := st\<rparr>"
  have scan: "access_scan (of_bool is_real) (of_bool (nv \<noteq> None)) k new_leaf ?pad
      (replicate (eo_value_size o2) 0) (eo_stash o2) = (access_result k is_real o0, st)"
  proof (cases is_real)
    case True
    have out: "k \<notin> key ` set (concat (eo_tree o2))"
      by (rule read_out_of_tree [OF o2(3)])
        (use o2(5) real True lf_def in \<open>auto simp: g2 map2\<close>)
    have "block_map (eo_stash o2) k = eo_map o0 k"
      using block_map_append_out [OF out, of "eo_stash o2"]
      unfolding map2 [symmetric] by (simp add: eo_map_def eo_blocks_def)
    moreover have "keys_distinct (eo_stash o2)"
      using o2(3) by (simp add: eo_inv_def eo_blocks_def keys_distinct_def)
    ultimately show ?thesis
      using access_scan_real [of "eo_value_size o2" "eo_stash o2" ?pad "replicate (eo_value_size o2) 0" k "nv \<noteq> None" new_leaf]
        eo_inv_same_size [OF o2(3)] real nv True
      by (cases nv) (auto simp: access_result_def st_def g2 eo_blocks_def max_def split: option.splits)
  next
    case False
    then show ?thesis
      using access_scan_dummy [of "eo_value_size o2" "eo_stash o2" ?pad "replicate (eo_value_size o2) 0"]
        eo_inv_same_size [OF o2(3)] nv
      by (cases nv) (auto simp: access_result_def st_def g2 eo_blocks_def max_def split: option.splits)
  qed
  have mid: "eo_inv ?o2" "same_geometry o2 ?o2"
    "eo_map ?o2 = (if is_real then accessed_map k new_leaf nv (eo_value_size o0) (eo_map o0) else eo_map o0)"
    "length (live (eo_blocks ?o2)) = length (live (eo_blocks o2))"
  proof -
    have "eo_inv ?o2 \<and> same_geometry o2 ?o2 \<and> length (live (eo_blocks ?o2)) = length (live (eo_blocks o2)) \<and>
      eo_map ?o2 = accessed_map k new_leaf nv (eo_value_size o0) (eo_map o0)" if is_real
    proof -
      have out: "k \<notin> key ` set (concat (eo_tree o2))"
        by (rule read_out_of_tree [OF o2(3)])
          (use o2(5) real that lf_def in \<open>auto simp: g2 map2\<close>)
      have nl: "leaf_ok o2 new_leaf" and k: "k \<noteq> INVALID_KEY"
        using real that by (simp_all add: g2)
      have nvl: "\<forall>v. ?nv = Some v \<longrightarrow> length v = eo_value_size o2"
        using nv by (auto simp: g2 max_def)
      have st: "st = map (relabel k new_leaf ?nv) (eo_stash o2)"
        using that by (simp add: st_def)
      note e = eo_inv_relabel [OF o2(3) nl nvl out k, folded st]
      have "eo_map ?o2 = accessed_map k new_leaf nv (eo_value_size o0) (eo_map o0)"
        using map2 unfolding eo_map_def [of o2] eo_map_def [of ?o2] e(3) block_map_relabel accessed_map_def
        by (cases nv) (auto split: option.split)
      moreover have "length (live (eo_blocks ?o2)) = length (live (eo_blocks o2))"
        unfolding e(3) live_map_relabel by simp
      ultimately show ?thesis using e by blast
    qed
    then have "eo_inv ?o2 \<and> same_geometry o2 ?o2 \<and> length (live (eo_blocks ?o2)) = length (live (eo_blocks o2)) \<and> eo_map ?o2 =
      (if is_real then accessed_map k new_leaf nv (eo_value_size o0) (eo_map o0) else eo_map o0)"
    proof (cases is_real)
      case False
      then have eq: "?o2 = o2" by (simp add: st_def)
      show ?thesis unfolding eq using False o2(3) map2 by simp
    qed simp
    then show "eo_inv ?o2" "same_geometry o2 ?o2"
      "eo_map ?o2 = (if is_real then accessed_map k new_leaf nv (eo_value_size o0) (eo_map o0) else eo_map o0)"
      "length (live (eo_blocks ?o2)) = length (live (eo_blocks o2))"
      by blast+
  qed
  note geo = same_geometry_trans [OF same_geometry_trans [OF b(2) o2(4)] mid(2)]
  note g3 = same_geometryD [OF geo]
  have empty: "path_empty ?o2 (path_of ?o2 lf)" "leaf_ok ?o2 lf"
    using o2(5) lf by (simp_all add: g3 path_empty_def)
  have run: "access_or_dummy k old_leaf new_leaf is_real nv o0 r =
      bind_result (evict_path ?p ?o2) (\<lambda>o3.
        let ls = \<lparr>pages_touched = end_page_tracking o3, node_accesses = node_access_count o3, accesses = 1\<rparr>
        in Inr (access_result k is_real o0,
                o3\<lparr>eo_last_stats := ls, eo_total_stats := add_stats (eo_total_stats o3) ls\<rparr>, r1))"
    unfolding access_or_dummy_def Let_def rl(1) prod.case use_leaf o2(1) bind_result_simps scan
    by (simp add: add_stats_def)
  show thesis
    using mid(1) empty(2,1)
  proof (cases rule: evict_path_spec)
    case (overflow n)
    have "length (live (eo_blocks ?o2)) = length (live (eo_blocks o0))"
      using mid(4) o2(6) by (metis size_mset)
    with overflow show ?thesis using that(1) run by (simp add: g3)
  next
    case (kept o3)
    let ?e = "fold evict_node ?p ?o2"
    have p: "path_of ?o2 lf = ?p" by (simp add: g3)
    have sz: "node_byte_size ?o2 = node_byte_size o0" "node_byte_size ?o1 = node_byte_size o0"
      using node_byte_size_geometry [OF geo] node_byte_size_geometry [OF b(2)] by simp_all
    have tp: "touched_pages o3 = (\<Union>n\<in>set ?p. page_span (node_byte_size o0) n)"
      and cnt: "node_access_count o3 = 2 * eo_level o0"
      and tot: "eo_total_stats o3 = eo_total_stats o0"
    proof -
      have "touched_pages o3 = touched_pages ?e" "node_access_count o3 = node_access_count ?e"
        "eo_total_stats o3 = eo_total_stats ?e"
        using kept(7) unfolding p by (metis enclave_oram.select_convs(11-12,10) enclave_oram.surjective enclave_oram.update_convs(8))+
      moreover have "touched_pages ?e = (\<Union>n\<in>set ?p. page_span (node_byte_size o0) n)"
        "node_access_count ?e = 2 * length ?p" "eo_total_stats ?e = eo_total_stats o0"
        using touched_fold [of evict_node ?p ?o2] touched_fold [of read_node ?p ?o1] b
          stats_fold [of evict_node ?p ?o2] stats_fold [of read_node ?p ?o1] sz
        by (simp_all add: o2(2)) 
      ultimately show "touched_pages o3 = (\<Union>n\<in>set ?p. page_span (node_byte_size o0) n)"
        "node_access_count o3 = 2 * eo_level o0" "eo_total_stats o3 = eo_total_stats o0"
        using path_of_props(2) [OF shape lf] by simp_all
    qed
    let ?o4 = "o3\<lparr>eo_last_stats := path_stats o0 lf,
                  eo_total_stats := add_stats (eo_total_stats o0) (path_stats o0 lf)\<rparr>"
    have "access_or_dummy k old_leaf new_leaf is_real nv o0 r =
        Inr (access_result k is_real o0, ?o4, snd (random_leaf o0 r))"
      using run kept(1) tp cnt tot rl(2) by (simp add: p end_page_tracking_def path_stats_def)
    moreover have "eo_inv ?o4"
      using kept(2) by (simp add: eo_inv_def eo_shape_def placed_def leaf_ok_def path_of_def eo_blocks_def)
    moreover have "same_geometry o0 ?o4"
      using same_geometry_trans [OF geo kept(3)] by (simp add: same_geometry_def)
    moreover have "eo_map ?o4 = eo_map ?o2"
      using block_map_mset [OF kept(4)] kept(2) by (simp add: eo_map_def eo_blocks_def eo_inv_def)
    moreover have "\<forall>node\<in>set ?p. saturated ?o4 node"
    proof -
      have "saturated ?o4 = saturated o3" by (simp add: saturated_def path_of_def fun_eq_iff)
      then show ?thesis using kept(6) unfolding p by simp
    qed
    ultimately show ?thesis
      using that(2) [of ?o4] kept(5) mid(3) tp by (simp add: g3)
  qed
qed

end
