(* ===== verification/Enclave_Oram_Load.thy ===== *)
theory Enclave_Oram_Load
  imports Enclave_Oram_Access
begin

text \<open>
  The construction and the initial load of the enclave ORAM establish its invariant, and the map of
  the loaded ORAM is that of the data. \<open>add_to_stash\<close> and \<open>extract_from_stash\<close> insert and delete.
\<close>

section \<open>The invariant without the padding\<close>

definition eo_core :: "enclave_oram \<Rightarrow> bool" where
  "eo_core o1 \<longleftrightarrow>
     eo_shape o1 \<and> placed o1
     \<and> (\<forall>b\<in>set (live (eo_blocks o1)). leaf_ok o1 (leaf b))
     \<and> (\<forall>b\<in>set (eo_blocks o1). length (val b) = eo_value_size o1)
     \<and> keys_distinct (eo_blocks o1)"

lemma eo_inv_core: "eo_inv o1 \<longleftrightarrow> eo_core o1 \<and> eo_stash_max o1 \<le> length (eo_stash o1)"
  by (auto simp: eo_inv_def eo_core_def)

lemma eo_core_stash:
  assumes "eo_core o1"
    and "\<forall>b\<in>set (live st). leaf_ok o1 (leaf b)" "\<forall>b\<in>set st. length (val b) = eo_value_size o1"
    and "keys_distinct (st @ concat (eo_tree o1))"
  shows "eo_core (o1\<lparr>eo_stash := st\<rparr>)" "same_geometry o1 (o1\<lparr>eo_stash := st\<rparr>)"
proof -
  let ?o = "o1\<lparr>eo_stash := st\<rparr>"
  have "placed ?o = placed o1" "eo_shape ?o = eo_shape o1" "leaf_ok ?o = leaf_ok o1"
    by (simp_all add: placed_def path_of_def eo_shape_def leaf_ok_def fun_eq_iff)
  then show "eo_core ?o"
    using assms by (auto simp: eo_core_def eo_blocks_def)
qed (simp add: same_geometry_def)

lemma pad_stash_spec:
  assumes "eo_core o1"
  shows "eo_inv (pad_stash o1)" "same_geometry o1 (pad_stash o1)" "eo_map (pad_stash o1) = eo_map o1"
    "length (eo_stash (pad_stash o1)) = max (eo_stash_max o1) (length (eo_stash o1))"
proof -
  let ?pad = "replicate (eo_stash_max o1 - length (eo_stash o1)) (empty_slot (eo_value_size o1))"
  let ?st = "eo_stash o1 @ ?pad"
  have p: "pad_stash o1 = o1\<lparr>eo_stash := ?st\<rparr>" by (simp add: pad_stash_def)
  have "keys_distinct (?st @ concat (eo_tree o1))"
    using assms by (simp add: eo_core_def eo_blocks_def keys_distinct_def)
  then have c: "eo_core (o1\<lparr>eo_stash := ?st\<rparr>)" "same_geometry o1 (o1\<lparr>eo_stash := ?st\<rparr>)"
    by (rule eo_core_stash [OF assms, rotated 2];
        use assms in \<open>auto simp: eo_core_def eo_blocks_def\<close>)+
  then show "eo_inv (pad_stash o1)" "same_geometry o1 (pad_stash o1)"
    unfolding p by (auto simp: eo_inv_core)
  show "eo_map (pad_stash o1) = eo_map o1"
    unfolding p by (simp add: eo_map_def eo_blocks_def block_map_def)
  show "length (eo_stash (pad_stash o1)) = max (eo_stash_max o1) (length (eo_stash o1))"
    unfolding p by simp
qed

section \<open>Adding a block\<close>

lemma add_to_stash_spec:
  assumes "eo_core o1" "leaf_ok o1 lf" "length v \<le> eo_value_size o1" "eo_map o1 k = None"
    "k \<noteq> INVALID_KEY"
  shows "eo_core (add_to_stash k lf v o1)" "same_geometry o1 (add_to_stash k lf v o1)"
    "eo_map (add_to_stash k lf v o1) = (eo_map o1)(k \<mapsto> (lf, pad_bytes v (eo_value_size o1)))"
proof -
  let ?b = "\<lparr>key = k, leaf = lf, val = pad_bytes v (eo_value_size o1)\<rparr>"
  let ?st = "eo_stash o1 @ [?b]"
  have a: "add_to_stash k lf v o1 = o1\<lparr>eo_stash := ?st\<rparr>" by (simp add: add_to_stash_def)
  have fresh: "\<forall>b\<in>set (eo_blocks o1). key b \<noteq> k"
    using assms(4,5) by (auto simp: eo_map_def block_map_None_iff)
  have kd: "keys_distinct (eo_stash o1 @ ?b # concat (eo_tree o1))"
    using assms(1) fresh by (auto simp: eo_core_def keys_distinct_def eo_blocks_def)
  show "eo_core (add_to_stash k lf v o1)" "same_geometry o1 (add_to_stash k lf v o1)"
    unfolding a
    by (rule eo_core_stash [OF assms(1)];
        use assms(1-3) kd in \<open>auto simp: eo_core_def eo_blocks_def\<close>)+
  show "eo_map (add_to_stash k lf v o1) = (eo_map o1)(k \<mapsto> (lf, pad_bytes v (eo_value_size o1)))"
    unfolding a using block_map_mid [OF kd] assms(5) by (simp add: eo_map_def eo_blocks_def)
qed

section \<open>Taking a block out\<close>

lemma extract_scan_spec:
  assumes "same_size n bs" "length (val res) = n" "k \<noteq> INVALID_KEY" "keys_distinct bs"
  shows "extract_scan k res bs =
    (case find (\<lambda>b. key b = k) bs of None \<Rightarrow> res | Some b \<Rightarrow> b,
     map (\<lambda>b. if key b = k then b\<lparr>key := INVALID_KEY\<rparr> else b) bs)"
  using assms
proof (induction bs arbitrary: res)
  case (Cons b bs)
  have none: "find (\<lambda>c. key c = k) bs = None" if "key b = k"
    using Cons.prems(3,4) that
    by (auto simp: keys_distinct_Cons find_None_iff domIff block_map_None_iff)
  have kd: "keys_distinct bs" using Cons.prems(4) by (simp add: keys_distinct_Cons)
  show ?case
    using Cons.IH [of res] Cons.IH [of b] none kd Cons.prems
    by (auto simp: extract_step_def Let_def block_collapse block_collapse_key block_key_same)
qed simp

lemma map_clear_key:
  assumes "k \<noteq> INVALID_KEY" "keys_distinct bs"
  shows "block_map (map (\<lambda>b. if key b = k then b\<lparr>key := INVALID_KEY\<rparr> else b) bs) = (block_map bs)(k := None)
    \<and> keys_distinct (map (\<lambda>b. if key b = k then b\<lparr>key := INVALID_KEY\<rparr> else b) bs)"
  using assms(2)
proof (induction bs)
  case (Cons b bs)
  then show ?case
    using assms(1) by (auto simp: keys_distinct_Cons block_map_Cons domIff fun_eq_iff)
qed (simp add: block_map_def keys_distinct_def)

lemma extract_from_stash_spec:
  assumes inv: "eo_core o1" and k: "k \<noteq> INVALID_KEY" and out: "k \<notin> key ` set (concat (eo_tree o1))"
  shows "case extract_from_stash k o1 of (b, o2) \<Rightarrow>
    eo_core o2 \<and> same_geometry o1 o2 \<and> eo_map o2 = (eo_map o1)(k := None)
    \<and> length (eo_stash o2) = length (eo_stash o1)
    \<and> (case eo_map o1 k of None \<Rightarrow> b = empty_slot (eo_value_size o1)
       | Some (l, v) \<Rightarrow> b = \<lparr>key = k, leaf = l, val = v\<rparr>)"
proof -
  let ?f = "map (\<lambda>b. if key b = k then b\<lparr>key := INVALID_KEY\<rparr> else b)"
  let ?st = "?f (eo_stash o1)"
  have size: "same_size (eo_value_size o1) (eo_stash o1)"
    using inv by (auto simp: eo_core_def eo_blocks_def same_size_def)
  have kd: "keys_distinct (eo_blocks o1)" "keys_distinct (eo_stash o1)"
    using inv by (auto simp: eo_core_def eo_blocks_def keys_distinct_def)
  have e: "extract_from_stash k o1 =
      (case find (\<lambda>b. key b = k) (eo_stash o1) of None \<Rightarrow> empty_slot (eo_value_size o1) | Some b \<Rightarrow> b,
       o1\<lparr>eo_stash := ?st\<rparr>)"
    using extract_scan_spec [OF size _ k kd(2), of "empty_slot (eo_value_size o1)"]
    by (simp add: extract_from_stash_def)
  have id: "?f (concat (eo_tree o1)) = concat (eo_tree o1)"
    using out by (intro map_idI) auto
  have bl: "eo_blocks (o1\<lparr>eo_stash := ?st\<rparr>) = ?f (eo_blocks o1)"
    unfolding eo_blocks_def using id by simp
  note m = map_clear_key [OF k kd(1)]
  have core: "eo_core (o1\<lparr>eo_stash := ?st\<rparr>)" "same_geometry o1 (o1\<lparr>eo_stash := ?st\<rparr>)"
    by (rule eo_core_stash [OF inv];
        use inv m bl in \<open>auto simp: eo_core_def eo_blocks_def\<close>)+
  have found: "case eo_map o1 k of
      None \<Rightarrow> find (\<lambda>b. key b = k) (eo_stash o1) = None
    | Some (l, v) \<Rightarrow> find (\<lambda>b. key b = k) (eo_stash o1) = Some \<lparr>key = k, leaf = l, val = v\<rparr>"
  proof (cases "find (\<lambda>b. key b = k) (eo_stash o1)")
    case None
    then have "eo_map o1 k = None"
      using out by (auto simp: find_None_iff eo_map_def eo_blocks_def block_map_None_iff)
    with None show ?thesis by simp
  next
    case (Some b)
    then have "b \<in> set (eo_blocks o1)" "key b = k"
      by (auto simp: find_Some_iff eo_blocks_def)
    then have "eo_map o1 k = Some (leaf b, val b)"
      using kd(1) k by (auto simp: eo_map_def block_map_Some_iff)
    with Some \<open>key b = k\<close> show ?thesis by (auto simp: block_collapse_key)
  qed
  show ?thesis
    using core m found unfolding e prod.case eo_map_def bl
    by (auto split: option.splits)
qed

section \<open>Placing the initial blocks\<close>

lemma fill_slot_spec:
  "fill_slot b ss = Some ss' \<Longrightarrow> key b \<noteq> INVALID_KEY \<Longrightarrow>
   length ss' = length ss \<and> mset (live ss') = add_mset b (mset (live ss))
   \<and> (same_size n ss \<and> length (val b) = n \<longrightarrow> same_size n ss')"
proof (induction ss arbitrary: ss')
  case (Cons s ss)
  then show ?case by (cases "key s = INVALID_KEY") (auto split: if_splits)
qed simp

lemma place_climb_walk:
  assumes "at_depth d node" "\<forall>n\<in>set (walk_up (Suc d) node). in_range n t"
  shows "place_climb b node t = Inr None
    \<or> (\<exists>n bucket. n \<in> set (walk_up (Suc d) node) \<and> fill_slot b (t ! nat n) = Some bucket
         \<and> place_climb b node t = Inr (Some (t[nat n := bucket])))"
  using assms
proof (induction d arbitrary: node)
  case 0
  then show ?case by (auto simp: place_climb.simps [of b 0] split: option.split)
next
  case (Suc d)
  then have n: "0 < node" "at_depth d (parent node)" by (auto simp: at_depth_Suc)
  moreover have "\<forall>n\<in>set (walk_up (Suc d) (parent node)). in_range n t"
    using Suc.prems(2) n(1) by auto
  ultimately have IH: "place_climb b (parent node) t = Inr None
    \<or> (\<exists>n bucket. n \<in> set (walk_up (Suc d) (parent node)) \<and> fill_slot b (t ! nat n) = Some bucket
         \<and> place_climb b (parent node) t = Inr (Some (t[nat n := bucket])))"
    using Suc.IH by blast
  have step: "walk_up (Suc (Suc d)) node = node # walk_up (Suc d) (parent node)"
    using n(1) by simp
  have "in_range node t" using Suc.prems(2) step by simp
  then have run: "place_climb b node t = (case fill_slot b (t ! nat node) of
      Some bucket \<Rightarrow> Inr (Some (t[nat node := bucket])) | None \<Rightarrow> place_climb b (parent node) t)"
    using n(1) by (subst place_climb.simps) (auto split: option.split)
  show ?case
  proof (cases "fill_slot b (t ! nat node)")
    case None
    then show ?thesis
      using IH unfolding run step by (simp del: walk_up.simps) blast
  next
    case (Some bucket)
    then show ?thesis unfolding run step by (simp del: walk_up.simps) blast
  qed
qed

lemma place_climb_path:
  assumes "eo_shape o1" "leaf_ok o1 lf"
  obtains (none) "place_climb b (leaf_to_node o1 lf) (eo_tree o1) = Inr None"
  | (some) n bucket where "n \<in> set (path_of o1 lf)" "fill_slot b (eo_tree o1 ! nat n) = Some bucket"
      "place_climb b (leaf_to_node o1 lf) (eo_tree o1) = Inr (Some ((eo_tree o1)[nat n := bucket]))"
proof -
  have l: "1 \<le> eo_level o1" "valid_leaf (eo_level o1) (sint lf)"
    using assms by (auto simp: eo_shape_def leaf_ok_def)
  have p: "path_of o1 lf = walk_up (Suc (eo_level o1 - 1)) (leaf_to_node o1 lf)"
    using path_of_eq [OF assms(1), of lf] l(1) by simp
  show thesis
    using place_climb_walk [of "eo_level o1 - 1" "leaf_to_node o1 lf" "eo_tree o1" b]
      at_depth_leaf [OF l] path_of_range(1) [OF assms] none some
    unfolding leaf_to_node_eq [OF assms(1)] p [unfolded leaf_to_node_eq [OF assms(1)]] by blast
qed

text \<open>A block put into a bucket of its path.\<close>

lemma place_in_tree:
  assumes core: "eo_core o1" and b: "key b \<noteq> INVALID_KEY" "leaf_ok o1 (leaf b)"
      "length (val b) = eo_value_size o1" "eo_map o1 (key b) = None"
    and n: "n \<in> set (path_of o1 (leaf b))" "fill_slot b (eo_tree o1 ! nat n) = Some bucket"
  defines "o2 \<equiv> o1\<lparr>eo_tree := (eo_tree o1)[nat n := bucket]\<rparr>"
  shows "eo_core o2" "same_geometry o1 o2" "eo_map o2 = (eo_map o1)(key b \<mapsto> (leaf b, val b))"
proof -
  have shape: "eo_shape o1" using core by (simp add: eo_core_def)
  have rng: "in_range n (eo_tree o1)" "0 \<le> n" using path_of_range [OF shape b(2) n(1)] by auto
  have i: "nat n < length (eo_tree o1)" using rng by simp
  have size: "same_size (eo_value_size o1) (eo_tree o1 ! nat n)"
    using core nth_mem [OF i] by (auto simp: eo_core_def eo_blocks_def same_size_def)
  note f = fill_slot_spec [OF n(2) b(1), of "eo_value_size o1"]
  have m: "mset (live (eo_blocks o2)) = add_mset b (mset (live (eo_blocks o1)))"
    using live_update_concat [OF i, of bucket] f by (simp add: eo_blocks_def o2_def)
  show geo: "same_geometry o1 o2" by (simp add: same_geometry_def o2_def)
  note g = same_geometryD [OF geo]
  have set2: "set (live (eo_blocks o2)) = insert b (set (live (eo_blocks o1)))"
    using m by (metis set_mset_add_mset_insert set_mset_mset)
  have fresh: "\<forall>c\<in>set (eo_blocks o1). key c \<noteq> key b"
    using b by (auto simp: eo_map_def block_map_None_iff)
  have mm: "mset (live (eo_blocks o2)) = mset (live (b # eo_blocks o1))"
    using m b by simp
  have kd1: "keys_distinct (b # eo_blocks o1)"
    using core fresh by (auto simp: eo_core_def keys_distinct_def)
  then have kd2: "keys_distinct (eo_blocks o2)" using keys_distinct_mset [OF mm] by simp
  show "eo_map o2 = (eo_map o1)(key b \<mapsto> (leaf b, val b))"
    using block_map_mset [OF mm kd2] b by (simp add: eo_map_def block_map_Cons)
  have tr: "eo_tree o2 = (eo_tree o1)[nat n := bucket]" by (simp add: o2_def)
  show "eo_core o2"
    unfolding eo_core_def
  proof (intro conjI)
    have "\<forall>bs\<in>set (eo_tree o2). length bs = eo_bucket_size o1"
      unfolding tr by (rule all_set_update)
        (use shape f bspec [OF _ nth_mem [OF i]] in \<open>auto simp: eo_shape_def\<close>)
    then show "eo_shape o2" using shape by (simp add: eo_shape_def o2_def)
    show "placed o2"
      unfolding placed_def g
    proof (intro allI impI ballI)
      fix j c assume j: "j < length (eo_tree o1)" "c \<in> set (live (eo_tree o2 ! j))"
      have "set (live bucket) = insert b (set (live (eo_tree o1 ! nat n)))"
        using f by (metis set_mset_add_mset_insert set_mset_mset)
      then have "c \<in> set (live (eo_tree o1 ! j)) \<or> j = nat n \<and> c = b"
        using j i by (cases "j = nat n") (auto simp: tr)
      then show "int j \<in> set (path_of o1 (leaf c))"
        using core n(1) rng(2) j(1) by (auto simp: eo_core_def placed_def)
    qed
    show "\<forall>c\<in>set (live (eo_blocks o2)). leaf_ok o2 (leaf c)"
      unfolding set2 g using core b by (simp add: eo_core_def)
    have "\<forall>bs\<in>set (eo_tree o2). same_size (eo_value_size o1) bs"
      unfolding tr by (rule all_set_update)
        (use core f size b in \<open>auto simp: eo_core_def eo_blocks_def same_size_def\<close>)
    then show "\<forall>c\<in>set (eo_blocks o2). length (val c) = eo_value_size o2"
      using core unfolding g by (auto simp: eo_core_def eo_blocks_def same_size_def o2_def)
    show "keys_distinct (eo_blocks o2)" by (rule kd2)
  qed
qed

section \<open>The whole load\<close>

definition loaded_map :: "nat \<Rightarrow> (i32 \<rightharpoonup> i32) \<Rightarrow> (i32 \<times> bytes) list \<Rightarrow> i32 \<rightharpoonup> i32 \<times> bytes" where
  "loaded_map vs lm data = map_of (map (\<lambda>(k, v). (k, the (lm k), pad_bytes v vs)) data)"

lemma init_place_spec:
  assumes "eo_core o1" "distinct (map fst data)"
    and "\<forall>(k, v)\<in>set data. k \<noteq> INVALID_KEY \<and> eo_map o1 k = None \<and> length v \<le> eo_value_size o1
      \<and> (\<exists>lf. map_of lm k = Some lf \<and> leaf_ok o1 lf)"
  shows "\<exists>o2. init_place data lm o1 = Inr o2 \<and> eo_core o2 \<and> same_geometry o1 o2
    \<and> eo_map o2 = eo_map o1 ++ loaded_map (eo_value_size o1) (map_of lm) data"
  using assms
proof (induction data arbitrary: o1)
  case (Cons kv data)
  obtain k v where kv: "kv = (k, v)" by fastforce
  from Cons.prems(3) obtain lf where lf: "map_of lm k = Some lf" "leaf_ok o1 lf"
    and k: "k \<noteq> INVALID_KEY" "eo_map o1 k = None" and v: "length v \<le> eo_value_size o1"
    by (auto simp: kv)
  let ?v = "pad_bytes v (eo_value_size o1)"
  let ?b = "\<lparr>key = k, leaf = lf, val = ?v\<rparr>"
  have shape: "eo_shape o1" using Cons.prems(1) by (simp add: eo_core_def)
  have one: "\<exists>o2. init_place (kv # data) lm o1 = init_place data lm o2 \<and> eo_core o2 \<and> same_geometry o1 o2
      \<and> eo_map o2 = (eo_map o1)(k \<mapsto> (lf, ?v))"
    using shape lf(2)
  proof (cases rule: place_climb_path [where b = ?b])
    case none
    then show ?thesis
      using add_to_stash_spec [OF Cons.prems(1) lf(2) v k(2,1)] lf(1) kv
      by (intro exI [of _ "add_to_stash k lf v o1"]) (simp add: add_to_stash_def)
  next
    case (some n bucket)
    then show ?thesis
      using place_in_tree [OF Cons.prems(1), of ?b n bucket] lf k v kv
      by (intro exI [of _ "o1\<lparr>eo_tree := (eo_tree o1)[nat n := bucket]\<rparr>"]) simp
  qed
  then obtain o2 where o2: "init_place (kv # data) lm o1 = init_place data lm o2" "eo_core o2"
    "same_geometry o1 o2" "eo_map o2 = (eo_map o1)(k \<mapsto> (lf, ?v))"
    by blast
  note g = same_geometryD [OF o2(3)]
  have "\<forall>(k, v)\<in>set data. k \<noteq> INVALID_KEY \<and> eo_map o2 k = None \<and> length v \<le> eo_value_size o2
      \<and> (\<exists>lf. map_of lm k = Some lf \<and> leaf_ok o2 lf)"
  proof clarify
    fix k' v' assume m: "(k', v') \<in> set data"
    then have "k' \<in> fst ` set data" by force
    then have "k' \<noteq> k" using Cons.prems(2) kv by auto
    then show "k' \<noteq> INVALID_KEY \<and> eo_map o2 k' = None \<and> length v' \<le> eo_value_size o2
      \<and> (\<exists>lf. map_of lm k' = Some lf \<and> leaf_ok o2 lf)"
      using Cons.prems(3) m by (auto simp: o2(4) g)
  qed
  then obtain o3 where o3: "init_place data lm o2 = Inr o3" "eo_core o3" "same_geometry o2 o3"
    "eo_map o3 = eo_map o2 ++ loaded_map (eo_value_size o2) (map_of lm) data"
    using Cons.IH [OF o2(2)] Cons.prems(2) by auto
  have "k \<notin> dom (loaded_map (eo_value_size o1) (map_of lm) data)"
    using Cons.prems(2) kv by (auto simp: loaded_map_def dom_map_of_conv_image_fst image_iff)
  then have "eo_map o3 = eo_map o1 ++ loaded_map (eo_value_size o1) (map_of lm) (kv # data)"
    using lf(1) unfolding o3(4) o2(4) g
    by (auto simp: loaded_map_def kv map_add_def fun_eq_iff split: option.split)
  with o2(1,3) o3 same_geometry_trans show ?case by metis
qed (auto simp: loaded_map_def)

definition leaf_choice :: "int \<Rightarrow> (i32 \<rightharpoonup> i32) \<Rightarrow> i32 \<Rightarrow> i32 \<Rightarrow> bool" where
  "leaf_choice lr preset k lf \<longleftrightarrow>
     (case preset k of Some l \<Rightarrow> lf = l | None \<Rightarrow> 0 \<le> sint lf \<and> sint lf < lr)"

lemma assign_leaves_spec:
  assumes "0 < lr" "lr \<le> 2 ^ 31"
  shows "\<exists>lm r'. assign_leaves lr preset data acc r = (lm, r')
    \<and> (\<forall>k lf. map_of acc k = Some lf \<longrightarrow> map_of lm k = Some lf)
    \<and> (\<forall>k\<in>fst ` set data. \<exists>lf. map_of lm k = Some lf)
    \<and> (\<forall>k lf. map_of lm k = Some lf \<and> map_of acc k = None \<longrightarrow> leaf_choice lr preset k lf)"
proof (induction data arbitrary: acc r)
  case (Cons kv data)
  obtain k v where kv: "kv = (k, v)" by fastforce
  show ?case
  proof (cases "map_of acc k")
    case (Some lf)
    with Cons.IH [of acc r] show ?thesis by (auto simp: kv) 
  next
    case None
    obtain l r' where step: "assign_leaves lr preset (kv # data) acc r = assign_leaves lr preset data (acc @ [(k, l)]) r'"
      and ok: "leaf_choice lr preset k l"
    proof (cases "preset k")
      case (Some lf)
      with None that [of lf r] show ?thesis by (simp add: kv leaf_choice_def)
    next
      case no: None
      obtain x r' where x: "rand_below lr r = (x, r')" by fastforce
      then have "0 \<le> x" "x < lr" "x < 2 ^ 31"
        using rand_below_range [OF assms(1), of r] assms(2) by auto
      then have "sint (word_of_int x :: i32) = x"
        by (simp add: sint_sbintrunc' signed_take_bit_int_eq_self)
      with None no x \<open>0 \<le> x\<close> \<open>x < lr\<close> that [of "word_of_int x" r'] show ?thesis
        by (simp add: kv leaf_choice_def)
    qed
    let ?acc = "acc @ [(k, l)]"
    have acc: "map_of ?acc k' = (if k' = k then Some l else map_of acc k')" for k'
      using None by (auto simp: map_add_def split: option.split)
    obtain lm r'' where IH: "assign_leaves lr preset data ?acc r' = (lm, r'')"
      "\<forall>k lf. map_of ?acc k = Some lf \<longrightarrow> map_of lm k = Some lf"
      "\<forall>k\<in>fst ` set data. \<exists>lf. map_of lm k = Some lf"
      "\<forall>k lf. map_of lm k = Some lf \<and> map_of ?acc k = None \<longrightarrow> leaf_choice lr preset k lf"
      using Cons.IH [of ?acc r'] by blast
    have "leaf_choice lr preset k' lf" if "map_of lm k' = Some lf" "map_of acc k' = None" for k' lf
      using IH(2,4) ok that unfolding acc by (cases "k' = k") auto
    moreover have "map_of lm k' = Some lf" if "map_of acc k' = Some lf" for k' lf
      using IH(2) None that unfolding acc by (metis option.distinct(1))
    moreover have "\<exists>lf. map_of lm k = Some lf" using IH(2) unfolding acc by auto
    ultimately show ?thesis using step IH(1,3) kv by auto
  qed
qed auto

text \<open>A new ORAM, and the load into it.\<close>

lemma new_enclave_oram_spec:
  fixes vs bs sc :: nat
  assumes "num_data \<le> 2 ^ 30"
  defines "o1 \<equiv> new_enclave_oram num_data vs bs sc"
  shows "eo_core o1" "eo_map o1 = Map.empty" "eo_value_size o1 = vs" "eo_stash o1 = []"
    "eo_level o1 = max 1 (ceil_log2 num_data)" "eo_stash_max o1 = sc * eo_level o1"
proof -
  have lv: "max 1 (ceil_log2 num_data) \<le> 30"
    using assms(1) ceil_log2_least [of num_data 30] by (cases "1 \<le> num_data") (auto simp: ceil_log2_def)
  have pw: "(1::int) \<le> 2 ^ n" for n :: nat by simp
  have bl: "live (eo_blocks o1) = []"
    by (auto simp: o1_def new_enclave_oram_def Let_def eo_blocks_def live_empty_iff)
  show "eo_core o1"
    unfolding eo_core_def
  proof (intro conjI)
    show "eo_shape o1"
      using lv pw [of "max 1 (ceil_log2 num_data)"]
      by (auto simp: o1_def new_enclave_oram_def Let_def eo_shape_def)
    show "placed o1" by (auto simp: placed_def o1_def new_enclave_oram_def Let_def)
    show "\<forall>b\<in>set (eo_blocks o1). length (val b) = eo_value_size o1"
      by (auto simp: o1_def new_enclave_oram_def Let_def eo_blocks_def)
    show "\<forall>b\<in>set (live (eo_blocks o1)). leaf_ok o1 (leaf b)" unfolding bl by simp
    show "keys_distinct (eo_blocks o1)" unfolding keys_distinct_def bl by simp
  qed
  show "eo_map o1 = Map.empty" by (simp add: eo_map_def block_map_def bl)
qed (simp_all add: o1_def new_enclave_oram_def Let_def)

lemma oram_init_spec:
  assumes core: "eo_core o0" "eo_map (o0\<lparr>eo_stash := []\<rparr>) = Map.empty" and d: "distinct (map fst data)"
    and data: "\<forall>(k, v)\<in>set data. k \<noteq> INVALID_KEY \<and> length v \<le> eo_value_size o0
      \<and> (\<forall>lf. preset k = Some lf \<longrightarrow> leaf_ok o0 lf)"
  shows "\<exists>lm o1 r1. oram_init data preset o0 r = Inr (lm, o1, r1) \<and> eo_inv o1 \<and> same_geometry o0 o1
    \<and> eo_map o1 = loaded_map (eo_value_size o0) (map_of lm) data
    \<and> (\<forall>k\<in>fst ` set data. \<exists>lf. map_of lm k = Some lf \<and> leaf_ok o0 lf
         \<and> (\<forall>l. preset k = Some l \<longrightarrow> lf = l))"
proof -
  let ?o = "o0\<lparr>eo_stash := []\<rparr>"
  have c: "eo_core ?o" "same_geometry o0 ?o"
    by (rule eo_core_stash [OF core(1)];
        use core(1) in \<open>auto simp: eo_core_def eo_blocks_def keys_distinct_def\<close>)+
  note g = same_geometryD [OF c(2)]
  have s: "eo_shape o0" using core(1) by (simp add: eo_core_def)
  have lr: "0 < eo_leaf_range o0" "eo_leaf_range o0 \<le> 2 ^ 31"
  proof -
    have "(2::int) ^ (eo_level o0 - 1) \<le> 2 ^ 31"
      by (rule power_increasing) (use s in \<open>auto simp: eo_shape_def\<close>)
    with s show "0 < eo_leaf_range o0" "eo_leaf_range o0 \<le> 2 ^ 31" by (auto simp: eo_shape_def)
  qed
  obtain lm r1 where a: "assign_leaves (eo_leaf_range o0) preset data [] r = (lm, r1)"
    "\<forall>k\<in>fst ` set data. \<exists>lf. map_of lm k = Some lf"
    "\<forall>k lf. map_of lm k = Some lf \<longrightarrow> leaf_choice (eo_leaf_range o0) preset k lf"
    using assign_leaves_spec [OF lr, of preset data "[]" r] by auto
  have leaf: "leaf_ok o0 lf \<and> (\<forall>l. preset k = Some l \<longrightarrow> lf = l)"
    if "map_of lm k = Some lf" "k \<in> fst ` set data" for k lf
    using a(3) that data s
    by (fastforce simp: leaf_choice_def leaf_ok_def valid_leaf_def eo_shape_def split: option.splits)
  have "\<forall>(k, v)\<in>set data. k \<noteq> INVALID_KEY \<and> eo_map ?o k = None \<and> length v \<le> eo_value_size ?o
      \<and> (\<exists>lf. map_of lm k = Some lf \<and> leaf_ok ?o lf)"
  proof clarify
    fix k v assume m: "(k, v) \<in> set data"
    then have "k \<in> fst ` set data" by force
    with m a(2) leaf data core(2) show "k \<noteq> INVALID_KEY \<and> eo_map ?o k = None \<and> length v \<le> eo_value_size ?o
      \<and> (\<exists>lf. map_of lm k = Some lf \<and> leaf_ok ?o lf)"
      unfolding g by fastforce
  qed
  then obtain o2 where o2: "init_place data lm ?o = Inr o2" "eo_core o2" "same_geometry ?o o2"
    "eo_map o2 = loaded_map (eo_value_size o0) (map_of lm) data"
    using init_place_spec [OF c(1) d] core(2) by auto
  note p = pad_stash_spec [OF o2(2)]
  have "oram_init data preset o0 r = Inr (lm, pad_stash o2, r1)"
    using a(1) o2(1) by (simp add: oram_init_def)
  then show ?thesis
    using p o2 a(2) leaf same_geometry_trans [OF c(2) same_geometry_trans [OF o2(3) p(2)]] by metis
qed

end
