(* ===== verification/Enclave_Oram_Properties.thy ===== *)
theory Enclave_Oram_Properties
  imports Enclave_Oram_Load
begin

text \<open>
  The properties of the enclave ORAM, over the definitions of \<open>Enclave_Oram\<close> alone, with a small
  loaded ORAM of two blocks on which the witnesses run.
\<close>

definition demo_oram :: enclave_oram where
  "demo_oram =
     (case oram_init [(5, [1]), (6, [2])] [5 \<mapsto> 0, 6 \<mapsto> 1] (new_enclave_oram 4 1 2 2) [] of
        Inr (lm, o1, r) \<Rightarrow> o1 | Inl e \<Rightarrow> new_enclave_oram 4 1 2 2)"

lemma demo_facts:
  "eo_map demo_oram 5 = Some (0, [1])" "eo_map demo_oram 6 = Some (1, [2])"
  "eo_map demo_oram 7 = None" "eo_level demo_oram = 2" "eo_value_size demo_oram = 1" 
  "leaf_ok demo_oram 0" "leaf_ok demo_oram 1" "eo_stash_max demo_oram = 4"
  by code_simp+

lemma demo_inv: "eo_inv demo_oram"
  unfolding eo_inv_def eo_shape_def by code_simp

lemma card_dom_eo_map: "eo_inv o1 \<Longrightarrow> card (dom (eo_map o1)) = length (live (eo_blocks o1))"
  by (simp add: eo_map_def dom_block_map eo_inv_def keys_distinct_def
      distinct_card [of "map key (live (eo_blocks o1))", simplified] flip: set_map)

lemma demo_count: "card (dom (eo_map demo_oram)) = 2"
  unfolding card_dom_eo_map [OF demo_inv] by code_simp

lemma eo_map_leaf_ok: "eo_inv o1 \<Longrightarrow> eo_map o1 k = Some (l, v) \<Longrightarrow> leaf_ok o1 l \<and> k \<noteq> INVALID_KEY"
  by (auto simp: eo_inv_def eo_map_def block_map_Some_iff)

lemma access_result_real: "eo_map o1 k = Some (l, v) \<Longrightarrow> access_result k True o1 = v"
  by (simp add: access_result_def)

text \<open>
  Claim C8: an access with the leaf of a stored key returns the stored value, moves the key to
  the new leaf, writes the new value if there is one, keeps every other key and the invariant. The
  only failure is a stash overflow, and it needs more stored keys than the stash has slots.
\<close>

theorem enclave_access_correct:
  assumes "eo_inv o0" "eo_map o0 k = Some (old_leaf, v)" "leaf_ok o0 new_leaf"
    and "\<forall>w. nv = Some w \<longrightarrow> length w \<le> eo_value_size o0"
  shows "case access_oram k old_leaf new_leaf nv o0 r of
      Inl e \<Rightarrow> (\<exists>n. e = StashOverflow n (eo_stash_max o0)
        \<and> eo_stash_max o0 < n \<and> n \<le> card (dom (eo_map o0)))
    | Inr (res, o1, r') \<Rightarrow> res = v \<and> eo_inv o1 \<and> same_geometry o0 o1
        \<and> length (eo_stash o1) = eo_stash_max o0
        \<and> eo_map o1 = (eo_map o0)(k \<mapsto>
            (new_leaf, case nv of None \<Rightarrow> v | Some w \<Rightarrow> pad_bytes w (eo_value_size o0)))"
  unfolding access_oram_def
  by (rule access_or_dummy_cases [OF assms(1) refl, of True old_leaf new_leaf k nv r])
    (use eo_map_leaf_ok [OF assms(1,2)] assms access_result_real [OF assms(2)]
     in \<open>auto simp: accessed_map_def card_dom_eo_map\<close>)

theorem enclave_access_correct_witness:
  "case access_oram 5 0 1 (Some []) demo_oram [] of
      Inl e \<Rightarrow> False
    | Inr (res, o1, r') \<Rightarrow> res = [1] \<and> eo_inv o1 \<and> same_geometry demo_oram o1
        \<and> length (eo_stash o1) = 4 \<and> eo_map o1 = (eo_map demo_oram)(5 \<mapsto> (1, [0]))"
proof -
  have "pad_bytes [] (Suc 0) = [0]" by (simp add: pad_bytes_def resize_with_def)
  then show ?thesis
    using enclave_access_correct [OF demo_inv demo_facts(1) demo_facts(7), of "Some []" "[]"]
    by (auto simp: demo_facts demo_count split: sum.splits prod.splits)
qed

text \<open>
  Claim C22: a dummy access changes nothing that can be looked up and keeps the invariant.
\<close>

theorem enclave_dummy_access_keeps:
  assumes "eo_inv o0"
  shows "case oram_dummy_access o0 r of
      Inl e \<Rightarrow> (\<exists>n. e = StashOverflow n (eo_stash_max o0)
        \<and> eo_stash_max o0 < n \<and> n \<le> card (dom (eo_map o0)))
    | Inr (o1, r') \<Rightarrow> eo_inv o1 \<and> same_geometry o0 o1 \<and> eo_map o1 = eo_map o0"
proof -
  obtain rl r1 where rl: "random_leaf o0 r = (rl, r1)" by fastforce
  show ?thesis
    by (rule access_or_dummy_cases [OF assms refl, of False rl rl INVALID_KEY None r1])
      (auto simp: oram_dummy_access_def rl card_dom_eo_map [OF assms])
qed

theorem enclave_dummy_access_keeps_witness:
  "case oram_dummy_access demo_oram [1, 0] of
      Inl e \<Rightarrow> False
    | Inr (o1, r') \<Rightarrow> eo_inv o1 \<and> same_geometry demo_oram o1 \<and> eo_map o1 = eo_map demo_oram"
  using enclave_dummy_access_keeps [OF demo_inv, of "[1, 0]"]
  by (auto simp: demo_facts demo_count split: sum.splits)

text \<open>The leaf a request reads, and what a caller has to provide for it.\<close>

definition request_leaf :: "enclave_oram \<Rightarrow> bool \<Rightarrow> i32 \<Rightarrow> rng \<Rightarrow> i32" where
  "request_leaf o0 is_real old_leaf r = (if is_real then old_leaf else fst (random_leaf o0 r))"

definition request_ok :: "enclave_oram \<Rightarrow> i32 \<Rightarrow> i32 \<Rightarrow> i32 \<Rightarrow> bool \<Rightarrow> bytes option \<Rightarrow> bool" where
  "request_ok o0 k old_leaf new_leaf is_real nv \<longleftrightarrow>
     eo_inv o0
     \<and> (is_real \<longrightarrow> leaf_ok o0 new_leaf \<and> (\<exists>v. eo_map o0 k = Some (old_leaf, v)))
     \<and> (\<forall>w. nv = Some w \<longrightarrow> length w \<le> eo_value_size o0)"

lemma request_trace:
  assumes ok: "request_ok o0 k ol nl b nv"
    and run: "access_or_dummy k ol nl b nv o0 r = Inr (res, o1, r1)"
  shows "eo_last_stats o1 = path_stats o0 (request_leaf o0 b ol r)"
    "length (eo_stash o1) = eo_stash_max o0" "same_geometry o0 o1" "eo_inv o1"
    "touched_pages o1 = (\<Union>n\<in>set (path_of o0 (request_leaf o0 b ol r)). page_span (node_byte_size o0) n)"
    "\<forall>node\<in>set (path_of o0 (request_leaf o0 b ol r)). saturated o1 node"
    "eo_map o1 = (if b then accessed_map k nl nv (eo_value_size o0) (eo_map o0) else eo_map o0)"
proof -
  have pre: "b \<longrightarrow> leaf_ok o0 ol \<and> leaf_ok o0 nl \<and> k \<noteq> INVALID_KEY
      \<and> (\<forall>l v. eo_map o0 k = Some (l, v) \<longrightarrow> l = ol)"
    using ok eo_map_leaf_ok by (auto simp: request_ok_def)
  have *: "eo_inv o0" "\<forall>v. nv = Some v \<longrightarrow> length v \<le> eo_value_size o0"
    using ok by (auto simp: request_ok_def)
  have "eo_last_stats o1 = path_stats o0 (request_leaf o0 b ol r) \<and>
    length (eo_stash o1) = eo_stash_max o0 \<and> same_geometry o0 o1 \<and> eo_inv o1 \<and>
    touched_pages o1 = (\<Union>n\<in>set (path_of o0 (request_leaf o0 b ol r)). page_span (node_byte_size o0) n) \<and>
    (\<forall>node\<in>set (path_of o0 (request_leaf o0 b ol r)). saturated o1 node) \<and>
    eo_map o1 = (if b then accessed_map k nl nv (eo_value_size o0) (eo_map o0) else eo_map o0)"
    by (rule access_or_dummy_cases [OF *(1) refl pre *(2), of r])
      (use run in \<open>auto simp: request_leaf_def\<close>)
  then show "eo_last_stats o1 = path_stats o0 (request_leaf o0 b ol r)"
    "length (eo_stash o1) = eo_stash_max o0" "same_geometry o0 o1" "eo_inv o1"
    "touched_pages o1 = (\<Union>n\<in>set (path_of o0 (request_leaf o0 b ol r)). page_span (node_byte_size o0) n)"
    "\<forall>node\<in>set (path_of o0 (request_leaf o0 b ol r)). saturated o1 node"
    "eo_map o1 = (if b then accessed_map k nl nv (eo_value_size o0) (eo_map o0) else eo_map o0)"
    by blast+
qed

text \<open>A stash with a slot for every stored key never overflows.\<close>

lemma request_total:
  assumes ok: "request_ok o0 k ol nl b nv" and room: "card (dom (eo_map o0)) \<le> eo_stash_max o0"
  shows "access_or_dummy k ol nl b nv o0 r =
    Inr (access_result k b o0, fst (snd (projr (access_or_dummy k ol nl b nv o0 r))), snd (random_leaf o0 r))"
proof -
  have pre: "b \<longrightarrow> leaf_ok o0 ol \<and> leaf_ok o0 nl \<and> k \<noteq> INVALID_KEY
      \<and> (\<forall>l v. eo_map o0 k = Some (l, v) \<longrightarrow> l = ol)"
    using ok eo_map_leaf_ok by (auto simp: request_ok_def)
  have *: "eo_inv o0" "\<forall>v. nv = Some v \<longrightarrow> length v \<le> eo_value_size o0"
    using ok by (auto simp: request_ok_def)
  show ?thesis
    by (rule access_or_dummy_cases [OF *(1) refl pre *(2), of r])
      (use room card_dom_eo_map [OF *(1)] in auto)
qed

lemma path_stats_geometry: "same_geometry o1 o2 \<Longrightarrow> path_stats o2 lf = path_stats o1 lf"
  by (simp add: path_stats_def same_geometryD node_byte_size_geometry)

text \<open>
  Claim C9: obliviousness. Two requests that read the same leaf of ORAMs of the same shape touch
  the same pages, make the same number of node accesses and leave stashes of the same size,
  whatever their keys, contents and new values are, and whether they are real or dummies.
\<close>

theorem enclave_access_oblivious:
  assumes "same_geometry o1 o2"
    and "request_ok o1 k1 ol1 nl1 b1 nv1" "request_ok o2 k2 ol2 nl2 b2 nv2"
    and "request_leaf o1 b1 ol1 r1 = request_leaf o2 b2 ol2 r2"
    and "access_or_dummy k1 ol1 nl1 b1 nv1 o1 r1 = Inr (res1, o1', r1')"
    and "access_or_dummy k2 ol2 nl2 b2 nv2 o2 r2 = Inr (res2, o2', r2')"
  shows "eo_last_stats o1' = eo_last_stats o2' \<and> touched_pages o1' = touched_pages o2'
    \<and> length (eo_stash o1') = length (eo_stash o2')"
  using request_trace [OF assms(2,5)] request_trace [OF assms(3,6)] assms(1,4)
    path_stats_geometry [OF assms(1)] same_geometryD [OF assms(1)] node_byte_size_geometry [OF assms(1)]
  by simp_all

text \<open>
  Claim C20: the eviction is greedy. After a request, a live block is left in the stash only if
  every bucket that lies both on the evicted path and on the path of the block is full of live
  blocks.
\<close>

theorem enclave_eviction_greedy:
  assumes "request_ok o0 k ol nl b nv" "access_or_dummy k ol nl b nv o0 r = Inr (res, o1, r1)"
    and "sb \<in> set (eo_stash o1)" "key sb \<noteq> INVALID_KEY"
    and "node \<in> set (path_of o0 (request_leaf o0 b ol r))" "node \<in> set (path_of o1 (leaf sb))"
  shows "\<forall>slot\<in>set (eo_tree o1 ! nat node). key slot \<noteq> INVALID_KEY"
proof -
  have "saturated o1 node" using request_trace(6) [OF assms(1,2)] assms(5) by blast
  with assms(3,4,6) have "live (eo_tree o1 ! nat node) = eo_tree o1 ! nat node"
    by (auto simp: saturated_def)
  then show ?thesis by (auto simp: live_def filter_id_conv)
qed

lemma demo_requests:
  "request_ok demo_oram 5 0 1 True (Some [9])" "request_ok demo_oram INVALID_KEY 1 1 False None"
  using demo_inv by (simp_all add: request_ok_def demo_facts)

theorem enclave_access_oblivious_witness:
  "eo_last_stats (fst (snd (projr (access_or_dummy 5 0 1 True (Some [9]) demo_oram [])))) =
   eo_last_stats (fst (snd (projr (access_or_dummy INVALID_KEY 1 1 False None demo_oram [0]))))"
proof (rule conjunct1 [OF enclave_access_oblivious [OF same_geometry_refl demo_requests]])
  show "request_leaf demo_oram True 0 [] = request_leaf demo_oram False 1 [0]" by code_simp
  show "access_or_dummy 5 0 1 True (Some [9]) demo_oram [] = Inr (access_result 5 True demo_oram,
      fst (snd (projr (access_or_dummy 5 0 1 True (Some [9]) demo_oram []))), snd (random_leaf demo_oram []))"
    by (rule request_total [OF demo_requests(1)]) (simp add: demo_count demo_facts)
  show "access_or_dummy INVALID_KEY 1 1 False None demo_oram [0] = Inr (access_result INVALID_KEY False demo_oram,
      fst (snd (projr (access_or_dummy INVALID_KEY 1 1 False None demo_oram [0]))), snd (random_leaf demo_oram [0]))"
    by (rule request_total [OF demo_requests(2)]) (simp add: demo_count demo_facts)
qed

text \<open>An ORAM with one slot in its single bucket leaves a block in the stash.\<close>

definition tiny_oram :: enclave_oram where
  "tiny_oram =
     (case oram_init [(5, [1]), (6, [2])] Map.empty (new_enclave_oram 2 1 1 3) [0, 0] of
        Inr (lm, o1, r) \<Rightarrow> o1 | Inl e \<Rightarrow> new_enclave_oram 4 1 2 2)"

definition tiny_read :: enclave_oram where
  "tiny_read = fst (snd (projr (access_or_dummy 5 0 0 True None tiny_oram [])))"

lemma tiny_facts:
  "eo_map tiny_oram 5 = Some (0, [1])" "eo_map tiny_oram 6 = Some (0, [2])" "leaf_ok tiny_oram 0"
  "path_of tiny_oram 0 = [0]" "eo_stash_max tiny_oram = 3" "eo_bucket_size tiny_oram = 1"
  "length (eo_tree tiny_oram) = 1"
  by code_simp+

lemma tiny_inv: "eo_inv tiny_oram"
  unfolding eo_inv_def eo_shape_def by code_simp

lemma tiny_request: "request_ok tiny_oram 5 0 0 True None"
  by (simp add: request_ok_def tiny_inv tiny_facts)

lemma tiny_run:
  "access_or_dummy 5 0 0 True None tiny_oram [] =
   Inr (access_result 5 True tiny_oram, tiny_read, snd (random_leaf tiny_oram []))"
proof -
  have "card (dom (eo_map tiny_oram)) = 2" unfolding card_dom_eo_map [OF tiny_inv] by code_simp
  then show ?thesis
    unfolding tiny_read_def by (intro request_total [OF tiny_request]) (simp add: tiny_facts)
qed

theorem enclave_eviction_greedy_witness: "INVALID_KEY \<notin> key ` set (eo_tree tiny_read ! nat 0)"
proof -
  note t = request_trace [OF tiny_request tiny_run]
  have m: "eo_map tiny_read 5 = Some (0, [1])" "eo_map tiny_read 6 = Some (0, [2])"
    unfolding t(7) accessed_map_def by (simp_all add: tiny_facts)
  then obtain b5 b6 where b: "b5 \<in> set (eo_blocks tiny_read)" "key b5 = 5" "leaf b5 = 0"
    "b6 \<in> set (eo_blocks tiny_read)" "key b6 = 6" "leaf b6 = 0"
    using t(4) by (auto simp: eo_map_def eo_inv_def block_map_Some_iff)
  have "length (eo_tree tiny_read) = 1" "eo_bucket_size tiny_read = 1" "eo_shape tiny_read"
    using t(3,4) tiny_facts by (auto simp: same_geometry_def eo_inv_def)
  then obtain slot where "eo_tree tiny_read = [[slot]]"
    by (auto simp: length_Suc_conv eo_shape_def)
  with b obtain sb where sb: "sb \<in> set (eo_stash tiny_read)" "key sb = 5 \<or> key sb = 6" "leaf sb = 0"
    by (auto simp: eo_blocks_def)
  have p: "path_of tiny_oram (request_leaf tiny_oram True 0 []) = [0]"
    by (simp add: request_leaf_def tiny_facts)
  have "path_of tiny_read 0 = [0]"
    using t(3) tiny_facts by (simp add: same_geometryD)
  with sb p have "\<forall>slot\<in>set (eo_tree tiny_read ! nat 0). key slot \<noteq> INVALID_KEY"
    by (intro enclave_eviction_greedy [OF tiny_request tiny_run sb(1)]) (auto simp: INVALID_KEY_def)
  then show ?thesis by auto
qed

text \<open>
  Claim C21: the initial load of distinct valid keys into a new ORAM never fails, establishes the
  invariant, gives every key a leaf (its preset leaf if it has one) and stores exactly the padded
  data.
\<close>

theorem enclave_init_correct:
  assumes "num_data \<le> 2 ^ 30" "distinct (map fst data)"
    and "\<forall>(k, v)\<in>set data. k \<noteq> INVALID_KEY \<and> length v \<le> vs
      \<and> (\<forall>lf. preset k = Some lf \<longrightarrow> leaf_ok (new_enclave_oram num_data vs bs sc) lf)"
  shows "\<exists>lm o1 r1. oram_init data preset (new_enclave_oram num_data vs bs sc) r = Inr (lm, o1, r1)
    \<and> eo_inv o1
    \<and> eo_map o1 = map_of (map (\<lambda>(k, v). (k, the (map_of lm k), pad_bytes v vs)) data)
    \<and> (\<forall>k\<in>fst ` set data. \<exists>lf. map_of lm k = Some lf \<and> leaf_ok o1 lf
         \<and> (\<forall>l. preset k = Some l \<longrightarrow> lf = l))"
proof -
  note n = new_enclave_oram_spec [OF assms(1), of vs bs sc]
  have "(new_enclave_oram num_data vs bs sc)\<lparr>eo_stash := []\<rparr> = new_enclave_oram num_data vs bs sc"
    by (simp add: new_enclave_oram_def Let_def)
  then show ?thesis
    using oram_init_spec [OF n(1) _ assms(2), of preset r] n(2,3) assms(3)
    by (auto simp: loaded_map_def same_geometryD)
qed

theorem enclave_init_correct_witness:
  "\<exists>lm o1 r1. oram_init [(5, [1]), (6, [])] [5 \<mapsto> 0] (new_enclave_oram 4 1 2 2) [1] = Inr (lm, o1, r1)
    \<and> eo_inv o1 \<and> eo_map o1 = [5 \<mapsto> (the (map_of lm 5), [1]), 6 \<mapsto> (the (map_of lm 6), [0])]"
proof -
  have "leaf_ok (new_enclave_oram 4 1 2 2) 0" by code_simp
  moreover have "pad_bytes [1] (Suc 0) = [1]" "pad_bytes [] (Suc 0) = [0]"
    by (simp_all add: pad_bytes_def resize_with_def)
  ultimately show ?thesis
    using enclave_init_correct [of 4 "[(5, [1]), (6, [])]" 1 "[5 \<mapsto> 0]" 2 2 "[1]"]
    by (fastforce simp: fun_upd_twist INVALID_KEY_def)
qed

text \<open>
  Claim C25: the bubble passes of the oblivious compaction compute the stable partition of the
  stash into live blocks and dummies, and the counting loop the number of live blocks.
\<close>

theorem stash_compaction_stable:
  assumes "\<forall>b\<in>set bs. length (val b) = n"
  shows "compact bs = filter (\<lambda>b. key b \<noteq> INVALID_KEY) bs @ filter (\<lambda>b. key b = INVALID_KEY) bs
    \<and> valid_count (compact bs) = length (filter (\<lambda>b. key b \<noteq> INVALID_KEY) bs)"
proof
  let ?c = "filter (\<lambda>b. key b \<noteq> INVALID_KEY) bs @ filter (\<lambda>b. key b = INVALID_KEY) bs"
  have s: "same_size n bs" using assms by (simp add: same_size_def)
  show c: "compact bs = filter (\<lambda>b. key b \<noteq> INVALID_KEY) bs @ filter (\<lambda>b. key b = INVALID_KEY) bs"
    using compact_eq [OF s] by (simp add: live_def dead_def)
  show "valid_count (compact bs) = length (filter (\<lambda>b. key b \<noteq> INVALID_KEY) bs)"
    unfolding c by (simp add: valid_count_eq live_def)
qed

theorem stash_compaction_stable_witness:
  "compact [empty_slot 1, \<lparr>key = 3, leaf = 0, val = [7]\<rparr>] =
     [\<lparr>key = 3, leaf = 0, val = [7]\<rparr>, empty_slot 1]"
  using stash_compaction_stable [of "[empty_slot 1, \<lparr>key = 3, leaf = 0, val = [7]\<rparr>]" 1]
  by (simp add: INVALID_KEY_def)

text \<open>
  Claim C26: the branch-free ancestor test of the eviction, which climbs a fixed number of levels and
  ors the comparisons, decides whether a node lies on the path of a leaf.
\<close>

theorem path_contains_correct:
  assumes "eo_shape o1" "leaf_ok o1 lf" "0 \<le> node" "node < 2 ^ 31"
  shows "path_contains_oblivious o1 lf node \<longleftrightarrow> node \<in> set (path_of o1 lf)"
  by (rule path_contains_iff [OF assms])

theorem path_contains_correct_witness:
  "path_contains_oblivious demo_oram 1 2 \<and> \<not> path_contains_oblivious demo_oram 1 1"
proof -
  have "eo_shape demo_oram" using demo_inv by (simp add: eo_inv_def)
  moreover have "path_of demo_oram 1 = [2, 0]" by code_simp
  ultimately show ?thesis
    using path_contains_correct [of demo_oram 1 2] path_contains_correct [of demo_oram 1 1] demo_facts
    by simp
qed

end
