(* ===== verification/Enclave_Store.thy ===== *)
theory Enclave_Store
  imports Enclave_Oram_Load Interfaces
begin

text \<open>
  The enclave ORAM as a store of blocks: reading a path, extracting a key and evicting the path again
  is \<open>fetch_block\<close>, and \<open>add_to_stash\<close> puts a block back.
\<close>

definition fetch_block :: "i32 \<Rightarrow> i32 \<Rightarrow> enclave_oram \<Rightarrow> (block \<times> enclave_oram) result" where
  "fetch_block lf k o1 =
     bind_result (read_path_to_stash lf o1) (\<lambda>o2.
       let (b, o3) = extract_from_stash k o2
       in bind_result (evict_one_path lf o3) (\<lambda>o4. Inr (b, o4)))"

definition eo_geometry :: "enclave_oram \<Rightarrow> nat \<times> nat \<times> nat \<times> int \<times> int \<times> nat \<times> nat" where
  "eo_geometry o1 = (eo_value_size o1, eo_bucket_size o1, eo_level o1, eo_leaf_range o1,
     eo_num_nodes o1, eo_stash_max o1, length (eo_tree o1))"

lemma eo_geometry_iff: "eo_geometry o2 = eo_geometry o1 \<longleftrightarrow> same_geometry o1 o2"
  by (auto simp: eo_geometry_def same_geometry_def)

lemma fetch_steps:
  assumes inv: "eo_inv o1" and lf: "leaf_ok o1 lf" and k: "k \<noteq> INVALID_KEY"
    and here: "\<forall>l v. eo_map o1 k = Some (l, v) \<longrightarrow> l = lf"
  obtains o2 b o3 where "read_path_to_stash lf o1 = Inr o2" "extract_from_stash k o2 = (b, o3)"
    "case eo_map o1 k of None \<Rightarrow> b = empty_slot (eo_value_size o1)
       | Some (l, v) \<Rightarrow> b = \<lparr>key = k, leaf = l, val = v\<rparr>"
    "safe_run (evict_one_path lf o3) (\<lambda>o4. eo_inv o4 \<and> same_geometry o1 o4
       \<and> eo_map o4 = (eo_map o1)(k := None))"
proof -
  obtain o2 where o2: "read_path lf o1 = Inr (path_of o1 lf, o2)" "eo_inv o2" "same_geometry o1 o2"
    "path_empty o2 (path_of o1 lf)" "mset (live (eo_blocks o2)) = mset (live (eo_blocks o1))"
    using read_path_spec [OF inv lf] by metis
  note g2 = same_geometryD [OF o2(3)]
  have m2: "eo_map o2 = eo_map o1"
    unfolding eo_map_def by (rule block_map_mset [OF o2(5)]) (use o2(2) in \<open>simp add: eo_inv_def\<close>)
  have out: "k \<notin> key ` set (concat (eo_tree o2))"
    by (rule read_out_of_tree [OF o2(2)]) (use o2(4) here k in \<open>auto simp: g2 m2\<close>)
  obtain b o3 where e: "extract_from_stash k o2 = (b, o3)" by fastforce
  have core2: "eo_core o2" using o2(2) by (simp add: eo_inv_core)
  have o3: "eo_core o3" "same_geometry o2 o3" "eo_map o3 = (eo_map o1)(k := None)"
    "length (eo_stash o3) = length (eo_stash o2)"
    "case eo_map o1 k of None \<Rightarrow> b = empty_slot (eo_value_size o1)
       | Some (l, v) \<Rightarrow> b = \<lparr>key = k, leaf = l, val = v\<rparr>"
    using extract_from_stash_spec [OF core2 k out] unfolding m2 g2 e by simp_all
  have geo: "same_geometry o1 o3" using same_geometry_trans o2(3) o3(2) by blast
  note g3 = same_geometryD [OF geo]
  have inv3: "eo_inv o3"
    using o3 o2(2) same_geometryD [OF o3(2)] by (simp add: eo_inv_core)
  have "eo_tree o3 = eo_tree o2"
    using e by (auto simp: extract_from_stash_def split: prod.splits)
  then have empty: "path_empty o3 (path_of o3 lf)"
    using o2(4) by (simp add: path_empty_def g3)
  have "walk_up (eo_level o3) (leaf_to_node o3 lf) = path_of o3 lf"
    by (rule path_of_eq) (use inv3 in \<open>simp add: eo_inv_def\<close>)
  then have run: "evict_one_path lf o3 = evict_path (path_of o3 lf) o3"
    by (simp add: evict_one_path_def)
  have lf3: "leaf_ok o3 lf" using lf by (simp add: g3)
  from inv3 lf3 empty have "safe_run (evict_one_path lf o3) (\<lambda>o4. eo_inv o4 \<and> same_geometry o1 o4
       \<and> eo_map o4 = (eo_map o1)(k := None))"
  proof (cases rule: evict_path_spec)
    case (kept o4)
    have "eo_map o4 = eo_map o3"
      unfolding eo_map_def by (rule block_map_mset [OF kept(4)]) (use kept(2) in \<open>simp add: eo_inv_def\<close>)
    with kept show ?thesis
      using o3(3) same_geometry_trans [OF geo kept(3)] by (simp add: run)
  qed (simp add: run)
  with e o3(5) o2(1) that show thesis by (simp add: read_path_to_stash_def)
qed

lemma fetch_block_spec:
  assumes "eo_inv o1" "leaf_ok o1 lf" "k \<noteq> INVALID_KEY" "\<forall>l v. eo_map o1 k = Some (l, v) \<longrightarrow> l = lf"
  shows "safe_run (fetch_block lf k o1) (\<lambda>(b, o2). eo_inv o2 \<and> same_geometry o1 o2
    \<and> eo_map o2 = (eo_map o1)(k := None)
    \<and> (case eo_map o1 k of None \<Rightarrow> b = empty_slot (eo_value_size o1)
       | Some (l, v) \<Rightarrow> b = \<lparr>key = k, leaf = l, val = v\<rparr>))"
proof -
  obtain o2 b o3 where *: "read_path_to_stash lf o1 = Inr o2" "extract_from_stash k o2 = (b, o3)"
    "case eo_map o1 k of None \<Rightarrow> b = empty_slot (eo_value_size o1)
       | Some (l, v) \<Rightarrow> b = \<lparr>key = k, leaf = l, val = v\<rparr>"
    "safe_run (evict_one_path lf o3) (\<lambda>o4. eo_inv o4 \<and> same_geometry o1 o4
       \<and> eo_map o4 = (eo_map o1)(k := None))"
    using fetch_steps [OF assms] by blast
  then show ?thesis
    by (auto simp: fetch_block_def intro!: safe_run_bind [OF *(4)])
qed

lemma add_dummy_spec:
  assumes "eo_inv o1" "length v \<le> eo_value_size o1"
  shows "eo_inv (add_to_stash INVALID_KEY lf v o1) \<and> same_geometry o1 (add_to_stash INVALID_KEY lf v o1)
    \<and> eo_map (add_to_stash INVALID_KEY lf v o1) = eo_map o1"
proof -
  let ?st = "eo_stash o1 @ [\<lparr>key = INVALID_KEY, leaf = lf, val = pad_bytes v (eo_value_size o1)\<rparr>]"
  have a: "add_to_stash INVALID_KEY lf v o1 = o1\<lparr>eo_stash := ?st\<rparr>" by (simp add: add_to_stash_def)
  have core: "eo_core o1" using assms(1) by (simp add: eo_inv_core)
  have "eo_core (o1\<lparr>eo_stash := ?st\<rparr>)" "same_geometry o1 (o1\<lparr>eo_stash := ?st\<rparr>)"
    by (rule eo_core_stash [OF core];
        use core assms(2) in \<open>auto simp: eo_core_def eo_blocks_def keys_distinct_def\<close>)+
  then show ?thesis
    using assms(1) unfolding a
    by (auto simp: eo_inv_core eo_map_def eo_blocks_def block_map_def)
qed

lemma add_new_spec:
  assumes "eo_inv o1" "k \<noteq> INVALID_KEY" "eo_map o1 k = None" "leaf_ok o1 lf" "length v \<le> eo_value_size o1"
  shows "eo_inv (add_to_stash k lf v o1) \<and> same_geometry o1 (add_to_stash k lf v o1)
    \<and> eo_map (add_to_stash k lf v o1) = (eo_map o1)(k \<mapsto> (lf, pad_bytes v (eo_value_size o1)))"
proof -
  have "length (eo_stash o1) \<le> length (eo_stash (add_to_stash k lf v o1))"
    "eo_stash_max (add_to_stash k lf v o1) = eo_stash_max o1"
    by (simp_all add: add_to_stash_def)
  then show ?thesis
    using add_to_stash_spec [of o1 lf v k] assms by (simp add: eo_inv_core)
qed

lemma eo_map_Some: "eo_inv o1 \<Longrightarrow> eo_map o1 k = Some (l, v) \<Longrightarrow>
    leaf_ok o1 l \<and> k \<noteq> INVALID_KEY \<and> length v = eo_value_size o1"
  by (auto simp: eo_inv_def eo_map_def block_map_Some_iff)

interpretation enclave: oblivious_store eo_inv eo_map leaf_ok
  "\<lambda>o1 v. length v \<le> eo_value_size o1" "\<lambda>o1 v. pad_bytes v (eo_value_size o1)" eo_geometry
  fetch_block add_to_stash
proof unfold_locales
  fix s s' :: enclave_oram and k lf :: i32 and v :: bytes
  show "safe_run (fetch_block lf k s) (\<lambda>(b, s'). eo_inv s' \<and> eo_geometry s' = eo_geometry s
      \<and> eo_map s' = (eo_map s)(k := None) \<and> b = \<lparr>key = k, leaf = lf, val = v\<rparr>)"
    if "eo_inv s" "eo_map s k = Some (lf, v)"
    by (rule safe_run_mono [OF fetch_block_spec])
      (use eo_map_Some [OF that] that in \<open>auto simp: eo_geometry_iff\<close>)
  show "safe_run (fetch_block lf k s) (\<lambda>(b, s'). eo_inv s' \<and> eo_geometry s' = eo_geometry s
      \<and> eo_map s' = eo_map s \<and> length (val b) \<le> eo_value_size s)"
    if "eo_inv s" "eo_map s k = None" "k \<noteq> INVALID_KEY" "leaf_ok s lf"
  proof -
    have "(eo_map s)(k := None) = eo_map s" using that(2) by auto
    then show ?thesis
      by (intro safe_run_mono [OF fetch_block_spec])
        (use that in \<open>auto simp: eo_geometry_iff\<close>)
  qed
  show "leaf_ok s lf \<and> k \<noteq> INVALID_KEY" if "eo_inv s" "eo_map s k = Some (lf, v)"
    using eo_map_Some [OF that] by blast
  show "leaf_ok s = leaf_ok s' \<and> (\<lambda>v. length v \<le> eo_value_size s) = (\<lambda>v. length v \<le> eo_value_size s')
      \<and> (\<lambda>v. pad_bytes v (eo_value_size s)) = (\<lambda>v. pad_bytes v (eo_value_size s'))"
    if "eo_geometry s = eo_geometry s'"
    using that same_geometryD [of s' s] by (simp add: eo_geometry_iff)
qed (simp_all add: eo_geometry_iff add_new_spec add_dummy_spec)

end
