(* ===== verification/Sockets.thy ===== *)
theory Sockets
  imports Common
begin

text \<open>
  A stream socket as the code sees it, and the loops that send and receive a whole buffer. What the
  network does is an argument: the chunks in which bytes arrive and how many bytes each call of
  \<open>send\<close> accepts. The lemmas show that neither matters: the loops transfer the bytes of the stream.
\<close>

text \<open>
  \<open>arriving\<close> lists the chunks that calls of \<open>recv\<close> find: \<open>None\<close> is a failing call, an empty chunk or the
  end of the list a closed connection. \<open>accepted\<close> lists how much the calls of \<open>send\<close> take; 0, or the
  end of the list, is a failing call.
\<close>

record socket =
  arriving :: "bytes option list"
  accepted :: "nat list"
  sent :: bytes

fun sys_recv :: "nat \<Rightarrow> socket \<Rightarrow> bytes option \<times> socket" where
  "sys_recv n s =
     (case arriving s of
        [] \<Rightarrow> (Some [], s)
      | None # cs \<Rightarrow> (None, s\<lparr>arriving := cs\<rparr>)
      | Some b # cs \<Rightarrow>
          if length b \<le> n then (Some b, s\<lparr>arriving := cs\<rparr>)
          else (Some (take n b), s\<lparr>arriving := Some (drop n b) # cs\<rparr>))"

fun sys_send :: "bytes \<Rightarrow> socket \<Rightarrow> nat \<times> socket" where
  "sys_send data s =
     (case accepted s of
        [] \<Rightarrow> (0, s)
      | n # ns \<Rightarrow> (min n (length data), s\<lparr>accepted := ns, sent := sent s @ take n data\<rparr>))"

section \<open>The loops\<close>

datatype received = Received bytes | Closed | Failed

function recv_loop :: "nat \<Rightarrow> socket \<Rightarrow> received \<times> socket" where
  "recv_loop n s =
     (if n = 0 then (Received [], s)
      else case sys_recv n s of
             (None, s1) \<Rightarrow> (Failed, s1)
           | (Some b, s1) \<Rightarrow>
               if b = [] then (Closed, s1)
               else case recv_loop (n - length b) s1 of
                      (Received b', s2) \<Rightarrow> (Received (b @ b'), s2)
                    | (other, s2) \<Rightarrow> (other, s2))"
  by pat_completeness auto
termination
  by (relation "measure fst") (auto simp: Suc_le_eq)

function send_loop :: "bytes \<Rightarrow> socket \<Rightarrow> bool \<times> socket" where
  "send_loop data s =
     (if data = [] then (True, s)
      else case sys_send data s of (n, s1) \<Rightarrow>
             if n = 0 then (False, s1) else send_loop (drop n data) s1)"
  by pat_completeness auto
termination
  by (relation "measure (length \<circ> fst)") auto

declare recv_loop.simps [simp del] send_loop.simps [simp del]

section \<open>Chunks do not matter\<close>

definition stream :: "socket \<Rightarrow> bytes" where
  "stream s = concat (map (\<lambda>c. case c of None \<Rightarrow> [] | Some b \<Rightarrow> b) (arriving s))"

definition healthy :: "socket \<Rightarrow> bool" where
  "healthy s \<longleftrightarrow> None \<notin> set (arriving s) \<and> Some [] \<notin> set (arriving s)"

definition willing :: "nat \<Rightarrow> socket \<Rightarrow> bool" where
  "willing n s \<longleftrightarrow> 0 \<notin> set (accepted s) \<and> n \<le> length (accepted s)"

text \<open>\<open>consumed s n s'\<close>: \<open>n\<close> bytes were taken off the stream, and nothing else happened.\<close>

definition consumed :: "socket \<Rightarrow> nat \<Rightarrow> socket \<Rightarrow> bool" where
  "consumed s n s' \<longleftrightarrow>
     healthy s' \<and> stream s' = drop n (stream s) \<and> accepted s' = accepted s \<and> sent s' = sent s"

lemma sys_recv_chunk:
  assumes "healthy s" "0 < n" "stream s \<noteq> []"
  obtains b s1 where "sys_recv n s = (Some b, s1)" "b \<noteq> []" "length b \<le> n" "consumed s (length b) s1"
    "b = take (length b) (stream s)" "length b \<le> length (stream s)"
proof (cases "arriving s")
  case Nil
  then show ?thesis using assms(3) by (simp add: stream_def)
next
  case (Cons c cs)
  then obtain b where c: "c = Some b" "b \<noteq> []" using assms(1) by (cases c) (auto simp: healthy_def)
  show ?thesis
  proof (cases "length b \<le> n")
    case True
    then show ?thesis
      using assms(1) c Cons by (intro that [of b "s\<lparr>arriving := cs\<rparr>"]) (auto simp: consumed_def healthy_def stream_def)
  next
    case False
    then show ?thesis
      using assms(1,2) c Cons
      by (intro that [of "take n b" "s\<lparr>arriving := Some (drop n b) # cs\<rparr>"])
        (auto simp: consumed_def healthy_def stream_def)
  qed
qed

lemma consumed_trans: "consumed s a t \<Longrightarrow> consumed t b u \<Longrightarrow> consumed s (a + b) u"
  by (simp add: consumed_def add.commute)

lemma recv_loop_stream:
  assumes "healthy s" "n \<le> length (stream s)"
  shows "\<exists>s'. recv_loop n s = (Received (take n (stream s)), s') \<and> consumed s n s'"
  using assms
proof (induction n s rule: recv_loop.induct)
  case (1 n s)
  show ?case
  proof (cases "n = 0")
    case True
    then show ?thesis using 1 by (simp add: recv_loop.simps [of 0] consumed_def)
  next
    case False
    then have "stream s \<noteq> []" using "1.prems"(2) by auto
    then obtain b s1 where b: "sys_recv n s = (Some b, s1)" "b \<noteq> []" "length b \<le> n" "consumed s (length b) s1"
      "b = take (length b) (stream s)" "length b \<le> length (stream s)"
      using sys_recv_chunk [OF "1.prems"(1)] False by blast
    have st: "healthy s1" "stream s1 = drop (length b) (stream s)" using b(4) by (simp_all add: consumed_def)
    then obtain s2 where s2: "recv_loop (n - length b) s1 = (Received (take (n - length b) (stream s1)), s2)"
      "consumed s1 (n - length b) s2"
      using "1.IH" [OF False b(1) [symmetric] refl b(2)] "1.prems"(2) b(3)
      by (auto simp: diff_le_mono)
    have "b @ take (n - length b) (drop (length b) (stream s)) = take n (stream s)"
      using b(3,5) take_add [of "length b" "n - length b" "stream s"] by simp
    moreover have "consumed s n s2" using consumed_trans [OF b(4) s2(2)] b(3) by simp
    ultimately show ?thesis
      using False b(1,2) s2(1) by (subst recv_loop.simps) (simp add: st)
  qed
qed

text \<open>Whatever the chunks are, a receive takes what it returns off the stream.\<close>

lemma sys_recv_shrinks:
  "sys_recv n s = (Some b, s') \<Longrightarrow> length (stream s') + length b = length (stream s)"
  by (auto simp: stream_def split: list.splits option.splits if_splits)

lemma recv_loop_shrinks:
  "recv_loop n s = (Received b, s') \<Longrightarrow> length b = n \<and> length (stream s') + n = length (stream s)"
proof (induction n s arbitrary: b s' rule: recv_loop.induct)
  case (1 n s)
  show ?case
  proof (cases "n = 0")
    case False
    then obtain b1 s1 b2 where r: "sys_recv n s = (Some b1, s1)" "b1 \<noteq> []"
      "recv_loop (n - length b1) s1 = (Received b2, s')" "b = b1 @ b2"
      using "1.prems" by (subst (asm) recv_loop.simps) (auto split: prod.splits option.splits if_splits received.splits)
    have "length b1 \<le> n"
      using r(1) by (auto split: list.splits option.splits if_splits)
    then show ?thesis
      using "1.IH" [OF False r(1) [symmetric] refl r(2) r(3)] sys_recv_shrinks [OF r(1)] r(4)
      by (simp only: length_append) linarith
  qed (use "1.prems" in \<open>simp add: recv_loop.simps [of 0]\<close>)
qed

lemma send_loop_stream:
  assumes "willing n s" "length data \<le> n"
  shows "\<exists>s'. send_loop data s = (True, s') \<and> willing (n - length data) s'
    \<and> sent s' = sent s @ data \<and> arriving s' = arriving s"
  using assms
proof (induction data s arbitrary: n rule: send_loop.induct)
  case (1 data s)
  show ?case
  proof (cases "data = []")
    case True
    then show ?thesis using 1 by (simp add: send_loop.simps [of "[]"])
  next
    case False
    then obtain m ns where acc: "accepted s = m # ns" "0 < m" "0 \<notin> set ns" "n \<le> Suc (length ns)" "0 < length data"
      using "1.prems" by (cases "accepted s") (auto simp: willing_def)
    let ?k = "min m (length data)" and ?s = "s\<lparr>accepted := ns, sent := sent s @ take m data\<rparr>"
    have sys: "sys_send data s = (?k, ?s)" using acc(1) by simp
    have k: "?k \<noteq> 0" using acc by simp
    have will: "willing (n - 1) ?s" "length (drop ?k data) \<le> n - 1"
      using acc "1.prems"(2) by (auto simp: willing_def)
    obtain s' where s': "send_loop (drop ?k data) ?s = (True, s')" "willing (n - 1 - length (drop ?k data)) s'"
      "sent s' = sent ?s @ drop ?k data" "arriving s' = arriving ?s"
      using "1.IH" [OF False sys [symmetric] k will] by blast
    have "take m data @ drop ?k data = data" by (auto simp: min_def)
    moreover have "n - length data \<le> n - 1 - length (drop ?k data)"
    proof -
      have gen: "n - l \<le> n - 1 - (l - j)" if "1 \<le> j" "j \<le> l" for j l :: nat using that by linarith
      show ?thesis unfolding length_drop by (rule gen) (use k in \<open>auto simp: Suc_le_eq\<close>)
    qed
    ultimately show ?thesis
      using s' False k by (subst send_loop.simps) (auto simp: acc(1) willing_def)
  qed
qed

lemma send_loop_arriving: "send_loop data s = (b, s') \<Longrightarrow> arriving s' = arriving s"
proof (induction data s arbitrary: b s' rule: send_loop.induct)
  case (1 data s)
  show ?case
  proof (cases "data = []")
    case False
    obtain n s1 where n: "sys_send data s = (n, s1)" by (cases "sys_send data s")
    then have "arriving s1 = arriving s" by (auto split: list.splits)
    then show ?thesis
      using "1.prems" "1.IH" [OF False n [symmetric], of b s'] False n
      by (subst (asm) send_loop.simps) (simp split: if_splits)
  qed (use "1.prems" in \<open>simp add: send_loop.simps [of "[]"]\<close>)
qed

end
