(* ===== verification/Tee_Avl.thy ===== *)
theory Tee_Avl
  imports Avl_Node Enclave_Oram
begin

text \<open>
  \<open>src/tee/tee_avl_omap.cpp\<close>: the oblivious AVL map inside the enclave. The nodes an operation visits
  are taken out of the ORAMs into \<open>local_\<close>, changed there by full scans of conditional moves, and put
  back. Loops are loops of the model; \<open>oram_for_depth\<close> picks the upper or the lower ORAM.
\<close>

section \<open>State\<close>

record tee_stats =
  upper_pages :: nat
  lower_pages :: nat
  upper_node_accesses :: nat
  lower_node_accesses :: nat

definition total_pages :: "tee_stats \<Rightarrow> nat" where
  "total_pages s = upper_pages s + lower_pages s"

definition total_node_accesses :: "tee_stats \<Rightarrow> nat" where
  "total_node_accesses s = upper_node_accesses s + lower_node_accesses s"

record tee_avl =
  ta_max_height :: nat
  ta_split_depth :: int
  ta_value_size :: nat
  ta_root_key :: i32
  ta_root_leaf :: i32
  ta_upper :: enclave_oram
  ta_lower :: enclave_oram
  ta_local :: "local_node list"
  ta_upper_ops :: nat
  ta_lower_ops :: nat
  ta_last_stats :: tee_stats

text \<open>The default-constructed ORAM that stands for an unused upper tree.\<close>

definition default_enclave_oram :: enclave_oram where
  "default_enclave_oram =
     \<lparr>eo_value_size = 0, eo_bucket_size = 4, eo_level = 0, eo_leaf_range = 0, eo_num_nodes = 0,
      eo_stash_max = 0, eo_tree = [], eo_stash = [], eo_last_stats = zero_stats,
      eo_total_stats = zero_stats, touched_pages = {}, node_access_count = 0\<rparr>"

definition node_oram_val_size :: "nat \<Rightarrow> nat" where
  "node_oram_val_size user_val_size = AVL_HEADER_SIZE + user_val_size"

definition new_tee_avl :: "int \<Rightarrow> nat \<Rightarrow> nat \<Rightarrow> int \<Rightarrow> tee_avl" where
  "new_tee_avl capacity vsize bsize split =
     (let mh = avl_max_height capacity;
          sd = (if split > int mh then int mh else split);
          nv = node_oram_val_size vsize
      in \<lparr>ta_max_height = mh, ta_split_depth = sd, ta_value_size = vsize,
          ta_root_key = INVALID_KEY, ta_root_leaf = INVALID_LEAF,
          ta_upper = (if sd > 0 then new_enclave_oram (max (2 ^ nat sd - 1) 1) nv bsize 7
                      else default_enclave_oram),
          ta_lower = new_enclave_oram capacity nv bsize 7,
          ta_local = [], ta_upper_ops = 0, ta_lower_ops = 0,
          ta_last_stats = \<lparr>upper_pages = 0, lower_pages = 0, upper_node_accesses = 0, lower_node_accesses = 0\<rparr>\<rparr>)"

definition is_upper :: "tee_avl \<Rightarrow> i32 \<Rightarrow> bool" where
  "is_upper t depth \<longleftrightarrow> ta_split_depth t > 0 \<and> sint depth < ta_split_depth t"

definition oram_for_depth :: "tee_avl \<Rightarrow> i32 \<Rightarrow> enclave_oram" where
  "oram_for_depth t depth = (if is_upper t depth then ta_upper t else ta_lower t)"

definition set_oram :: "i32 \<Rightarrow> enclave_oram \<Rightarrow> tee_avl \<Rightarrow> tee_avl" where
  "set_oram depth o1 t = (if is_upper t depth then t\<lparr>ta_upper := o1\<rparr> else t\<lparr>ta_lower := o1\<rparr>)"

definition count_op :: "i32 \<Rightarrow> tee_avl \<Rightarrow> tee_avl" where
  "count_op depth t =
     (if is_upper t depth then t\<lparr>ta_upper_ops := ta_upper_ops t + 1\<rparr>
      else t\<lparr>ta_lower_ops := ta_lower_ops t + 1\<rparr>)"

section \<open>Statistics\<close>

definition begin_stats :: "tee_avl \<Rightarrow> tee_avl" where
  "begin_stats t =
     t\<lparr>ta_upper_ops := 0, ta_lower_ops := 0,
       ta_upper := (if ta_split_depth t > 0 then begin_page_tracking (ta_upper t) else ta_upper t),
       ta_lower := begin_page_tracking (ta_lower t)\<rparr>"

definition end_stats :: "tee_avl \<Rightarrow> tee_avl" where
  "end_stats t =
     t\<lparr>ta_last_stats :=
       \<lparr>upper_pages = (if ta_split_depth t > 0 then end_page_tracking (ta_upper t) else 0),
        lower_pages = end_page_tracking (ta_lower t),
        upper_node_accesses = (if ta_split_depth t > 0 then node_access_count (ta_upper t) else 0),
        lower_node_accesses = node_access_count (ta_lower t)\<rparr>\<rparr>"

section \<open>One ORAM step\<close>

definition oram_step ::
  "i32 \<Rightarrow> i32 \<Rightarrow> i32 \<Rightarrow> i32 \<Rightarrow> i32 \<Rightarrow> tee_avl \<Rightarrow> rng \<Rightarrow> (tee_avl \<times> rng) result" where
  "oram_step depth k lf is_real parent_key t r =
     (let (rl, r1) = random_leaf (oram_for_depth t depth) r;
          use_leaf = o_select_i (is_real \<noteq> 0) lf rl
      in bind_result (read_path_to_stash use_leaf (oram_for_depth t depth)) (\<lambda>o1.
           let use_key = o_select_i (is_real \<noteq> 0) k (- 2);
               (blk, o2) = extract_from_stash use_key o1
           in bind_result (decode_node (val blk)) (\<lambda>nd.
                let entry = \<lparr>n_key = o_select_i (is_real \<noteq> 0) k INVALID_KEY,
                             n_leaf = o_select_i (is_real \<noteq> 0) (leaf blk) INVALID_LEAF,
                             n_avl = nd,
                             n_parent = o_select_i (is_real \<noteq> 0) parent_key INVALID_KEY,
                             n_depth = depth\<rparr>
                in bind_result (evict_one_path use_leaf o2) (\<lambda>o3.
                     Inr (count_op depth (set_oram depth o3 (t\<lparr>ta_local := ta_local t @ [entry]\<rparr>)), r1)))))"

definition pad_step :: "i32 \<Rightarrow> tee_avl \<Rightarrow> rng \<Rightarrow> (tee_avl \<times> rng) result" where
  "pad_step depth t r =
     (let (lf, r1) = random_leaf (oram_for_depth t depth) r
      in bind_result (read_path_to_stash lf (oram_for_depth t depth)) (\<lambda>o1.
           let (blk, o2) = extract_from_stash (- 2) o1
           in bind_result (evict_one_path lf o2) (\<lambda>o3.
                Inr (count_op depth (set_oram depth o3 t), r1))))"

definition move_to_local :: "i32 \<Rightarrow> i32 \<Rightarrow> i32 \<Rightarrow> i32 \<Rightarrow> tee_avl \<Rightarrow> tee_avl result" where
  "move_to_local k lf parent_key depth t =
     bind_result (read_path_to_stash lf (oram_for_depth t depth)) (\<lambda>o1.
       let (blk, o2) = extract_from_stash k o1
       in if key blk = INVALID_KEY then Inl (KeyNotFound k)
          else bind_result (decode_node (val blk)) (\<lambda>nd.
            let entry = \<lparr>n_key = k, n_leaf = leaf blk, n_avl = nd, n_parent = parent_key, n_depth = depth\<rparr>
            in bind_result (evict_one_path lf o2) (\<lambda>o3.
                 Inr (count_op depth (set_oram depth o3 (t\<lparr>ta_local := ta_local t @ [entry]\<rparr>))))))"

section \<open>Flushing the local nodes\<close>

definition flush_node :: "local_node \<Rightarrow> tee_avl \<Rightarrow> tee_avl" where
  "flush_node node t =
     set_oram (n_depth node)
       (add_to_stash (n_key node) (n_leaf node) (encode_node (n_avl node)) (oram_for_depth t (n_depth node))) t"

definition flush_local_to_stash :: "tee_avl \<Rightarrow> tee_avl" where
  "flush_local_to_stash t = (fold flush_node (ta_local t) t)\<lparr>ta_local := []\<rparr>"

text \<open>New leaves are drawn from the last entry to the first, also for the dummies.\<close>

fun draw_leaves :: "tee_avl \<Rightarrow> local_node list \<Rightarrow> rng \<Rightarrow> local_node list \<times> rng" where
  "draw_leaves t [] r = ([], r)"
| "draw_leaves t (nd # nds) r =
     (case draw_leaves t nds r of (nds', r1) \<Rightarrow>
      case random_leaf (oram_for_depth t (n_depth nd)) r1 of (new_leaf, r2) \<Rightarrow>
        (nd\<lparr>n_leaf := o_select_i (1 - o_equal (n_key nd) INVALID_KEY \<noteq> 0) new_leaf (n_leaf nd)\<rparr> # nds', r2))"

definition link_child :: "local_node \<Rightarrow> local_node \<Rightarrow> local_node" where
  "link_child child par =
     (let child_real = 1 - o_equal (n_key child) INVALID_KEY;
          has_parent = 1 - o_equal (n_parent child) INVALID_KEY;
          should_update = child_real AND has_parent;
          par_real = 1 - o_equal (n_key par) INVALID_KEY;
          is_parent = should_update AND par_real AND o_equal (n_key par) (n_parent child);
          is_left = is_parent AND o_equal (l_key (n_avl par)) (n_key child);
          is_right = is_parent AND o_equal (r_key (n_avl par)) (n_key child);
          avl1 = (n_avl par)\<lparr>l_leaf := o_mov_i (is_left \<noteq> 0) (l_leaf (n_avl par)) (n_leaf child)\<rparr>;
          avl2 = avl1\<lparr>r_leaf := o_mov_i (is_right \<noteq> 0) (r_leaf avl1) (n_leaf child)\<rparr>
      in par\<lparr>n_avl := avl2\<rparr>)"

definition link_all :: "local_node list \<Rightarrow> local_node list" where
  "link_all nds = fold (\<lambda>i loc. map (link_child (loc ! i)) loc) (rev [0..<length nds]) nds"

definition root_leaf_scan :: "i32 \<Rightarrow> local_node list \<Rightarrow> i32 \<Rightarrow> i32" where
  "root_leaf_scan root_key nds lf =
     fold (\<lambda>nd acc. o_mov_i ((o_equal (n_key nd) root_key AND (1 - o_equal (n_key nd) INVALID_KEY)) \<noteq> 0)
                      acc (n_leaf nd)) nds lf"

definition reassign_leaves :: "tee_avl \<Rightarrow> rng \<Rightarrow> tee_avl \<times> rng" where
  "reassign_leaves t r =
     (let (nds, r1) = draw_leaves t (ta_local t) r;
          nds' = link_all nds
      in (t\<lparr>ta_local := nds', ta_root_leaf := root_leaf_scan (ta_root_key t) nds' (ta_root_leaf t)\<rparr>, r1))"

definition pad_steps :: "i32 \<Rightarrow> nat \<Rightarrow> tee_avl \<Rightarrow> rng \<Rightarrow> (tee_avl \<times> rng) result" where
  "pad_steps depth n t r = for_loop (\<lambda>i (t1, r1). pad_step depth t1 r1) 0 n (t, r)"

text \<open>The differences of the code are cut at 0 by \<open>std::max\<close>, as those of \<open>nat\<close> are.\<close>

definition pad_ops :: "nat \<Rightarrow> tee_avl \<Rightarrow> rng \<Rightarrow> (tee_avl \<times> rng) result" where
  "pad_ops ops_done t r =
     (let budget = 3 * ta_max_height t;
          pad = budget - ops_done
      in if ta_split_depth t > 0 then
           let eff_upper = min (nat (ta_split_depth t)) budget;
               upper_pad = eff_upper - ta_upper_ops t;
               lower_pad = pad - upper_pad
           in bind_result (pad_steps 0 upper_pad t r) (\<lambda>(t1, r1).
                pad_steps (word_of_int (ta_split_depth t)) lower_pad t1 r1)
         else pad_steps 0 pad t r)"

end
