(* ===== verification/Tee_Avl_Ops.thy ===== *)
theory Tee_Avl_Ops
  imports Tee_Avl
begin

text \<open>
  The operations of \<open>src/tee/tee_avl_omap.cpp\<close>: search, the rebalancing inside \<open>local_\<close>, insert,
  remove and the initial build. Every loop over \<open>local_\<close> is a \<open>map\<close> or \<open>fold\<close> over all entries, as in
  the code; an assignment guarded by a flag is the conditional move \<open>o_mov_i\<close>.
\<close>

section \<open>Search\<close>

record search_state =
  s_cur_key :: i32
  s_cur_leaf :: i32
  s_found :: i32
  s_found_idx :: i32
  s_result :: bytes

text \<open>What an iteration does with the node it fetched.\<close>

definition search_advance ::
  "i32 \<Rightarrow> bytes option \<Rightarrow> nat \<Rightarrow> nat \<Rightarrow> i32 \<Rightarrow> search_state \<Rightarrow> local_node \<Rightarrow> search_state \<times> local_node" where
  "search_advance k update vsize d is_searching s node =
     (let match = is_searching AND o_equal k (n_key node);
          nd = (case update of None \<Rightarrow> n_avl node
                | Some u \<Rightarrow> (n_avl node)\<lparr>avl_data :=
                    o_mov_bytes (match \<noteq> 0) (avl_data (n_avl node)) (pad_bytes u vsize)\<rparr>);
          go_left = is_searching AND (1 - match) AND o_less k (s_cur_key s);
          still_searching = is_searching AND (1 - match);
          next_key = o_select_i (go_left \<noteq> 0) (l_key nd) (r_key nd);
          next_leaf = o_select_i (go_left \<noteq> 0) (l_leaf nd) (r_leaf nd)
      in (\<lparr>s_cur_key = o_select_i (still_searching \<noteq> 0) next_key INVALID_KEY,
           s_cur_leaf = o_select_i (still_searching \<noteq> 0) next_leaf INVALID_LEAF,
           s_found = s_found s OR match,
           s_found_idx = o_mov_i (match \<noteq> 0) (s_found_idx s) (of_nat d),
           s_result = o_mov_bytes (match \<noteq> 0) (s_result s) (avl_data (n_avl node))\<rparr>,
          node\<lparr>n_avl := nd\<rparr>))"

definition search_iter ::
  "i32 \<Rightarrow> bytes option \<Rightarrow> nat \<Rightarrow> search_state \<times> tee_avl \<times> rng \<Rightarrow> (search_state \<times> tee_avl \<times> rng) result" where
  "search_iter k update d = (\<lambda>(s, t, r).
     let is_valid = 1 - o_equal (s_cur_key s) INVALID_KEY;
         is_searching = is_valid AND (1 - s_found s);
         par_key = o_select_i (is_searching \<noteq> 0)
                     (if d = 0 then INVALID_KEY else n_key (ta_local t ! (d - 1))) INVALID_KEY
     in bind_result (oram_step (of_nat d) (s_cur_key s) (s_cur_leaf s) is_searching par_key t r) (\<lambda>(t1, r1).
          let li = length (ta_local t1) - 1;
              (s', node) = search_advance k update (ta_value_size t1) d is_searching s (ta_local t1 ! li)
          in Inr (s', t1\<lparr>ta_local := (ta_local t1)[li := node]\<rparr>, r1)))"

definition write_back :: "i32 \<Rightarrow> i32 \<Rightarrow> bytes \<Rightarrow> local_node list \<Rightarrow> local_node list" where
  "write_back found found_idx padded nds =
     map (\<lambda>(i, nd). nd\<lparr>n_avl := (n_avl nd)\<lparr>avl_data :=
            o_mov_bytes (found AND o_equal (of_nat i) found_idx \<noteq> 0) (avl_data (n_avl nd)) padded\<rparr>\<rparr>)
       (enumerate 0 nds)"

definition search_or_dummy ::
  "i32 \<Rightarrow> bool \<Rightarrow> bytes option \<Rightarrow> (bytes \<Rightarrow> bytes) option \<Rightarrow> tee_avl \<Rightarrow> rng \<Rightarrow>
   (bytes \<times> bool \<times> tee_avl \<times> rng) result" where
  "search_or_dummy k is_real update transform t0 r =
     (let t = (begin_stats t0)\<lparr>ta_local := []\<rparr>;
          s = \<lparr>s_cur_key = o_select_i is_real (ta_root_key t) INVALID_KEY,
               s_cur_leaf = o_select_i is_real (ta_root_leaf t) INVALID_LEAF,
               s_found = 0, s_found_idx = - 1, s_result = replicate (ta_value_size t) 0\<rparr>
      in bind_result (for_loop (search_iter k update) 0 (ta_max_height t) (s, t, r)) (\<lambda>(s1, t1, r1).
           let t2 = (case transform of None \<Rightarrow> t1
                     | Some f \<Rightarrow> t1\<lparr>ta_local := write_back (s_found s1) (s_found_idx s1)
                                  (pad_bytes (f (s_result s1)) (ta_value_size t1)) (ta_local t1)\<rparr>);
               (t3, r2) = reassign_leaves t2 r1
           in bind_result (pad_ops (ta_max_height t3) (flush_local_to_stash t3) r2) (\<lambda>(t4, r3).
                Inr (o_mov_bytes (1 - s_found s1 \<noteq> 0) (s_result s1) (replicate (ta_value_size t4) 0),
                     s_found s1 \<noteq> 0, end_stats t4, r3))))"

definition tee_search ::
  "i32 \<Rightarrow> bytes option \<Rightarrow> (bytes \<Rightarrow> bytes) option \<Rightarrow> tee_avl \<Rightarrow> rng \<Rightarrow> (bytes \<times> tee_avl \<times> rng) result" where
  "tee_search k update transform t r =
     bind_result (search_or_dummy k True update transform t r) (\<lambda>(result, found, t1, r1).
       Inr (if found then result else [], t1, r1))"

definition tee_dummy_access :: "tee_avl \<Rightarrow> rng \<Rightarrow> (tee_avl \<times> rng) result" where
  "tee_dummy_access t r =
     bind_result (search_or_dummy INVALID_KEY False None None t r) (\<lambda>(_, _, t1, r1). Inr (t1, r1))"

section \<open>Rebalancing\<close>

text \<open>The children in \<open>local_\<close> report their heights to the entry \<open>i\<close>.\<close>

definition report_height :: "nat \<Rightarrow> nat \<Rightarrow> local_node list \<Rightarrow> local_node list" where
  "report_height i j loc =
     (let nd = loc ! i; child = loc ! j;
          active = (1 - o_equal (n_key nd) INVALID_KEY) AND (1 - o_equal (n_key child) INVALID_KEY);
          ch = 1 + o_max (l_height (n_avl child)) (r_height (n_avl child));
          is_lc = active AND o_equal (n_key child) (l_key (n_avl nd));
          is_rc = active AND o_equal (n_key child) (r_key (n_avl nd));
          avl1 = (n_avl nd)\<lparr>l_height := o_mov_i (is_lc \<noteq> 0) (l_height (n_avl nd)) ch\<rparr>;
          avl2 = avl1\<lparr>r_height := o_mov_i (is_rc \<noteq> 0) (r_height avl1) ch\<rparr>
      in loc[i := nd\<lparr>n_avl := avl2\<rparr>])"

definition update_heights :: "local_node list \<Rightarrow> local_node list" where
  "update_heights nds =
     fold (\<lambda>i loc. fold (\<lambda>j. report_height i j) [0..<length nds] loc) (rev [0..<length nds]) nds"

record pivot =
  p_idx :: i32
  p_found :: i32
  p_key :: i32
  p_leaf :: i32
  p_parent :: i32
  p_lk :: i32
  p_ll :: i32
  p_lh :: i32
  p_rk :: i32
  p_rl :: i32
  p_rh :: i32

definition no_pivot :: pivot where
  "no_pivot = \<lparr>p_idx = 0, p_found = 0, p_key = INVALID_KEY, p_leaf = INVALID_LEAF,
     p_parent = INVALID_KEY, p_lk = INVALID_KEY, p_ll = INVALID_LEAF, p_lh = 0,
     p_rk = INVALID_KEY, p_rl = INVALID_LEAF, p_rh = 0\<rparr>"

definition gather_step :: "i32 \<Rightarrow> nat \<times> local_node \<Rightarrow> pivot \<Rightarrow> pivot" where
  "gather_step target = (\<lambda>(i, nd) p.
     let match = o_equal (n_key nd) target AND (1 - o_equal (n_key nd) INVALID_KEY)
                 AND (1 - o_equal target INVALID_KEY);
         c = (match \<noteq> 0)
     in \<lparr>p_idx = o_mov_i c (p_idx p) (of_nat i), p_found = p_found p OR match,
         p_key = o_mov_i c (p_key p) (n_key nd), p_leaf = o_mov_i c (p_leaf p) (n_leaf nd),
         p_parent = o_mov_i c (p_parent p) (n_parent nd),
         p_lk = o_mov_i c (p_lk p) (l_key (n_avl nd)), p_ll = o_mov_i c (p_ll p) (l_leaf (n_avl nd)),
         p_lh = o_mov_i c (p_lh p) (l_height (n_avl nd)),
         p_rk = o_mov_i c (p_rk p) (r_key (n_avl nd)), p_rl = o_mov_i c (p_rl p) (r_leaf (n_avl nd)),
         p_rh = o_mov_i c (p_rh p) (r_height (n_avl nd))\<rparr>)"

definition gather_pivot :: "i32 \<Rightarrow> local_node list \<Rightarrow> pivot" where
  "gather_pivot target nds = fold (gather_step target) (enumerate 0 nds) no_pivot"

text \<open>The inner child moves over: the changed node, its new height and the changed pivot.\<close>

definition rotate_core :: "i32 \<Rightarrow> i32 \<Rightarrow> local_node \<Rightarrow> pivot \<Rightarrow> local_node \<times> pivot \<times> i32 \<times> i32" where
  "rotate_core act dir node p =
     (let trans_key = o_select_i (dir \<noteq> 0) (p_rk p) (p_lk p);
          trans_leaf = o_select_i (dir \<noteq> 0) (p_rl p) (p_ll p);
          trans_h = o_select_i (dir \<noteq> 0) (p_rh p) (p_lh p);
          is_left_rot = (act AND (1 - dir)) \<noteq> 0;
          is_right_rot = (act AND dir) \<noteq> 0;
          avl = n_avl node;
          avl1 = avl\<lparr>r_key := o_mov_i is_left_rot (r_key avl) trans_key,
                     r_leaf := o_mov_i is_left_rot (r_leaf avl) trans_leaf,
                     r_height := o_mov_i is_left_rot (r_height avl) trans_h,
                     l_key := o_mov_i is_right_rot (l_key avl) trans_key,
                     l_leaf := o_mov_i is_right_rot (l_leaf avl) trans_leaf,
                     l_height := o_mov_i is_right_rot (l_height avl) trans_h\<rparr>;
          new_node_h = 1 + o_max (o_select_i (dir \<noteq> 0) trans_h (l_height avl1))
                                 (o_select_i (dir \<noteq> 0) (r_height avl1) trans_h);
          p1 = p\<lparr>p_lk := o_mov_i is_left_rot (p_lk p) (n_key node),
                 p_ll := o_mov_i is_left_rot (p_ll p) (n_leaf node),
                 p_lh := o_mov_i is_left_rot (p_lh p) new_node_h,
                 p_rk := o_mov_i is_right_rot (p_rk p) (n_key node),
                 p_rl := o_mov_i is_right_rot (p_rl p) (n_leaf node),
                 p_rh := o_mov_i is_right_rot (p_rh p) new_node_h\<rparr>;
          orig_node_parent = n_parent node;
          p2 = p1\<lparr>p_parent := o_mov_i (act \<noteq> 0) (p_parent p1) orig_node_parent\<rparr>;
          node1 = node\<lparr>n_avl := avl1, n_parent := o_mov_i (act \<noteq> 0) (n_parent node) (p_key p2)\<rparr>
      in (node1, p2, orig_node_parent, trans_key))"

definition scatter_step :: "i32 \<Rightarrow> i32 \<Rightarrow> pivot \<Rightarrow> i32 \<Rightarrow> i32 \<Rightarrow> nat \<times> local_node \<Rightarrow> local_node" where
  "scatter_step act node_key p orig_node_parent trans_key = (\<lambda>(i, nd).
     let new_p_h = 1 + o_max (p_lh p) (p_rh p);
         is_pivot = (act AND o_equal (of_nat i) (p_idx p)) \<noteq> 0;
         avl = n_avl nd;
         nd1 = nd\<lparr>n_parent := o_mov_i is_pivot (n_parent nd) (p_parent p),
                  n_avl := avl\<lparr>l_key := o_mov_i is_pivot (l_key avl) (p_lk p),
                               l_leaf := o_mov_i is_pivot (l_leaf avl) (p_ll p),
                               l_height := o_mov_i is_pivot (l_height avl) (p_lh p),
                               r_key := o_mov_i is_pivot (r_key avl) (p_rk p),
                               r_leaf := o_mov_i is_pivot (r_leaf avl) (p_rl p),
                               r_height := o_mov_i is_pivot (r_height avl) (p_rh p)\<rparr>\<rparr>;
         avl1 = n_avl nd1;
         is_par = act AND o_equal (n_key nd1) orig_node_parent AND (1 - o_equal (n_key nd1) INVALID_KEY);
         fl = (is_par AND o_equal (l_key avl1) node_key) \<noteq> 0;
         fr = (is_par AND o_equal (r_key avl1) node_key) \<noteq> 0;
         avl2 = avl1\<lparr>l_key := o_mov_i fl (l_key avl1) (p_key p),
                     l_leaf := o_mov_i fl (l_leaf avl1) (p_leaf p),
                     l_height := o_mov_i fl (l_height avl1) new_p_h,
                     r_key := o_mov_i fr (r_key avl1) (p_key p),
                     r_leaf := o_mov_i fr (r_leaf avl1) (p_leaf p),
                     r_height := o_mov_i fr (r_height avl1) new_p_h\<rparr>;
         fix_trans = (act AND (1 - o_equal trans_key INVALID_KEY)
                      AND (1 - o_equal (n_key nd1) INVALID_KEY) AND o_equal (n_key nd1) trans_key) \<noteq> 0
     in nd1\<lparr>n_avl := avl2, n_parent := o_mov_i fix_trans (n_parent nd1) node_key\<rparr>)"

text \<open>\<open>rotate_cond\<close> works on \<open>local_\<close> and the root key; \<open>dir = 1\<close> is the right rotation.\<close>

definition rotate_cond :: "nat \<Rightarrow> i32 \<Rightarrow> i32 \<Rightarrow> local_node list \<times> i32 \<Rightarrow> local_node list \<times> i32" where
  "rotate_cond idx active dir = (\<lambda>(loc, root_key).
     let node = loc ! idx;
         target = o_select_i (dir \<noteq> 0) (l_key (n_avl node)) (r_key (n_avl node));
         p = gather_pivot target loc;
         act = active AND p_found p;
         (node1, p1, orig_node_parent, trans_key) = rotate_core act dir node p;
         loc1 = loc[idx := node1];
         loc2 = map (scatter_step act (n_key node1) p1 orig_node_parent trans_key) (enumerate 0 loc1)
     in (loc2, o_mov_i (act AND o_equal root_key (n_key node1) \<noteq> 0) root_key (p_key p1)))"

record child_info =
  lc_idx :: i32
  rc_idx :: i32
  lc_lh :: i32
  lc_rh :: i32
  rc_lh :: i32
  rc_rh :: i32

definition children_of :: "local_node \<Rightarrow> local_node list \<Rightarrow> child_info" where
  "children_of nd nds =
     fold (\<lambda>(i, c) ci.
        let c_real = 1 - o_equal (n_key c) INVALID_KEY;
            is_lc = (c_real AND o_equal (n_key c) (l_key (n_avl nd))) \<noteq> 0;
            is_rc = (c_real AND o_equal (n_key c) (r_key (n_avl nd))) \<noteq> 0
        in \<lparr>lc_idx = o_mov_i is_lc (lc_idx ci) (of_nat i),
            rc_idx = o_mov_i is_rc (rc_idx ci) (of_nat i),
            lc_lh = o_mov_i is_lc (lc_lh ci) (l_height (n_avl c)),
            lc_rh = o_mov_i is_lc (lc_rh ci) (r_height (n_avl c)),
            rc_lh = o_mov_i is_rc (rc_lh ci) (l_height (n_avl c)),
            rc_rh = o_mov_i is_rc (rc_rh ci) (r_height (n_avl c))\<rparr>)
       (enumerate 0 nds) \<lparr>lc_idx = 0, rc_idx = 0, lc_lh = 0, lc_rh = 0, rc_lh = 0, rc_rh = 0\<rparr>"

definition balance_node :: "nat \<Rightarrow> local_node list \<times> i32 \<Rightarrow> local_node list \<times> i32" where
  "balance_node idx = (\<lambda>(loc, root_key).
     let nd = loc ! idx;
         is_real = 1 - o_equal (n_key nd) INVALID_KEY;
         bal = l_height (n_avl nd) - r_height (n_avl nd);
         need_right = is_real AND o_less 1 bal;
         need_left = is_real AND o_less bal (- 1);
         ci = children_of nd loc;
         lc_bal = lc_lh ci - lc_rh ci;
         need_lr = need_right AND o_less lc_bal 0;
         rc_bal = rc_lh ci - rc_rh ci;
         need_rl = need_left AND o_less 0 rc_bal
     in rotate_cond idx need_left 0 (rotate_cond idx need_right 1
          (rotate_cond (unat (rc_idx ci)) need_rl 1
            (rotate_cond (unat (lc_idx ci)) need_lr 0 (loc, root_key)))))"

definition rebalance :: "local_node list \<times> i32 \<Rightarrow> local_node list \<times> i32" where
  "rebalance lr =
     (case fold (\<lambda>i (loc, root_key). balance_node i (update_heights loc, root_key))
             (rev [0..<length (fst lr)]) lr of
        (loc, root_key) \<Rightarrow> (update_heights loc, root_key))"

definition rebalance_local :: "tee_avl \<Rightarrow> tee_avl" where
  "rebalance_local t =
     (let (loc, root_key) = rebalance (update_heights (ta_local t), ta_root_key t)
      in t\<lparr>ta_local := loc, ta_root_key := root_key\<rparr>)"

end
