(* ===== verification/Tee_Avl_Update.thy ===== *)
theory Tee_Avl_Update
  imports Tee_Avl_Ops
begin

text \<open>
  Insert, remove and the initial build of \<open>src/tee/tee_avl_omap.cpp\<close>. The phases of \<open>remove\<close> are one
  definition each.
\<close>

section \<open>Insert\<close>

record insert_state =
  i_cur_key :: i32
  i_cur_leaf :: i32
  i_inserted :: i32
  i_parent :: i32
  i_depth :: i32
  i_leaf :: i32

definition attach_child :: "bool \<Rightarrow> bool \<Rightarrow> i32 \<Rightarrow> i32 \<Rightarrow> avl_node \<Rightarrow> avl_node" where
  "attach_child to_l to_r k nl avl =
     avl\<lparr>l_key := o_mov_i to_l (l_key avl) k, l_leaf := o_mov_i to_l (l_leaf avl) nl,
         l_height := o_mov_i to_l (l_height avl) 1,
         r_key := o_mov_i to_r (r_key avl) k, r_leaf := o_mov_i to_r (r_leaf avl) nl,
         r_height := o_mov_i to_r (r_height avl) 1\<rparr>"

definition insert_iter ::
  "i32 \<Rightarrow> nat \<Rightarrow> insert_state \<times> tee_avl \<times> rng \<Rightarrow> (insert_state \<times> tee_avl \<times> rng) result" where
  "insert_iter k d = (\<lambda>(s, t, r).
     let is_valid = 1 - o_equal (i_cur_key s) INVALID_KEY;
         is_searching = is_valid AND (1 - i_inserted s);
         par_key = o_select_i (is_searching \<noteq> 0)
                     (if ta_local t = [] then INVALID_KEY else n_key (last (ta_local t))) INVALID_KEY
     in bind_result (oram_step (of_nat d) (i_cur_key s) (i_cur_leaf s) is_searching par_key t r) (\<lambda>(t1, r1).
          let step_idx = length (ta_local t1) - 1;
              node = ta_local t1 ! step_idx;
              go_left = is_searching AND o_less k (i_cur_key s);
              go_right = is_searching AND (1 - go_left);
              child_key = o_select_i (go_left \<noteq> 0) (l_key (n_avl node)) (r_key (n_avl node));
              child_empty = o_equal child_key INVALID_KEY;
              should_insert = is_searching AND child_empty;
              cd = of_nat d + 1;
              (nl, r2) = random_leaf (oram_for_depth t1 cd) r1;
              avl = attach_child (should_insert AND go_left \<noteq> 0) (should_insert AND go_right \<noteq> 0) k nl (n_avl node);
              t2 = t1\<lparr>ta_local := (ta_local t1)[step_idx := node\<lparr>n_avl := avl\<rparr>]\<rparr>;
              ins = i_inserted s OR should_insert;
              still_searching = is_searching AND (1 - ins);
              next_key = o_select_i (go_left \<noteq> 0) (l_key avl) (r_key avl);
              next_leaf = o_select_i (go_left \<noteq> 0) (l_leaf avl) (r_leaf avl)
          in Inr (\<lparr>i_cur_key = o_select_i (still_searching \<noteq> 0) next_key INVALID_KEY,
                   i_cur_leaf = o_select_i (still_searching \<noteq> 0) next_leaf INVALID_LEAF,
                   i_inserted = ins,
                   i_parent = o_mov_i (should_insert \<noteq> 0) (i_parent s) (i_cur_key s),
                   i_depth = o_mov_i (should_insert \<noteq> 0) (i_depth s) cd,
                   i_leaf = o_mov_i (should_insert \<noteq> 0) (i_leaf s) nl\<rparr>, t2, r2)))"

definition tee_insert :: "i32 \<Rightarrow> bytes \<Rightarrow> tee_avl \<Rightarrow> rng \<Rightarrow> (tee_avl \<times> rng) result" where
  "tee_insert k v t0 r =
     (let t = (begin_stats t0)\<lparr>ta_local := []\<rparr>;
          is_real = 1 - o_equal k INVALID_KEY;
          was_empty = is_real AND o_equal (ta_root_key t) INVALID_KEY;
          s = \<lparr>i_cur_key = o_select_i (is_real \<noteq> 0) (ta_root_key t) INVALID_KEY,
               i_cur_leaf = o_select_i (is_real \<noteq> 0) (ta_root_leaf t) INVALID_LEAF,
               i_inserted = 0, i_parent = INVALID_KEY, i_depth = 0, i_leaf = INVALID_LEAF\<rparr>
      in bind_result (for_loop (insert_iter k) 0 (ta_max_height t) (s, t, r)) (\<lambda>(s1, t1, r1).
           let (empty_leaf, r2) = random_leaf (oram_for_depth t1 0) r1;
               insert_leaf = o_mov_i (was_empty \<noteq> 0) (i_leaf s1) empty_leaf;
               insert_depth = o_mov_i (was_empty \<noteq> 0) (i_depth s1) 0;
               actually_inserted = i_inserted s1 OR was_empty;
               act = (actually_inserted \<noteq> 0);
               entry = \<lparr>n_key = o_select_i act k INVALID_KEY, n_leaf = o_select_i act insert_leaf INVALID_LEAF,
                        n_avl = new_avl_node (pad_bytes v (ta_value_size t1)),
                        n_parent = o_select_i act (i_parent s1) INVALID_KEY,
                        n_depth = o_select_i act insert_depth 0\<rparr>;
               t2 = t1\<lparr>ta_local := ta_local t1 @ [entry],
                      ta_root_key := o_mov_i (was_empty \<noteq> 0) (ta_root_key t1) k\<rparr>;
               (t3, r3) = reassign_leaves (rebalance_local t2) r2
           in bind_result (pad_ops (ta_max_height t3) (flush_local_to_stash t3) r3) (\<lambda>(t4, r4).
                Inr (end_stats t4, r4))))"

section \<open>Remove: the two searches\<close>

record find_state =
  f_cur_key :: i32
  f_cur_leaf :: i32
  f_found :: i32
  f_target_idx :: i32
  f_target_depth :: i32

definition find_iter ::
  "i32 \<Rightarrow> nat \<Rightarrow> find_state \<times> tee_avl \<times> rng \<Rightarrow> (find_state \<times> tee_avl \<times> rng) result" where
  "find_iter k d = (\<lambda>(s, t, r).
     let is_valid = 1 - o_equal (f_cur_key s) INVALID_KEY;
         is_searching = is_valid AND (1 - f_found s);
         par_key = o_select_i (is_searching \<noteq> 0)
                     (if ta_local t = [] then INVALID_KEY else n_key (last (ta_local t))) INVALID_KEY
     in bind_result (oram_step (of_nat d) (f_cur_key s) (f_cur_leaf s) is_searching par_key t r) (\<lambda>(t1, r1).
          let li = length (ta_local t1) - 1;
              node = ta_local t1 ! li;
              match = is_searching AND o_equal k (n_key node);
              go_left = is_searching AND (1 - match) AND o_less k (f_cur_key s);
              still = is_searching AND (1 - match);
              nk = o_select_i (go_left \<noteq> 0) (l_key (n_avl node)) (r_key (n_avl node));
              nl = o_select_i (go_left \<noteq> 0) (l_leaf (n_avl node)) (r_leaf (n_avl node))
          in Inr (\<lparr>f_cur_key = o_select_i (still \<noteq> 0) nk INVALID_KEY,
                   f_cur_leaf = o_select_i (still \<noteq> 0) nl INVALID_LEAF,
                   f_found = f_found s OR match,
                   f_target_idx = o_select_i (match \<noteq> 0) (of_nat li) (f_target_idx s),
                   f_target_depth = o_select_i (match \<noteq> 0) (of_nat d) (f_target_depth s)\<rparr>, t1, r1)))"

record succ_state =
  c_key :: i32
  c_leaf :: i32
  c_found :: i32
  c_idx :: i32

definition succ_iter ::
  "i32 \<Rightarrow> i32 \<Rightarrow> nat \<Rightarrow> succ_state \<times> tee_avl \<times> rng \<Rightarrow> (succ_state \<times> tee_avl \<times> rng) result" where
  "succ_iter k target_depth sd = (\<lambda>(s, t, r).
     let vs = (1 - c_found s) AND (1 - o_equal (c_key s) INVALID_KEY);
         ps = o_select_i (vs \<noteq> 0) (if sd = 0 then k else n_key (last (ta_local t))) INVALID_KEY;
         ds = target_depth + 1 + of_nat sd
     in bind_result (oram_step ds (c_key s) (c_leaf s) vs ps t r) (\<lambda>(t1, r1).
          let si = length (ta_local t1) - 1;
              node = ta_local t1 ! si;
              le = o_equal (l_key (n_avl node)) INVALID_KEY;
              is_s = vs AND le AND (1 - c_found s);
              sf = c_found s OR is_s;
              ss = vs AND (1 - sf)
          in Inr (\<lparr>c_key = o_select_i (ss \<noteq> 0) (l_key (n_avl node)) INVALID_KEY,
                   c_leaf = o_select_i (ss \<noteq> 0) (l_leaf (n_avl node)) INVALID_LEAF,
                   c_found = sf,
                   c_idx = o_select_i (is_s \<noteq> 0) (of_nat si) (c_idx s)\<rparr>, t1, r1)))"

section \<open>Remove: the pointer surgery\<close>

text \<open>A scan that keeps the fields of the entry with a given index, if the flag is set.\<close>

definition scan_at :: "i32 \<Rightarrow> i32 \<Rightarrow> (local_node \<Rightarrow> 'a) \<Rightarrow> 'a \<Rightarrow> local_node list \<Rightarrow> 'a" where
  "scan_at flag idx f x nds =
     fold (\<lambda>(i, nd) acc. if (flag AND o_equal (of_nat i) idx) \<noteq> 0 then f nd else acc) (enumerate 0 nds) x"

text \<open>3a: with two children the successor's key and data move to the target.\<close>

definition move_successor ::
  "i32 \<Rightarrow> i32 \<Rightarrow> i32 \<Rightarrow> nat \<Rightarrow> local_node list \<times> i32 \<Rightarrow> local_node list \<times> i32" where
  "move_successor has_two target_idx succ_idx vsize = (\<lambda>(nds, root_key).
     let sk_val = scan_at has_two succ_idx n_key INVALID_KEY nds;
         s_data = fold (\<lambda>(i, nd) acc. o_mov_bytes ((has_two AND o_equal (of_nat i) succ_idx) \<noteq> 0) acc (avl_data (n_avl nd)))
                    (enumerate 0 nds) (replicate vsize 0);
         old_tk = scan_at has_two target_idx n_key INVALID_KEY nds;
         nds1 = map (\<lambda>(i, nd).
                  let is_t = (has_two AND o_equal (of_nat i) target_idx) \<noteq> 0
                  in nd\<lparr>n_key := o_mov_i is_t (n_key nd) sk_val,
                        n_avl := (n_avl nd)\<lparr>avl_data := o_mov_bytes is_t (avl_data (n_avl nd)) s_data\<rparr>\<rparr>)
                (enumerate 0 nds);
         nds2 = map (\<lambda>nd.
                  let active = has_two AND (1 - o_equal (n_key nd) INVALID_KEY);
                      avl = n_avl nd
                  in nd\<lparr>n_avl := avl\<lparr>l_key := o_mov_i (active AND o_equal (l_key avl) old_tk \<noteq> 0) (l_key avl) sk_val,
                                    r_key := o_mov_i (active AND o_equal (r_key avl) old_tk \<noteq> 0) (r_key avl) sk_val\<rparr>\<rparr>)
                nds1;
         root1 = o_mov_i (has_two AND o_equal root_key old_tk \<noteq> 0) root_key sk_val;
         nds3 = map (\<lambda>nd. nd\<lparr>n_parent := o_mov_i (has_two AND o_equal (n_parent nd) old_tk \<noteq> 0) (n_parent nd) sk_val\<rparr>) nds2
     in (nds3, root1))"

text \<open>3b: the node \<open>del_idx\<close> is unlinked; its parent adopts its only child.\<close>

definition unlink_node ::
  "i32 \<Rightarrow> i32 \<Rightarrow> local_node list \<times> i32 \<times> i32 \<Rightarrow> local_node list \<times> i32 \<times> i32" where
  "unlink_node found del_idx = (\<lambda>(nds, root_key, root_leaf).
     let dk = scan_at found del_idx n_key INVALID_KEY nds;
         dp = scan_at found del_idx n_parent INVALID_KEY nds;
         dl_k = scan_at found del_idx (l_key \<circ> n_avl) INVALID_KEY nds;
         dl_l = scan_at found del_idx (l_leaf \<circ> n_avl) INVALID_LEAF nds;
         dl_h = scan_at found del_idx (l_height \<circ> n_avl) 0 nds;
         dr_k = scan_at found del_idx (r_key \<circ> n_avl) INVALID_KEY nds;
         dr_l = scan_at found del_idx (r_leaf \<circ> n_avl) INVALID_LEAF nds;
         dr_h = scan_at found del_idx (r_height \<circ> n_avl) 0 nds;
         has_l = 1 - o_equal dl_k INVALID_KEY;
         ck = o_select_i (has_l \<noteq> 0) dl_k dr_k;
         cl = o_select_i (has_l \<noteq> 0) dl_l dr_l;
         ch = o_select_i (o_equal ck INVALID_KEY \<noteq> 0) 0 (o_select_i (has_l \<noteq> 0) dl_h dr_h);
         nds1 = map (\<lambda>nd.
                  let is_p = found AND (1 - o_equal dp INVALID_KEY) AND o_equal (n_key nd) dp
                             AND (1 - o_equal (n_key nd) INVALID_KEY);
                      avl = n_avl nd;
                      fl = (is_p AND o_equal (l_key avl) dk) \<noteq> 0;
                      fr = (is_p AND o_equal (r_key avl) dk) \<noteq> 0
                  in nd\<lparr>n_avl := avl\<lparr>l_key := o_mov_i fl (l_key avl) ck, l_leaf := o_mov_i fl (l_leaf avl) cl,
                                    l_height := o_mov_i fl (l_height avl) ch,
                                    r_key := o_mov_i fr (r_key avl) ck, r_leaf := o_mov_i fr (r_leaf avl) cl,
                                    r_height := o_mov_i fr (r_height avl) ch\<rparr>\<rparr>) nds;
         d_root = (found AND o_equal dp INVALID_KEY) \<noteq> 0;
         root_key1 = o_mov_i d_root root_key ck;
         root_leaf1 = o_mov_i d_root root_leaf (o_select_i (o_equal ck INVALID_KEY \<noteq> 0) INVALID_LEAF cl);
         nds2 = map (\<lambda>(i, nd). nd\<lparr>n_key := o_mov_i (found AND o_equal (of_nat i) del_idx \<noteq> 0) (n_key nd) INVALID_KEY\<rparr>)
                  (enumerate 0 nds1);
         nds3 = map (\<lambda>nd.
                  let fix_p = found AND (1 - o_equal ck INVALID_KEY)
                              AND (1 - o_equal (n_key nd) INVALID_KEY) AND o_equal (n_key nd) ck
                  in nd\<lparr>n_parent := o_mov_i (fix_p \<noteq> 0) (n_parent nd) dp\<rparr>) nds2
     in (nds3, root_key1, root_leaf1))"

definition tee_remove :: "i32 \<Rightarrow> tee_avl \<Rightarrow> rng \<Rightarrow> (tee_avl \<times> rng) result" where
  "tee_remove k t0 r =
     (let t = (begin_stats t0)\<lparr>ta_local := []\<rparr>;
          is_real = (1 - o_equal (ta_root_key t) INVALID_KEY) AND (1 - o_equal k INVALID_KEY);
          s = \<lparr>f_cur_key = o_select_i (is_real \<noteq> 0) (ta_root_key t) INVALID_KEY,
               f_cur_leaf = o_select_i (is_real \<noteq> 0) (ta_root_leaf t) INVALID_LEAF,
               f_found = 0, f_target_idx = - 1, f_target_depth = 0\<rparr>
      in bind_result (for_loop (find_iter k) 0 (ta_max_height t) (s, t, r)) (\<lambda>(s1, t1, r1).
           let found = f_found s1; target_idx = f_target_idx s1;
               tr_key = scan_at found target_idx (r_key \<circ> n_avl) INVALID_KEY (ta_local t1);
               tr_leaf = scan_at found target_idx (r_leaf \<circ> n_avl) INVALID_LEAF (ta_local t1);
               tl_key = scan_at found target_idx (l_key \<circ> n_avl) INVALID_KEY (ta_local t1);
               has_two = found AND (1 - o_equal tl_key INVALID_KEY) AND (1 - o_equal tr_key INVALID_KEY);
               c = \<lparr>c_key = o_select_i (has_two \<noteq> 0) tr_key INVALID_KEY,
                    c_leaf = o_select_i (has_two \<noteq> 0) tr_leaf INVALID_LEAF, c_found = 0, c_idx = - 1\<rparr>
           in bind_result (for_loop (succ_iter k (f_target_depth s1)) 0 (ta_max_height t1) (c, t1, r1)) (\<lambda>(c1, t2, r2).
                let succ_idx = c_idx c1;
                    del_idx = o_select_i (has_two \<noteq> 0) succ_idx target_idx;
                    (nds, root_key) = move_successor has_two target_idx succ_idx (ta_value_size t2)
                                        (ta_local t2, ta_root_key t2);
                    (nds1, root_key1, root_leaf1) = unlink_node found del_idx (nds, root_key, ta_root_leaf t2);
                    t3 = t2\<lparr>ta_local := nds1, ta_root_key := root_key1, ta_root_leaf := root_leaf1\<rparr>;
                    (t4, r3) = reassign_leaves (rebalance_local t3) r2
                in bind_result (pad_ops (2 * ta_max_height t4) (flush_local_to_stash t4) r3) (\<lambda>(t5, r4).
                     Inr (end_stats t5, r4)))))"

section \<open>The initial build\<close>

text \<open>
  \<open>nodes\<close> is the hash map of the code. The recursions over its key pointers carry a depth bound that
  stands for the call stack: it is never reached when the keys are distinct.
\<close>

function build_tree :: "(i32 \<times> bytes) list \<Rightarrow> int \<Rightarrow> int \<Rightarrow> (i32 \<rightharpoonup> avl_node) \<Rightarrow> i32 \<times> (i32 \<rightharpoonup> avl_node)" where
  "build_tree sdata lo hi nodes =
     (if lo > hi then (INVALID_KEY, nodes)
      else
        let mid = lo + (hi - lo) div 2;
            (k, v) = sdata ! nat mid;
            (lk, nodes1) = build_tree sdata lo (mid - 1) nodes;
            (rk, nodes2) = build_tree sdata (mid + 1) hi nodes1
        in (k, nodes2(k \<mapsto> (new_avl_node v)\<lparr>l_key := lk, r_key := rk\<rparr>)))"
  by pat_completeness auto
termination
  by (relation "measure (\<lambda>(sdata, lo, hi, nodes). nat (hi - lo + 1))") auto

declare build_tree.simps [simp del]

fun fix_heights :: "nat \<Rightarrow> i32 \<Rightarrow> (i32 \<rightharpoonup> avl_node) \<Rightarrow> (i32 \<times> (i32 \<rightharpoonup> avl_node)) result" where
  "fix_heights 0 k nodes = (if k = INVALID_KEY then Inr (0, nodes) else Inl StackExhausted)"
| "fix_heights (Suc n) k nodes =
     (if k = INVALID_KEY then Inr (0, nodes)
      else case nodes k of None \<Rightarrow> Inl (NotInMap k)
      | Some nd \<Rightarrow>
          bind_result (fix_heights n (l_key nd) nodes) (\<lambda>(lh, nodes1).
            let nodes1' = nodes1(k := map_option (\<lambda>x. x\<lparr>l_height := lh\<rparr>) (nodes1 k))
            in bind_result (fix_heights n (r_key nd) nodes1') (\<lambda>(rh, nodes2).
              let nodes2' = nodes2(k := map_option (\<lambda>x. x\<lparr>r_height := rh\<rparr>) (nodes2 k))
              in Inr (node_height (the (nodes2' k)), nodes2'))))"

fun assign_build_leaves ::
  "nat \<Rightarrow> tee_avl \<Rightarrow> (i32 \<rightharpoonup> avl_node) \<Rightarrow> i32 \<Rightarrow> i32 \<Rightarrow> (i32 \<rightharpoonup> i32) \<times> rng \<Rightarrow> ((i32 \<rightharpoonup> i32) \<times> rng) result" where
  "assign_build_leaves 0 t nodes k depth lr = (if k = INVALID_KEY then Inr lr else Inl StackExhausted)"
| "assign_build_leaves (Suc n) t nodes k depth lr =
     (if k = INVALID_KEY then Inr lr
      else case random_leaf (oram_for_depth t depth) (snd lr) of (lf, r1) \<Rightarrow>
      case nodes k of None \<Rightarrow> Inl (NotInMap k)
      | Some nd \<Rightarrow>
          bind_result (assign_build_leaves n t nodes (l_key nd) (depth + 1) ((fst lr)(k \<mapsto> lf), r1))
            (assign_build_leaves n t nodes (r_key nd) (depth + 1)))"

fun fix_leaves ::
  "nat \<Rightarrow> (i32 \<rightharpoonup> i32) \<Rightarrow> i32 \<Rightarrow> (i32 \<rightharpoonup> avl_node) \<Rightarrow> (i32 \<rightharpoonup> avl_node) result" where
  "fix_leaves 0 leaves k nodes = (if k = INVALID_KEY then Inr nodes else Inl StackExhausted)"
| "fix_leaves (Suc n) leaves k nodes =
     (if k = INVALID_KEY then Inr nodes
      else case nodes k of None \<Rightarrow> Inl (NotInMap k)
      | Some nd \<Rightarrow>
          if l_key nd \<noteq> INVALID_KEY \<and> leaves (l_key nd) = None then Inl (NotInMap (l_key nd))
          else if r_key nd \<noteq> INVALID_KEY \<and> leaves (r_key nd) = None then Inl (NotInMap (r_key nd))
          else
            let nd1 = (if l_key nd \<noteq> INVALID_KEY then nd\<lparr>l_leaf := the (leaves (l_key nd))\<rparr> else nd);
                nd2 = (if r_key nd \<noteq> INVALID_KEY then nd1\<lparr>r_leaf := the (leaves (r_key nd))\<rparr> else nd1)
            in bind_result (fix_leaves n leaves (l_key nd) (nodes(k \<mapsto> nd2)))
                 (fix_leaves n leaves (r_key nd)))"

text \<open>The nodes above and below the split depth, in the order of the recursion.\<close>

fun partition_nodes ::
  "nat \<Rightarrow> int \<Rightarrow> (i32 \<rightharpoonup> avl_node) \<Rightarrow> i32 \<Rightarrow> i32 \<Rightarrow> ((i32 \<times> bytes) list \<times> (i32 \<times> bytes) list) result" where
  "partition_nodes 0 sd nodes k depth = (if k = INVALID_KEY then Inr ([], []) else Inl StackExhausted)"
| "partition_nodes (Suc n) sd nodes k depth =
     (if k = INVALID_KEY then Inr ([], [])
      else case nodes k of None \<Rightarrow> Inl (NotInMap k)
      | Some nd \<Rightarrow>
          bind_result (partition_nodes n sd nodes (l_key nd) (depth + 1)) (\<lambda>(lu, ll).
          bind_result (partition_nodes n sd nodes (r_key nd) (depth + 1)) (\<lambda>(ru, rl).
            let enc = (k, encode_node nd)
            in Inr (if sint depth < sd then (enc # lu @ ru, ll @ rl) else (lu @ ru, enc # ll @ rl)))))"

definition sort_by_key :: "(i32 \<times> bytes) list \<Rightarrow> (i32 \<times> bytes) list" where
  "sort_by_key data = sort_key (sint \<circ> fst) data"

text \<open>
  \<open>node_order\<close> is the iteration order of the hash map of nodes, which the standard library leaves open.
\<close>

definition tee_init ::
  "(i32 list \<Rightarrow> i32 list) \<Rightarrow> (i32 \<times> bytes) list \<Rightarrow> tee_avl \<Rightarrow> rng \<Rightarrow> (tee_avl \<times> rng) result" where
  "tee_init node_order data t r =
     (if data = [] then Inr (t\<lparr>ta_root_key := INVALID_KEY, ta_root_leaf := INVALID_LEAF\<rparr>, r)
      else
        let sdata = sort_by_key data;
            n = length data;
            (root, nodes) = build_tree sdata 0 (int (length sdata) - 1) Map.empty
        in bind_result (fix_heights n root nodes) (\<lambda>(h, nodes1).
           bind_result (assign_build_leaves n t nodes1 root 0 (Map.empty, r)) (\<lambda>(leaves, r1).
           bind_result (fix_leaves n leaves root nodes1) (\<lambda>nodes2.
           bind_result
             (if ta_split_depth t > 0 then
                bind_result (partition_nodes n (ta_split_depth t) nodes2 root 0) (\<lambda>(ups, lows).
                bind_result (if ups \<noteq> [] then oram_init ups (leaves |` (fst ` set ups)) (ta_upper t) r1
                             else Inr ([], ta_upper t, r1)) (\<lambda>(_, u, r2).
                bind_result (if lows \<noteq> [] then oram_init lows (leaves |` (fst ` set lows)) (ta_lower t) r2
                             else Inr ([], ta_lower t, r2)) (\<lambda>(_, l, r3).
                Inr (t\<lparr>ta_upper := u, ta_lower := l\<rparr>, r3))))
              else
                bind_result (oram_init (map (\<lambda>k. (k, encode_node (the (nodes2 k)))) (node_order (remdups (map fst sdata))))
                               leaves (ta_lower t) r1) (\<lambda>(_, l, r2).
                Inr (t\<lparr>ta_lower := l\<rparr>, r2)))
             (\<lambda>(t1, r2). Inr (t1\<lparr>ta_root_key := root, ta_root_leaf := the (leaves root)\<rparr>, r2))))))"

end
