(* ===== verification/Tee_Omap.thy ===== *)
theory Tee_Omap
  imports Packed_Directory Tee_Avl_Update
begin

text \<open>
  \<open>src/tee/tee_omap.cpp\<close>: the tiered map of the enclave. Hot keys live in an ORAM whose positions the
  packed directory keeps, the others in the AVL map. An access reads both tiers, or, when tier
  membership is public, only the one that holds the key; with maintenance enabled every value carries
  an epoch tail, and at the end of a swap interval one key is demoted and one promoted.
\<close>

section \<open>State\<close>

datatype tee_mode = FullOblivious | TierMembership

record tee_maintenance =
  tm_enabled :: bool
  tm_observation_window :: int
  tm_swap_interval :: int
  tm_promote_threshold :: i32
  tm_demote_threshold :: i32
  tm_staleness_windows :: i32

record tee_config =
  tc_total_keys :: int
  tc_hot_set_size :: int
  tc_value_size :: nat
  tc_bucket_size :: nat
  tc_mode :: tee_mode
  tc_use_split_oram :: bool
  tc_maintenance :: tee_maintenance

definition default_tee_maintenance :: tee_maintenance where
  "default_tee_maintenance = \<lparr>tm_enabled = False, tm_observation_window = 256, tm_swap_interval = 256,
     tm_promote_threshold = 5, tm_demote_threshold = 2, tm_staleness_windows = 3\<rparr>"

definition default_tee_config :: tee_config where
  "default_tee_config = \<lparr>tc_total_keys = 0, tc_hot_set_size = 0, tc_value_size = 256, tc_bucket_size = 4,
     tc_mode = FullOblivious, tc_use_split_oram = True, tc_maintenance = default_tee_maintenance\<rparr>"

record tee_access_result =
  ar_value :: bytes
  ar_found_in_hot :: bool
  ar_hot_pages :: nat
  ar_cold_up_pages :: nat
  ar_cold_low_pages :: nat
  ar_total_pages :: nat

record tee_omap =
  to_config :: tee_config
  to_dir :: packed_directory
  to_hot :: enclave_oram
  to_cold :: tee_avl
  to_hot_capacity :: int
  to_epoch :: i32
  to_accesses :: int
  to_scan :: nat
  to_promo_key :: i32
  to_promo_val :: bytes

abbreviation maintained :: "tee_omap \<Rightarrow> bool" where
  "maintained m \<equiv> tm_enabled (tc_maintenance (to_config m))"

abbreviation user_size :: "tee_omap \<Rightarrow> nat" where
  "user_size m \<equiv> tc_value_size (to_config m)"

section \<open>Helpers\<close>

definition stored_value_size :: "tee_config \<Rightarrow> nat" where
  "stored_value_size c =
     (if tm_enabled (tc_maintenance c) then tc_value_size c + EPOCH_META_SIZE else tc_value_size c)"

definition wrap_value :: "tee_config \<Rightarrow> bytes \<Rightarrow> epoch_meta \<Rightarrow> bytes" where
  "wrap_value c v m =
     (if \<not> tm_enabled (tc_maintenance c) then v
      else encode_with_epoch (pad_bytes v (tc_value_size c)) m)"

definition unwrap_value :: "tee_config \<Rightarrow> bytes \<Rightarrow> bytes \<times> epoch_meta" where
  "unwrap_value c stored =
     (if \<not> tm_enabled (tc_maintenance c) then (stored, default_meta) else decode_epoch stored)"

definition bump_epoch :: "i32 \<Rightarrow> epoch_meta \<Rightarrow> epoch_meta" where
  "bump_epoch current old_meta =
     (let stale = o_less (ep old_meta) current;
          fresh_cnt = cnt old_meta + 1
      in old_meta\<lparr>cnt := o_select_i (stale \<noteq> 0) 1 fresh_cnt,
                  ep := o_select_i (stale \<noteq> 0) current (ep old_meta)\<rparr>)"

section \<open>Construction and initial load\<close>

definition new_tee_omap :: "tee_config \<Rightarrow> tee_omap" where
  "new_tee_omap c =
     (let n = tc_hot_set_size c; N = tc_total_keys c;
          hcap = (if tm_enabled (tc_maintenance c) then max (n * 2) (n + 64) else n);
          sv = stored_value_size c;
          cold_cap = (if tm_enabled (tc_maintenance c) then max (N - n) N else N);
          split_depth = (if tc_use_split_oram c then max 1 (int (ceil_log2 (max n 2))) else 0)
      in \<lparr>to_config = c, to_dir = new_directory (nat hcap),
          to_hot = new_enclave_oram hcap sv (tc_bucket_size c) 7,
          to_cold = new_tee_avl cold_cap sv (tc_bucket_size c) split_depth,
          to_hot_capacity = hcap, to_epoch = 1, to_accesses = 0, to_scan = 0,
          to_promo_key = INVALID_KEY, to_promo_val = []\<rparr>)"

definition split_tiers ::
  "tee_config \<Rightarrow> i32 set \<Rightarrow> (i32 \<times> bytes) list \<Rightarrow> (i32 \<times> bytes) list \<times> (i32 \<times> bytes) list" where
  "split_tiers c hot all_data =
     (let stored = map (\<lambda>(k, v). (k, wrap_value c v default_meta)) all_data
      in (filter (\<lambda>(k, v). k \<in> hot) stored, filter (\<lambda>(k, v). k \<notin> hot) stored))"

text \<open>The unused places of the hot ORAM are filled with the keys \<open>-1, -2, \<dots>\<close>.\<close>

definition hot_fillers :: "int \<Rightarrow> nat \<Rightarrow> (i32 \<times> bytes) list" where
  "hot_fillers missing sv = map (\<lambda>i. (word_of_int (- (int i + 1)), replicate sv 0)) [0..<nat missing]"

definition register_hot :: "(i32 \<times> i32) list \<Rightarrow> packed_directory \<Rightarrow> packed_directory" where
  "register_hot hot_leaves d =
     foldl (\<lambda>d (k, lf). if 0 \<le> sint k then snd (dir_insert d k lf) else d) d hot_leaves"

text \<open>
  \<open>leaf_order\<close> and \<open>node_order\<close> are the iteration orders of the hash maps of the hot leaves and of the
  cold nodes.
\<close>

definition tee_omap_init ::
  "((i32 \<times> i32) list \<Rightarrow> (i32 \<times> i32) list) \<Rightarrow> (i32 list \<Rightarrow> i32 list) \<Rightarrow> (i32 \<times> bytes) list \<Rightarrow> i32 list \<Rightarrow>
   tee_omap \<Rightarrow> rng \<Rightarrow> (tee_omap \<times> rng) result" where
  "tee_omap_init leaf_order node_order all_data hot_keys m r =
     (let (hot_data, cold_data) = split_tiers (to_config m) (set hot_keys) all_data;
          fillers = hot_fillers (to_hot_capacity m - int (length hot_data)) (stored_value_size (to_config m))
      in bind_result (oram_init (hot_data @ fillers) Map.empty (to_hot m) r) (\<lambda>(hot_leaves, hot, r1).
         bind_result (tee_init node_order cold_data (to_cold m) r1) (\<lambda>(cold, r2).
           Inr (m\<lparr>to_dir := register_hot (leaf_order hot_leaves) (to_dir m), to_hot := hot, to_cold := cold\<rparr>, r2))))"

section \<open>The hot tier\<close>

text \<open>The hot ORAM access of a hit or a dummy; the value read comes back with its metadata.\<close>

definition hot_access ::
  "i32 \<Rightarrow> bytes option \<Rightarrow> bool \<Rightarrow> i32 \<Rightarrow> tee_omap \<Rightarrow> rng \<Rightarrow> (bytes \<times> tee_omap \<times> rng) result" where
  "hot_access k new_value hit old_pos m r =
     (let c = to_config m;
          (new_hot_leaf, r1) = random_leaf (to_hot m) r;
          (dummy_leaf, r2) = random_leaf (to_hot m) r1;
          use_leaf = o_select_i hit old_pos dummy_leaf
      in bind_result (read_path_to_stash use_leaf (to_hot m)) (\<lambda>o1.
           let (blk, o2) = extract_from_stash (o_select_i hit k (- 2)) o1;
               (hot_val, hot_meta) = unwrap_value c (val blk);
               new_hot_meta = bump_epoch (to_epoch m) hot_meta;
               wb_val = pad_bytes hot_val (tc_value_size c);
               wb_val' = (case new_value of None \<Rightarrow> wb_val
                          | Some v \<Rightarrow> o_mov_bytes hit wb_val (pad_bytes v (tc_value_size c)));
               wb_stored = pad_bytes (wrap_value c wb_val' new_hot_meta) (stored_value_size c);
               o3 = add_to_stash (o_select_i hit k (key blk)) new_hot_leaf wb_stored o2
           in bind_result (evict_one_path use_leaf o3) (\<lambda>o4.
                Inr (hot_val,
                     m\<lparr>to_hot := o4,
                       to_dir := snd (dir_update_pos (to_dir m) k (o_select_i hit new_hot_leaf INVALID_LEAF))\<rparr>,
                     r2))))"

definition hot_phase ::
  "i32 \<Rightarrow> bytes option \<Rightarrow> tee_omap \<Rightarrow> rng \<Rightarrow> (bytes \<times> bool \<times> nat \<times> tee_omap \<times> rng) result" where
  "hot_phase k new_value m r =
     (let c = to_config m;
          old_pos = dir_lookup (to_dir m) k;
          hit = (1 - o_equal old_pos INVALID_LEAF \<noteq> 0);
          dir_pages = (dir_capacity (to_dir m) * 20 + PAGE_SIZE - 1) div PAGE_SIZE;
          is_tm = (tc_mode c = TierMembership);
          skip_hot_oram = (is_tm \<and> \<not> hit)
      in bind_result (if skip_hot_oram then Inr (replicate (tc_value_size c) 0, m, r)
                      else hot_access k new_value hit old_pos m r) (\<lambda>(hot_val, m1, r1).
           let m2 = (if maintained m1 then m1\<lparr>to_dir := dir_bump_freq (to_dir m1) k (to_epoch m1)\<rparr> else m1);
               pages = dir_pages * 2 + (if skip_hot_oram then 0 else pages_touched (eo_last_stats (to_hot m2)));
               value = o_mov_bytes hit (replicate (tc_value_size c) 0) (pad_bytes hot_val (tc_value_size c))
           in Inr (value, hit, pages, m2, r1)))"

section \<open>The cold tier\<close>

definition cold_transform :: "tee_config \<Rightarrow> i32 \<Rightarrow> bool \<Rightarrow> bytes option \<Rightarrow> bytes \<Rightarrow> bytes" where
  "cold_transform c epoch cold_real new_value old_stored =
     (let (cv, cm) = unwrap_value c old_stored;
          nm = bump_epoch epoch cm;
          wv = pad_bytes cv (tc_value_size c);
          wv' = (case new_value of None \<Rightarrow> wv
                 | Some v \<Rightarrow> o_mov_bytes cold_real wv (pad_bytes v (tc_value_size c)))
      in wrap_value c wv' nm)"

definition cold_phase ::
  "i32 \<Rightarrow> bytes option \<Rightarrow> bool \<Rightarrow> bytes \<Rightarrow> tee_omap \<Rightarrow> rng \<Rightarrow> (bytes \<times> bytes \<times> nat \<times> nat \<times> tee_omap \<times> rng) result" where
  "cold_phase k new_value hit value m r =
     (let c = to_config m;
          cold_real = \<not> hit;
          skip_cold = (tc_mode c = TierMembership \<and> hit)
      in if skip_cold then Inr (value, replicate (stored_value_size c) 0, 0, 0, m, r)
         else
           let transform = (if maintained m then Some (cold_transform c (to_epoch m) cold_real new_value) else None);
               update = (if \<not> maintained m then new_value else None)
           in bind_result (search_or_dummy k cold_real update transform (to_cold m) r) (\<lambda>(cold_stored, found, t, r1).
                let padded_cold = pad_bytes (fst (unwrap_value c cold_stored)) (tc_value_size c)
                in Inr (o_mov_bytes cold_real value padded_cold, cold_stored,
                        upper_pages (ta_last_stats t), lower_pages (ta_last_stats t), m\<lparr>to_cold := t\<rparr>, r1)))"

section \<open>Promotion and demotion\<close>

definition tee_promote :: "i32 \<Rightarrow> bytes \<Rightarrow> tee_omap \<Rightarrow> rng \<Rightarrow> (tee_omap \<times> rng) result" where
  "tee_promote k v m r =
     (let c = to_config m;
          is_real = (1 - o_equal k INVALID_KEY \<noteq> 0)
      in bind_result (tee_remove k (to_cold m) r) (\<lambda>(cold, r1).
           let (lf, r2) = random_leaf (to_hot m) r1
           in bind_result (read_path_to_stash lf (to_hot m)) (\<lambda>o1.
                let stored = pad_bytes (wrap_value c v default_meta) (stored_value_size c);
                    o2 = add_to_stash (o_select_i is_real k INVALID_KEY) lf stored o1
                in bind_result (evict_one_path lf o2) (\<lambda>o3.
                     Inr (m\<lparr>to_cold := cold, to_hot := o3, to_dir := snd (dir_insert (to_dir m) k lf)\<rparr>, r2)))))"

definition tee_demote :: "i32 \<Rightarrow> tee_omap \<Rightarrow> rng \<Rightarrow> (tee_omap \<times> rng) result" where
  "tee_demote k m r =
     (let c = to_config m;
          is_real = (1 - o_equal k INVALID_KEY \<noteq> 0);
          old_leaf = dir_lookup (to_dir m) k;
          (rl, r1) = random_leaf (to_hot m) r;
          use_old = o_select_i is_real old_leaf rl
      in bind_result (read_path_to_stash use_old (to_hot m)) (\<lambda>o1.
           let (blk, o2) = extract_from_stash (o_select_i is_real k (- 2)) o1;
               (new_leaf, r2) = random_leaf (to_hot m) r1;
               o3 = add_to_stash (o_select_i is_real INVALID_KEY (key blk)) new_leaf (val blk) o2
           in bind_result (evict_one_path use_old o3) (\<lambda>o4.
                let (v, meta) = unwrap_value c (val blk);
                    stored = pad_bytes (wrap_value c v meta) (stored_value_size c)
                in bind_result (tee_insert (o_select_i is_real k INVALID_KEY) stored (to_cold m) r2) (\<lambda>(cold, r3).
                     Inr (m\<lparr>to_hot := o4, to_dir := snd (dir_remove (to_dir m) k), to_cold := cold\<rparr>, r3)))))"

definition do_maintenance_step :: "tee_omap \<Rightarrow> rng \<Rightarrow> (tee_omap \<times> rng) result" where
  "do_maintenance_step m r =
     (let mc = tc_maintenance (to_config m);
          demote_key = dir_find_demote_candidate (to_dir m) (to_scan m) (to_epoch m)
                         (tm_staleness_windows mc) (tm_demote_threshold mc);
          m1 = m\<lparr>to_scan := (to_scan m + 1) mod max (dir_capacity (to_dir m)) 1\<rparr>
      in bind_result (tee_demote demote_key m1 r) (\<lambda>(m2, r1).
           let promo_key = to_promo_key m2;
               already_hot = 1 - o_equal (dir_lookup (to_dir m2) promo_key) INVALID_LEAF;
               capacity_ok = (if dir_count (to_dir m2) < to_hot_capacity m2 then 1 else 0);
               do_promo = (1 - o_equal promo_key INVALID_KEY) AND (1 - already_hot) AND capacity_ok;
               eff_key = o_select_i (do_promo \<noteq> 0) promo_key INVALID_KEY
           in bind_result (tee_promote eff_key (to_promo_val m2) m2 r1) (\<lambda>(m3, r2).
                Inr (m3\<lparr>to_promo_key := INVALID_KEY, to_promo_val := replicate (user_size m3) 0\<rparr>, r2))))"

section \<open>The access\<close>

text \<open>Frequency tracking: the last cold key that is frequent enough waits for promotion.\<close>

definition track_access ::
  "i32 \<Rightarrow> bool \<Rightarrow> bytes \<Rightarrow> tee_omap \<Rightarrow> rng \<Rightarrow> (tee_omap \<times> rng) result" where
  "track_access k hit cold_stored m r =
     (if \<not> maintained m then Inr (m, r)
      else
        let c = to_config m; mc = tc_maintenance c;
            skip_cold = (tc_mode c = TierMembership \<and> hit);
            cold_meta = (if skip_cold then default_meta else snd (unwrap_value c cold_stored));
            cold_freq_ok = 1 - o_less (cnt cold_meta) (tm_promote_threshold mc);
            candidate = ((of_bool (\<not> hit) AND cold_freq_ok) \<noteq> 0);
            pv = pad_bytes (if skip_cold then replicate (tc_value_size c) 0 else fst (unwrap_value c cold_stored))
                   (tc_value_size c);
            m1 = m\<lparr>to_promo_key := o_mov_i candidate (to_promo_key m) k,
                   to_promo_val := o_mov_bytes candidate (to_promo_val m) pv,
                   to_accesses := to_accesses m + 1\<rparr>
        in if tm_observation_window mc = 0 then Inl DivideByZero
           else
             let m2 = m1\<lparr>to_epoch := word_of_int (to_accesses m1 sdiv tm_observation_window mc)\<rparr>
             in if tm_swap_interval mc = 0 then Inl DivideByZero
                else if to_accesses m2 smod tm_swap_interval mc = 0 \<and> to_accesses m2 > 0
                then do_maintenance_step m2 r
                else Inr (m2, r))"

text \<open>
  The two callbacks are the first component: the answers given so far, with the tier flag, in their
  order. A failure of the cold phase comes after the early answer.
\<close>

definition tee_access ::
  "i32 \<Rightarrow> bytes option \<Rightarrow> tee_omap \<Rightarrow> rng \<Rightarrow>
   (bytes \<times> bool) list \<times> (tee_access_result \<times> tee_omap \<times> rng) result" where
  "tee_access k new_value m r =
     (case hot_phase k new_value m r of
        Inl e \<Rightarrow> ([], Inl e)
      | Inr (early, hit, hot_pages, m1, r1) \<Rightarrow>
          (case cold_phase k new_value hit early m1 r1 of
             Inl e \<Rightarrow> ([(early, hit)], Inl e)
           | Inr (value, cold_stored, up, low, m2, r2) \<Rightarrow>
               ([(early, hit), (value, \<not> hit)],
                bind_result (track_access k hit cold_stored m2 r2) (\<lambda>(m3, r3).
                  Inr (\<lparr>ar_value = value, ar_found_in_hot = hit, ar_hot_pages = hot_pages,
                        ar_cold_up_pages = up, ar_cold_low_pages = low,
                        ar_total_pages = hot_pages + up + low\<rparr>, m3, r3)))))"

definition hot_count :: "tee_omap \<Rightarrow> int" where
  "hot_count m = dir_count (to_dir m)"

definition is_hot :: "tee_omap \<Rightarrow> i32 \<Rightarrow> bool" where
  "is_hot m k \<longleftrightarrow> dir_lookup (to_dir m) k \<noteq> INVALID_LEAF"

end
