(* ===== verification/Tee_Server.thy ===== *)
theory Tee_Server
  imports Sockets Tee_Omap
begin

text \<open>
  \<open>src/tee/tee_server.cpp\<close>: the wire format of the enclave server, the framing of messages on a socket,
  the loop of a connection, and the client. Opening sockets is left out; a connection is a \<open>socket\<close>.
\<close>

section \<open>Requests and responses\<close>

text \<open>The characters \<open>R\<close>, \<open>W\<close>, \<open>H\<close> and \<open>F\<close> of the protocol.\<close>

definition op_read :: byte where "op_read = 0x52"
definition op_write :: byte where "op_write = 0x57"
definition phase_hot :: byte where "phase_hot = 0x48"
definition phase_final :: byte where "phase_final = 0x46"

record tee_request =
  rq_op :: byte
  rq_key :: i32
  rq_value :: bytes

record tee_response =
  rs_phase :: byte
  rs_found :: bool
  rs_value :: bytes

definition default_request :: tee_request where
  "default_request = \<lparr>rq_op = op_read, rq_key = INVALID_KEY, rq_value = []\<rparr>"

definition default_response :: tee_response where
  "default_response = \<lparr>rs_phase = phase_hot, rs_found = False, rs_value = []\<rparr>"

definition serialize_request :: "tee_request \<Rightarrow> bytes" where
  "serialize_request req =
     rq_op req # int_to_bytes (rq_key req) @ int_to_bytes (of_nat (length (rq_value req))) @ rq_value req"

definition deserialize_request :: "bytes \<Rightarrow> tee_request" where
  "deserialize_request data =
     (if length data < 1 + 4 + 4 then default_request
      else
        let req = default_request\<lparr>rq_op := hd data, rq_key := load_int 1 data\<rparr>;
            vlen = sint (load_int (1 + 4) data)
        in if vlen > 0 \<and> length data \<ge> 1 + 2 * 4 + nat vlen
           then req\<lparr>rq_value := take (nat vlen) (drop (1 + 2 * 4) data)\<rparr>
           else req)"

definition serialize_response :: "tee_response \<Rightarrow> bytes" where
  "serialize_response resp =
     rs_phase resp # (if rs_found resp then 1 else 0)
       # int_to_bytes (of_nat (length (rs_value resp))) @ rs_value resp"

definition deserialize_response :: "bytes \<Rightarrow> tee_response" where
  "deserialize_response data =
     (if length data < 2 + 4 then default_response
      else
        let resp = default_response\<lparr>rs_phase := hd data, rs_found := (data ! 1 \<noteq> 0)\<rparr>;
            vlen = sint (load_int 2 data)
        in if vlen > 0 \<and> length data \<ge> 2 + 4 + nat vlen
           then resp\<lparr>rs_value := take (nat vlen) (drop (2 + 4) data)\<rparr>
           else resp)"

section \<open>Messages on a socket\<close>

text \<open>A \<open>uint32_t\<close> length, then the bytes; a failed \<open>send\<close> throws, a failed \<open>recv\<close> is a \<open>false\<close>.\<close>

definition tee_send_msg :: "bytes \<Rightarrow> socket \<Rightarrow> unit result \<times> socket" where
  "tee_send_msg msg s =
     (let len = (of_nat (length msg) :: 32 word)
      in case send_loop (int_to_bytes len) s of
           (False, s1) \<Rightarrow> (Inl (TransportError ''send failed''), s1)
         | (True, s1) \<Rightarrow>
             if len > 0 then
               (case send_loop (take (unat len) msg) s1 of
                  (False, s2) \<Rightarrow> (Inl (TransportError ''send failed''), s2)
                | (True, s2) \<Rightarrow> (Inr (), s2))
             else (Inr (), s1))"

definition recv_all :: "nat \<Rightarrow> socket \<Rightarrow> bytes option \<times> socket" where
  "recv_all n s =
     (case recv_loop n s of (Received b, s1) \<Rightarrow> (Some b, s1) | (_, s1) \<Rightarrow> (None, s1))"

definition tee_recv_msg :: "socket \<Rightarrow> bytes option \<times> socket" where
  "tee_recv_msg s =
     (case recv_all 4 s of
        (None, s1) \<Rightarrow> (None, s1)
      | (Some hdr, s1) \<Rightarrow>
          let len = unat (load_int 0 hdr)
          in if len > 0 then recv_all len s1 else (Some [], s1))"

section \<open>The server\<close>

fun send_answers :: "tee_response list \<Rightarrow> socket \<Rightarrow> unit result \<times> socket" where
  "send_answers [] s = (Inr (), s)"
| "send_answers (a # as) s =
     (case tee_send_msg (serialize_response a) s of
        (Inl e, s1) \<Rightarrow> (Inl e, s1)
      | (Inr _, s1) \<Rightarrow> send_answers as s1)"

text \<open>
  The two callbacks of an access send its answers, the early one before the cold tier is touched: an
  access that fails later has still sent it.
\<close>

definition answer_of :: "byte \<times> bytes \<times> bool \<Rightarrow> tee_response" where
  "answer_of = (\<lambda>(ph, v, found). \<lparr>rs_phase = ph, rs_found = found, rs_value = v\<rparr>)"

definition serve_request :: "tee_request \<Rightarrow> tee_omap \<Rightarrow> rng \<Rightarrow> socket \<Rightarrow> (tee_omap \<times> rng) result \<times> socket" where
  "serve_request req m r s =
     (let write_val = (if rq_op req = op_write then Some (rq_value req) else None);
          (events, outcome) = tee_access (rq_key req) write_val m r
      in case send_answers (map answer_of (zip [phase_hot, phase_final] events)) s of
           (Inl e, s1) \<Rightarrow> (Inl e, s1)
         | (Inr _, s1) \<Rightarrow> (bind_result outcome (\<lambda>(res, m', r'). Inr (m', r')), s1))"

text \<open>Every message takes its header off the stream, so a connection ends with the stream.\<close>

lemma tee_send_msg_arriving: "tee_send_msg msg s = (x, s') \<Longrightarrow> arriving s' = arriving s"
  by (auto simp: tee_send_msg_def Let_def split: prod.splits bool.splits if_splits dest!: send_loop_arriving)

lemma send_answers_arriving: "send_answers as s = (x, s') \<Longrightarrow> arriving s' = arriving s"
  by (induction as s rule: send_answers.induct)
    (auto split: prod.splits sum.splits dest!: tee_send_msg_arriving)

lemma serve_request_arriving: "serve_request req m r s = (x, s') \<Longrightarrow> arriving s' = arriving s"
  by (auto simp: serve_request_def Let_def split: prod.splits sum.splits dest!: send_answers_arriving)

lemma tee_recv_msg_shrinks:
  assumes "tee_recv_msg s = (Some data, s')"
  shows "length (stream s') < length (stream s)"
proof -
  obtain hdr s1 where h: "recv_loop 4 s = (Received hdr, s1)"
    using assms by (auto simp: tee_recv_msg_def recv_all_def split: prod.splits received.splits option.splits)
  have less: "length (stream s1) < length (stream s)" using recv_loop_shrinks [OF h] by simp
  have "length (stream s') \<le> length (stream s1)"
    using assms h
    by (auto simp: tee_recv_msg_def recv_all_def Let_def split: prod.splits received.splits if_splits
        dest: recv_loop_shrinks)
  with less show ?thesis by simp
qed

function handle_connection :: "tee_omap \<Rightarrow> rng \<Rightarrow> socket \<Rightarrow> (tee_omap \<times> rng) result \<times> socket" where
  "handle_connection m r s =
     (case tee_recv_msg s of
        (None, s1) \<Rightarrow> (Inr (m, r), s1)
      | (Some req_data, s1) \<Rightarrow>
          (case serve_request (deserialize_request req_data) m r s1 of
             (Inl e, s2) \<Rightarrow> (Inl e, s2)
           | (Inr (m', r'), s2) \<Rightarrow> handle_connection m' r' s2))"
  by pat_completeness auto
termination
proof (relation "measure (\<lambda>(m, r, s). length (stream s))", simp, simp only: in_measure)
  fix m :: tee_omap and r s s1 data s2 m' r' and b :: "tee_omap \<times> rng"
  assume a: "(Some data, s1) = tee_recv_msg s" "(Inr b, s2) = serve_request (deserialize_request data) m r s1"
  have "stream s2 = stream s1"
    using serve_request_arriving [OF a(2) [symmetric]] by (simp add: stream_def)
  then show "(case (m', r', s2) of (m, r, s) \<Rightarrow> length (stream s)) < (case (m, r, s) of (m, r, s) \<Rightarrow> length (stream s))"
    using tee_recv_msg_shrinks [OF a(1) [symmetric]] by simp
qed

declare handle_connection.simps [simp del]

section \<open>The client\<close>

definition client_request :: "tee_request \<Rightarrow> socket \<Rightarrow> (tee_response \<times> tee_response) result \<times> socket" where
  "client_request req s =
     (case tee_send_msg (serialize_request req) s of
        (Inl e, s1) \<Rightarrow> (Inl e, s1)
      | (Inr _, s1) \<Rightarrow>
          (case tee_recv_msg s1 of
             (None, s2) \<Rightarrow> (Inl (TransportError ''recv early response failed''), s2)
           | (Some d1, s2) \<Rightarrow>
               (case tee_recv_msg s2 of
                  (None, s3) \<Rightarrow> (Inl (TransportError ''recv final response failed''), s3)
                | (Some d2, s3) \<Rightarrow> (Inr (deserialize_response d1, deserialize_response d2), s3))))"

definition client_read :: "i32 \<Rightarrow> socket \<Rightarrow> (tee_response \<times> tee_response) result \<times> socket" where
  "client_read k s = client_request (default_request\<lparr>rq_op := op_read, rq_key := k\<rparr>) s"

definition client_write :: "i32 \<Rightarrow> bytes \<Rightarrow> socket \<Rightarrow> (tee_response \<times> tee_response) result \<times> socket" where
  "client_write k v s = client_request (default_request\<lparr>rq_op := op_write, rq_key := k, rq_value := v\<rparr>) s"

end
