(* ===== verification/Enclave_Reinsert.thy ===== *)
theory Enclave_Reinsert
  imports Enclave_Store
begin

text \<open>
  The low-level ORAM steps in the order the tiered map makes them: a block is taken out of a path that
  was read, a block is added to the stash, and only then the path is written back.
\<close>

lemma add_to_stash_tree [simp]: "eo_tree (add_to_stash k lf v o1) = eo_tree o1"
  by (simp add: add_to_stash_def)

lemma take_out:
  assumes inv: "eo_inv o1" and lf: "leaf_ok o1 lf" and k: "k \<noteq> INVALID_KEY"
  obtains o2 b o3 where "read_path_to_stash lf o1 = Inr o2" "extract_from_stash k o2 = (b, o3)"
    "eo_inv o3" "same_geometry o1 o3" "path_empty o3 (path_of o1 lf)"
    "(\<exists>l v. eo_map o1 k = Some (l, v) \<and> b = \<lparr>key = k, leaf = l, val = v\<rparr> \<and> eo_map o3 = (eo_map o1)(k := None))
     \<or> (b = empty_slot (eo_value_size o1) \<and> eo_map o3 = eo_map o1 \<and> (\<forall>v. eo_map o1 k \<noteq> Some (lf, v)))"
proof -
  obtain o2 where o2: "read_path lf o1 = Inr (path_of o1 lf, o2)" "eo_inv o2" "same_geometry o1 o2"
    "path_empty o2 (path_of o1 lf)" "mset (live (eo_blocks o2)) = mset (live (eo_blocks o1))"
    using read_path_spec [OF inv lf] by metis
  note g2 = same_geometryD [OF o2(3)]
  have m2: "eo_map o2 = eo_map o1"
    unfolding eo_map_def by (rule block_map_mset [OF o2(5)]) (use o2(2) in \<open>simp add: eo_inv_def\<close>)
  obtain b o3 where e: "extract_from_stash k o2 = (b, o3)" by fastforce
  have tree: "eo_tree o3 = eo_tree o2"
    using e by (auto simp: extract_from_stash_def split: prod.splits)
  then have empty: "path_empty o3 (path_of o1 lf)"
    using o2(4) by (simp add: path_empty_def)
  have core2: "eo_core o2" using o2(2) by (simp add: eo_inv_core)
  have read: "read_path_to_stash lf o1 = Inr o2" using o2(1) by (simp add: read_path_to_stash_def)
  show thesis
  proof (cases "k \<in> key ` set (concat (eo_tree o2))")
    case False
    have o3: "eo_core o3" "same_geometry o2 o3" "eo_map o3 = (eo_map o1)(k := None)"
      "length (eo_stash o3) = length (eo_stash o2)"
      "case eo_map o1 k of None \<Rightarrow> b = empty_slot (eo_value_size o1)
         | Some (l, v) \<Rightarrow> b = \<lparr>key = k, leaf = l, val = v\<rparr>"
      using extract_from_stash_spec [OF core2 k False] unfolding m2 g2 e by simp_all
    have geo: "same_geometry o1 o3" using same_geometry_trans o2(3) o3(2) by blast
    have inv3: "eo_inv o3"
      using o3 o2(2) same_geometryD [OF o3(2)] by (simp add: eo_inv_core)
    have none: "(eo_map o1)(k := None) = eo_map o1" if "eo_map o1 k = None" using that by auto
    show thesis
      by (rule that [OF read e inv3 geo empty])
        (use o3(3,5) none in \<open>cases "eo_map o1 k"; auto\<close>)
  next
    case True
    have off: "\<forall>v. eo_map o1 k \<noteq> Some (lf, v)"
    proof
      fix v
      show "eo_map o1 k \<noteq> Some (lf, v)"
        using read_out_of_tree [OF o2(2), of lf k] o2(4) True k by (auto simp: g2 m2)
    qed
    have out: "\<forall>b\<in>set (eo_stash o2). key b \<noteq> k"
    proof (rule ccontr)
      assume "\<not> ?thesis"
      then obtain b where "b \<in> set (eo_stash o2)" "key b = k" by auto
      with True k core2 show False
        by (fastforce simp: eo_core_def eo_blocks_def keys_distinct_def live_def)
    qed
    have size: "same_size (eo_value_size o2) (eo_stash o2)"
      using core2 by (auto simp: eo_core_def eo_blocks_def same_size_def)
    have kd: "keys_distinct (eo_stash o2)"
      using core2 by (auto simp: eo_core_def eo_blocks_def keys_distinct_def)
    have "find (\<lambda>b. key b = k) (eo_stash o2) = None" using out by (simp add: find_None_iff)
    moreover have "map (\<lambda>b. if key b = k then b\<lparr>key := INVALID_KEY\<rparr> else b) (eo_stash o2) = eo_stash o2"
      using out by (intro map_idI) auto
    moreover have "length (val (empty_slot (eo_value_size o2))) = eo_value_size o2"
      by (simp add: empty_slot_def)
    ultimately have "extract_from_stash k o2 = (empty_slot (eo_value_size o2), o2)"
      using extract_scan_spec [OF size _ k kd] by (simp add: extract_from_stash_def)
    then have "b = empty_slot (eo_value_size o1)" "o3 = o2" using e by (simp_all add: g2)
    then show thesis
      using that [OF read e] o2(2,3) empty m2 off by auto
  qed
qed

lemma put_back:
  assumes inv: "eo_inv o1" and lf: "leaf_ok o1 lf" and empty: "path_empty o1 (path_of o1 lf)"
  shows "safe_run (evict_one_path lf o1) (\<lambda>o2. eo_inv o2 \<and> same_geometry o1 o2 \<and> eo_map o2 = eo_map o1)"
proof -
  have run: "evict_one_path lf o1 = evict_path (path_of o1 lf) o1"
    using path_of_eq [of o1 lf] inv by (simp add: evict_one_path_def eo_inv_def)
  from inv lf empty show ?thesis
  proof (cases rule: evict_path_spec)
    case (kept o2)
    have "eo_map o2 = eo_map o1"
      unfolding eo_map_def by (rule block_map_mset [OF kept(4)]) (use kept(2) in \<open>simp add: eo_inv_def\<close>)
    with kept show ?thesis by (simp add: run)
  qed (simp add: run)
qed

text \<open>
  A block is put under a new leaf, in the place of the one that was taken out: \<open>add_evict\<close> for a key
  that is not stored, and for a dummy.
\<close>

lemma add_evict:
  assumes inv: "eo_inv o1" and lf: "leaf_ok o1 lf" and empty: "path_empty o1 (path_of o1 lf)"
    and len: "length v \<le> eo_value_size o1"
    and new: "k \<noteq> INVALID_KEY \<longrightarrow> eo_map o1 k = None \<and> leaf_ok o1 nl"
  shows "safe_run (evict_one_path lf (add_to_stash k nl v o1)) (\<lambda>o2. eo_inv o2 \<and> same_geometry o1 o2
    \<and> eo_map o2 = (if k = INVALID_KEY then eo_map o1 else (eo_map o1)(k \<mapsto> (nl, pad_bytes v (eo_value_size o1)))))"
proof -
  let ?o = "add_to_stash k nl v o1"
  have o: "eo_inv ?o" "same_geometry o1 ?o"
    "eo_map ?o = (if k = INVALID_KEY then eo_map o1 else (eo_map o1)(k \<mapsto> (nl, pad_bytes v (eo_value_size o1))))"
    using add_dummy_spec [OF inv len, of nl] add_new_spec [OF inv, of k nl v] new len
    by (cases "k = INVALID_KEY"; simp)+
  note g = same_geometryD [OF o(2)]
  have "path_empty ?o (path_of ?o lf)" using empty by (simp add: path_empty_def g)
  then have "safe_run (evict_one_path lf ?o) (\<lambda>o2. eo_inv o2 \<and> same_geometry ?o o2 \<and> eo_map o2 = eo_map ?o)"
    using put_back [OF o(1)] lf by (simp add: g)
  then show ?thesis
    by (rule safe_run_mono) (use o(3) same_geometry_trans [OF o(2)] in auto)
qed

end
