(* ===== verification/Avl_Paths.thy ===== *)
theory Avl_Paths
  imports Avl_Node "HOL-Library.Tree"
begin

text \<open>
  The shape of an AVL map whose nodes live in an ORAM. \<open>tree_at\<close> says that the pointers from a key and
  a leaf describe a tree; \<open>chain\<close> says the same of a tree whose upper part along one path has been taken
  out into local nodes, with a hole below the last one. Both are about a view \<open>om\<close> of the stored blocks,
  by depth and key, so they serve the enclave map and the client map alike.
\<close>

type_synonym node_view = "nat \<Rightarrow> i32 \<rightharpoonup> i32 \<times> bytes"
type_synonym kv_tree = "(i32 \<times> bytes) tree"

definition keys_of :: "kv_tree \<Rightarrow> i32 set" where
  "keys_of t = fst ` set_tree t"

definition tree_distinct :: "kv_tree \<Rightarrow> bool" where
  "tree_distinct t \<longleftrightarrow> distinct (map fst (inorder t))"

lemma keys_of_simps [simp]:
  "keys_of Leaf = {}" "keys_of (Node l (k, v) r) = insert k (keys_of l \<union> keys_of r)"
  by (auto simp: keys_of_def)

lemma tree_distinct_simps [simp]:
  "tree_distinct Leaf"
  "tree_distinct (Node l (k, v) r) \<longleftrightarrow>
     tree_distinct l \<and> tree_distinct r \<and> k \<notin> keys_of l \<and> k \<notin> keys_of r \<and> keys_of l \<inter> keys_of r = {}"
  by (auto simp: tree_distinct_def keys_of_def)

text \<open>\<open>vs\<close> says which values a node may hold; the enclave map holds values of one size.\<close>

definition sized :: "nat \<Rightarrow> bytes \<Rightarrow> bool" where
  [simp]: "sized n v \<longleftrightarrow> length v = n"

fun tree_at :: "node_view \<Rightarrow> (bytes \<Rightarrow> bool) \<Rightarrow> nat \<Rightarrow> i32 \<Rightarrow> i32 \<Rightarrow> kv_tree \<Rightarrow> bool" where
  "tree_at om vs d k lf Leaf \<longleftrightarrow> k = INVALID_KEY"
| "tree_at om vs d k lf (Node l (k', v) r) \<longleftrightarrow>
     k = k' \<and> k \<noteq> INVALID_KEY \<and> vs v
     \<and> (\<exists>nd. om d k = Some (lf, encode_node nd) \<and> avl_data nd = v
          \<and> tree_at om vs (Suc d) (l_key nd) (l_leaf nd) l
          \<and> tree_at om vs (Suc d) (r_key nd) (r_leaf nd) r)"

lemma tree_at_cong:
  "tree_at om vs d k lf t \<Longrightarrow> (\<And>j x. x \<in> keys_of t \<Longrightarrow> om' j x = om j x) \<Longrightarrow> tree_at om' vs d k lf t"
proof (induction t arbitrary: d k lf)
  case (Node l kv r)
  obtain k' v where kv: "kv = (k', v)" by fastforce
  then obtain nd where nd: "om d k = Some (lf, encode_node nd)" "avl_data nd = v" "k = k'"
    "k \<noteq> INVALID_KEY" "vs v"
    "tree_at om vs (Suc d) (l_key nd) (l_leaf nd) l" "tree_at om vs (Suc d) (r_key nd) (r_leaf nd) r"
    using Node.prems(1) by auto
  have "tree_at om' vs (Suc d) (l_key nd) (l_leaf nd) l"
    by (rule Node.IH(1) [OF nd(6)]) (use Node.prems(2) kv in auto)
  moreover have "tree_at om' vs (Suc d) (r_key nd) (r_leaf nd) r"
    by (rule Node.IH(2) [OF nd(7)]) (use Node.prems(2) kv in auto)
  moreover have "om' d k = om d k" using Node.prems(2) kv nd(3) by simp
  ultimately show ?case using nd kv by auto
qed simp

lemma tree_at_valid: "tree_at om vs d k lf t \<Longrightarrow> x \<in> keys_of t \<Longrightarrow> x \<noteq> INVALID_KEY"
  by (induction om vs d k lf t rule: tree_at.induct) auto

lemma tree_at_root: "tree_at om vs d k lf t \<Longrightarrow> k \<noteq> INVALID_KEY \<Longrightarrow> k \<in> keys_of t"
  by (cases t) auto

text \<open>A path of local nodes above a hole.\<close>

fun chain ::
  "node_view \<Rightarrow> (bytes \<Rightarrow> bool) \<Rightarrow> nat \<Rightarrow> local_node list \<Rightarrow> i32 \<Rightarrow> i32 \<Rightarrow> i32 \<Rightarrow> kv_tree \<Rightarrow> i32 \<Rightarrow> i32 \<Rightarrow> kv_tree \<Rightarrow> bool" where
  "chain om vs d [] p k lf t hk hl h \<longleftrightarrow> k = hk \<and> lf = hl \<and> t = h \<and> tree_at om vs d k lf t"
| "chain om vs d (e # es) p k lf Leaf hk hl h \<longleftrightarrow> False"
| "chain om vs d (e # es) p k lf (Node l (k', v) r) hk hl h \<longleftrightarrow>
     k = k' \<and> k \<noteq> INVALID_KEY \<and> vs v \<and> om d k = None
     \<and> n_key e = k \<and> n_leaf e = lf \<and> n_parent e = p \<and> n_depth e = of_nat d \<and> avl_data (n_avl e) = v
     \<and> (chain om vs (Suc d) es k (l_key (n_avl e)) (l_leaf (n_avl e)) l hk hl h
          \<and> tree_at om vs (Suc d) (r_key (n_avl e)) (r_leaf (n_avl e)) r
        \<or> tree_at om vs (Suc d) (l_key (n_avl e)) (l_leaf (n_avl e)) l
          \<and> chain om vs (Suc d) es k (r_key (n_avl e)) (r_leaf (n_avl e)) r hk hl h)"

lemma chain_cases [consumes 1, case_names left right]:
  assumes "chain om vs d (e # es) p k lf t hk hl h"
  obtains (left) l v r where "t = Node l (k, v) r"
      "chain om vs (Suc d) es k (l_key (n_avl e)) (l_leaf (n_avl e)) l hk hl h"
      "tree_at om vs (Suc d) (r_key (n_avl e)) (r_leaf (n_avl e)) r"
      "k \<noteq> INVALID_KEY" "vs v" "om d k = None" "n_key e = k" "n_leaf e = lf" "n_parent e = p"
      "n_depth e = of_nat d" "avl_data (n_avl e) = v"
  | (right) l v r where "t = Node l (k, v) r"
      "tree_at om vs (Suc d) (l_key (n_avl e)) (l_leaf (n_avl e)) l"
      "chain om vs (Suc d) es k (r_key (n_avl e)) (r_leaf (n_avl e)) r hk hl h"
      "k \<noteq> INVALID_KEY" "vs v" "om d k = None" "n_key e = k" "n_leaf e = lf" "n_parent e = p"
      "n_depth e = of_nat d" "avl_data (n_avl e) = v"
proof (cases t)
  case (Node l kv r)
  obtain k' v where "kv = (k', v)" by fastforce
  with Node assms that show ?thesis by auto
qed (use assms in simp)

lemma chain_keys:
  "chain om vs d es p k lf t hk hl h \<Longrightarrow> n_key ` set es \<subseteq> keys_of t \<and> keys_of h \<subseteq> keys_of t
     \<and> (\<forall>x\<in>n_key ` set es. x \<noteq> INVALID_KEY) \<and> tree_at om vs (d + length es) hk hl h"
proof (induction es arbitrary: d p k lf t)
  case (Cons e es)
  from Cons.prems show ?case
  proof (cases rule: chain_cases)
    case (left l v r)
    with Cons.IH [OF left(2)] show ?thesis by auto
  next
    case (right l v r)
    with Cons.IH [OF right(3)] show ?thesis by auto
  qed
qed auto

lemma chain_distinct:
  "chain om vs d es p k lf t hk hl h \<Longrightarrow> tree_distinct t \<Longrightarrow>
   n_key ` set es \<inter> keys_of h = {} \<and> distinct (map n_key es) \<and> tree_distinct h"
proof (induction es arbitrary: d p k lf t)
  case (Cons e es)
  from Cons.prems(1) show ?case
  proof (cases rule: chain_cases)
    case (left l v r)
    with Cons.IH [OF left(2)] chain_keys [OF left(2)] Cons.prems(2) show ?thesis by auto
  next
    case (right l v r)
    with Cons.IH [OF right(3)] chain_keys [OF right(3)] Cons.prems(2) show ?thesis by auto
  qed
qed auto

lemma tree_at_Leaf_iff: "tree_at om vs d k lf t \<Longrightarrow> t = Leaf \<longleftrightarrow> k = INVALID_KEY"
  by (cases t) auto

lemma chain_entry:
  "chain om vs d es p k lf t hk hl h \<Longrightarrow> i < length es \<Longrightarrow>
   om (d + i) (n_key (es ! i)) = None \<and> n_depth (es ! i) = of_nat (d + i) \<and> vs (avl_data (n_avl (es ! i)))"
proof (induction es arbitrary: d p k lf t i)
  case (Cons e es)
  from Cons.prems(1) show ?case
  proof (cases rule: chain_cases)
    case (left l v r)
    then show ?thesis using Cons.IH [OF left(2)] Cons.prems(2) by (cases i) auto
  next
    case (right l v r)
    then show ?thesis using Cons.IH [OF right(3)] Cons.prems(2) by (cases i) auto
  qed
qed simp

lemma chain_root: "chain om vs d es p k lf t hk hl h \<Longrightarrow> es \<noteq> [] \<Longrightarrow> n_key (hd es) = k"
  by (cases es) (auto elim: chain_cases)

text \<open>Taking out the root of the hole.\<close>

lemma chain_fetch:
  assumes "chain om vs d es p k lf t hk hl (Node l (hk, v) r)" "tree_distinct t"
    and "om (d + length es) hk = Some (hl, encode_node nd)"
    and frame: "\<And>j x. x \<noteq> hk \<Longrightarrow> om' j x = om j x" "om' (d + length es) hk = None"
    and e: "n_key e = hk" "n_leaf e = hl" "n_avl e = nd" "n_depth e = of_nat (d + length es)"
      "n_parent e = (if es = [] then p else n_key (last es))"
  shows "chain om' vs d (es @ [e]) p k lf t (l_key nd) (l_leaf nd) l
    \<and> chain om' vs d (es @ [e]) p k lf t (r_key nd) (r_leaf nd) r"
  using assms(1-3) frame e
proof (induction es arbitrary: d p k lf t)
  case Nil
  then have h: "t = Node l (hk, v) r" "k = hk" "lf = hl" "hk \<noteq> INVALID_KEY" "vs v" "avl_data nd = v"
    "tree_at om vs (Suc d) (l_key nd) (l_leaf nd) l" "tree_at om vs (Suc d) (r_key nd) (r_leaf nd) r"
    by auto
  then have "hk \<notin> keys_of l" "hk \<notin> keys_of r" using Nil.prems(2) by auto
  then have "tree_at om' vs (Suc d) (l_key nd) (l_leaf nd) l \<and> tree_at om' vs (Suc d) (r_key nd) (r_leaf nd) r"
    using Nil.prems(4) by (metis h(7,8) tree_at_cong)
  then show ?case using h Nil.prems by simp
next
  case (Cons a es)
  have hole: "hk \<in> keys_of (Node l (hk, v) r)" by simp
  have last: "n_parent e = (if es = [] then n_key a else n_key (last es))"
    using Cons.prems(10) by simp
  from Cons.prems(1) show ?case
  proof (cases rule: chain_cases)
    case (left tl x tr)
    have "hk \<in> keys_of tl" using chain_keys [OF left(2)] hole by blast
    then have out: "hk \<noteq> k" "hk \<notin> keys_of tr" "tree_distinct tl" using Cons.prems(2) left(1) by auto
    have "tree_at om' vs (Suc d) (r_key (n_avl a)) (r_leaf (n_avl a)) tr"
      by (rule tree_at_cong [OF left(3)]) (use out Cons.prems(4) in metis)
    moreover note IH = Cons.IH [OF left(2) out(3)]
    ultimately show ?thesis
      using IH Cons.prems(3-9) last left out by simp
  next
    case (right tl x tr)
    have "hk \<in> keys_of tr" using chain_keys [OF right(3)] hole by blast
    then have out: "hk \<noteq> k" "hk \<notin> keys_of tl" "tree_distinct tr" using Cons.prems(2) right(1) by auto
    have "tree_at om' vs (Suc d) (l_key (n_avl a)) (l_leaf (n_avl a)) tl"
      by (rule tree_at_cong [OF right(2)]) (use out Cons.prems(4) in metis)
    moreover note IH = Cons.IH [OF right(3) out(3)]
    ultimately show ?thesis
      using IH Cons.prems(3-9) last right out by simp
  qed
qed

section \<open>Writing a value on the path\<close>

definition set_val :: "i32 \<Rightarrow> bytes \<Rightarrow> kv_tree \<Rightarrow> kv_tree" where
  "set_val x w t = map_tree (\<lambda>(k, v). (k, if k = x then w else v)) t"

definition set_entry :: "i32 \<Rightarrow> bytes \<Rightarrow> local_node \<Rightarrow> local_node" where
  "set_entry x w e = (if n_key e = x then e\<lparr>n_avl := (n_avl e)\<lparr>avl_data := w\<rparr>\<rparr> else e)"

lemma set_entry_simps:
  "n_key e = x \<Longrightarrow> set_entry x w e = e\<lparr>n_avl := (n_avl e)\<lparr>avl_data := w\<rparr>\<rparr>"
  "n_key e \<noteq> x \<Longrightarrow> set_entry x w e = e"
  by (simp_all add: set_entry_def)

lemma set_val_simps [simp]:
  "set_val x w Leaf = Leaf"
  "set_val x w (Node l (k, v) r) = Node (set_val x w l) (k, if k = x then w else v) (set_val x w r)"
  by (simp_all add: set_val_def)

lemma keys_set_val [simp]: "keys_of (set_val x w t) = keys_of t"
  by (induction t) auto

lemma inorder_set_val: "inorder (set_val x w t) = map (\<lambda>(k, v). (k, if k = x then w else v)) (inorder t)"
  by (induction t) auto

lemma height_set_val [simp]: "height (set_val x w t) = height t"
  by (simp add: set_val_def)

lemma tree_distinct_set_val [simp]: "tree_distinct (set_val x w t) = tree_distinct t"
  by (simp add: tree_distinct_def inorder_set_val comp_def case_prod_beta')

lemma set_val_id: "x \<notin> keys_of t \<Longrightarrow> set_val x w t = t"
  by (induction t) auto

lemma chain_set_data:
  assumes "chain om vs d es p k lf t hk hl h" "tree_distinct t" "x \<in> n_key ` set es" "vs w"
  shows "chain om vs d (map (set_entry x w) es) p k lf (set_val x w t) hk hl h"
  using assms(1-3)
proof (induction es arbitrary: d p k lf t)
  case (Cons e es)
  have other: "map (set_entry x w) es = es" if "x \<notin> n_key ` set es"
    using that by (intro map_idI) (auto simp: set_entry_def)
  from Cons.prems(1) show ?case
  proof (cases rule: chain_cases)
    case (left l v r)
    have sub: "n_key ` set es \<subseteq> keys_of l" and d: "tree_distinct l"
      using chain_keys [OF left(2)] Cons.prems(2) left(1) by auto
    have r: "set_val x w r = r"
      using sub Cons.prems(2,3) left(1,7) by (intro set_val_id) auto
    show ?thesis
    proof (cases "n_key e = x")
      case True
      then have "x \<notin> keys_of l" using Cons.prems(2) left(1,7) by auto
      then have "x \<notin> n_key ` set es" "set_val x w l = l" using sub set_val_id by auto
      then show ?thesis using left r other True assms(4) by (simp add: set_entry_simps)
    next
      case False
      with Cons.prems(3) Cons.IH [OF left(2) d] left r show ?thesis by (simp add: set_entry_simps)
    qed
  next
    case (right l v r)
    have sub: "n_key ` set es \<subseteq> keys_of r" and d: "tree_distinct r"
      using chain_keys [OF right(3)] Cons.prems(2) right(1) by auto
    have l: "set_val x w l = l"
      using sub Cons.prems(2,3) right(1,7) by (intro set_val_id) auto
    show ?thesis
    proof (cases "n_key e = x")
      case True
      then have "x \<notin> keys_of r" using Cons.prems(2) right(1,7) by auto
      then have "x \<notin> n_key ` set es" "set_val x w r = r" using sub set_val_id by auto
      then show ?thesis using right l other True assms(4) by (simp add: set_entry_simps)
    next
      case False
      with Cons.prems(3) Cons.IH [OF right(3) d] right l show ?thesis by (simp add: set_entry_simps)
    qed
  qed
qed simp

section \<open>Putting the path back\<close>

text \<open>The entries get new leaves; the pointer of a parent to the next entry follows.\<close>

fun point_to :: "local_node list \<Rightarrow> avl_node \<Rightarrow> avl_node" where
  "point_to [] a = a"
| "point_to (c # cs) a =
     a\<lparr>l_leaf := if l_key a = n_key c then n_leaf c else l_leaf a,
       r_leaf := if r_key a = n_key c then n_leaf c else r_leaf a\<rparr>"

fun relinked :: "local_node list \<Rightarrow> local_node list \<Rightarrow> bool" where
  "relinked [] es' \<longleftrightarrow> es' = []"
| "relinked (e # es) [] \<longleftrightarrow> False"
| "relinked (e # es) (e' # es') \<longleftrightarrow>
     n_key e' = n_key e \<and> n_avl e' = point_to es' (n_avl e) \<and> relinked es es'"

definition top_leaf :: "i32 \<Rightarrow> local_node list \<Rightarrow> i32" where
  "top_leaf lf es = (case es of [] \<Rightarrow> lf | e # _ \<Rightarrow> n_leaf e)"

lemma top_leaf_simps [simp]: "top_leaf lf [] = lf" "top_leaf lf (e # es) = n_leaf e"
  by (simp_all add: top_leaf_def)

lemma relinked_length: "relinked es es' \<Longrightarrow> length es' = length es \<and> map n_key es' = map n_key es"
  by (induction es es' rule: relinked.induct) auto

lemma off_path:
  assumes "insert k (A \<union> B) \<inter> K \<subseteq> insert k E" "E \<subseteq> A" "k \<notin> A" "k \<notin> B" "A \<inter> B = {}"
  shows "B \<inter> K = {}" "A \<inter> K \<subseteq> E"
  using assms by blast+

lemma chain_flush:
  assumes "chain om vs d es p k lf t hk hl h" "tree_distinct t" "relinked es es'"
    and "\<And>j x. x \<notin> n_key ` set es \<Longrightarrow> om' j x = om j x"
    and "\<And>i. i < length es' \<Longrightarrow>
      om' (d + i) (n_key (es' ! i)) = Some (n_leaf (es' ! i), encode_node (n_avl (es' ! i)))"
  shows "tree_at om' vs d k (top_leaf lf es') t"
proof -
  let ?K = "n_key ` set es"
  have "tree_at om' vs d k (top_leaf lf es') t"
    if "chain om vs d es p k lf t hk hl h" "tree_distinct t" "relinked es es'" "n_key ` set es \<subseteq> ?K"
      "keys_of t \<inter> ?K \<subseteq> n_key ` set es"
      "\<And>i. i < length es' \<Longrightarrow>
        om' (d + i) (n_key (es' ! i)) = Some (n_leaf (es' ! i), encode_node (n_avl (es' ! i)))"
    for d es es' p k lf t
    using that
  proof (induction es es' arbitrary: d p k lf t rule: relinked.induct)
    case (1 es')
    then have "tree_at om vs d k lf t" "es' = []" "\<And>x. x \<in> keys_of t \<Longrightarrow> x \<notin> ?K" by auto
    then show ?case using assms(4) tree_at_cong [of om vs d k lf t om'] by simp
  next
    case (3 e es e' es')
    have rel: "relinked es es'" and key: "n_key e' = n_key e" and avl: "n_avl e' = point_to es' (n_avl e)"
      using "3.prems"(3) by auto
    have nk: "map n_key es' = map n_key es" using relinked_length [OF rel] by simp
    have top: "om' d (n_key e) = Some (n_leaf e', encode_node (point_to es' (n_avl e)))"
      using "3.prems"(6) [of 0] key avl by simp
    have rest: "om' (Suc d + i) (n_key (es' ! i)) = Some (n_leaf (es' ! i), encode_node (n_avl (es' ! i)))"
      if "i < length es'" for i
      using "3.prems"(6) [of "Suc i"] that by simp
    have data: "avl_data (point_to es' (n_avl e)) = avl_data (n_avl e)"
      "l_key (point_to es' (n_avl e)) = l_key (n_avl e)" "r_key (point_to es' (n_avl e)) = r_key (n_avl e)"
      by (cases es'; simp)+
    from "3.prems"(1) show ?case
    proof (cases rule: chain_cases)
      case (left l v r)
      have sub: "n_key ` set es \<subseteq> keys_of l" and d: "tree_distinct l"
        using chain_keys [OF left(2)] "3.prems"(2) left(1) by auto
      have out: "keys_of r \<inter> ?K = {}" "keys_of l \<inter> ?K \<subseteq> n_key ` set es"
        by (rule off_path [of k "keys_of l" "keys_of r" ?K "n_key ` set es"];
            use sub "3.prems"(2,5) left(1,7) in simp)+
      have R: "tree_at om' vs (Suc d) (r_key (n_avl e)) (r_leaf (n_avl e)) r"
        by (rule tree_at_cong [OF left(3)]) (use out(1) assms(4) in blast)
      have L: "tree_at om' vs (Suc d) (l_key (n_avl e)) (top_leaf (l_leaf (n_avl e)) es') l"
        by (rule "3.IH" [OF left(2) d rel _ out(2) rest]) (use "3.prems"(4) in auto)
      have "l_leaf (point_to es' (n_avl e)) = top_leaf (l_leaf (n_avl e)) es'
        \<and> (r_leaf (point_to es' (n_avl e)) = r_leaf (n_avl e) \<or> r = Leaf)"
      proof (cases es')
        case (Cons c cs)
        then obtain a as where a: "es = a # as" "n_key a = n_key c" using nk by (cases es) auto
        have "l_key (n_avl e) = n_key c"
          using left(2) a by (auto elim: chain_cases)
        moreover have "r_key (n_avl e) \<noteq> n_key c \<or> r = Leaf"
          using tree_at_root [OF left(3)] sub a "3.prems"(2) left(1)
          by (cases r) (use left(3) in auto)
        ultimately show ?thesis using Cons by auto
      qed simp
      with R L top data left show ?thesis by (auto simp: key)
    next
      case (right l v r)
      have sub: "n_key ` set es \<subseteq> keys_of r" and d: "tree_distinct r"
        using chain_keys [OF right(3)] "3.prems"(2) right(1) by auto
      have out: "keys_of l \<inter> ?K = {}" "keys_of r \<inter> ?K \<subseteq> n_key ` set es"
        by (rule off_path [of k "keys_of r" "keys_of l" ?K "n_key ` set es"];
            use sub "3.prems"(2,5) right(1,7) in \<open>simp add: Un_commute Int_commute\<close>)+
      have L: "tree_at om' vs (Suc d) (l_key (n_avl e)) (l_leaf (n_avl e)) l"
        by (rule tree_at_cong [OF right(2)]) (use out(1) assms(4) in blast)
      have R: "tree_at om' vs (Suc d) (r_key (n_avl e)) (top_leaf (r_leaf (n_avl e)) es') r"
        by (rule "3.IH" [OF right(3) d rel _ out(2) rest]) (use "3.prems"(4) in auto)
      have "r_leaf (point_to es' (n_avl e)) = top_leaf (r_leaf (n_avl e)) es'
        \<and> (l_leaf (point_to es' (n_avl e)) = l_leaf (n_avl e) \<or> l = Leaf)"
      proof (cases es')
        case (Cons c cs)
        then obtain a as where a: "es = a # as" "n_key a = n_key c" using nk by (cases es) auto
        have "r_key (n_avl e) = n_key c"
          using right(3) a by (auto elim: chain_cases)
        moreover have "l_key (n_avl e) \<noteq> n_key c \<or> l = Leaf"
          using tree_at_root [OF right(2)] sub a "3.prems"(2) right(1)
          by (cases l) (use right(2) in auto)
        ultimately show ?thesis using Cons by auto
      qed simp
      with R L top data right show ?thesis by (auto simp: key)
    qed
  qed simp
  from this [OF assms(1-3) subset_refl Int_lower2 assms(5)] show ?thesis by simp
qed

section \<open>Search trees\<close>

definition key_ordered :: "kv_tree \<Rightarrow> bool" where
  "key_ordered t \<longleftrightarrow> sorted_wrt (<) (map (sint \<circ> fst) (inorder t)) \<and> (\<forall>k\<in>keys_of t. 0 \<le> sint k)"

definition tree_map :: "kv_tree \<Rightarrow> i32 \<rightharpoonup> bytes" where
  "tree_map t = map_of (inorder t)"

lemma key_ordered_simps [simp]:
  "key_ordered Leaf"
  "key_ordered (Node l (k, v) r) \<longleftrightarrow> key_ordered l \<and> key_ordered r \<and> 0 \<le> sint k
     \<and> (\<forall>x\<in>keys_of l. sint x < sint k) \<and> (\<forall>x\<in>keys_of r. sint k < sint x)"
proof -
  have "set (map (sint \<circ> fst) (inorder t)) = sint ` keys_of t" for t :: kv_tree
    by (auto simp: keys_of_def)
  then have *: "x \<in> set (map (sint \<circ> fst) (inorder t)) \<longleftrightarrow> x \<in> sint ` keys_of t" for x and t :: kv_tree
    by blast
  show "key_ordered Leaf" by (simp add: key_ordered_def)
  show "key_ordered (Node l (k, v) r) \<longleftrightarrow> key_ordered l \<and> key_ordered r \<and> 0 \<le> sint k
     \<and> (\<forall>x\<in>keys_of l. sint x < sint k) \<and> (\<forall>x\<in>keys_of r. sint k < sint x)"
    unfolding key_ordered_def inorder.simps map_append list.map sorted_wrt_append sorted_wrt.simps
    using * [of _ l] * [of _ r] by (simp add: Ball_def image_iff) (smt (verit))
qed

lemma key_ordered_distinct: "key_ordered t \<Longrightarrow> tree_distinct t"
  by (induction t) force+

lemma key_ordered_set_val [simp]: "key_ordered (set_val x w t) = key_ordered t"
  by (induction t) auto

lemma dom_tree_map: "dom (tree_map t) = keys_of t"
  by (simp add: tree_map_def dom_map_of_conv_image_fst keys_of_def)

lemma tree_map_None: "tree_map t k = None \<longleftrightarrow> k \<notin> keys_of t"
  by (simp flip: dom_tree_map add: domIff)

lemma tree_map_Leaf [simp]: "tree_map Leaf = Map.empty"
  by (simp add: tree_map_def)

lemma tree_map_Node:
  "key_ordered (Node l (x, v) r) \<Longrightarrow>
   tree_map (Node l (x, v) r) k = (if k = x then Some v else if sint k < sint x then tree_map l k else tree_map r k)"
proof -
  assume o: "key_ordered (Node l (x, v) r)"
  have "tree_map (Node l (x, v) r) k = (case tree_map l k of Some y \<Rightarrow> Some y
      | None \<Rightarrow> if k = x then Some v else tree_map r k)"
    by (simp add: tree_map_def map_add_def split: option.split)
  moreover have "tree_map l k = None" if "\<not> sint k < sint x" using that o by (auto simp: tree_map_None)
  moreover have "tree_map r k = None" if "sint k < sint x" using that o by (force simp: tree_map_None)
  ultimately show ?thesis by (auto split: option.splits)
qed

lemma tree_map_set_val: "key_ordered t \<Longrightarrow> x \<in> keys_of t \<Longrightarrow> tree_map (set_val x w t) = (tree_map t)(x \<mapsto> w)"
proof (induction t)
  case (Node l kv r)
  obtain k v where kv: "kv = (k, v)" by fastforce
  have o: "key_ordered (Node l (k, v) r)" "key_ordered (set_val x w (Node l (k, v) r))"
    using Node.prems kv by auto
  have "key_ordered (Node (set_val x w l) (k, if k = x then w else v) (set_val x w r))"
    using o(2) by simp
  note t = tree_map_Node [OF this] tree_map_Node [OF o(1)]
  consider "x = k" | "x \<in> keys_of l" "sint x < sint k" | "x \<in> keys_of r" "sint k < sint x"
    using Node.prems(2) o(1) kv by auto
  then show ?case
  proof cases
    case 1
    then have "set_val x w l = l" "set_val x w r = r" using o(1) set_val_id by fastforce+
    then show ?thesis using t 1 kv by (auto simp: fun_eq_iff)
  next
    case 2
    then have "set_val x w r = r" using o(1) by (intro set_val_id) force
    then show ?thesis using t Node.IH(1) o(1) 2 kv by (auto simp: fun_eq_iff)
  next
    case 3
    then have "set_val x w l = l" using o(1) by (intro set_val_id) force
    then show ?thesis using t Node.IH(2) o(1) 3 kv by (auto simp: fun_eq_iff)
  qed
qed simp

end
