(* ===== verification/Tee_Avl_Search.thy ===== *)
theory Tee_Avl_Search
  imports Tee_Avl_Ops Avl_Paths Enclave_Store
begin

text \<open>
  Correctness of the oblivious search. The two enclave ORAMs are read as one view of nodes by depth;
  the search turns a stored tree into a chain of local nodes above a hole, the reassignment of leaves
  relinks the chain, and the flush stores it again.
\<close>

section \<open>The stores behind the map\<close>

definition tee_view :: "tee_avl \<Rightarrow> node_view" where
  "tee_view t j = eo_map (oram_for_depth t (of_nat j))"

definition store_ok :: "nat \<Rightarrow> enclave_oram \<Rightarrow> bool" where
  "store_ok vs o1 \<longleftrightarrow> eo_inv o1 \<and> eo_value_size o1 = AVL_HEADER_SIZE + vs \<and> eo_map o1 (- 2) = None"

definition tee_ok :: "tee_avl \<Rightarrow> bool" where
  "tee_ok t \<longleftrightarrow> store_ok (ta_value_size t) (ta_lower t)
     \<and> (ta_split_depth t > 0 \<longrightarrow> store_ok (ta_value_size t) (ta_upper t))
     \<and> ta_max_height t < 2 ^ 20 \<and> ta_split_depth t \<le> int (ta_max_height t)"

text \<open>What an operation leaves alone.\<close>

definition same_conf :: "tee_avl \<Rightarrow> tee_avl \<Rightarrow> bool" where
  "same_conf t t' \<longleftrightarrow> ta_max_height t' = ta_max_height t \<and> ta_split_depth t' = ta_split_depth t
     \<and> ta_value_size t' = ta_value_size t
     \<and> eo_geometry (ta_lower t') = eo_geometry (ta_lower t)
     \<and> (ta_split_depth t > 0 \<longrightarrow> eo_geometry (ta_upper t') = eo_geometry (ta_upper t))"

lemma same_conf_refl [simp]: "same_conf t t"
  by (simp add: same_conf_def)

lemma same_conf_trans [trans]: "same_conf t t' \<Longrightarrow> same_conf t' t'' \<Longrightarrow> same_conf t t''"
  by (simp add: same_conf_def)

lemma same_conf_upper: "same_conf t t' \<Longrightarrow> is_upper t' = is_upper t"
  by (intro ext) (simp add: same_conf_def is_upper_def)

lemma oram_ok:
  assumes "tee_ok t"
  shows "store_ok (ta_value_size t) (oram_for_depth t d)"
  using assms by (auto simp: tee_ok_def oram_for_depth_def is_upper_def)

lemma same_conf_oram: "same_conf t t' \<Longrightarrow> eo_geometry (oram_for_depth t' d) = eo_geometry (oram_for_depth t d)"
  using same_conf_upper [of t t'] by (auto simp: same_conf_def oram_for_depth_def is_upper_def)

lemma set_oram_fields [simp]:
  "ta_max_height (set_oram d o1 t) = ta_max_height t"
  "ta_split_depth (set_oram d o1 t) = ta_split_depth t"
  "ta_value_size (set_oram d o1 t) = ta_value_size t"
  "ta_root_key (set_oram d o1 t) = ta_root_key t"
  "ta_root_leaf (set_oram d o1 t) = ta_root_leaf t"
  "ta_local (set_oram d o1 t) = ta_local t"
  by (simp_all add: set_oram_def)

lemma count_op_fields [simp]:
  "ta_max_height (count_op d t) = ta_max_height t" "ta_split_depth (count_op d t) = ta_split_depth t"
  "ta_value_size (count_op d t) = ta_value_size t" "ta_root_key (count_op d t) = ta_root_key t"
  "ta_root_leaf (count_op d t) = ta_root_leaf t" "ta_local (count_op d t) = ta_local t"
  "ta_upper (count_op d t) = ta_upper t" "ta_lower (count_op d t) = ta_lower t"
  by (simp_all add: count_op_def)

lemma is_upper_cong [simp]:
  "is_upper (count_op d t) = is_upper t" "is_upper (set_oram d o1 t) = is_upper t"
  "is_upper (t\<lparr>ta_local := l\<rparr>) = is_upper t" "is_upper (t\<lparr>ta_root_leaf := x\<rparr>) = is_upper t"
  by (simp_all add: is_upper_def fun_eq_iff)

lemma oram_for_depth_cong [simp]:
  "oram_for_depth (count_op d t) = oram_for_depth t"
  "oram_for_depth (t\<lparr>ta_local := l\<rparr>) = oram_for_depth t"
  "oram_for_depth (t\<lparr>ta_root_leaf := x\<rparr>) = oram_for_depth t"
  by (simp_all add: oram_for_depth_def fun_eq_iff)

lemma oram_for_depth_set:
  "oram_for_depth (set_oram d o1 t) d' = (if is_upper t d' = is_upper t d then o1 else oram_for_depth t d')"
  by (auto simp: oram_for_depth_def set_oram_def is_upper_def)

lemma tee_view_set:
  "tee_view (set_oram (of_nat j) o1 t) i = (if is_upper t (of_nat i) = is_upper t (of_nat j) then eo_map o1 else tee_view t i)"
  by (simp add: tee_view_def oram_for_depth_set)

lemma tee_view_same: "is_upper t (of_nat i) = is_upper t (of_nat j) \<Longrightarrow> tee_view t i = tee_view t j"
  by (simp add: tee_view_def oram_for_depth_def)

lemma tee_ok_set:
  assumes "tee_ok t" "store_ok (ta_value_size t) o1" "eo_geometry o1 = eo_geometry (oram_for_depth t d)"
  shows "tee_ok (set_oram d o1 t)" "same_conf t (set_oram d o1 t)"
  using assms by (auto simp: tee_ok_def set_oram_def same_conf_def oram_for_depth_def split: if_splits)

lemma store_ok_geometry:
  "store_ok vs o1 \<Longrightarrow> eo_inv o2 \<Longrightarrow> same_geometry o1 o2 \<Longrightarrow> eo_map o2 (- 2) = None \<Longrightarrow> store_ok vs o2"
  by (simp add: store_ok_def same_geometryD)

lemma minus2_not_invalid [simp]: "(- 2 :: i32) \<noteq> INVALID_KEY"
  by (simp add: INVALID_KEY_def)

section \<open>Steps\<close>

definition step_effect :: "tee_avl \<Rightarrow> tee_avl \<Rightarrow> bool" where
  "step_effect t t' \<longleftrightarrow> tee_ok t' \<and> same_conf t t' \<and> ta_root_key t' = ta_root_key t \<and> ta_root_leaf t' = ta_root_leaf t"

lemma oram_step_gen:
  assumes ok: "tee_ok t" and real: "b \<longrightarrow> k \<noteq> INVALID_KEY \<and> k \<noteq> - 2 \<and> tee_view t j k = Some (lf, encode_node nd)"
  shows "safe_run (oram_step (of_nat j) k lf (of_bool b) par t r) (\<lambda>(t', r').
    step_effect t t'
    \<and> (\<exists>e. ta_local t' = ta_local t @ [e] \<and> n_depth e = of_nat j
        \<and> (if b then e = \<lparr>n_key = k, n_leaf = lf, n_avl = nd, n_parent = par, n_depth = of_nat j\<rparr>
           else n_key e = INVALID_KEY \<and> length (avl_data (n_avl e)) = ta_value_size t))
    \<and> (\<forall>i x. (b \<longrightarrow> x \<noteq> k) \<longrightarrow> tee_view t' i x = tee_view t i x)
    \<and> (b \<longrightarrow> tee_view t' j k = None))"
proof -
  let ?o = "oram_for_depth t (of_nat j)"
  have st: "store_ok (ta_value_size t) ?o" by (rule oram_ok [OF ok])
  have inv: "eo_inv ?o" and vs: "eo_value_size ?o = AVL_HEADER_SIZE + ta_value_size t"
    and m2: "eo_map ?o (- 2) = None"
    using st by (auto simp: store_ok_def)
  obtain rl r1 where rl: "random_leaf ?o r = (rl, r1)" by fastforce
  let ?lf = "if b then lf else rl" and ?k = "if b then k else - 2"
  have lf: "leaf_ok ?o ?lf"
    using real eo_map_Some [OF inv, of k lf] random_leaf_ok [of ?o r] inv rl
    by (auto simp: tee_view_def eo_inv_def)
  have here: "\<forall>l v. eo_map ?o ?k = Some (l, v) \<longrightarrow> l = ?lf"
    using real m2 by (auto simp: tee_view_def)
  have k: "?k \<noteq> INVALID_KEY" using real by simp
  obtain o2 blk o3 where s: "read_path_to_stash ?lf ?o = Inr o2" "extract_from_stash ?k o2 = (blk, o3)"
    "case eo_map ?o ?k of None \<Rightarrow> blk = empty_slot (eo_value_size ?o)
       | Some (l, v) \<Rightarrow> blk = \<lparr>key = ?k, leaf = l, val = v\<rparr>"
    "safe_run (evict_one_path ?lf o3) (\<lambda>o4. eo_inv o4 \<and> same_geometry ?o o4
       \<and> eo_map o4 = (eo_map ?o)(?k := None))"
    using fetch_steps [OF inv lf k here] by blast
  have "\<exists>n. decode_node (val blk) = Inr n \<and> length (avl_data n) = ta_value_size t \<and> (b \<longrightarrow> n = nd \<and> leaf blk = lf)"
  proof (cases b)
    case True
    then have "eo_map ?o k = Some (lf, encode_node nd)" using real by (simp add: tee_view_def)
    with eo_map_Some [OF inv this] s(3) True vs show ?thesis by simp
  next
    case False
    then have "length (val blk) = AVL_HEADER_SIZE + ta_value_size t"
      using s(3) m2 vs by simp
    with decode_node_total [of "val blk"] False show ?thesis
      by (metis add_left_cancel le_add1 length_encode_node)
  qed
  then obtain n where n: "decode_node (val blk) = Inr n" "length (avl_data n) = ta_value_size t"
    "b \<longrightarrow> n = nd \<and> leaf blk = lf"
    by blast
  let ?e = "\<lparr>n_key = if b then k else INVALID_KEY, n_leaf = if b then leaf blk else INVALID_LEAF,
      n_avl = n, n_parent = if b then par else INVALID_KEY, n_depth = of_nat j\<rparr>"
  let ?t = "t\<lparr>ta_local := ta_local t @ [?e]\<rparr>"
  have run: "oram_step (of_nat j) k lf (of_bool b) par t r =
      bind_result (evict_one_path ?lf o3) (\<lambda>o4. Inr (count_op (of_nat j) (set_oram (of_nat j) o4 ?t), r1))"
    using s(1,2) by (simp add: oram_step_def rl n(1))
  show ?thesis
    unfolding run
  proof (rule safe_run_bind [OF s(4)])
    fix o4 assume o4: "eo_inv o4 \<and> same_geometry ?o o4 \<and> eo_map o4 = (eo_map ?o)(?k := None)"
    let ?t' = "count_op (of_nat j) (set_oram (of_nat j) o4 ?t)"
    have ok_t: "tee_ok ?t" and conf_t: "same_conf t ?t" using ok by (simp_all add: tee_ok_def same_conf_def)
    have "store_ok (ta_value_size t) o4"
      by (rule store_ok_geometry [OF st]) (use o4 m2 in auto)
    then have s1: "tee_ok (set_oram (of_nat j) o4 ?t)" "same_conf ?t (set_oram (of_nat j) o4 ?t)"
      using tee_ok_set [OF ok_t, of o4 "of_nat j"] o4 by (auto simp: eo_geometry_iff)
    have "step_effect t ?t'"
      using s1 same_conf_trans [OF conf_t s1(2)] by (simp add: step_effect_def tee_ok_def same_conf_def)
    moreover have "tee_view ?t' i x = tee_view t i x" if "b \<longrightarrow> x \<noteq> k" for i x
      using that o4 m2 tee_view_same [of t i j] by (auto simp: tee_view_def oram_for_depth_set)
    moreover have "tee_view ?t' j k = None" if b
      using that o4 by (simp add: tee_view_def oram_for_depth_set)
    moreover have "ta_local ?t' = ta_local t @ [?e]" by simp
    ultimately show "safe_run (Inr (?t', r1)) (\<lambda>(t', r'). step_effect t t'
        \<and> (\<exists>e. ta_local t' = ta_local t @ [e] \<and> n_depth e = of_nat j
            \<and> (if b then e = \<lparr>n_key = k, n_leaf = lf, n_avl = nd, n_parent = par, n_depth = of_nat j\<rparr>
               else n_key e = INVALID_KEY \<and> length (avl_data (n_avl e)) = ta_value_size t))
        \<and> (\<forall>i x. (b \<longrightarrow> x \<noteq> k) \<longrightarrow> tee_view t' i x = tee_view t i x)
        \<and> (b \<longrightarrow> tee_view t' j k = None))"
      using n by (intro safe_run_simps(1) [THEN iffD2]) auto
  qed
qed

section \<open>Padding\<close>

definition idle :: "tee_avl \<Rightarrow> tee_avl \<Rightarrow> bool" where
  "idle t t' \<longleftrightarrow> step_effect t t' \<and> tee_view t' = tee_view t \<and> ta_local t' = ta_local t"

lemma idle_refl: "tee_ok t \<Longrightarrow> idle t t"
  by (simp add: idle_def step_effect_def)

lemma idle_trans: "idle t t' \<Longrightarrow> idle t' t'' \<Longrightarrow> idle t t''"
  by (auto simp: idle_def step_effect_def intro: same_conf_trans)

lemma pad_step_fetch:
  "pad_step d t r = (case random_leaf (oram_for_depth t d) r of (lf, r1) \<Rightarrow>
     bind_result (fetch_block lf (- 2) (oram_for_depth t d)) (\<lambda>(b, o3). Inr (count_op d (set_oram d o3 t), r1)))"
  by (auto simp: pad_step_def fetch_block_def bind_result_def split: prod.splits sum.splits)

lemma pad_step_idle:
  assumes ok: "tee_ok t"
  shows "safe_run (pad_step d t r) (\<lambda>(t', r'). idle t t')"
proof -
  let ?o = "oram_for_depth t d"
  have st: "store_ok (ta_value_size t) ?o" by (rule oram_ok [OF ok])
  then have inv: "eo_inv ?o" and m2: "eo_map ?o (- 2) = None" by (auto simp: store_ok_def)
  obtain lf r1 where lf: "random_leaf ?o r = (lf, r1)" by fastforce
  have "leaf_ok ?o lf" using random_leaf_ok [of ?o r] inv lf by (simp add: eo_inv_def)
  note f = enclave.fetch_missing [OF inv m2 minus2_not_invalid this]
  show ?thesis
    unfolding pad_step_fetch lf prod.case
  proof (rule safe_run_bind [OF f], clarify)
    fix b o3 assume o3: "eo_inv o3" "eo_geometry o3 = eo_geometry ?o" "eo_map o3 = eo_map ?o"
    have "store_ok (ta_value_size t) o3"
      by (rule store_ok_geometry [OF st]) (use o3 m2 in \<open>auto simp: eo_geometry_iff\<close>)
    note s = tee_ok_set [OF ok this o3(2)]
    have "tee_view (count_op d (set_oram d o3 t)) = tee_view t"
    proof (rule ext)
      fix i
      have "is_upper t (of_nat i) = is_upper t d \<Longrightarrow> oram_for_depth t (of_nat i) = ?o"
        by (simp add: oram_for_depth_def)
      then show "tee_view (count_op d (set_oram d o3 t)) i = tee_view t i"
        using o3(3) by (simp add: tee_view_def oram_for_depth_set)
    qed
    then show "safe_run (Inr (count_op d (set_oram d o3 t), r1)) (\<lambda>(t', r'). idle t t')"
      using s by (simp add: idle_def step_effect_def tee_ok_def same_conf_def)
  qed
qed

lemma pad_steps_idle: "tee_ok t \<Longrightarrow> safe_run (pad_steps d n t r) (\<lambda>(t', r'). idle t t')"
  unfolding pad_steps_def
proof (rule safe_run_mono [OF for_loop_safe [where P = "\<lambda>i (t', r'). idle t t'"]])
  fix i :: nat and x :: "tee_avl \<times> rng" assume "case x of (t', r') \<Rightarrow> idle t t'"
  then obtain t1 r1 where x: "x = (t1, r1)" "idle t t1" by (cases x) auto
  then have "tee_ok t1" by (simp add: idle_def step_effect_def)
  then show "safe_run ((\<lambda>(t1, r1). pad_step d t1 r1) x) (\<lambda>(t', r'). idle t t')"
    using pad_step_idle [of t1 d r1] x by (auto elim: safe_run_mono intro: idle_trans)
qed (auto simp: idle_refl)

lemma pad_ops_idle: "tee_ok t \<Longrightarrow> safe_run (pad_ops n t r) (\<lambda>(t', r'). idle t t')"
proof -
  assume ok: "tee_ok t"
  have two: "safe_run (bind_result (pad_steps 0 m t r) (\<lambda>(t1, r1). pad_steps d k t1 r1)) (\<lambda>(t', r'). idle t t')"
    for m d k
  proof (rule safe_run_bind [OF pad_steps_idle [OF ok]], clarify)
    fix t1 r1 assume i: "idle t t1"
    then have "tee_ok t1" by (simp add: idle_def step_effect_def)
    then show "safe_run (pad_steps d k t1 r1) (\<lambda>(t', r'). idle t t')"
      by (rule safe_run_mono [OF pad_steps_idle]) (use i in \<open>auto intro: idle_trans\<close>)
  qed
  show ?thesis
    using pad_steps_idle [OF ok] two by (simp add: pad_ops_def Let_def)
qed

section \<open>New leaves and links\<close>

lemma draw_leaves_spec:
  assumes "tee_ok t"
  shows "\<exists>nds' r'. draw_leaves t nds r = (nds', r') \<and> length nds' = length nds
    \<and> (\<forall>i < length nds. \<exists>lf. nds' ! i = (nds ! i)\<lparr>n_leaf := lf\<rparr>
         \<and> (n_key (nds ! i) \<noteq> INVALID_KEY \<longrightarrow> leaf_ok (oram_for_depth t (n_depth (nds ! i))) lf))"
proof (induction nds arbitrary: r)
  case (Cons nd nds)
  obtain nds' r1 where IH: "draw_leaves t nds r = (nds', r1)" "length nds' = length nds"
    "\<forall>i < length nds. \<exists>lf. nds' ! i = (nds ! i)\<lparr>n_leaf := lf\<rparr>
         \<and> (n_key (nds ! i) \<noteq> INVALID_KEY \<longrightarrow> leaf_ok (oram_for_depth t (n_depth (nds ! i))) lf)"
    using Cons by blast
  let ?o = "oram_for_depth t (n_depth nd)"
  obtain lf r2 where lf: "random_leaf ?o r1 = (lf, r2)" by fastforce
  have "eo_inv ?o" using oram_ok [OF assms] by (simp add: store_ok_def)
  then have "leaf_ok ?o lf" using random_leaf_ok [of ?o r1] lf by (simp add: eo_inv_def)
  moreover obtain lf' where lf': "lf' = (if n_key nd = INVALID_KEY then n_leaf nd else lf)" by blast
  ultimately have "draw_leaves t (nd # nds) r = (nd\<lparr>n_leaf := lf'\<rparr> # nds', r2)
      \<and> (n_key nd \<noteq> INVALID_KEY \<longrightarrow> leaf_ok ?o lf')"
    using IH(1) lf by simp
  then show ?case
    using IH(2,3) by (auto simp: nth_Cons split: nat.split intro!: exI [of _ "nd\<lparr>n_leaf := lf'\<rparr> # nds'"])
qed simp

lemma link_child_fields [simp]:
  "n_key (link_child c p) = n_key p" "n_leaf (link_child c p) = n_leaf p"
  "n_parent (link_child c p) = n_parent p" "n_depth (link_child c p) = n_depth p"
  "avl_data (n_avl (link_child c p)) = avl_data (n_avl p)"
  "l_key (n_avl (link_child c p)) = l_key (n_avl p)" "r_key (n_avl (link_child c p)) = r_key (n_avl p)"
  by (simp_all add: link_child_def Let_def)

lemma link_child_cong:
  "n_key c' = n_key c \<Longrightarrow> n_leaf c' = n_leaf c \<Longrightarrow> n_parent c' = n_parent c \<Longrightarrow> link_child c' = link_child c"
  by (intro ext) (simp add: link_child_def)

lemma link_child_id:
  "n_key c = INVALID_KEY \<or> n_key p = INVALID_KEY \<or> n_parent c \<noteq> n_key p \<Longrightarrow> link_child c p = p"
  by (auto simp: link_child_def Let_def)

lemma link_child_next:
  "n_key c \<noteq> INVALID_KEY \<Longrightarrow> n_key p \<noteq> INVALID_KEY \<Longrightarrow> n_parent c = n_key p \<Longrightarrow>
   link_child c p = p\<lparr>n_avl := point_to [c] (n_avl p)\<rparr>"
  by (auto simp: link_child_def Let_def)

lemma link_all_eq: "link_all nds = map (fold link_child (rev nds)) nds"
proof -
  have "fold (\<lambda>i loc. map (link_child (loc ! i)) loc) is (map f nds) =
      map (\<lambda>p. fold link_child (map (\<lambda>i. nds ! i) is) (f p)) nds"
    if "\<forall>i\<in>set is. i < length nds"
      "\<forall>p. n_key (f p) = n_key p \<and> n_leaf (f p) = n_leaf p \<and> n_parent (f p) = n_parent p" for f "is"
    using that
  proof (induction "is" arbitrary: f)
    case (Cons i "is")
    have "link_child (map f nds ! i) = link_child (nds ! i)"
      by (rule link_child_cong) (use Cons.prems in auto)
    then show ?case
      using Cons.IH [of "\<lambda>p. link_child (nds ! i) (f p)"] Cons.prems by (simp add: comp_def)
  qed simp
  from this [of "rev [0..<length nds]" id] show ?thesis
    by (simp add: link_all_def rev_map [symmetric] map_nth)
qed

lemma fold_link_id:
  "\<forall>c\<in>set cs. n_key c = INVALID_KEY \<or> n_key p = INVALID_KEY \<or> n_parent c \<noteq> n_key p \<Longrightarrow> fold link_child cs p = p"
  by (induction cs) (auto simp: link_child_id)

text \<open>Entries that form a path: each one is the parent of the next.\<close>

fun path_entries :: "i32 \<Rightarrow> local_node list \<Rightarrow> bool" where
  "path_entries p [] = True"
| "path_entries p (e # es) \<longleftrightarrow> n_key e \<noteq> INVALID_KEY \<and> n_parent e = p \<and> path_entries (n_key e) es"

lemma path_entries_append:
  "path_entries p (xs @ ys) \<longleftrightarrow>
   path_entries p xs \<and> path_entries (if xs = [] then p else n_key (last xs)) ys"
  by (induction xs arbitrary: p) auto

lemma chain_path_entries: "chain om vs d es p k lf t hk hl h \<Longrightarrow> path_entries p es"
proof (induction es arbitrary: d p k lf t)
  case (Cons e es)
  from Cons.prems show ?case
    by (cases rule: chain_cases) (use Cons.IH in auto)
qed simp

lemma fold_link_path:
  assumes "path_entries p (es @ e # es')" "distinct (map n_key (es @ e # es'))" "p \<notin> n_key ` set (es @ e # es')"
    and "\<forall>c\<in>set ds. n_key c = INVALID_KEY"
  shows "fold link_child (rev (es @ e # es' @ ds)) e = e\<lparr>n_avl := point_to es' (n_avl e)\<rparr>"
proof -
  have par: "n_parent c \<noteq> n_key e" if "c \<in> set es" for c
    using assms(1-3) that
  proof (induction es arbitrary: p)
    case (Cons a as)
    then show ?case by (cases "c = a") auto
  qed simp
  have after: "path_entries (n_key e) es'" and e: "n_key e \<noteq> INVALID_KEY" "n_parent e = (if es = [] then p else n_key (last es))"
    using assms(1) unfolding path_entries_append by simp_all
  have self: "n_parent e \<noteq> n_key e" using e(2) assms(2,3) by (cases es rule: rev_cases) auto
  have front: "fold link_child (rev (es @ [e])) q = q" if "n_key q = n_key e" for q
    by (rule fold_link_id) (use par self that in auto)
  have dead: "fold link_child (rev ds) q = q" for q
    by (rule fold_link_id) (use assms(4) in auto)
  have mid: "fold link_child (rev es') e = e\<lparr>n_avl := point_to es' (n_avl e)\<rparr>"
  proof (cases es')
    case (Cons c cs)
    have "path_entries (n_key c) cs" and c: "n_key c \<noteq> INVALID_KEY" "n_parent c = n_key e"
      using after Cons by auto
    have "n_parent x \<noteq> n_key e" if "x \<in> set cs" for x
    proof -
      have "n_parent x \<in> n_key ` set (c # cs)"
        using \<open>path_entries (n_key c) cs\<close> that
      proof (induction cs arbitrary: c)
        case (Cons y ys)
        then show ?case by (cases "x = y") fastforce+
      qed simp
      moreover have "n_key e \<notin> n_key ` set (c # cs)" using assms(2) Cons by auto
      ultimately show ?thesis by metis
    qed
    then have "fold link_child (rev cs) e = e" by (intro fold_link_id) auto
    then show ?thesis using link_child_next [OF c(1) e(1) c(2)] Cons by simp
  qed simp
  show ?thesis using dead mid front [of "e\<lparr>n_avl := point_to es' (n_avl e)\<rparr>"] by simp
qed

fun relink :: "local_node list \<Rightarrow> local_node list" where
  "relink [] = []"
| "relink (e # es) = e\<lparr>n_avl := point_to es (n_avl e)\<rparr> # relink es"

lemma relink_props: "length (relink es) = length es" "point_to (relink es) a = point_to es a"
  by (induction es; cases es; auto)+

lemma relink_nth: "i < length es \<Longrightarrow> n_key (relink es ! i) = n_key (es ! i) \<and> n_leaf (relink es ! i) = n_leaf (es ! i)
    \<and> n_depth (relink es ! i) = n_depth (es ! i)
    \<and> avl_data (n_avl (relink es ! i)) = avl_data (n_avl (es ! i))"
proof (induction es arbitrary: i)
  case (Cons e es)
  have "avl_data (point_to es (n_avl e)) = avl_data (n_avl e)" by (cases es) auto
  with Cons show ?case by (cases i) auto
qed simp

lemma relinked_relink:
  "length es1 = length es \<Longrightarrow> (\<forall>i < length es. \<exists>lf. es1 ! i = (es ! i)\<lparr>n_leaf := lf\<rparr>) \<Longrightarrow> relinked es (relink es1)"
proof (induction es arbitrary: es1)
  case (Cons e es)
  then obtain e1 es1' where es1: "es1 = e1 # es1'" by (cases es1) auto
  have "\<forall>i < length es. \<exists>lf. es1' ! i = (es ! i)\<lparr>n_leaf := lf\<rparr>"
    using Cons.prems(2) es1 by (metis Suc_less_eq length_Cons nth_Cons_Suc)
  with Cons.IH [of es1'] Cons.prems es1 show ?case
    using Cons.prems(2) [rule_format, of 0] by (auto simp: relink_props)
qed simp

lemma link_all_path:
  assumes "path_entries INVALID_KEY es" "distinct (map n_key es)" "\<forall>c\<in>set ds. n_key c = INVALID_KEY"
  shows "link_all (es @ ds) = relink es @ ds"
proof -
  have inv: "INVALID_KEY \<notin> n_key ` set es"
  proof -
    have "path_entries p es \<Longrightarrow> INVALID_KEY \<notin> n_key ` set es" for p
      by (induction es arbitrary: p) auto
    then show ?thesis using assms(1) by blast
  qed
  have "map (fold link_child (rev (es @ ds))) ys = relink ys" if "es = xs @ ys" for xs ys
    using that
  proof (induction ys arbitrary: xs)
    case (Cons y ys)
    have "fold link_child (rev (xs @ y # ys @ ds)) y = y\<lparr>n_avl := point_to ys (n_avl y)\<rparr>"
      by (rule fold_link_path [of INVALID_KEY]) (use assms inv Cons.prems in auto)
    with Cons.IH [of "xs @ [y]"] Cons.prems show ?case by simp
  qed simp
  from this [of "[]" es] have "map (fold link_child (rev (es @ ds))) es = relink es" by simp
  moreover have "map (fold link_child (rev (es @ ds))) ds = ds"
    by (intro map_idI fold_link_id) (use assms(3) in auto)
  ultimately show ?thesis by (simp add: link_all_eq)
qed

lemma root_leaf_scan_eq:
  assumes "distinct (map n_key es)" "\<forall>c\<in>set ds. n_key c = INVALID_KEY" "INVALID_KEY \<notin> n_key ` set es"
  shows "root_leaf_scan k (es @ ds) lf = (case find (\<lambda>e. n_key e = k) es of None \<Rightarrow> lf | Some e \<Rightarrow> n_leaf e)"
proof -
  have dead: "root_leaf_scan k ds x = x" for x
    using assms(2) by (induction ds arbitrary: x) (auto simp: root_leaf_scan_def)
  have "root_leaf_scan k es x = (case find (\<lambda>e. n_key e = k) es of None \<Rightarrow> x | Some e \<Rightarrow> n_leaf e)" for x
    using assms(1,3)
  proof (induction es arbitrary: x)
    case (Cons e es)
    have "find (\<lambda>c. n_key c = k) es = None" if "n_key e = k"
      using Cons.prems(1) that unfolding find_None_iff by (metis distinct.simps(2) image_eqI list.set_map list.simps(9))
    with Cons show ?case by (auto simp: root_leaf_scan_def)
  qed (simp add: root_leaf_scan_def)
  with dead show ?thesis by (simp add: root_leaf_scan_def)
qed

lemma reassign_spec:
  assumes ok: "tee_ok t" and loc: "ta_local t = es @ ds" and path: "path_entries INVALID_KEY es"
    and dist: "distinct (map n_key es)" and dead: "\<forall>c\<in>set ds. n_key c = INVALID_KEY"
  shows "\<exists>t' r' es' ds'. reassign_leaves t r = (t', r') \<and> ta_local t' = es' @ ds' \<and> relinked es es'
    \<and> t' = t\<lparr>ta_local := es' @ ds', ta_root_leaf := ta_root_leaf t'\<rparr>
    \<and> (\<forall>i < length es. n_depth (es' ! i) = n_depth (es ! i)
         \<and> avl_data (n_avl (es' ! i)) = avl_data (n_avl (es ! i))
         \<and> leaf_ok (oram_for_depth t (n_depth (es ! i))) (n_leaf (es' ! i)))
    \<and> (\<forall>c\<in>set ds'. n_key c = INVALID_KEY) \<and> map n_depth ds' = map n_depth ds
    \<and> map (avl_data \<circ> n_avl) ds' = map (avl_data \<circ> n_avl) ds
    \<and> (es \<noteq> [] \<longrightarrow> n_key (hd es) = ta_root_key t \<longrightarrow> ta_root_leaf t' = top_leaf lf es')
    \<and> (es = [] \<longrightarrow> ta_root_leaf t' = ta_root_leaf t)"
proof -
  obtain nds r' where d: "draw_leaves t (es @ ds) r = (nds, r')" "length nds = length (es @ ds)"
    "\<forall>i < length (es @ ds). \<exists>lf. nds ! i = ((es @ ds) ! i)\<lparr>n_leaf := lf\<rparr>
       \<and> (n_key ((es @ ds) ! i) \<noteq> INVALID_KEY \<longrightarrow> leaf_ok (oram_for_depth t (n_depth ((es @ ds) ! i))) lf)"
    using draw_leaves_spec [OF ok] by blast
  define es1 where "es1 = take (length es) nds"
  define ds1 where "ds1 = drop (length es) nds"
  have nds: "nds = es1 @ ds1" "length es1 = length es" "length ds1 = length ds"
    using d(2) by (auto simp: es1_def ds1_def)
  have inv: "n_key (es ! i) \<noteq> INVALID_KEY" if "i < length es" for i
  proof -
    have "path_entries p es \<Longrightarrow> c \<in> set es \<Longrightarrow> n_key c \<noteq> INVALID_KEY" for p c
      by (induction es arbitrary: p) auto
    then show ?thesis using path that by auto
  qed
  have e1: "\<exists>lf. es1 ! i = (es ! i)\<lparr>n_leaf := lf\<rparr> \<and> leaf_ok (oram_for_depth t (n_depth (es ! i))) lf"
    if "i < length es" for i
    using d(3) [rule_format, of i] that inv nds by (auto simp: nth_append)
  have d1: "\<exists>lf. ds1 ! i = (ds ! i)\<lparr>n_leaf := lf\<rparr>" if "i < length ds" for i
    using d(3) [rule_format, of "length es + i"] that nds by (auto simp: nth_append)
  have fields: "map n_key es1 = map n_key es" "map n_parent es1 = map n_parent es"
    using e1 nds(2) by (auto simp: list_eq_iff_nth_eq) (metis local_node.select_convs local_node.surjective local_node.update_convs(2))+
  have dfields: "map n_key ds1 = map n_key ds" "map n_depth ds1 = map n_depth ds"
    "map (avl_data \<circ> n_avl) ds1 = map (avl_data \<circ> n_avl) ds"
    using d1 nds(3) by (auto simp: list_eq_iff_nth_eq) (metis local_node.select_convs local_node.surjective local_node.update_convs(2))+
  have dead1: "\<forall>c\<in>set ds1. n_key c = INVALID_KEY"
    using dead dfields(1) by (metis (no_types, lifting) image_eqI imageE list.set_map)
  have path1: "path_entries INVALID_KEY es1"
  proof -
    have "map n_key xs = map n_key ys \<Longrightarrow> map n_parent xs = map n_parent ys \<Longrightarrow> path_entries p ys \<Longrightarrow> path_entries p xs"
      for p xs ys
      by (induction ys arbitrary: p xs) (auto simp: Cons_eq_map_conv)
    then show ?thesis using fields path by blast
  qed
  let ?es = "relink es1"
  have link: "link_all nds = ?es @ ds1"
    unfolding nds(1) by (rule link_all_path [OF path1 _ dead1]) (use dist fields in simp)
  have rel: "relinked es ?es" by (rule relinked_relink) (use nds e1 in auto)
  have keys: "map n_key ?es = map n_key es" using relinked_length [OF rel] by simp
  have notinv: "INVALID_KEY \<notin> n_key ` set ?es"
    using keys inv by (metis in_set_conv_nth list.set_map length_map nth_map imageE image_eqI)
  let ?rl = "root_leaf_scan (ta_root_key t) (?es @ ds1) (ta_root_leaf t)"
  let ?t = "t\<lparr>ta_local := ?es @ ds1, ta_root_leaf := ?rl\<rparr>"
  have run: "reassign_leaves t r = (?t, r')"
    using d(1) link by (simp add: reassign_leaves_def loc Let_def)
  have scan: "?rl = (case find (\<lambda>e. n_key e = ta_root_key t) ?es of None \<Rightarrow> ta_root_leaf t | Some e \<Rightarrow> n_leaf e)"
    by (rule root_leaf_scan_eq) (use dist keys dead1 notinv in auto)
  have "?rl = top_leaf lf ?es" if "es \<noteq> []" "n_key (hd es) = ta_root_key t"
  proof -
    have "?es \<noteq> []" "n_key (hd ?es) = ta_root_key t"
      using keys that by (metis list.map_disc_iff, metis hd_map list.map_disc_iff)
    then obtain a as where "?es = a # as" "n_key a = ta_root_key t" by (cases ?es) auto
    then show ?thesis using scan by simp
  qed
  moreover have "?rl = ta_root_leaf t" if "es = []" using scan keys that by simp
  moreover have "n_depth (?es ! i) = n_depth (es ! i) \<and> avl_data (n_avl (?es ! i)) = avl_data (n_avl (es ! i))
      \<and> leaf_ok (oram_for_depth t (n_depth (es ! i))) (n_leaf (?es ! i))" if "i < length es" for i
    using relink_nth [of i es1] e1 [OF that] that nds(2) by auto
  ultimately show ?thesis
    using run rel dead1 dfields(2,3)
    by (intro exI [of _ ?t] exI [of _ r'] exI [of _ ?es] exI [of _ ds1]) simp
qed

section \<open>The flush\<close>

lemma step_effect_trans: "step_effect t t' \<Longrightarrow> step_effect t' t'' \<Longrightarrow> step_effect t t''"
  by (auto simp: step_effect_def intro: same_conf_trans)

lemma put_effect:
  assumes ok: "tee_ok t" and o1: "eo_inv o1" "eo_geometry o1 = eo_geometry (oram_for_depth t (of_nat j))"
    and m: "eo_map o1 = (tee_view t j)(k := x)" "k \<noteq> - 2"
  shows "step_effect t (set_oram (of_nat j) o1 t)"
    "\<And>i y. y \<noteq> k \<Longrightarrow> tee_view (set_oram (of_nat j) o1 t) i y = tee_view t i y"
    "tee_view (set_oram (of_nat j) o1 t) j k = x"
proof -
  have st: "store_ok (ta_value_size t) (oram_for_depth t (of_nat j))" by (rule oram_ok [OF ok])
  then have "tee_view t j (- 2) = None" by (simp add: tee_view_def store_ok_def)
  then have "store_ok (ta_value_size t) o1"
    by (intro store_ok_geometry [OF st]) (use o1 m in \<open>auto simp: eo_geometry_iff\<close>)
  then show "step_effect t (set_oram (of_nat j) o1 t)"
    using tee_ok_set [OF ok _ o1(2)] by (simp add: step_effect_def)
  show "tee_view (set_oram (of_nat j) o1 t) i y = tee_view t i y" if "y \<noteq> k" for i y
    using that m tee_view_same [of t i j] by (auto simp: tee_view_set)
  show "tee_view (set_oram (of_nat j) o1 t) j k = x"
    using m by (simp add: tee_view_set)
qed

lemma flush_node_real:
  assumes ok: "tee_ok t" and e: "n_key e \<noteq> INVALID_KEY" "n_key e \<noteq> - 2" "n_depth e = of_nat j"
      "leaf_ok (oram_for_depth t (of_nat j)) (n_leaf e)" "length (avl_data (n_avl e)) = ta_value_size t"
    and free: "tee_view t j (n_key e) = None"
  shows "step_effect t (flush_node e t)"
    "\<And>i x. x \<noteq> n_key e \<Longrightarrow> tee_view (flush_node e t) i x = tee_view t i x"
    "tee_view (flush_node e t) j (n_key e) = Some (n_leaf e, encode_node (n_avl e))"
proof -
  let ?o = "oram_for_depth t (of_nat j)"
  have st: "store_ok (ta_value_size t) ?o" by (rule oram_ok [OF ok])
  then have inv: "eo_inv ?o" "eo_value_size ?o = AVL_HEADER_SIZE + ta_value_size t" by (auto simp: store_ok_def)
  let ?o' = "add_to_stash (n_key e) (n_leaf e) (encode_node (n_avl e)) ?o"
  have o': "eo_inv ?o'" "eo_geometry ?o' = eo_geometry ?o"
    "eo_map ?o' = (tee_view t j)(n_key e \<mapsto> (n_leaf e, encode_node (n_avl e)))"
    using enclave.put_new [of ?o "n_key e" "n_leaf e" "encode_node (n_avl e)"] inv e free
    by (simp_all add: tee_view_def)
  have f: "flush_node e t = set_oram (of_nat j) ?o' t" by (simp add: flush_node_def e(3))
  show "step_effect t (flush_node e t)"
    "\<And>i x. x \<noteq> n_key e \<Longrightarrow> tee_view (flush_node e t) i x = tee_view t i x"
    "tee_view (flush_node e t) j (n_key e) = Some (n_leaf e, encode_node (n_avl e))"
    unfolding f using put_effect [OF ok o' e(2)] by simp_all
qed

lemma flush_node_dummy:
  assumes ok: "tee_ok t" and e: "n_key e = INVALID_KEY" "n_depth e = of_nat j"
      "length (avl_data (n_avl e)) = ta_value_size t"
  shows "step_effect t (flush_node e t)" "tee_view (flush_node e t) = tee_view t"
proof -
  let ?o = "oram_for_depth t (of_nat j)"
  have st: "store_ok (ta_value_size t) ?o" by (rule oram_ok [OF ok])
  then have inv: "eo_inv ?o" "eo_value_size ?o = AVL_HEADER_SIZE + ta_value_size t" by (auto simp: store_ok_def)
  let ?o' = "add_to_stash INVALID_KEY (n_leaf e) (encode_node (n_avl e)) ?o"
  have o': "eo_inv ?o'" "eo_geometry ?o' = eo_geometry ?o"
    "eo_map ?o' = (tee_view t j)(INVALID_KEY := tee_view t j INVALID_KEY)"
    using enclave.put_dummy [of ?o "encode_node (n_avl e)" "n_leaf e"] inv e
    by (simp_all add: tee_view_def fun_eq_iff)
  have f: "flush_node e t = set_oram (of_nat j) ?o' t" by (simp add: flush_node_def e)
  note p = put_effect [OF ok o' minus2_not_invalid [symmetric]]
  show "step_effect t (flush_node e t)" unfolding f by (rule p(1))
  have "tee_view (set_oram (of_nat j) ?o' t) i = tee_view t i" for i
    using o'(3) tee_view_same [of t i j] by (auto simp: tee_view_set)
  then show "tee_view (flush_node e t) = tee_view t" unfolding f by (intro ext) simp
qed

lemma step_effect_conf:
  assumes "step_effect t t'"
  shows "tee_ok t'" "ta_value_size t' = ta_value_size t" "leaf_ok (oram_for_depth t' d) = leaf_ok (oram_for_depth t d)"
    "ta_max_height t' = ta_max_height t" "ta_root_key t' = ta_root_key t" "ta_root_leaf t' = ta_root_leaf t"
  using assms same_conf_oram [of t t' d] enclave.shape_law [of "oram_for_depth t' d" "oram_for_depth t d"]
  by (auto simp: step_effect_def same_conf_def)

lemma flush_real_list:
  assumes "tee_ok t" "distinct (map n_key es)"
    and "\<And>i. i < length es \<Longrightarrow> n_key (es ! i) \<noteq> INVALID_KEY \<and> n_key (es ! i) \<noteq> - 2
      \<and> n_depth (es ! i) = of_nat (d + i) \<and> length (avl_data (n_avl (es ! i))) = ta_value_size t
      \<and> leaf_ok (oram_for_depth t (of_nat (d + i))) (n_leaf (es ! i)) \<and> tee_view t (d + i) (n_key (es ! i)) = None"
  shows "step_effect t (fold flush_node es t)
    \<and> (\<forall>j x. x \<notin> n_key ` set es \<longrightarrow> tee_view (fold flush_node es t) j x = tee_view t j x)
    \<and> (\<forall>i < length es. tee_view (fold flush_node es t) (d + i) (n_key (es ! i)) =
         Some (n_leaf (es ! i), encode_node (n_avl (es ! i))))"
  using assms
proof (induction es arbitrary: t d)
  case (Cons e es)
  have e: "n_key e \<noteq> INVALID_KEY" "n_key e \<noteq> - 2" "n_depth e = of_nat d"
    "leaf_ok (oram_for_depth t (of_nat d)) (n_leaf e)" "length (avl_data (n_avl e)) = ta_value_size t"
    "tee_view t d (n_key e) = None"
    using Cons.prems(3) [of 0] by simp_all
  note f = flush_node_real [OF Cons.prems(1) e]
  let ?t = "flush_node e t"
  note c = step_effect_conf [OF f(1)]
  have IH: "step_effect ?t (fold flush_node es ?t)
    \<and> (\<forall>j x. x \<notin> n_key ` set es \<longrightarrow> tee_view (fold flush_node es ?t) j x = tee_view ?t j x)
    \<and> (\<forall>i < length es. tee_view (fold flush_node es ?t) (Suc d + i) (n_key (es ! i)) =
         Some (n_leaf (es ! i), encode_node (n_avl (es ! i))))"
  proof (rule Cons.IH [OF c(1)])
    show "distinct (map n_key es)" using Cons.prems(2) by simp
    fix i assume i: "i < length es"
    then have "n_key (es ! i) \<noteq> n_key e"
      using Cons.prems(2) by (metis distinct.simps(2) image_eqI list.set_map list.simps(9) nth_mem)
    then show "n_key (es ! i) \<noteq> INVALID_KEY \<and> n_key (es ! i) \<noteq> - 2
      \<and> n_depth (es ! i) = of_nat (Suc d + i) \<and> length (avl_data (n_avl (es ! i))) = ta_value_size ?t
      \<and> leaf_ok (oram_for_depth ?t (of_nat (Suc d + i))) (n_leaf (es ! i))
      \<and> tee_view ?t (Suc d + i) (n_key (es ! i)) = None"
      using Cons.prems(3) [of "Suc i"] i f(2) c(2,3) by simp
  qed
  have "tee_view (fold flush_node (e # es) t) (d + i) (n_key ((e # es) ! i)) =
      Some (n_leaf ((e # es) ! i), encode_node (n_avl ((e # es) ! i)))" if "i < length (e # es)" for i
  proof (cases i)
    case 0
    have "n_key e \<notin> n_key ` set es" using Cons.prems(2) by simp
    then show ?thesis using IH f(3) 0 by simp
  qed (use IH that in auto)
  with IH f(2) step_effect_trans [OF f(1)] show ?case by auto
qed (simp add: step_effect_def)

lemma flush_dummy_list:
  assumes "tee_ok t" "\<forall>e\<in>set ds. n_key e = INVALID_KEY \<and> (\<exists>j. n_depth e = of_nat j)
      \<and> length (avl_data (n_avl e)) = ta_value_size t"
  shows "step_effect t (fold flush_node ds t) \<and> tee_view (fold flush_node ds t) = tee_view t"
  using assms
proof (induction ds arbitrary: t)
  case (Cons e es)
  then obtain j where e: "n_key e = INVALID_KEY" "n_depth e = of_nat j"
    "length (avl_data (n_avl e)) = ta_value_size t"
    by auto
  note f = flush_node_dummy [OF Cons.prems(1) e]
  note c = step_effect_conf [OF f(1)]
  have "step_effect (flush_node e t) (fold flush_node es (flush_node e t)) \<and>
    tee_view (fold flush_node es (flush_node e t)) = tee_view (flush_node e t)"
    by (rule Cons.IH [OF c(1)]) (use Cons.prems(2) c(2) in auto)
  with f step_effect_trans [OF f(1)] show ?case by auto
qed (simp add: step_effect_def)

end
