(* ===== verification/Tee_Avl_Lookup.thy ===== *)
theory Tee_Avl_Lookup
  imports Tee_Avl_Search
begin

text \<open>
  The search of the enclave map returns what the stored search tree holds, and stores the tree again
  with the value written, under new leaves.
\<close>

definition tee_rep :: "tee_avl \<Rightarrow> kv_tree \<Rightarrow> bool" where
  "tee_rep t tree \<longleftrightarrow> tee_ok t
     \<and> tree_at (tee_view t) (sized (ta_value_size t)) 0 (ta_root_key t) (ta_root_leaf t) tree
     \<and> key_ordered tree \<and> height tree \<le> ta_max_height t"

lemma tee_view_local [simp]:
  "tee_view (t\<lparr>ta_local := l\<rparr>) = tee_view t" "tee_view (t\<lparr>ta_root_leaf := x\<rparr>) = tee_view t"
  by (simp_all add: tee_view_def fun_eq_iff)

section \<open>One iteration, read with Booleans\<close>

lemma search_advance_idle:
  assumes "length (s_result s) = vs" "length (avl_data (n_avl node)) = vs"
    and "\<forall>u. update = Some u \<longrightarrow> length u \<le> vs"
  shows "search_advance k update vs d 0 s node =
    (s\<lparr>s_cur_key := INVALID_KEY, s_cur_leaf := INVALID_LEAF\<rparr>, node)"
  using assms by (auto simp: search_advance_def Let_def max_def split: option.split)

lemma search_advance_hit:
  assumes "n_key node = k" "s_found s = 0" "\<forall>u. update = Some u \<longrightarrow> length u \<le> vs"
  shows "search_advance k update vs d 1 s node =
    (\<lparr>s_cur_key = INVALID_KEY, s_cur_leaf = INVALID_LEAF, s_found = 1, s_found_idx = of_nat d,
      s_result = avl_data (n_avl node)\<rparr>,
     case update of None \<Rightarrow> node | Some u \<Rightarrow> set_entry k (pad_bytes u vs) node)"
  using assms by (auto simp: search_advance_def set_entry_def split: option.split)

lemma search_advance_miss:
  assumes "n_key node \<noteq> k" "s_found s = 0" "length (s_result s) = vs" "length (avl_data (n_avl node)) = vs"
    and "\<forall>u. update = Some u \<longrightarrow> length u \<le> vs" "diff_fits k (s_cur_key s)"
  shows "search_advance k update vs d 1 s node =
    (s\<lparr>s_cur_key := if sint k < sint (s_cur_key s) then l_key (n_avl node) else r_key (n_avl node),
       s_cur_leaf := if sint k < sint (s_cur_key s) then l_leaf (n_avl node) else r_leaf (n_avl node)\<rparr>, node)"
  using assms by (auto simp: search_advance_def o_less_fits Let_def max_def split: option.split)

section \<open>The invariant of the loop\<close>

definition local_ok ::
  "tee_avl \<Rightarrow> kv_tree \<Rightarrow> tee_avl \<Rightarrow> local_node list \<Rightarrow> local_node list \<Rightarrow> i32 \<Rightarrow> i32 \<Rightarrow> kv_tree \<Rightarrow> bool" where
  "local_ok t0 tree t es ds hk hl h \<longleftrightarrow>
     step_effect t0 t \<and> ta_local t = es @ ds
     \<and> chain (tee_view t) (sized (ta_value_size t0)) 0 es INVALID_KEY (ta_root_key t0) (ta_root_leaf t0) tree hk hl h
     \<and> (\<forall>c\<in>set ds. n_key c = INVALID_KEY \<and> (\<exists>j. n_depth c = of_nat j)
          \<and> length (avl_data (n_avl c)) = ta_value_size t0)"

definition written :: "kv_tree \<Rightarrow> i32 \<Rightarrow> bytes option \<Rightarrow> nat \<Rightarrow> kv_tree" where
  "written tree k update vs = (case update of None \<Rightarrow> tree | Some u \<Rightarrow> set_val k (pad_bytes u vs) tree)"

datatype search_phase = Descending | Missing | Found nat bytes

fun phase_ok ::
  "tee_avl \<Rightarrow> kv_tree \<Rightarrow> i32 \<Rightarrow> bool \<Rightarrow> bytes option \<Rightarrow> nat \<Rightarrow> search_state \<Rightarrow> tee_avl \<Rightarrow> search_phase \<Rightarrow> bool" where
  "phase_ok t0 tree k is_real update d s t Descending \<longleftrightarrow>
     is_real \<and> s_found s = 0 \<and> s_result s = replicate (ta_value_size t0) 0 \<and> s_cur_key s \<noteq> INVALID_KEY
     \<and> (\<exists>es h. local_ok t0 tree t es [] (s_cur_key s) (s_cur_leaf s) h
          \<and> length es = d \<and> key_ordered h \<and> tree_map h k = tree_map tree k \<and> height h + d \<le> ta_max_height t0)"
| "phase_ok t0 tree k is_real update d s t Missing \<longleftrightarrow>
     s_found s = 0 \<and> s_result s = replicate (ta_value_size t0) 0 \<and> s_cur_key s = INVALID_KEY
     \<and> (is_real \<longrightarrow> tree_map tree k = None)
     \<and> (\<exists>es ds hk hl h. local_ok t0 tree t es ds hk hl h \<and> length (es @ ds) = d)"
| "phase_ok t0 tree k is_real update d s t (Found i v) \<longleftrightarrow>
     is_real \<and> s_found s = 1 \<and> s_result s = v \<and> s_cur_key s = INVALID_KEY
     \<and> tree_map tree k = Some v \<and> s_found_idx s = of_nat i \<and> length v = ta_value_size t0
     \<and> (\<exists>es ds hk hl h. local_ok t0 (written tree k update (ta_value_size t0)) t es ds hk hl h
          \<and> length (es @ ds) = d \<and> i < length es \<and> n_key (es ! i) = k)"

declare phase_ok.simps [simp del]

lemma oram_step_idle:
  assumes "local_ok t0 tree t es ds hk hl h"
  shows "safe_run (oram_step (of_nat j) k lf 0 par t r) (\<lambda>(t', r').
    \<exists>e. local_ok t0 tree t' es (ds @ [e]) hk hl h \<and> ta_value_size t' = ta_value_size t0
      \<and> length (avl_data (n_avl e)) = ta_value_size t0)"
proof -
  have ok: "tee_ok t" and vs: "ta_value_size t = ta_value_size t0"
    using assms step_effect_conf by (auto simp: local_ok_def)
  show ?thesis
  proof (rule safe_run_mono [OF oram_step_gen [OF ok, of False k j lf undefined par r, simplified of_bool_eq]])
    show "False \<longrightarrow> k \<noteq> INVALID_KEY \<and> k \<noteq> - 2 \<and> tee_view t j k = Some (lf, encode_node undefined)" by simp
    fix y assume "case y of (t', r') \<Rightarrow> step_effect t t' \<and>
         (\<exists>e. ta_local t' = ta_local t @ [e] \<and> n_depth e = word_of_nat j \<and>
            (if False then e = \<lparr>n_key = k, n_leaf = lf, n_avl = undefined, n_parent = par, n_depth = word_of_nat j\<rparr>
             else n_key e = INVALID_KEY \<and> length (avl_data (n_avl e)) = ta_value_size t)) \<and>
         (\<forall>i x. (False \<longrightarrow> x \<noteq> k) \<longrightarrow> tee_view t' i x = tee_view t i x) \<and> (False \<longrightarrow> tee_view t' j k = None)"
    then obtain t' r' e where y: "y = (t', r')" and eff: "step_effect t t'"
      and e: "ta_local t' = ta_local t @ [e]" "n_depth e = of_nat j" "n_key e = INVALID_KEY"
        "length (avl_data (n_avl e)) = ta_value_size t"
      and view: "\<forall>i x. tee_view t' i x = tee_view t i x"
      by (cases y) auto
    have "tee_view t' = tee_view t" using view by (simp add: fun_eq_iff)
    then have "local_ok t0 tree t' es (ds @ [e]) hk hl h"
      using assms eff e vs by (auto simp: local_ok_def intro: step_effect_trans)
    then show "case y of (t', r') \<Rightarrow> \<exists>e. local_ok t0 tree t' es (ds @ [e]) hk hl h
        \<and> ta_value_size t' = ta_value_size t0 \<and> length (avl_data (n_avl e)) = ta_value_size t0"
      using y e vs step_effect_conf(2) [OF eff] by auto
  qed
qed

lemma search_iter_idle:
  assumes loc: "local_ok t0 tree t es ds hk hl h" and st: "s_cur_key s = INVALID_KEY"
    and len: "length (s_result s) = ta_value_size t0" "length (es @ ds) = d"
    and upd: "\<forall>u. update = Some u \<longrightarrow> length u \<le> ta_value_size t0"
  shows "safe_run (search_iter k update d (s, t, r)) (\<lambda>(s', t', r').
    s_found s' = s_found s \<and> s_result s' = s_result s \<and> s_cur_key s' = INVALID_KEY
    \<and> s_found_idx s' = s_found_idx s \<and> (\<exists>e. local_ok t0 tree t' es (ds @ [e]) hk hl h))"
proof -
  have run: "search_iter k update d (s, t, r) =
      bind_result (oram_step (of_nat d) (s_cur_key s) (s_cur_leaf s) 0 INVALID_KEY t r) (\<lambda>(t1, r1).
        case search_advance k update (ta_value_size t1) d 0 s (ta_local t1 ! (length (ta_local t1) - 1)) of
          (s', node) \<Rightarrow> Inr (s', t1\<lparr>ta_local := (ta_local t1)[length (ta_local t1) - 1 := node]\<rparr>, r1))"
    by (simp add: search_iter_def st Let_def)
  show ?thesis
    unfolding run
  proof (rule safe_run_bind [OF oram_step_idle [OF loc, of d "s_cur_key s" "s_cur_leaf s" INVALID_KEY r]], clarify)
    fix t1 r1 e
    assume e: "local_ok t0 tree t1 es (ds @ [e]) hk hl h" "ta_value_size t1 = ta_value_size t0"
      "length (avl_data (n_avl e)) = ta_value_size t0"
    have l: "ta_local t1 = (es @ ds) @ [e]" using e(1) by (simp add: local_ok_def)
    have adv: "search_advance k update (ta_value_size t1) d 0 s e =
        (s\<lparr>s_cur_key := INVALID_KEY, s_cur_leaf := INVALID_LEAF\<rparr>, e)"
      by (rule search_advance_idle) (use e len upd in simp_all)
    have last: "ta_local t1 ! (length (ta_local t1) - 1) = e" "(ta_local t1)[length (ta_local t1) - 1 := e] = ta_local t1"
      by (simp_all add: l nth_append list_update_append)
    have "t1\<lparr>ta_local := ta_local t1\<rparr> = t1" by simp
    then show "safe_run (case search_advance k update (ta_value_size t1) d 0 s (ta_local t1 ! (length (ta_local t1) - 1)) of
          (s', node) \<Rightarrow> Inr (s', t1\<lparr>ta_local := (ta_local t1)[length (ta_local t1) - 1 := node]\<rparr>, r1))
        (\<lambda>(s', t', r'). s_found s' = s_found s \<and> s_result s' = s_result s \<and> s_cur_key s' = INVALID_KEY
          \<and> s_found_idx s' = s_found_idx s \<and> (\<exists>e. local_ok t0 tree t' es (ds @ [e]) hk hl h))"
      unfolding last adv prod.case using e(1) by (auto simp: last(2))
  qed
qed

text \<open>A step that descends: the root of the hole is taken out, and the search stops or goes on below.\<close>

lemma oram_step_descend:
  assumes loc: "local_ok t0 tree t es [] hk hl h" and dist: "tree_distinct tree"
    and hk: "hk \<noteq> INVALID_KEY" "hk \<noteq> - 2"
    and par: "par = (if es = [] then INVALID_KEY else n_key (last es))"
  shows "\<exists>l v r nd. h = Node l (hk, v) r \<and> length v = ta_value_size t0 \<and> avl_data nd = v \<and>
    (let e = \<lparr>n_key = hk, n_leaf = hl, n_avl = nd, n_parent = par, n_depth = of_nat (length es)\<rparr>
     in safe_run (oram_step (of_nat (length es)) hk hl 1 par t rng) (\<lambda>(t', r').
          local_ok t0 tree t' (es @ [e]) [] (l_key nd) (l_leaf nd) l
          \<and> local_ok t0 tree t' (es @ [e]) [] (r_key nd) (r_leaf nd) r))"
proof -
  have eff: "step_effect t0 t" and l0: "ta_local t = es"
    and ch: "chain (tee_view t) (sized (ta_value_size t0)) 0 es INVALID_KEY (ta_root_key t0) (ta_root_leaf t0) tree hk hl h"
    using loc by (auto simp: local_ok_def)
  note conf = step_effect_conf [OF eff]
  have hole: "tree_at (tee_view t) (sized (ta_value_size t0)) (length es) hk hl h"
    using chain_keys [OF ch] by simp
  then obtain l v r nd where h: "h = Node l (hk, v) r" and nd: "length v = ta_value_size t0"
      "tee_view t (length es) hk = Some (hl, encode_node nd)" "avl_data nd = v"
    using hk(1) by (cases h) auto
  let ?e = "\<lparr>n_key = hk, n_leaf = hl, n_avl = nd, n_parent = par, n_depth = of_nat (length es)\<rparr>"
  have "safe_run (oram_step (of_nat (length es)) hk hl (of_bool True) par t rng) (\<lambda>(t', r').
      local_ok t0 tree t' (es @ [?e]) [] (l_key nd) (l_leaf nd) l
      \<and> local_ok t0 tree t' (es @ [?e]) [] (r_key nd) (r_leaf nd) r)"
  proof (rule safe_run_mono [OF oram_step_gen [OF conf(1), of True hk "length es" hl nd par rng]])
    show "True \<longrightarrow> hk \<noteq> INVALID_KEY \<and> hk \<noteq> - 2 \<and> tee_view t (length es) hk = Some (hl, encode_node nd)"
      using hk nd by simp
    fix y assume "case y of (t', r') \<Rightarrow> step_effect t t' \<and>
         (\<exists>e. ta_local t' = ta_local t @ [e] \<and> n_depth e = of_nat (length es) \<and>
            (if True then e = \<lparr>n_key = hk, n_leaf = hl, n_avl = nd, n_parent = par, n_depth = of_nat (length es)\<rparr>
             else n_key e = INVALID_KEY \<and> length (avl_data (n_avl e)) = ta_value_size t)) \<and>
         (\<forall>i x. (True \<longrightarrow> x \<noteq> hk) \<longrightarrow> tee_view t' i x = tee_view t i x) \<and>
         (True \<longrightarrow> tee_view t' (length es) hk = None)"
    then obtain t' r' where y: "y = (t', r')" "step_effect t t'" "ta_local t' = es @ [?e]"
      "\<And>i x. x \<noteq> hk \<Longrightarrow> tee_view t' i x = tee_view t i x" "tee_view t' (length es) hk = None"
      using l0 by (cases y) auto
    have "chain (tee_view t') (sized (ta_value_size t0)) 0 (es @ [?e]) INVALID_KEY (ta_root_key t0) (ta_root_leaf t0) tree (l_key nd) (l_leaf nd) l
      \<and> chain (tee_view t') (sized (ta_value_size t0)) 0 (es @ [?e]) INVALID_KEY (ta_root_key t0) (ta_root_leaf t0) tree (r_key nd) (r_leaf nd) r"
      by (rule chain_fetch [OF ch [unfolded h] dist]) (use nd y par in simp_all)
    then show "case y of (t', r') \<Rightarrow> local_ok t0 tree t' (es @ [?e]) [] (l_key nd) (l_leaf nd) l
      \<and> local_ok t0 tree t' (es @ [?e]) [] (r_key nd) (r_leaf nd) r"
      using y step_effect_trans [OF eff] by (simp add: local_ok_def)
  qed
  then show ?thesis using h nd by (auto simp: Let_def)
qed

lemma local_ok_hole:
  assumes "local_ok t0 tree t es ds hk hl h"
  shows "tree_at (tee_view t) (sized (ta_value_size t0)) (length es) hk hl h" "keys_of h \<subseteq> keys_of tree"
    "n_key ` set es \<subseteq> keys_of tree"
proof -
  have "chain (tee_view t) (sized (ta_value_size t0)) 0 es INVALID_KEY (ta_root_key t0) (ta_root_leaf t0) tree hk hl h"
    using assms by (simp add: local_ok_def)
  from chain_keys [OF this] show "tree_at (tee_view t) (sized (ta_value_size t0)) (length es) hk hl h"
    "keys_of h \<subseteq> keys_of tree" "n_key ` set es \<subseteq> keys_of tree"
    by auto
qed

lemma key_nonneg: "key_ordered tree \<Longrightarrow> x \<in> keys_of tree \<Longrightarrow> 0 \<le> sint x \<and> x \<noteq> INVALID_KEY \<and> x \<noteq> - 2"
  by (auto simp: key_ordered_def INVALID_KEY_def)

text \<open>The value of the last fetched node is overwritten when an update is given.\<close>

lemma local_ok_write:
  assumes loc: "local_ok t0 tree t (es @ [e]) [] hk hl h" and dist: "tree_distinct tree"
    and k: "n_key e = k" and upd: "\<forall>u. update = Some u \<longrightarrow> length u \<le> ta_value_size t0"
  defines "e' \<equiv> (case update of None \<Rightarrow> e | Some u \<Rightarrow> set_entry k (pad_bytes u (ta_value_size t0)) e)"
  shows "local_ok t0 (written tree k update (ta_value_size t0)) (t\<lparr>ta_local := es @ [e']\<rparr>) (es @ [e']) [] hk hl h"
proof (cases update)
  case None
  have "t\<lparr>ta_local := es @ [e]\<rparr> = t" using loc by (simp add: local_ok_def)
  then show ?thesis using loc None by (simp add: e'_def written_def)
next
  case (Some u)
  let ?w = "pad_bytes u (ta_value_size t0)"
  have ch: "chain (tee_view t) (sized (ta_value_size t0)) 0 (es @ [e]) INVALID_KEY (ta_root_key t0) (ta_root_leaf t0) tree hk hl h"
    and eff: "step_effect t0 t"
    using loc by (simp_all add: local_ok_def)
  have len: "length ?w = ta_value_size t0" using upd Some by (simp add: max_def)
  have "k \<notin> n_key ` set es" using chain_distinct [OF ch dist] k by simp
  then have others: "map (set_entry k ?w) es = es"
    by (intro map_idI set_entry_simps(2)) (metis image_eqI)
  have "chain (tee_view t) (sized (ta_value_size t0)) 0 (map (set_entry k ?w) (es @ [e])) INVALID_KEY
      (ta_root_key t0) (ta_root_leaf t0) (set_val k ?w tree) hk hl h"
    by (rule chain_set_data [OF ch dist]) (use k len in simp_all)
  moreover have "step_effect t0 (t\<lparr>ta_local := es @ [e']\<rparr>)"
    using eff by (auto simp: step_effect_def tee_ok_def same_conf_def)
  ultimately show ?thesis
    using Some others by (simp add: local_ok_def written_def e'_def)
qed

lemma search_iter_descend:
  assumes loc: "local_ok t0 tree t es [] (s_cur_key s) (s_cur_leaf s) h" and ord: "key_ordered tree"
    and len: "length es = d" and hole: "s_cur_key s \<noteq> INVALID_KEY" "key_ordered h" "tree_map h k = tree_map tree k"
    and height: "height h + d \<le> ta_max_height t0"
    and st: "s_found s = 0" "s_result s = replicate (ta_value_size t0) 0"
    and upd: "\<forall>u. update = Some u \<longrightarrow> length u \<le> ta_value_size t0" and k: "0 \<le> sint k"
  shows "safe_run (search_iter k update d (s, t, rng)) (\<lambda>(s', t', r').
    \<exists>ph. phase_ok t0 tree k True update (Suc d) s' t' ph)"
proof -
  let ?vs = "ta_value_size t0" and ?hk = "s_cur_key s"
  have dist: "tree_distinct tree" by (rule key_ordered_distinct [OF ord])
  have hk: "?hk \<in> keys_of tree"
    using tree_at_root [OF local_ok_hole(1) [OF loc] hole(1)] local_ok_hole(2) [OF loc] by blast
  note hk' = key_nonneg [OF ord hk]
  let ?par = "if es = [] then INVALID_KEY else n_key (last es)"
  obtain l v r nd where h: "h = Node l (?hk, v) r" and v: "length v = ?vs" "avl_data nd = v"
    and step: "safe_run (oram_step (of_nat d) ?hk (s_cur_leaf s) 1 ?par t rng) (\<lambda>(t', r').
       local_ok t0 tree t' (es @ [\<lparr>n_key = ?hk, n_leaf = s_cur_leaf s, n_avl = nd, n_parent = ?par, n_depth = of_nat d\<rparr>])
         [] (l_key nd) (l_leaf nd) l
       \<and> local_ok t0 tree t' (es @ [\<lparr>n_key = ?hk, n_leaf = s_cur_leaf s, n_avl = nd, n_parent = ?par, n_depth = of_nat d\<rparr>])
         [] (r_key nd) (r_leaf nd) r)"
    using oram_step_descend [OF loc dist hole(1) _ refl, of rng] hk' len by (auto simp: Let_def)
  let ?e = "\<lparr>n_key = ?hk, n_leaf = s_cur_leaf s, n_avl = nd, n_parent = ?par, n_depth = of_nat d\<rparr>"
  have ne: "d = 0 \<longleftrightarrow> es = []" using len by auto
  have par: "(if d = 0 then INVALID_KEY else n_key (ta_local t ! (d - 1))) = ?par"
    using loc len by (auto simp: local_ok_def last_conv_nth)
  have run: "search_iter k update d (s, t, rng) =
      bind_result (oram_step (of_nat d) ?hk (s_cur_leaf s) 1 ?par t rng) (\<lambda>(t1, r1).
        case search_advance k update (ta_value_size t1) d 1 s (ta_local t1 ! (length (ta_local t1) - 1)) of
          (s', node) \<Rightarrow> Inr (s', t1\<lparr>ta_local := (ta_local t1)[length (ta_local t1) - 1 := node]\<rparr>, r1))"
    unfolding search_iter_def prod.case par using hole(1) st(1) by (simp add: Let_def)
  show ?thesis
    unfolding run
  proof (rule safe_run_bind [OF step], clarify)
    fix t1 r1
    assume L: "local_ok t0 tree t1 (es @ [?e]) [] (l_key nd) (l_leaf nd) l"
      and R: "local_ok t0 tree t1 (es @ [?e]) [] (r_key nd) (r_leaf nd) r"
    have loc1: "ta_local t1 = es @ [?e]" and vs: "ta_value_size t1 = ?vs"
      using L step_effect_conf(2) by (auto simp: local_ok_def)
    have last: "ta_local t1 ! (length (ta_local t1) - 1) = ?e"
      "(ta_local t1)[length (ta_local t1) - 1 := x] = es @ [x]" for x
      by (simp_all add: loc1 list_update_append)
    show "safe_run (case search_advance k update (ta_value_size t1) d 1 s (ta_local t1 ! (length (ta_local t1) - 1)) of
          (s', node) \<Rightarrow> Inr (s', t1\<lparr>ta_local := (ta_local t1)[length (ta_local t1) - 1 := node]\<rparr>, r1))
        (\<lambda>(s', t', r'). \<exists>ph. phase_ok t0 tree k True update (Suc d) s' t' ph)"
    proof (cases "?hk = k")
      case True
      let ?e' = "case update of None \<Rightarrow> ?e | Some u \<Rightarrow> set_entry k (pad_bytes u ?vs) ?e"
      have adv: "search_advance k update ?vs d 1 s ?e = (\<lparr>s_cur_key = INVALID_KEY, s_cur_leaf = INVALID_LEAF,
          s_found = 1, s_found_idx = of_nat d, s_result = v\<rparr>, ?e')"
        using search_advance_hit [of ?e k s update ?vs d] True st(1) upd v(2) by simp
      have w: "local_ok t0 (written tree k update ?vs) (t1\<lparr>ta_local := es @ [?e']\<rparr>) (es @ [?e']) [] (l_key nd) (l_leaf nd) l"
        by (rule local_ok_write [OF L dist _ upd]) (use True in simp)
      have key: "n_key ((es @ [?e']) ! d) = k"
        using len True by (auto simp: nth_append set_entry_def split: option.split)
      have "tree_map tree k = Some v"
        using hole(3) tree_map_Node [of l ?hk v r k] hole(2) h True by simp
      then have "phase_ok t0 tree k True update (Suc d) \<lparr>s_cur_key = INVALID_KEY, s_cur_leaf = INVALID_LEAF,
          s_found = 1, s_found_idx = of_nat d, s_result = v\<rparr> (t1\<lparr>ta_local := es @ [?e']\<rparr>) (Found d v)"
        unfolding phase_ok.simps using v(1) w key len
        by (intro conjI exI [of _ "es @ [?e']"] exI [of _ "[]"] exI [of _ "l_key nd"] exI [of _ "l_leaf nd"] exI [of _ l]) simp_all
      then show ?thesis unfolding vs last adv prod.case safe_run_simps by blast
    next
      case False
      let ?left = "sint k < sint ?hk"
      let ?k' = "if ?left then l_key nd else r_key nd" and ?l' = "if ?left then l_leaf nd else r_leaf nd"
      let ?h = "if ?left then l else r"
      let ?s = "s\<lparr>s_cur_key := ?k', s_cur_leaf := ?l'\<rparr>"
      have adv: "search_advance k update ?vs d 1 s ?e = (?s, ?e)"
        using search_advance_miss [of ?e k s ?vs update d] False st upd v diff_fits_nonneg [OF k] hk' by simp
      have loc': "local_ok t0 tree t1 (es @ [?e]) [] ?k' ?l' ?h" using L R by simp
      have ord': "key_ordered ?h" and map': "tree_map ?h k = tree_map tree k" and height': "height ?h + Suc d \<le> ta_max_height t0"
        using hole(2,3) tree_map_Node [of l ?hk v r k] h False height by (auto simp: max_def split: if_splits)
      have t1: "t1\<lparr>ta_local := es @ [?e]\<rparr> = t1" using loc1 by simp
      have "\<exists>ph. phase_ok t0 tree k True update (Suc d) ?s t1 ph"
      proof (cases "?k' = INVALID_KEY")
        case True
        then have "?h = Leaf" using tree_at_Leaf_iff [OF local_ok_hole(1) [OF loc']] by simp
        then have "phase_ok t0 tree k True update (Suc d) ?s t1 Missing"
          unfolding phase_ok.simps using st True map' loc' len
          by (intro conjI exI [of _ "es @ [?e]"] exI [of _ "[]"] exI [of _ ?k'] exI [of _ ?l'] exI [of _ ?h]) auto
        then show ?thesis ..
      next
        case inner: False
        have "phase_ok t0 tree k True update (Suc d) ?s t1 Descending"
          unfolding phase_ok.simps using st inner map' loc' len ord' height'
          by (intro conjI exI [of _ "es @ [?e]"] exI [of _ ?h]) simp_all
        then show ?thesis ..
      qed
      then show ?thesis unfolding vs last adv prod.case t1 safe_run_simps by blast
    qed
  qed
qed

section \<open>Start and end of an operation\<close>

lemma eo_inv_tracking:
  "eo_inv o1 \<Longrightarrow> eo_inv (begin_page_tracking o1)" "eo_map (begin_page_tracking o1) = eo_map o1"
  "eo_geometry (begin_page_tracking o1) = eo_geometry o1"
  by (auto simp: begin_page_tracking_def eo_inv_def eo_shape_def placed_def eo_map_def eo_blocks_def path_of_def
      leaf_ok_def eo_geometry_def)

lemma store_ok_tracking: "store_ok vs o1 \<Longrightarrow> store_ok vs (begin_page_tracking o1)"
  using eo_inv_tracking by (auto simp: store_ok_def begin_page_tracking_def)

lemma begin_stats_ok:
  assumes "tee_ok t0"
  defines "t \<equiv> (begin_stats t0)\<lparr>ta_local := []\<rparr>"
  shows "tee_ok t" "same_conf t0 t" "tee_view t = tee_view t0" "ta_root_key t = ta_root_key t0"
    "ta_root_leaf t = ta_root_leaf t0" "ta_local t = []"
  using assms(1) unfolding t_def
  by (auto simp: begin_stats_def tee_ok_def same_conf_def store_ok_tracking eo_inv_tracking fun_eq_iff
      tee_view_def oram_for_depth_def is_upper_def)

lemma end_stats_simps [simp]:
  "tee_view (end_stats t) = tee_view t" "tee_ok (end_stats t) = tee_ok t" "same_conf t0 (end_stats t) = same_conf t0 t"
  "ta_value_size (end_stats t) = ta_value_size t" "ta_root_key (end_stats t) = ta_root_key t"
  "ta_root_leaf (end_stats t) = ta_root_leaf t" "ta_max_height (end_stats t) = ta_max_height t"
  by (auto simp: end_stats_def tee_view_def oram_for_depth_def is_upper_def fun_eq_iff tee_ok_def same_conf_def)

lemma tee_rep_end_stats [simp]: "tee_rep (end_stats t) tree = tee_rep t tree"
  by (simp add: tee_rep_def)

text \<open>The new leaves, the flush and the padding store the tree that the chain stands for.\<close>

lemma store_back:
  assumes loc: "local_ok t0 tree t es ds hk hl h" and ord: "key_ordered tree" and height: "height tree \<le> ta_max_height t0"
    and run: "reassign_leaves t r = (t3, r2)"
  shows "safe_run (pad_ops n (flush_local_to_stash t3) r2) (\<lambda>(t4, r3).
    tee_rep (end_stats t4) tree \<and> same_conf t0 (end_stats t4) \<and> ta_root_key (end_stats t4) = ta_root_key t0)"
proof -
  have eff: "step_effect t0 t" and lt: "ta_local t = es @ ds"
    and ch: "chain (tee_view t) (sized (ta_value_size t0)) 0 es INVALID_KEY (ta_root_key t0) (ta_root_leaf t0) tree hk hl h"
    and dead: "\<forall>c\<in>set ds. n_key c = INVALID_KEY \<and> (\<exists>j. n_depth c = of_nat j)
       \<and> length (avl_data (n_avl c)) = ta_value_size t0"
    using loc by (auto simp: local_ok_def)
  note conf = step_effect_conf [OF eff]
  have dist: "tree_distinct tree" by (rule key_ordered_distinct [OF ord])
  have dk: "distinct (map n_key es)" using chain_distinct [OF ch dist] by simp
  have dd: "\<forall>c\<in>set ds. n_key c = INVALID_KEY" using dead by blast
  obtain t' r' es' ds' where R: "reassign_leaves t r = (t', r')" "ta_local t' = es' @ ds'" "relinked es es'"
    "t' = t\<lparr>ta_local := es' @ ds', ta_root_leaf := ta_root_leaf t'\<rparr>"
    "\<forall>i < length es. n_depth (es' ! i) = n_depth (es ! i)
         \<and> avl_data (n_avl (es' ! i)) = avl_data (n_avl (es ! i))
         \<and> leaf_ok (oram_for_depth t (n_depth (es ! i))) (n_leaf (es' ! i))"
    "\<forall>c\<in>set ds'. n_key c = INVALID_KEY" "map n_depth ds' = map n_depth ds"
    "map (avl_data \<circ> n_avl) ds' = map (avl_data \<circ> n_avl) ds"
    "es \<noteq> [] \<longrightarrow> n_key (hd es) = ta_root_key t \<longrightarrow> ta_root_leaf t' = top_leaf (ta_root_leaf t0) es'"
    "es = [] \<longrightarrow> ta_root_leaf t' = ta_root_leaf t"
    using reassign_spec [OF conf(1) lt chain_path_entries [OF ch] dk dd, where lf = "ta_root_leaf t0" and r = r]
    by (elim exE conjE) (rule that)
  have t3: "t3 = t'" "r2 = r'" using run R(1) by simp_all
  have view: "tee_view t' = tee_view t" "ta_value_size t' = ta_value_size t0" "ta_max_height t' = ta_max_height t0"
    "ta_root_key t' = ta_root_key t0" "oram_for_depth t' = oram_for_depth t"
    by (subst R(4), simp add: conf)+
  have ok: "tee_ok t'" by (subst R(4)) (use conf(1) in \<open>simp add: tee_ok_def\<close>)
  have "same_conf t t'" by (subst R(4)) (simp add: same_conf_def)
  then have sc: "same_conf t0 t'" using eff same_conf_trans by (auto simp: step_effect_def)
  have nk: "length es' = length es" "map n_key es' = map n_key es" using relinked_length [OF R(3)] by auto
  then have nth: "n_key (es' ! i) = n_key (es ! i)" if "i < length es" for i
    using that by (metis nth_map)
  have top: "ta_root_leaf t' = top_leaf (ta_root_leaf t0) es'"
    using R(9,10) chain_root [OF ch] conf(5,6) nk by (cases "es = []") auto
  let ?t5 = "fold flush_node es' t'" and ?t6 = "fold flush_node ds' (fold flush_node es' t')"
  have entry: "n_key (es' ! i) \<noteq> INVALID_KEY \<and> n_key (es' ! i) \<noteq> - 2
      \<and> n_depth (es' ! i) = of_nat (0 + i) \<and> length (avl_data (n_avl (es' ! i))) = ta_value_size t'
      \<and> leaf_ok (oram_for_depth t' (of_nat (0 + i))) (n_leaf (es' ! i)) \<and> tee_view t' (0 + i) (n_key (es' ! i)) = None"
    if "i < length es'" for i
  proof -
    have i: "i < length es" using that nk by simp
    then have "n_key (es ! i) \<in> keys_of tree" using local_ok_hole(3) [OF loc] by auto
    from key_nonneg [OF ord this] show ?thesis
      using chain_entry [OF ch i] R(5) i view nth [OF i] by auto
  qed
  have F: "step_effect t' ?t5"
    "\<And>j x. x \<notin> n_key ` set es \<Longrightarrow> tee_view ?t5 j x = tee_view t j x"
    "\<And>i. i < length es' \<Longrightarrow> tee_view ?t5 (0 + i) (n_key (es' ! i)) = Some (n_leaf (es' ! i), encode_node (n_avl (es' ! i)))"
    using flush_real_list [OF ok, of es' 0] entry dk nk view(1) by (auto simp flip: set_map)
  note c5 = step_effect_conf [OF F(1)]
  have dead': "\<forall>e\<in>set ds'. n_key e = INVALID_KEY \<and> (\<exists>j. n_depth e = of_nat j) \<and> length (avl_data (n_avl e)) = ta_value_size ?t5"
  proof
    fix e assume "e \<in> set ds'"
    then obtain i where i: "i < length ds'" "e = ds' ! i" by (auto simp: in_set_conv_nth)
    have len: "length ds' = length ds" using R(7) by (metis length_map)
    have "n_depth e = n_depth (ds ! i)" "avl_data (n_avl e) = avl_data (n_avl (ds ! i))"
      using R(7,8) i len by (metis nth_map, metis comp_apply nth_map)
    with dead R(6) i len c5(2) view(2) show "n_key e = INVALID_KEY \<and> (\<exists>j. n_depth e = of_nat j)
        \<and> length (avl_data (n_avl e)) = ta_value_size ?t5"
      by (metis nth_mem)
  qed
  have D: "step_effect ?t5 ?t6" "tee_view ?t6 = tee_view ?t5"
    using flush_dummy_list [OF c5(1) dead'] by auto
  let ?t7 = "flush_local_to_stash t'"
  have fl: "?t7 = ?t6\<lparr>ta_local := []\<rparr>" by (simp add: flush_local_to_stash_def R(2))
  have eff6: "step_effect t' ?t6" by (rule step_effect_trans [OF F(1) D(1)])
  then have eff7: "step_effect t' ?t7" unfolding fl by (auto simp: step_effect_def tee_ok_def same_conf_def)
  have tree: "tree_at (tee_view ?t7) (sized (ta_value_size t0)) 0 (ta_root_key t0) (ta_root_leaf t') tree"
    unfolding top fl tee_view_local D(2)
    by (rule chain_flush [OF ch dist R(3)]) (use F in auto)
  note c7 = step_effect_conf [OF eff7]
  show ?thesis
    unfolding t3
  proof (rule safe_run_mono [OF pad_ops_idle [OF c7(1), of n r']], clarify)
    fix t4 r4 assume i: "idle ?t7 t4"
    then have e4: "step_effect ?t7 t4" "tee_view t4 = tee_view ?t7" by (auto simp: idle_def)
    note c4 = step_effect_conf [OF e4(1)]
    have eq: "ta_value_size t4 = ta_value_size t0" "ta_root_key t4 = ta_root_key t0"
      "ta_root_leaf t4 = ta_root_leaf t'" "ta_max_height t4 = ta_max_height t0"
      unfolding c4(2,4-6) c7(2,4-6) view by (rule refl)+
    have "same_conf t' ?t7" "same_conf ?t7 t4" using eff7 e4(1) by (simp_all add: step_effect_def)
    with sc have "same_conf t0 t4" by (blast intro: same_conf_trans)
    moreover have "tee_rep t4 tree"
      unfolding tee_rep_def eq using tree e4(2) c4(1) ord height by simp
    ultimately show "tee_rep (end_stats t4) tree \<and> same_conf t0 (end_stats t4) \<and> ta_root_key (end_stats t4) = ta_root_key t0"
      using eq by simp
  qed
qed

section \<open>The whole search\<close>

definition start_state :: "bool \<Rightarrow> tee_avl \<Rightarrow> search_state" where
  "start_state is_real t =
     \<lparr>s_cur_key = o_select_i is_real (ta_root_key t) INVALID_KEY,
      s_cur_leaf = o_select_i is_real (ta_root_leaf t) INVALID_LEAF,
      s_found = 0, s_found_idx = - 1, s_result = replicate (ta_value_size t) 0\<rparr>"

lemma search_step:
  assumes ord: "key_ordered tree" and k: "is_real \<longrightarrow> 0 \<le> sint k"
    and upd: "\<forall>u. update = Some u \<longrightarrow> length u \<le> ta_value_size t0" and ph: "phase_ok t0 tree k is_real update d s t ph"
  shows "safe_run (search_iter k update d (s, t, r)) (\<lambda>(s', t', r'). \<exists>ph. phase_ok t0 tree k is_real update (Suc d) s' t' ph)"
proof (cases ph)
  case Descending
  then obtain es h where is_real and d: "s_found s = 0" "s_result s = replicate (ta_value_size t0) 0"
    "s_cur_key s \<noteq> INVALID_KEY" "local_ok t0 tree t es [] (s_cur_key s) (s_cur_leaf s) h" "length es = d"
    "key_ordered h" "tree_map h k = tree_map tree k" "height h + d \<le> ta_max_height t0"
    using ph by (auto simp: phase_ok.simps)
  then show ?thesis using search_iter_descend [OF d(4) ord d(5,3,6,7,8,1,2) upd] k by simp
next
  case Missing
  then obtain es ds hk hl h where m: "s_found s = 0" "s_result s = replicate (ta_value_size t0) 0" "s_cur_key s = INVALID_KEY"
    "is_real \<longrightarrow> tree_map tree k = None" "local_ok t0 tree t es ds hk hl h" "length (es @ ds) = d"
    using ph by (auto simp: phase_ok.simps)
  show ?thesis
  proof (rule safe_run_mono [OF search_iter_idle [OF m(5,3) _ m(6) upd, of k r]])
    show "length (s_result s) = ta_value_size t0" using m(2) by simp
    fix y :: "search_state \<times> tee_avl \<times> rng"
    assume y: "case y of (s', t', r') \<Rightarrow> s_found s' = s_found s \<and> s_result s' = s_result s \<and> s_cur_key s' = INVALID_KEY
      \<and> s_found_idx s' = s_found_idx s \<and> (\<exists>e. local_ok t0 tree t' es (ds @ [e]) hk hl h)"
    obtain s' t' r' where yy: "y = (s', t', r')" by (cases y) auto
    then obtain e where "local_ok t0 tree t' es (ds @ [e]) hk hl h" using y by auto
    then have "phase_ok t0 tree k is_real update (Suc d) s' t' Missing"
      unfolding phase_ok.simps using y yy m
      by (intro conjI exI [of _ es] exI [of _ "ds @ [e]"] exI [of _ hk] exI [of _ hl] exI [of _ h]) auto
    then show "case y of (s', t', r') \<Rightarrow> \<exists>ph. phase_ok t0 tree k is_real update (Suc d) s' t' ph" using yy by auto
  qed
next
  case (Found i v)
  then obtain es ds hk hl h where m: is_real "s_found s = 1" "s_result s = v" "s_cur_key s = INVALID_KEY"
    "tree_map tree k = Some v" "s_found_idx s = of_nat i" "length v = ta_value_size t0"
    "local_ok t0 (written tree k update (ta_value_size t0)) t es ds hk hl h" "length (es @ ds) = d"
    "i < length es" "n_key (es ! i) = k"
    using ph by (auto simp: phase_ok.simps)
  show ?thesis
  proof (rule safe_run_mono [OF search_iter_idle [OF m(8,4) _ m(9) upd, of k r]])
    show "length (s_result s) = ta_value_size t0" using m(3,7) by simp
    fix y :: "search_state \<times> tee_avl \<times> rng"
    assume y: "case y of (s', t', r') \<Rightarrow> s_found s' = s_found s \<and> s_result s' = s_result s \<and> s_cur_key s' = INVALID_KEY
      \<and> s_found_idx s' = s_found_idx s
      \<and> (\<exists>e. local_ok t0 (written tree k update (ta_value_size t0)) t' es (ds @ [e]) hk hl h)"
    obtain s' t' r' where yy: "y = (s', t', r')" by (cases y) auto
    then obtain e where "local_ok t0 (written tree k update (ta_value_size t0)) t' es (ds @ [e]) hk hl h" using y by auto
    then have "phase_ok t0 tree k is_real update (Suc d) s' t' (Found i v)"
      unfolding phase_ok.simps using y yy m
      by (intro conjI exI [of _ es] exI [of _ "ds @ [e]"] exI [of _ hk] exI [of _ hl] exI [of _ h]) auto
    then show "case y of (s', t', r') \<Rightarrow> \<exists>ph. phase_ok t0 tree k is_real update (Suc d) s' t' ph" using yy by auto
  qed
qed

lemma search_start:
  assumes rep: "tee_rep t0 tree" and loc: "ta_local t0 = []"
  shows "\<exists>ph. phase_ok t0 tree k is_real update 0 (start_state is_real t0) t0 ph"
proof -
  have tr: "tee_ok t0" "tree_at (tee_view t0) (sized (ta_value_size t0)) 0 (ta_root_key t0) (ta_root_leaf t0) tree"
    "key_ordered tree" "height tree \<le> ta_max_height t0"
    using rep by (auto simp: tee_rep_def)
  have l: "local_ok t0 tree t0 [] [] (ta_root_key t0) (ta_root_leaf t0) tree"
    using tr loc by (simp add: local_ok_def step_effect_def)
  show ?thesis
  proof (cases "is_real \<and> ta_root_key t0 \<noteq> INVALID_KEY")
    case True
    then have "phase_ok t0 tree k is_real update 0 (start_state is_real t0) t0 Descending"
      using l tr by (auto simp: phase_ok.simps start_state_def)
    then show ?thesis ..
  next
    case False
    then have "is_real \<longrightarrow> tree = Leaf" using tree_at_Leaf_iff [OF tr(2)] by auto
    then have "phase_ok t0 tree k is_real update 0 (start_state is_real t0) t0 Missing"
      using l False by (auto simp: phase_ok.simps start_state_def)
    then show ?thesis ..
  qed
qed

lemma search_loop:
  assumes rep: "tee_rep t0 tree" and loc: "ta_local t0 = []" and k: "is_real \<longrightarrow> 0 \<le> sint k"
    and upd: "\<forall>u. update = Some u \<longrightarrow> length u \<le> ta_value_size t0"
  shows "safe_run (for_loop (search_iter k update) 0 (ta_max_height t0) (start_state is_real t0, t0, r)) (\<lambda>(s', t', r').
    \<exists>ph. ph \<noteq> Descending \<and> phase_ok t0 tree k is_real update (ta_max_height t0) s' t' ph)"
proof -
  have ord: "key_ordered tree" using rep by (simp add: tee_rep_def)
  let ?P = "\<lambda>d (s, t, r :: rng). \<exists>ph. phase_ok t0 tree k is_real update d s t ph"
  have "safe_run (for_loop (search_iter k update) 0 (ta_max_height t0) (start_state is_real t0, t0, r)) (?P (0 + ta_max_height t0))"
  proof (rule for_loop_safe)
    show "?P 0 (start_state is_real t0, t0, r)" using search_start [OF rep loc] by simp
    fix i x assume "?P i x"
    then show "safe_run (search_iter k update i x) (?P (Suc i))"
      using search_step [OF ord k upd] by (cases x) auto
  qed
  then show ?thesis
  proof (rule safe_run_mono)
    fix y :: "search_state \<times> tee_avl \<times> rng"
    assume y: "?P (0 + ta_max_height t0) y"
    obtain s t r where yy: "y = (s, t, r)" by (cases y) auto
    obtain ph where ph: "phase_ok t0 tree k is_real update (ta_max_height t0) s t ph" using y yy by auto
    have "ph \<noteq> Descending"
    proof
      assume "ph = Descending"
      then obtain es h where "s_cur_key s \<noteq> INVALID_KEY" "local_ok t0 tree t es [] (s_cur_key s) (s_cur_leaf s) h"
        "height h + ta_max_height t0 \<le> ta_max_height t0"
        using ph by (auto simp: phase_ok.simps)
      then show False using tree_at_Leaf_iff [OF local_ok_hole(1), of t0 tree t es "[]"] by (cases h) auto
    qed
    with ph yy show "case y of (s', t', r') \<Rightarrow>
        \<exists>ph. ph \<noteq> Descending \<and> phase_ok t0 tree k is_real update (ta_max_height t0) s' t' ph" by auto
  qed
qed

text \<open>The write-back changes the value of the one node that was found.\<close>

lemma write_back_found:
  assumes loc: "local_ok t0 tree t es ds hk hl h" and ord: "key_ordered tree"
    and i: "i < length es" "n_key (es ! i) = k" and w: "length w = ta_value_size t0"
    and small: "length (es @ ds) < 2 ^ 31"
  shows "local_ok t0 (set_val k w tree) (t\<lparr>ta_local := write_back 1 (of_nat i) w (ta_local t)\<rparr>)
    (map (set_entry k w) es) ds hk hl h"
proof -
  have eff: "step_effect t0 t" and lt: "ta_local t = es @ ds"
    and ch: "chain (tee_view t) (sized (ta_value_size t0)) 0 es INVALID_KEY (ta_root_key t0) (ta_root_leaf t0) tree hk hl h"
    and dead: "\<forall>c\<in>set ds. n_key c = INVALID_KEY \<and> (\<exists>j. n_depth c = of_nat j)
       \<and> length (avl_data (n_avl c)) = ta_value_size t0"
    using loc by (auto simp: local_ok_def)
  have dist: "tree_distinct tree" by (rule key_ordered_distinct [OF ord])
  have keys: "distinct (map n_key es)" using chain_distinct [OF ch dist] by simp
  have kin: "k \<in> n_key ` set es" using i by auto
  have kval: "k \<noteq> INVALID_KEY" using key_nonneg [OF ord] local_ok_hole(3) [OF loc] kin by auto
  have "write_back 1 (of_nat i) w (es @ ds) = map (set_entry k w) es @ ds"
  proof (rule nth_equalityI)
    fix j assume "j < length (write_back 1 (of_nat i) w (es @ ds))"
    then have j: "j < length (es @ ds)" by (simp add: write_back_def)
    have eq: "(of_nat j :: i32) = of_nat i \<longleftrightarrow> j = i"
      using j i(1) small by (simp add: word_of_nat_eq_iff take_bit_nat_eq_self)
    have nth: "write_back 1 (of_nat i) w (es @ ds) ! j =
        ((es @ ds) ! j)\<lparr>n_avl := (n_avl ((es @ ds) ! j))\<lparr>avl_data :=
          o_mov_bytes (j = i) (avl_data (n_avl ((es @ ds) ! j))) w\<rparr>\<rparr>"
      using j eq by (simp add: write_back_def nth_enumerate_eq)
    show "write_back 1 (of_nat i) w (es @ ds) ! j = (map (set_entry k w) es @ ds) ! j"
    proof (cases "j < length es")
      case True
      have "n_key (es ! j) = k \<longleftrightarrow> j = i"
        using keys True i by (metis length_map nth_eq_iff_index_eq nth_map)
      then show ?thesis
        using True nth chain_entry [OF ch True] w by (auto simp: nth_append set_entry_def)
    next
      case False
      then have "(es @ ds) ! j \<in> set ds" "j \<noteq> i" using j i by (auto simp: nth_append)
      then show ?thesis using nth dead w False by (auto simp: nth_append)
    qed
  qed (simp add: write_back_def)
  moreover have "chain (tee_view t) (sized (ta_value_size t0)) 0 (map (set_entry k w) es) INVALID_KEY
      (ta_root_key t0) (ta_root_leaf t0) (set_val k w tree) hk hl h"
    by (rule chain_set_data [OF ch dist kin]) (use w in simp)
  moreover have "step_effect t0 (t\<lparr>ta_local := map (set_entry k w) es @ ds\<rparr>)"
    using eff by (auto simp: step_effect_def tee_ok_def same_conf_def)
  ultimately show ?thesis using dead by (simp add: local_ok_def lt)
qed

lemma write_back_missing:
  assumes loc: "local_ok t0 tree t es ds hk hl h" and w: "length w = ta_value_size t0"
  shows "t\<lparr>ta_local := write_back 0 x w (ta_local t)\<rparr> = t"
proof -
  have lt: "ta_local t = es @ ds"
    and ch: "chain (tee_view t) (sized (ta_value_size t0)) 0 es INVALID_KEY (ta_root_key t0) (ta_root_leaf t0) tree hk hl h"
    and dead: "\<forall>c\<in>set ds. length (avl_data (n_avl c)) = ta_value_size t0"
    using loc by (auto simp: local_ok_def)
  have "\<forall>c\<in>set (es @ ds). length (avl_data (n_avl c)) = ta_value_size t0"
    using dead chain_entry [OF ch] by (auto simp: in_set_conv_nth)
  then have "\<forall>j < length nds. length (avl_data (n_avl (nds ! j))) = ta_value_size t0" if "nds = es @ ds" for nds
    using that by (simp only: all_set_conv_all_nth)
  then have "write_back 0 x w nds = nds" if "nds = es @ ds" for nds
    using w that by (intro nth_equalityI) (simp_all add: write_back_def nth_enumerate_eq)
  from this [OF lt] show ?thesis by simp
qed

text \<open>The value a search leaves behind: the update first, then the transform of the old value.\<close>

definition new_value :: "bytes option \<Rightarrow> (bytes \<Rightarrow> bytes) option \<Rightarrow> nat \<Rightarrow> bytes \<Rightarrow> bytes" where
  "new_value update transform vs v =
     (case transform of Some f \<Rightarrow> pad_bytes (f v) vs
      | None \<Rightarrow> (case update of Some u \<Rightarrow> pad_bytes u vs | None \<Rightarrow> v))"

definition searched_map ::
  "i32 \<Rightarrow> bool \<Rightarrow> bytes option \<Rightarrow> (bytes \<Rightarrow> bytes) option \<Rightarrow> nat \<Rightarrow> (i32 \<rightharpoonup> bytes) \<Rightarrow> i32 \<rightharpoonup> bytes" where
  "searched_map k is_real update transform vs m =
     (case m k of Some v \<Rightarrow> if is_real then m(k \<mapsto> new_value update transform vs v) else m | None \<Rightarrow> m)"

lemma transform_step:
  assumes ph: "phase_ok t0 tree k is_real update n s t ph" "ph \<noteq> Descending" and ord: "key_ordered tree"
    and upd: "\<forall>u. update = Some u \<longrightarrow> length u \<le> ta_value_size t0" and small: "n < 2 ^ 31"
    and tr: "\<forall>f v. transform = Some f \<and> length v = ta_value_size t0 \<longrightarrow> length (f v) \<le> ta_value_size t0"
  shows "\<exists>tree' es ds hk hl h.
    local_ok t0 tree' (case transform of None \<Rightarrow> t
       | Some f \<Rightarrow> t\<lparr>ta_local := write_back (s_found s) (s_found_idx s)
            (pad_bytes (f (s_result s)) (ta_value_size t)) (ta_local t)\<rparr>) es ds hk hl h
    \<and> key_ordered tree' \<and> height tree' = height tree
    \<and> tree_map tree' = searched_map k is_real update transform (ta_value_size t0) (tree_map tree)
    \<and> (s_found s = (if is_real \<and> k \<in> dom (tree_map tree) then 1 else 0))
    \<and> s_result s = (if is_real \<and> k \<in> dom (tree_map tree) then the (tree_map tree k) else replicate (ta_value_size t0) 0)"
proof (cases ph)
  case Missing
  then obtain es ds hk hl h where m: "s_found s = 0" "s_result s = replicate (ta_value_size t0) 0"
    "is_real \<longrightarrow> tree_map tree k = None" "local_ok t0 tree t es ds hk hl h"
    using ph by (auto simp: phase_ok.simps)
  have vs: "ta_value_size t = ta_value_size t0" using m(4) step_effect_conf(2) by (auto simp: local_ok_def)
  have "(case transform of None \<Rightarrow> t | Some f \<Rightarrow> t\<lparr>ta_local := write_back (s_found s) (s_found_idx s)
            (pad_bytes (f (s_result s)) (ta_value_size t)) (ta_local t)\<rparr>) = t"
    using write_back_missing [OF m(4)] m(1,2) tr vs by (auto simp: max_def split: option.split)
  moreover have "tree_map tree = searched_map k is_real update transform (ta_value_size t0) (tree_map tree)"
    "\<not> (is_real \<and> k \<in> dom (tree_map tree))"
    using m(3) by (auto simp: searched_map_def split: option.split)
  ultimately show ?thesis
    using m ord by (intro exI [of _ tree] exI [of _ es] exI [of _ ds] exI [of _ hk] exI [of _ hl] exI [of _ h]) simp
next
  case (Found i v)
  let ?vs = "ta_value_size t0" and ?w = "written tree k update (ta_value_size t0)"
  obtain es ds hk hl h where m: is_real "s_found s = 1" "s_result s = v" "tree_map tree k = Some v"
    "s_found_idx s = of_nat i" "local_ok t0 ?w t es ds hk hl h" "length (es @ ds) = n" "i < length es" "n_key (es ! i) = k"
    and lv: "length v = ?vs"
    using ph Found by (auto simp: phase_ok.simps)
  have vs: "ta_value_size t = ?vs" using m(6) step_effect_conf(2) by (auto simp: local_ok_def)
  have kin: "k \<in> keys_of tree" using m(4) tree_map_None [of tree k] by auto
  have ordw: "key_ordered ?w" "height ?w = height tree" "keys_of ?w = keys_of tree"
    using ord by (auto simp: written_def split: option.split)
  have mapw: "tree_map ?w = (case update of None \<Rightarrow> tree_map tree | Some u \<Rightarrow> (tree_map tree)(k \<mapsto> pad_bytes u ?vs))"
    using tree_map_set_val [OF ord kin] by (auto simp: written_def split: option.split)
  show ?thesis
  proof (cases transform)
    case None
    then show ?thesis
      using m ordw mapw by (intro exI [of _ ?w] exI [of _ es] exI [of _ ds] exI [of _ hk] exI [of _ hl] exI [of _ h])
        (auto simp: searched_map_def new_value_def fun_eq_iff split: option.split)
  next
    case (Some f)
    let ?p = "pad_bytes (f v) ?vs"
    have len: "length ?p = ?vs" using tr Some lv by (simp add: max_def)
    have sm: "length (es @ ds) < 2 ^ 31" using m(7) small by simp
    note wb = write_back_found [OF m(6) ordw(1) m(8,9) len sm]
    have "tree_map (set_val k ?p ?w) = (tree_map ?w)(k \<mapsto> ?p)"
      by (rule tree_map_set_val [OF ordw(1)]) (use kin ordw in simp)
    then show ?thesis
      using Some m ordw mapw wb vs
      by (intro exI [of _ "set_val k ?p ?w"] exI [of _ "map (set_entry k ?p) es"] exI [of _ ds] exI [of _ hk] exI [of _ hl] exI [of _ h])
        (auto simp: searched_map_def new_value_def fun_eq_iff split: option.split)
  qed
qed (use ph in simp)

lemma tee_rep_begin:
  assumes "tee_rep t0 tree"
  defines "t \<equiv> (begin_stats t0)\<lparr>ta_local := []\<rparr>"
  shows "tee_rep t tree" "ta_local t = []" "same_conf t0 t" "ta_value_size t = ta_value_size t0"
    "ta_max_height t = ta_max_height t0" "ta_root_key t = ta_root_key t0"
proof -
  note b = begin_stats_ok [of t0, folded t_def]
  have ok: "tee_ok t0" using assms(1) by (simp add: tee_rep_def)
  show f: "ta_value_size t = ta_value_size t0" "ta_max_height t = ta_max_height t0"
    by (simp_all add: t_def begin_stats_def)
  show "tee_rep t tree" "ta_local t = []" "same_conf t0 t" "ta_root_key t = ta_root_key t0"
    using assms(1) b [OF ok] f by (simp_all add: tee_rep_def)
qed

lemma tree_at_value_size: "tree_at om (sized vs) d k lf t \<Longrightarrow> tree_map t x = Some v \<Longrightarrow> length v = vs"
proof -
  have "tree_at om (sized vs) d k lf t \<Longrightarrow> (x, v) \<in> set_tree t \<Longrightarrow> length v = vs" for d k lf t
    by (induction om "sized vs" d k lf t rule: tree_at.induct) auto
  then show "tree_at om (sized vs) d k lf t \<Longrightarrow> tree_map t x = Some v \<Longrightarrow> length v = vs"
    by (auto simp: tree_map_def dest: map_of_SomeD)
qed

lemma search_or_dummy_spec:
  assumes rep: "tee_rep t0 tree" and k: "is_real \<longrightarrow> 0 \<le> sint k"
    and upd: "\<forall>u. update = Some u \<longrightarrow> length u \<le> ta_value_size t0"
    and tr: "\<forall>f v. transform = Some f \<and> length v = ta_value_size t0 \<longrightarrow> length (f v) \<le> ta_value_size t0"
  shows "safe_run (search_or_dummy k is_real update transform t0 r) (\<lambda>(res, found, t', r').
    found = (is_real \<and> k \<in> dom (tree_map tree))
    \<and> res = (if found then the (tree_map tree k) else replicate (ta_value_size t0) 0)
    \<and> same_conf t0 t' \<and> ta_root_key t' = ta_root_key t0
    \<and> (\<exists>tree'. tee_rep t' tree'
         \<and> tree_map tree' = searched_map k is_real update transform (ta_value_size t0) (tree_map tree)))"
proof -
  let ?t = "(begin_stats t0)\<lparr>ta_local := []\<rparr>"
  note b = tee_rep_begin [OF rep]
  have ord: "key_ordered tree" and h: "height tree \<le> ta_max_height ?t" and small: "ta_max_height ?t < 2 ^ 31"
    using b(1) by (auto simp: tee_rep_def tee_ok_def)
  let ?fin = "\<lambda>(s1, t1, r1 :: rng).
     let t2 = (case transform of None \<Rightarrow> t1
                     | Some f \<Rightarrow> t1\<lparr>ta_local := write_back (s_found s1) (s_found_idx s1)
                                  (pad_bytes (f (s_result s1)) (ta_value_size t1)) (ta_local t1)\<rparr>);
               (t3, r2) = reassign_leaves t2 r1
           in bind_result (pad_ops (ta_max_height t3) (flush_local_to_stash t3) r2) (\<lambda>(t4, r3).
                Inr (o_mov_bytes (1 - s_found s1 \<noteq> 0) (s_result s1) (replicate (ta_value_size t4) 0),
                     s_found s1 \<noteq> 0, end_stats t4, r3))"
  have run: "search_or_dummy k is_real update transform t0 r =
      bind_result (for_loop (search_iter k update) 0 (ta_max_height ?t) (start_state is_real ?t, ?t, r)) ?fin"
    by (simp add: search_or_dummy_def start_state_def Let_def)
  show ?thesis
    unfolding run
  proof (rule safe_run_bind [OF search_loop [OF b(1,2) k]])
    show "\<forall>u. update = Some u \<longrightarrow> length u \<le> ta_value_size ?t" using upd b(4) by simp
    fix y :: "search_state \<times> tee_avl \<times> rng"
    assume y: "case y of (s', t', r') \<Rightarrow>
      \<exists>ph. ph \<noteq> Descending \<and> phase_ok ?t tree k is_real update (ta_max_height ?t) s' t' ph"
    obtain s1 t1 r1 where yy: "y = (s1, t1, r1)" by (cases y) auto
    obtain ph where ph: "ph \<noteq> Descending" "phase_ok ?t tree k is_real update (ta_max_height ?t) s1 t1 ph"
      using y yy by auto
    let ?t2 = "case transform of None \<Rightarrow> t1 | Some f \<Rightarrow> t1\<lparr>ta_local := write_back (s_found s1) (s_found_idx s1)
            (pad_bytes (f (s_result s1)) (ta_value_size t1)) (ta_local t1)\<rparr>"
    have pre: "\<forall>u. update = Some u \<longrightarrow> length u \<le> ta_value_size ?t"
      "\<forall>f v. transform = Some f \<and> length v = ta_value_size ?t \<longrightarrow> length (f v) \<le> ta_value_size ?t"
      using upd tr b(4) by simp_all
    obtain tree' es ds hk hl h where T: "local_ok ?t tree' ?t2 es ds hk hl h" "key_ordered tree'" "height tree' = height tree"
      "tree_map tree' = searched_map k is_real update transform (ta_value_size t0) (tree_map tree)"
      "s_found s1 = (if is_real \<and> k \<in> dom (tree_map tree) then 1 else 0)"
      "s_result s1 = (if is_real \<and> k \<in> dom (tree_map tree) then the (tree_map tree k) else replicate (ta_value_size t0) 0)"
      using transform_step [OF ph(2,1) ord pre(1) small pre(2)] unfolding b(4) by (elim exE conjE) (rule that)
    obtain t3 r2 where t3: "reassign_leaves ?t2 r1 = (t3, r2)" by fastforce
    have e: "?fin y = bind_result (pad_ops (ta_max_height t3) (flush_local_to_stash t3) r2) (\<lambda>(t4, r3).
                Inr (o_mov_bytes (1 - s_found s1 \<noteq> 0) (s_result s1) (replicate (ta_value_size t4) 0),
                     s_found s1 \<noteq> 0, end_stats t4, r3))"
      unfolding yy prod.case Let_def t3 by (rule refl)
    have hT: "height tree' \<le> ta_max_height ?t" using h T(3) by simp
    show "safe_run (?fin y) (\<lambda>(res, found, t', r').
      found = (is_real \<and> k \<in> dom (tree_map tree))
      \<and> res = (if found then the (tree_map tree k) else replicate (ta_value_size t0) 0)
      \<and> same_conf t0 t' \<and> ta_root_key t' = ta_root_key t0
      \<and> (\<exists>tree'. tee_rep t' tree'
           \<and> tree_map tree' = searched_map k is_real update transform (ta_value_size t0) (tree_map tree)))"
      unfolding e
    proof (rule safe_run_bind [OF store_back [OF T(1,2) hT t3]], clarify)
      fix t4 r3
      assume f: "tee_rep (end_stats t4) tree'" "same_conf ?t (end_stats t4)" "ta_root_key (end_stats t4) = ta_root_key ?t"
      have sc: "same_conf t0 (end_stats t4)" by (rule same_conf_trans [OF b(3) f(2)])
      then have "ta_value_size t4 = ta_value_size t0" by (simp add: same_conf_def)
      then have "o_mov_bytes (1 - s_found s1 \<noteq> 0) (s_result s1) (replicate (ta_value_size t4) 0) = s_result s1"
        using tree_at_value_size [of "tee_view t0" "ta_value_size t0" 0 "ta_root_key t0" "ta_root_leaf t0" tree k] rep
        unfolding T(5,6) tee_rep_def by auto
      then show "safe_run (Inr (o_mov_bytes (1 - s_found s1 \<noteq> 0) (s_result s1) (replicate (ta_value_size t4) 0),
            s_found s1 \<noteq> 0, end_stats t4, r3)) (\<lambda>(res, found, t', r').
          found = (is_real \<and> k \<in> dom (tree_map tree))
          \<and> res = (if found then the (tree_map tree k) else replicate (ta_value_size t0) 0)
          \<and> same_conf t0 t' \<and> ta_root_key t' = ta_root_key t0
          \<and> (\<exists>tree'. tee_rep t' tree'
               \<and> tree_map tree' = searched_map k is_real update transform (ta_value_size t0) (tree_map tree)))"
        using f(1,3) T(4,5,6) sc b(6) by auto
    qed
  qed
qed

end
