(* ===== verification/Tee_Omap_Correct.thy ===== *)
theory Tee_Omap_Correct
  imports Tee_Omap Enclave_Reinsert Tee_Avl_Lookup
begin

text \<open>
  The two tiers as one map. \<open>tier_rep m tree\<close> says that the directory, the hot ORAM and the AVL map of
  \<open>m\<close> are in order and that the directory holds the positions of the hot keys; \<open>tier_map\<close> is the map
  from keys to user values. An access is a lookup and a write of it.
\<close>

section \<open>Stored values\<close>

definition user_of :: "tee_config \<Rightarrow> bytes \<Rightarrow> bytes" where
  "user_of c stored = fst (unwrap_value c stored)"

lemma wrap_value_props:
  assumes "length v = tc_value_size c"
  shows "length (wrap_value c v m) = stored_value_size c" "user_of c (wrap_value c v m) = v"
  using assms by (simp_all add: wrap_value_def stored_value_size_def user_of_def unwrap_value_def)

lemma length_user_of: "length s = stored_value_size c \<Longrightarrow> length (user_of c s) = tc_value_size c"
  by (auto simp: user_of_def unwrap_value_def stored_value_size_def decode_epoch_def Let_def)

definition tier_rep :: "tee_omap \<Rightarrow> kv_tree \<Rightarrow> bool" where
  "tier_rep m tree \<longleftrightarrow>
     dir_inv (to_dir m) \<and> eo_inv (to_hot m) \<and> tee_rep (to_cold m) tree
     \<and> eo_value_size (to_hot m) = stored_value_size (to_config m)
     \<and> ta_value_size (to_cold m) = stored_value_size (to_config m)
     \<and> (\<forall>k. 0 \<le> sint k \<longrightarrow> dir_map (to_dir m) k = map_option fst (eo_map (to_hot m) k))"

definition hot_map :: "tee_omap \<Rightarrow> i32 \<rightharpoonup> bytes" where
  "hot_map m k = map_option (user_of (to_config m) \<circ> snd) (eo_map (to_hot m) k)"

definition tier_map :: "tee_omap \<Rightarrow> kv_tree \<Rightarrow> i32 \<rightharpoonup> bytes" where
  "tier_map m tree k =
     (if sint k < 0 then None
      else case hot_map m k of Some v \<Rightarrow> Some v
           | None \<Rightarrow> map_option (user_of (to_config m)) (tree_map tree k))"

text \<open>The write of an access: only of a key that is there.\<close>

definition put_if_present :: "i32 \<Rightarrow> bytes option \<Rightarrow> nat \<Rightarrow> (i32 \<rightharpoonup> bytes) \<Rightarrow> i32 \<rightharpoonup> bytes" where
  "put_if_present k nv vs f =
     (case nv of None \<Rightarrow> f
      | Some v \<Rightarrow> if k \<in> dom f then f(k \<mapsto> pad_bytes v vs) else f)"

lemma put_if_present_at:
  "put_if_present k nv vs f x =
     (if x = k \<and> nv \<noteq> None \<and> f k \<noteq> None then Some (pad_bytes (the nv) vs) else f x)"
  by (auto simp: put_if_present_def split: option.split)

lemma tier_is_hot:
  assumes "tier_rep m tree" "0 \<le> sint k"
  shows "is_hot m k \<longleftrightarrow> k \<in> dom (hot_map m)"
    "dir_lookup (to_dir m) k = (case eo_map (to_hot m) k of None \<Rightarrow> INVALID_LEAF | Some (l, v) \<Rightarrow> l)"
proof -
  show *: "dir_lookup (to_dir m) k = (case eo_map (to_hot m) k of None \<Rightarrow> INVALID_LEAF | Some (l, v) \<Rightarrow> l)"
    using assms dir_lookup_abs [of "to_dir m" k] by (auto simp: tier_rep_def split: option.split)
  have "l \<noteq> INVALID_LEAF" if "eo_map (to_hot m) k = Some (l, v)" for l v
    using eo_map_Some [of "to_hot m" k l v] that assms(1)
    by (auto simp: tier_rep_def leaf_ok_def valid_leaf_def INVALID_LEAF_def)
  then show "is_hot m k \<longleftrightarrow> k \<in> dom (hot_map m)"
    by (auto simp: is_hot_def * hot_map_def dom_def split: option.splits)
qed

lemma tier_value_size:
  assumes "tier_rep m tree" "tier_map m tree k = Some v"
  shows "length v = user_size m"
proof (cases "eo_map (to_hot m) k")
  case None
  then obtain s where "tree_map tree k = Some s" "v = user_of (to_config m) s"
    using assms(2) by (auto simp: tier_map_def hot_map_def split: if_splits)
  then show ?thesis
    using assms(1) tree_at_value_size [of "tee_view (to_cold m)" _ 0 _ _ tree k s]
    by (auto simp: tier_rep_def tee_rep_def length_user_of)
next
  case (Some p)
  then have "v = user_of (to_config m) (snd p)"
    using assms(2) by (auto simp: tier_map_def hot_map_def split: if_splits)
  then show ?thesis
    using assms(1) eo_map_Some [of "to_hot m" k "fst p" "snd p"] Some
    by (auto simp: tier_rep_def length_user_of)
qed

section \<open>The hot phase\<close>

lemma hot_access_spec:
  assumes rep: "tier_rep m tree" and k: "0 \<le> sint k"
    and nv: "\<forall>v. nv = Some v \<longrightarrow> length v \<le> user_size m"
    and hit: "hit = is_hot m k"
  shows "safe_run (hot_access k nv hit (dir_lookup (to_dir m) k) m r) (\<lambda>(hv, m', r').
    tier_rep m' tree \<and> to_config m' = to_config m \<and> to_cold m' = to_cold m \<and> to_epoch m' = to_epoch m
    \<and> to_accesses m' = to_accesses m
    \<and> length hv = user_size m \<and> (hit \<longrightarrow> hot_map m k = Some hv)
    \<and> (\<forall>x. 0 \<le> sint x \<longrightarrow> hot_map m' x = put_if_present k nv (user_size m) (hot_map m) x))"
proof -
  let ?o = "to_hot m" and ?c = "to_config m" and ?d = "to_dir m"
  let ?sv = "stored_value_size ?c"
  note R = rep [unfolded tier_rep_def]
  have inv: "eo_inv ?o" and size: "eo_value_size ?o = ?sv" and dinv: "dir_inv ?d" using R by auto
  have kI: "k \<noteq> INVALID_KEY" "k \<noteq> - 2" using k by (auto simp: INVALID_KEY_def)
  have shape: "eo_shape ?o" using inv by (simp add: eo_inv_def)
  obtain nl r1 where nl: "random_leaf ?o r = (nl, r1)" by fastforce
  obtain dl r2 where dl: "random_leaf ?o r1 = (dl, r2)" by fastforce
  have ok: "leaf_ok ?o nl" "leaf_ok ?o dl"
    using random_leaf_ok [OF shape, of r] random_leaf_ok [OF shape, of r1] nl dl by auto
  define ul where "ul = o_select_i hit (dir_lookup ?d k) dl"
  define xk where "xk = o_select_i hit k (- 2)"
  have hitD: "\<exists>v. eo_map ?o k = Some (dir_lookup ?d k, v)" if hit
    using tier_is_hot [OF rep k] that hit by (auto simp: hot_map_def)
  have missD: "eo_map ?o k = None" if "\<not> hit"
    using tier_is_hot [OF rep k] that hit by (auto simp: hot_map_def)
  have ul: "leaf_ok ?o ul"
    using hitD eo_map_Some [OF inv, of k] ok by (auto simp: ul_def)
  have xk: "xk \<noteq> INVALID_KEY" using kI by (simp add: xk_def INVALID_KEY_def)
  obtain o2 b o3 where s: "read_path_to_stash ul ?o = Inr o2" "extract_from_stash xk o2 = (b, o3)"
    "eo_inv o3" "same_geometry ?o o3" "path_empty o3 (path_of ?o ul)"
    "(\<exists>l v. eo_map ?o xk = Some (l, v) \<and> b = \<lparr>key = xk, leaf = l, val = v\<rparr> \<and> eo_map o3 = (eo_map ?o)(xk := None))
     \<or> (b = empty_slot (eo_value_size ?o) \<and> eo_map o3 = eo_map ?o \<and> (\<forall>v. eo_map ?o xk \<noteq> Some (ul, v)))"
    using take_out [OF inv ul xk] by blast
  note g3 = same_geometryD [OF s(4)]
  obtain hv hm where um: "unwrap_value ?c (val b) = (hv, hm)" by fastforce
  have hv: "hv = user_of ?c (val b)" by (simp add: user_of_def um)
  have lb: "length (val b) = ?sv"
    using s(6) eo_map_Some [OF inv, of xk] by (auto simp: size empty_slot_def)
  have lhv: "length hv = user_size m" unfolding hv by (rule length_user_of [OF lb])
  define wb where "wb = (case nv of None \<Rightarrow> pad_bytes hv (user_size m)
                          | Some v \<Rightarrow> o_mov_bytes hit (pad_bytes hv (user_size m)) (pad_bytes v (user_size m)))"
  have wb: "length wb = user_size m" "wb = (case nv of None \<Rightarrow> hv | Some v \<Rightarrow> if hit then pad_bytes v (user_size m) else hv)"
    using nv lhv by (auto simp: wb_def max_def split: option.split)
  let ?ws = "pad_bytes (wrap_value ?c wb (bump_epoch (to_epoch m) hm)) ?sv"
  have ws: "?ws = wrap_value ?c wb (bump_epoch (to_epoch m) hm)" "length ?ws = ?sv" "user_of ?c ?ws = wb"
    using wrap_value_props [OF wb(1)] by simp_all
  define nk where "nk = o_select_i hit k (key b)"
  define d' where "d' = snd (dir_update_pos ?d k (o_select_i hit nl INVALID_LEAF))"
  have d': "dir_inv d'" "dir_map d' = (if k \<in> dom (dir_map ?d) then (dir_map ?d)(k \<mapsto> o_select_i hit nl INVALID_LEAF) else dir_map ?d)"
    using dir_update_pos_abs [OF dinv kI(1) surjective_pairing, of "o_select_i hit nl INVALID_LEAF"]
    unfolding d'_def by blast+
  have run: "hot_access k nv hit (dir_lookup ?d k) m r =
      bind_result (evict_one_path ul (add_to_stash nk nl ?ws o3)) (\<lambda>o4. Inr (hv, m\<lparr>to_hot := o4, to_dir := d'\<rparr>, r2))"
    unfolding hot_access_def Let_def nl prod.case dl
    by (simp add: s(1,2) um wb_def nk_def d'_def flip: ul_def xk_def del: o_select_i_if cong: option.case_cong)
  have pre: "nk \<noteq> INVALID_KEY \<longrightarrow> eo_map o3 nk = None \<and> leaf_ok o3 nl"
  proof (cases hit)
    case True
    then have "eo_map o3 k = None" using s(6) hitD by (auto simp: xk_def ul_def)
    then show ?thesis using True ok by (simp add: nk_def g3)
  next
    case False
    then show ?thesis
      using s(6) ok by (auto simp: nk_def g3 xk_def empty_slot_def default_block_def)
  qed
  have put: "safe_run (evict_one_path ul (add_to_stash nk nl ?ws o3)) (\<lambda>o4. eo_inv o4 \<and> same_geometry o3 o4
    \<and> eo_map o4 = (if nk = INVALID_KEY then eo_map o3 else (eo_map o3)(nk \<mapsto> (nl, pad_bytes ?ws (eo_value_size o3)))))"
    by (rule add_evict [OF s(3)]) (use ul s(5) ws size pre in \<open>simp_all add: g3\<close>)
  have dom: "k \<in> dom (dir_map ?d) \<longleftrightarrow> hit" using hitD missD R k by (cases hit) auto
  show ?thesis
    unfolding run
  proof (rule safe_run_bind [OF put], clarify)
    fix o4 assume o4: "eo_inv o4" "same_geometry o3 o4"
      "eo_map o4 = (if nk = INVALID_KEY then eo_map o3 else (eo_map o3)(nk \<mapsto> (nl, pad_bytes ?ws (eo_value_size o3))))"
    have m4: "eo_map o4 x = (if hit \<and> x = k then Some (nl, ?ws) else eo_map ?o x)" if x: "0 \<le> sint x" for x
    proof (cases hit)
      case True
      then have "eo_map o3 = (eo_map ?o)(k := None)" using s(6) hitD by (auto simp: xk_def ul_def)
      then show ?thesis using True o4(3) kI ws size by (simp add: nk_def g3)
    next
      case False
      have "x \<noteq> - 2" using x by auto
      then show ?thesis
        using s(6) False o4(3) by (auto simp: nk_def xk_def empty_slot_def default_block_def)
    qed
    let ?m = "m\<lparr>to_hot := o4, to_dir := d'\<rparr>"
    have "tier_rep ?m tree"
      using R o4 d' m4 dom same_geometryD [OF o4(2)] by (auto simp: tier_rep_def g3)
    moreover have "hot_map m k = Some hv" if hit
      using that s(6) hitD by (auto simp: hot_map_def hv xk_def ul_def)
    moreover have "hot_map ?m x = put_if_present k nv (user_size m) (hot_map m) x" if "0 \<le> sint x" for x
      using m4 [OF that] ws(3) wb(2) missD calculation(2)
      by (auto simp: hot_map_def put_if_present_at split: option.splits)
    ultimately show "safe_run (Inr (hv, ?m, r2)) (\<lambda>(hv, m', r').
      tier_rep m' tree \<and> to_config m' = to_config m \<and> to_cold m' = to_cold m \<and> to_epoch m' = to_epoch m
      \<and> to_accesses m' = to_accesses m
      \<and> length hv = user_size m \<and> (hit \<longrightarrow> hot_map m k = Some hv)
      \<and> (\<forall>x. 0 \<le> sint x \<longrightarrow> hot_map m' x = put_if_present k nv (user_size m) (hot_map m) x))"
      using lhv by simp
  qed
qed


lemma tier_rep_bump [simp]:
  "tier_rep m tree \<Longrightarrow> tier_rep (m\<lparr>to_dir := dir_bump_freq (to_dir m) k e\<rparr>) tree"
  by (simp add: tier_rep_def dir_bump_keeps)

lemma hot_map_dir [simp]: "hot_map (m\<lparr>to_dir := d\<rparr>) = hot_map m"
  by (simp add: hot_map_def fun_eq_iff)

lemma hot_phase_spec:
  assumes rep: "tier_rep m tree" and k: "0 \<le> sint k"
    and nv: "\<forall>v. nv = Some v \<longrightarrow> length v \<le> user_size m"
  shows "safe_run (hot_phase k nv m r) (\<lambda>(early, hit, pages, m', r').
    tier_rep m' tree \<and> to_config m' = to_config m \<and> to_accesses m' = to_accesses m
    \<and> hit = is_hot m k
    \<and> early = (case hot_map m k of Some v \<Rightarrow> v | None \<Rightarrow> replicate (user_size m) 0)
    \<and> (\<forall>x. 0 \<le> sint x \<longrightarrow> hot_map m' x = put_if_present k nv (user_size m) (hot_map m) x))"
proof -
  let ?c = "to_config m"
  let ?hit = "is_hot m k"
  let ?skip = "tc_mode ?c = TierMembership \<and> \<not> ?hit"
  let ?z = "replicate (tc_value_size ?c) 0"
  let ?body = "if ?skip then Inr (?z, m, r) else hot_access k nv ?hit (dir_lookup (to_dir m) k) m r"
  let ?post = "\<lambda>(hv, m', r'). tier_rep m' tree \<and> to_config m' = to_config m \<and> to_accesses m' = to_accesses m
    \<and> length hv = user_size m \<and> (?hit \<longrightarrow> hot_map m k = Some hv)
    \<and> (\<forall>x. 0 \<le> sint x \<longrightarrow> hot_map m' x = put_if_present k nv (user_size m) (hot_map m) x)"
  have hit: "(1 - o_equal (dir_lookup (to_dir m) k) INVALID_LEAF \<noteq> 0) = ?hit"
    by (simp add: is_hot_def)
  have body: "safe_run ?body ?post"
  proof (cases ?skip)
    case True
    then have "hot_map m k = None" using tier_is_hot(1) [OF rep k] by auto
    then show ?thesis using True rep by (simp add: put_if_present_at)
  next
    case False
    have "safe_run (hot_access k nv ?hit (dir_lookup (to_dir m) k) m r) ?post"
      by (rule safe_run_mono [OF hot_access_spec [OF rep k nv refl]]) auto
    then show ?thesis unfolding if_not_P [OF False] .
  qed
  show ?thesis
    unfolding hot_phase_def Let_def hit
  proof (rule safe_run_bind [OF body], clarify)
    fix hv and m' :: tee_omap and r' :: rng
    assume h: "tier_rep m' tree" "to_config m' = to_config m" "to_accesses m' = to_accesses m"
      "length hv = user_size m" "?hit \<longrightarrow> hot_map m k = Some hv"
      "\<forall>x. 0 \<le> sint x \<longrightarrow> hot_map m' x = put_if_present k nv (user_size m) (hot_map m) x"
    have "hot_map m k = None" if "\<not> ?hit" using tier_is_hot(1) [OF rep k] that by auto
    then have v: "o_mov_bytes ?hit ?z (pad_bytes hv (user_size m))
        = (case hot_map m k of Some v \<Rightarrow> v | None \<Rightarrow> replicate (user_size m) 0)"
      using h(4,5) by (cases ?hit) auto
    show "safe_run
        (Inr (o_mov_bytes ?hit ?z (pad_bytes hv (tc_value_size ?c)), ?hit,
              (dir_capacity (to_dir m) * 20 + PAGE_SIZE - 1) div PAGE_SIZE * 2
              + (if ?skip then 0 else pages_touched (eo_last_stats (to_hot
                   (if maintained m' then m'\<lparr>to_dir := dir_bump_freq (to_dir m') k (to_epoch m')\<rparr> else m')))),
              if maintained m' then m'\<lparr>to_dir := dir_bump_freq (to_dir m') k (to_epoch m')\<rparr> else m', r'))
        (\<lambda>(early, hit, pages, m', r').
          tier_rep m' tree \<and> to_config m' = to_config m \<and> to_accesses m' = to_accesses m
          \<and> hit = is_hot m k
          \<and> early = (case hot_map m k of Some v \<Rightarrow> v | None \<Rightarrow> replicate (user_size m) 0)
          \<and> (\<forall>x. 0 \<le> sint x \<longrightarrow> hot_map m' x = put_if_present k nv (user_size m) (hot_map m) x))"
      unfolding v using h(1,2,3,6) by simp
  qed
qed

section \<open>The cold phase\<close>

lemma cold_transform_props:
  assumes "length s = stored_value_size c" "\<forall>v. nv = Some v \<longrightarrow> length v \<le> tc_value_size c"
  shows "length (cold_transform c e b nv s) = stored_value_size c"
    "user_of c (cold_transform c e b nv s) =
      (if b then case nv of None \<Rightarrow> user_of c s | Some v \<Rightarrow> pad_bytes v (tc_value_size c) else user_of c s)"
proof -
  obtain cv cm where u: "unwrap_value c s = (cv, cm)" by fastforce
  have cv: "cv = user_of c s" "length cv = tc_value_size c"
    using length_user_of [OF assms(1)] by (simp_all add: user_of_def u)
  define wv where "wv = (case nv of None \<Rightarrow> pad_bytes cv (tc_value_size c)
    | Some v \<Rightarrow> o_mov_bytes b (pad_bytes cv (tc_value_size c)) (pad_bytes v (tc_value_size c)))"
  have "length wv = tc_value_size c"
    "wv = (if b then case nv of None \<Rightarrow> cv | Some v \<Rightarrow> pad_bytes v (tc_value_size c) else cv)"
    using assms(2) cv(2) by (auto simp: wv_def max_def split: option.split)
  moreover have "cold_transform c e b nv s = wrap_value c wv (bump_epoch e cm)"
    unfolding cold_transform_def u wv_def Let_def by simp
  ultimately show "length (cold_transform c e b nv s) = stored_value_size c"
    "user_of c (cold_transform c e b nv s) =
      (if b then case nv of None \<Rightarrow> user_of c s | Some v \<Rightarrow> pad_bytes v (tc_value_size c) else user_of c s)"
    using wrap_value_props [of wv c "bump_epoch e cm"] unfolding cv(1) by simp_all
qed

lemma cold_phase_spec:
  assumes rep: "tier_rep m tree" and k: "0 \<le> sint k"
    and nv: "\<forall>v. nv = Some v \<longrightarrow> length v \<le> user_size m"
    and le: "hit \<longrightarrow> length rv = user_size m"
  shows "safe_run (cold_phase k nv hit rv m r) (\<lambda>(res, stored, up, low, m', r').
    to_config m' = to_config m \<and> to_accesses m' = to_accesses m \<and> to_hot m' = to_hot m
    \<and> res = (if hit then resize_with 0 (user_size m) rv
             else case tree_map tree k of None \<Rightarrow> replicate (user_size m) 0 | Some s \<Rightarrow> user_of (to_config m) s)
    \<and> (\<exists>tree'. tier_rep m' tree'
         \<and> (\<forall>x. map_option (user_of (to_config m)) (tree_map tree' x) =
              (if hit then map_option (user_of (to_config m)) (tree_map tree x)
               else put_if_present k nv (user_size m) (\<lambda>x. map_option (user_of (to_config m)) (tree_map tree x)) x))))"
proof (cases "tc_mode (to_config m) = TierMembership \<and> hit")
  case True
  then show ?thesis
    using rep le by (auto simp: cold_phase_def intro!: exI [of _ tree])
next
  case False
  let ?c = "to_config m"
  let ?tr = "if maintained m then Some (cold_transform ?c (to_epoch m) (\<not> hit) nv) else None"
  let ?up = "if \<not> maintained m then nv else None"
  note R = rep [unfolded tier_rep_def]
  have trep: "tee_rep (to_cold m) tree" and vs: "ta_value_size (to_cold m) = stored_value_size ?c" using R by auto
  have size: "length s = stored_value_size ?c" if "tree_map tree x = Some s" for x s
    using trep vs that tree_at_value_size [of "tee_view (to_cold m)" _ 0 _ _ tree x s] by (auto simp: tee_rep_def)
  have tr: "\<forall>f v. ?tr = Some f \<and> length v = ta_value_size (to_cold m) \<longrightarrow> length (f v) \<le> ta_value_size (to_cold m)"
    using cold_transform_props(1) [OF _ nv] vs by auto
  have up: "\<forall>u. ?up = Some u \<longrightarrow> length u \<le> ta_value_size (to_cold m)"
    using nv vs by (auto simp: stored_value_size_def)
  have kr: "\<not> hit \<longrightarrow> 0 \<le> sint k" using k by simp
  have run: "cold_phase k nv hit rv m r =
      bind_result (search_or_dummy k (\<not> hit) ?up ?tr (to_cold m) r) (\<lambda>(cold_stored, found, t, r1).
        Inr (o_mov_bytes (\<not> hit) rv (pad_bytes (user_of ?c cold_stored) (user_size m)), cold_stored,
             upper_pages (ta_last_stats t), lower_pages (ta_last_stats t), m\<lparr>to_cold := t\<rparr>, r1))"
    using False unfolding cold_phase_def Let_def user_of_def by (subst if_not_P) simp_all
  show ?thesis
    unfolding run
  proof (rule safe_run_bind [OF search_or_dummy_spec [OF trep kr up tr]], clarify)
    fix res t and r' :: rng and tree'
    assume t: "same_conf (to_cold m) t" "tee_rep t tree'"
      "tree_map tree' = searched_map k (\<not> hit) ?up ?tr (ta_value_size (to_cold m)) (tree_map tree)"
    let ?found = "\<not> hit \<and> k \<in> dom (tree_map tree)"
    let ?res = "if ?found then the (tree_map tree k) else replicate (ta_value_size (to_cold m)) 0"
    have "length ?res = stored_value_size ?c" using size vs by auto
    from length_user_of [OF this] have lu: "length (user_of ?c ?res) = user_size m" .
    have zero: "user_of ?c (replicate (stored_value_size ?c) 0) = replicate (user_size m) 0"
      by (auto simp: user_of_def unwrap_value_def stored_value_size_def decode_epoch_def Let_def)
    have val: "o_mov_bytes (\<not> hit) rv (pad_bytes (user_of ?c ?res) (user_size m)) =
        (if hit then resize_with 0 (user_size m) rv
         else case tree_map tree k of None \<Rightarrow> replicate (user_size m) 0 | Some s \<Rightarrow> user_of ?c s)"
      using lu vs zero by (auto split: option.split)
    have rep': "tier_rep (m\<lparr>to_cold := t\<rparr>) tree'"
      using R t by (auto simp: tier_rep_def same_conf_def)
    have new: "user_of ?c (new_value ?up ?tr (ta_value_size (to_cold m)) s)
        = (case nv of None \<Rightarrow> user_of ?c s | Some v \<Rightarrow> pad_bytes v (user_size m))"
      if "tree_map tree k = Some s" "\<not> hit" for s
    proof (cases "maintained m")
      case True
      then show ?thesis
        using cold_transform_props [OF size [OF that(1)] nv, of "to_epoch m" "\<not> hit"] that(2) vs
        by (simp add: new_value_def)
    next
      case False
      then show ?thesis
        using vs by (auto simp: new_value_def user_of_def unwrap_value_def stored_value_size_def split: option.split)
    qed
    have map: "map_option (user_of ?c) (tree_map tree' x) =
        (if hit then map_option (user_of ?c) (tree_map tree x)
         else put_if_present k nv (user_size m) (\<lambda>x. map_option (user_of ?c) (tree_map tree x)) x)" for x
      unfolding t(3) searched_map_def
      using new by (auto simp: put_if_present_at split: option.split)
    show "safe_run (Inr (o_mov_bytes (\<not> hit) rv (pad_bytes (user_of ?c ?res) (user_size m)), ?res,
            upper_pages (ta_last_stats t), lower_pages (ta_last_stats t), m\<lparr>to_cold := t\<rparr>, r'))
        (\<lambda>(res, stored, up, low, m', r').
    to_config m' = ?c \<and> to_accesses m' = to_accesses m \<and> to_hot m' = to_hot m
    \<and> res = (if hit then resize_with 0 (user_size m) rv
             else case tree_map tree k of None \<Rightarrow> replicate (user_size m) 0 | Some s \<Rightarrow> user_of ?c s)
    \<and> (\<exists>tree'. tier_rep m' tree'
         \<and> (\<forall>x. map_option (user_of ?c) (tree_map tree' x) =
              (if hit then map_option (user_of ?c) (tree_map tree x)
               else put_if_present k nv (user_size m) (\<lambda>x. map_option (user_of ?c) (tree_map tree x)) x))))"
      unfolding val using rep' map by auto
  qed
qed

section \<open>Tracking, and the whole access\<close>

definition off_boundary :: "tee_omap \<Rightarrow> bool" where
  "off_boundary m \<longleftrightarrow> maintained m \<longrightarrow>
     (let mc = tc_maintenance (to_config m)
      in tm_observation_window mc \<noteq> 0 \<and> tm_swap_interval mc \<noteq> 0
         \<and> (to_accesses m + 1) smod tm_swap_interval mc \<noteq> 0)"

lemma tier_frame:
  assumes "to_config m' = to_config m" "to_dir m' = to_dir m" "to_hot m' = to_hot m" "to_cold m' = to_cold m"
  shows "tier_rep m' tree = tier_rep m tree" "tier_map m' tree = tier_map m tree"
  unfolding tier_rep_def tier_map_def hot_map_def assms by (rule refl)+

lemma track_access_idle:
  assumes "off_boundary m" "tier_rep m tree"
  shows "\<exists>m'. track_access k hit stored m r = Inr (m', r) \<and> tier_rep m' tree \<and> tier_map m' tree = tier_map m tree
    \<and> to_config m' = to_config m \<and> hot_map m' = hot_map m"
proof (cases "maintained m")
  case True
  have "\<exists>m'. track_access k hit stored m r = Inr (m', r)
      \<and> to_config m' = to_config m \<and> to_dir m' = to_dir m \<and> to_hot m' = to_hot m \<and> to_cold m' = to_cold m"
    using assms(1) True unfolding track_access_def off_boundary_def Let_def by simp
  then obtain m' where m': "track_access k hit stored m r = Inr (m', r)"
    "to_config m' = to_config m" "to_dir m' = to_dir m" "to_hot m' = to_hot m" "to_cold m' = to_cold m"
    by (elim exE conjE) (rule that)
  show ?thesis using m'(1) assms(2) tier_frame [OF m'(2-5), of tree] m'(2)
    by (auto simp: hot_map_def [abs_def] m')
qed (use assms(2) in \<open>simp add: track_access_def\<close>)

lemma tier_map_after:
  assumes hot: "\<forall>x. 0 \<le> sint x \<longrightarrow> hot_map m' x = put_if_present k nv vs (hot_map m) x"
    and cold: "\<forall>x. map_option (user_of (to_config m)) (tree_map tree' x) =
        (if k \<in> dom (hot_map m) then map_option (user_of (to_config m)) (tree_map tree x)
         else put_if_present k nv vs (\<lambda>x. map_option (user_of (to_config m)) (tree_map tree x)) x)"
    and "to_config m' = to_config m" "0 \<le> sint k"
  shows "tier_map m' tree' = put_if_present k nv vs (tier_map m tree)"
proof
  fix x
  show "tier_map m' tree' x = put_if_present k nv vs (tier_map m tree) x"
    using hot [rule_format, of x] cold [rule_format, of x] assms(3,4)
    by (auto simp: tier_map_def put_if_present_at split: option.split_asm option.split if_splits)
qed

lemma tee_access_spec:
  assumes rep: "tier_rep m tree" and k: "0 \<le> sint k"
    and nv: "\<forall>v. nv = Some v \<longrightarrow> length v \<le> user_size m" and off: "off_boundary m"
  shows "safe_run (snd (tee_access k nv m r)) (\<lambda>(res, m', r').
    ar_found_in_hot res = is_hot m k
    \<and> ar_value res = (case tier_map m tree k of None \<Rightarrow> replicate (user_size m) 0 | Some v \<Rightarrow> v)
    \<and> fst (tee_access k nv m r) =
        [(case hot_map m k of None \<Rightarrow> replicate (user_size m) 0 | Some v \<Rightarrow> v, is_hot m k),
         (ar_value res, \<not> is_hot m k)]
    \<and> to_config m' = to_config m \<and> (\<forall>x. 0 \<le> sint x \<longrightarrow> is_hot m' x = is_hot m x)
    \<and> (\<exists>tree'. tier_rep m' tree' \<and> tier_map m' tree' = put_if_present k nv (user_size m) (tier_map m tree)))"
proof (cases "hot_phase k nv m r")
  case (Inl e)
  then show ?thesis using hot_phase_spec [OF rep k nv, of r] by (simp add: tee_access_def)
next
  case (Inr y)
  obtain early hit pages m1 r1 where y: "y = (early, hit, pages, m1, r1)" by (cases y) auto
  note h = hot_phase_spec [OF rep k nv, of r, unfolded Inr y, simplified]
  have nv1: "\<forall>v. nv = Some v \<longrightarrow> length v \<le> user_size m1" using nv h by simp
  have early: "length early = user_size m" if hit: hit
  proof -
    obtain v where "hot_map m k = Some v" using hit h tier_is_hot(1) [OF rep k] by auto
    then show ?thesis using h tier_value_size [OF rep, of k v] k by (simp add: tier_map_def)
  qed
  have hm: "hit = (k \<in> dom (hot_map m))" using h tier_is_hot(1) [OF rep k] by simp
  have "tier_rep m1 tree" using h by simp
  moreover have "hit \<longrightarrow> length early = user_size m1" using early h by simp
  ultimately have c: "safe_run (cold_phase k nv hit early m1 r1) (\<lambda>(res, stored, up, low, m', r').
    to_config m' = to_config m1 \<and> to_accesses m' = to_accesses m1 \<and> to_hot m' = to_hot m1
    \<and> res = (if hit then resize_with 0 (user_size m1) early
             else case tree_map tree k of None \<Rightarrow> replicate (user_size m1) 0 | Some s \<Rightarrow> user_of (to_config m1) s)
    \<and> (\<exists>tree'. tier_rep m' tree'
         \<and> (\<forall>x. map_option (user_of (to_config m1)) (tree_map tree' x) =
              (if hit then map_option (user_of (to_config m1)) (tree_map tree x)
               else put_if_present k nv (user_size m1) (\<lambda>x. map_option (user_of (to_config m1)) (tree_map tree x)) x))))"
    by (rule cold_phase_spec [OF _ k nv1])
  show ?thesis
  proof (cases "cold_phase k nv hit early m1 r1")
    case Inl2: (Inl e)
    then show ?thesis using c early h Inr y by (simp add: tee_access_def)
  next
    case Inr2: (Inr z)
    obtain rv stored up low m2 r2 where z: "z = (rv, stored, up, low, m2, r2)" by (cases z) auto
    have c1: "to_config m1 = to_config m" "to_accesses m1 = to_accesses m" using h by simp_all
    from c [unfolded Inr2 z c1] obtain tree' where c2: "to_config m2 = to_config m" "to_accesses m2 = to_accesses m" "to_hot m2 = to_hot m1"
      "rv = (if hit then resize_with 0 (user_size m) early
             else case tree_map tree k of None \<Rightarrow> replicate (user_size m) 0 | Some s \<Rightarrow> user_of (to_config m) s)"
      "tier_rep m2 tree'"
      "\<forall>x. map_option (user_of (to_config m)) (tree_map tree' x) =
              (if hit then map_option (user_of (to_config m)) (tree_map tree x)
               else put_if_present k nv (user_size m) (\<lambda>x. map_option (user_of (to_config m)) (tree_map tree x)) x)"
      by auto
    have off2: "off_boundary m2" using off c2(1,2) by (simp add: off_boundary_def)
    obtain m3 where m3: "track_access k hit stored m2 r2 = Inr (m3, r2)" "tier_rep m3 tree'"
      "tier_map m3 tree' = tier_map m2 tree'" "to_config m3 = to_config m2" "hot_map m3 = hot_map m2"
      using track_access_idle [OF off2 c2(5)] by blast
    have hot2: "\<forall>x. 0 \<le> sint x \<longrightarrow> hot_map m2 x = put_if_present k nv (user_size m) (hot_map m) x"
    proof -
      have "hot_map m2 = hot_map m1" unfolding hot_map_def [abs_def] c2(1,3) c1(1) by (rule refl)
      then show ?thesis using h by simp
    qed
    have same: "is_hot m3 x = is_hot m x" if "0 \<le> sint x" for x
      using tier_is_hot(1) [OF m3(2) that] tier_is_hot(1) [OF rep that] hot2 that
      unfolding m3(5) by (auto simp: put_if_present_at domIff split: if_splits)
    have "tier_map m2 tree' = put_if_present k nv (user_size m) (tier_map m tree)"
      by (rule tier_map_after [OF hot2]) (use c2 hm k in simp_all)
    moreover have "rv = (case tier_map m tree k of None \<Rightarrow> replicate (user_size m) 0 | Some v \<Rightarrow> v)"
      using c2(4) h hm early k by (auto simp: tier_map_def split: option.splits)
    moreover have "tee_access k nv m r = ([(early, hit), (rv, \<not> hit)],
        Inr (\<lparr>ar_value = rv, ar_found_in_hot = hit, ar_hot_pages = pages, ar_cold_up_pages = up,
              ar_cold_low_pages = low, ar_total_pages = pages + up + low\<rparr>, m3, r2))"
      by (simp add: tee_access_def Inr y Inr2 z m3(1))
    ultimately show ?thesis
      using h m3(2,3,4) c2(1) same by auto
  qed
qed


text \<open>Every answer has the size of a value, also those given before an access fails.\<close>

lemma tee_access_events:
  assumes rep: "tier_rep m tree" and k: "0 \<le> sint k"
    and nv: "\<forall>v. nv = Some v \<longrightarrow> length v \<le> user_size m"
  shows "length (fst (tee_access k nv m r)) \<le> 2 \<and> (\<forall>ev\<in>set (fst (tee_access k nv m r)). length (fst ev) = user_size m)"
proof (cases "hot_phase k nv m r")
  case (Inr y)
  obtain early hit pages m1 r1 where y: "y = (early, hit, pages, m1, r1)" by (cases y) auto
  note h = hot_phase_spec [OF rep k nv, of r, unfolded Inr y, simplified]
  have early: "length early = user_size m"
  proof (cases "hot_map m k")
    case (Some v)
    then show ?thesis using h tier_value_size [OF rep, of k v] k by (simp add: tier_map_def)
  qed (use h in simp)
  have rep1: "tier_rep m1 tree" and c1: "to_config m1 = to_config m" using h by simp_all
  show ?thesis
  proof (cases "cold_phase k nv hit early m1 r1")
    case Inr2: (Inr z)
    obtain rv stored up low m2 r2 where z: "z = (rv, stored, up, low, m2, r2)" by (cases z) auto
    have size: "length (user_of (to_config m) s) = user_size m" if "tree_map tree k = Some s" for s
      using rep tree_at_value_size [of "tee_view (to_cold m)" _ 0 _ _ tree k s] that
      by (auto simp: tier_rep_def tee_rep_def length_user_of)
    have "length rv = user_size m"
      using cold_phase_spec [OF rep1 k, of nv hit early r1] nv early size unfolding Inr2 z c1
      by (auto split: option.splits)
    then show ?thesis using early by (auto simp: tee_access_def Inr y Inr2 z)
  qed (use early in \<open>simp add: tee_access_def Inr y\<close>)
qed (simp add: tee_access_def)

end
