(* ===== verification/Tee_Avl_Counts.thy ===== *)
theory Tee_Avl_Counts
  imports Tee_Avl_Update Tee_Avl_Lookup
begin

text \<open>
  How many ORAM steps an operation of the enclave map makes on each tree. The counts follow from the
  loops alone and need no invariant.
\<close>

definition counts :: "tee_avl \<Rightarrow> nat \<times> int \<times> nat \<times> nat" where
  "counts t = (ta_max_height t, ta_split_depth t, ta_upper_ops t, ta_lower_ops t)"

definition one_step :: "i32 \<Rightarrow> nat \<times> int \<times> nat \<times> nat \<Rightarrow> nat \<times> int \<times> nat \<times> nat" where
  "one_step d = (\<lambda>(mh, sd, u, l). if sd > 0 \<and> sint d < sd then (mh, sd, u + 1, l) else (mh, sd, u, l + 1))"

lemma counts_simps [simp]:
  "counts (set_oram d o1 t) = counts t" "counts (t\<lparr>ta_local := x\<rparr>) = counts t"
  "counts (t\<lparr>ta_root_key := k\<rparr>) = counts t" "counts (t\<lparr>ta_root_leaf := k\<rparr>) = counts t"
  "counts (t\<lparr>ta_upper := o1\<rparr>) = counts t" "counts (t\<lparr>ta_lower := o1\<rparr>) = counts t"
  "counts (end_stats t) = counts t"
  by (simp_all add: counts_def set_oram_def end_stats_def)

lemma counts_count_op: "counts (count_op d t) = one_step d (counts t)"
  by (simp add: counts_def count_op_def one_step_def is_upper_def)

lemma counts_begin: "counts (begin_stats t) = (ta_max_height t, ta_split_depth t, 0, 0)"
  by (simp add: counts_def begin_stats_def)

lemma oram_step_counts:
  "oram_step d k lf b p t r = Inr (t', r') \<Longrightarrow> counts t' = one_step d (counts t)"
  by (auto simp: oram_step_def Let_def bind_result_Inr_iff counts_count_op split_beta)

lemma pad_step_counts: "pad_step d t r = Inr (t', r') \<Longrightarrow> counts t' = one_step d (counts t)"
  by (auto simp: pad_step_def Let_def bind_result_Inr_iff counts_count_op split_beta)

lemma pad_steps_counts:
  "pad_steps d n t r = Inr (t', r') \<Longrightarrow> counts t' = (one_step d ^^ n) (counts t)"
proof -
  assume "pad_steps d n t r = Inr (t', r')"
  then have "(\<lambda>i (x, y). counts x = (one_step d ^^ i) (counts t)) (0 + n) (t', r')"
    unfolding pad_steps_def
    by (rule for_loop_inv [where P = "\<lambda>i (x, y). counts x = (one_step d ^^ i) (counts t)"])
      (auto dest: pad_step_counts)
  then show ?thesis by simp
qed

lemma one_step_upper: "sd > 0 \<Longrightarrow> sint d < sd \<Longrightarrow> (one_step d ^^ n) (mh, sd, u, l) = (mh, sd, u + n, l)"
  by (induction n) (auto simp: one_step_def)

lemma one_step_lower: "\<not> (sd > 0 \<and> sint d < sd) \<Longrightarrow> (one_step d ^^ n) (mh, sd, u, l) = (mh, sd, u, l + n)"
  by (induction n) (auto simp: one_step_def)

text \<open>A loop whose step \<open>i\<close> works at depth \<open>i\<close>.\<close>

definition descent_counts :: "nat \<Rightarrow> int \<Rightarrow> nat \<Rightarrow> nat \<times> int \<times> nat \<times> nat" where
  "descent_counts mh sd d = (mh, sd, min (nat sd) d, d - min (nat sd) d)"

lemma descent_counts_step:
  "d < 2 ^ 31 \<Longrightarrow> one_step (of_nat d) (descent_counts mh sd d) = descent_counts mh sd (Suc d)"
proof -
  assume "d < 2 ^ 31"
  then have "sint (of_nat d :: i32) = int d" by (rule sint_of_small_nat)
  then show ?thesis by (auto simp: descent_counts_def one_step_def min_def)
qed

lemma descent_counts_loop:
  assumes "for_loop body 0 n (s, t, r) = Inr (s', t', r')" "n < 2 ^ 31" "counts t = descent_counts mh sd 0"
    and "\<And>d s t r s' t' r'. body d (s, t, r) = Inr (s', t', r') \<Longrightarrow> counts t' = one_step (of_nat d) (counts t)"
  shows "counts t' = descent_counts mh sd n"
proof -
  have "(\<lambda>d (s, t, r). counts t = descent_counts mh sd d) (0 + n) (s', t', r')"
    using assms(1)
  proof (rule for_loop_inv)
    fix i x x' assume "i < 0 + n" "case x of (s, t, r) \<Rightarrow> counts t = descent_counts mh sd i" "body i x = Inr x'"
    then show "case x' of (s, t, r) \<Rightarrow> counts t = descent_counts mh sd (Suc i)"
      using assms(2,4) descent_counts_step [of i mh sd] by (cases x; cases x') auto
  qed (use assms(3) in simp)
  then show ?thesis by simp
qed

lemma reassign_counts: "reassign_leaves t r = (t', r') \<Longrightarrow> counts t' = counts t"
  by (auto simp: reassign_leaves_def Let_def counts_def split: prod.splits)

lemma flush_counts [simp]: "counts (flush_local_to_stash t) = counts t"
proof -
  have "counts (fold flush_node ns t) = counts t" for ns t
    by (induction ns arbitrary: t) (simp_all add: flush_node_def)
  then show ?thesis by (simp add: flush_local_to_stash_def)
qed

text \<open>Once the upper tree has its steps, the padding fills the budget on the lower one.\<close>

lemma pad_ops_counts:
  assumes "pad_ops n t r = Inr (t', r')" "counts t = (mh, sd, u, l)" "nat sd \<le> u" "sd \<le> int mh" "mh < 2 ^ 20"
  shows "counts t' = (mh, sd, u, l + (3 * mh - n))"
proof -
  have c: "ta_max_height t = mh" "ta_split_depth t = sd" "ta_upper_ops t = u" "ta_lower_ops t = l"
    using assms(2) by (auto simp: counts_def)
  show ?thesis
  proof (cases "sd > 0")
    case True
    have z: "min (nat sd) (3 * mh) - u = 0" using assms(3) by simp
    obtain t1 r1 where s: "pad_steps 0 0 t r = Inr (t1, r1)" "pad_steps (word_of_int sd) (3 * mh - n) t1 r1 = Inr (t', r')"
      using assms(1) True unfolding pad_ops_def Let_def c z by (auto simp: bind_result_Inr_iff)
    have "sint (word_of_int sd :: i32) = sd"
      using True assms(4,5) sint_of_small_nat [of "nat sd"] by simp
    then have "(one_step (word_of_int sd) ^^ (3 * mh - n)) (counts t1) = (mh, sd, u, l + (3 * mh - n))"
      using pad_steps_counts [OF s(1)] c by (simp add: counts_def one_step_lower)
    then show ?thesis using pad_steps_counts [OF s(2)] by simp
  next
    case False
    then have "pad_steps 0 (3 * mh - n) t r = Inr (t', r')"
      using assms(1) c by (simp add: pad_ops_def Let_def)
    from pad_steps_counts [OF this] show ?thesis
      using c False by (simp add: counts_def one_step_lower)
  qed
qed

lemma search_iter_counts:
  "search_iter k u d (s, t, r) = Inr (s', t', r') \<Longrightarrow> counts t' = one_step (of_nat d) (counts t)"
  by (auto simp: search_iter_def Let_def bind_result_Inr_iff split_beta dest!: oram_step_counts)

lemma insert_iter_counts:
  "insert_iter k d (s, t, r) = Inr (s', t', r') \<Longrightarrow> counts t' = one_step (of_nat d) (counts t)"
  by (auto simp: insert_iter_def Let_def bind_result_Inr_iff split_beta dest!: oram_step_counts)

lemma rebalance_counts [simp]: "counts (rebalance_local t) = counts t"
  by (auto simp: rebalance_local_def counts_def split: prod.split)

lemma search_counts:
  assumes "search_or_dummy k b u f t r = Inr (v, found, t', r')"
    and "ta_max_height t < 2 ^ 20" "ta_split_depth t \<le> int (ta_max_height t)"
  shows "counts t' = (ta_max_height t, ta_split_depth t, nat (ta_split_depth t), 3 * ta_max_height t - nat (ta_split_depth t))"
proof -
  let ?t = "(begin_stats t)\<lparr>ta_local := []\<rparr>" and ?mh = "ta_max_height t" and ?sd = "ta_split_depth t"
  obtain s1 t1 r1 where
    loop: "for_loop (search_iter k u) 0 (ta_max_height ?t) (start_state b ?t, ?t, r) = Inr (s1, t1, r1)"
    using assms(1) unfolding search_or_dummy_def Let_def bind_result_Inr_iff start_state_def by auto
  obtain t2 where t2: "t2 = (case f of None \<Rightarrow> t1
                     | Some f \<Rightarrow> t1\<lparr>ta_local := write_back (s_found s1) (s_found_idx s1)
                                  (pad_bytes (f (s_result s1)) (ta_value_size t1)) (ta_local t1)\<rparr>)" by blast
  then have c2: "counts t2 = counts t1" by (simp split: option.split)
  obtain t3 r2 where t3: "reassign_leaves t2 r1 = (t3, r2)" by fastforce
  obtain t4 where pad: "pad_ops (ta_max_height t3) (flush_local_to_stash t3) r2 = Inr (t4, r')" and t': "t' = end_stats t4"
    using assms(1) t3 unfolding search_or_dummy_def Let_def loop [unfolded start_state_def] t2 bind_result_simps prod.case
    by (auto simp: bind_result_Inr_iff)
  have mh: "ta_max_height ?t = ?mh" by (simp add: begin_stats_def)
  have "counts t1 = descent_counts ?mh ?sd ?mh"
    by (rule descent_counts_loop [OF loop [unfolded mh]])
      (use assms(2) counts_begin [of t] in \<open>auto simp: descent_counts_def dest: search_iter_counts\<close>)
  then have c3: "counts (flush_local_to_stash t3) = descent_counts ?mh ?sd ?mh"
    using c2 reassign_counts [OF t3] by simp
  then have "ta_max_height t3 = ?mh"
    using flush_counts [of t3] by (simp add: counts_def descent_counts_def)
  have m: "min (nat ?sd) ?mh = nat ?sd" using assms(3) by simp
  from pad_ops_counts [OF pad [unfolded \<open>ta_max_height t3 = ?mh\<close>] c3 [unfolded descent_counts_def m] order_refl assms(3,2)]
  show ?thesis using assms(3) by (simp add: t')
qed

lemma insert_counts:
  assumes "tee_insert k v t r = Inr (t', r')"
    and "ta_max_height t < 2 ^ 20" "ta_split_depth t \<le> int (ta_max_height t)"
  shows "counts t' = (ta_max_height t, ta_split_depth t, nat (ta_split_depth t), 3 * ta_max_height t - nat (ta_split_depth t))"
proof -
  let ?t = "(begin_stats t)\<lparr>ta_local := []\<rparr>" and ?mh = "ta_max_height t" and ?sd = "ta_split_depth t"
  obtain s s1 t1 r1 t2 r2 t3 r3 t4 where
    loop: "for_loop (insert_iter k) 0 (ta_max_height ?t) (s, ?t, r) = Inr (s1, t1, r1)"
    and t3: "reassign_leaves t2 r2 = (t3, r3)"
    and pad: "pad_ops (ta_max_height t3) (flush_local_to_stash t3) r3 = Inr (t4, r')" and t': "t' = end_stats t4"
    and t2: "counts t2 = counts t1"
    using assms(1)
    by (auto simp: tee_insert_def Let_def bind_result_Inr_iff split_beta intro!: that [OF _ surjective_pairing])
  have mh: "ta_max_height ?t = ?mh" by (simp add: begin_stats_def)
  have "counts t1 = descent_counts ?mh ?sd ?mh"
    by (rule descent_counts_loop [OF loop [unfolded mh]])
      (use assms(2) counts_begin [of t] in \<open>auto simp: descent_counts_def dest: insert_iter_counts\<close>)
  then have c3: "counts (flush_local_to_stash t3) = descent_counts ?mh ?sd ?mh"
    using t2 reassign_counts [OF t3] by simp
  then have "ta_max_height t3 = ?mh"
    using flush_counts [of t3] by (simp add: counts_def descent_counts_def)
  have m: "min (nat ?sd) ?mh = nat ?sd" using assms(3) by simp
  from pad_ops_counts [OF pad [unfolded \<open>ta_max_height t3 = ?mh\<close>] c3 [unfolded descent_counts_def m] order_refl assms(3,2)]
  show ?thesis using assms(3) by (simp add: t')
qed

section \<open>Removal\<close>

text \<open>
  The second descent of \<open>remove\<close> starts below the target: its steps are at the depths \<open>a, a + 1, ...\<close>
  with \<open>a\<close> one more than the depth of the target.
\<close>

lemma find_iter_counts:
  "find_iter k d (s, t, r) = Inr (s', t', r') \<Longrightarrow> counts t' = one_step (of_nat d) (counts t)"
  by (auto simp: find_iter_def Let_def bind_result_Inr_iff split_beta dest!: oram_step_counts)

lemma succ_iter_counts:
  "succ_iter k td d (s, t, r) = Inr (s', t', r') \<Longrightarrow> counts t' = one_step (td + 1 + of_nat d) (counts t)"
  by (auto simp: succ_iter_def Let_def bind_result_Inr_iff split_beta dest!: oram_step_counts)

lemma succ_loop_counts:
  assumes "for_loop (succ_iter k (of_nat dep)) 0 n (s, t, r) = Inr (s', t', r')" "dep + n < 2 ^ 31 - 1"
    and "counts t = (mh, sd, u, l)"
  shows "counts t' = (mh, sd, u + (min (nat sd) (dep + 1 + n) - min (nat sd) (dep + 1)),
    l + n - (min (nat sd) (dep + 1 + n) - min (nat sd) (dep + 1)))"
proof -
  define m where "m i = min (nat sd) (dep + 1 + i) - min (nat sd) (dep + 1)" for i
  have m0: "m 0 = 0" by (simp add: m_def)
  have m: "m i \<le> i" "m (Suc i) = (if sd > 0 \<and> int (dep + 1 + i) < sd then m i + 1 else m i)" for i
  proof -
    show "m i \<le> i" by (simp add: m_def)
    have "dep + 1 + i < nat sd \<longleftrightarrow> sd > 0 \<and> int (dep + 1 + i) < sd" by linarith
    then show "m (Suc i) = (if sd > 0 \<and> int (dep + 1 + i) < sd then m i + 1 else m i)"
      by (cases "dep + 1 + i < nat sd") (simp_all add: m_def)
  qed
  let ?P = "\<lambda>i (s :: succ_state, t, r :: rng). counts t = (mh, sd, u + m i, l + i - m i)"
  have "?P (0 + n) (s', t', r')"
    using assms(1)
  proof (rule for_loop_inv)
    fix i x x' assume i: "i < 0 + n" "?P i x" "succ_iter k (of_nat dep) i x = Inr x'"
    obtain s2 t2 r2 where x: "x = (s2, t2, r2)" by (cases x) auto
    obtain s3 t3 r3 where x': "x' = (s3, t3, r3)" by (cases x') auto
    have d: "sint (of_nat (dep + 1 + i) :: i32) = int (dep + 1 + i)"
      by (rule sint_of_small_nat) (use i assms(2) in simp)
    have w: "of_nat dep + 1 + of_nat i = (of_nat (dep + 1 + i) :: i32)" by simp
    have "counts t3 = one_step (of_nat (dep + 1 + i)) (counts t2)"
      using succ_iter_counts [of k "of_nat dep" i s2 t2 r2 s3 t3 r3] i(3) x x' unfolding w by simp
    also have "\<dots> = (mh, sd, u + m (Suc i), l + Suc i - m (Suc i))"
    proof -
      have "one_step (of_nat (dep + 1 + i)) (mh, sd, u + m i, l + i - m i) =
          (if sd > 0 \<and> int (dep + 1 + i) < sd then (mh, sd, u + m i + 1, l + i - m i)
           else (mh, sd, u + m i, l + i - m i + 1))"
        unfolding one_step_def prod.case d by (rule refl)
      then show ?thesis using i(2) x m(1) [of i] m(2) [of i] by auto
    qed
    finally show "?P (Suc i) x'" using x' by simp
  qed (use assms(3) m0 in simp)
  then show ?thesis by (simp add: m_def)
qed

definition find_start :: "i32 \<Rightarrow> tee_avl \<Rightarrow> find_state" where
  "find_start k t =
     (let is_real = (1 - o_equal (ta_root_key t) INVALID_KEY) AND (1 - o_equal k INVALID_KEY)
      in \<lparr>f_cur_key = o_select_i (is_real \<noteq> 0) (ta_root_key t) INVALID_KEY,
          f_cur_leaf = o_select_i (is_real \<noteq> 0) (ta_root_leaf t) INVALID_LEAF,
          f_found = 0, f_target_idx = - 1, f_target_depth = 0\<rparr>)"

lemma find_iter_depth:
  "find_iter k d (s, t, r) = Inr (s', t', r') \<Longrightarrow> f_target_depth s' = of_nat d \<or> f_target_depth s' = f_target_depth s"
  by (auto simp: find_iter_def Let_def bind_result_Inr_iff split_beta)

lemma find_loop_depth:
  assumes "for_loop (find_iter k) 0 n (s, t, r) = Inr (s', t', r')" "f_target_depth s = 0"
  shows "\<exists>dep \<le> n. f_target_depth s' = of_nat dep"
proof -
  let ?P = "\<lambda>d (s, t :: tee_avl, r :: rng). \<exists>dep \<le> d. f_target_depth s = of_nat dep"
  have "?P (0 + n) (s', t', r')"
    using assms(1)
  proof (rule for_loop_inv)
    fix i x x' assume p: "?P i x" and f: "find_iter k i x = Inr x'"
    obtain s2 t2 r2 where x: "x = (s2, t2, r2)" by (cases x) auto
    obtain s3 t3 r3 where x': "x' = (s3, t3, r3)" by (cases x') auto
    obtain dep where "dep \<le> i" "f_target_depth s2 = of_nat dep" using p x by auto
    with find_iter_depth [of k i s2 t2 r2 s3 t3 r3] f x x' show "?P (Suc i) x'"
      by (metis (mono_tags, lifting) case_prod_conv le_SucI order_refl)
  qed (use assms in auto)
  then show ?thesis by simp
qed

lemma remove_counts:
  assumes "tee_remove k t r = Inr (t', r')"
    and "ta_max_height t < 2 ^ 20" "ta_split_depth t \<le> int (ta_max_height t)"
  shows "\<exists>s1 t1 r1 dep. for_loop (find_iter k) 0 (ta_max_height t)
      (find_start k t, (begin_stats t)\<lparr>ta_local := []\<rparr>, r) = Inr (s1, t1, r1)
    \<and> f_target_depth s1 = of_nat dep \<and> dep \<le> ta_max_height t
    \<and> counts t' = (ta_max_height t, ta_split_depth t,
        nat (ta_split_depth t) + (nat (ta_split_depth t) - (dep + 1)),
        3 * ta_max_height t - nat (ta_split_depth t) - (nat (ta_split_depth t) - (dep + 1)))"
proof -
  let ?t = "(begin_stats t)\<lparr>ta_local := []\<rparr>" and ?mh = "ta_max_height t" and ?sd = "ta_split_depth t"
  have mh: "ta_max_height ?t = ?mh" by (simp add: begin_stats_def)
  have start: "find_start k ?t = find_start k t" by (simp add: find_start_def begin_stats_def)
  obtain s1 t1 r1 c c1 t2 r2 t3 t4 r3 t5 where
    loop: "for_loop (find_iter k) 0 (ta_max_height ?t) (find_start k ?t, ?t, r) = Inr (s1, t1, r1)"
    and loop2: "for_loop (succ_iter k (f_target_depth s1)) 0 (ta_max_height t1) (c, t1, r1) = Inr (c1, t2, r2)"
    and t4: "reassign_leaves t3 r2 = (t4, r3)"
    and pad: "pad_ops (2 * ta_max_height t4) (flush_local_to_stash t4) r3 = Inr (t5, r')" and t': "t' = end_stats t5"
    and t3: "counts t3 = counts t2"
    using assms(1)
    by (auto simp: tee_remove_def find_start_def Let_def bind_result_Inr_iff split_beta intro!: that [OF _ _ surjective_pairing])
  obtain dep where dep: "f_target_depth s1 = of_nat dep" "dep \<le> ?mh"
    using find_loop_depth [OF loop] by (auto simp: mh find_start_def Let_def)
  have c1: "counts t1 = descent_counts ?mh ?sd ?mh"
    by (rule descent_counts_loop [OF loop [unfolded mh]])
      (use assms(2) counts_begin [of t] in \<open>auto simp: descent_counts_def dest: find_iter_counts\<close>)
  then have m1: "ta_max_height t1 = ?mh" by (simp add: counts_def descent_counts_def)
  let ?x = "nat ?sd - (dep + 1)"
  have sd: "nat ?sd \<le> ?mh" using assms(3) by simp
  have "counts t2 = (?mh, ?sd, nat ?sd + ?x, 2 * ?mh - nat ?sd - ?x)"
    using succ_loop_counts [OF loop2 [unfolded dep(1) m1] _ c1 [unfolded descent_counts_def]] dep(2) assms(2) sd
    by (auto simp: min_def)
  then have c4: "counts (flush_local_to_stash t4) = (?mh, ?sd, nat ?sd + ?x, 2 * ?mh - nat ?sd - ?x)"
    using t3 reassign_counts [OF t4] by simp
  then have m4: "ta_max_height t4 = ?mh" using flush_counts [of t4] by (simp add: counts_def)
  have "counts t' = (?mh, ?sd, nat ?sd + ?x, 3 * ?mh - nat ?sd - ?x)"
    using pad_ops_counts [OF pad [unfolded m4] c4 _ assms(3,2)] sd by (simp add: t')
  then show ?thesis using loop dep unfolding mh start by blast
qed

end
