(* ===== verification/Tee_Avl_Properties.thy ===== *)
theory Tee_Avl_Properties
  imports Tee_Avl_Counts Enclave_Oram_Load
begin

text \<open>
  The properties of the enclave map. \<open>tee_rep t tree\<close> says that the ORAMs of \<open>t\<close> hold the search tree
  \<open>tree\<close> at the depths and leaves its pointers name.
\<close>

text \<open>An ORAM that holds one node at the leaf 0.\<close>

definition demo_oram_of :: "i32 \<Rightarrow> avl_node \<Rightarrow> enclave_oram \<Rightarrow> enclave_oram" where
  "demo_oram_of k nd o0 =
     (case oram_init [(k, encode_node nd)] [k \<mapsto> 0] o0 [] of Inr (_, o1, _) \<Rightarrow> o1 | Inl e \<Rightarrow> o0)"

lemma demo_oram:
  assumes "n \<le> 2" "k \<noteq> INVALID_KEY" "length (avl_data nd) = 1"
  shows "eo_inv (demo_oram_of k nd (new_enclave_oram n 25 1 7))"
    and "eo_map (demo_oram_of k nd (new_enclave_oram n 25 1 7)) = [k \<mapsto> (0, encode_node nd)]"
    and "eo_value_size (demo_oram_of k nd (new_enclave_oram n 25 1 7)) = 25"
proof -
  let ?o = "new_enclave_oram n 25 1 7" and ?d = "[(k, encode_node nd)]"
  have n: "eo_core ?o" "eo_map ?o = Map.empty" "eo_value_size ?o = 25" "eo_stash ?o = []"
    by (rule new_enclave_oram_spec; use assms(1) in simp)+
  have same: "?o\<lparr>eo_stash := []\<rparr> = ?o" by (simp add: new_enclave_oram_def Let_def)
  have empty: "eo_map (?o\<lparr>eo_stash := []\<rparr>) = Map.empty" unfolding same by (rule n(2))
  have l0: "leaf_ok ?o 0" by (simp add: leaf_ok_def valid_leaf_def)
  have "\<exists>lm o1 r1. oram_init ?d [k \<mapsto> 0] ?o [] = Inr (lm, o1, r1) \<and> eo_inv o1 \<and> same_geometry ?o o1
    \<and> eo_map o1 = loaded_map (eo_value_size ?o) (map_of lm) ?d
    \<and> (\<forall>x\<in>fst ` set ?d. \<exists>lf. map_of lm x = Some lf \<and> leaf_ok ?o lf \<and> (\<forall>l. [k \<mapsto> 0] x = Some l \<longrightarrow> lf = l))"
    by (rule oram_init_spec [OF n(1) empty])
      (use n(3) l0 assms in \<open>simp_all add: AVL_HEADER_SIZE_def\<close>)
  then obtain lm o1 r1 where o1: "oram_init ?d [k \<mapsto> 0] ?o [] = Inr (lm, o1, r1)"
    "eo_inv o1" "same_geometry ?o o1" "eo_map o1 = loaded_map 25 (map_of lm) ?d" "map_of lm k = Some 0"
    unfolding n(3) by force
  have pad: "pad_bytes (encode_node nd) 25 = encode_node nd"
    by (rule pad_bytes_id) (simp add: AVL_HEADER_SIZE_def assms(3))
  have d: "demo_oram_of k nd ?o = o1" unfolding demo_oram_of_def o1(1) by simp
  have m: "eo_map o1 = [k \<mapsto> (0, encode_node nd)]"
    unfolding o1(4) loaded_map_def using pad o1(5) by simp
  show "eo_inv (demo_oram_of k nd ?o)" "eo_map (demo_oram_of k nd ?o) = [k \<mapsto> (0, encode_node nd)]"
    "eo_value_size (demo_oram_of k nd ?o) = 25"
    unfolding d by (fact o1(2), fact m, simp only: same_geometryD [OF o1(3)] n(3))
qed

text \<open>A map that holds one node, with room for two.\<close>

definition demo_map :: tee_avl where
  "demo_map = (let t = new_tee_avl 2 1 1 0
     in t\<lparr>ta_root_key := 5, ta_root_leaf := 0, ta_lower := demo_oram_of 5 (new_avl_node [7]) (ta_lower t)\<rparr>)"

lemma demo_lower:
  "eo_inv (ta_lower demo_map)" "eo_map (ta_lower demo_map) = [5 \<mapsto> (0, encode_node (new_avl_node [7]))]"
  "eo_value_size (ta_lower demo_map) = 25"
proof -
  have "ta_lower demo_map = demo_oram_of 5 (new_avl_node [7]) (new_enclave_oram 2 25 1 7)"
    by (simp add: demo_map_def new_tee_avl_def node_oram_val_size_def AVL_HEADER_SIZE_def Let_def)
  then show "eo_inv (ta_lower demo_map)" "eo_map (ta_lower demo_map) = [5 \<mapsto> (0, encode_node (new_avl_node [7]))]"
    "eo_value_size (ta_lower demo_map) = 25"
    using demo_oram [of 2 5 "new_avl_node [7]"] by (simp_all add: INVALID_KEY_def new_avl_node_def)
qed

lemma demo_map_facts:
  "ta_value_size demo_map = 1" "ta_split_depth demo_map = 0" "ta_max_height demo_map = 2"
  "ta_root_key demo_map = 5" "ta_root_leaf demo_map = 0"
proof -
  have "avl_max_height 2 \<le> 2" "\<not> avl_max_height 2 \<le> 1" unfolding avl_max_height_least by simp_all
  then have "avl_max_height 2 = 2" by linarith
  then show "ta_value_size demo_map = 1" "ta_split_depth demo_map = 0" "ta_max_height demo_map = 2"
    "ta_root_key demo_map = 5" "ta_root_leaf demo_map = 0"
    by (simp_all add: demo_map_def new_tee_avl_def Let_def)
qed

lemma demo_map_rep: "tee_rep demo_map (Node Leaf (5, [7]) Leaf)"
proof -
  have "tee_ok demo_map"
    by (simp add: tee_ok_def store_ok_def demo_map_facts demo_lower AVL_HEADER_SIZE_def)
  moreover have "tee_view demo_map 0 5 = Some (0, encode_node (new_avl_node [7]))"
    by (simp add: tee_view_def oram_for_depth_def is_upper_def demo_map_facts demo_lower)
  ultimately show ?thesis
    by (auto simp: tee_rep_def demo_map_facts new_avl_node_def INVALID_KEY_def intro!: exI [of _ "new_avl_node [7]"])
qed

text \<open>
  Claim C5: the oblivious search is a lookup with write-back. If the ORAMs represent a search tree, a
  real search of a non-negative key reports whether the tree holds it, returns the stored value, or
  zeros, and leaves ORAMs that represent a search tree of the same map with the value replaced by the
  padded update or by the padded transform of the old value. The only failure is a stash overflow.
\<close>

theorem tee_search_correct:
  assumes "tee_rep t tree" "0 \<le> sint k"
    and "\<forall>u. update = Some u \<longrightarrow> length u \<le> ta_value_size t"
    and "\<forall>f v. transform = Some f \<and> length v = ta_value_size t \<longrightarrow> length (f v) \<le> ta_value_size t"
  shows "case search_or_dummy k True update transform t r of
      Inl e \<Rightarrow> (\<exists>n m. e = StashOverflow n m \<and> m < n)
    | Inr (res, found, t', r') \<Rightarrow>
        found = (k \<in> dom (tree_map tree))
        \<and> res = (case tree_map tree k of Some v \<Rightarrow> v | None \<Rightarrow> replicate (ta_value_size t) 0)
        \<and> (\<exists>tree'. tee_rep t' tree' \<and> tree_map tree' =
             (case tree_map tree k of None \<Rightarrow> tree_map tree
              | Some v \<Rightarrow> (tree_map tree)(k \<mapsto> new_value update transform (ta_value_size t) v)))"
  using search_or_dummy_spec [of t tree True k update transform r] assms
  by (auto simp: safe_run_def searched_map_def split: sum.split option.splits)

theorem tee_search_correct_witness:
  "case search_or_dummy 5 True (Some [9]) None demo_map [1, 0] of
      Inl e \<Rightarrow> (\<exists>n m. e = StashOverflow n m \<and> m < n)
    | Inr (res, found, t', r') \<Rightarrow> found \<and> res = [7]
        \<and> (\<exists>tree'. tee_rep t' tree' \<and> tree_map tree' = [5 \<mapsto> [9]])"
  using tee_search_correct [OF demo_map_rep, of 5 "Some [9]" None "[1, 0]"]
  by (simp add: demo_map_facts tree_map_def new_value_def split: sum.splits prod.splits)

text \<open>
  Claim C33: a dummy access changes no stored key or value: the ORAMs represent a tree of the same map.
\<close>

theorem tee_dummy_access_keeps:
  assumes "tee_rep t tree"
  shows "case tee_dummy_access t r of
      Inl e \<Rightarrow> (\<exists>n m. e = StashOverflow n m \<and> m < n)
    | Inr (t', r') \<Rightarrow> \<exists>tree'. tee_rep t' tree' \<and> tree_map tree' = tree_map tree"
proof -
  have "safe_run (search_or_dummy INVALID_KEY False None None t r)
    (\<lambda>(v, f, t', r'). \<exists>tree'. tee_rep t' tree' \<and> tree_map tree' = tree_map tree)"
    by (rule safe_run_mono [OF search_or_dummy_spec [OF assms, of False INVALID_KEY None None r]])
      (auto simp: searched_map_def split: option.splits)
  then have "safe_run (tee_dummy_access t r) (\<lambda>(t', r'). \<exists>tree'. tee_rep t' tree' \<and> tree_map tree' = tree_map tree)"
    unfolding tee_dummy_access_def by (rule safe_run_bind) auto
  then show ?thesis by (auto simp: safe_run_def split: sum.splits)
qed

theorem tee_dummy_access_keeps_witness:
  "case tee_dummy_access demo_map [] of
      Inl e \<Rightarrow> (\<exists>n m. e = StashOverflow n m \<and> m < n)
    | Inr (t', r') \<Rightarrow> \<exists>tree'. tee_rep t' tree' \<and> tree_map tree' = [5 \<mapsto> [7]]"
proof -
  have "tree_map (Node Leaf (5, [7]) Leaf) = [5 \<mapsto> [7]]" by (simp add: tree_map_def)
  from tee_dummy_access_keeps [OF demo_map_rep, of "[]", unfolded this] show ?thesis .
qed

text \<open>A map split after its root: the root is in the upper ORAM, its left child in the lower one.\<close>

definition demo_root :: avl_node where
  "demo_root = (new_avl_node [7])\<lparr>l_key := 3, l_leaf := 0, l_height := 1\<rparr>"

definition demo_split :: tee_avl where
  "demo_split = (let t = new_tee_avl 2 1 1 1
     in t\<lparr>ta_root_key := 5, ta_root_leaf := 0, ta_upper := demo_oram_of 5 demo_root (ta_upper t),
          ta_lower := demo_oram_of 3 (new_avl_node [4]) (ta_lower t)\<rparr>)"

lemma demo_split_facts:
  "ta_value_size demo_split = 1" "ta_split_depth demo_split = 1" "ta_max_height demo_split = 2"
  "ta_root_key demo_split = 5" "ta_root_leaf demo_split = 0"
  "ta_upper demo_split = demo_oram_of 5 demo_root (new_enclave_oram 1 25 1 7)"
  "ta_lower demo_split = demo_oram_of 3 (new_avl_node [4]) (new_enclave_oram 2 25 1 7)"
proof -
  have "avl_max_height 2 \<le> 2" "\<not> avl_max_height 2 \<le> 1" unfolding avl_max_height_least by simp_all
  then have "avl_max_height 2 = 2" by linarith
  then show "ta_value_size demo_split = 1" "ta_split_depth demo_split = 1" "ta_max_height demo_split = 2"
    "ta_root_key demo_split = 5" "ta_root_leaf demo_split = 0"
    "ta_upper demo_split = demo_oram_of 5 demo_root (new_enclave_oram 1 25 1 7)"
    "ta_lower demo_split = demo_oram_of 3 (new_avl_node [4]) (new_enclave_oram 2 25 1 7)"
    by (simp_all add: demo_split_def new_tee_avl_def node_oram_val_size_def AVL_HEADER_SIZE_def Let_def)
qed

lemma demo_split_rep: "tee_rep demo_split (Node (Node Leaf (3, [4]) Leaf) (5, [7]) Leaf)"
proof -
  have up: "eo_inv (ta_upper demo_split)" "eo_map (ta_upper demo_split) = [5 \<mapsto> (0, encode_node demo_root)]"
    "eo_value_size (ta_upper demo_split) = 25"
    using demo_oram [of 1 5 demo_root] by (simp_all add: demo_split_facts INVALID_KEY_def demo_root_def new_avl_node_def)
  have low: "eo_inv (ta_lower demo_split)" "eo_map (ta_lower demo_split) = [3 \<mapsto> (0, encode_node (new_avl_node [4]))]"
    "eo_value_size (ta_lower demo_split) = 25"
    using demo_oram [of 2 3 "new_avl_node [4]"] by (simp_all add: demo_split_facts INVALID_KEY_def new_avl_node_def)
  have ok: "tee_ok demo_split"
    using up low by (simp add: tee_ok_def store_ok_def demo_split_facts(1-5) AVL_HEADER_SIZE_def)
  have view: "tee_view demo_split 0 5 = Some (0, encode_node demo_root)"
    "tee_view demo_split (Suc 0) 3 = Some (0, encode_node (new_avl_node [4]))"
    using up(2) low(2) by (simp_all add: tee_view_def oram_for_depth_def is_upper_def demo_split_facts(1-5))
  have left: "tree_at (tee_view demo_split) (sized 1) (Suc 0) 3 0 (Node Leaf (3, [4]) Leaf)"
    using view(2) by (auto simp: new_avl_node_def INVALID_KEY_def intro!: exI [of _ "new_avl_node [4]"])
  have "tree_at (tee_view demo_split) (sized 1) 0 5 0 (Node (Node Leaf (3, [4]) Leaf) (5, [7]) Leaf)"
    unfolding tree_at.simps(2) [of _ _ 0]
    by (intro conjI exI [of _ demo_root]) (use view(1) left in \<open>simp_all add: demo_root_def new_avl_node_def INVALID_KEY_def\<close>)
  then show ?thesis using ok by (simp add: tee_rep_def demo_split_facts(1-5) key_ordered_def)
qed

text \<open>
  Claim C34: the number of ORAM steps of a search does not depend on what is searched or found. On ORAMs that
  represent a search tree a real search, with any key, update and transform, and a dummy search fail with
  nothing but a stash overflow, and otherwise make as many steps on the upper tree as the split is deep and
  fill up with steps on the lower one to three times the maximal height; so does a dummy access.
\<close>

theorem tee_access_steps:
  assumes "tee_rep t tree" "0 \<le> ta_split_depth t" "is_real \<longrightarrow> 0 \<le> sint k"
    and "\<forall>u. update = Some u \<longrightarrow> length u \<le> ta_value_size t"
    and "\<forall>f v. transform = Some f \<and> length v = ta_value_size t \<longrightarrow> length (f v) \<le> ta_value_size t"
  shows "(case search_or_dummy k is_real update transform t r of
      Inl e \<Rightarrow> (\<exists>n m. e = StashOverflow n m \<and> m < n)
    | Inr (res, found, t', r') \<Rightarrow> int (ta_upper_ops t') = ta_split_depth t
        \<and> int (ta_lower_ops t') = 3 * int (ta_max_height t) - ta_split_depth t)
    \<and> (case tee_dummy_access t r of
      Inl e \<Rightarrow> (\<exists>n m. e = StashOverflow n m \<and> m < n)
    | Inr (t', r') \<Rightarrow> int (ta_upper_ops t') = ta_split_depth t
        \<and> int (ta_lower_ops t') = 3 * int (ta_max_height t) - ta_split_depth t)"
proof -
  have b: "ta_max_height t < 2 ^ 20" "ta_split_depth t \<le> int (ta_max_height t)"
    using assms(1) by (simp_all add: tee_rep_def tee_ok_def)
  have n: "int (ta_upper_ops t') = ta_split_depth t \<and> int (ta_lower_ops t') = 3 * int (ta_max_height t) - ta_split_depth t"
    if "search_or_dummy x y u f t r = Inr (v, fd, t', r')" for x y u f v fd t' r'
    using search_counts [OF that b] assms(2) b(2) by (auto simp: counts_def)
  have search: "safe_run (search_or_dummy k is_real update transform t r) (\<lambda>_. True)"
    by (rule safe_run_mono [OF search_or_dummy_spec [OF assms(1,3-5)]]) simp
  have "safe_run (search_or_dummy INVALID_KEY False None None t r) (\<lambda>_. True)"
    by (rule safe_run_mono [OF search_or_dummy_spec [OF assms(1)]]) simp_all
  then show ?thesis
    using search n by (auto simp: tee_dummy_access_def safe_run_def bind_result_def split: sum.splits)
qed

theorem tee_access_steps_witness:
  "tee_rep demo_split (Node (Node Leaf (3, [4]) Leaf) (5, [7]) Leaf)
    \<and> (case search_or_dummy 3 True (Some [9]) None demo_split [1, 0] of
      Inl e \<Rightarrow> (\<exists>n m. e = StashOverflow n m \<and> m < n)
    | Inr (res, found, t', r') \<Rightarrow> int (ta_upper_ops t') = 1 \<and> int (ta_lower_ops t') = 5)
    \<and> (case tee_dummy_access demo_split [1, 0] of
      Inl e \<Rightarrow> (\<exists>n m. e = StashOverflow n m \<and> m < n)
    | Inr (t', r') \<Rightarrow> int (ta_upper_ops t') = 1 \<and> int (ta_lower_ops t') = 5)"
  using tee_access_steps [OF demo_split_rep, of True 3 "Some [9]" None "[1, 0]", unfolded demo_split_facts(1-3)]
    demo_split_rep by (simp split: sum.splits prod.splits)

section \<open>Insertion and removal\<close>

text \<open>An insertion that succeeds makes the same number of steps.\<close>

lemma tee_insert_steps:
  assumes "tee_insert k v t r = Inr (t', r')"
    and "ta_max_height t < 2 ^ 20" "0 \<le> ta_split_depth t" "ta_split_depth t \<le> int (ta_max_height t)"
  shows "int (ta_upper_ops t') = ta_split_depth t \<and> int (ta_lower_ops t') = 3 * int (ta_max_height t) - ta_split_depth t"
  using insert_counts [OF assms(1,2,4)] assms(3,4) by (auto simp: counts_def)

text \<open>
  A removal that succeeds makes three times the maximal height ORAM steps in all; but with a split it makes
  \<open>max 0 (split_depth - 1 - depth)\<close> steps more on the upper tree than the others do, where \<open>depth\<close> is what the
  search for the target recorded.
\<close>

lemma tee_remove_steps:
  assumes "ta_max_height t < 2 ^ 20" "0 \<le> ta_split_depth t" "ta_split_depth t \<le> int (ta_max_height t)"
    and "tee_remove k t r = Inr (t', r')"
  shows "ta_upper_ops t' + ta_lower_ops t' = 3 * ta_max_height t
    \<and> (\<exists>s1 t1 r1 depth. for_loop (find_iter k) 0 (ta_max_height t)
           (find_start k t, (begin_stats t)\<lparr>ta_local := []\<rparr>, r) = Inr (s1, t1, r1)
         \<and> f_target_depth s1 = of_nat depth \<and> depth \<le> ta_max_height t
         \<and> int (ta_upper_ops t') = ta_split_depth t + max 0 (ta_split_depth t - 1 - int depth))"
proof -
  obtain s1 t1 r1 dep where c: "for_loop (find_iter k) 0 (ta_max_height t)
      (find_start k t, (begin_stats t)\<lparr>ta_local := []\<rparr>, r) = Inr (s1, t1, r1)"
    "f_target_depth s1 = of_nat dep" "dep \<le> ta_max_height t"
    "counts t' = (ta_max_height t, ta_split_depth t,
        nat (ta_split_depth t) + (nat (ta_split_depth t) - (dep + 1)),
        3 * ta_max_height t - nat (ta_split_depth t) - (nat (ta_split_depth t) - (dep + 1)))"
    using remove_counts [OF assms(4,1,3)] by blast
  have sd: "nat (ta_split_depth t) \<le> ta_max_height t" using assms(3) by simp
  have ops: "ta_upper_ops t' = nat (ta_split_depth t) + (nat (ta_split_depth t) - (dep + 1))"
    "ta_lower_ops t' = 3 * ta_max_height t - nat (ta_split_depth t) - (nat (ta_split_depth t) - (dep + 1))"
    using c(4) by (simp_all add: counts_def)
  have "int (ta_upper_ops t') = ta_split_depth t + max 0 (ta_split_depth t - 1 - int dep)"
    unfolding ops using assms(2) by linarith
  moreover have "ta_upper_ops t' + ta_lower_ops t' = 3 * ta_max_height t"
    unfolding ops using sd by linarith
  ultimately show ?thesis using c(1-3) by blast
qed

end
