(* ===== verification/Tee_Omap_Properties.thy ===== *)
theory Tee_Omap_Properties
  imports Tee_Omap_Correct Tee_Avl_Properties
begin

text \<open>
  The property of the tiered enclave map: an access is a lookup and a write of one map, whichever tier
  holds the key.
\<close>

text \<open>A map with the key 6 in the hot tier and the key 5 in the cold one.\<close>

definition demo_hot :: enclave_oram where
  "demo_hot =
     (case oram_init [(6, [9])] [6 \<mapsto> 0] (new_enclave_oram 2 1 1 7) [] of Inr (_, o1, _) \<Rightarrow> o1 | Inl e \<Rightarrow> default_enclave_oram)"

definition demo_tiers :: tee_omap where
  "demo_tiers = \<lparr>to_config = default_tee_config\<lparr>tc_value_size := 1\<rparr>,
     to_dir = snd (dir_insert (new_directory 2) 6 0), to_hot = demo_hot, to_cold = demo_map,
     to_hot_capacity = 2, to_epoch = 1, to_accesses = 0, to_scan = 0,
     to_promo_key = INVALID_KEY, to_promo_val = []\<rparr>"

lemma demo_hot_facts: "eo_inv demo_hot" "eo_map demo_hot = [6 \<mapsto> (0, [9])]" "eo_value_size demo_hot = 1"
proof -
  let ?o = "new_enclave_oram 2 1 1 7"
  let ?d = "[(6, [9])] :: (i32 \<times> bytes) list"
  have n: "eo_core ?o" "eo_map ?o = Map.empty" "eo_value_size ?o = 1" "eo_stash ?o = []"
    by (rule new_enclave_oram_spec; simp)+
  have same: "?o\<lparr>eo_stash := []\<rparr> = ?o" by (simp add: new_enclave_oram_def Let_def)
  have empty: "eo_map (?o\<lparr>eo_stash := []\<rparr>) = Map.empty" unfolding same by (rule n(2))
  have l0: "leaf_ok ?o 0" by (simp add: leaf_ok_def valid_leaf_def)
  have "\<exists>lm o1 r1. oram_init ?d [6 \<mapsto> 0] ?o [] = Inr (lm, o1, r1) \<and> eo_inv o1 \<and> same_geometry ?o o1
    \<and> eo_map o1 = loaded_map (eo_value_size ?o) (map_of lm) ?d
    \<and> (\<forall>k\<in>fst ` set ?d. \<exists>lf. map_of lm k = Some lf \<and> leaf_ok ?o lf \<and> (\<forall>l. [6 \<mapsto> 0] k = Some l \<longrightarrow> lf = l))"
    by (rule oram_init_spec [OF n(1) empty]) (use n(3) l0 in \<open>simp_all add: INVALID_KEY_def\<close>)
  then obtain lm o1 r1 where o1: "oram_init ?d [6 \<mapsto> 0] ?o [] = Inr (lm, o1, r1)"
    "eo_inv o1" "same_geometry ?o o1" "eo_map o1 = loaded_map 1 (map_of lm) ?d" "map_of lm 6 = Some 0"
    unfolding n(3) by force
  have d: "demo_hot = o1" unfolding demo_hot_def o1(1) by simp
  show "eo_inv demo_hot" "eo_map demo_hot = [6 \<mapsto> (0, [9])]" "eo_value_size demo_hot = 1"
    unfolding d by (fact o1(2), simp add: o1(4,5) loaded_map_def, simp only: same_geometryD [OF o1(3)] n(3))
qed

lemma demo_dir_facts:
  "dir_inv (to_dir demo_tiers)" "dir_map (to_dir demo_tiers) = [6 \<mapsto> 0]"
proof -
  have e: "dir_map (new_directory 2) = Map.empty" "dir_inv (new_directory 2)" "dir_count (new_directory 2) = 0"
    "dir_capacity (new_directory 2) = 2"
    by (simp_all add: new_directory_def dir_map_def dir_inv_def live_entries_def empty_entry_def)
  have "dir_inv (snd (dir_insert (new_directory 2) 6 0)) \<and>
      dir_map (snd (dir_insert (new_directory 2) 6 0)) = [6 \<mapsto> 0]"
    using dir.add_abs [OF e(2) _ surjective_pairing, of 6 0] by (simp add: e INVALID_KEY_def)
  then show "dir_inv (to_dir demo_tiers)" "dir_map (to_dir demo_tiers) = [6 \<mapsto> 0]"
    by (simp_all add: demo_tiers_def)
qed

lemma demo_tiers_rep: "tier_rep demo_tiers (Node Leaf (5, [7]) Leaf)"
  using demo_dir_facts demo_hot_facts demo_map_rep demo_map_facts(1)
  by (auto simp: tier_rep_def demo_tiers_def default_tee_config_def default_tee_maintenance_def stored_value_size_def)

lemma demo_tiers_map:
  "tier_map demo_tiers (Node Leaf (5, [7]) Leaf) = [5 \<mapsto> [7], 6 \<mapsto> [9]]"
  "is_hot demo_tiers 6" "\<not> is_hot demo_tiers 5" "user_size demo_tiers = 1" "off_boundary demo_tiers"
  using tier_is_hot(1) [OF demo_tiers_rep, of 6] tier_is_hot(1) [OF demo_tiers_rep, of 5] demo_hot_facts(2)
  by (auto simp: tier_map_def hot_map_def demo_tiers_def default_tee_config_def default_tee_maintenance_def
      user_of_def unwrap_value_def tree_map_def fun_eq_iff off_boundary_def)

text \<open>
  Claim C1: a tiered access is a lookup and a write. If the two tiers represent a map, an access of a
  non-negative key returns the value stored for it, or zeros, in whichever tier it is and in both
  security modes, reports whether the key is hot, and leaves tiers that represent the same map with the
  value of the key, if it is there, replaced by the padded new one. The early answer is the value of a
  hot key and zeros of a cold one, and the final answer comes second. This holds with maintenance off
  and with it on, for accesses that do not end a swap interval; the only failure is a stash overflow.
\<close>

theorem tiered_access_correct:
  assumes "tier_rep m tree" "0 \<le> sint k" "\<forall>v. nv = Some v \<longrightarrow> length v \<le> user_size m" "off_boundary m"
  shows "case snd (tee_access k nv m r) of
      Inl e \<Rightarrow> (\<exists>n m. e = StashOverflow n m \<and> m < n)
    | Inr (res, m', r') \<Rightarrow>
        ar_found_in_hot res = is_hot m k
        \<and> ar_value res = (case tier_map m tree k of None \<Rightarrow> replicate (user_size m) 0 | Some v \<Rightarrow> v)
        \<and> fst (tee_access k nv m r) =
            [(if is_hot m k then ar_value res else replicate (user_size m) 0, is_hot m k),
             (ar_value res, \<not> is_hot m k)]
        \<and> (\<exists>tree'. tier_rep m' tree' \<and> tier_map m' tree' =
             (case nv of Some v \<Rightarrow> if tier_map m tree k = None then tier_map m tree
                                   else (tier_map m tree)(k \<mapsto> pad_bytes v (user_size m))
              | None \<Rightarrow> tier_map m tree))"
proof -
  have hot: "(case hot_map m k of None \<Rightarrow> replicate (user_size m) 0 | Some v \<Rightarrow> v) =
      (if is_hot m k then case tier_map m tree k of None \<Rightarrow> replicate (user_size m) 0 | Some v \<Rightarrow> v
       else replicate (user_size m) 0)"
    using tier_is_hot(1) [OF assms(1,2)] assms(2) by (auto simp: tier_map_def)
  have put: "put_if_present k nv (user_size m) (tier_map m tree) =
      (case nv of Some v \<Rightarrow> if tier_map m tree k = None then tier_map m tree
                            else (tier_map m tree)(k \<mapsto> pad_bytes v (user_size m))
       | None \<Rightarrow> tier_map m tree)"
    by (auto simp: put_if_present_def split: option.split)
  show ?thesis
    using tee_access_spec [OF assms, of r] unfolding put hot
    by (auto simp: safe_run_def split: sum.split)
qed

theorem tiered_access_correct_witness:
  "case snd (tee_access 5 (Some [8]) demo_tiers [1, 0]) of
      Inl e \<Rightarrow> (\<exists>n m. e = StashOverflow n m \<and> m < n)
    | Inr (res, m', r') \<Rightarrow> ar_value res = [7] \<and> \<not> ar_found_in_hot res
        \<and> (\<exists>tree'. tier_rep m' tree' \<and> tier_map m' tree' = [5 \<mapsto> [8], 6 \<mapsto> [9]])"
proof -
  have "[5 \<mapsto> [7], 6 \<mapsto> [9]](5 \<mapsto> pad_bytes [8] 1) = ([5 \<mapsto> [8], 6 \<mapsto> [9]] :: i32 \<rightharpoonup> bytes)"
    by (auto simp: fun_eq_iff)
  then show ?thesis
    using tiered_access_correct [OF demo_tiers_rep, of 5 "Some [8]" "[1, 0]"]
    by (simp add: demo_tiers_map split: sum.splits prod.splits)
qed

end
