(* ===== verification/Tee_Server_Properties.thy ===== *)
theory Tee_Server_Properties
  imports Tee_Server Tee_Omap_Properties
begin

text \<open>
  The properties of the enclave server: the wire format round trips, and a connection answers its
  requests, however the network cuts the stream, as the map the tiers hold says.
\<close>

section \<open>The wire format\<close>

lemma sint_of_length: "n < 2 ^ 31 \<Longrightarrow> sint (of_nat n :: i32) = int n"
  by (rule sint_of_small_nat)

lemma load_int_Cons [simp]: "load_int (Suc n) (b # bs) = load_int n bs"
  by (simp add: load_int_def)

lemma request_roundtrip:
  assumes "length (rq_value req) < 2 ^ 31"
  shows "deserialize_request (serialize_request req) = req"
proof -
  let ?v = "rq_value req"
  have l: "load_int (Suc 4) (serialize_request req) = of_nat (length ?v)"
    using load_int_at [of 4 "int_to_bytes (rq_key req)" "of_nat (length ?v)" ?v]
    by (simp add: serialize_request_def flip: numeral_eq_Suc) (simp add: eval_nat_numeral)
  have k: "load_int (Suc 0) (serialize_request req) = rq_key req"
    by (simp add: serialize_request_def)
  have d: "drop 9 (serialize_request req) = ?v" by (simp add: serialize_request_def)
  have "rq_value (deserialize_request (serialize_request req)) = ?v"
    using sint_of_length [OF assms] l d
    by (simp add: deserialize_request_def Let_def default_request_def) (simp add: serialize_request_def)
  moreover have "rq_op (deserialize_request (serialize_request req)) = rq_op req"
    "rq_key (deserialize_request (serialize_request req)) = rq_key req"
    using k by (simp_all add: deserialize_request_def Let_def default_request_def)
      (simp_all add: serialize_request_def)
  ultimately show ?thesis by simp
qed

lemma response_roundtrip:
  assumes "length (rs_value resp) < 2 ^ 31"
  shows "deserialize_response (serialize_response resp) = resp"
proof -
  let ?v = "rs_value resp"
  have l: "load_int (Suc (Suc 0)) (serialize_response resp) = of_nat (length ?v)"
    by (simp add: serialize_response_def)
  have d: "drop 6 (serialize_response resp) = ?v" by (simp add: serialize_response_def)
  have "rs_value (deserialize_response (serialize_response resp)) = ?v"
    using sint_of_length [OF assms] l d
    by (simp add: deserialize_response_def Let_def default_response_def numeral_2_eq_2)
      (simp add: serialize_response_def)
  moreover have "rs_phase (deserialize_response (serialize_response resp)) = rs_phase resp"
    "rs_found (deserialize_response (serialize_response resp)) = rs_found resp"
    by (simp_all add: deserialize_response_def Let_def default_response_def serialize_response_def)
  ultimately show ?thesis by simp
qed

section \<open>Framing\<close>

definition frame :: "bytes \<Rightarrow> bytes" where
  "frame msg = int_to_bytes (of_nat (length msg)) @ msg"

lemma length_frame [simp]: "length (frame msg) = 4 + length msg"
  by (simp add: frame_def)

lemma send_msg_frame:
  assumes "willing n s" "length (frame msg) \<le> n" "length msg < 2 ^ 32"
  shows "\<exists>s'. tee_send_msg msg s = (Inr (), s') \<and> willing (n - length (frame msg)) s'
    \<and> sent s' = sent s @ frame msg \<and> arriving s' = arriving s"
proof -
  have u: "unat (of_nat (length msg) :: 32 word) = length msg"
    using assms(3) by (simp add: unat_of_nat)
  obtain s1 where s1: "send_loop (int_to_bytes (of_nat (length msg))) s = (True, s1)" "willing (n - 4) s1"
    "sent s1 = sent s @ int_to_bytes (of_nat (length msg))" "arriving s1 = arriving s"
    using send_loop_stream [OF assms(1), of "int_to_bytes (of_nat (length msg))"] assms(2) by auto
  obtain s2 where s2: "send_loop msg s1 = (True, s2)" "willing (n - 4 - length msg) s2"
    "sent s2 = sent s1 @ msg" "arriving s2 = arriving s1"
    using send_loop_stream [OF s1(2), of msg] assms(2) by (auto simp: le_diff_conv2)
  show ?thesis
  proof (cases "msg = []")
    case True
    then show ?thesis using s1 by (simp add: tee_send_msg_def frame_def)
  next
    case False
    then have "of_nat (length msg) > (0 :: 32 word)"
      using u by (metis length_0_conv unat_0 word_gt_0)
    then show ?thesis using s1 s2 by (simp add: tee_send_msg_def u frame_def)
  qed
qed

lemma recv_msg_frame:
  assumes "healthy s" "stream s = frame msg @ rest" "length msg < 2 ^ 32"
  shows "\<exists>s'. tee_recv_msg s = (Some msg, s') \<and> healthy s' \<and> stream s' = rest
    \<and> accepted s' = accepted s \<and> sent s' = sent s"
proof -
  have u: "unat (of_nat (length msg) :: 32 word) = length msg"
    using assms(3) by (simp add: unat_of_nat)
  obtain s1 where s1: "recv_loop 4 s = (Received (int_to_bytes (of_nat (length msg))), s1)" "consumed s 4 s1"
    using recv_loop_stream [OF assms(1), of 4] by (auto simp: assms(2) frame_def)
  have st: "healthy s1" "stream s1 = msg @ rest" using s1(2) by (simp_all add: consumed_def assms(2) frame_def)
  obtain s2 where s2: "recv_loop (length msg) s1 = (Received msg, s2)" "consumed s1 (length msg) s2"
    using recv_loop_stream [OF st(1), of "length msg"] by (auto simp: st(2))
  have "stream s2 = drop (length msg) (stream s1)" using s2(2) by (simp add: consumed_def)
  then have "stream s2 = rest" unfolding st(2) by simp
  moreover have "healthy s2" "accepted s2 = accepted s" "sent s2 = sent s"
    using s1(2) s2(2) by (simp_all add: consumed_def)
  moreover have "tee_recv_msg s = (Some msg, if msg = [] then s1 else s2)"
    using s1(1) s2(1) by (auto simp: tee_recv_msg_def recv_all_def u)
  moreover have "s2 = s1" if "msg = []" using s2(1) that by (simp add: recv_loop.simps [of 0])
  ultimately show ?thesis by (cases "msg = []") auto
qed

lemma recv_msg_closed:
  assumes "healthy s" "stream s = []"
  shows "\<exists>s'. tee_recv_msg s = (None, s') \<and> sent s' = sent s"
proof -
  have "arriving s = []"
    using assms by (cases "arriving s") (auto simp: stream_def healthy_def split: option.splits)
  then have "recv_loop 4 s = (Closed, s)" by (subst recv_loop.simps) simp
  then show ?thesis by (simp add: tee_recv_msg_def recv_all_def)
qed

section \<open>A connection\<close>

text \<open>What a session of requests is answered, and what it does to the map.\<close>

definition request_write :: "tee_request \<Rightarrow> bytes option" where
  "request_write q = (if rq_op q = op_write then Some (rq_value q) else None)"

definition request_frame :: "tee_request \<Rightarrow> bytes" where
  "request_frame q = frame (serialize_request q)"

definition reply_frames :: "nat \<Rightarrow> (i32 \<Rightarrow> bool) \<Rightarrow> (i32 \<rightharpoonup> bytes) \<Rightarrow> tee_request \<Rightarrow> bytes" where
  "reply_frames vs hot f q =
     (let v = (case f (rq_key q) of None \<Rightarrow> replicate vs 0 | Some v \<Rightarrow> v)
      in frame (serialize_response \<lparr>rs_phase = phase_hot, rs_found = hot (rq_key q),
                  rs_value = (if hot (rq_key q) then v else replicate vs 0)\<rparr>)
         @ frame (serialize_response \<lparr>rs_phase = phase_final, rs_found = \<not> hot (rq_key q), rs_value = v\<rparr>))"

definition request_effect :: "nat \<Rightarrow> tee_request \<Rightarrow> (i32 \<rightharpoonup> bytes) \<Rightarrow> i32 \<rightharpoonup> bytes" where
  "request_effect vs q f = put_if_present (rq_key q) (request_write q) vs f"

fun session_replies :: "nat \<Rightarrow> (i32 \<Rightarrow> bool) \<Rightarrow> (i32 \<rightharpoonup> bytes) \<Rightarrow> tee_request list \<Rightarrow> bytes" where
  "session_replies vs hot f [] = []"
| "session_replies vs hot f (q # qs) =
     reply_frames vs hot f q @ session_replies vs hot (request_effect vs q f) qs"

definition good_request :: "nat \<Rightarrow> tee_request \<Rightarrow> bool" where
  "good_request vs q \<longleftrightarrow> 0 \<le> sint (rq_key q) \<and> length (rq_value q) \<le> vs"

lemma send_answers_frames:
  assumes "willing n s" "length as * (10 + vs) \<le> n" "\<forall>a\<in>set as. length (rs_value a) = vs" "vs < 2 ^ 31"
  shows "\<exists>s'. send_answers as s = (Inr (), s') \<and> willing (n - length as * (10 + vs)) s'
    \<and> sent s' = sent s @ concat (map (frame \<circ> serialize_response) as) \<and> arriving s' = arriving s"
  using assms
proof (induction as arbitrary: n s)
  case (Cons a as)
  have len: "length (frame (serialize_response a)) = 10 + vs"
    using Cons.prems(3) by (simp add: serialize_response_def)
  obtain s1 where s1: "tee_send_msg (serialize_response a) s = (Inr (), s1)"
    "willing (n - (10 + vs)) s1" "sent s1 = sent s @ frame (serialize_response a)" "arriving s1 = arriving s"
    using send_msg_frame [OF Cons.prems(1), of "serialize_response a"] Cons.prems(2-4) unfolding len
    by (auto simp: serialize_response_def)
  have "length as * (10 + vs) \<le> n - (10 + vs)" using Cons.prems(2) by simp
  from Cons.IH [OF s1(2) this] show ?case
    using Cons.prems(3,4) s1 by (auto simp: diff_diff_left)
qed simp

lemma serve_request_spec:
  assumes rep: "tier_rep m tree" and q: "good_request (user_size m) q" and off: "off_boundary m"
    and small: "user_size m < 2 ^ 31"
    and s: "willing n s" "2 * (10 + user_size m) \<le> n"
  shows "case serve_request q m r s of (out, s') \<Rightarrow> arriving s' = arriving s \<and> safe_run out (\<lambda>(m', r').
    to_config m' = to_config m \<and> (\<forall>x. 0 \<le> sint x \<longrightarrow> is_hot m' x = is_hot m x)
    \<and> willing (n - 2 * (10 + user_size m)) s'
    \<and> sent s' = sent s @ reply_frames (user_size m) (is_hot m) (tier_map m tree) q
    \<and> (\<exists>tree'. tier_rep m' tree' \<and> tier_map m' tree' = request_effect (user_size m) q (tier_map m tree)))"
proof -
  let ?vs = "user_size m" and ?k = "rq_key q" and ?hot = "is_hot m (rq_key q)"
  have k: "0 \<le> sint ?k" and nv: "\<forall>v. request_write q = Some v \<longrightarrow> length v \<le> ?vs"
    using q by (auto simp: good_request_def request_write_def)
  note acc = tee_access_spec [OF rep k nv off, of r]
  obtain evs out where e: "tee_access ?k (request_write q) m r = (evs, out)" by fastforce
  have run: "serve_request q m r s =
     (case send_answers (map answer_of (zip [phase_hot, phase_final] evs)) s of
           (Inl e, s1) \<Rightarrow> (Inl e, s1)
         | (Inr _, s1) \<Rightarrow> (bind_result out (\<lambda>(res, m', r'). Inr (m', r')), s1))"
    using e by (simp add: serve_request_def request_write_def)
  have evs: "length evs \<le> 2" "\<forall>ev\<in>set evs. length (fst ev) = ?vs"
    using tee_access_events [OF rep k nv, of r] e by simp_all
  let ?as = "map answer_of (zip [phase_hot, phase_final] evs)"
  have as: "length ?as * (10 + ?vs) \<le> n" "\<forall>a\<in>set ?as. length (rs_value a) = ?vs"
  proof -
    have "length ?as \<le> 2" using evs(1) by simp
    then show "length ?as * (10 + ?vs) \<le> n" using mult_le_mono1 [of "length ?as" 2 "10 + ?vs"] s(2) by linarith
    show "\<forall>a\<in>set ?as. length (rs_value a) = ?vs"
      using evs(2) by (auto simp: answer_of_def dest!: set_zip_rightD)
  qed
  obtain s' where s': "send_answers ?as s = (Inr (), s')" "willing (n - length ?as * (10 + ?vs)) s'"
    "sent s' = sent s @ concat (map (frame \<circ> serialize_response) ?as)" "arriving s' = arriving s"
    using send_answers_frames [OF s(1) as small] by blast
  show ?thesis
  proof (cases out)
    case (Inl x)
    then show ?thesis using acc e s' by (simp add: run)
  next
    case (Inr y)
    obtain res m' r' where y: "y = (res, m', r')" by (cases y) auto
    have hot: "(case hot_map m ?k of None \<Rightarrow> replicate ?vs 0 | Some v \<Rightarrow> v) =
      (if ?hot then case tier_map m tree ?k of None \<Rightarrow> replicate ?vs 0 | Some v \<Rightarrow> v else replicate ?vs 0)"
      using tier_is_hot(1) [OF rep k] k by (auto simp: tier_map_def)
    note A = acc [unfolded e Inr y fst_conv snd_conv, simplified, unfolded hot]
    then obtain tree' where tr: "tier_rep m' tree'" "tier_map m' tree' = put_if_present ?k (request_write q) ?vs (tier_map m tree)"
      by blast
    have cf: "to_config m' = to_config m" "\<forall>x. 0 \<le> sint x \<longrightarrow> is_hot m' x = is_hot m x" using A by blast+
    from A have evs: "?as = [\<lparr>rs_phase = phase_hot, rs_found = ?hot,
            rs_value = (if ?hot then case tier_map m tree ?k of None \<Rightarrow> replicate ?vs 0 | Some v \<Rightarrow> v else replicate ?vs 0)\<rparr>,
         \<lparr>rs_phase = phase_final, rs_found = \<not> ?hot,
            rs_value = (case tier_map m tree ?k of None \<Rightarrow> replicate ?vs 0 | Some v \<Rightarrow> v)\<rparr>]"
      by (simp add: answer_of_def)
    have "sent s' = sent s @ reply_frames ?vs (is_hot m) (tier_map m tree) q"
      unfolding s'(3) evs by (simp add: reply_frames_def Let_def)
    moreover have "length ?as = 2" unfolding evs by simp
    then have "willing (n - 2 * (10 + ?vs)) s'" using s'(2) by (simp only:)
    ultimately show ?thesis
      using s'(4) cf tr unfolding run Inr y request_effect_def s'(1) by fastforce
  qed
qed

lemma connection_session:
  assumes "tier_rep m tree" "\<not> maintained m" "user_size m < 2 ^ 31 - 9" "\<forall>q\<in>set qs. good_request (user_size m) q"
    and "healthy s" "stream s = concat (map request_frame qs)"
    and "willing n s" "length qs * (2 * (10 + user_size m)) \<le> n"
  shows "case handle_connection m r s of (out, s') \<Rightarrow> safe_run out (\<lambda>(m', r').
    sent s' = sent s @ session_replies (user_size m) (is_hot m) (tier_map m tree) qs
    \<and> (\<exists>tree'. tier_rep m' tree' \<and> tier_map m' tree' = fold (request_effect (user_size m)) qs (tier_map m tree)))"
  using assms
proof (induction qs arbitrary: m tree s r n)
  case Nil
  then obtain s' where "tee_recv_msg s = (None, s')" "sent s' = sent s"
    using recv_msg_closed by auto
  then show ?case using Nil.prems(1) by (subst handle_connection.simps) auto
next
  case (Cons q qs)
  let ?vs = "user_size m"
  have q: "good_request ?vs q" using Cons.prems(4) by simp
  have len: "length (serialize_request q) < 2 ^ 32" "length (rq_value q) < 2 ^ 31"
    using q Cons.prems(3) by (simp_all add: good_request_def serialize_request_def)
  have "stream s = frame (serialize_request q) @ concat (map request_frame qs)"
    using Cons.prems(6) by (simp add: request_frame_def [of q])
  from recv_msg_frame [OF Cons.prems(5) this len(1)] obtain s1 where
    s1: "tee_recv_msg s = (Some (serialize_request q), s1)" "healthy s1"
    "stream s1 = concat (map request_frame qs)" "accepted s1 = accepted s" "sent s1 = sent s"
    by blast
  have off: "off_boundary m" using Cons.prems(2) by (simp add: off_boundary_def)
  have will: "willing n s1" "2 * (10 + ?vs) \<le> n" using Cons.prems(7,8) s1(4) by (simp_all add: willing_def)
  obtain out s2 where o: "serve_request q m r s1 = (out, s2)" by fastforce
  have sv: "arriving s2 = arriving s1 \<and> safe_run out (\<lambda>(m', r').
    to_config m' = to_config m \<and> (\<forall>x. 0 \<le> sint x \<longrightarrow> is_hot m' x = is_hot m x)
    \<and> willing (n - 2 * (10 + user_size m)) s2
    \<and> sent s2 = sent s1 @ reply_frames (user_size m) (is_hot m) (tier_map m tree) q
    \<and> (\<exists>tree'. tier_rep m' tree' \<and> tier_map m' tree' = request_effect (user_size m) q (tier_map m tree)))"
    using serve_request_spec [OF Cons.prems(1) q off _ will, of r] Cons.prems(3) o by simp
  have step: "handle_connection m r s =
      (case serve_request q m r s1 of (Inl e, s2) \<Rightarrow> (Inl e, s2) | (Inr (m', r'), s2) \<Rightarrow> handle_connection m' r' s2)"
    by (subst handle_connection.simps) (simp add: s1(1) request_roundtrip [OF len(2)])
  show ?case
  proof (cases out)
    case (Inl e)
    then show ?thesis using sv by (simp add: step o)
  next
    case (Inr y)
    obtain m' r' where y: "y = (m', r')" by (cases y)
    then obtain tree' where v: "arriving s2 = arriving s1" "to_config m' = to_config m"
      "\<forall>x. 0 \<le> sint x \<longrightarrow> is_hot m' x = is_hot m x" "willing (n - 2 * (10 + ?vs)) s2"
      "sent s2 = sent s1 @ reply_frames ?vs (is_hot m) (tier_map m tree) q" "tier_rep m' tree'"
      "tier_map m' tree' = request_effect ?vs q (tier_map m tree)"
      using sv Inr by auto
    have "healthy s2" "stream s2 = concat (map request_frame qs)"
      using s1(2,3) v(1) by (simp_all add: healthy_def stream_def)
    moreover have "length qs * (2 * (10 + user_size m')) \<le> n - 2 * (10 + ?vs)"
      using Cons.prems(8) v(2) by simp
    ultimately have ih: "case handle_connection m' r' s2 of (out, s') \<Rightarrow> safe_run out (\<lambda>(m'', r'').
      sent s' = sent s2 @ session_replies (user_size m') (is_hot m') (tier_map m' tree') qs
      \<and> (\<exists>tree'a. tier_rep m'' tree'a \<and> tier_map m'' tree'a = fold (request_effect (user_size m')) qs (tier_map m' tree')))"
      using Cons.IH [OF v(6), of s2 "n - 2 * (10 + ?vs)" r'] Cons.prems(2-4) v(2,4) by simp
    have same: "session_replies vs (is_hot m') f ps = session_replies vs (is_hot m) f ps"
      if "\<forall>p\<in>set ps. good_request vs p" for vs f ps
      using that v(3) by (induction ps arbitrary: f) (simp_all add: reply_frames_def good_request_def)
    show ?thesis
      using ih same [of qs ?vs] Cons.prems(4) s1(5)
      unfolding step o Inr y v(2,5,7) by (simp add: v(2,5,7))
  qed
qed


section \<open>Properties\<close>

text \<open>
  Claim C28: the wire format of the enclave server round trips: every request and every response whose
  value is shorter than \<open>2\<^sup>3\<^sup>1\<close> bytes is read back as it was written.
\<close>

theorem tee_wire_roundtrip:
  assumes "length (rq_value req) < 2 ^ 31" "length (rs_value resp) < 2 ^ 31"
  shows "deserialize_request (serialize_request req) = req
    \<and> deserialize_response (serialize_response resp) = resp"
  using request_roundtrip [OF assms(1)] response_roundtrip [OF assms(2)] by blast

theorem tee_wire_roundtrip_witness:
  "deserialize_request (serialize_request \<lparr>rq_op = op_write, rq_key = 5, rq_value = [1, 2]\<rparr>)
     = \<lparr>rq_op = op_write, rq_key = 5, rq_value = [1, 2]\<rparr>
   \<and> deserialize_response (serialize_response \<lparr>rs_phase = phase_final, rs_found = True, rs_value = []\<rparr>)
     = \<lparr>rs_phase = phase_final, rs_found = True, rs_value = []\<rparr>"
  using tee_wire_roundtrip [of "\<lparr>rq_op = op_write, rq_key = 5, rq_value = [1, 2]\<rparr>"
      "\<lparr>rs_phase = phase_final, rs_found = True, rs_value = []\<rparr>"] by simp

text \<open>
  Claim C29: a client sends one framed request and returns the two responses of the server, decoded, in
  their order, however the network cuts the stream they arrive in and however little each call of
  \<open>send\<close> takes.
\<close>

theorem client_exchange:
  assumes "willing n s" "13 + length (rq_value req) \<le> n" "length (rq_value req) < 2 ^ 31"
    and "healthy s" "stream s = frame (serialize_response a) @ frame (serialize_response b) @ rest"
    and "length (rs_value a) < 2 ^ 31" "length (rs_value b) < 2 ^ 31"
  shows "\<exists>s'. client_request req s = (Inr (a, b), s') \<and> sent s' = sent s @ frame (serialize_request req)
    \<and> stream s' = rest"
proof -
  have lr: "length (serialize_request req) = 9 + length (rq_value req)"
    "length (serialize_response x) = 6 + length (rs_value x)" for x
    by (simp_all add: serialize_request_def serialize_response_def)
  obtain s1 where s1: "tee_send_msg (serialize_request req) s = (Inr (), s1)"
    "sent s1 = sent s @ frame (serialize_request req)" "arriving s1 = arriving s"
    using send_msg_frame [OF assms(1), of "serialize_request req"] assms(2,3) by (auto simp: lr)
  have "healthy s1" "stream s1 = frame (serialize_response a) @ frame (serialize_response b) @ rest"
    using assms(4,5) s1(3) by (simp_all add: healthy_def stream_def)
  then obtain s2 where s2: "tee_recv_msg s1 = (Some (serialize_response a), s2)" "healthy s2"
    "stream s2 = frame (serialize_response b) @ rest" "sent s2 = sent s1"
    using recv_msg_frame [of s1 "serialize_response a"] assms(6) by (auto simp: lr)
  then obtain s3 where s3: "tee_recv_msg s2 = (Some (serialize_response b), s3)" "stream s3 = rest" "sent s3 = sent s2"
    using recv_msg_frame [of s2 "serialize_response b"] assms(7) by (auto simp: lr)
  show ?thesis
    using s1 s2 s3 response_roundtrip assms(6,7) by (simp add: client_request_def)
qed

definition chunked :: "bytes \<Rightarrow> nat \<Rightarrow> socket" where
  "chunked b n = \<lparr>arriving = map (\<lambda>x. Some [x]) b, accepted = replicate n 1, sent = []\<rparr>"

lemma chunked_props: "willing n (chunked b n)" "healthy (chunked b n)" "stream (chunked b n) = b" "sent (chunked b n) = []"
  by (auto simp: chunked_def willing_def healthy_def stream_def comp_def)

theorem client_exchange_witness:
  "case client_request \<lparr>rq_op = op_read, rq_key = 5, rq_value = []\<rparr>
      (chunked (frame (serialize_response \<lparr>rs_phase = phase_hot, rs_found = False, rs_value = [0]\<rparr>)
        @ frame (serialize_response \<lparr>rs_phase = phase_final, rs_found = True, rs_value = [7]\<rparr>)) 13) of
     (out, s') \<Rightarrow> out = Inr (\<lparr>rs_phase = phase_hot, rs_found = False, rs_value = [0]\<rparr>,
                          \<lparr>rs_phase = phase_final, rs_found = True, rs_value = [7]\<rparr>)"
  using client_exchange [OF chunked_props(1), of "\<lparr>rq_op = op_read, rq_key = 5, rq_value = []\<rparr>" 13
      "frame (serialize_response \<lparr>rs_phase = phase_hot, rs_found = False, rs_value = [0]\<rparr>)
        @ frame (serialize_response \<lparr>rs_phase = phase_final, rs_found = True, rs_value = [7]\<rparr>)"
      "\<lparr>rs_phase = phase_hot, rs_found = False, rs_value = [0]\<rparr>"
      "\<lparr>rs_phase = phase_final, rs_found = True, rs_value = [7]\<rparr>" "[]"]
  by (auto simp: chunked_props)

text \<open>
  Claim C4: a session with the enclave server. If the tiers represent a map and maintenance is off, a
  connection whose stream is a sequence of framed requests for non-negative keys, cut into chunks in any
  way, is answered by two framed responses to each request, in order: \<open>H\<close> with the value of a hot key or
  zeros and whether the key is hot, then \<open>F\<close> with the value and the opposite flag. Each answer is the
  value the map has after the writes before it, the writes change the keys that are there and no others,
  and the tiers represent the resulting map when the connection closes. The only failure is a stash
  overflow.
\<close>

theorem tee_session_correct:
  assumes "tier_rep m tree" "\<not> maintained m" "user_size m < 2 ^ 31 - 9" "\<forall>q\<in>set qs. good_request (user_size m) q"
    and "healthy s" "stream s = concat (map request_frame qs)"
    and "willing n s" "length qs * (2 * (10 + user_size m)) \<le> n"
  shows "case handle_connection m r s of (Inl e, s') \<Rightarrow> (\<exists>n m. e = StashOverflow n m \<and> m < n)
    | (Inr (m', r'), s') \<Rightarrow>
        sent s' = sent s @ session_replies (user_size m) (is_hot m) (tier_map m tree) qs
        \<and> (\<exists>tree'. tier_rep m' tree'
             \<and> tier_map m' tree' = fold (request_effect (user_size m)) qs (tier_map m tree))"
  using connection_session [OF assms, of r] by (auto simp: safe_run_def split: prod.splits sum.splits)

theorem tee_session_correct_witness:
  "case handle_connection demo_tiers [1, 0] (chunked
      (request_frame \<lparr>rq_op = op_write, rq_key = 5, rq_value = [8]\<rparr>
        @ request_frame \<lparr>rq_op = op_read, rq_key = 5, rq_value = []\<rparr>) 44) of
     (Inl e, s') \<Rightarrow> (\<exists>n m. e = StashOverflow n m \<and> m < n)
   | (Inr (m', r'), s') \<Rightarrow>
       sent s' = frame (serialize_response \<lparr>rs_phase = phase_hot, rs_found = False, rs_value = [0]\<rparr>)
         @ frame (serialize_response \<lparr>rs_phase = phase_final, rs_found = True, rs_value = [7]\<rparr>)
         @ frame (serialize_response \<lparr>rs_phase = phase_hot, rs_found = False, rs_value = [0]\<rparr>)
         @ frame (serialize_response \<lparr>rs_phase = phase_final, rs_found = True, rs_value = [8]\<rparr>)"
proof -
  let ?qs = "[\<lparr>rq_op = op_write, rq_key = 5, rq_value = [8]\<rparr>, \<lparr>rq_op = op_read, rq_key = 5, rq_value = []\<rparr>]"
  have nm: "\<not> maintained demo_tiers"
    by (simp add: demo_tiers_def default_tee_config_def default_tee_maintenance_def)
  have good: "\<forall>q\<in>set ?qs. good_request (user_size demo_tiers) q"
    by (simp add: good_request_def demo_tiers_map)
  have ops: "op_read \<noteq> op_write" by (simp add: op_read_def op_write_def)
  have st: "stream (chunked (concat (map request_frame ?qs)) 44) = concat (map request_frame ?qs)"
    by (rule chunked_props)
  have "session_replies 1 (is_hot demo_tiers) [5 \<mapsto> [7], 6 \<mapsto> [9]] ?qs =
      frame (serialize_response \<lparr>rs_phase = phase_hot, rs_found = False, rs_value = [0]\<rparr>)
         @ frame (serialize_response \<lparr>rs_phase = phase_final, rs_found = True, rs_value = [7]\<rparr>)
         @ frame (serialize_response \<lparr>rs_phase = phase_hot, rs_found = False, rs_value = [0]\<rparr>)
         @ frame (serialize_response \<lparr>rs_phase = phase_final, rs_found = True, rs_value = [8]\<rparr>)"
    using ops by (simp add: reply_frames_def request_effect_def put_if_present_def request_write_def demo_tiers_map)
  then show ?thesis
    using tee_session_correct [OF demo_tiers_rep nm _ good chunked_props(2) st chunked_props(1), of "[1, 0]"]
    by (auto simp: demo_tiers_map chunked_props split: prod.splits sum.splits)
qed

end
