(* ===== verification/Bucket_Tree.thy ===== *)
theory Bucket_Tree
  imports Tree_Geometry Block_Lists "HOL-Library.AList"
begin

text \<open>
  \<open>src/oram/binary_tree_storage.cpp\<close>: the tree of buckets an ORAM client keeps on its storage. A path is
  a hash map from node indices to buckets; it is a list of pairs here, in the order in which its nodes
  were inserted, and whoever iterates over one is given the iteration order. The lemmas describe the
  paths of valid leaves and what reading, writing and filling do to the buckets.
\<close>

type_synonym path_map = "(int \<times> block list) list"

record bucket_tree =
  bt_level :: nat
  bt_leaf_range :: int
  bt_bucket_size :: int
  bt_total_nodes :: int
  bt_storage :: "block list list"

definition new_bucket_tree :: "int \<Rightarrow> int \<Rightarrow> bucket_tree" where
  "new_bucket_tree num_data bsize =
     (let lv = ceil_log2 num_data + 1; nodes = 2 ^ lv - 1
      in \<lparr>bt_level = lv, bt_leaf_range = 2 ^ (lv - 1), bt_bucket_size = bsize, bt_total_nodes = nodes,
          bt_storage = replicate (nat nodes) []\<rparr>)"

definition bt_reset :: "int \<Rightarrow> int \<Rightarrow> bucket_tree \<Rightarrow> bucket_tree" where
  "bt_reset num_data bsize t =
     (let lv = ceil_log2 num_data + 1; nodes = 2 ^ lv - 1
      in t\<lparr>bt_bucket_size := bsize, bt_level := lv, bt_leaf_range := 2 ^ (lv - 1), bt_total_nodes := nodes,
           bt_storage := replicate (nat nodes) []\<rparr>)"

text \<open>The nodes from one up to the root; none from a negative index.\<close>

function climb :: "int \<Rightarrow> int list" where
  "climb node = (if node < 0 then [] else if node = 0 then [node] else node # climb (parent node))"
  by pat_completeness auto
termination
  by (relation "measure nat") (use parent_bounds in \<open>force+\<close>)

declare climb.simps [simp del]

definition bt_leaf_to_node :: "bucket_tree \<Rightarrow> i32 \<Rightarrow> int" where
  "bt_leaf_to_node t lf = bt_leaf_range t - 1 + sint lf"

definition get_path_indices :: "bucket_tree \<Rightarrow> i32 \<Rightarrow> int list" where
  "get_path_indices t lf = rev (climb (bt_leaf_to_node t lf))"

text \<open>The union of several paths, in ascending order, as a \<open>std::set\<close> keeps it.\<close>

definition get_merged_path_indices :: "nat \<Rightarrow> i32 list \<Rightarrow> int list" where
  "get_merged_path_indices level leaves =
     (let leaf_range = 2 ^ (level - 1)
      in sort (remdups (concat (map (\<lambda>lf. climb (leaf_range - 1 + sint lf)) leaves))))"

text \<open>The deepest bucket with room takes the block; without one the tree is unchanged.\<close>

fun fill_first :: "int list \<Rightarrow> block \<Rightarrow> bucket_tree \<Rightarrow> bucket_tree result" where
  "fill_first [] b t = Inr t"
| "fill_first (node # nodes) b t =
     (if \<not> in_range node (bt_storage t) then Inl OutOfBounds
      else if int (length (bt_storage t ! nat node)) < bt_bucket_size t
      then Inr (t\<lparr>bt_storage := (bt_storage t)[nat node := bt_storage t ! nat node @ [b]]\<rparr>)
      else fill_first nodes b t)"

definition fill_data_to_leaf :: "block \<Rightarrow> bucket_tree \<Rightarrow> bucket_tree result" where
  "fill_data_to_leaf b t = fill_first (rev (get_path_indices t (leaf b))) b t"

fun fill_all :: "block list \<Rightarrow> bucket_tree \<Rightarrow> bucket_tree result" where
  "fill_all [] t = Inr t"
| "fill_all (b # bs) t = bind_result (fill_data_to_leaf b t) (fill_all bs)"

definition bt_bulk_load :: "block list \<Rightarrow> bucket_tree \<Rightarrow> (i32 list \<times> bucket_tree) result" where
  "bt_bulk_load blocks t =
     bind_result (fill_all blocks t) (\<lambda>t'.
       Inr (remdups (map key (filter (\<lambda>b. \<not> is_dummy b) (concat (bt_storage t')))), t'))"

fun read_buckets :: "int list \<Rightarrow> bucket_tree \<Rightarrow> path_map result" where
  "read_buckets [] t = Inr []"
| "read_buckets (i # is) t =
     (if \<not> in_range i (bt_storage t) then Inl OutOfBounds
      else bind_result (read_buckets is t) (\<lambda>p. Inr ((i, bt_storage t ! nat i) # p)))"

fun write_buckets :: "path_map \<Rightarrow> bucket_tree \<Rightarrow> bucket_tree result" where
  "write_buckets [] t = Inr t"
| "write_buckets ((node, bs) # p) t =
     (if \<not> in_range node (bt_storage t) then Inl OutOfBounds
      else write_buckets p (t\<lparr>bt_storage := (bt_storage t)[nat node := bs]\<rparr>))"

definition bt_read_path :: "i32 \<Rightarrow> bucket_tree \<Rightarrow> path_map result" where
  "bt_read_path lf t = read_buckets (get_path_indices t lf) t"

definition bt_write_path :: "i32 \<Rightarrow> path_map \<Rightarrow> bucket_tree \<Rightarrow> bucket_tree result" where
  "bt_write_path lf buckets t = write_buckets buckets t"

definition bt_read_multiple_paths :: "i32 list \<Rightarrow> bucket_tree \<Rightarrow> path_map result" where
  "bt_read_multiple_paths leaves t = read_buckets (get_merged_path_indices (bt_level t) leaves) t"

definition bt_write_multiple_paths :: "path_map \<Rightarrow> bucket_tree \<Rightarrow> bucket_tree result" where
  "bt_write_multiple_paths buckets t = write_buckets buckets t"

text \<open>The buckets of a path are tried from the highest index down, which is deepest first.\<close>

fun fill_candidates :: "int list \<Rightarrow> block \<Rightarrow> path_map \<Rightarrow> nat \<Rightarrow> int \<Rightarrow> bool \<times> path_map" where
  "fill_candidates [] b path level bsize = (False, path)"
| "fill_candidates (node # nodes) b path level bsize =
     (let bucket = the (map_of path node);
          target = 2 ^ (level - 1) - 1 + sint (leaf b)
      in if int (length bucket) \<ge> bsize then fill_candidates nodes b path level bsize
         else if node \<in> set (climb target) then (True, AList.update node (bucket @ [b]) path)
         else fill_candidates nodes b path level bsize)"

definition fill_block_to_path :: "block \<Rightarrow> path_map \<Rightarrow> nat \<Rightarrow> int \<Rightarrow> bool \<times> path_map" where
  "fill_block_to_path b path level bsize =
     fill_candidates (rev (sort (map fst path))) b path level bsize"


section \<open>Paths of valid leaves\<close>

lemma climb_at_depth: "at_depth d node \<Longrightarrow> climb node = walk_up (Suc d) node"
proof (induction d arbitrary: node)
  case 0
  then show ?case by (simp add: climb.simps)
next
  case (Suc d)
  note p = at_depth_pos [OF Suc.prems] at_depth_parent [OF Suc.prems]
  have "climb node = node # climb (parent node)" using p(1) by (subst climb.simps) simp
  then show ?case using p(1) Suc.IH [OF p(2)] by simp
qed

lemma climb_leaf: "1 \<le> level \<Longrightarrow> valid_leaf level l \<Longrightarrow> climb (2 ^ (level - 1) - 1 + l) = path_up level l"
  using climb_at_depth [OF at_depth_leaf [of level l]]
  by (cases level) (simp_all add: path_up_def leaf_node_def)

lemma merged_path:
  assumes "1 \<le> level" "\<forall>lf\<in>set leaves. valid_leaf level (sint lf)"
  shows "set (get_merged_path_indices level leaves) = (\<Union>lf\<in>set leaves. set (path_up level (sint lf)))"
    "distinct (get_merged_path_indices level leaves)"
  using assms climb_leaf by (auto simp: get_merged_path_indices_def)

definition tree_inv :: "bucket_tree \<Rightarrow> bool" where
  "tree_inv t \<longleftrightarrow> 1 \<le> bt_level t \<and> bt_level t \<le> 31 \<and> bt_leaf_range t = 2 ^ (bt_level t - 1)
     \<and> bt_total_nodes t = 2 ^ bt_level t - 1 \<and> int (length (bt_storage t)) = bt_total_nodes t"

definition bucket_at :: "bucket_tree \<Rightarrow> int \<Rightarrow> block list" where
  "bucket_at t i = (if in_range i (bt_storage t) then bt_storage t ! nat i else [])"

lemma tree_in_range: "tree_inv t \<Longrightarrow> in_range i (bt_storage t) \<longleftrightarrow> 0 \<le> i \<and> i < 2 ^ bt_level t - 1"
  by (auto simp: in_range_def tree_inv_def)

lemma new_tree_inv:
  assumes "ceil_log2 n \<le> 30"
  shows "tree_inv (new_bucket_tree n bs)" "tree_inv (bt_reset n bs t)"
    "bucket_at (new_bucket_tree n bs) i = []" "bucket_at (bt_reset n bs t) i = []"
  using assms
  by (auto simp: tree_inv_def new_bucket_tree_def bt_reset_def Let_def bucket_at_def in_range_def)

lemma get_path_indices_valid:
  "tree_inv t \<Longrightarrow> valid_leaf (bt_level t) (sint lf) \<Longrightarrow>
   get_path_indices t lf = rev (path_up (bt_level t) (sint lf))"
  using climb_leaf [of "bt_level t" "sint lf"]
  by (simp add: get_path_indices_def bt_leaf_to_node_def tree_inv_def)

section \<open>Reading and writing buckets\<close>

lemma read_buckets_in_range:
  "\<forall>i\<in>set is. in_range i (bt_storage t) \<Longrightarrow> read_buckets is t = Inr (map (\<lambda>i. (i, bucket_at t i)) is)"
  by (induction "is") (simp_all add: bucket_at_def)

lemma write_buckets_in_range:
  assumes "\<forall>i\<in>fst ` set p. in_range i (bt_storage t)" "distinct (map fst p)"
  shows "\<exists>t'. write_buckets p t = Inr t' \<and> t' = t\<lparr>bt_storage := bt_storage t'\<rparr>
    \<and> length (bt_storage t') = length (bt_storage t)
    \<and> (\<forall>i. bucket_at t' i = (case map_of p i of None \<Rightarrow> bucket_at t i | Some b \<Rightarrow> b))"
  using assms
proof (induction p arbitrary: t)
  case (Cons x p)
  obtain node bs where x: "x = (node, bs)" by (cases x)
  let ?t = "t\<lparr>bt_storage := (bt_storage t)[nat node := bs]\<rparr>"
  have r: "in_range node (bt_storage t)" using Cons.prems(1) x by simp
  have "\<forall>i\<in>fst ` set p. in_range i (bt_storage ?t)" using Cons.prems(1) by simp
  from Cons.IH [OF this] obtain t' where t': "write_buckets p ?t = Inr t'" "t' = ?t\<lparr>bt_storage := bt_storage t'\<rparr>"
    "length (bt_storage t') = length (bt_storage t)"
    "\<And>i. bucket_at t' i = (case map_of p i of None \<Rightarrow> bucket_at ?t i | Some b \<Rightarrow> b)"
    using Cons.prems(2) by auto
  have at: "bucket_at ?t i = (if i = node then bs else bucket_at t i)" for i
    using r by (auto simp: bucket_at_def nth_list_update in_range_def eq_nat_nat_iff)
  have "map_of p node = None"
    using Cons.prems(2) x by (auto simp: map_of_eq_None_iff)
  then show ?case
    using t' r at by (intro exI [of _ t']) (auto simp: x split: option.split)
qed simp

lemma tree_read_path:
  assumes "tree_inv t" "valid_leaf (bt_level t) (sint lf)"
  shows "bt_read_path lf t = Inr (map (\<lambda>i. (i, bucket_at t i)) (rev (path_up (bt_level t) (sint lf))))"
proof -
  have "\<forall>i\<in>set (path_up (bt_level t) (sint lf)). in_range i (bt_storage t)"
    using path_up_range [OF _ assms(2)] assms(1) by (auto simp: tree_in_range) (auto simp: tree_inv_def)
  then show ?thesis
    unfolding bt_read_path_def get_path_indices_valid [OF assms]
    by (subst read_buckets_in_range) simp_all
qed

lemma tree_read_multiple:
  assumes "tree_inv t" "\<forall>lf\<in>set lfs. valid_leaf (bt_level t) (sint lf)"
  shows "bt_read_multiple_paths lfs t =
    Inr (map (\<lambda>i. (i, bucket_at t i)) (get_merged_path_indices (bt_level t) lfs))"
proof -
  have l: "1 \<le> bt_level t" using assms(1) by (simp add: tree_inv_def)
  have "\<forall>i\<in>set (get_merged_path_indices (bt_level t) lfs). in_range i (bt_storage t)"
    using path_up_range [OF l] assms(2) unfolding merged_path(1) [OF l assms(2)] tree_in_range [OF assms(1)] by blast
  then show ?thesis
    unfolding bt_read_multiple_paths_def by (rule read_buckets_in_range)
qed

section \<open>The initial fill\<close>

lemma fill_first_in_range:
  assumes "\<forall>i\<in>set nodes. in_range i (bt_storage t)"
  shows "(fill_first nodes b t = Inr t \<and> (\<forall>i\<in>set nodes. bt_bucket_size t \<le> int (length (bucket_at t i))))
    \<or> (\<exists>i t'. fill_first nodes b t = Inr t' \<and> i \<in> set nodes \<and> int (length (bucket_at t i)) < bt_bucket_size t
        \<and> t' = t\<lparr>bt_storage := (bt_storage t)[nat i := bucket_at t i @ [b]]\<rparr>)"
  using assms by (induction nodes) (auto simp: bucket_at_def)

text \<open>Every block is put in a bucket of its path, or nowhere.\<close>

definition filled :: "bucket_tree \<Rightarrow> block list \<Rightarrow> bucket_tree \<Rightarrow> block list \<Rightarrow> bool" where
  "filled t bs t' rest \<longleftrightarrow> tree_inv t' \<and> t' = t\<lparr>bt_storage := bt_storage t'\<rparr>
     \<and> mset (concat (bt_storage t')) + mset rest = mset (concat (bt_storage t)) + mset bs
     \<and> (\<forall>i. \<forall>b\<in>set (bucket_at t' i). b \<in> set (bucket_at t i) \<or> i \<in> set (path_up (bt_level t) (sint (leaf b))))"

lemma fill_all_spec:
  assumes "tree_inv t" "\<forall>b\<in>set bs. valid_leaf (bt_level t) (sint (leaf b))"
  shows "\<exists>t' rest. fill_all bs t = Inr t' \<and> filled t bs t' rest"
  using assms
proof (induction bs arbitrary: t)
  case Nil
  then show ?case by (auto simp: filled_def intro!: exI [of _ "[]"])
next
  case (Cons b bs)
  let ?p = "path_up (bt_level t) (sint (leaf b))"
  have "\<forall>i\<in>set ?p. in_range i (bt_storage t)"
    using Cons.prems path_up_range [of "bt_level t" "sint (leaf b)"]
    by (auto simp: tree_in_range) (auto simp: tree_inv_def)
  from fill_first_in_range [OF this, of b] have "\<exists>t1. fill_data_to_leaf b t = Inr t1
      \<and> (\<exists>rest. filled t [b] t1 rest)"
  proof (elim disjE exE conjE)
    assume "fill_first ?p b t = Inr t"
    then show ?thesis
      using Cons.prems by (auto simp: fill_data_to_leaf_def get_path_indices_valid filled_def intro!: exI [of _ "[b]"])
  next
    fix i t' assume f: "fill_first ?p b t = Inr t'" "i \<in> set ?p"
      "t' = t\<lparr>bt_storage := (bt_storage t)[nat i := bucket_at t i @ [b]]\<rparr>"
    have r: "in_range i (bt_storage t)" using \<open>\<forall>i\<in>set ?p. _\<close> f(2) by blast
    have "mset (concat (bt_storage t')) = mset (concat (bt_storage t)) + {#b#}"
      using mset_update_concat [of "nat i" "bt_storage t" "bucket_at t i @ [b]"] r f(3) by (simp add: bucket_at_def)
    moreover have "bucket_at t' j = (if j = i then bucket_at t i @ [b] else bucket_at t j)" for j
      using r f(3) by (auto simp: bucket_at_def nth_list_update in_range_def eq_nat_nat_iff)
    moreover have "tree_inv t'" using Cons.prems(1) f(3) by (simp add: tree_inv_def)
    ultimately have "filled t [b] t' []"
      using f(2,3) by (auto simp: filled_def)
    then show ?thesis
      using f(1) Cons.prems by (auto simp: fill_data_to_leaf_def get_path_indices_valid)
  qed
  then obtain t1 r1 where t1: "fill_data_to_leaf b t = Inr t1" "filled t [b] t1 r1" by blast
  have lv: "tree_inv t1" "bt_level t1 = bt_level t"
    using t1(2) by (auto simp: filled_def) (metis bucket_tree.select_convs(1) bucket_tree.update_convs(5) bucket_tree.surjective)
  obtain t2 r2 where t2: "fill_all bs t1 = Inr t2" "filled t1 bs t2 r2"
    using Cons.IH [OF lv(1)] Cons.prems(2) lv(2) by auto
  have "mset (concat (bt_storage t2)) + mset (r1 @ r2) = mset (concat (bt_storage t)) + mset (b # bs)"
  proof -
    have "mset (concat (bt_storage t2)) + (mset r2 + mset r1) = mset (concat (bt_storage t1)) + mset r1 + mset bs"
      using t2(2) by (simp add: filled_def flip: add.assoc)
    also have "\<dots> = mset (concat (bt_storage t)) + mset [b] + mset bs" using t1(2) by (simp add: filled_def)
    finally show ?thesis by (simp add: ac_simps)
  qed
  moreover have "t2 = t\<lparr>bt_storage := bt_storage t2\<rparr>"
    using t1(2) t2(2) unfolding filled_def by (metis bucket_tree.update_convs(5) bucket_tree.surjective)
  ultimately have "filled t (b # bs) t2 (r1 @ r2)"
    using t1(2) t2(2) unfolding filled_def lv(2) by blast
  then show ?case using t1(1) t2(1) by auto
qed


text \<open>All buckets of a tree of \<open>level\<close> levels, in the order of their nodes.\<close>

definition all_blocks :: "nat \<Rightarrow> (int \<Rightarrow> block list) \<Rightarrow> block list" where
  "all_blocks level bucket = concat (map (\<lambda>i. bucket (int i)) [0..<2 ^ level - 1])"

lemma tree_all_blocks:
  assumes "tree_inv t"
  shows "concat (bt_storage t) = all_blocks (bt_level t) (bucket_at t)"
proof -
  have "int (length (bt_storage t)) = int (2 ^ bt_level t - 1)" using assms by (simp add: tree_inv_def of_nat_diff)
  then have len: "length (bt_storage t) = 2 ^ bt_level t - 1" by (simp only: of_nat_eq_iff)
  have "map (\<lambda>i. bucket_at t (int i)) [0..<length (bt_storage t)] = map ((!) (bt_storage t)) [0..<length (bt_storage t)]"
    by (simp add: bucket_at_def in_range_def)
  also have "\<dots> = bt_storage t" by (rule map_nth)
  finally show ?thesis by (simp add: all_blocks_def len)
qed

section \<open>Filling a path\<close>

lemma update_present:
  assumes "distinct (map fst p)" "map_of p node = Some bucket"
  shows "map fst (AList.update node bucket' p) = map fst p"
    "mset (concat (map snd (AList.update node bucket' p))) + mset bucket = mset (concat (map snd p)) + mset bucket'"
  using assms by (induction p) (auto split: if_splits)

lemma fill_candidates_spec:
  assumes "fill_candidates nodes b path level bsize = (ins, path')"
  defines "target \<equiv> 2 ^ (level - 1) - 1 + sint (leaf b)"
  shows "(\<not> ins \<and> path' = path \<and> (\<forall>node\<in>set nodes \<inter> set (climb target). bsize \<le> int (length (the (map_of path node)))))
    \<or> (\<exists>before node after. ins \<and> nodes = before @ node # after \<and> node \<in> set (climb target)
        \<and> int (length (the (map_of path node))) < bsize
        \<and> (\<forall>i\<in>set before \<inter> set (climb target). bsize \<le> int (length (the (map_of path i))))
        \<and> path' = AList.update node (the (map_of path node) @ [b]) path)"
  using assms(1)
proof (induction nodes)
  case (Cons node nodes)
  show ?case
  proof (cases "int (length (the (map_of path node))) < bsize \<and> node \<in> set (climb target)")
    case True
    then show ?thesis
      using Cons.prems by (intro disjI2 exI [of _ "[]"] exI [of _ node] exI [of _ nodes]) (auto simp: target_def)
  next
    case False
    then have "fill_candidates nodes b path level bsize = (ins, path')"
      using Cons.prems by (auto simp: target_def Let_def split: if_splits)
    from Cons.IH [OF this] show ?thesis
    proof (elim disjE exE conjE)
      fix before node' after
      assume "ins" "nodes = before @ node' # after" "node' \<in> set (climb target)"
        "int (length (the (map_of path node'))) < bsize"
        "\<forall>i\<in>set before \<inter> set (climb target). bsize \<le> int (length (the (map_of path i)))"
        "path' = AList.update node' (the (map_of path node') @ [b]) path"
      then show ?thesis
        using False by (intro disjI2 exI [of _ "node # before"] exI [of _ node'] exI [of _ after]) auto
    qed (use False in auto)
  qed
qed simp

lemma fill_block_spec:
  assumes "fill_block_to_path b path level bsize = (ins, path')" "distinct (map fst path)"
  shows "map fst path' = map fst path
    \<and> mset (concat (map snd path')) = mset (concat (map snd path)) + (if ins then {#b#} else {#})
    \<and> (\<forall>i bs. map_of path' i = Some bs \<longrightarrow> (\<exists>bs0. map_of path i = Some bs0
         \<and> (bs = bs0 \<or> bs = bs0 @ [b] \<and> i \<in> set (climb (2 ^ (level - 1) - 1 + sint (leaf b)))
              \<and> int (length bs) \<le> bsize)))"
  using fill_candidates_spec [OF assms(1) [unfolded fill_block_to_path_def]]
proof (elim disjE exE conjE)
  fix before node after
  let ?b = "the (map_of path node)"
  assume f: "ins" "rev (sort (map fst path)) = before @ node # after"
    "node \<in> set (climb (2 ^ (level - 1) - 1 + sint (leaf b)))" "int (length ?b) < bsize"
    "path' = AList.update node (?b @ [b]) path"
  have "node \<in> set (rev (sort (map fst path)))" unfolding f(2) by simp
  then have "node \<in> fst ` set path" by simp
  then have "map_of path node = Some ?b" by (metis domIff dom_map_of_conv_image_fst option.collapse)
  note u = update_present [OF assms(2) this, of "?b @ [b]"]
  have m: "map_of path' = (map_of path)(node \<mapsto> ?b @ [b])" unfolding f(5) by (rule update_conv')
  have "mset (concat (map snd path')) + mset ?b = mset (concat (map snd path)) + {#b#} + mset ?b"
    using u(2) unfolding f(5) by simp
  then have "mset (concat (map snd path')) = mset (concat (map snd path)) + {#b#}" by simp
  moreover have "\<forall>i bs. map_of path' i = Some bs \<longrightarrow> (\<exists>bs0. map_of path i = Some bs0
         \<and> (bs = bs0 \<or> bs = bs0 @ [b] \<and> i \<in> set (climb (2 ^ (level - 1) - 1 + sint (leaf b)))
              \<and> int (length bs) \<le> bsize))"
    using f(3,4) \<open>map_of path node = Some ?b\<close> unfolding m by auto
  ultimately show ?thesis using u(1) f(1,5) by simp
qed auto

end
