(* ===== verification/Crypto.thy ===== *)
theory Crypto
  imports Common
begin

text \<open>
  \<open>include/tiered_omap/crypto.h\<close>: AES-128 in counter mode. OpenSSL is a parameter, the record \<open>crypto\<close>:
  \<open>cr_rand\<close> is \<open>RAND_bytes\<close> and \<open>cr_ctr key iv data len\<close> the output of \<open>EVP_EncryptUpdate\<close> and of
  \<open>EVP_DecryptUpdate\<close>, which take the length as an \<open>int\<close>; \<open>None\<close> is a failing call. What is relied on is
  \<open>good_crypto\<close>, in two parts. \<open>cipher_law\<close> is the documented behaviour: under a key and a nonce of 16 bytes and
  with the length of the data, the cipher succeeds, keeps the length, and undoes itself, as a counter mode does.
  \<open>rand_ready\<close> is a condition on the machine: its random generator is seeded and answers every request;
  where it does not, the code throws. \<open>fits_cipher\<close> says that a value is small enough for the casts of its length.
\<close>

record crypto =
  cr_rand :: "nat \<Rightarrow> rng \<Rightarrow> (bytes \<times> rng) option"
  cr_ctr :: "bytes \<Rightarrow> bytes \<Rightarrow> bytes \<Rightarrow> i32 \<Rightarrow> bytes option"

definition AES_KEY_LEN :: nat where "AES_KEY_LEN = 16"
definition AES_IV_LEN :: nat where "AES_IV_LEN = 16"

definition cipher_law :: "crypto \<Rightarrow> bool" where
  "cipher_law cr \<longleftrightarrow>
     (\<forall>k iv x n. length k = AES_KEY_LEN \<and> length iv = AES_IV_LEN \<and> sint n = int (length x) \<longrightarrow>
        (\<exists>y. cr_ctr cr k iv x n = Some y \<and> length y = length x \<and> cr_ctr cr k iv y n = Some x))"

definition rand_ready :: "crypto \<Rightarrow> bool" where
  "rand_ready cr \<longleftrightarrow> (\<forall>n r. \<exists>bs r'. cr_rand cr n r = Some (bs, r') \<and> length bs = n)"

definition good_crypto :: "crypto \<Rightarrow> bool" where
  "good_crypto cr \<longleftrightarrow> cipher_law cr \<and> rand_ready cr"

definition fits_cipher :: "bytes \<Rightarrow> bool" where
  "fits_cipher x \<longleftrightarrow> AES_IV_LEN + length x < 2 ^ 31"

definition rand_bytes :: "crypto \<Rightarrow> nat \<Rightarrow> rng \<Rightarrow> (bytes \<times> rng) result" where
  "rand_bytes cr n r =
     (case cr_rand cr n r of None \<Rightarrow> Inl (CryptoFailure ''RAND_bytes failed'') | Some p \<Rightarrow> Inr p)"

definition generate_aes_key :: "crypto \<Rightarrow> rng \<Rightarrow> (bytes \<times> rng) result" where
  "generate_aes_key cr r = rand_bytes cr AES_KEY_LEN r"

definition aes_encrypt :: "crypto \<Rightarrow> bytes \<Rightarrow> bytes \<Rightarrow> rng \<Rightarrow> (bytes \<times> rng) result" where
  "aes_encrypt cr k plaintext r =
     bind_result (rand_bytes cr AES_IV_LEN r) (\<lambda>(iv, r').
       case cr_ctr cr k iv plaintext (of_nat (length plaintext)) of
         None \<Rightarrow> Inl (CryptoFailure ''EVP_EncryptUpdate failed'')
       | Some ct \<Rightarrow> Inr (iv @ ct, r'))"

definition aes_decrypt :: "crypto \<Rightarrow> bytes \<Rightarrow> bytes \<Rightarrow> bytes result" where
  "aes_decrypt cr k blob =
     (if length blob < AES_IV_LEN then Inl BlobTooSmall
      else let ct_len = of_nat (length blob) - of_nat AES_IV_LEN
           in if sint (ct_len :: i32) < 0 then Inl LengthError
              else case cr_ctr cr k (take AES_IV_LEN blob) (drop AES_IV_LEN blob) ct_len of
                     None \<Rightarrow> Inl (CryptoFailure ''EVP_DecryptUpdate failed'')
                   | Some pt \<Rightarrow> Inr pt)"

section \<open>Lemmas\<close>

lemma rand_bytes_good:
  assumes "good_crypto cr"
  obtains bs r' where "rand_bytes cr n r = Inr (bs, r')" "length bs = n"
proof -
  obtain bs r' where "cr_rand cr n r = Some (bs, r')" "length bs = n"
    using assms unfolding good_crypto_def rand_ready_def by blast
  then show ?thesis by (intro that [of bs r']) (simp_all add: rand_bytes_def)
qed

lemma aes_encrypt_good:
  assumes good: "good_crypto cr" and k: "length k = AES_KEY_LEN" and x: "fits_cipher x"
  obtains ct r' where "aes_encrypt cr k x r = Inr (ct, r')" "aes_decrypt cr k ct = Inr x"
    "length ct = AES_IV_LEN + length x"
proof -
  obtain iv r' where iv: "rand_bytes cr AES_IV_LEN r = Inr (iv, r')" "length iv = AES_IV_LEN"
    by (rule rand_bytes_good [OF good])
  let ?n = "of_nat (length x) :: i32"
  have n: "sint ?n = int (length x)" by (rule sint_of_small_nat) (use x in \<open>simp add: fits_cipher_def\<close>)
  obtain y where y: "cr_ctr cr k iv x ?n = Some y" "length y = length x" "cr_ctr cr k iv y ?n = Some x"
    using good k iv(2) n unfolding good_crypto_def cipher_law_def by blast
  have "of_nat (length (iv @ y)) - of_nat AES_IV_LEN = ?n" using iv(2) y(2) by simp
  then show ?thesis using iv y n by (intro that [of "iv @ y" r']) (simp_all add: aes_encrypt_def aes_decrypt_def Let_def)
qed

lemma generate_aes_key_good:
  assumes "good_crypto cr"
  obtains k r' where "generate_aes_key cr r = Inr (k, r')" "length k = AES_KEY_LEN"
  unfolding generate_aes_key_def by (rule rand_bytes_good [OF assms])

text \<open>A cipher that meets the assumption: a repeated key stream, added bitwise.\<close>

definition xor_crypto :: crypto where
  "xor_crypto = \<lparr>cr_rand = (\<lambda>n r. Some (resize_with 0 n (map of_nat (take n r)), drop n r)),
     cr_ctr = (\<lambda>k iv x n. Some (map (\<lambda>b. b XOR (hd k XOR hd iv)) x))\<rparr>"

lemma xor_crypto_good: "good_crypto xor_crypto"
  by (auto simp: good_crypto_def cipher_law_def rand_ready_def xor_crypto_def xor.assoc comp_def)

end
