(* ===== verification/Storage_Interface.thy ===== *)
theory Storage_Interface
  imports Bucket_Tree Crypto
begin

text \<open>
  \<open>include/tiered_omap/network/storage_interface.h\<close>: the storage of an ORAM client. The virtual functions
  are the fields of a record over the type of the storage's state, so that one model of the client
  runs on the local tree and on the remote one. An operation that may fail, or that changes the
  connection it uses, returns the new state.
\<close>

record 's storage_ops =
  so_store_id :: "'s \<Rightarrow> i32"
  so_level :: "'s \<Rightarrow> nat"
  so_leaf_range :: "'s \<Rightarrow> int"
  so_bucket_size :: "'s \<Rightarrow> int"
  so_reset :: "int \<Rightarrow> int \<Rightarrow> 's \<Rightarrow> 's result"
  so_fill_data_to_leaf :: "block \<Rightarrow> 's \<Rightarrow> 's result"
  so_bulk_load :: "block list \<Rightarrow> 's \<Rightarrow> (i32 list \<times> 's) result"
  so_read_path :: "i32 \<Rightarrow> 's \<Rightarrow> (path_map \<times> 's) result"
  so_write_path :: "i32 \<Rightarrow> path_map \<Rightarrow> 's \<Rightarrow> 's result"
  so_read_multiple_paths :: "i32 list \<Rightarrow> 's \<Rightarrow> (path_map \<times> 's) result"
  so_write_multiple_paths :: "path_map \<Rightarrow> 's \<Rightarrow> 's result"

text \<open>The local tree as a storage; its \<open>store_id\<close> is the default of the interface.\<close>

definition tree_ops :: "bucket_tree storage_ops" where
  "tree_ops =
     \<lparr>so_store_id = (\<lambda>t. - 1), so_level = bt_level, so_leaf_range = bt_leaf_range,
      so_bucket_size = bt_bucket_size,
      so_reset = (\<lambda>n bs t. Inr (bt_reset n bs t)),
      so_fill_data_to_leaf = fill_data_to_leaf,
      so_bulk_load = bt_bulk_load,
      so_read_path = (\<lambda>lf t. bind_result (bt_read_path lf t) (\<lambda>p. Inr (p, t))),
      so_write_path = bt_write_path,
      so_read_multiple_paths = (\<lambda>lfs t. bind_result (bt_read_multiple_paths lfs t) (\<lambda>p. Inr (p, t))),
      so_write_multiple_paths = bt_write_multiple_paths\<rparr>"

text \<open>
  What is outside the code: OpenSSL, and the order in which a hash map of nodes is iterated.
\<close>

record oram_env =
  oe_crypto :: crypto
  oe_order :: "int list \<Rightarrow> int list"

definition good_env :: "oram_env \<Rightarrow> bool" where
  "good_env E \<longleftrightarrow> good_crypto (oe_crypto E) \<and> (\<forall>xs. mset (oe_order E xs) = mset xs)"

definition iterate :: "oram_env \<Rightarrow> path_map \<Rightarrow> path_map" where
  "iterate E p = map (\<lambda>i. (i, the (map_of p i))) (oe_order E (map fst p))"


lemma iterate_good:
  assumes "good_env E" "distinct (map fst p)"
  shows "mset (iterate E p) = mset p" "map_of (iterate E p) = map_of p" "distinct (map fst (iterate E p))"
proof -
  have "mset (iterate E p) = image_mset (\<lambda>i. (i, the (map_of p i))) (mset (map fst p))"
    using assms(1) by (simp add: iterate_def good_env_def)
  also have "\<dots> = mset (map (\<lambda>i. (i, the (map_of p i))) (map fst p))" by (rule mset_map [symmetric])
  also have "map (\<lambda>i. (i, the (map_of p i))) (map fst p) = p"
    using assms(2) by (simp add: comp_def, intro map_idI) (auto dest: map_of_is_SomeI)
  finally show m: "mset (iterate E p) = mset p" .
  have "mset (map fst (iterate E p)) = mset (map fst p)" using m by (metis mset_map)
  then show "distinct (map fst (iterate E p))" using assms(2) mset_eq_imp_distinct_iff by blast
  then show "map_of (iterate E p) = map_of p"
    using m assms(2) by (subst map_of_inject_set) (auto dest: mset_eq_setD)
qed

section \<open>What a client relies on\<close>

text \<open>
  \<open>bucket s i\<close> is the content of the bucket of node \<open>i\<close>. Reading a path returns its buckets and changes
  none; writing replaces those that are given; the bulk load puts each block in a bucket on its path,
  or nowhere, and says which keys it placed.
\<close>

locale bucket_storage =
  fixes ops :: "'s storage_ops"
    and inv :: "'s \<Rightarrow> bool"
    and bucket :: "'s \<Rightarrow> int \<Rightarrow> block list"
  assumes shape_law: "inv s \<Longrightarrow> 1 \<le> so_level ops s \<and> so_level ops s \<le> 31
      \<and> so_leaf_range ops s = 2 ^ (so_level ops s - 1)"
    and read_law: "inv s \<Longrightarrow> valid_leaf (so_level ops s) (sint lf) \<Longrightarrow>
      \<exists>p s'. so_read_path ops lf s = Inr (p, s') \<and> inv s' \<and> so_level ops s' = so_level ops s \<and> bucket s' = bucket s
        \<and> distinct (map fst p) \<and> set (map fst p) = set (path_up (so_level ops s) (sint lf))
        \<and> (\<forall>(i, b)\<in>set p. b = bucket s i)"
    and read_multiple_law: "inv s \<Longrightarrow> \<forall>lf\<in>set lfs. valid_leaf (so_level ops s) (sint lf) \<Longrightarrow>
      \<exists>p s'. so_read_multiple_paths ops lfs s = Inr (p, s') \<and> inv s' \<and> so_level ops s' = so_level ops s \<and> bucket s' = bucket s
        \<and> distinct (map fst p) \<and> set (map fst p) = (\<Union>lf\<in>set lfs. set (path_up (so_level ops s) (sint lf)))
        \<and> (\<forall>(i, b)\<in>set p. b = bucket s i)"
    and write_law: "inv s \<Longrightarrow> \<forall>i\<in>fst ` set p. 0 \<le> i \<and> i < 2 ^ so_level ops s - 1 \<Longrightarrow> distinct (map fst p) \<Longrightarrow>
      \<exists>s'. so_write_multiple_paths ops p s = Inr s' \<and> inv s' \<and> so_level ops s' = so_level ops s
        \<and> (\<forall>i. bucket s' i = (case map_of p i of None \<Rightarrow> bucket s i | Some b \<Rightarrow> b))"
    and reset_law: "inv s \<Longrightarrow> ceil_log2 n \<le> 30 \<Longrightarrow>
      \<exists>s'. so_reset ops n bs s = Inr s' \<and> inv s' \<and> so_level ops s' = ceil_log2 n + 1 \<and> (\<forall>i. bucket s' i = [])"
    and bulk_law: "inv s \<Longrightarrow> \<forall>i. bucket s i = [] \<Longrightarrow>
      \<forall>b\<in>set blocks. key b \<noteq> INVALID_KEY \<and> valid_leaf (so_level ops s) (sint (leaf b)) \<Longrightarrow>
      \<exists>placed s' rest. so_bulk_load ops blocks s = Inr (placed, s') \<and> inv s' \<and> so_level ops s' = so_level ops s
        \<and> (\<forall>i. \<forall>b\<in>set (bucket s' i). b \<in> set blocks \<and> i \<in> set (path_up (so_level ops s) (sint (leaf b))))
        \<and> mset (all_blocks (so_level ops s) (bucket s')) + mset rest = mset blocks
        \<and> set placed = key ` set (all_blocks (so_level ops s) (bucket s'))"

text \<open>The local tree keeps the contract.\<close>

lemma tree_bulk_load:
  assumes t: "tree_inv t" "\<forall>i. bucket_at t i = []"
    and bs: "\<forall>b\<in>set bs. key b \<noteq> INVALID_KEY \<and> valid_leaf (bt_level t) (sint (leaf b))"
  shows "\<exists>placed t' rest. bt_bulk_load bs t = Inr (placed, t') \<and> tree_inv t' \<and> bt_level t' = bt_level t
        \<and> (\<forall>i. \<forall>b\<in>set (bucket_at t' i). b \<in> set bs \<and> i \<in> set (path_up (bt_level t) (sint (leaf b))))
        \<and> mset (all_blocks (bt_level t) (bucket_at t')) + mset rest = mset bs
        \<and> set placed = key ` set (all_blocks (bt_level t) (bucket_at t'))"
proof -
  obtain t' rest where f: "fill_all bs t = Inr t'" "filled t bs t' rest"
    using fill_all_spec [OF t(1)] bs by blast
  have "concat (bt_storage t) = []" unfolding tree_all_blocks [OF t(1)] using t(2) by (simp add: all_blocks_def)
  then have m: "mset (concat (bt_storage t')) + mset rest = mset bs" using f(2) by (simp add: filled_def)
  have lv: "bt_level t' = bt_level t"
    using f(2) unfolding filled_def by (metis bucket_tree.select_convs(1) bucket_tree.update_convs(5) bucket_tree.surjective)
  have inv: "tree_inv t'" using f(2) by (simp add: filled_def)
  have sub: "set (concat (bt_storage t')) \<subseteq> set bs"
    using m by (metis mset_subset_eq_add_left set_mset_mono set_mset_mset)
  then have "filter (\<lambda>b. \<not> is_dummy b) (concat (bt_storage t')) = concat (bt_storage t')"
    using bs by (intro filter_True) (auto simp: is_dummy_def)
  moreover have "\<forall>i. \<forall>b\<in>set (bucket_at t' i). b \<in> set bs \<and> i \<in> set (path_up (bt_level t) (sint (leaf b)))"
  proof (intro allI ballI)
    fix i b assume b: "b \<in> set (bucket_at t' i)"
    then have "b \<in> set (concat (bt_storage t'))" by (auto simp: bucket_at_def split: if_splits)
    then have "b \<in> set bs" using sub by blast
    moreover have "i \<in> set (path_up (bt_level t) (sint (leaf b)))"
      using b f(2) t(2) unfolding filled_def by fastforce
    ultimately show "b \<in> set bs \<and> i \<in> set (path_up (bt_level t) (sint (leaf b)))" ..
  qed
  ultimately show ?thesis
    using f inv lv m tree_all_blocks [OF inv]
    by (intro exI [of _ "remdups (map key (concat (bt_storage t')))"] exI [of _ t'] exI [of _ rest])
      (simp add: bt_bulk_load_def)
qed

interpretation tree: bucket_storage tree_ops tree_inv bucket_at
proof unfold_locales
  fix s :: bucket_tree and lf :: i32 and lfs p n bs blocks
  assume inv: "tree_inv s"
  have l: "1 \<le> bt_level s" using inv by (simp add: tree_inv_def)
  show "1 \<le> so_level tree_ops s \<and> so_level tree_ops s \<le> 31 \<and> so_leaf_range tree_ops s = 2 ^ (so_level tree_ops s - 1)"
    using inv by (simp add: tree_ops_def tree_inv_def)
  show "\<exists>p s'. so_read_path tree_ops lf s = Inr (p, s') \<and> tree_inv s' \<and> so_level tree_ops s' = so_level tree_ops s
        \<and> bucket_at s' = bucket_at s
        \<and> distinct (map fst p) \<and> set (map fst p) = set (path_up (so_level tree_ops s) (sint lf))
        \<and> (\<forall>(i, b)\<in>set p. b = bucket_at s i)"
    if "valid_leaf (so_level tree_ops s) (sint lf)"
    using inv that distinct_path_up [OF l] tree_read_path [OF inv]
    by (simp add: tree_ops_def comp_def image_image)
  show "\<exists>p s'. so_read_multiple_paths tree_ops lfs s = Inr (p, s') \<and> tree_inv s'
        \<and> so_level tree_ops s' = so_level tree_ops s \<and> bucket_at s' = bucket_at s
        \<and> distinct (map fst p) \<and> set (map fst p) = (\<Union>lf\<in>set lfs. set (path_up (so_level tree_ops s) (sint lf)))
        \<and> (\<forall>(i, b)\<in>set p. b = bucket_at s i)"
    if "\<forall>lf\<in>set lfs. valid_leaf (so_level tree_ops s) (sint lf)"
    using inv that merged_path [OF l] tree_read_multiple [OF inv]
    by (simp add: tree_ops_def comp_def image_image)
  show "\<exists>s'. so_write_multiple_paths tree_ops p s = Inr s' \<and> tree_inv s' \<and> so_level tree_ops s' = so_level tree_ops s
        \<and> (\<forall>i. bucket_at s' i = (case map_of p i of None \<Rightarrow> bucket_at s i | Some b \<Rightarrow> b))"
    if "\<forall>i\<in>fst ` set p. 0 \<le> i \<and> i < 2 ^ so_level tree_ops s - 1" "distinct (map fst p)"
  proof -
    have "\<forall>i\<in>fst ` set p. in_range i (bt_storage s)"
      using that(1) by (simp add: tree_in_range [OF inv] tree_ops_def)
    from write_buckets_in_range [OF this that(2)] obtain t' where t': "write_buckets p s = Inr t'" "t' = s\<lparr>bt_storage := bt_storage t'\<rparr>"
      "length (bt_storage t') = length (bt_storage s)"
      "\<forall>i. bucket_at t' i = (case map_of p i of None \<Rightarrow> bucket_at s i | Some b \<Rightarrow> b)"
      by blast
    have "tree_inv (s\<lparr>bt_storage := bt_storage t'\<rparr>) \<and> bt_level (s\<lparr>bt_storage := bt_storage t'\<rparr>) = bt_level s"
      using inv t'(3) by (simp add: tree_inv_def)
    then have "tree_inv t' \<and> bt_level t' = bt_level s" by (simp only: t'(2) [symmetric])
    then show ?thesis using t'(1,4) by (auto simp: tree_ops_def bt_write_multiple_paths_def)
  qed
  show "\<exists>s'. so_reset tree_ops n bs s = Inr s' \<and> tree_inv s' \<and> so_level tree_ops s' = ceil_log2 n + 1
      \<and> (\<forall>i. bucket_at s' i = [])" if "ceil_log2 n \<le> 30"
    using new_tree_inv [OF that] by (simp add: tree_ops_def) (simp add: bt_reset_def Let_def)
  show "\<exists>placed s' rest. so_bulk_load tree_ops blocks s = Inr (placed, s') \<and> tree_inv s'
        \<and> so_level tree_ops s' = so_level tree_ops s
        \<and> (\<forall>i. \<forall>b\<in>set (bucket_at s' i). b \<in> set blocks \<and> i \<in> set (path_up (so_level tree_ops s) (sint (leaf b))))
        \<and> mset (all_blocks (so_level tree_ops s) (bucket_at s')) + mset rest = mset blocks
        \<and> set placed = key ` set (all_blocks (so_level tree_ops s) (bucket_at s'))"
    if "\<forall>i. bucket_at s i = []"
      "\<forall>b\<in>set blocks. key b \<noteq> INVALID_KEY \<and> valid_leaf (so_level tree_ops s) (sint (leaf b))"
    using tree_bulk_load [OF inv that(1)] that(2) by (simp add: tree_ops_def)
qed

end
