(* ===== verification/Path_Oram.thy ===== *)
theory Path_Oram
  imports Storage_Interface
begin

text \<open>
  \<open>src/oram/path_oram.cpp\<close>: the Path ORAM client. Blocks are encrypted in the storage and plain in the
  stash; a path is read into the stash, and the stash is evicted back along one path or several.
\<close>

record 's path_oram =
  po_num_data :: int
  po_bucket_size :: int
  po_stash_max_size :: int
  po_storage :: "'s option"
  po_stash :: "block list"
  po_pos_map :: "i32 \<rightharpoonup> i32"
  po_block_size_bytes :: int
  po_last_bw :: bandwidth
  po_total_bw :: bandwidth
  po_aes_key :: bytes
  po_cached_level :: nat
  po_cached_leaf_range :: int

text \<open>
  \<open>create\<close> is the storage creator, or the construction of a local tree. \<open>storage_\<close> is empty between
  \<open>detach_storage\<close> and \<open>attach_storage\<close>.
\<close>

definition new_path_oram ::
  "oram_env \<Rightarrow> 's storage_ops \<Rightarrow> (int \<Rightarrow> int \<Rightarrow> 's result) \<Rightarrow> int \<Rightarrow> int \<Rightarrow> int \<Rightarrow> rng \<Rightarrow> ('s path_oram \<times> rng) result" where
  "new_path_oram E ops create num_data bsize stash_scale r =
     bind_result (generate_aes_key (oe_crypto E) r) (\<lambda>(k, r').
     bind_result (create num_data bsize) (\<lambda>s.
       Inr (\<lparr>po_num_data = num_data, po_bucket_size = bsize,
             po_stash_max_size = stash_scale * max (int (so_level ops s) - 1) 1,
             po_storage = Some s, po_stash = [], po_pos_map = Map.empty, po_block_size_bytes = 0,
             po_last_bw = zero_bandwidth, po_total_bw = zero_bandwidth, po_aes_key = k,
             po_cached_level = so_level ops s, po_cached_leaf_range = so_leaf_range ops s\<rparr>, r')))"

definition with_storage :: "'s path_oram \<Rightarrow> ('s \<Rightarrow> 'a result) \<Rightarrow> 'a result" where
  "with_storage p f = (case po_storage p of None \<Rightarrow> Inl NullPointer | Some s \<Rightarrow> f s)"

definition detach_storage :: "'s storage_ops \<Rightarrow> 's path_oram \<Rightarrow> 's option \<times> 's path_oram" where
  "detach_storage ops p =
     (case po_storage p of
        None \<Rightarrow> (None, p)
      | Some s \<Rightarrow> (Some s, p\<lparr>po_cached_level := so_level ops s, po_cached_leaf_range := so_leaf_range ops s,
                              po_storage := None\<rparr>))"

definition attach_storage :: "'s storage_ops \<Rightarrow> 's option \<Rightarrow> 's path_oram \<Rightarrow> 's path_oram" where
  "attach_storage ops st p =
     (case st of
        None \<Rightarrow> p\<lparr>po_storage := None\<rparr>
      | Some s \<Rightarrow> p\<lparr>po_storage := Some s, po_cached_level := so_level ops s,
                     po_cached_leaf_range := so_leaf_range ops s\<rparr>)"

definition po_level :: "'s storage_ops \<Rightarrow> 's path_oram \<Rightarrow> nat" where
  "po_level ops p = (case po_storage p of Some s \<Rightarrow> so_level ops s | None \<Rightarrow> po_cached_level p)"

definition po_leaf_range :: "'s storage_ops \<Rightarrow> 's path_oram \<Rightarrow> int" where
  "po_leaf_range ops p = (case po_storage p of Some s \<Rightarrow> so_leaf_range ops s | None \<Rightarrow> po_cached_leaf_range p)"

definition po_get_store_id :: "'s storage_ops \<Rightarrow> 's path_oram \<Rightarrow> i32" where
  "po_get_store_id ops p = (case po_storage p of Some s \<Rightarrow> so_store_id ops s | None \<Rightarrow> - 1)"

definition path_bandwidth_bytes :: "'s storage_ops \<Rightarrow> 's path_oram \<Rightarrow> int" where
  "path_bandwidth_bytes ops p =
     (case po_storage p of None \<Rightarrow> 0
      | Some s \<Rightarrow> int (so_level ops s) * po_bucket_size p * (po_block_size_bytes p + 2 * 4))"

definition po_random_leaf :: "'s storage_ops \<Rightarrow> 's path_oram \<Rightarrow> rng \<Rightarrow> (i32 \<times> rng) result" where
  "po_random_leaf ops p r = with_storage p (\<lambda>s.
     case rand_below (so_leaf_range ops s) r of (x, r') \<Rightarrow> Inr (word_of_int x, r'))"

definition po_get_leaf :: "i32 \<Rightarrow> 's path_oram \<Rightarrow> i32" where
  "po_get_leaf k p = (case po_pos_map p k of None \<Rightarrow> INVALID_LEAF | Some lf \<Rightarrow> lf)"

definition po_set_leaf :: "i32 \<Rightarrow> i32 \<Rightarrow> 's path_oram \<Rightarrow> 's path_oram" where
  "po_set_leaf k lf p = p\<lparr>po_pos_map := (po_pos_map p)(k \<mapsto> lf)\<rparr>"

section \<open>Encryption of buckets\<close>

fun encrypt_bucket :: "crypto \<Rightarrow> bytes \<Rightarrow> block list \<Rightarrow> rng \<Rightarrow> (block list \<times> rng) result" where
  "encrypt_bucket cr k [] r = Inr ([], r)"
| "encrypt_bucket cr k (b # bs) r =
     bind_result (if \<not> is_dummy b \<and> val b \<noteq> [] then aes_encrypt cr k (val b) r else Inr (val b, r)) (\<lambda>(v, r1).
     bind_result (encrypt_bucket cr k bs r1) (\<lambda>(bs', r2). Inr (b\<lparr>val := v\<rparr> # bs', r2)))"

fun decrypt_bucket :: "crypto \<Rightarrow> bytes \<Rightarrow> block list \<Rightarrow> block list result" where
  "decrypt_bucket cr k [] = Inr []"
| "decrypt_bucket cr k (b # bs) =
     bind_result (if \<not> is_dummy b \<and> val b \<noteq> [] then aes_decrypt cr k (val b) else Inr (val b)) (\<lambda>v.
     bind_result (decrypt_bucket cr k bs) (\<lambda>bs'. Inr (b\<lparr>val := v\<rparr> # bs')))"

fun encrypt_path :: "crypto \<Rightarrow> bytes \<Rightarrow> path_map \<Rightarrow> rng \<Rightarrow> (path_map \<times> rng) result" where
  "encrypt_path cr k [] r = Inr ([], r)"
| "encrypt_path cr k ((node, bucket) # p) r =
     bind_result (encrypt_bucket cr k bucket r) (\<lambda>(bucket', r1).
     bind_result (encrypt_path cr k p r1) (\<lambda>(p', r2). Inr ((node, bucket') # p', r2)))"

section \<open>Initial load\<close>

text \<open>\<open>data\<close> is the hash map of the initial data in its iteration order.\<close>

fun assign_positions :: "int \<Rightarrow> (i32 \<times> bytes) list \<Rightarrow> (i32 \<rightharpoonup> i32) \<Rightarrow> rng \<Rightarrow> (i32 \<rightharpoonup> i32) \<times> rng" where
  "assign_positions lrange [] pm r = (pm, r)"
| "assign_positions lrange ((k, v) # data) pm r =
     (if pm k = None
      then (case rand_below lrange r of (x, r') \<Rightarrow> assign_positions lrange data (pm(k \<mapsto> word_of_int x)) r')
      else assign_positions lrange data pm r)"

fun encrypt_data :: "crypto \<Rightarrow> bytes \<Rightarrow> (i32 \<rightharpoonup> i32) \<Rightarrow> (i32 \<times> bytes) list \<Rightarrow> rng \<Rightarrow> (block list \<times> rng) result" where
  "encrypt_data cr ak pm [] r = Inr ([], r)"
| "encrypt_data cr ak pm ((k, v) # data) r =
     bind_result (if v = [] then Inr (v, r) else aes_encrypt cr ak v r) (\<lambda>(ev, r1).
       case pm k of None \<Rightarrow> Inl (NotInMap k)
       | Some lf \<Rightarrow> bind_result (encrypt_data cr ak pm data r1) (\<lambda>(bs, r2).
           Inr (\<lparr>key = k, leaf = lf, val = ev\<rparr> # bs, r2)))"

definition po_init :: "oram_env \<Rightarrow> 's storage_ops \<Rightarrow> (i32 \<times> bytes) list \<Rightarrow> 's path_oram \<Rightarrow> rng \<Rightarrow> ('s path_oram \<times> rng) result" where
  "po_init E ops data p r = with_storage p (\<lambda>s.
     case assign_positions (so_leaf_range ops s) data (po_pos_map p) r of (pm, r1) \<Rightarrow>
     let bsz = foldl (\<lambda>m (k, v). if int (length v) > m then int (length v) else m) 0 data
     in bind_result (so_reset ops (po_num_data p) (po_bucket_size p) s) (\<lambda>s1.
        bind_result (encrypt_data (oe_crypto E) (po_aes_key p) pm data r1) (\<lambda>(blocks, r2).
        bind_result (so_bulk_load ops blocks s1) (\<lambda>(placed, s2).
          Inr (p\<lparr>po_storage := Some s2, po_pos_map := pm, po_block_size_bytes := bsz,
                 po_stash := map (\<lambda>(k, v). \<lparr>key = k, leaf = the (pm k), val = v\<rparr>)
                               (filter (\<lambda>(k, v). k \<notin> set placed) data)\<rparr>, r2)))))"

section \<open>Reading paths\<close>

fun apply_buckets :: "crypto \<Rightarrow> bytes \<Rightarrow> path_map \<Rightarrow> block list \<Rightarrow> block list result" where
  "apply_buckets cr k [] st = Inr st"
| "apply_buckets cr k ((node, bucket) # p) st =
     bind_result (decrypt_bucket cr k bucket) (\<lambda>bs.
       apply_buckets cr k p (st @ filter (\<lambda>b. \<not> is_dummy b) bs))"

definition apply_fetched_path :: "oram_env \<Rightarrow> path_map \<Rightarrow> 's path_oram \<Rightarrow> 's path_oram result" where
  "apply_fetched_path E path p =
     bind_result (apply_buckets (oe_crypto E) (po_aes_key p) (iterate E path) (po_stash p)) (\<lambda>st.
       Inr (p\<lparr>po_stash := st\<rparr>))"

definition po_read_path_to_stash :: "oram_env \<Rightarrow> 's storage_ops \<Rightarrow> i32 \<Rightarrow> 's path_oram \<Rightarrow> 's path_oram result" where
  "po_read_path_to_stash E ops lf p = with_storage p (\<lambda>s.
     bind_result (so_read_path ops lf s) (\<lambda>(path, s').
       apply_fetched_path E path (p\<lparr>po_storage := Some s'\<rparr>)))"

definition po_read_multiple_paths_to_stash ::
  "oram_env \<Rightarrow> 's storage_ops \<Rightarrow> i32 list \<Rightarrow> 's path_oram \<Rightarrow> 's path_oram result" where
  "po_read_multiple_paths_to_stash E ops leaves p = with_storage p (\<lambda>s.
     bind_result (so_read_multiple_paths ops leaves s) (\<lambda>(path, s').
       apply_fetched_path E path (p\<lparr>po_storage := Some s'\<rparr>)))"

section \<open>Eviction\<close>

text \<open>The stash is walked once; a block that finds no bucket remains.\<close>

fun distribute :: "nat \<Rightarrow> int \<Rightarrow> block list \<Rightarrow> path_map \<Rightarrow> block list \<times> path_map" where
  "distribute level bsize [] path = ([], path)"
| "distribute level bsize (b # st) path =
     (case fill_block_to_path b path level bsize of (inserted, path') \<Rightarrow>
      case distribute level bsize st path' of (remaining, path'') \<Rightarrow>
        (if inserted then remaining else b # remaining, path''))"

definition empty_path :: "int list \<Rightarrow> path_map" where
  "empty_path indices = map (\<lambda>i. (i, [])) indices"

definition fill_and_check :: "nat \<Rightarrow> i32 list \<Rightarrow> 's path_oram \<Rightarrow> (path_map \<times> 's path_oram) result" where
  "fill_and_check level leaves p =
     (case distribute level (po_bucket_size p) (po_stash p) (empty_path (get_merged_path_indices level leaves)) of
        (remaining, path) \<Rightarrow>
          if int (length remaining) > po_stash_max_size p
          then Inl (StashOverflow (length remaining) (nat (po_stash_max_size p)))
          else Inr (path, p\<lparr>po_stash := remaining\<rparr>))"

definition prepare_eviction :: "oram_env \<Rightarrow> 's storage_ops \<Rightarrow> i32 \<Rightarrow> 's path_oram \<Rightarrow> rng \<Rightarrow> (path_map \<times> 's path_oram \<times> rng) result" where
  "prepare_eviction E ops lf p r = with_storage p (\<lambda>s.
     bind_result (fill_and_check (so_level ops s) [lf] p) (\<lambda>(path, p').
     bind_result (encrypt_path (oe_crypto E) (po_aes_key p') (iterate E path) r) (\<lambda>(path', r').
       Inr (path', p', r'))))"

text \<open>For several paths at once the buckets are filled up with dummies.\<close>

definition pad_buckets :: "int \<Rightarrow> path_map \<Rightarrow> path_map" where
  "pad_buckets bsize path =
     map (\<lambda>(node, bucket). (node, bucket @ replicate (nat bsize - length bucket) default_block)) path"

definition prepare_eviction_paths ::
  "oram_env \<Rightarrow> 's storage_ops \<Rightarrow> i32 list \<Rightarrow> 's path_oram \<Rightarrow> rng \<Rightarrow> (path_map \<times> 's path_oram \<times> rng) result" where
  "prepare_eviction_paths E ops leaves p r = with_storage p (\<lambda>s.
     bind_result (fill_and_check (so_level ops s) leaves p) (\<lambda>(path, p').
     bind_result (encrypt_path (oe_crypto E) (po_aes_key p') (pad_buckets (po_bucket_size p') (iterate E path)) r)
       (\<lambda>(path', r'). Inr (path', p', r'))))"

definition evict_stash :: "oram_env \<Rightarrow> 's storage_ops \<Rightarrow> i32 list \<Rightarrow> 's path_oram \<Rightarrow> rng \<Rightarrow> ('s path_oram \<times> rng) result" where
  "evict_stash E ops leaves p r = with_storage p (\<lambda>s.
     bind_result (fill_and_check (so_level ops s) leaves p) (\<lambda>(path, p').
     bind_result (encrypt_path (oe_crypto E) (po_aes_key p') (iterate E path) r) (\<lambda>(path', r').
     bind_result (so_write_multiple_paths ops path' s) (\<lambda>s'.
       Inr (p'\<lparr>po_storage := Some s'\<rparr>, r')))))"

definition evict_and_write_path :: "oram_env \<Rightarrow> 's storage_ops \<Rightarrow> i32 \<Rightarrow> 's path_oram \<Rightarrow> rng \<Rightarrow> ('s path_oram \<times> rng) result" where
  "evict_and_write_path E ops lf p r = evict_stash E ops [lf] p r"

definition evict_and_write_paths :: "oram_env \<Rightarrow> 's storage_ops \<Rightarrow> i32 list \<Rightarrow> 's path_oram \<Rightarrow> rng \<Rightarrow> ('s path_oram \<times> rng) result" where
  "evict_and_write_paths E ops leaves p r = evict_stash E ops leaves p r"

section \<open>The stash\<close>

fun find_in_stash :: "i32 \<Rightarrow> block list \<Rightarrow> nat option" where
  "find_in_stash k [] = None"
| "find_in_stash k (b # bs) = (if key b = k then Some 0 else map_option Suc (find_in_stash k bs))"

text \<open>The diagnostics of a missing key read the path of the key, when it has one, before they throw.\<close>

definition po_extract_from_stash :: "'s storage_ops \<Rightarrow> i32 \<Rightarrow> 's path_oram \<Rightarrow> (block \<times> 's path_oram) result" where
  "po_extract_from_stash ops k p =
     (case find_in_stash k (po_stash p) of
        Some i \<Rightarrow> Inr (po_stash p ! i, p\<lparr>po_stash := take i (po_stash p) @ drop (Suc i) (po_stash p)\<rparr>)
      | None \<Rightarrow>
          (case po_pos_map p k of
             None \<Rightarrow> Inl (KeyNotFound k)
           | Some lf \<Rightarrow> with_storage p (\<lambda>s. bind_result (so_read_path ops lf s) (\<lambda>_. Inl (KeyNotFound k)))))"

definition po_add_to_stash :: "block \<Rightarrow> 's path_oram \<Rightarrow> 's path_oram" where
  "po_add_to_stash b p = p\<lparr>po_stash := po_stash p @ [b]\<rparr>"

section \<open>Access\<close>

definition count_access :: "'s storage_ops \<Rightarrow> 's path_oram \<Rightarrow> 's path_oram" where
  "count_access ops p =
     (let b = of_int (int (po_level ops p) * po_bucket_size p * (po_block_size_bytes p + 8));
          bw = \<lparr>bytes_downloaded = b, bytes_uploaded = b, rounds = 1\<rparr>
      in p\<lparr>po_last_bw := bw, po_total_bw := add_bandwidth (po_total_bw p) bw\<rparr>)"

definition po_access ::
  "oram_env \<Rightarrow> 's storage_ops \<Rightarrow> i32 \<Rightarrow> bytes option \<Rightarrow> 's path_oram \<Rightarrow> rng \<Rightarrow> (bytes \<times> 's path_oram \<times> rng) result" where
  "po_access E ops k new_value p0 r =
     (let p = p0\<lparr>po_last_bw := zero_bandwidth\<rparr>
      in case po_pos_map p k of None \<Rightarrow> Inl (NotInMap k)
      | Some old_leaf \<Rightarrow>
          bind_result (po_random_leaf ops p r) (\<lambda>(new_leaf, r1).
          bind_result (po_read_path_to_stash E ops old_leaf (po_set_leaf k new_leaf p)) (\<lambda>p1.
            case find_in_stash k (po_stash p1) of None \<Rightarrow> Inl (KeyNotFound k)
            | Some i \<Rightarrow>
                let target = po_stash p1 ! i;
                    target' = target\<lparr>val := (case new_value of None \<Rightarrow> val target | Some v \<Rightarrow> v), leaf := new_leaf\<rparr>
                in bind_result (evict_and_write_path E ops old_leaf (p1\<lparr>po_stash := (po_stash p1)[i := target']\<rparr>) r1)
                     (\<lambda>(p2, r2). Inr (val target, count_access ops p2, r2)))))"

definition po_dummy_access :: "oram_env \<Rightarrow> 's storage_ops \<Rightarrow> 's path_oram \<Rightarrow> rng \<Rightarrow> ('s path_oram \<times> rng) result" where
  "po_dummy_access E ops p r =
     bind_result (po_random_leaf ops p r) (\<lambda>(lf, r1).
     bind_result (po_read_path_to_stash E ops lf p) (\<lambda>p1.
     bind_result (evict_and_write_path E ops lf p1 r1) (\<lambda>(p2, r2).
       Inr (count_access ops p2, r2))))"

end
