(* ===== verification/Path_Oram_Correct.thy ===== *)
theory Path_Oram_Correct
  imports Path_Oram
begin

text \<open>
  The Path ORAM client over any storage that keeps the contract \<open>bucket_storage\<close>. Between reading a path
  and writing it back the buckets of the path are stale copies; \<open>po_state P p m\<close> says that the stash
  and the buckets outside \<open>P\<close>, decrypted, hold the map \<open>m\<close>, each block on the path of its leaf.
\<close>

section \<open>Blocks in the clear\<close>

definition dec_block :: "crypto \<Rightarrow> bytes \<Rightarrow> block \<Rightarrow> block" where
  "dec_block cr k b =
     (if is_dummy b \<or> val b = [] then b
      else case aes_decrypt cr k (val b) of Inl e \<Rightarrow> b | Inr v \<Rightarrow> b\<lparr>val := v\<rparr>)"

definition block_ok :: "crypto \<Rightarrow> bytes \<Rightarrow> block \<Rightarrow> bool" where
  "block_ok cr k b \<longleftrightarrow> is_dummy b \<or> val b = [] \<or> aes_decrypt cr k (val b) = Inr (val (dec_block cr k b))"

lemma dec_block_fields [simp]: "key (dec_block cr k b) = key b" "leaf (dec_block cr k b) = leaf b"
  by (simp_all add: dec_block_def split: sum.split)

lemma live_map_dec: "live (map (dec_block cr k) bs) = map (dec_block cr k) (live bs)"
  by (induction bs) simp_all

lemma filter_live: "filter (\<lambda>b. \<not> is_dummy b) bs = live bs"
  by (simp add: live_def is_dummy_def)

lemma decrypt_bucket_ok: "\<forall>b\<in>set bs. block_ok cr k b \<Longrightarrow> decrypt_bucket cr k bs = Inr (map (dec_block cr k) bs)"
proof (induction bs)
  case (Cons b bs)
  have "(if \<not> is_dummy b \<and> val b \<noteq> [] then aes_decrypt cr k (val b) else Inr (val b)) = Inr (val (dec_block cr k b))"
    using Cons.prems by (auto simp: block_ok_def) (auto simp: dec_block_def)
  moreover have "b\<lparr>val := val (dec_block cr k b)\<rparr> = dec_block cr k b"
    by (simp add: dec_block_def split: sum.split)
  ultimately show ?case using Cons by simp
qed simp

lemma encrypt_bucket_good:
  assumes "good_crypto cr" "length k = AES_KEY_LEN" "\<forall>b\<in>set bs. is_dummy b \<or> fits_cipher (val b)"
  shows "\<exists>bs' r'. encrypt_bucket cr k bs r = Inr (bs', r') \<and> map (dec_block cr k) bs' = bs
    \<and> (\<forall>b\<in>set bs'. block_ok cr k b)"
  using assms(3)
proof (induction bs arbitrary: r)
  case (Cons b bs)
  show ?case
  proof (cases "\<not> is_dummy b \<and> val b \<noteq> []")
    case True
    obtain ct r1 where ct: "aes_encrypt cr k (val b) r = Inr (ct, r1)" "aes_decrypt cr k ct = Inr (val b)"
      "length ct = AES_IV_LEN + length (val b)"
      by (rule aes_encrypt_good [OF assms(1,2), of "val b" r]) (use True Cons.prems in auto)
    obtain bs' r2 where bs': "encrypt_bucket cr k bs r1 = Inr (bs', r2)" "map (dec_block cr k) bs' = bs"
      "\<forall>b\<in>set bs'. block_ok cr k b"
      using Cons.IH [of r1] Cons.prems by auto
    have "dec_block cr k (b\<lparr>val := ct\<rparr>) = b" "block_ok cr k (b\<lparr>val := ct\<rparr>)"
      using ct True by (auto simp: dec_block_def block_ok_def is_dummy_def)
    then show ?thesis using True ct(1) bs' by simp
  next
    case False
    obtain bs' r2 where bs': "encrypt_bucket cr k bs r = Inr (bs', r2)" "map (dec_block cr k) bs' = bs"
      "\<forall>b\<in>set bs'. block_ok cr k b"
      using Cons.IH [of r] Cons.prems by auto
    have "dec_block cr k b = b" "block_ok cr k b" using False by (auto simp: dec_block_def block_ok_def)
    then show ?thesis using False bs' by auto
  qed
qed simp

lemma encrypt_path_good:
  assumes "good_crypto cr" "length k = AES_KEY_LEN" "\<forall>(i, bs)\<in>set p. \<forall>b\<in>set bs. is_dummy b \<or> fits_cipher (val b)"
  shows "\<exists>p' r'. encrypt_path cr k p r = Inr (p', r') \<and> map fst p' = map fst p
    \<and> (\<forall>i. map_option (map (dec_block cr k)) (map_of p' i) = map_of p i)
    \<and> (\<forall>i bs. map_of p' i = Some bs \<longrightarrow> (\<forall>b\<in>set bs. block_ok cr k b))"
  using assms(3)
proof (induction p arbitrary: r)
  case (Cons x p)
  obtain node bucket where x: "x = (node, bucket)" by (cases x)
  obtain bs' r1 where bs': "encrypt_bucket cr k bucket r = Inr (bs', r1)" "map (dec_block cr k) bs' = bucket"
    "\<forall>b\<in>set bs'. block_ok cr k b"
    using encrypt_bucket_good [OF assms(1,2), of bucket r] Cons.prems x by auto
  obtain p' r2 where p': "encrypt_path cr k p r1 = Inr (p', r2)" "map fst p' = map fst p"
    "\<forall>i. map_option (map (dec_block cr k)) (map_of p' i) = map_of p i"
    "\<forall>i bs. map_of p' i = Some bs \<longrightarrow> (\<forall>b\<in>set bs. block_ok cr k b)"
    using Cons.IH [of r1] Cons.prems by auto
  then show ?case using bs' by (simp add: x)
qed simp

section \<open>The blocks of a tree\<close>

lemma mset_all_blocks: "mset (all_blocks level f) = (\<Sum>i<2 ^ level - 1. mset (f (int i)))"
proof -
  have "mset (concat (map (\<lambda>i. f (int i)) [0..<n])) = (\<Sum>i<n. mset (f (int i)))" for n
    by (induction n) (simp_all add: lessThan_Suc add.commute)
  then show ?thesis by (simp add: all_blocks_def)
qed

text \<open>Cutting out the buckets of a set of nodes.\<close>

definition cut :: "int set \<Rightarrow> (int \<Rightarrow> block list) \<Rightarrow> int \<Rightarrow> block list" where
  "cut P f i = (if i \<in> P then [] else f i)"

lemma all_blocks_cut:
  assumes "distinct ps" "\<forall>i\<in>set ps. 0 \<le> i \<and> i < 2 ^ level - 1"
  shows "mset (all_blocks level f) = mset (concat (map f ps)) + mset (all_blocks level (cut (set ps) f))"
proof -
  let ?A = "{..<2 ^ level - 1 :: nat}" and ?B = "nat ` set ps"
  have sub: "?B \<subseteq> ?A"
  proof
    fix n assume "n \<in> ?B"
    then have "int n < 2 ^ level - 1" using assms(2) by auto
    then have "int (n + 1) < int (2 ^ level)" by simp
    then have "n + 1 < 2 ^ level" by (simp only: of_nat_less_iff)
    then show "n \<in> ?A" by simp
  qed
  have inj: "inj_on nat (set ps)" 
    using assms(2) by (intro inj_onI) (metis eq_nat_nat_iff)
  have "mset (concat (map f ps)) = (\<Sum>i\<in>set ps. mset (f i))"
    using assms(1) by (induction ps) simp_all
  also have "\<dots> = (\<Sum>n\<in>?B. mset (f (int n)))"
    using assms(2) by (simp add: sum.reindex [OF inj])
  finally have b: "mset (concat (map f ps)) = (\<Sum>n\<in>?B. mset (f (int n)))" .
  have "(\<Sum>n\<in>?A. mset (cut (set ps) f (int n))) = (\<Sum>n\<in>?A - ?B. mset (f (int n)))"
  proof -
    have "(\<Sum>n\<in>?A. mset (cut (set ps) f (int n))) = (\<Sum>n\<in>?A - ?B. mset (cut (set ps) f (int n)))"
      using sub assms(2) by (intro sum.mono_neutral_right) (auto simp: cut_def)
    also have "\<dots> = (\<Sum>n\<in>?A - ?B. mset (f (int n)))"
      by (intro sum.cong) (auto simp: cut_def image_iff)
    finally show ?thesis .
  qed
  then show ?thesis
    unfolding b mset_all_blocks by (subst sum.subset_diff [OF sub]) (simp_all add: add.commute)
qed

lemma set_all_blocks: "set (all_blocks level f) = (\<Union>i\<in>{0..<2 ^ level - 1}. set (f i))"
proof -
  have "{0..<2 ^ level - 1 :: int} = int ` {0..<2 ^ level - 1}"
    by (simp add: image_int_atLeastLessThan of_nat_diff)
  then show ?thesis by (simp add: all_blocks_def)
qed


section \<open>The state between a read and the write back\<close>

definition po_effective ::
  "crypto \<Rightarrow> ('s \<Rightarrow> int \<Rightarrow> block list) \<Rightarrow> 's storage_ops \<Rightarrow> int set \<Rightarrow> 's \<Rightarrow> 's path_oram \<Rightarrow> block list" where
  "po_effective cr bucket ops P s p =
     po_stash p @ all_blocks (so_level ops s) (cut P (\<lambda>i. map (dec_block cr (po_aes_key p)) (bucket s i)))"

definition fits_map :: "(i32 \<rightharpoonup> i32 \<times> bytes) \<Rightarrow> bool" where
  "fits_map m \<longleftrightarrow> (\<forall>k lf v. m k = Some (lf, v) \<longrightarrow> fits_cipher v)"

definition po_state ::
  "crypto \<Rightarrow> ('s \<Rightarrow> bool) \<Rightarrow> ('s \<Rightarrow> int \<Rightarrow> block list) \<Rightarrow> 's storage_ops \<Rightarrow> int set \<Rightarrow> 's path_oram
    \<Rightarrow> (i32 \<rightharpoonup> i32 \<times> bytes) \<Rightarrow> bool" where
  "po_state cr ok bucket ops P p m \<longleftrightarrow>
     0 \<le> po_stash_max_size p \<and> fits_map m \<and>
     (\<exists>s. po_storage p = Some s \<and> ok s \<and> length (po_aes_key p) = AES_KEY_LEN
        \<and> (\<forall>i. \<forall>b\<in>set (bucket s i). block_ok cr (po_aes_key p) b
             \<and> (\<not> is_dummy b \<longrightarrow> i \<in> set (path_up (so_level ops s) (sint (leaf b)))))
        \<and> (\<forall>b\<in>set (live (po_effective cr bucket ops P s p)). valid_leaf (so_level ops s) (sint (leaf b)))
        \<and> keys_distinct (po_effective cr bucket ops P s p)
        \<and> block_map (po_effective cr bucket ops P s p) = m)"

text \<open>What reading and writing back leave alone.\<close>

definition po_frame :: "'s storage_ops \<Rightarrow> 's path_oram \<Rightarrow> 's path_oram \<Rightarrow> bool" where
  "po_frame ops p p' \<longleftrightarrow> po_num_data p' = po_num_data p \<and> po_bucket_size p' = po_bucket_size p
     \<and> po_stash_max_size p' = po_stash_max_size p \<and> po_pos_map p' = po_pos_map p
     \<and> po_aes_key p' = po_aes_key p \<and> po_level ops p' = po_level ops p
     \<and> po_leaf_range ops p' = po_leaf_range ops p"

lemma po_frame_refl [simp]: "po_frame ops p p"
  by (simp add: po_frame_def)

lemma po_frame_trans: "po_frame ops p p' \<Longrightarrow> po_frame ops p' p'' \<Longrightarrow> po_frame ops p p''"
  by (simp add: po_frame_def)

lemma cut_empty [simp]: "cut {} f = f"
  by (simp add: cut_def fun_eq_iff)

text \<open>The effective blocks determine the state.\<close>

lemma po_stateI:
  assumes "po_storage p = Some s" "0 \<le> po_stash_max_size p" "ok s" "length (po_aes_key p) = AES_KEY_LEN"
    "\<forall>i. \<forall>b\<in>set (bucket s i). block_ok cr (po_aes_key p) b
       \<and> (\<not> is_dummy b \<longrightarrow> i \<in> set (path_up (so_level ops s) (sint (leaf b))))"
    and same: "mset (live (po_effective cr bucket ops P s p)) = mset (live bs)"
    and bs: "\<forall>b\<in>set (live bs). valid_leaf (so_level ops s) (sint (leaf b))" "keys_distinct bs" "block_map bs = m" "fits_map m"
  shows "po_state cr ok bucket ops P p m"
proof -
  have "set (live (po_effective cr bucket ops P s p)) = set (live bs)" using same by (metis set_mset_mset)
  moreover have "keys_distinct (po_effective cr bucket ops P s p)"
    using keys_distinct_mset [OF same] bs(2) by simp
  moreover from this have "block_map (po_effective cr bucket ops P s p) = m"
    using block_map_mset [OF same] bs(3) by simp
  ultimately show ?thesis using assms(1-5) bs(1,4) unfolding po_state_def by blast
qed

lemma distribute_spec:
  assumes "distribute level bsize st path = (rest, path')" "distinct (map fst path)"
  shows "map fst path' = map fst path
    \<and> mset (concat (map snd path')) + mset rest = mset (concat (map snd path)) + mset st
    \<and> (\<forall>i bs. map_of path' i = Some bs \<longrightarrow> (\<exists>bs0. map_of path i = Some bs0
         \<and> (\<forall>b\<in>set bs. b \<in> set bs0 \<or> i \<in> set (climb (2 ^ (level - 1) - 1 + sint (leaf b))))
         \<and> (int (length bs0) \<le> bsize \<longrightarrow> int (length bs) \<le> bsize)))"
  using assms
proof (induction st arbitrary: path rest path')
  case (Cons b st)
  obtain ins p1 where f: "fill_block_to_path b path level bsize = (ins, p1)" by fastforce
  obtain rest1 where d: "distribute level bsize st p1 = (rest1, path')" "rest = (if ins then rest1 else b # rest1)"
    using Cons.prems(1) f by (auto split: prod.splits)
  note s = fill_block_spec [OF f Cons.prems(2)]
  then have d1: "distinct (map fst p1)" using Cons.prems(2) by simp
  note ih = Cons.IH [OF d(1) d1]
  have "mset (concat (map snd path')) + mset rest = mset (concat (map snd path)) + mset (b # st)"
    using ih s d(2) by (auto simp: ac_simps)
  moreover have "\<exists>bs0. map_of path i = Some bs0
         \<and> (\<forall>b\<in>set bs. b \<in> set bs0 \<or> i \<in> set (climb (2 ^ (level - 1) - 1 + sint (leaf b))))
         \<and> (int (length bs0) \<le> bsize \<longrightarrow> int (length bs) \<le> bsize)" if i: "map_of path' i = Some bs" for i bs
  proof -
    obtain bs1 where b1: "map_of p1 i = Some bs1"
      "\<forall>b\<in>set bs. b \<in> set bs1 \<or> i \<in> set (climb (2 ^ (level - 1) - 1 + sint (leaf b)))"
      "int (length bs1) \<le> bsize \<longrightarrow> int (length bs) \<le> bsize"
      using ih i by blast
    obtain bs0 where "map_of path i = Some bs0" "bs1 = bs0 \<or> bs1 = bs0 @ [b]
        \<and> i \<in> set (climb (2 ^ (level - 1) - 1 + sint (leaf b))) \<and> int (length bs1) \<le> bsize"
      using s b1(1) by blast
    then show ?thesis using b1(2,3) by auto
  qed
  ultimately show ?case using ih s by simp
qed auto

lemma apply_buckets_ok:
  assumes "\<forall>(i, bs)\<in>set p. \<forall>b\<in>set bs. block_ok cr k b"
  shows "apply_buckets cr k p st = Inr (st @ concat (map (\<lambda>(i, bs). live (map (dec_block cr k) bs)) p))"
  using assms by (induction p arbitrary: st) (auto simp: decrypt_bucket_ok filter_live)

lemma block_eta: "\<lparr>key = key b, leaf = leaf b, val = val b\<rparr> = b"
  by simp

lemma mset_concat_map: "mset (concat (map f xs)) = (\<Sum>x\<in>#mset xs. mset (f x))"
  by (induction xs) simp_all

lemma live_concat_map: "live (concat (map f xs)) = concat (map (\<lambda>x. live (f x)) xs)"
  by (simp add: live_concat comp_def)

context bucket_storage
begin

lemma path_nodes_range:
  assumes "inv s" "\<forall>lf\<in>set lfs. valid_leaf (so_level ops s) (sint lf)"
    and "i \<in> (\<Union>lf\<in>set lfs. set (path_up (so_level ops s) (sint lf)))"
  shows "0 \<le> i \<and> i < 2 ^ so_level ops s - 1"
  using assms shape_law [OF assms(1)] path_up_range by blast

text \<open>Reading a path fills the stash with its blocks; the block of a key with this leaf is then there.\<close>

lemma read_path_state:
  assumes E: "good_env E" and st: "po_state (oe_crypto E) inv bucket ops {} p m"
    and lf: "valid_leaf (po_level ops p) (sint lf)"
  shows "\<exists>p'. po_read_path_to_stash E ops lf p = Inr p' \<and> po_frame ops p p'
    \<and> po_state (oe_crypto E) inv bucket ops (set (path_up (po_level ops p) (sint lf))) p' m
    \<and> (\<forall>k v. m k = Some (lf, v) \<longrightarrow> \<lparr>key = k, leaf = lf, val = v\<rparr> \<in> set (po_stash p'))
    \<and> (\<forall>b\<in>set (po_stash p'). b \<in> set (po_stash p) \<or> \<not> is_dummy b)"
proof -
  let ?cr = "oe_crypto E" and ?k = "po_aes_key p"
  have max0: "0 \<le> po_stash_max_size p" "fits_map m" using st by (simp_all add: po_state_def)
  obtain s where s: "po_storage p = Some s" "inv s" "length ?k = AES_KEY_LEN"
    "\<forall>i. \<forall>b\<in>set (bucket s i). block_ok ?cr ?k b
       \<and> (\<not> is_dummy b \<longrightarrow> i \<in> set (path_up (so_level ops s) (sint (leaf b))))"
    "\<forall>b\<in>set (live (po_effective ?cr bucket ops {} s p)). valid_leaf (so_level ops s) (sint (leaf b))"
    "keys_distinct (po_effective ?cr bucket ops {} s p)" "block_map (po_effective ?cr bucket ops {} s p) = m"
    using st unfolding po_state_def by blast
  have lev: "po_level ops p = so_level ops s" using s(1) by (simp add: po_level_def)
  obtain path s' where r: "so_read_path ops lf s = Inr (path, s')" "inv s'" "so_level ops s' = so_level ops s"
    "bucket s' = bucket s" "distinct (map fst path)" "set (map fst path) = set (path_up (so_level ops s) (sint lf))"
    "\<forall>(i, b)\<in>set path. b = bucket s i"
    using read_law [OF s(2)] lf unfolding lev by blast
  let ?P = "set (path_up (so_level ops s) (sint lf))"
  let ?plain = "\<lambda>i. map (dec_block ?cr ?k) (bucket s i)"
  let ?it = "iterate E path"
  note it = iterate_good [OF E r(5)]
  have "set ?it = set path" using it(1) by (rule mset_eq_setD)
  then have "\<forall>(i, bs)\<in>set ?it. \<forall>b\<in>set bs. block_ok ?cr ?k b" using r(7) s(4) by auto
  note ap = apply_buckets_ok [OF this]
  define st' where "st' = po_stash p @ concat (map (\<lambda>(i, bs). live (map (dec_block ?cr ?k) bs)) ?it)"
  define p' where "p' = p\<lparr>po_storage := Some s', po_stash := st'\<rparr>"
  have run: "po_read_path_to_stash E ops lf p = Inr p'"
    by (simp add: po_read_path_to_stash_def with_storage_def s(1) r(1) apply_fetched_path_def ap p'_def st'_def)
  have nodes: "distinct (map fst path)" "\<forall>i\<in>set (map fst path). 0 \<le> i \<and> i < 2 ^ so_level ops s - 1"
    using r(5) path_nodes_range [OF s(2), of "[lf]"] lf lev unfolding r(6) by auto
  have new: "mset (concat (map (\<lambda>(i, bs). live (map (dec_block ?cr ?k) bs)) ?it)) = mset (live (concat (map ?plain (map fst path))))"
  proof -
    have "map (\<lambda>(i, bs). live (map (dec_block ?cr ?k) bs)) path = map (\<lambda>i. live (?plain i)) (map fst path)"
      using r(7) by auto
    then have "concat (map (\<lambda>(i, bs). live (map (dec_block ?cr ?k) bs)) path) = live (concat (map ?plain (map fst path)))"
      by (simp only: live_concat_map)
    moreover have "mset (concat (map (\<lambda>(i, bs). live (map (dec_block ?cr ?k) bs)) ?it))
        = mset (concat (map (\<lambda>(i, bs). live (map (dec_block ?cr ?k) bs)) path))"
      by (simp only: mset_concat_map it(1))
    ultimately show ?thesis by simp
  qed
  have eff: "mset (live (po_effective ?cr bucket ops ?P s' p')) = mset (live (po_effective ?cr bucket ops {} s p))"
  proof -
    have "mset (all_blocks (so_level ops s) ?plain) =
        mset (concat (map ?plain (map fst path))) + mset (all_blocks (so_level ops s) (cut ?P ?plain))"
      using all_blocks_cut [OF nodes, of ?plain] r(6) by simp
    then have "mset (live (all_blocks (so_level ops s) ?plain)) =
        mset (live (concat (map ?plain (map fst path)))) + mset (live (all_blocks (so_level ops s) (cut ?P ?plain)))"
      by (simp add: mset_live)
    moreover have "live (concat (map (\<lambda>(i, bs). live (map (dec_block ?cr ?k) bs)) ?it)) =
        concat (map (\<lambda>(i, bs). live (map (dec_block ?cr ?k) bs)) ?it)"
      unfolding live_def by (rule filter_True) auto
    ultimately show ?thesis
      using new by (simp add: po_effective_def p'_def st'_def r(3,4))
  qed
  have state: "po_state ?cr inv bucket ops ?P p' m"
  proof (rule po_stateI [where ok = inv and s = s', OF _ _ r(2) _ _ eff])
    show "po_storage p' = Some s'" "0 \<le> po_stash_max_size p'" "length (po_aes_key p') = AES_KEY_LEN"
      using s(3) max0 by (simp_all add: p'_def)
    show "\<forall>i. \<forall>b\<in>set (bucket s' i). block_ok ?cr (po_aes_key p') b
       \<and> (\<not> is_dummy b \<longrightarrow> i \<in> set (path_up (so_level ops s') (sint (leaf b))))"
      using s(4) unfolding r(3,4) by (simp add: p'_def)
    show "\<forall>b\<in>set (live (po_effective ?cr bucket ops {} s p)). valid_leaf (so_level ops s') (sint (leaf b))"
      using s(5) unfolding r(3) .
  qed (fact s(6,7) max0(2))+
  have there: "\<lparr>key = k, leaf = lf, val = v\<rparr> \<in> set (po_stash p')" if "m k = Some (lf, v)" for k v
  proof -
    let ?b = "\<lparr>key = k, leaf = lf, val = v\<rparr>"
    have b: "?b \<in> set (po_effective ?cr bucket ops {} s p)" "k \<noteq> INVALID_KEY"
      using that s(7) block_map_Some_iff [OF s(6)] by (auto simp: block_eta)
    then have "?b \<in> set (live (po_effective ?cr bucket ops {} s p))" by simp
    then have "?b \<in> set (live (po_effective ?cr bucket ops ?P s' p'))" by (simp only: mset_eq_setD [OF eff])
    then have "?b \<in> set (po_effective ?cr bucket ops ?P s' p')" by simp
    moreover have "?b \<notin> set (all_blocks (so_level ops s) (cut ?P ?plain))"
    proof
      assume "?b \<in> set (all_blocks (so_level ops s) (cut ?P ?plain))"
      then obtain i b0 where b0: "i \<notin> ?P" "b0 \<in> set (bucket s i)" "?b = dec_block ?cr ?k b0"
        by (auto simp: set_all_blocks cut_def split: if_splits)
      then have "key b0 = k" "leaf b0 = lf" by (metis dec_block_fields block.select_convs(1,2))+
      then show False using s(4) b0(1,2) b(2) by (auto simp: is_dummy_def)
    qed
    ultimately show ?thesis by (auto simp: po_effective_def p'_def r(3,4))
  qed
  have "po_frame ops p p'"
    using s(1,2) r(2,3) shape_law [OF s(2)] shape_law [OF r(2)]
    by (simp add: po_frame_def p'_def po_level_def po_leaf_range_def)
  moreover have "\<forall>b\<in>set (po_stash p'). b \<in> set (po_stash p) \<or> \<not> is_dummy b"
    by (auto simp: p'_def st'_def is_dummy_def)
  ultimately show ?thesis
    using run state there unfolding lev by blast
qed

text \<open>Writing back: the stash and the cut tree become the tree again, with what does not fit.\<close>

lemma evict_state:
  assumes E: "good_env E" and lfs: "\<forall>lf\<in>set lfs. valid_leaf (po_level ops p) (sint lf)"
    and st: "po_state (oe_crypto E) inv bucket ops (\<Union>lf\<in>set lfs. set (path_up (po_level ops p) (sint lf))) p m"
  shows "safe_run (evict_stash E ops lfs p r) (\<lambda>(p', r'). po_frame ops p p'
    \<and> po_state (oe_crypto E) inv bucket ops {} p' m \<and> set (po_stash p') \<subseteq> set (po_stash p))"
proof -
  let ?cr = "oe_crypto E" and ?k = "po_aes_key p"
  let ?P = "\<Union>lf\<in>set lfs. set (path_up (po_level ops p) (sint lf))"
  have max0: "0 \<le> po_stash_max_size p" "fits_map m" using st by (simp_all add: po_state_def)
  obtain s where s: "po_storage p = Some s" "inv s" "length ?k = AES_KEY_LEN"
    "\<forall>i. \<forall>b\<in>set (bucket s i). block_ok ?cr ?k b
       \<and> (\<not> is_dummy b \<longrightarrow> i \<in> set (path_up (so_level ops s) (sint (leaf b))))"
    "\<forall>b\<in>set (live (po_effective ?cr bucket ops ?P s p)). valid_leaf (so_level ops s) (sint (leaf b))"
    "keys_distinct (po_effective ?cr bucket ops ?P s p)" "block_map (po_effective ?cr bucket ops ?P s p) = m"
    using st unfolding po_state_def by blast
  have lev: "po_level ops p = so_level ops s" using s(1) by (simp add: po_level_def)
  have l1: "1 \<le> so_level ops s" using shape_law [OF s(2)] by simp
  let ?lv = "so_level ops s"
  let ?idx = "get_merged_path_indices ?lv lfs"
  have idx: "set ?idx = ?P" "distinct ?idx" using merged_path [OF l1] lfs unfolding lev by simp_all
  have range: "\<forall>i\<in>set ?idx. 0 \<le> i \<and> i < 2 ^ ?lv - 1"
    using path_nodes_range [OF s(2), of lfs] lfs unfolding idx(1) lev by blast
  obtain rest path where d: "distribute ?lv (po_bucket_size p) (po_stash p) (empty_path ?idx) = (rest, path)" by fastforce
  have ep: "map fst (empty_path ?idx) = ?idx" "concat (map snd (empty_path ?idx)) = []"
    by (simp_all add: empty_path_def comp_def)
  note D = distribute_spec [OF d, unfolded ep, OF idx(2)]
  have dp: "distinct (map fst path)" using D idx(2) by simp
  note it = iterate_good [OF E dp]
  have fit: "\<forall>(i, bs)\<in>set (iterate E path). \<forall>b\<in>set bs. is_dummy b \<or> fits_cipher (val b)"
  proof (clarify)
    fix i bs b assume b: "(i, bs) \<in> set (iterate E path)" "b \<in> set bs" "\<not> fits_cipher (val b)"
    have "(i, bs) \<in> set path" using b(1) mset_eq_setD [OF it(1)] by simp
    then have "b \<in> set (concat (map snd path))" using b(2) by force
    then have "b \<in> set (po_stash p)"
      using D by (metis append_Nil mset_append mset_eq_setD set_append UnI1 mset.simps(1) add_0)
    then have "b \<in> set (po_effective ?cr bucket ops ?P s p)" by (simp add: po_effective_def)
    then have "key b \<noteq> INVALID_KEY \<Longrightarrow> m (key b) = Some (leaf b, val b)"
      unfolding s(7) [symmetric] block_map_Some_iff [OF s(6)] by blast
    then show "is_dummy b" using b(3) max0(2) unfolding fits_map_def is_dummy_def by blast
  qed
  obtain path' r' where en: "encrypt_path ?cr ?k (iterate E path) r = Inr (path', r')"
    "map fst path' = map fst (iterate E path)"
    "\<forall>i. map_option (map (dec_block ?cr ?k)) (map_of path' i) = map_of path i"
    "\<forall>i bs. map_of path' i = Some bs \<longrightarrow> (\<forall>b\<in>set bs. block_ok ?cr ?k b)"
    using encrypt_path_good [OF _ s(3) fit, of ?cr r] E unfolding it(2) good_env_def by blast
  show ?thesis
  proof (cases "int (length rest) > po_stash_max_size p")
    case True
    then have "evict_stash E ops lfs p r = Inl (StashOverflow (length rest) (nat (po_stash_max_size p)))"
      by (simp add: evict_stash_def with_storage_def s(1) fill_and_check_def d)
    then show ?thesis using True max0(1) by (auto simp: zless_nat_conj)
  next
    case False
    have sp: "set path' = set path'" ..
    have fs: "fst ` set path' = set ?idx" "distinct (map fst path')"
    proof -
      show "distinct (map fst path')" unfolding en(2) by (rule it(3))
      have "set (map fst path') = set (map fst path)"
        unfolding en(2) using it(1) by (metis mset_map mset_eq_setD)
      then show "fst ` set path' = set ?idx" using D by (simp flip: set_map)
    qed
    obtain s' where w: "so_write_multiple_paths ops path' s = Inr s'" "inv s'" "so_level ops s' = ?lv"
      "\<forall>i. bucket s' i = (case map_of path' i of None \<Rightarrow> bucket s i | Some b \<Rightarrow> b)"
      using write_law [OF s(2) _ fs(2)] range unfolding fs(1) by blast
    define p' where "p' = p\<lparr>po_stash := rest, po_storage := Some s'\<rparr>"
    have run: "evict_stash E ops lfs p r = Inr (p', r')"
      using False by (simp add: evict_stash_def with_storage_def s(1) fill_and_check_def d en(1) w(1) p'_def)
    let ?plain = "\<lambda>s i. map (dec_block ?cr ?k) (bucket s i)"
    have on: "?plain s' i = the (map_of path i)" if "i \<in> set ?idx" for i
    proof -
      have "map_of path' i \<noteq> None" using that fs(1) by (simp add: map_of_eq_None_iff)
      then show ?thesis using w(4) en(3) [rule_format, of i, symmetric] by auto
    qed
    have off: "?plain s' i = ?plain s i" if "i \<notin> set ?idx" for i
    proof -
      have "map_of path' i = None" using that fs(1) by (simp add: map_of_eq_None_iff)
      then show ?thesis using w(4) by simp
    qed
    have cutsame: "cut ?P (?plain s') = cut ?P (?plain s)"
      using off idx(1) by (auto simp: cut_def fun_eq_iff)
    have "map (?plain s') ?idx = map snd path"
    proof -
      have "map (\<lambda>i. the (map_of path i)) (map fst path) = map snd path"
        using dp by (simp add: comp_def) (auto intro!: map_cong dest: map_of_is_SomeI)
      moreover have "map (?plain s') ?idx = map (\<lambda>i. the (map_of path i)) ?idx"
        by (intro map_cong on) simp_all
      ultimately show ?thesis using D by simp
    qed
    then have "mset (all_blocks ?lv (?plain s')) = mset (concat (map snd path)) + mset (all_blocks ?lv (cut ?P (?plain s)))"
      using all_blocks_cut [OF idx(2) range, of "?plain s'"] cutsame idx(1) by simp
    then have "mset (po_effective ?cr bucket ops {} s' p') = mset (po_effective ?cr bucket ops ?P s p)"
      using D by (simp add: po_effective_def p'_def w(3) ac_simps)
    then have eff: "mset (live (po_effective ?cr bucket ops {} s' p')) = mset (live (po_effective ?cr bucket ops ?P s p))"
      by (simp add: mset_live)
    have blocks: "\<forall>i. \<forall>b\<in>set (bucket s' i). block_ok ?cr ?k b \<and> (\<not> is_dummy b \<longrightarrow> i \<in> set (path_up ?lv (sint (leaf b))))"
    proof (intro allI ballI)
      fix i b assume b: "b \<in> set (bucket s' i)"
      show "block_ok ?cr ?k b \<and> (\<not> is_dummy b \<longrightarrow> i \<in> set (path_up ?lv (sint (leaf b))))"
      proof (cases "map_of path' i")
        case None
        then show ?thesis using b w(4) s(4) by simp
      next
        case (Some bs')
        then have bs': "b \<in> set bs'" using b w(4) by simp
        obtain bs where bs: "map_of path i = Some bs" "map (dec_block ?cr ?k) bs' = bs"
          using en(3) [rule_format, of i, symmetric] Some by auto
        have db: "dec_block ?cr ?k b \<in> set bs" using bs(2) bs' by auto
        obtain bs0 where bs0: "map_of (empty_path ?idx) i = Some bs0"
          "\<forall>b\<in>set bs. b \<in> set bs0 \<or> i \<in> set (climb (2 ^ (?lv - 1) - 1 + sint (leaf b)))"
          using D bs(1) by blast
        then have "bs0 = []" by (auto simp: empty_path_def dest!: map_of_SomeD)
        then have cl: "i \<in> set (climb (2 ^ (?lv - 1) - 1 + sint (leaf b)))" using bs0(2) db by fastforce
        have "valid_leaf ?lv (sint (leaf b))" if "\<not> is_dummy b"
        proof -
          have "dec_block ?cr ?k b \<in> set (concat (map snd path))"
            using db bs(1) by (force dest: map_of_SomeD)
          then have "dec_block ?cr ?k b \<in> set (po_stash p)"
            using D by (metis append_Nil mset_append mset_eq_setD set_append UnI1 mset.simps(1) add_0)
          then have "dec_block ?cr ?k b \<in> set (live (po_effective ?cr bucket ops ?P s p))"
            using that by (simp add: po_effective_def is_dummy_def)
          from s(5) [rule_format, OF this] show ?thesis by simp
        qed
        then show ?thesis using cl climb_leaf [OF l1] en(4) Some bs' by auto
      qed
    qed
    have state: "po_state ?cr inv bucket ops {} p' m"
    proof (rule po_stateI [where ok = inv and s = s', OF _ _ w(2) _ _ eff])
      show "po_storage p' = Some s'" "0 \<le> po_stash_max_size p'" "length (po_aes_key p') = AES_KEY_LEN"
        using s(3) max0 by (simp_all add: p'_def)
      show "\<forall>i. \<forall>b\<in>set (bucket s' i). block_ok ?cr (po_aes_key p') b
         \<and> (\<not> is_dummy b \<longrightarrow> i \<in> set (path_up (so_level ops s') (sint (leaf b))))"
        using blocks unfolding w(3) by (simp add: p'_def)
      show "\<forall>b\<in>set (live (po_effective ?cr bucket ops ?P s p)). valid_leaf (so_level ops s') (sint (leaf b))"
        using s(5) unfolding w(3) .
    qed (fact s(6,7) max0(2))+
    have fr: "po_frame ops p p'"
      using s(1,2) w(2,3) shape_law [OF s(2)] shape_law [OF w(2)]
      by (simp add: po_frame_def p'_def po_level_def po_leaf_range_def)
    have sub: "set rest \<subseteq> set (po_stash p)"
      using D by (metis mset_subset_eq_add_right set_mset_mono set_mset_mset add_0 mset.simps(1))
    show ?thesis using run state fr sub by (simp add: p'_def)
  qed
qed

end

end
