(* ===== verification/Path_Oram_Access.thy ===== *)
theory Path_Oram_Access
  imports Path_Oram_Correct
begin

text \<open>
  The operations of the Path ORAM client on the map it stores: blocks are taken out of the stash, put
  in, or changed there, and an access is a read, a change and a write back. \<open>po_rep\<close> is the state
  between two operations: the position map knows the leaf of every stored block.
\<close>

definition po_rep ::
  "crypto \<Rightarrow> ('s \<Rightarrow> bool) \<Rightarrow> ('s \<Rightarrow> int \<Rightarrow> block list) \<Rightarrow> 's storage_ops \<Rightarrow> 's path_oram \<Rightarrow> (i32 \<rightharpoonup> bytes) \<Rightarrow> bool" where
  "po_rep cr ok bucket ops p vm \<longleftrightarrow>
     (\<exists>m. po_state cr ok bucket ops {} p m \<and> vm = map_option snd \<circ> m
        \<and> (\<forall>k lf v. m k = Some (lf, v) \<longrightarrow> po_pos_map p k = Some lf))"

lemma po_effective_updates [simp]:
  "po_effective cr bucket ops P s (p\<lparr>po_pos_map := x\<rparr>) = po_effective cr bucket ops P s p"
  "po_effective cr bucket ops P s (p\<lparr>po_last_bw := bw\<rparr>) = po_effective cr bucket ops P s p"
  "po_effective cr bucket ops P s (p\<lparr>po_total_bw := bw\<rparr>) = po_effective cr bucket ops P s p"
  "po_effective cr bucket ops P s (p\<lparr>po_block_size_bytes := n\<rparr>) = po_effective cr bucket ops P s p"
  by (simp_all add: po_effective_def)

lemma po_state_updates [simp]:
  "po_state cr ok bucket ops P (p\<lparr>po_pos_map := x\<rparr>) m = po_state cr ok bucket ops P p m"
  "po_state cr ok bucket ops P (p\<lparr>po_last_bw := bw\<rparr>) m = po_state cr ok bucket ops P p m"
  "po_state cr ok bucket ops P (p\<lparr>po_total_bw := bw\<rparr>) m = po_state cr ok bucket ops P p m"
  "po_state cr ok bucket ops P (p\<lparr>po_block_size_bytes := n\<rparr>) m = po_state cr ok bucket ops P p m"
  by (simp_all add: po_state_def)

lemma po_level_updates [simp]:
  "po_level ops (p\<lparr>po_pos_map := x\<rparr>) = po_level ops p"
  "po_level ops (p\<lparr>po_last_bw := bw\<rparr>) = po_level ops p"
  "po_level ops (p\<lparr>po_stash := st\<rparr>) = po_level ops p"
  "po_leaf_range ops (p\<lparr>po_pos_map := x\<rparr>) = po_leaf_range ops p"
  "po_leaf_range ops (p\<lparr>po_last_bw := bw\<rparr>) = po_leaf_range ops p"
  "po_leaf_range ops (p\<lparr>po_stash := st\<rparr>) = po_leaf_range ops p"
  by (simp_all add: po_level_def po_leaf_range_def split: option.split)

lemma po_state_count [simp]:
  "po_state cr ok bucket ops P (count_access ops p) m = po_state cr ok bucket ops P p m"
  "po_pos_map (count_access ops p) = po_pos_map p"
  by (simp_all add: count_access_def Let_def)

lemma find_in_stash_Some:
  "find_in_stash k st = Some i \<Longrightarrow> i < length st \<and> key (st ! i) = k"
  by (induction st arbitrary: i) (auto split: if_splits)

lemma find_in_stash_None: "find_in_stash k st = None \<longleftrightarrow> (\<forall>b\<in>set st. key b \<noteq> k)"
  by (induction st) auto

section \<open>Changes of the stash\<close>

text \<open>The live blocks of the new stash are those of the old one with one group replaced by another.\<close>

lemma po_state_stash:
  assumes st: "po_state cr ok bucket ops P p m"
    and eff: "\<And>tree. mset (live (po_stash p @ tree)) = mset (live (ys @ tree))
      \<Longrightarrow> keys_distinct (ys @ tree) \<Longrightarrow> block_map (ys @ tree) = m \<Longrightarrow>
      keys_distinct (zs @ tree) \<and> block_map (zs @ tree) = m'"
    and same: "mset (live (po_stash p)) = mset (live ys)"
    and leaves: "\<forall>b\<in>set (live zs). b \<in> set ys \<or> valid_leaf (po_level ops p) (sint (leaf b))"
    and fits: "fits_map m'"
  shows "po_state cr ok bucket ops P (p\<lparr>po_stash := zs\<rparr>) m'"
proof -
  obtain s where s: "po_storage p = Some s" "ok s" "length (po_aes_key p) = AES_KEY_LEN"
    "\<forall>i. \<forall>b\<in>set (bucket s i). block_ok cr (po_aes_key p) b
       \<and> (\<not> is_dummy b \<longrightarrow> i \<in> set (path_up (so_level ops s) (sint (leaf b))))"
    "\<forall>b\<in>set (live (po_effective cr bucket ops P s p)). valid_leaf (so_level ops s) (sint (leaf b))"
    "keys_distinct (po_effective cr bucket ops P s p)" "block_map (po_effective cr bucket ops P s p) = m"
    using st unfolding po_state_def by blast
  have lev: "po_level ops p = so_level ops s" using s(1) by (simp add: po_level_def)
  define tree where "tree = all_blocks (so_level ops s) (cut P (\<lambda>i. map (dec_block cr (po_aes_key p)) (bucket s i)))"
  have e: "po_effective cr bucket ops P s p = po_stash p @ tree" by (simp add: po_effective_def tree_def)
  have m1: "mset (live (po_stash p @ tree)) = mset (live (ys @ tree))" using same by simp
  have d1: "keys_distinct (ys @ tree)" using keys_distinct_mset [OF m1] s(6) by (simp add: e)
  have b1: "block_map (ys @ tree) = m" using block_map_mset [OF m1] s(6,7) by (simp add: e)
  note z = eff [OF m1 d1 b1]
  have "valid_leaf (so_level ops s) (sint (leaf b))" if "b \<in> set (live (zs @ tree))" for b
  proof -
    have "b \<in> set (live zs) \<or> b \<in> set (live tree)" using that by simp
    then consider "b \<in> set ys" "key b \<noteq> INVALID_KEY" | "valid_leaf (so_level ops s) (sint (leaf b))" | "b \<in> set (live tree)"
      using leaves lev by auto
    then show ?thesis
    proof cases
      case 1
      then have "b \<in> set (live ys)" by simp
      then have "b \<in> set (live (po_stash p))" using same by (metis set_mset_mset)
      then show ?thesis using s(5) by (simp add: e)
    qed (use s(5) in \<open>auto simp: e\<close>)
  qed
  moreover have "po_effective cr bucket ops P s (p\<lparr>po_stash := zs\<rparr>) = zs @ tree"
    by (simp add: po_effective_def tree_def)
  moreover have "0 \<le> po_stash_max_size p" using st by (simp add: po_state_def)
  ultimately show ?thesis using s(1-4) z fits unfolding po_state_def by simp
qed

lemma fits_map_upd:
  "fits_map m \<Longrightarrow> fits_map (m(k := None))" "fits_map m \<Longrightarrow> fits_cipher v \<Longrightarrow> fits_map (m(k \<mapsto> (lf, v)))"
  by (auto simp: fits_map_def)

lemma po_state_remove:
  assumes st: "po_state cr ok bucket ops P p m" and split: "po_stash p = xs @ b # ys" "key b \<noteq> INVALID_KEY"
  shows "po_state cr ok bucket ops P (p\<lparr>po_stash := xs @ ys\<rparr>) (m(key b := None))"
    "m (key b) = Some (leaf b, val b)"
proof -
  have fits: "fits_map m" using st by (simp add: po_state_def)
  show "po_state cr ok bucket ops P (p\<lparr>po_stash := xs @ ys\<rparr>) (m(key b := None))"
  proof (rule po_state_stash [OF st, of "xs @ b # ys"])
    fix tree assume "keys_distinct ((xs @ b # ys) @ tree)" "block_map ((xs @ b # ys) @ tree) = m"
    then have d: "keys_distinct (xs @ b # ys @ tree)" "m = block_map (xs @ b # ys @ tree)" by simp_all
    show "keys_distinct ((xs @ ys) @ tree) \<and> block_map ((xs @ ys) @ tree) = m(key b := None)"
      unfolding d(2) block_map_mid [OF d(1) split(2)] using keys_distinct_split [OF d(1) split(2)]
      by (simp add: fun_upd_delete del: fun_upd_upd)
  qed (use split fits_map_upd in \<open>auto simp: fits_map_upd [OF fits]\<close>)
  obtain s where "keys_distinct (po_effective cr bucket ops P s p)" "block_map (po_effective cr bucket ops P s p) = m"
    using st unfolding po_state_def by blast
  moreover have "b \<in> set (po_effective cr bucket ops P s p)" using split by (simp add: po_effective_def)
  ultimately show "m (key b) = Some (leaf b, val b)" using split(2) block_map_Some_iff by blast
qed

lemma po_state_add:
  assumes st: "po_state cr ok bucket ops P p m" and b: "key b \<noteq> INVALID_KEY" "m (key b) = None"
    "valid_leaf (po_level ops p) (sint (leaf b))" "fits_cipher (val b)"
    and zs: "mset (live zs) = mset (live (b # po_stash p))"
  shows "po_state cr ok bucket ops P (p\<lparr>po_stash := zs\<rparr>) (m(key b \<mapsto> (leaf b, val b)))"
proof (rule po_state_stash [OF st, of "po_stash p"])
  fix tree assume t: "keys_distinct (po_stash p @ tree)" "block_map (po_stash p @ tree) = m"
  have z: "mset (live (zs @ tree)) = mset (live (b # po_stash p @ tree))" using zs by simp
  have d: "keys_distinct (b # po_stash p @ tree)"
    using t b by (auto simp: keys_distinct_Cons)
  then have "keys_distinct (zs @ tree)" using keys_distinct_mset [OF z] by simp
  with block_map_mset [OF z] t b(1)
  show "keys_distinct (zs @ tree) \<and> block_map (zs @ tree) = m(key b \<mapsto> (leaf b, val b))"
    by (simp add: block_map_Cons)
next
  have "set (live zs) = set (live (b # po_stash p))" using zs by (metis set_mset_mset)
  then show "\<forall>c\<in>set (live zs). c \<in> set (po_stash p) \<or> valid_leaf (po_level ops p) (sint (leaf c))"
    using b(3) by auto
next
  show "fits_map (m(key b \<mapsto> (leaf b, val b)))" using st b(4) by (simp add: po_state_def fits_map_upd)
qed simp

lemma po_add_state:
  assumes "po_state cr ok bucket ops P p m" "key b \<noteq> INVALID_KEY" "m (key b) = None"
    "valid_leaf (po_level ops p) (sint (leaf b))" "fits_cipher (val b)"
  shows "po_state cr ok bucket ops P (po_add_to_stash b p) (m(key b \<mapsto> (leaf b, val b)))"
  unfolding po_add_to_stash_def by (rule po_state_add [OF assms]) simp

text \<open>Extraction finds the block, and the map forgets the key.\<close>

lemma po_extract_state:
  assumes st: "po_state cr ok bucket ops P p m" and k: "m k = Some (lf, v)"
    and here: "\<lparr>key = k, leaf = lf, val = v\<rparr> \<in> set (po_stash p)"
  shows "\<exists>i. find_in_stash k (po_stash p) = Some i \<and> po_stash p ! i = \<lparr>key = k, leaf = lf, val = v\<rparr>
    \<and> i < length (po_stash p)"
    "\<exists>p'. po_extract_from_stash ops k p = Inr (\<lparr>key = k, leaf = lf, val = v\<rparr>, p')
      \<and> po_frame ops p p' \<and> po_state cr ok bucket ops P p' (m(k := None))"
proof -
  let ?b = "\<lparr>key = k, leaf = lf, val = v\<rparr>"
  obtain i where i: "find_in_stash k (po_stash p) = Some i"
    using here find_in_stash_None [of k "po_stash p"] by (cases "find_in_stash k (po_stash p)") force+
  note f = find_in_stash_Some [OF i]
  have split: "po_stash p = take i (po_stash p) @ po_stash p ! i # drop (Suc i) (po_stash p)"
    using f id_take_nth_drop by blast
  have kn: "k \<noteq> INVALID_KEY" using k st unfolding po_state_def by (metis block_map_INVALID option.distinct(1))
  then have kf: "key (po_stash p ! i) \<noteq> INVALID_KEY" using f by simp
  note r = po_state_remove [OF st split kf]
  have b: "po_stash p ! i = ?b" using r(2) f k by (cases "po_stash p ! i") auto
  show "\<exists>i. find_in_stash k (po_stash p) = Some i \<and> po_stash p ! i = ?b \<and> i < length (po_stash p)"
    using i f b by simp
  show "\<exists>p'. po_extract_from_stash ops k p = Inr (?b, p')
      \<and> po_frame ops p p' \<and> po_state cr ok bucket ops P p' (m(k := None))"
    using i r(1) f by (simp add: po_extract_from_stash_def b po_frame_def)
qed

text \<open>Changing a block in place is removing it and putting it back.\<close>

lemma po_replace_state:
  assumes st: "po_state cr ok bucket ops P p m"
    and i: "i < length (po_stash p)" "po_stash p ! i = \<lparr>key = k, leaf = lf, val = v\<rparr>" "k \<noteq> INVALID_KEY"
    and lf': "valid_leaf (po_level ops p) (sint lf')" "fits_cipher v'"
  shows "po_state cr ok bucket ops P (p\<lparr>po_stash := (po_stash p)[i := \<lparr>key = k, leaf = lf', val = v'\<rparr>]\<rparr>)
    (m(k \<mapsto> (lf', v')))"
proof -
  let ?xs = "take i (po_stash p)" and ?ys = "drop (Suc i) (po_stash p)"
  have split: "po_stash p = ?xs @ \<lparr>key = k, leaf = lf, val = v\<rparr> # ?ys"
    using i(1) id_take_nth_drop [of i "po_stash p"] by (simp add: i(2))
  have r: "po_state cr ok bucket ops P (p\<lparr>po_stash := ?xs @ ?ys\<rparr>) (m(k := None))"
    using po_state_remove(1) [OF st split] i(3) by simp
  have "po_state cr ok bucket ops P (p\<lparr>po_stash := ?xs @ ?ys, po_stash := ?xs @ \<lparr>key = k, leaf = lf', val = v'\<rparr> # ?ys\<rparr>)
    ((m(k := None))(k \<mapsto> (lf', v')))"
    using po_state_add [OF r, of "\<lparr>key = k, leaf = lf', val = v'\<rparr>"] i(3) lf' by simp
  then show ?thesis using i(1) by (simp add: upd_conv_take_nth_drop)
qed

section \<open>Access\<close>

context bucket_storage
begin

lemma random_leaf_valid:
  assumes "po_state cr inv bucket ops P p m"
  obtains lf r' where "po_random_leaf ops p r = Inr (lf, r')" "valid_leaf (po_level ops p) (sint lf)"
proof -
  obtain s where s: "po_storage p = Some s" "inv s" using assms unfolding po_state_def by blast
  note sh = shape_law [OF s(2)]
  obtain x r' where x: "rand_below (so_leaf_range ops s) r = (x, r')" by fastforce
  have pos: "(0 :: int) < 2 ^ (so_level ops s - 1)" by simp
  have "0 \<le> x \<and> x < 2 ^ (so_level ops s - 1)"
    using rand_below_range [OF pos, of r] x sh by simp
  moreover have "(2 :: int) ^ (so_level ops s - 1) \<le> 2 ^ 30"
    using sh by (intro power_increasing) auto
  ultimately have "sint (word_of_int x :: i32) = x" "0 \<le> x \<and> x < 2 ^ (so_level ops s - 1)"
    by (simp_all add: sint_sbintrunc' signed_take_bit_int_eq_self)
  then show ?thesis
    by (intro that [of "word_of_int x" r'])
      (simp_all add: po_random_leaf_def with_storage_def s(1) x valid_leaf_def po_level_def)
qed

text \<open>Reading a path, working on the stash and writing the path back.\<close>

lemma po_round_trip:
  assumes E: "good_env E" and st: "po_state (oe_crypto E) inv bucket ops {} p m"
    and lf: "valid_leaf (po_level ops p) (sint lf)"
    and work: "\<And>p1. po_frame ops p p1 \<Longrightarrow>
      po_state (oe_crypto E) inv bucket ops (set (path_up (po_level ops p) (sint lf))) p1 m \<Longrightarrow>
      (\<forall>k v. m k = Some (lf, v) \<longrightarrow> \<lparr>key = k, leaf = lf, val = v\<rparr> \<in> set (po_stash p1)) \<Longrightarrow>
      \<exists>p2. f p1 = evict_and_write_path E ops lf p2 r \<and> po_frame ops p1 p2
        \<and> po_state (oe_crypto E) inv bucket ops (set (path_up (po_level ops p) (sint lf))) p2 m'"
  shows "safe_run (bind_result (po_read_path_to_stash E ops lf p) f) (\<lambda>(p', r').
    po_frame ops p p' \<and> po_state (oe_crypto E) inv bucket ops {} p' m')"
proof -
  obtain p1 where p1: "po_read_path_to_stash E ops lf p = Inr p1" "po_frame ops p p1"
    "po_state (oe_crypto E) inv bucket ops (set (path_up (po_level ops p) (sint lf))) p1 m"
    "\<forall>k v. m k = Some (lf, v) \<longrightarrow> \<lparr>key = k, leaf = lf, val = v\<rparr> \<in> set (po_stash p1)"
    using read_path_state [OF E st lf] by blast
  obtain p2 where p2: "f p1 = evict_and_write_path E ops lf p2 r" "po_frame ops p1 p2"
    "po_state (oe_crypto E) inv bucket ops (set (path_up (po_level ops p) (sint lf))) p2 m'"
    using work [OF p1(2-4)] by blast
  have fr: "po_frame ops p p2" by (rule po_frame_trans [OF p1(2) p2(2)])
  then have lv: "po_level ops p2 = po_level ops p" by (simp add: po_frame_def)
  have "safe_run (evict_stash E ops [lf] p2 r) (\<lambda>(p', r'). po_frame ops p2 p'
      \<and> po_state (oe_crypto E) inv bucket ops {} p' m' \<and> set (po_stash p') \<subseteq> set (po_stash p2))"
    by (rule evict_state [OF E]) (use lf p2(3) lv in auto)
  then show ?thesis
    unfolding p1(1) bind_result_simps p2(1) evict_and_write_path_def
    by (rule safe_run_mono) (use fr po_frame_trans in blast)
qed

lemma po_dummy_access_state:
  assumes E: "good_env E" and st: "po_state (oe_crypto E) inv bucket ops {} p m"
  shows "safe_run (po_dummy_access E ops p r) (\<lambda>(p', r'). po_pos_map p' = po_pos_map p
    \<and> po_state (oe_crypto E) inv bucket ops {} p' m)"
proof -
  obtain lf r1 where lf: "po_random_leaf ops p r = Inr (lf, r1)" "valid_leaf (po_level ops p) (sint lf)"
    by (rule random_leaf_valid [OF st])
  have "safe_run (bind_result (po_read_path_to_stash E ops lf p) (\<lambda>p1. evict_and_write_path E ops lf p1 r1))
    (\<lambda>(p', r'). po_frame ops p p' \<and> po_state (oe_crypto E) inv bucket ops {} p' m)"
    by (rule po_round_trip [OF E st lf(2), where r = r1]) (use po_frame_refl in blast)
  then show ?thesis
    unfolding po_dummy_access_def lf(1)
    by (cases "po_read_path_to_stash E ops lf p")
      (auto simp: po_frame_def intro!: safe_run_bind)
qed

lemma po_access_state:
  assumes E: "good_env E" and st: "po_state (oe_crypto E) inv bucket ops {} p m"
    and k: "m k = Some (lf, v)" "po_pos_map p k = Some lf" and nv: "\<forall>w. nv = Some w \<longrightarrow> fits_cipher w"
  shows "safe_run (po_access E ops k nv p r) (\<lambda>(res, p', r'). res = v
    \<and> (\<exists>lf'. po_pos_map p' = (po_pos_map p)(k \<mapsto> lf')
        \<and> po_state (oe_crypto E) inv bucket ops {} p' (m(k \<mapsto> (lf', case nv of None \<Rightarrow> v | Some w \<Rightarrow> w)))))"
proof -
  let ?w = "case nv of None \<Rightarrow> v | Some w \<Rightarrow> w"
  let ?q = "p\<lparr>po_last_bw := zero_bandwidth\<rparr>"
  have fit: "fits_cipher ?w" using st k(1) nv by (auto simp: po_state_def fits_map_def split: option.split)
  obtain lf' r1 where lf': "po_random_leaf ops ?q r = Inr (lf', r1)" "valid_leaf (po_level ops ?q) (sint lf')"
    by (rule random_leaf_valid [of "oe_crypto E" "{}" ?q m]) (use st in simp)
  let ?p = "po_set_leaf k lf' ?q"
  have stp: "po_state (oe_crypto E) inv bucket ops {} ?p m" using st by (simp add: po_set_leaf_def)
  have lv: "po_level ops ?p = po_level ops p" by (simp add: po_set_leaf_def)
  have kn: "k \<noteq> INVALID_KEY" using k st unfolding po_state_def by (metis block_map_INVALID option.distinct(1))
  have vl: "valid_leaf (po_level ops p) (sint lf)"
  proof -
    obtain s where s: "po_storage p = Some s"
      "\<forall>b\<in>set (live (po_effective (oe_crypto E) bucket ops {} s p)). valid_leaf (so_level ops s) (sint (leaf b))"
      "keys_distinct (po_effective (oe_crypto E) bucket ops {} s p)" "block_map (po_effective (oe_crypto E) bucket ops {} s p) = m"
      using st unfolding po_state_def by blast
    then show ?thesis using k(1) block_map_Some_iff [OF s(3)] by (auto simp: po_level_def)
  qed
  let ?tail = "\<lambda>p1. case find_in_stash k (po_stash p1) of None \<Rightarrow> Inl (KeyNotFound k)
    | Some i \<Rightarrow> evict_and_write_path E ops lf (p1\<lparr>po_stash := (po_stash p1)[i := \<lparr>key = k, leaf = lf', val = ?w\<rparr>]\<rparr>) r1"
  have "safe_run (bind_result (po_read_path_to_stash E ops lf ?p) ?tail)
    (\<lambda>(p', r'). po_frame ops ?p p' \<and> po_state (oe_crypto E) inv bucket ops {} p' (m(k \<mapsto> (lf', ?w))))"
  proof (rule po_round_trip [OF E stp _, where r = r1], unfold lv)
    fix p1 assume fr: "po_frame ops ?p p1"
      and p1: "po_state (oe_crypto E) inv bucket ops (set (path_up (po_level ops p) (sint lf))) p1 m"
        "\<forall>k v. m k = Some (lf, v) \<longrightarrow> \<lparr>key = k, leaf = lf, val = v\<rparr> \<in> set (po_stash p1)"
    have l1: "po_level ops p1 = po_level ops p" using fr lv by (simp add: po_frame_def)
    obtain i where i: "find_in_stash k (po_stash p1) = Some i" "po_stash p1 ! i = \<lparr>key = k, leaf = lf, val = v\<rparr>"
      "i < length (po_stash p1)"
      using po_extract_state(1) [OF p1(1) k(1)] p1(2) k(1) by blast
    have "po_state (oe_crypto E) inv bucket ops (set (path_up (po_level ops p) (sint lf)))
      (p1\<lparr>po_stash := (po_stash p1)[i := \<lparr>key = k, leaf = lf', val = ?w\<rparr>]\<rparr>) (m(k \<mapsto> (lf', ?w)))"
      by (rule po_replace_state [OF p1(1) i(3,2) kn _ fit]) (use lf'(2) l1 in simp)
    then show "\<exists>p2. ?tail p1 = evict_and_write_path E ops lf p2 r1 \<and> po_frame ops p1 p2
        \<and> po_state (oe_crypto E) inv bucket ops (set (path_up (po_level ops p) (sint lf))) p2 (m(k \<mapsto> (lf', ?w)))"
      using i(1) by (auto simp: po_frame_def)
  qed (fact vl)
  moreover obtain p1 where p1: "po_read_path_to_stash E ops lf ?p = Inr p1"
    "po_state (oe_crypto E) inv bucket ops (set (path_up (po_level ops ?p) (sint lf))) p1 m"
    "\<forall>k v. m k = Some (lf, v) \<longrightarrow> \<lparr>key = k, leaf = lf, val = v\<rparr> \<in> set (po_stash p1)"
    using read_path_state [OF E stp] vl unfolding lv by blast
  moreover obtain i where i: "find_in_stash k (po_stash p1) = Some i" "po_stash p1 ! i = \<lparr>key = k, leaf = lf, val = v\<rparr>"
    using po_extract_state(1) [OF p1(2) k(1)] p1(3) k(1) by blast
  ultimately have "safe_run (evict_and_write_path E ops lf (p1\<lparr>po_stash := (po_stash p1)[i := \<lparr>key = k, leaf = lf', val = ?w\<rparr>]\<rparr>) r1)
    (\<lambda>(p', r'). po_frame ops ?p p' \<and> po_state (oe_crypto E) inv bucket ops {} p' (m(k \<mapsto> (lf', ?w))))"
    by simp
  then have "safe_run (bind_result (evict_and_write_path E ops lf (p1\<lparr>po_stash := (po_stash p1)[i := \<lparr>key = k, leaf = lf', val = ?w\<rparr>]\<rparr>) r1)
      (\<lambda>(p2, r2). Inr (v, count_access ops p2, r2)))
    (\<lambda>(res, p', r'). res = v \<and> (\<exists>lf'. po_pos_map p' = (po_pos_map p)(k \<mapsto> lf')
        \<and> po_state (oe_crypto E) inv bucket ops {} p' (m(k \<mapsto> (lf', ?w)))))"
    by (rule safe_run_bind) (auto simp: po_frame_def po_set_leaf_def)
  moreover have "po_pos_map ?q k = Some lf" using k(2) by simp
  ultimately show ?thesis
    unfolding po_access_def Let_def by (cases nv) (simp_all add: k(2) lf'(1) p1(1) i)
qed

text \<open>Access on the map of values.\<close>

lemma po_access_rep:
  assumes E: "good_env E" and rep: "po_rep (oe_crypto E) inv bucket ops p vm" and k: "vm k = Some v"
    and nv: "\<forall>w. nv = Some w \<longrightarrow> fits_cipher w"
  shows "safe_run (po_access E ops k nv p r) (\<lambda>(res, p', r'). res = v
    \<and> po_rep (oe_crypto E) inv bucket ops p' (vm(k \<mapsto> (case nv of None \<Rightarrow> v | Some w \<Rightarrow> w))))"
proof -
  obtain m where m: "po_state (oe_crypto E) inv bucket ops {} p m" "vm = map_option snd \<circ> m"
    "\<forall>k lf v. m k = Some (lf, v) \<longrightarrow> po_pos_map p k = Some lf"
    using rep unfolding po_rep_def by blast
  obtain lf where lf: "m k = Some (lf, v)" using k m(2) by auto
  have pm: "po_pos_map p k = Some lf" using m(3) lf by blast
  show ?thesis
  proof (rule safe_run_mono [OF po_access_state [OF E m(1) lf pm nv]], clarify)
    fix res p' r' lf'
    assume "po_pos_map p' = (po_pos_map p)(k \<mapsto> lf')"
      "po_state (oe_crypto E) inv bucket ops {} p' (m(k \<mapsto> (lf', case nv of None \<Rightarrow> v | Some w \<Rightarrow> w)))"
    then show "v = v \<and> po_rep (oe_crypto E) inv bucket ops p' (vm(k \<mapsto> (case nv of None \<Rightarrow> v | Some w \<Rightarrow> w)))"
      using m(2,3) unfolding po_rep_def
      by (intro conjI exI [of _ "m(k \<mapsto> (lf', case nv of None \<Rightarrow> v | Some w \<Rightarrow> w))"])
        (auto simp: fun_eq_iff)
  qed
qed

lemma po_dummy_rep:
  assumes E: "good_env E" and rep: "po_rep (oe_crypto E) inv bucket ops p vm"
  shows "safe_run (po_dummy_access E ops p r) (\<lambda>(p', r'). po_rep (oe_crypto E) inv bucket ops p' vm)"
proof -
  obtain m where m: "po_state (oe_crypto E) inv bucket ops {} p m" "vm = map_option snd \<circ> m"
    "\<forall>k lf v. m k = Some (lf, v) \<longrightarrow> po_pos_map p k = Some lf"
    using rep unfolding po_rep_def by blast
  show ?thesis
    by (rule safe_run_mono [OF po_dummy_access_state [OF E m(1)]]) (use m(2,3) in \<open>auto simp: po_rep_def\<close>)
qed

end

end
