(* ===== verification/Path_Oram_Load.thy ===== *)
theory Path_Oram_Load
  imports Path_Oram_Access
begin

text \<open>
  The initial load of the Path ORAM client: every key gets a position, the blocks are encrypted and
  loaded into the tree, and those that found no bucket stay, in the clear, in the stash.
\<close>

lemma assign_positions_spec:
  assumes "assign_positions (2 ^ n) data pm r = (pm', r')" "n \<le> 30"
    and "\<forall>k\<in>fst ` set data. \<forall>lf. pm k = Some lf \<longrightarrow> valid_leaf (Suc n) (sint lf)"
  shows "(\<forall>k\<in>fst ` set data. \<exists>lf. pm' k = Some lf \<and> valid_leaf (Suc n) (sint lf))
    \<and> (\<forall>k lf. pm k = Some lf \<longrightarrow> pm' k = Some lf)"
  using assms
proof (induction data arbitrary: pm r)
  case (Cons d data)
  obtain k v where d: "d = (k, v)" by (cases d)
  show ?case
  proof (cases "pm k")
    case (Some lf)
    then have "assign_positions (2 ^ n) data pm r = (pm', r')" using Cons.prems(1) by (simp add: d)
    from Cons.IH [OF this Cons.prems(2)] Cons.prems(3) Some show ?thesis by (auto simp: d)
  next
    case None
    obtain x r1 where x: "rand_below (2 ^ n) r = (x, r1)" by fastforce
    have "0 \<le> x \<and> x < 2 ^ n" using rand_below_range [of "2 ^ n" r] x by simp
    moreover have "(2 :: int) ^ n \<le> 2 ^ 30" using Cons.prems(2) by (intro power_increasing) auto
    ultimately have v: "valid_leaf (Suc n) (sint (word_of_int x :: i32))"
      by (simp add: valid_leaf_def sint_sbintrunc' signed_take_bit_int_eq_self)
    have run: "assign_positions (2 ^ n) data (pm(k \<mapsto> word_of_int x)) r1 = (pm', r')"
      using Cons.prems(1) None x by (simp add: d)
    have pre: "\<forall>k'\<in>fst ` set data. \<forall>lf. (pm(k \<mapsto> word_of_int x)) k' = Some lf \<longrightarrow> valid_leaf (Suc n) (sint lf)"
      using Cons.prems(3) v by auto
    note ih = Cons.IH [OF run Cons.prems(2) pre]
    then have "pm' k = Some (word_of_int x)" by simp
    moreover have "pm' k' = Some lf" if "pm k' = Some lf" for k' lf
      using ih that None by (cases "k' = k") auto
    ultimately show ?thesis using ih v by (auto simp: d)
  qed
qed simp

lemma encrypt_data_good:
  assumes good: "good_crypto cr" "length ak = AES_KEY_LEN"
    and "\<forall>(k, v)\<in>set data. k \<noteq> INVALID_KEY \<and> pm k \<noteq> None \<and> fits_cipher v"
  shows "\<exists>bs r'. encrypt_data cr ak pm data r = Inr (bs, r')
    \<and> map (dec_block cr ak) bs = map (\<lambda>(k, v). \<lparr>key = k, leaf = the (pm k), val = v\<rparr>) data
    \<and> (\<forall>b\<in>set bs. block_ok cr ak b)"
  using assms(3)
proof (induction data arbitrary: r)
  case (Cons d data)
  obtain k v where d: "d = (k, v)" by (cases d)
  then obtain lf where lf: "k \<noteq> INVALID_KEY" "pm k = Some lf" "fits_cipher v" using Cons.prems by auto
  have "\<exists>ct r1. (if v = [] then Inr (v, r) else aes_encrypt cr ak v r) = Inr (ct, r1)
      \<and> dec_block cr ak \<lparr>key = k, leaf = lf, val = ct\<rparr> = \<lparr>key = k, leaf = lf, val = v\<rparr>
      \<and> block_ok cr ak \<lparr>key = k, leaf = lf, val = ct\<rparr>"
  proof (cases "v = []")
    case True
    then show ?thesis by (simp add: dec_block_def block_ok_def)
  next
    case False
    obtain ct r1 where "aes_encrypt cr ak v r = Inr (ct, r1)" "aes_decrypt cr ak ct = Inr v"
      "length ct = AES_IV_LEN + length v"
      by (rule aes_encrypt_good [OF good lf(3)])
    then show ?thesis using False lf(1) by (auto simp: dec_block_def block_ok_def is_dummy_def)
  qed
  then obtain ct r1 where ct: "(if v = [] then Inr (v, r) else aes_encrypt cr ak v r) = Inr (ct, r1)"
    "dec_block cr ak \<lparr>key = k, leaf = lf, val = ct\<rparr> = \<lparr>key = k, leaf = lf, val = v\<rparr>"
    "block_ok cr ak \<lparr>key = k, leaf = lf, val = ct\<rparr>"
    by blast
  obtain bs r2 where "encrypt_data cr ak pm data r1 = Inr (bs, r2)"
    "map (dec_block cr ak) bs = map (\<lambda>(k, v). \<lparr>key = k, leaf = the (pm k), val = v\<rparr>) data"
    "\<forall>b\<in>set bs. block_ok cr ak b"
    using Cons.IH [of r1] Cons.prems by auto
  then show ?case using ct lf(2) by (simp add: d del: if_split)
qed simp

text \<open>The blocks that are left over are those whose keys were not placed.\<close>

lemma leftover_blocks:
  assumes "mset placed + mset rest = mset bs" "distinct (map key bs)"
  shows "mset (filter (\<lambda>b. key b \<notin> key ` set placed) bs) = mset rest"
proof -
  have d: "distinct (map key (placed @ rest))"
    using assms by (metis mset_append mset_eq_imp_distinct_iff mset_map)
  have "mset (filter (\<lambda>b. key b \<notin> key ` set placed) bs)
      = mset (filter (\<lambda>b. key b \<notin> key ` set placed) placed) + mset (filter (\<lambda>b. key b \<notin> key ` set placed) rest)"
    unfolding mset_filter assms(1) [symmetric] by (rule filter_union_mset)
  also have "filter (\<lambda>b. key b \<notin> key ` set placed) placed = []" by (simp add: filter_empty_conv)
  also have "filter (\<lambda>b. key b \<notin> key ` set placed) rest = rest" using d by (auto simp: filter_id_conv)
  finally show ?thesis by simp
qed

lemma filter_map_data:
  "map (\<lambda>(k, v). \<lparr>key = k, leaf = g k, val = v\<rparr>) (filter (\<lambda>(k, v). k \<notin> A) data)
   = filter (\<lambda>b. key b \<notin> A) (map (\<lambda>(k, v). \<lparr>key = k, leaf = g k, val = v\<rparr>) data)"
  by (induction data) auto

lemma block_map_data:
  assumes "\<forall>k\<in>fst ` set data. k \<noteq> INVALID_KEY" "distinct (map fst data)"
  shows "keys_distinct (map (\<lambda>(k, v). \<lparr>key = k, leaf = g k, val = v\<rparr>) data)"
    "map_option snd (block_map (map (\<lambda>(k, v). \<lparr>key = k, leaf = g k, val = v\<rparr>) data) x) = map_of data x"
proof -
  have l: "live (map (\<lambda>(k, v). \<lparr>key = k, leaf = g k, val = v\<rparr>) data) = map (\<lambda>(k, v). \<lparr>key = k, leaf = g k, val = v\<rparr>) data"
    unfolding live_def by (rule filter_True) (use assms(1) in auto)
  show "keys_distinct (map (\<lambda>(k, v). \<lparr>key = k, leaf = g k, val = v\<rparr>) data)"
    unfolding keys_distinct_def l using assms(2) by (simp add: comp_def case_prod_beta')
  show "map_option snd (block_map (map (\<lambda>(k, v). \<lparr>key = k, leaf = g k, val = v\<rparr>) data) x) = map_of data x"
    unfolding block_map_def l by (induction data) (auto simp: comp_def)
qed

context bucket_storage
begin

lemma po_init_rep:
  assumes E: "good_env E" and s: "po_storage p = Some s" "inv s" "so_level ops s = ceil_log2 (po_num_data p) + 1"
    and p: "length (po_aes_key p) = AES_KEY_LEN" "0 \<le> po_stash_max_size p"
    and data: "distinct (map fst data)" "\<forall>k\<in>fst ` set data. k \<noteq> INVALID_KEY
      \<and> (\<forall>lf. po_pos_map p k = Some lf \<longrightarrow> valid_leaf (so_level ops s) (sint lf))"
      "\<forall>v\<in>snd ` set data. fits_cipher v"
  shows "\<exists>p' r'. po_init E ops data p r = Inr (p', r') \<and> po_rep (oe_crypto E) inv bucket ops p' (map_of data)
    \<and> (\<forall>k lf. po_pos_map p k = Some lf \<longrightarrow> po_pos_map p' k = Some lf)
    \<and> po_level ops p' = po_level ops p"
proof -
  let ?n = "ceil_log2 (po_num_data p)" and ?cr = "oe_crypto E" and ?k = "po_aes_key p"
  have n: "?n \<le> 30" "so_leaf_range ops s = 2 ^ ?n" using shape_law [OF s(2)] s(3) by auto
  obtain pm r1 where pm: "assign_positions (2 ^ ?n) data (po_pos_map p) r = (pm, r1)" by fastforce
  have lv: "so_level ops s = Suc ?n" using s(3) by simp
  have pmok: "\<forall>k\<in>fst ` set data. \<exists>lf. pm k = Some lf \<and> valid_leaf (Suc ?n) (sint lf)"
    "\<forall>k lf. po_pos_map p k = Some lf \<longrightarrow> pm k = Some lf"
    using assign_positions_spec [OF pm n(1)] data(2) unfolding lv by blast+
  obtain s1 where s1: "so_reset ops (po_num_data p) (po_bucket_size p) s = Inr s1" "inv s1" "so_level ops s1 = Suc ?n"
    "\<forall>i. bucket s1 i = []"
    using reset_law [OF s(2) n(1), of "po_bucket_size p"] by auto
  have pre: "\<forall>(k, v)\<in>set data. k \<noteq> INVALID_KEY \<and> pm k \<noteq> None \<and> fits_cipher v" using pmok(1) data(2,3) by fastforce
  have gc: "good_crypto ?cr" using E by (simp add: good_env_def)
  obtain bs r2 where bs: "encrypt_data ?cr ?k pm data r1 = Inr (bs, r2)"
    "map (dec_block ?cr ?k) bs = map (\<lambda>(k, v). \<lparr>key = k, leaf = the (pm k), val = v\<rparr>) data"
    "\<forall>b\<in>set bs. block_ok ?cr ?k b"
    using encrypt_data_good [OF gc p(1) pre] by blast
  let ?plain = "map (\<lambda>(k, v). \<lparr>key = k, leaf = the (pm k), val = v\<rparr>) data"
  have good: "key b \<noteq> INVALID_KEY \<and> valid_leaf (Suc ?n) (sint (leaf b))" if "b \<in> set ?plain" for b
    using that pmok(1) data(2) by fastforce
  have blocks: "\<forall>b\<in>set bs. key b \<noteq> INVALID_KEY \<and> valid_leaf (so_level ops s1) (sint (leaf b))"
  proof
    fix b assume "b \<in> set bs"
    then have "dec_block ?cr ?k b \<in> set ?plain" unfolding bs(2) [symmetric] set_map by (rule imageI)
    from good [OF this] show "key b \<noteq> INVALID_KEY \<and> valid_leaf (so_level ops s1) (sint (leaf b))"
      by (simp add: s1(3))
  qed
  obtain placed s2 rest where b: "so_bulk_load ops bs s1 = Inr (placed, s2)" "inv s2" "so_level ops s2 = Suc ?n"
    "\<forall>i. \<forall>b\<in>set (bucket s2 i). b \<in> set bs \<and> i \<in> set (path_up (Suc ?n) (sint (leaf b)))"
    "mset (all_blocks (Suc ?n) (bucket s2)) + mset rest = mset bs"
    "set placed = key ` set (all_blocks (Suc ?n) (bucket s2))"
    using bulk_law [OF s1(2,4) blocks] unfolding s1(3) by blast
  let ?st = "filter (\<lambda>b. key b \<notin> set placed) ?plain"
  let ?bsz = "foldl (\<lambda>m (k, v). if int (length v) > m then int (length v) else m) 0 data"
  define p' where "p' = p\<lparr>po_storage := Some s2, po_pos_map := pm, po_block_size_bytes := ?bsz, po_stash := ?st\<rparr>"
  have run: "po_init E ops data p r = Inr (p', r2)"
    unfolding po_init_def with_storage_def
    by (simp add: s(1) n(2) pm s1(1) bs(1) b(1) Let_def p'_def filter_map_data del: map_map)
  let ?D = "dec_block ?cr ?k"
  have plainsplit: "mset (map ?D (all_blocks (Suc ?n) (bucket s2))) + mset (map ?D rest) = mset ?plain"
    unfolding bs(2) [symmetric] mset_map b(5) [symmetric] by (rule image_mset_union [symmetric])
  have distinct_plain: "distinct (map key ?plain)" using data(1) by (simp add: comp_def case_prod_beta')
  have "set placed = key ` set (map ?D (all_blocks (Suc ?n) (bucket s2)))"
    unfolding b(6) by (simp add: image_image)
  then have "mset ?st = mset (map ?D rest)"
    using leftover_blocks [OF plainsplit distinct_plain] by simp
  moreover have "all_blocks (Suc ?n) (\<lambda>i. map ?D (bucket s2 i)) = map ?D (all_blocks (Suc ?n) (bucket s2))"
    by (simp add: all_blocks_def map_concat comp_def)
  ultimately have "mset (po_effective ?cr bucket ops {} s2 p') = mset ?plain"
    using plainsplit by (simp add: po_effective_def p'_def b(3) add.commute)
  then have eff: "mset (live (po_effective ?cr bucket ops {} s2 p')) = mset (live ?plain)" by (simp add: mset_live)
  have "po_state ?cr inv bucket ops {} p' (block_map ?plain)"
  proof (rule po_stateI [where ok = inv and s = s2, OF _ _ b(2) _ _ eff])
    show "\<forall>i. \<forall>b\<in>set (bucket s2 i). block_ok ?cr (po_aes_key p') b
       \<and> (\<not> is_dummy b \<longrightarrow> i \<in> set (path_up (so_level ops s2) (sint (leaf b))))"
      using b(4) bs(3) unfolding b(3) by (simp add: p'_def)
    show "\<forall>b\<in>set (live ?plain). valid_leaf (so_level ops s2) (sint (leaf b))"
      unfolding b(3) using good by simp
    show kd: "keys_distinct ?plain" by (rule block_map_data(1) [OF _ data(1)]) (use data(2) in blast)
    show "fits_map (block_map ?plain)"
      using data(3) unfolding fits_map_def block_map_Some_iff [OF kd] by fastforce
  qed (use p in \<open>simp_all add: p'_def\<close>)
  moreover have "map_of data = map_option snd \<circ> block_map ?plain"
  proof
    fix x show "map_of data x = (map_option snd \<circ> block_map ?plain) x"
      unfolding comp_def by (rule block_map_data(2) [OF _ data(1), symmetric]) (use data(2) in blast)
  qed
  moreover have "po_pos_map p' k = Some lf" if "block_map ?plain k = Some (lf, v)" for k lf v
  proof -
    have kd: "keys_distinct ?plain" by (rule block_map_data(1) [OF _ data(1)]) (use data(2) in blast)
    from that have "(k, v) \<in> set data" "lf = the (pm k)"
      unfolding block_map_Some_iff [OF kd] by auto
    then show ?thesis using pmok(1) by (force simp: p'_def)
  qed
  moreover have "po_level ops p' = po_level ops p" by (simp add: po_level_def p'_def s(1) b(3) lv)
  ultimately have "po_rep ?cr inv bucket ops p' (map_of data)" "po_level ops p' = po_level ops p"
    unfolding po_rep_def by blast+
  moreover have "\<forall>k lf. po_pos_map p k = Some lf \<longrightarrow> po_pos_map p' k = Some lf" using pmok(2) by (simp add: p'_def)
  ultimately show ?thesis using run by blast
qed

end

end
