(* ===== verification/Path_Oram_Properties.thy ===== *)
theory Path_Oram_Properties
  imports Path_Oram_Load
begin

text \<open>
  The properties of the encrypted Path ORAM on the local tree, as facts of the interpretation \<open>tree\<close>:
  the initial load, and any sequence of accesses as a sequence of operations of a map.
\<close>

section \<open>Sequences of accesses\<close>

datatype po_request = PoRead i32 | PoWrite i32 bytes | PoDummy

fun po_run ::
  "oram_env \<Rightarrow> 's storage_ops \<Rightarrow> po_request list \<Rightarrow> 's path_oram \<Rightarrow> rng \<Rightarrow> (bytes list \<times> 's path_oram \<times> rng) result" where
  "po_run E ops [] p r = Inr ([], p, r)"
| "po_run E ops (PoRead k # qs) p r =
     bind_result (po_access E ops k None p r) (\<lambda>(v, p1, r1).
     bind_result (po_run E ops qs p1 r1) (\<lambda>(vs, p2, r2). Inr (v # vs, p2, r2)))"
| "po_run E ops (PoWrite k w # qs) p r =
     bind_result (po_access E ops k (Some w) p r) (\<lambda>(v, p1, r1).
     bind_result (po_run E ops qs p1 r1) (\<lambda>(vs, p2, r2). Inr (v # vs, p2, r2)))"
| "po_run E ops (PoDummy # qs) p r =
     bind_result (po_dummy_access E ops p r) (\<lambda>(p1, r1). po_run E ops qs p1 r1)"

fun map_run :: "po_request list \<Rightarrow> (i32 \<rightharpoonup> bytes) \<Rightarrow> (bytes list \<times> (i32 \<rightharpoonup> bytes)) option" where
  "map_run [] m = Some ([], m)"
| "map_run (PoRead k # qs) m =
     (case m k of None \<Rightarrow> None
      | Some v \<Rightarrow> (case map_run qs m of None \<Rightarrow> None | Some (vs, m') \<Rightarrow> Some (v # vs, m')))"
| "map_run (PoWrite k w # qs) m =
     (case m k of None \<Rightarrow> None
      | Some v \<Rightarrow> (case map_run qs (m(k \<mapsto> w)) of None \<Rightarrow> None | Some (vs, m') \<Rightarrow> Some (v # vs, m')))"
| "map_run (PoDummy # qs) m = map_run qs m"

definition tree_rep :: "oram_env \<Rightarrow> bucket_tree path_oram \<Rightarrow> (i32 \<rightharpoonup> bytes) \<Rightarrow> bool" where
  "tree_rep E p m = po_rep (oe_crypto E) tree_inv bucket_at tree_ops p m"

lemma tree_access:
  assumes "good_env E" "tree_rep E p m" "m k = Some v" "\<forall>w. nv = Some w \<longrightarrow> fits_cipher w"
  shows "safe_run (po_access E tree_ops k nv p r)
    (\<lambda>(res, p', r'). res = v \<and> tree_rep E p' (m(k \<mapsto> (case nv of None \<Rightarrow> v | Some w \<Rightarrow> w))))"
  using assms(2) unfolding tree_rep_def by (intro tree.po_access_rep [OF assms(1)]) (use assms(3,4) in auto)

lemma run_step:
  assumes step: "safe_run x (\<lambda>(res, p', r'). res = v \<and> tree_rep E p' m1)"
    and rest: "\<And>p' r'. tree_rep E p' m1 \<Longrightarrow>
      safe_run (po_run E tree_ops qs p' r') (\<lambda>(vs', p2, r2). vs' = vs \<and> tree_rep E p2 m')"
  shows "safe_run (bind_result x (\<lambda>(v, p1, r1).
     bind_result (po_run E tree_ops qs p1 r1) (\<lambda>(vs, p2, r2). Inr (v # vs, p2, r2))))
    (\<lambda>(vs', p2, r2). vs' = v # vs \<and> tree_rep E p2 m')"
proof (rule safe_run_bind [OF step], clarify)
  fix res p' r' assume "tree_rep E p' m1"
  then show "safe_run (bind_result (po_run E tree_ops qs p' r') (\<lambda>(vs, p2, r2). Inr (v # vs, p2, r2)))
    (\<lambda>(vs', p2, r2). vs' = v # vs \<and> tree_rep E p2 m')"
    by (rule safe_run_bind [OF rest]) auto
qed

text \<open>
  Claim C6: the Path ORAM on a local tree is a map. Whatever the random draws, the nonces, the
  iteration orders and the requests are, a sequence of reads, writes and dummy accesses to stored keys
  returns what the sequence of lookups and updates of the map returns and leaves the map of the end;
  the only failure is a stash overflow. It is stated for values that leave room for the nonce in \<open>2 ^ 31\<close>
  bytes, the range of the lengths given to OpenSSL, and for a random generator that answers.
\<close>

theorem path_oram_refines_map:
  assumes "good_env E" "tree_rep E p m" "map_run qs m = Some (vs, m')" "\<forall>k w. PoWrite k w \<in> set qs \<longrightarrow> fits_cipher w"
  shows "safe_run (po_run E tree_ops qs p r) (\<lambda>(vs', p', r'). vs' = vs \<and> tree_rep E p' m')"
  using assms(2,3,4)
proof (induction qs arbitrary: p m r vs)
  case (Cons q qs)
  have rest: "\<forall>k w. PoWrite k w \<in> set qs \<longrightarrow> fits_cipher w" using Cons.prems(3) by auto
  show ?case
  proof (cases q)
    case (PoRead k)
    with Cons.prems(2) obtain v vs1 where v: "m k = Some v" "map_run qs m = Some (vs1, m')" "vs = v # vs1"
      by (auto split: option.splits)
    have s: "safe_run (po_access E tree_ops k None p r) (\<lambda>(res, p', r'). res = v \<and> tree_rep E p' m)"
      using tree_access [OF assms(1) Cons.prems(1) v(1), of None r] fun_upd_triv [of m k] v(1) by simp
    show ?thesis
      unfolding PoRead po_run.simps v(3) by (rule run_step [OF s Cons.IH]) (use v rest in auto)
  next
    case (PoWrite k w)
    with Cons.prems(2) obtain v vs1 where v: "m k = Some v" "map_run qs (m(k \<mapsto> w)) = Some (vs1, m')" "vs = v # vs1"
      by (auto split: option.splits)
    have s: "safe_run (po_access E tree_ops k (Some w) p r) (\<lambda>(res, p', r'). res = v \<and> tree_rep E p' (m(k \<mapsto> w)))"
      using tree_access [OF assms(1) Cons.prems(1) v(1), of "Some w" r] Cons.prems(3) PoWrite by simp
    show ?thesis
      unfolding PoWrite po_run.simps v(3) by (rule run_step [OF s Cons.IH [where m = "m(k \<mapsto> w)"]]) (assumption, rule v(2), rule rest)
  next
    case PoDummy
    have s: "safe_run (po_dummy_access E tree_ops p r) (\<lambda>(p', r'). tree_rep E p' m)"
      using tree.po_dummy_rep [OF assms(1)] Cons.prems(1) by (simp add: tree_rep_def)
    show ?thesis
      unfolding PoDummy po_run.simps
      by (rule safe_run_bind [OF s]) (use Cons.IH [OF _ _ rest] Cons.prems(2) PoDummy in auto)
  qed
qed auto

section \<open>The initial load\<close>

lemma tree_load:
  assumes "good_env E" "0 \<le> scale" "ceil_log2 n \<le> 30"
    and "distinct (map fst data)" "INVALID_KEY \<notin> fst ` set data" "\<forall>v\<in>snd ` set data. fits_cipher v"
  shows "\<exists>p r1 p' r2. new_path_oram E tree_ops (\<lambda>n b. Inr (new_bucket_tree n b)) n b scale r = Inr (p, r1)
    \<and> po_init E tree_ops data p r1 = Inr (p', r2) \<and> tree_rep E p' (map_of data)"
proof -
  obtain k r1 where k: "generate_aes_key (oe_crypto E) r = Inr (k, r1)" "length k = AES_KEY_LEN"
    by (rule generate_aes_key_good [of "oe_crypto E"]) (use assms(1) in \<open>auto simp: good_env_def\<close>)
  note t = new_tree_inv [OF assms(3), of b]
  have lv: "bt_level (new_bucket_tree n b) = ceil_log2 n + 1" by (simp add: new_bucket_tree_def Let_def)
  obtain p where p: "new_path_oram E tree_ops (\<lambda>n b. Inr (new_bucket_tree n b)) n b scale r = Inr (p, r1)"
    "po_storage p = Some (new_bucket_tree n b)" "po_num_data p = n" "po_aes_key p = k" "po_pos_map p = Map.empty"
    "0 \<le> po_stash_max_size p"
    using assms(2) by (simp add: new_path_oram_def k(1))
  have nk: "\<forall>k\<in>fst ` set data. k \<noteq> INVALID_KEY" using assms(5) by blast
  have "\<exists>p' r'. po_init E tree_ops data p r1 = Inr (p', r') \<and> po_rep (oe_crypto E) tree_inv bucket_at tree_ops p' (map_of data)
    \<and> (\<forall>k lf. po_pos_map p k = Some lf \<longrightarrow> po_pos_map p' k = Some lf) \<and> po_level tree_ops p' = po_level tree_ops p"
    by (rule tree.po_init_rep [OF assms(1) p(2)]) (use t assms(2-4,6) nk p(3-6) k(2) lv in \<open>auto simp: tree_ops_def\<close>)
  then show ?thesis using p(1) unfolding tree_rep_def by blast
qed

text \<open>
  Claim C14: constructing a Path ORAM and loading it with distinct valid keys, and values that leave room
  for the nonce in \<open>2 ^ 31\<close> bytes, never fails, and the result stores exactly the data, with a valid random
  leaf for every key.
\<close>

theorem path_oram_load_correct:
  assumes "good_env E" "0 \<le> scale" "ceil_log2 n \<le> 30"
    and "distinct (map fst data)" "INVALID_KEY \<notin> fst ` set data" "\<forall>v\<in>snd ` set data. fits_cipher v"
  shows "\<exists>p r1 p' r2. new_path_oram E tree_ops (\<lambda>n b. Inr (new_bucket_tree n b)) n b scale r = Inr (p, r1)
    \<and> po_init E tree_ops data p r1 = Inr (p', r2) \<and> tree_rep E p' (map_of data)"
  by (rule tree_load [OF assms])

definition xor_env :: oram_env where
  "xor_env = \<lparr>oe_crypto = xor_crypto, oe_order = rev\<rparr>"

lemma xor_env_good: "good_env xor_env"
  by (simp add: good_env_def xor_env_def xor_crypto_good)

lemma demo_load: "distinct (map fst [(5 :: i32, [1 :: byte]), (6, [2])])"
  "INVALID_KEY \<notin> fst ` set [(5 :: i32, [1 :: byte]), (6, [2])]" "ceil_log2 2 \<le> 30"
  "\<forall>v\<in>snd ` set [(5 :: i32, [1 :: byte]), (6, [2])]. fits_cipher v"
  by (simp_all add: INVALID_KEY_def ceil_log2_def ceillog2_le_iff fits_cipher_def AES_IV_LEN_def)

theorem path_oram_load_correct_witness:
  "\<exists>p r1 p' r2. new_path_oram xor_env tree_ops (\<lambda>n b. Inr (new_bucket_tree n b)) 2 4 7 [3, 1] = Inr (p, r1)
    \<and> po_init xor_env tree_ops [(5, [1]), (6, [2])] p r1 = Inr (p', r2) \<and> tree_rep xor_env p' [5 \<mapsto> [1], 6 \<mapsto> [2]]"
proof -
  have m: "map_of [(5 :: i32, [1 :: byte]), (6, [2])] = [5 \<mapsto> [1], 6 \<mapsto> [2]]" by (auto simp: fun_eq_iff)
  show ?thesis
    using path_oram_load_correct [OF xor_env_good, of 7 2 "[(5, [1]), (6, [2])]" 4 "[3, 1]", OF _ demo_load(3,1,2,4)]
    unfolding m by simp
qed

theorem path_oram_refines_map_witness:
  "\<exists>p r. tree_rep xor_env p [5 \<mapsto> [1], 6 \<mapsto> [2]]
    \<and> safe_run (po_run xor_env tree_ops [PoWrite 5 [9], PoRead 6, PoDummy, PoRead 5] p r)
        (\<lambda>(vs, p', r'). vs = [[1], [2], [9]] \<and> tree_rep xor_env p' [5 \<mapsto> [9], 6 \<mapsto> [2]])"
proof -
  have m: "map_of [(5 :: i32, [1 :: byte]), (6, [2])] = [5 \<mapsto> [1], 6 \<mapsto> [2]]" by (auto simp: fun_eq_iff)
  obtain p where p: "tree_rep xor_env p [5 \<mapsto> [1], 6 \<mapsto> [2]]"
    using tree_load [OF xor_env_good, of 7 2 "[(5, [1]), (6, [2])]" 4 "[]", OF _ demo_load(3,1,2,4)]
    unfolding m by auto
  have "map_run [PoWrite 5 [9], PoRead 6, PoDummy, PoRead 5] [5 \<mapsto> [1], 6 \<mapsto> [2]]
      = Some ([[1], [2], [9]], [5 \<mapsto> [9], 6 \<mapsto> [2]])"
    by (simp add: fun_upd_twist)
  moreover have "\<forall>k w. PoWrite k w \<in> set [PoWrite 5 [9], PoRead 6, PoDummy, PoRead 5] \<longrightarrow> fits_cipher w"
    by (simp add: fits_cipher_def AES_IV_LEN_def)
  ultimately show ?thesis using path_oram_refines_map [OF xor_env_good p, of _ _ _ "[]"] p by blast
qed

end
