(* ===== verification/Wire.thy ===== *)
theory Wire
  imports Storage_Interface Sockets
begin

text \<open>
  \<open>src/network/tcp_channel.cpp\<close> and its header: the little-endian serialisation of integers, byte vectors,
  blocks and paths, and the messages of a channel. A reader gets the rest of the buffer and returns what
  it leaves; reading past the end, which the code does not check, is \<open>OutOfBounds\<close>. The lemmas are the
  round trips, stated with \<open>parses\<close>, which composes along \<open>bind_result\<close>.
\<close>

section \<open>Message types\<close>

datatype msg_type =
    CREATE | RESET | FILL_DATA | BULK_LOAD | READ_PATH | WRITE_PATH | READ_MULTI | WRITE_MULTI
  | DESTROY | SETUP_BENCH | BATCH_READ | BATCH_WRITE | OK | ERROR

fun msg_code :: "msg_type \<Rightarrow> byte" where
  "msg_code CREATE = 0x01"
| "msg_code RESET = 0x02"
| "msg_code FILL_DATA = 0x03"
| "msg_code BULK_LOAD = 0x04"
| "msg_code READ_PATH = 0x05"
| "msg_code WRITE_PATH = 0x06"
| "msg_code READ_MULTI = 0x07"
| "msg_code WRITE_MULTI = 0x08"
| "msg_code DESTROY = 0x09"
| "msg_code SETUP_BENCH = 0x10"
| "msg_code BATCH_READ = 0x11"
| "msg_code BATCH_WRITE = 0x12"
| "msg_code OK = 0x80"
| "msg_code ERROR = 0x81"

text \<open>A byte off the wire becomes a message type by a cast; other values fall into the default case.\<close>

definition msg_types :: "msg_type list" where
  "msg_types = [CREATE, RESET, FILL_DATA, BULK_LOAD, READ_PATH, WRITE_PATH, READ_MULTI, WRITE_MULTI,
     DESTROY, SETUP_BENCH, BATCH_READ, BATCH_WRITE, OK, ERROR]"

definition msg_of_code :: "byte \<Rightarrow> msg_type option" where
  "msg_of_code c = List.find (\<lambda>t. msg_code t = c) msg_types"

lemma msg_of_code_code [simp]: "msg_of_code (msg_code t) = Some t"
  by (cases t) (simp_all add: msg_of_code_def msg_types_def)

lemma msg_code_inject [simp]: "msg_code t = msg_code u \<longleftrightarrow> t = u"
  by (metis msg_of_code_code option.inject)

declare msg_code.simps [simp del]

section \<open>Serialisation\<close>

type_synonym 'a reader = "bytes \<Rightarrow> ('a \<times> bytes) result"

definition ser_int :: "i32 \<Rightarrow> bytes" where
  "ser_int v = int_to_bytes v"

definition deser_int :: "i32 reader" where
  "deser_int p = (if length p < 4 then Inl OutOfBounds else Inr (load_int 0 p, drop 4 p))"

definition ser_bytes :: "bytes \<Rightarrow> bytes" where
  "ser_bytes data = ser_int (of_nat (length data)) @ data"

definition deser_bytes :: "bytes reader" where
  "deser_bytes p =
     bind_result (deser_int p) (\<lambda>(len, p1).
       if sint len < 0 then Inl LengthError
       else if length p1 < nat (sint len) then Inl OutOfBounds
       else Inr (take (nat (sint len)) p1, drop (nat (sint len)) p1))"

definition ser_block :: "block \<Rightarrow> bytes" where
  "ser_block b = ser_int (key b) @ ser_int (leaf b) @ ser_bytes (val b)"

definition deser_block :: "block reader" where
  "deser_block p =
     bind_result (deser_int p) (\<lambda>(k, p1).
     bind_result (deser_int p1) (\<lambda>(l, p2).
     bind_result (deser_bytes p2) (\<lambda>(v, p3). Inr (\<lparr>key = k, leaf = l, val = v\<rparr>, p3))))"

text \<open>A counted loop of readers, and a count that a container is reserved for.\<close>

fun deser_list :: "'a reader \<Rightarrow> nat \<Rightarrow> 'a list reader" where
  "deser_list f 0 p = Inr ([], p)"
| "deser_list f (Suc n) p =
     bind_result (f p) (\<lambda>(x, p1). bind_result (deser_list f n p1) (\<lambda>(xs, p2). Inr (x # xs, p2)))"

definition deser_count :: "nat reader" where
  "deser_count p =
     bind_result (deser_int p) (\<lambda>(n, p1). if sint n < 0 then Inl LengthError else Inr (nat (sint n), p1))"

definition ser_bucket :: "int \<times> block list \<Rightarrow> bytes" where
  "ser_bucket = (\<lambda>(node, bucket).
     ser_int (word_of_int node) @ ser_int (of_nat (length bucket)) @ concat (map ser_block bucket))"

definition ser_path :: "oram_env \<Rightarrow> path_map \<Rightarrow> bytes" where
  "ser_path E path = ser_int (of_nat (length path)) @ concat (map ser_bucket (iterate E path))"

text \<open>A node that comes twice gets its blocks appended.\<close>

fun deser_buckets :: "nat \<Rightarrow> path_map \<Rightarrow> path_map reader" where
  "deser_buckets 0 acc p = Inr (acc, p)"
| "deser_buckets (Suc n) acc p =
     bind_result (deser_int p) (\<lambda>(node, p1).
     bind_result (deser_count p1) (\<lambda>(nb, p2).
     bind_result (deser_list deser_block nb p2) (\<lambda>(bs, p3).
       let old = (case map_of acc (sint node) of None \<Rightarrow> [] | Some b \<Rightarrow> b)
       in deser_buckets n (AList.update (sint node) (old @ bs) acc) p3)))"

definition deser_path :: "path_map reader" where
  "deser_path p = bind_result (deser_count p) (\<lambda>(count, p1). deser_buckets count [] p1)"

section \<open>Messages\<close>

definition send_raw :: "bytes \<Rightarrow> socket \<Rightarrow> unit result \<times> socket" where
  "send_raw data s =
     (case send_loop data s of
        (False, s1) \<Rightarrow> (Inl (TransportError ''TcpChannel::send_raw: connection lost''), s1)
      | (True, s1) \<Rightarrow> (Inr (), s1))"

definition recv_raw :: "nat \<Rightarrow> socket \<Rightarrow> bytes option result \<times> socket" where
  "recv_raw n s =
     (case recv_loop n s of
        (Received b, s1) \<Rightarrow> (Inr (Some b), s1)
      | (Closed, s1) \<Rightarrow> (Inr None, s1)
      | (Failed, s1) \<Rightarrow> (Inl (TransportError ''TcpChannel::recv_raw: error''), s1))"

definition send_msg :: "byte \<Rightarrow> bytes \<Rightarrow> socket \<Rightarrow> unit result \<times> socket" where
  "send_msg code data s =
     (let total = (of_nat (length data + 1) :: 32 word)
      in case send_raw (int_to_bytes total @ [code]) s of
           (Inl e, s1) \<Rightarrow> (Inl e, s1)
         | (Inr _, s1) \<Rightarrow> if 0 < length data then send_raw data s1 else (Inr (), s1))"

definition recv_msg :: "socket \<Rightarrow> (byte \<times> bytes) option result \<times> socket" where
  "recv_msg s =
     (case recv_raw 5 s of
        (Inl e, s1) \<Rightarrow> (Inl e, s1)
      | (Inr None, s1) \<Rightarrow> (Inr None, s1)
      | (Inr (Some header), s1) \<Rightarrow>
          let total = load_int 0 header;
              len = (if total > 1 then unat (total - 1) else 0)
          in if len = 0 then (Inr (Some (header ! 4, [])), s1)
             else case recv_raw len s1 of
                    (Inl e, s2) \<Rightarrow> (Inl e, s2)
                  | (Inr None, s2) \<Rightarrow> (Inr None, s2)
                  | (Inr (Some payload), s2) \<Rightarrow> (Inr (Some (header ! 4, payload)), s2))"

text \<open>The reply of a request: an error message is thrown.\<close>

definition reply_result :: "byte \<times> bytes \<Rightarrow> bytes result" where
  "reply_result = (\<lambda>(code, resp).
     if code = msg_code ERROR then Inl (ServerError (map (\<lambda>b. char_of (unat b)) resp)) else Inr resp)"

definition chan_request :: "msg_type \<Rightarrow> bytes \<Rightarrow> socket \<Rightarrow> bytes result \<times> socket" where
  "chan_request t payload s =
     (case send_msg (msg_code t) payload s of
        (Inl e, s1) \<Rightarrow> (Inl e, s1)
      | (Inr _, s1) \<Rightarrow>
          (case recv_msg s1 of
             (Inl e, s2) \<Rightarrow> (Inl e, s2)
           | (Inr None, s2) \<Rightarrow> (Inl Disconnected, s2)
           | (Inr (Some reply), s2) \<Rightarrow> (reply_result reply, s2)))"

section \<open>Round trips\<close>

definition parses :: "'a reader \<Rightarrow> 'a \<Rightarrow> bytes \<Rightarrow> bool" where
  "parses f x bs \<longleftrightarrow> (\<forall>rest. f (bs @ rest) = Inr (x, rest))"

lemma parses_app: "parses f x bs \<Longrightarrow> f (bs @ rest) = Inr (x, rest)"
  by (simp add: parses_def)

lemma parses_end: "parses f x bs \<Longrightarrow> f bs = Inr (x, [])"
  using parses_app [of f x bs "[]"] by simp

lemma parses_int [simp]: "parses deser_int v (ser_int v)"
  by (simp add: parses_def deser_int_def ser_int_def)

lemma parses_count: "n < 2 ^ 31 \<Longrightarrow> parses deser_count n (ser_int (of_nat n))"
  by (simp add: parses_def deser_count_def parses_app [OF parses_int] sint_of_small_nat)

lemma parses_bytes: "length v < 2 ^ 31 \<Longrightarrow> parses deser_bytes v (ser_bytes v)"
  by (simp add: parses_def deser_bytes_def ser_bytes_def parses_app [OF parses_int] sint_of_small_nat)

lemma parses_block: "length (val b) < 2 ^ 31 \<Longrightarrow> parses deser_block b (ser_block b)"
  by (simp add: parses_def deser_block_def ser_block_def parses_app [OF parses_int] parses_app [OF parses_bytes])

lemma parses_list:
  "\<forall>x\<in>set xs. parses f x (g x) \<Longrightarrow> parses (deser_list f (length xs)) xs (concat (map g xs))"
  by (induction xs) (simp_all add: parses_def)

text \<open>What fits into the 32-bit counts.\<close>

definition fits_bucket :: "block list \<Rightarrow> bool" where
  "fits_bucket bs \<longleftrightarrow> length bs < 2 ^ 31 \<and> (\<forall>b\<in>set bs. length (val b) < 2 ^ 31)"

definition fits_path :: "path_map \<Rightarrow> bool" where
  "fits_path p \<longleftrightarrow> length p < 2 ^ 31 \<and> distinct (map fst p)
     \<and> (\<forall>(i, bs)\<in>set p. 0 \<le> i \<and> i < 2 ^ 31 \<and> fits_bucket bs)"

lemma parses_blocks: "fits_bucket bs \<Longrightarrow> parses (deser_list deser_block (length bs)) bs (concat (map ser_block bs))"
  by (rule parses_list) (simp add: fits_bucket_def parses_block)

lemma parses_buckets:
  assumes "distinct (map fst (acc @ p))" "\<forall>(i, bs)\<in>set p. 0 \<le> i \<and> i < 2 ^ 31 \<and> fits_bucket bs"
  shows "parses (deser_buckets (length p) acc) (acc @ p) (concat (map ser_bucket p))"
  using assms
proof (induction p arbitrary: acc)
  case (Cons x p)
  obtain i bs where x: "x = (i, bs)" by (cases x)
  have i: "0 \<le> i" "i < 2 ^ 31" "fits_bucket bs" using Cons.prems(2) by (auto simp: x)
  have s: "sint (word_of_int i :: i32) = i" using i(1,2) by (simp add: sint_sbintrunc' signed_take_bit_int_eq_self)
  have n: "i \<notin> fst ` set acc" using Cons.prems(1) by (auto simp: x)
  then have m: "map_of acc i = None" "AList.update i bs acc = acc @ [(i, bs)]"
    by (simp add: map_of_eq_None_iff) (use n in \<open>induction acc; auto\<close>)
  have ih: "parses (deser_buckets (length p) (acc @ [(i, bs)])) (acc @ (i, bs) # p) (concat (map ser_bucket p))"
    using Cons.IH [of "acc @ [(i, bs)]"] Cons.prems by (simp add: x)
  have len: "length bs < 2 ^ 31" using i(3) by (simp add: fits_bucket_def)
  have ser: "ser_bucket (i, bs) = ser_int (word_of_int i) @ ser_int (of_nat (length bs)) @ concat (map ser_block bs)"
    by (simp add: ser_bucket_def)
  show ?case
    unfolding parses_def
    by (auto simp: x ser parses_app [OF parses_int] parses_app [OF parses_count [OF len]]
        parses_app [OF parses_blocks [OF i(3)]] s m parses_app [OF ih])
qed (simp add: parses_def)

lemma parses_path:
  assumes E: "good_env E" and p: "fits_path p"
  shows "\<exists>p'. parses deser_path p' (ser_path E p) \<and> mset p' = mset p"
proof (intro exI conjI)
  have d: "distinct (map fst p)" using p by (simp add: fits_path_def)
  note it = iterate_good [OF E d]
  have "length (iterate E p) = length p" using it(1) by (metis size_mset)
  moreover have "\<forall>(i, bs)\<in>set (iterate E p). 0 \<le> i \<and> i < 2 ^ 31 \<and> fits_bucket bs"
    using p mset_eq_setD [OF it(1)] by (simp add: fits_path_def)
  ultimately have "parses (deser_buckets (length p) []) (iterate E p) (concat (map ser_bucket (iterate E p)))"
    using parses_buckets [of "[]" "iterate E p"] it(3) by simp
  moreover have "length p < 2 ^ 31" using p by (simp add: fits_path_def)
  ultimately show "parses deser_path (iterate E p) (ser_path E p)"
    unfolding parses_def deser_path_def ser_path_def
    by (simp add: parses_app [OF parses_count])
  show "mset (iterate E p) = mset p" by (rule it(1))
qed

end
