(* ===== verification/Storage_Server.thy ===== *)
theory Storage_Server
  imports Wire
begin

text \<open>
  \<open>src/network/storage_server.cpp\<close>: the trees of one client connection, the handler of each message, and
  the loop of the connection. A handler returns the reply, or the exception that ends the connection. The
  benchmark setup a \<open>SETUP_BENCH\<close> message starts is the argument \<open>bench\<close>, applied to the numbers of the
  message.
\<close>

record client_state =
  cs_stores :: "i32 \<rightharpoonup> bucket_tree"
  cs_next_id :: i32

definition new_client_state :: client_state where
  "new_client_state = \<lparr>cs_stores = Map.empty, cs_next_id = 0\<rparr>"

definition register_store :: "bucket_tree \<Rightarrow> client_state \<Rightarrow> i32 \<times> client_state" where
  "register_store t st =
     (let i = cs_next_id st in (i, \<lparr>cs_stores = (cs_stores st)(i \<mapsto> t), cs_next_id = i + 1\<rparr>))"

type_synonym reply = "byte \<times> bytes"

definition send_ok :: "bytes \<Rightarrow> reply" where
  "send_ok data = (msg_code OK, data)"

definition send_err :: "string \<Rightarrow> reply" where
  "send_err msg = (msg_code ERROR, map (\<lambda>c. of_nat (of_char c)) msg)"

text \<open>\<open>get_store\<close> and the reply to an unknown id.\<close>

definition with_store :: "i32 \<Rightarrow> client_state \<Rightarrow> (bucket_tree \<Rightarrow> (reply \<times> client_state) result) \<Rightarrow> (reply \<times> client_state) result" where
  "with_store i st f =
     (case cs_stores st i of None \<Rightarrow> Inr (send_err ''bad store id'', st) | Some t \<Rightarrow> f t)"

definition put_store :: "i32 \<Rightarrow> bucket_tree \<Rightarrow> client_state \<Rightarrow> client_state" where
  "put_store i t st = st\<lparr>cs_stores := (cs_stores st)(i \<mapsto> t)\<rparr>"

text \<open>The order in which a hash set of keys is iterated.\<close>

definition iterate_keys :: "oram_env \<Rightarrow> i32 list \<Rightarrow> i32 list" where
  "iterate_keys E ks = map word_of_int (oe_order E (map sint ks))"

section \<open>Handlers\<close>

definition handle_create :: "client_state \<Rightarrow> bytes \<Rightarrow> (reply \<times> client_state) result" where
  "handle_create st p =
     bind_result (deser_int p) (\<lambda>(num_data, p1).
     bind_result (deser_int p1) (\<lambda>(bsize, p2).
       let t = new_bucket_tree (sint num_data) (sint bsize);
           (i, st') = register_store t st
       in Inr (send_ok (ser_int i @ ser_int (of_nat (bt_level t)) @ ser_int (word_of_int (bt_leaf_range t))), st')))"

definition handle_reset :: "client_state \<Rightarrow> bytes \<Rightarrow> (reply \<times> client_state) result" where
  "handle_reset st p =
     bind_result (deser_int p) (\<lambda>(i, p1).
     bind_result (deser_int p1) (\<lambda>(num_data, p2).
     bind_result (deser_int p2) (\<lambda>(bsize, p3).
       with_store i st (\<lambda>t.
         let t' = bt_reset (sint num_data) (sint bsize) t
         in Inr (send_ok (ser_int (of_nat (bt_level t')) @ ser_int (word_of_int (bt_leaf_range t'))), put_store i t' st)))))"

definition handle_fill_data :: "client_state \<Rightarrow> bytes \<Rightarrow> (reply \<times> client_state) result" where
  "handle_fill_data st p =
     bind_result (deser_int p) (\<lambda>(i, p1).
     bind_result (deser_block p1) (\<lambda>(b, p2).
       with_store i st (\<lambda>t.
         bind_result (fill_data_to_leaf b t) (\<lambda>t'. Inr (send_ok [], put_store i t' st)))))"

definition handle_bulk_load :: "oram_env \<Rightarrow> client_state \<Rightarrow> bytes \<Rightarrow> (reply \<times> client_state) result" where
  "handle_bulk_load E st p =
     bind_result (deser_int p) (\<lambda>(i, p1).
     bind_result (deser_count p1) (\<lambda>(count, p2).
     bind_result (deser_list deser_block count p2) (\<lambda>(blocks, p3).
       with_store i st (\<lambda>t.
         bind_result (bt_bulk_load blocks t) (\<lambda>(placed, t').
           Inr (send_ok (ser_int (of_nat (length placed)) @ concat (map ser_int (iterate_keys E placed))),
                put_store i t' st))))))"

definition handle_read_path :: "oram_env \<Rightarrow> client_state \<Rightarrow> bytes \<Rightarrow> (reply \<times> client_state) result" where
  "handle_read_path E st p =
     bind_result (deser_int p) (\<lambda>(i, p1).
     bind_result (deser_int p1) (\<lambda>(lf, p2).
       with_store i st (\<lambda>t.
         bind_result (bt_read_path lf t) (\<lambda>path. Inr (send_ok (ser_path E path), st)))))"

definition handle_write_path :: "client_state \<Rightarrow> bytes \<Rightarrow> (reply \<times> client_state) result" where
  "handle_write_path st p =
     bind_result (deser_int p) (\<lambda>(i, p1).
     bind_result (deser_int p1) (\<lambda>(lf, p2).
     bind_result (deser_path p2) (\<lambda>(path, p3).
       with_store i st (\<lambda>t.
         bind_result (bt_write_path lf path t) (\<lambda>t'. Inr (send_ok [], put_store i t' st))))))"

definition handle_read_multi :: "oram_env \<Rightarrow> client_state \<Rightarrow> bytes \<Rightarrow> (reply \<times> client_state) result" where
  "handle_read_multi E st p =
     bind_result (deser_int p) (\<lambda>(i, p1).
     bind_result (deser_count p1) (\<lambda>(nl, p2).
     bind_result (deser_list deser_int nl p2) (\<lambda>(leaves, p3).
       with_store i st (\<lambda>t.
         bind_result (bt_read_multiple_paths leaves t) (\<lambda>path. Inr (send_ok (ser_path E path), st))))))"

definition handle_write_multi :: "client_state \<Rightarrow> bytes \<Rightarrow> (reply \<times> client_state) result" where
  "handle_write_multi st p =
     bind_result (deser_int p) (\<lambda>(i, p1).
     bind_result (deser_path p1) (\<lambda>(path, p2).
       with_store i st (\<lambda>t.
         bind_result (bt_write_multiple_paths path t) (\<lambda>t'. Inr (send_ok [], put_store i t' st)))))"

text \<open>The batches stop at the first unknown id; the writes before it stay.\<close>

fun batch_read_loop :: "oram_env \<Rightarrow> client_state \<Rightarrow> nat \<Rightarrow> bytes \<Rightarrow> bytes \<Rightarrow> reply result" where
  "batch_read_loop E st 0 p resp = Inr (send_ok resp)"
| "batch_read_loop E st (Suc n) p resp =
     bind_result (deser_int p) (\<lambda>(i, p1).
     bind_result (deser_int p1) (\<lambda>(lf, p2).
       case cs_stores st i of None \<Rightarrow> Inr (send_err ''bad store id in BATCH_READ'')
       | Some t \<Rightarrow> bind_result (bt_read_path lf t) (\<lambda>path. batch_read_loop E st n p2 (resp @ ser_path E path))))"

definition handle_batch_read :: "oram_env \<Rightarrow> client_state \<Rightarrow> bytes \<Rightarrow> (reply \<times> client_state) result" where
  "handle_batch_read E st p =
     bind_result (deser_int p) (\<lambda>(n, p1).
     bind_result (batch_read_loop E st (nat (sint n)) p1 (ser_int n)) (\<lambda>reply. Inr (reply, st)))"

fun batch_write_loop :: "nat \<Rightarrow> bytes \<Rightarrow> client_state \<Rightarrow> (reply \<times> client_state) result" where
  "batch_write_loop 0 p st = Inr (send_ok [], st)"
| "batch_write_loop (Suc n) p st =
     bind_result (deser_int p) (\<lambda>(i, p1).
     bind_result (deser_path p1) (\<lambda>(path, p2).
       case cs_stores st i of None \<Rightarrow> Inr (send_err ''bad store id in BATCH_WRITE'', st)
       | Some t \<Rightarrow> bind_result (bt_write_multiple_paths path t) (\<lambda>t'. batch_write_loop n p2 (put_store i t' st))))"

definition handle_batch_write :: "client_state \<Rightarrow> bytes \<Rightarrow> (reply \<times> client_state) result" where
  "handle_batch_write st p =
     bind_result (deser_int p) (\<lambda>(n, p1). batch_write_loop (nat (sint n)) p1 st)"

definition handle_destroy :: "client_state \<Rightarrow> bytes \<Rightarrow> (reply \<times> client_state) result" where
  "handle_destroy st p =
     bind_result (deser_int p) (\<lambda>(i, p1). Inr (send_ok [], st\<lparr>cs_stores := (cs_stores st)(i := None)\<rparr>))"

text \<open>Eight numbers, and three more if the message has them.\<close>

definition deser_optional :: "i32 reader" where
  "deser_optional p = (if p = [] then Inr (0, p) else deser_int p)"

type_synonym bench_setup = "i32 list \<Rightarrow> client_state \<Rightarrow> (bytes \<times> client_state) result"

definition handle_setup_bench :: "bench_setup \<Rightarrow> client_state \<Rightarrow> bytes \<Rightarrow> (reply \<times> client_state) result" where
  "handle_setup_bench bench st p =
     bind_result (deser_list deser_int 8 p) (\<lambda>(args, p1).
     bind_result (deser_list deser_optional 3 p1) (\<lambda>(opts, p2).
     bind_result (bench (args @ opts) new_client_state) (\<lambda>(data, st'). Inr (send_ok data, st'))))"

definition dispatch :: "oram_env \<Rightarrow> bench_setup \<Rightarrow> client_state \<Rightarrow> byte \<Rightarrow> bytes \<Rightarrow> (reply \<times> client_state) result" where
  "dispatch E bench st code p =
     (case msg_of_code code of
        Some CREATE \<Rightarrow> handle_create st p
      | Some RESET \<Rightarrow> handle_reset st p
      | Some FILL_DATA \<Rightarrow> handle_fill_data st p
      | Some BULK_LOAD \<Rightarrow> handle_bulk_load E st p
      | Some READ_PATH \<Rightarrow> handle_read_path E st p
      | Some WRITE_PATH \<Rightarrow> handle_write_path st p
      | Some READ_MULTI \<Rightarrow> handle_read_multi E st p
      | Some WRITE_MULTI \<Rightarrow> handle_write_multi st p
      | Some BATCH_READ \<Rightarrow> handle_batch_read E st p
      | Some BATCH_WRITE \<Rightarrow> handle_batch_write st p
      | Some DESTROY \<Rightarrow> handle_destroy st p
      | Some SETUP_BENCH \<Rightarrow> handle_setup_bench bench st p
      | _ \<Rightarrow> Inr (send_err ''unknown message type'', st))"

section \<open>The connection\<close>

lemma send_raw_arriving: "send_raw data s = (x, s') \<Longrightarrow> arriving s' = arriving s"
  by (auto simp: send_raw_def split: prod.splits bool.splits dest!: send_loop_arriving)

lemma send_msg_arriving: "send_msg c data s = (x, s') \<Longrightarrow> arriving s' = arriving s"
  by (auto simp: send_msg_def Let_def split: prod.splits sum.splits if_splits dest!: send_raw_arriving)

lemma recv_raw_shrinks: "recv_raw n s = (Inr (Some b), s') \<Longrightarrow> length (stream s') + n = length (stream s)"
  by (auto simp: recv_raw_def split: prod.splits received.splits dest: recv_loop_shrinks)

lemma recv_msg_shrinks: "recv_msg s = (Inr (Some m), s') \<Longrightarrow> length (stream s') < length (stream s)"
  by (auto simp: recv_msg_def Let_def split: prod.splits sum.splits option.splits if_splits dest!: recv_raw_shrinks)

lemma exchange_shrinks:
  assumes "recv_msg s = (Inr (Some m), s1)" "send_msg c data s1 = (x, s2)"
  shows "length (stream s2) < length (stream s)"
  using recv_msg_shrinks [OF assms(1)] send_msg_arriving [OF assms(2)] by (simp add: stream_def)

function handle_client :: "oram_env \<Rightarrow> bench_setup \<Rightarrow> client_state \<Rightarrow> socket \<Rightarrow> client_state \<times> socket" where
  "handle_client E bench st s =
     (case recv_msg s of
        (Inr (Some (code, payload)), s1) \<Rightarrow>
          (case dispatch E bench st code payload of
             Inl e \<Rightarrow> (st, s1)
           | Inr ((rcode, data), st') \<Rightarrow>
               (case send_msg rcode data s1 of
                  (Inl e, s2) \<Rightarrow> (st', s2)
                | (Inr _, s2) \<Rightarrow> handle_client E bench st' s2))
      | (_, s1) \<Rightarrow> (st, s1))"
  by pat_completeness auto
termination
  by (relation "measure (\<lambda>(E, bench, st, s). length (stream s))") (auto dest: sym intro: exchange_shrinks)

declare handle_client.simps [simp del]

end
