(* ===== verification/Network_Storage.thy ===== *)
theory Network_Storage
  imports Storage_Server
begin

text \<open>
  \<open>src/network/network_storage.cpp\<close>: the remote tree as a storage, and the batch requests. The channel is
  a state of any type with a function \<open>rq\<close> that makes a request on it; \<open>socket_requester\<close> is the request of
  \<open>tcp_channel.cpp\<close>, \<open>server_requester\<close> the same over a server that dispatches at once.
\<close>

type_synonym 'c requester = "msg_type \<Rightarrow> bytes \<Rightarrow> 'c \<Rightarrow> (bytes \<times> 'c) result"

definition socket_requester :: "socket requester" where
  "socket_requester t payload s =
     (case chan_request t payload s of (Inl e, s') \<Rightarrow> Inl e | (Inr resp, s') \<Rightarrow> Inr (resp, s'))"

definition server_requester :: "oram_env \<Rightarrow> bench_setup \<Rightarrow> client_state requester" where
  "server_requester E bench t payload st =
     bind_result (dispatch E bench st (msg_code t) payload) (\<lambda>(reply, st').
     bind_result (reply_result reply) (\<lambda>resp. Inr (resp, st')))"

record 'c net_storage =
  ns_channel :: 'c
  ns_store_id :: i32
  ns_level :: i32
  ns_leaf_range :: i32
  ns_bucket_size :: i32

definition new_network_storage :: "'c requester \<Rightarrow> 'c \<Rightarrow> i32 \<Rightarrow> i32 \<Rightarrow> 'c net_storage result" where
  "new_network_storage rq ch num_data bsize =
     bind_result (rq CREATE (ser_int num_data @ ser_int bsize) ch) (\<lambda>(resp, ch').
     bind_result (deser_int resp) (\<lambda>(i, p1).
     bind_result (deser_int p1) (\<lambda>(lv, p2).
     bind_result (deser_int p2) (\<lambda>(lrange, p3).
       Inr \<lparr>ns_channel = ch', ns_store_id = i, ns_level = lv, ns_leaf_range = lrange, ns_bucket_size = bsize\<rparr>))))"

definition ns_from_existing :: "'c \<Rightarrow> i32 \<Rightarrow> i32 \<Rightarrow> i32 \<Rightarrow> i32 \<Rightarrow> 'c net_storage" where
  "ns_from_existing ch store_id lv lrange bsize =
     \<lparr>ns_channel = ch, ns_store_id = store_id, ns_level = lv, ns_leaf_range = lrange, ns_bucket_size = bsize\<rparr>"

text \<open>The destructor: an exception of the request is swallowed.\<close>

definition ns_destroy :: "'c requester \<Rightarrow> ('c \<Rightarrow> bool) \<Rightarrow> 'c net_storage \<Rightarrow> 'c" where
  "ns_destroy rq is_open ns =
     (if is_open (ns_channel ns) \<and> 0 \<le> sint (ns_store_id ns)
      then (case rq DESTROY (ser_int (ns_store_id ns)) (ns_channel ns) of
              Inl e \<Rightarrow> ns_channel ns | Inr (resp, ch') \<Rightarrow> ch')
      else ns_channel ns)"

definition ns_request :: "'c requester \<Rightarrow> msg_type \<Rightarrow> bytes \<Rightarrow> 'c net_storage \<Rightarrow> (bytes \<times> 'c net_storage) result" where
  "ns_request rq t req ns =
     bind_result (rq t req (ns_channel ns)) (\<lambda>(resp, ch'). Inr (resp, ns\<lparr>ns_channel := ch'\<rparr>))"

definition ns_reset :: "'c requester \<Rightarrow> i32 \<Rightarrow> i32 \<Rightarrow> 'c net_storage \<Rightarrow> 'c net_storage result" where
  "ns_reset rq num_data bsize ns =
     bind_result (ns_request rq RESET (ser_int (ns_store_id ns) @ ser_int num_data @ ser_int bsize) ns) (\<lambda>(resp, ns').
     bind_result (deser_int resp) (\<lambda>(lv, p1).
     bind_result (deser_int p1) (\<lambda>(lrange, p2).
       Inr (ns'\<lparr>ns_level := lv, ns_leaf_range := lrange, ns_bucket_size := bsize\<rparr>))))"

definition ns_fill_data_to_leaf :: "'c requester \<Rightarrow> block \<Rightarrow> 'c net_storage \<Rightarrow> 'c net_storage result" where
  "ns_fill_data_to_leaf rq b ns =
     bind_result (ns_request rq FILL_DATA (ser_int (ns_store_id ns) @ ser_block b) ns) (\<lambda>(resp, ns'). Inr ns')"

definition ns_bulk_load :: "'c requester \<Rightarrow> block list \<Rightarrow> 'c net_storage \<Rightarrow> (i32 list \<times> 'c net_storage) result" where
  "ns_bulk_load rq blocks ns =
     bind_result (ns_request rq BULK_LOAD
       (ser_int (ns_store_id ns) @ ser_int (of_nat (length blocks)) @ concat (map ser_block blocks)) ns) (\<lambda>(resp, ns').
     bind_result (deser_count resp) (\<lambda>(count, p1).
     bind_result (deser_list deser_int count p1) (\<lambda>(ks, p2). Inr (remdups ks, ns'))))"

definition ns_read_path :: "'c requester \<Rightarrow> i32 \<Rightarrow> 'c net_storage \<Rightarrow> (path_map \<times> 'c net_storage) result" where
  "ns_read_path rq lf ns =
     bind_result (ns_request rq READ_PATH (ser_int (ns_store_id ns) @ ser_int lf) ns) (\<lambda>(resp, ns').
     bind_result (deser_path resp) (\<lambda>(path, p1). Inr (path, ns')))"

definition ns_write_path :: "oram_env \<Rightarrow> 'c requester \<Rightarrow> i32 \<Rightarrow> path_map \<Rightarrow> 'c net_storage \<Rightarrow> 'c net_storage result" where
  "ns_write_path E rq lf buckets ns =
     bind_result (ns_request rq WRITE_PATH (ser_int (ns_store_id ns) @ ser_int lf @ ser_path E buckets) ns)
       (\<lambda>(resp, ns'). Inr ns')"

definition ns_read_multiple_paths :: "'c requester \<Rightarrow> i32 list \<Rightarrow> 'c net_storage \<Rightarrow> (path_map \<times> 'c net_storage) result" where
  "ns_read_multiple_paths rq leaves ns =
     bind_result (ns_request rq READ_MULTI
       (ser_int (ns_store_id ns) @ ser_int (of_nat (length leaves)) @ concat (map ser_int leaves)) ns) (\<lambda>(resp, ns').
     bind_result (deser_path resp) (\<lambda>(path, p1). Inr (path, ns')))"

definition ns_write_multiple_paths :: "oram_env \<Rightarrow> 'c requester \<Rightarrow> path_map \<Rightarrow> 'c net_storage \<Rightarrow> 'c net_storage result" where
  "ns_write_multiple_paths E rq buckets ns =
     bind_result (ns_request rq WRITE_MULTI (ser_int (ns_store_id ns) @ ser_path E buckets) ns)
       (\<lambda>(resp, ns'). Inr ns')"

text \<open>
  The remote tree as a storage. \<open>level()\<close> and the constants of the interface are the words of the reply.
\<close>

definition net_ops :: "oram_env \<Rightarrow> 'c requester \<Rightarrow> 'c net_storage storage_ops" where
  "net_ops E rq =
     \<lparr>so_store_id = ns_store_id, so_level = (\<lambda>ns. nat (sint (ns_level ns))),
      so_leaf_range = (\<lambda>ns. sint (ns_leaf_range ns)), so_bucket_size = (\<lambda>ns. sint (ns_bucket_size ns)),
      so_reset = (\<lambda>n bs. ns_reset rq (word_of_int n) (word_of_int bs)),
      so_fill_data_to_leaf = ns_fill_data_to_leaf rq,
      so_bulk_load = ns_bulk_load rq,
      so_read_path = ns_read_path rq,
      so_write_path = ns_write_path E rq,
      so_read_multiple_paths = ns_read_multiple_paths rq,
      so_write_multiple_paths = ns_write_multiple_paths E rq\<rparr>"

section \<open>Batches\<close>

definition batch_read_paths :: "'c requester \<Rightarrow> (i32 \<times> i32) list \<Rightarrow> 'c \<Rightarrow> (path_map list \<times> 'c) result" where
  "batch_read_paths rq reqs ch =
     bind_result (rq BATCH_READ (ser_int (of_nat (length reqs))
         @ concat (map (\<lambda>(i, lf). ser_int i @ ser_int lf) reqs)) ch) (\<lambda>(resp, ch').
     bind_result (deser_count resp) (\<lambda>(n, p1).
     bind_result (deser_list deser_path n p1) (\<lambda>(paths, p2). Inr (paths, ch'))))"

definition batch_write_paths :: "oram_env \<Rightarrow> 'c requester \<Rightarrow> (i32 \<times> path_map) list \<Rightarrow> 'c \<Rightarrow> 'c result" where
  "batch_write_paths E rq reqs ch =
     bind_result (rq BATCH_WRITE (ser_int (of_nat (length reqs))
         @ concat (map (\<lambda>(i, data). ser_int i @ ser_path E data) reqs)) ch) (\<lambda>(resp, ch'). Inr ch')"

section \<open>The remote tree is the tree of the server\<close>

text \<open>\<open>net_view ns t\<close>: the server keeps the tree \<open>t\<close> under the id of \<open>ns\<close>, which knows its size.\<close>

definition net_view :: "client_state net_storage \<Rightarrow> bucket_tree \<Rightarrow> bool" where
  "net_view ns t \<longleftrightarrow> cs_stores (ns_channel ns) (ns_store_id ns) = Some t \<and> tree_inv t
     \<and> ns_level ns = of_nat (bt_level t) \<and> ns_leaf_range ns = word_of_int (bt_leaf_range t)
     \<and> sint (ns_bucket_size ns) = bt_bucket_size t"

text \<open>\<open>net_step\<close>: the tree of \<open>ns\<close> becomes \<open>t\<close>; the other trees and the next id stay.\<close>

definition net_step :: "client_state net_storage \<Rightarrow> bucket_tree \<Rightarrow> client_state net_storage \<Rightarrow> bool" where
  "net_step ns t ns' \<longleftrightarrow> net_view ns' t \<and> ns_store_id ns' = ns_store_id ns
     \<and> ns_channel ns' = put_store (ns_store_id ns) t (ns_channel ns)"

lemma put_store_same: "cs_stores st i = Some t \<Longrightarrow> put_store i t st = st"
  by (simp add: put_store_def fun_upd_idem)

lemma net_view_put:
  assumes "net_view ns t" "tree_inv t'" "bt_level t' = bt_level t" "bt_leaf_range t' = bt_leaf_range t"
    "bt_bucket_size t' = bt_bucket_size t"
  shows "net_step ns t' (ns\<lparr>ns_channel := put_store (ns_store_id ns) t' (ns_channel ns)\<rparr>)"
  using assms by (simp add: net_step_def net_view_def put_store_def)

lemma net_view_same: "net_view ns t \<Longrightarrow> net_step ns t ns"
  by (simp add: net_step_def net_view_def put_store_same)

lemma reply_ok [simp]: "reply_result (send_ok data) = Inr data"
  by (simp add: reply_result_def send_ok_def)

lemma request_ok:
  assumes "dispatch E bench (ns_channel ns) (msg_code t) req = Inr (send_ok resp, st')"
  shows "ns_request (server_requester E bench) t req ns = Inr (resp, ns\<lparr>ns_channel := st'\<rparr>)"
  using assms by (simp add: ns_request_def server_requester_def)

lemmas parse_simps = parses_app [OF parses_int] parses_end [OF parses_int]

lemma store_of: "net_view ns t \<Longrightarrow> with_store (ns_store_id ns) (ns_channel ns) f = f t"
  by (simp add: net_view_def with_store_def)

lemma sint_level:
  assumes "tree_inv t"
  shows "nat (sint (of_nat (bt_level t) :: i32)) = bt_level t" "sint (word_of_int (bt_leaf_range t) :: i32) = bt_leaf_range t"
proof -
  have l: "bt_level t \<le> 31" "bt_leaf_range t = 2 ^ (bt_level t - 1)" using assms by (auto simp: tree_inv_def)
  then show "nat (sint (of_nat (bt_level t) :: i32)) = bt_level t" by (simp add: sint_of_small_nat)
  have "bt_leaf_range t \<le> 2 ^ 30" unfolding l(2) by (intro power_increasing) (use l in auto)
  moreover have "0 \<le> bt_leaf_range t" unfolding l(2) by simp
  ultimately show "sint (word_of_int (bt_leaf_range t) :: i32) = bt_leaf_range t"
    by (simp add: sint_sbintrunc' signed_take_bit_int_eq_self)
qed

subsection \<open>Reads\<close>

lemma net_read_path:
  assumes E: "good_env E" and ns: "net_view ns t" and r: "bt_read_path lf t = Inr p" "fits_path p"
  shows "\<exists>p'. ns_read_path (server_requester E bench) lf ns = Inr (p', ns) \<and> mset p' = mset p"
proof -
  obtain p' where p': "parses deser_path p' (ser_path E p)" "mset p' = mset p" using parses_path [OF E r(2)] by blast
  have "dispatch E bench (ns_channel ns) (msg_code READ_PATH) (ser_int (ns_store_id ns) @ ser_int lf)
      = Inr (send_ok (ser_path E p), ns_channel ns)"
    by (simp add: dispatch_def handle_read_path_def parse_simps store_of [OF ns] r(1))
  from request_ok [OF this] show ?thesis
    by (simp add: ns_read_path_def parses_end [OF p'(1)] p'(2))
qed

lemma net_read_multiple:
  assumes E: "good_env E" and ns: "net_view ns t" and r: "bt_read_multiple_paths lfs t = Inr p" "fits_path p"
    and n: "length lfs < 2 ^ 31"
  shows "\<exists>p'. ns_read_multiple_paths (server_requester E bench) lfs ns = Inr (p', ns) \<and> mset p' = mset p"
proof -
  obtain p' where p': "parses deser_path p' (ser_path E p)" "mset p' = mset p" using parses_path [OF E r(2)] by blast
  have l: "parses (deser_list deser_int (length lfs)) lfs (concat (map ser_int lfs))" by (rule parses_list) simp
  have "dispatch E bench (ns_channel ns) (msg_code READ_MULTI)
        (ser_int (ns_store_id ns) @ ser_int (of_nat (length lfs)) @ concat (map ser_int lfs))
      = Inr (send_ok (ser_path E p), ns_channel ns)"
    by (simp add: dispatch_def handle_read_multi_def parse_simps parses_app [OF parses_count [OF n]]
        parses_end [OF l] store_of [OF ns] r(1))
  from request_ok [OF this] show ?thesis
    by (simp add: ns_read_multiple_paths_def parses_end [OF p'(1)] p'(2))
qed

subsection \<open>Writes\<close>

text \<open>The order of the buckets of a path does not matter.\<close>

lemma write_buckets_mset:
  assumes "mset p' = mset p" "distinct (map fst p)" "\<forall>i\<in>fst ` set p. in_range i (bt_storage t)"
  shows "write_buckets p' t = write_buckets p t"
proof -
  have d': "distinct (map fst p')" using assms(1,2) by (metis mset_eq_imp_distinct_iff mset_map)
  have s: "set p' = set p" using assms(1) by (rule mset_eq_setD)
  have m: "map_of p' = map_of p" using d' assms(2) s by (subst map_of_inject_set) auto
  obtain t1 where t1: "write_buckets p t = Inr t1" "t1 = t\<lparr>bt_storage := bt_storage t1\<rparr>"
    "length (bt_storage t1) = length (bt_storage t)"
    "\<forall>i. bucket_at t1 i = (case map_of p i of None \<Rightarrow> bucket_at t i | Some b \<Rightarrow> b)"
    using write_buckets_in_range [OF assms(3,2)] by blast
  obtain t2 where t2: "write_buckets p' t = Inr t2" "t2 = t\<lparr>bt_storage := bt_storage t2\<rparr>"
    "length (bt_storage t2) = length (bt_storage t)"
    "\<forall>i. bucket_at t2 i = (case map_of p' i of None \<Rightarrow> bucket_at t i | Some b \<Rightarrow> b)"
    using write_buckets_in_range [of p' t] assms(3) d' unfolding s by blast
  have "bt_storage t1 = bt_storage t2"
  proof (rule nth_equalityI)
    fix j assume j: "j < length (bt_storage t1)"
    have "bucket_at t1 (int j) = bucket_at t2 (int j)" using t1(4) t2(4) m by simp
    then show "bt_storage t1 ! j = bt_storage t2 ! j"
      using j t1(3) t2(3) by (simp add: bucket_at_def in_range_def)
  qed (simp add: t1(3) t2(3))
  then have "t1 = t2" using t1(2) t2(2) by metis
  then show ?thesis using t1(1) t2(1) by simp
qed

lemma tree_updated:
  assumes "tree_inv t" "t' = t\<lparr>bt_storage := bt_storage t'\<rparr>" "length (bt_storage t') = length (bt_storage t)"
  shows "tree_inv t' \<and> bt_level t' = bt_level t \<and> bt_leaf_range t' = bt_leaf_range t \<and> bt_bucket_size t' = bt_bucket_size t"
proof -
  have "tree_inv (t\<lparr>bt_storage := bt_storage t'\<rparr>) \<and> bt_level (t\<lparr>bt_storage := bt_storage t'\<rparr>) = bt_level t
     \<and> bt_leaf_range (t\<lparr>bt_storage := bt_storage t'\<rparr>) = bt_leaf_range t
     \<and> bt_bucket_size (t\<lparr>bt_storage := bt_storage t'\<rparr>) = bt_bucket_size t"
    using assms(1,3) by (simp add: tree_inv_def)
  then show ?thesis by (simp only: assms(2) [symmetric])
qed

lemma net_write:
  assumes E: "good_env E" and ns: "net_view ns t" and p: "fits_path p" "\<forall>i\<in>fst ` set p. i < 2 ^ bt_level t - 1"
  shows "\<exists>t'. write_buckets p t = Inr t'
    \<and> (\<exists>ns'. ns_write_multiple_paths E (server_requester E bench) p ns = Inr ns' \<and> net_step ns t' ns')
    \<and> (\<exists>ns'. ns_write_path E (server_requester E bench) lf p ns = Inr ns' \<and> net_step ns t' ns')"
proof -
  have inv: "tree_inv t" using ns by (simp add: net_view_def)
  obtain p' where p': "parses deser_path p' (ser_path E p)" "mset p' = mset p" using parses_path [OF E p(1)] by blast
  have d: "distinct (map fst p)" using p(1) by (simp add: fits_path_def)
  have rg: "\<forall>i\<in>fst ` set p. in_range i (bt_storage t)"
    using p by (auto simp: fits_path_def tree_in_range [OF inv])
  obtain t' where t': "write_buckets p t = Inr t'" "t' = t\<lparr>bt_storage := bt_storage t'\<rparr>"
    "length (bt_storage t') = length (bt_storage t)"
    using write_buckets_in_range [OF rg d] by blast
  note u = tree_updated [OF inv t'(2,3)]
  have w: "write_buckets p' t = Inr t'" using write_buckets_mset [OF p'(2) d rg] t'(1) by simp
  let ?st = "put_store (ns_store_id ns) t' (ns_channel ns)"
  have d1: "dispatch E bench (ns_channel ns) (msg_code WRITE_MULTI) (ser_int (ns_store_id ns) @ ser_path E p)
      = Inr (send_ok [], ?st)"
    by (simp add: dispatch_def handle_write_multi_def parse_simps parses_end [OF p'(1)] store_of [OF ns]
        bt_write_multiple_paths_def w)
  have d2: "dispatch E bench (ns_channel ns) (msg_code WRITE_PATH) (ser_int (ns_store_id ns) @ ser_int lf @ ser_path E p)
      = Inr (send_ok [], ?st)"
    by (simp add: dispatch_def handle_write_path_def parse_simps parses_end [OF p'(1)] store_of [OF ns]
        bt_write_path_def w)
  show ?thesis
    using t'(1) request_ok [OF d1] request_ok [OF d2] net_view_put [OF ns] u
    by (simp add: ns_write_multiple_paths_def ns_write_path_def)
qed

subsection \<open>Loads\<close>

lemma fill_first_frame:
  "fill_first nodes b t = Inr t' \<Longrightarrow> t' = t\<lparr>bt_storage := bt_storage t'\<rparr> \<and> length (bt_storage t') = length (bt_storage t)"
  by (induction nodes) (auto split: if_splits)

lemma fill_all_frame:
  "fill_all bs t = Inr t' \<Longrightarrow> t' = t\<lparr>bt_storage := bt_storage t'\<rparr> \<and> length (bt_storage t') = length (bt_storage t)"
proof (induction bs arbitrary: t)
  case (Cons b bs)
  then obtain t1 where t1: "fill_data_to_leaf b t = Inr t1" "fill_all bs t1 = Inr t'"
    by (auto simp: bind_result_Inr_iff)
  have f: "t1 = t\<lparr>bt_storage := bt_storage t1\<rparr>" "length (bt_storage t1) = length (bt_storage t)"
    using fill_first_frame t1(1) unfolding fill_data_to_leaf_def by blast+
  have g: "t' = t1\<lparr>bt_storage := bt_storage t'\<rparr>" "length (bt_storage t') = length (bt_storage t1)"
    using Cons.IH [OF t1(2)] by blast+
  have "t1\<lparr>bt_storage := bt_storage t'\<rparr> = t\<lparr>bt_storage := bt_storage t'\<rparr>" by (subst f(1)) simp
  then show ?case using g f(2) by simp
qed simp

lemma net_bulk_load:
  assumes E: "good_env E" and ns: "net_view ns t" and r: "bt_bulk_load bs t = Inr (placed, t')"
    and f: "fits_bucket bs" "length placed < 2 ^ 31"
  shows "\<exists>placed' ns'. ns_bulk_load (server_requester E bench) bs ns = Inr (placed', ns') \<and> net_step ns t' ns'
    \<and> set placed' = set placed"
proof -
  have inv: "tree_inv t" using ns by (simp add: net_view_def)
  have "fill_all bs t = Inr t'" using r by (auto simp: bt_bulk_load_def bind_result_Inr_iff)
  then have u: "tree_inv t' \<and> bt_level t' = bt_level t \<and> bt_leaf_range t' = bt_leaf_range t
      \<and> bt_bucket_size t' = bt_bucket_size t"
    using tree_updated [OF inv] fill_all_frame by blast
  have n: "length bs < 2 ^ 31" using f(1) by (simp add: fits_bucket_def)
  let ?st = "put_store (ns_store_id ns) t' (ns_channel ns)"
  let ?ks = "iterate_keys E placed"
  have m: "mset (oe_order E (map sint placed)) = mset (map sint placed)" using E by (simp add: good_env_def)
  then have "length (oe_order E (map sint placed)) = length (map sint placed)" by (rule mset_eq_length)
  then have len: "length ?ks = length placed" by (simp add: iterate_keys_def)
  have "set ?ks = (\<lambda>k. word_of_int (sint k)) ` set placed"
    unfolding iterate_keys_def using mset_eq_setD [OF m] by (simp add: image_image)
  then have ks: "set ?ks = set placed" by simp
  have pk: "parses (deser_list deser_int (length placed)) ?ks (concat (map ser_int ?ks))"
    using parses_list [of ?ks deser_int ser_int] by (simp add: len)
  have "dispatch E bench (ns_channel ns) (msg_code BULK_LOAD)
        (ser_int (ns_store_id ns) @ ser_int (of_nat (length bs)) @ concat (map ser_block bs))
      = Inr (send_ok (ser_int (of_nat (length placed)) @ concat (map ser_int ?ks)), ?st)"
    by (simp add: dispatch_def handle_bulk_load_def parse_simps parses_app [OF parses_count [OF n]]
        parses_end [OF parses_blocks [OF f(1)]] store_of [OF ns] r)
  from request_ok [OF this] show ?thesis
    using net_view_put [OF ns, of t'] u
    by (simp add: ns_bulk_load_def parses_app [OF parses_count [OF f(2)]] parses_end [OF pk] ks)
qed

lemma net_fill_data:
  assumes ns: "net_view ns t" and r: "fill_data_to_leaf b t = Inr t'" and f: "length (val b) < 2 ^ 31"
  shows "\<exists>ns'. ns_fill_data_to_leaf (server_requester E bench) b ns = Inr ns' \<and> net_step ns t' ns'"
proof -
  have inv: "tree_inv t" using ns by (simp add: net_view_def)
  have "fill_first (rev (get_path_indices t (leaf b))) b t = Inr t'" using r by (simp add: fill_data_to_leaf_def)
  then have u: "tree_inv t' \<and> bt_level t' = bt_level t \<and> bt_leaf_range t' = bt_leaf_range t
      \<and> bt_bucket_size t' = bt_bucket_size t"
    using tree_updated [OF inv] fill_first_frame by blast
  have "dispatch E bench (ns_channel ns) (msg_code FILL_DATA) (ser_int (ns_store_id ns) @ ser_block b)
      = Inr (send_ok [], put_store (ns_store_id ns) t' (ns_channel ns))"
    by (simp add: dispatch_def handle_fill_data_def parse_simps parses_end [OF parses_block [OF f]] store_of [OF ns] r)
  from request_ok [OF this] show ?thesis
    using net_view_put [OF ns, of t'] u by (simp add: ns_fill_data_to_leaf_def)
qed

lemma net_reset:
  assumes ns: "net_view ns t" and n: "ceil_log2 (sint num_data) \<le> 30"
  shows "\<exists>ns'. ns_reset (server_requester E bench) num_data bsize ns = Inr ns'
    \<and> net_step ns (bt_reset (sint num_data) (sint bsize) t) ns'"
proof -
  let ?t = "bt_reset (sint num_data) (sint bsize) t"
  have "dispatch E bench (ns_channel ns) (msg_code RESET) (ser_int (ns_store_id ns) @ ser_int num_data @ ser_int bsize)
      = Inr (send_ok (ser_int (of_nat (bt_level ?t)) @ ser_int (word_of_int (bt_leaf_range ?t))),
          put_store (ns_store_id ns) ?t (ns_channel ns))"
    by (simp add: dispatch_def handle_reset_def parse_simps store_of [OF ns] Let_def)
  from request_ok [OF this] show ?thesis
    using new_tree_inv(2) [OF n, of "sint bsize" t]
    by (simp add: ns_reset_def parse_simps net_step_def net_view_def put_store_def) (simp add: bt_reset_def Let_def)
qed

lemma net_create:
  assumes n: "ceil_log2 (sint num_data) \<le> 30"
  shows "\<exists>ns. new_network_storage (server_requester E bench) st num_data bsize = Inr ns
    \<and> net_view ns (new_bucket_tree (sint num_data) (sint bsize)) \<and> ns_store_id ns = cs_next_id st
    \<and> ns_channel ns = \<lparr>cs_stores = (cs_stores st)(cs_next_id st \<mapsto> new_bucket_tree (sint num_data) (sint bsize)),
        cs_next_id = cs_next_id st + 1\<rparr>"
  using new_tree_inv(1) [OF n, of "sint bsize"]
  by (simp add: new_network_storage_def server_requester_def dispatch_def handle_create_def parse_simps
      register_store_def Let_def net_view_def)
    (simp add: new_bucket_tree_def Let_def)

end
