(* ===== verification/Network_Properties.thy ===== *)
theory Network_Properties
  imports Network_Storage
begin

text \<open>
  The properties of the remote storage: the wire format, the messages on a socket, the session of a
  client, and the refinement of the local tree by the remote one.
\<close>

section \<open>The wire format\<close>

definition id_env :: oram_env where
  "id_env = \<lparr>oe_crypto = xor_crypto, oe_order = (\<lambda>xs. xs)\<rparr>"

lemma id_env_good: "good_env id_env"
  by (simp add: good_env_def id_env_def xor_crypto_good)

text \<open>
  Claim C35: the storage protocol round trips. Reading a serialised integer, byte vector, block or path
  returns it and leaves the rest of the buffer, for sizes that fit a 32-bit count and whatever order the
  hash map of the path is iterated in.
\<close>

theorem storage_wire_roundtrip:
  assumes "good_env E" "length v < 2 ^ 31" "length (val b) < 2 ^ 31" "fits_path p"
  shows "deser_int (ser_int k @ rest) = Inr (k, rest) \<and> deser_bytes (ser_bytes v @ rest) = Inr (v, rest)
    \<and> deser_block (ser_block b @ rest) = Inr (b, rest)
    \<and> (\<exists>p'. deser_path (ser_path E p @ rest) = Inr (p', rest) \<and> mset p' = mset p)"
  using parses_app [OF parses_int] parses_app [OF parses_bytes [OF assms(2)]] parses_app [OF parses_block [OF assms(3)]]
    parses_path [OF assms(1,4)] parses_app [of deser_path _ "ser_path E p" rest]
  by blast

theorem storage_wire_roundtrip_witness:
  "deser_int (ser_int (- 2) @ [7]) = Inr (- 2, [7]) \<and> deser_bytes (ser_bytes [1, 2] @ [7]) = Inr ([1, 2], [7])
    \<and> deser_block (ser_block \<lparr>key = 5, leaf = 1, val = [9]\<rparr> @ [7]) = Inr (\<lparr>key = 5, leaf = 1, val = [9]\<rparr>, [7])
    \<and> (\<exists>p'. deser_path (ser_path id_env [(2, [\<lparr>key = 5, leaf = 1, val = [9]\<rparr>]), (0, [])] @ [7]) = Inr (p', [7])
        \<and> mset p' = mset [(2, [\<lparr>key = 5, leaf = 1, val = [9]\<rparr>]), (0, [])])"
  by (rule storage_wire_roundtrip [OF id_env_good]) (simp_all add: fits_path_def fits_bucket_def)

section \<open>Messages\<close>

definition msg_frame :: "byte \<times> bytes \<Rightarrow> bytes" where
  "msg_frame = (\<lambda>(code, data). int_to_bytes (of_nat (length data + 1)) @ code # data)"

lemma length_msg_frame [simp]: "length (msg_frame (code, data)) = 5 + length data"
  by (simp add: msg_frame_def)

lemma send_msg_sent:
  assumes "willing n s" "length (msg_frame (code, data)) \<le> n"
  shows "\<exists>s'. send_msg code data s = (Inr (), s') \<and> willing (n - length (msg_frame (code, data))) s'
    \<and> sent s' = sent s @ msg_frame (code, data) \<and> arriving s' = arriving s"
proof -
  let ?h = "int_to_bytes (of_nat (length data + 1)) @ [code]"
  obtain s1 where s1: "send_loop ?h s = (True, s1)" "willing (n - 5) s1" "sent s1 = sent s @ ?h" "arriving s1 = arriving s"
    using send_loop_stream [OF assms(1), of ?h] assms(2) by auto
  obtain s2 where s2: "send_loop data s1 = (True, s2)" "willing (n - 5 - length data) s2"
    "sent s2 = sent s1 @ data" "arriving s2 = arriving s1"
    using send_loop_stream [OF s1(2), of data] assms(2) by (auto simp: le_diff_conv2)
  show ?thesis
    using s1 s2 by (cases data) (auto simp: send_msg_def send_raw_def msg_frame_def)
qed

lemma unat_length_pred:
  assumes "length data + 1 < 2 ^ 32" "data \<noteq> []"
  shows "(of_nat (length data + 1) :: i32) > 1" "unat (of_nat (length data + 1) - 1 :: i32) = length data"
proof -
  have u: "unat (of_nat (length data + 1) :: i32) = length data + 1"
    using assms(1) by (simp only: unat_of_nat) simp
  have "1 < unat (of_nat (length data + 1) :: i32)" unfolding u using assms(2) by (cases data) simp_all
  then show "(of_nat (length data + 1) :: i32) > 1" by (simp only: word_less_nat_alt unat_1)
  have "of_nat (length data + 1) - 1 = (of_nat (length data) :: i32)" by simp
  then show "unat (of_nat (length data + 1) - 1 :: i32) = length data"
    using assms(1) by (simp only: unat_of_nat) simp
qed

lemma recv_msg_received:
  assumes "healthy s" "stream s = msg_frame (code, data) @ rest" "length data + 1 < 2 ^ 32"
  shows "\<exists>s'. recv_msg s = (Inr (Some (code, data)), s') \<and> healthy s' \<and> stream s' = rest
    \<and> accepted s' = accepted s \<and> sent s' = sent s"
proof -
  let ?h = "int_to_bytes (of_nat (length data + 1)) @ [code]"
  have st: "stream s = ?h @ data @ rest" using assms(2) by (simp add: msg_frame_def)
  obtain s1 where s1: "recv_loop 5 s = (Received ?h, s1)" "consumed s 5 s1"
    using recv_loop_stream [OF assms(1), of 5] by (auto simp: st)
  have c1: "healthy s1" "stream s1 = data @ rest" "accepted s1 = accepted s" "sent s1 = sent s"
    using s1(2) by (simp_all add: consumed_def st)
  have hd4: "?h ! 4 = code" by (simp add: nth_append)
  have li: "load_int 0 ?h = of_nat (length data + 1)" by (rule load_int_0)
  show ?thesis
  proof (cases "data = []")
    case True
    then show ?thesis using s1(1) c1 hd4 li by (simp add: recv_msg_def recv_raw_def)
  next
    case False
    note u = unat_length_pred [OF assms(3) False]
    obtain s2 where s2: "recv_loop (length data) s1 = (Received data, s2)" "consumed s1 (length data) s2"
      using recv_loop_stream [OF c1(1), of "length data"] by (auto simp: c1(2))
    have "recv_msg s = (Inr (Some (code, data)), s2)"
      unfolding recv_msg_def recv_raw_def s1(1) using u False hd4 li by (simp add: s2(1) Let_def)
    then show ?thesis using s2(2) c1 by (simp add: consumed_def)
  qed
qed

lemma recv_msg_closed_end:
  assumes "healthy s" "stream s = []"
  shows "\<exists>s'. recv_msg s = (Inr None, s') \<and> sent s' = sent s"
proof -
  have "arriving s = []"
    using assms by (cases "arriving s") (auto simp: stream_def healthy_def split: option.splits)
  then have "recv_loop 5 s = (Closed, s)" by (subst recv_loop.simps) simp
  then show ?thesis by (simp add: recv_msg_def recv_raw_def)
qed

text \<open>
  Claim C36: a request over a socket sends its frame and returns the payload of the reply, or throws the
  message of an error reply, however the stream is cut into chunks; what follows the reply stays on the
  stream.
\<close>

theorem channel_request_correct:
  assumes "healthy s" "stream s = msg_frame (code, data) @ rest" "length data + 1 < 2 ^ 32"
    and "willing n s" "length (msg_frame (msg_code t, payload)) \<le> n"
  shows "\<exists>s'. chan_request t payload s = (reply_result (code, data), s') \<and> stream s' = rest
    \<and> sent s' = sent s @ msg_frame (msg_code t, payload)"
proof -
  obtain s1 where s1: "send_msg (msg_code t) payload s = (Inr (), s1)"
    "sent s1 = sent s @ msg_frame (msg_code t, payload)" "arriving s1 = arriving s"
    using send_msg_sent [OF assms(4,5)] by blast
  have h: "healthy s1" "stream s1 = msg_frame (code, data) @ rest"
    using assms(1,2) s1(3) by (simp_all add: healthy_def stream_def)
  obtain s2 where "recv_msg s1 = (Inr (Some (code, data)), s2)" "stream s2 = rest" "sent s2 = sent s1"
    using recv_msg_received [OF h assms(3)] by blast
  then show ?thesis using s1 by (simp add: chan_request_def)
qed

definition demo_socket :: "bytes \<Rightarrow> socket" where
  "demo_socket bs = \<lparr>arriving = map (\<lambda>b. Some [b]) bs, accepted = replicate 50 1, sent = []\<rparr>"

lemma demo_socket_facts: "healthy (demo_socket bs)" "stream (demo_socket bs) = bs" "willing 50 (demo_socket bs)"
  "sent (demo_socket bs) = []"
proof -
  show "stream (demo_socket bs) = bs" by (induction bs) (simp_all add: demo_socket_def stream_def)
qed (auto simp: demo_socket_def healthy_def willing_def)

theorem channel_request_correct_witness:
  "\<exists>s'. chan_request DESTROY (ser_int 0) (demo_socket (msg_frame (msg_code OK, [3]) @ [8])) = (Inr [3], s')
    \<and> stream s' = [8] \<and> sent s' = msg_frame (msg_code DESTROY, ser_int 0)"
proof -
  have "reply_result (msg_code OK, [3]) = Inr [3]" by (simp add: reply_result_def)
  then show ?thesis
    using channel_request_correct [OF demo_socket_facts(1) demo_socket_facts(2) _ demo_socket_facts(3), of "[3]" DESTROY "ser_int 0" "msg_code OK" "[8]"]
    by (simp add: demo_socket_facts(4) ser_int_def)
qed

section \<open>A session\<close>

fun serve_all :: "oram_env \<Rightarrow> bench_setup \<Rightarrow> client_state \<Rightarrow> (byte \<times> bytes) list \<Rightarrow> (reply list \<times> client_state) result" where
  "serve_all E bench st [] = Inr ([], st)"
| "serve_all E bench st ((code, payload) # qs) =
     bind_result (dispatch E bench st code payload) (\<lambda>(reply, st1).
     bind_result (serve_all E bench st1 qs) (\<lambda>(replies, st2). Inr (reply # replies, st2)))"

definition short :: "byte \<times> bytes \<Rightarrow> bool" where
  "short m \<longleftrightarrow> length (snd m) + 1 < 2 ^ 32"

text \<open>
  Claim C15: the server answers a stream of request frames with the frames of the replies its dispatcher
  gives, one after the other and in order, and keeps the state the dispatcher reaches, however the
  network cuts the stream.
\<close>

theorem storage_session_correct:
  assumes "healthy s" "stream s = concat (map msg_frame qs)" "\<forall>q\<in>set qs. short q"
    and "serve_all E bench st qs = Inr (replies, st')"
    and "willing n s" "length (concat (map msg_frame replies)) \<le> n"
  shows "\<exists>s'. handle_client E bench st s = (st', s') \<and> sent s' = sent s @ concat (map msg_frame replies)"
  using assms
proof (induction qs arbitrary: st s replies n)
  case Nil
  obtain s' where "recv_msg s = (Inr None, s')" "sent s' = sent s"
    using recv_msg_closed_end [OF Nil.prems(1)] Nil.prems(2) by auto
  then show ?case using Nil.prems(4) by (subst handle_client.simps) simp
next
  case (Cons q qs)
  obtain code payload where q: "q = (code, payload)" by (cases q)
  have len: "length payload + 1 < 2 ^ 32" using Cons.prems(3) by (simp add: q short_def)
  obtain s1 where s1: "recv_msg s = (Inr (Some (code, payload)), s1)" "healthy s1" "stream s1 = concat (map msg_frame qs)"
    "accepted s1 = accepted s" "sent s1 = sent s"
    using recv_msg_received [OF Cons.prems(1) _ len] Cons.prems(2) by (auto simp: q)
  obtain rc rd st1 replies1 where d: "dispatch E bench st code payload = Inr ((rc, rd), st1)"
    "serve_all E bench st1 qs = Inr (replies1, st')" "replies = (rc, rd) # replies1"
    using Cons.prems(4) by (auto simp: q bind_result_Inr_iff)
  have w1: "willing n s1" "length (msg_frame (rc, rd)) \<le> n"
    using Cons.prems(5,6) s1(4) by (simp_all add: willing_def d(3))
  obtain s2 where s2: "send_msg rc rd s1 = (Inr (), s2)" "willing (n - length (msg_frame (rc, rd))) s2"
    "sent s2 = sent s1 @ msg_frame (rc, rd)" "arriving s2 = arriving s1"
    using send_msg_sent [OF w1] by blast
  have h2: "healthy s2" "stream s2 = concat (map msg_frame qs)"
    using s1(2,3) s2(4) by (simp_all add: healthy_def stream_def)
  obtain s' where "handle_client E bench st1 s2 = (st', s')" "sent s' = sent s2 @ concat (map msg_frame replies1)"
    using Cons.IH [OF h2 _ d(2) s2(2)] Cons.prems(3,6) by (auto simp: d(3) le_diff_conv2)
  then show ?case
    using s1(5) s2(1,3) by (subst handle_client.simps) (simp add: s1(1) d(1,3))
qed

definition no_bench :: bench_setup where
  "no_bench args st = Inr ([], st)"

text \<open>A client creates a tree and destroys it again.\<close>

definition demo_session :: "(byte \<times> bytes) list" where
  "demo_session = [(msg_code DESTROY, ser_int 0), (0x55, [])]"

lemma demo_serve:
  "serve_all id_env no_bench new_client_state demo_session
   = Inr ([send_ok [], send_err ''unknown message type''], new_client_state)"
proof -
  have d: "dispatch id_env no_bench new_client_state (msg_code DESTROY) (ser_int 0) = Inr (send_ok [], new_client_state)"
    by (simp add: dispatch_def handle_destroy_def parses_end [OF parses_int] new_client_state_def)
  have "msg_of_code 0x55 = None" by code_simp
  then have u: "dispatch id_env no_bench new_client_state 0x55 [] = Inr (send_err ''unknown message type'', new_client_state)"
    by (simp add: dispatch_def)
  show ?thesis unfolding demo_session_def serve_all.simps d by (simp add: u)
qed

theorem storage_session_correct_witness:
  "\<exists>s'. handle_client id_env no_bench new_client_state (demo_socket (concat (map msg_frame demo_session))) = (new_client_state, s')
    \<and> sent s' = concat (map msg_frame [send_ok [], send_err ''unknown message type''])"
proof -
  have l: "length (concat (map msg_frame [send_ok [], send_err ''unknown message type''])) \<le> 50"
    by (simp add: send_ok_def send_err_def)
  have s: "\<forall>q\<in>set demo_session. short q" by (simp add: demo_session_def short_def ser_int_def)
  show ?thesis
    using storage_session_correct [OF demo_socket_facts(1) demo_socket_facts(2) s demo_serve demo_socket_facts(3) l]
    by (simp add: demo_socket_facts(4))
qed

section \<open>Refinement of the local tree\<close>

definition tree_fits :: "bucket_tree \<Rightarrow> bool" where
  "tree_fits t \<longleftrightarrow> (\<forall>i. fits_bucket (bucket_at t i))"

lemma path_fits:
  assumes "tree_inv t" "tree_fits t" "distinct is" "\<forall>i\<in>set is. 0 \<le> i \<and> i < 2 ^ bt_level t - 1"
  shows "fits_path (map (\<lambda>i. (i, bucket_at t i)) is)"
proof -
  have l: "bt_level t \<le> 31" using assms(1) by (simp add: tree_inv_def)
  have p: "(2 :: int) ^ bt_level t \<le> 2 ^ 31" by (rule power_increasing [OF l]) simp
  have "set is \<subseteq> {0..<2 ^ 31 - 1}" using assms(4) p by fastforce
  then have "card (set is) \<le> card {0..<2 ^ 31 - 1 :: int}" by (rule card_mono [rotated]) simp
  then have "length is \<le> 2 ^ 31 - 1" using assms(3) by (simp add: distinct_card)
  moreover have "\<forall>i\<in>set is. 0 \<le> i \<and> i < 2 ^ 31" using assms(4) p by fastforce
  ultimately show ?thesis using assms(2,3) by (auto simp: fits_path_def tree_fits_def comp_def)
qed

text \<open>
  Claim C7: the remote storage is the tree the server keeps for it. On a server state in which the
  store of the client is the tree \<open>t\<close>, resetting and filling, reading a path or several, writing and bulk
  loading over the protocol give what the operation of the tree gives (a path as a set of buckets), leave the
  corresponding tree in the store and change no other store of the connection. Creating a storage over the
  same connection registers a new tree under the next store number, which the new client then views, and
  changes no other entry.
\<close>

theorem network_storage_refines_tree:
  assumes E: "good_env E" and ns: "net_view ns t" and fits: "tree_fits t"
    and lf: "valid_leaf (bt_level t) (sint lf)"
    and lfs: "length lfs < 2 ^ 31" "\<forall>l\<in>set lfs. valid_leaf (bt_level t) (sint l)"
    and p: "fits_path p" "\<forall>i\<in>fst ` set p. i < 2 ^ bt_level t - 1"
    and bs: "fits_bucket bs" "bt_bulk_load bs t = Inr (placed, t2)" "length placed < 2 ^ 31"
    and b: "fill_data_to_leaf b t = Inr t3" "length (val b) < 2 ^ 31"
    and n: "ceil_log2 (sint num) \<le> 30"
  shows "(\<exists>q q'. bt_read_path lf t = Inr q \<and> ns_read_path (server_requester E bench) lf ns = Inr (q', ns) \<and> mset q' = mset q)
    \<and> (\<exists>q q'. bt_read_multiple_paths lfs t = Inr q
        \<and> ns_read_multiple_paths (server_requester E bench) lfs ns = Inr (q', ns) \<and> mset q' = mset q)
    \<and> (\<exists>t' ns'. bt_write_multiple_paths p t = Inr t'
        \<and> ns_write_multiple_paths E (server_requester E bench) p ns = Inr ns' \<and> net_step ns t' ns')
    \<and> (\<exists>t' ns'. bt_write_path lf p t = Inr t' \<and> ns_write_path E (server_requester E bench) lf p ns = Inr ns' \<and> net_step ns t' ns')
    \<and> (\<exists>placed' ns'. ns_bulk_load (server_requester E bench) bs ns = Inr (placed', ns') \<and> net_step ns t2 ns'
        \<and> set placed' = set placed)
    \<and> (\<exists>ns'. ns_fill_data_to_leaf (server_requester E bench) b ns = Inr ns' \<and> net_step ns t3 ns')
    \<and> (\<exists>ns'. ns_reset (server_requester E bench) num bsize ns = Inr ns' \<and> net_step ns (bt_reset (sint num) (sint bsize) t) ns')
    \<and> (\<exists>ns'. new_network_storage (server_requester E bench) (ns_channel ns) num bsize = Inr ns'
        \<and> net_view ns' (new_bucket_tree (sint num) (sint bsize)) \<and> ns_store_id ns' = cs_next_id (ns_channel ns)
        \<and> cs_stores (ns_channel ns') =
            (cs_stores (ns_channel ns))(cs_next_id (ns_channel ns) \<mapsto> new_bucket_tree (sint num) (sint bsize)))"
proof -
  have inv: "tree_inv t" using ns by (simp add: net_view_def)
  have l1: "1 \<le> bt_level t" using inv by (simp add: tree_inv_def)
  have f1: "fits_path (map (\<lambda>i. (i, bucket_at t i)) (rev (path_up (bt_level t) (sint lf))))"
    by (rule path_fits [OF inv fits]) (use distinct_path_up [OF l1 lf] path_up_range [OF l1 lf] in auto)
  have f2: "fits_path (map (\<lambda>i. (i, bucket_at t i)) (get_merged_path_indices (bt_level t) lfs))"
    by (rule path_fits [OF inv fits]) (use merged_path [OF l1 lfs(2)] path_up_range [OF l1] lfs(2) in auto)
  have new: "\<exists>ns'. new_network_storage (server_requester E bench) (ns_channel ns) num bsize = Inr ns'
        \<and> net_view ns' (new_bucket_tree (sint num) (sint bsize)) \<and> ns_store_id ns' = cs_next_id (ns_channel ns)
        \<and> cs_stores (ns_channel ns') =
            (cs_stores (ns_channel ns))(cs_next_id (ns_channel ns) \<mapsto> new_bucket_tree (sint num) (sint bsize))"
    using net_create [OF n, of E bench "ns_channel ns" bsize] by auto
  note r1 = tree_read_path [OF inv lf] and r2 = tree_read_multiple [OF inv lfs(2)]
  show ?thesis
    using net_read_path [OF E ns r1 f1] r1 net_read_multiple [OF E ns r2 f2 lfs(1)] r2 net_write [OF E ns p]
      net_bulk_load [OF E ns bs(2,1,3)] net_fill_data [OF ns b] net_reset [OF ns n] new
    unfolding bt_write_multiple_paths_def bt_write_path_def by blast
qed

definition demo_tree :: bucket_tree where
  "demo_tree = new_bucket_tree 2 4"

definition demo_block :: block where
  "demo_block = \<lparr>key = 5, leaf = 1, val = [9]\<rparr>"

lemma log2_2: "ceil_log2 2 = 1"
  by (rule ceil_log2_eqI) simp_all

lemma demo_tree_inv: "tree_inv demo_tree" "bt_level demo_tree = 2" "tree_fits demo_tree"
  using new_tree_inv [of 2 4]
  by (simp_all add: demo_tree_def log2_2 tree_fits_def fits_bucket_def) (simp_all add: new_bucket_tree_def log2_2 Let_def)

theorem network_storage_refines_tree_witness:
  "\<exists>ns t2 t3. net_view ns demo_tree \<and> fill_data_to_leaf demo_block demo_tree = Inr t3
    \<and> (\<exists>q q'. bt_read_path 1 demo_tree = Inr q \<and> ns_read_path (server_requester id_env no_bench) 1 ns = Inr (q', ns) \<and> mset q' = mset q)
    \<and> (\<exists>ns'. ns_fill_data_to_leaf (server_requester id_env no_bench) demo_block ns = Inr ns' \<and> net_step ns t3 ns')
    \<and> (\<exists>placed' ns'. ns_bulk_load (server_requester id_env no_bench) [demo_block] ns = Inr (placed', ns') \<and> net_step ns t2 ns')"
proof -
  obtain ns where ns: "net_view ns demo_tree"
    using net_create [of 2 id_env no_bench new_client_state 4] by (auto simp: log2_2 demo_tree_def)
  have lf: "valid_leaf (bt_level demo_tree) (sint (1 :: i32))" by (simp add: demo_tree_inv valid_leaf_def)
  obtain t2 rest where f: "fill_all [demo_block] demo_tree = Inr t2" "filled demo_tree [demo_block] t2 rest"
    using fill_all_spec [OF demo_tree_inv(1), of "[demo_block]"] lf by (auto simp: demo_block_def)
  have d: "fill_data_to_leaf demo_block demo_tree = Inr t2" using f(1) by (auto simp: bind_result_Inr_iff)
  obtain placed where pl: "bt_bulk_load [demo_block] demo_tree = Inr (placed, t2)"
    "placed = remdups (map key (filter (\<lambda>b. \<not> is_dummy b) (concat (bt_storage t2))))"
    using that [of "remdups (map key (filter (\<lambda>b. \<not> is_dummy b) (concat (bt_storage t2))))"] f(1)
    by (simp add: bt_bulk_load_def del: fill_all.simps)
  have "size (mset (concat (bt_storage t2)) + mset rest) = size (mset (concat (bt_storage demo_tree)) + mset [demo_block])"
    using f(2) by (simp add: filled_def)
  moreover have "concat (bt_storage demo_tree) = []" by (simp add: demo_tree_def new_bucket_tree_def Let_def)
  ultimately have c: "length (concat (bt_storage t2)) \<le> 1" by simp
  have "length placed \<le> length (map key (filter (\<lambda>b. \<not> is_dummy b) (concat (bt_storage t2))))"
    unfolding pl(2) by (rule length_remdups_leq)
  also have "\<dots> \<le> length (concat (bt_storage t2))" using length_filter_le by simp
  finally have pll: "length placed < 2 ^ 31" using c by simp
  have "fits_path []" "fits_bucket [demo_block]" "length (val demo_block) < 2 ^ 31"
    by (simp_all add: fits_path_def fits_bucket_def demo_block_def)
  note * = network_storage_refines_tree [OF id_env_good ns demo_tree_inv(3) lf _ _ this(1) _ this(2) pl(1) pll d this(3), of "[]" 2 no_bench 4]
  then show ?thesis using ns d log2_2 by auto
qed

section \<open>Errors\<close>

lemma reply_err: "reply_result (send_err msg) = Inl (ServerError msg)"
proof -
  have "char_of (unat (of_nat (of_char c) :: byte)) = c" for c
  proof -
    have "of_char c < (256 :: nat)" by simp
    then have "unat (of_nat (of_char c) :: byte) = of_char c" by (simp add: unat_of_nat)
    then show ?thesis by simp
  qed
  then show ?thesis by (simp add: reply_result_def send_err_def comp_def)
qed

text \<open>
  Claim C37: RESET, FILL_DATA, BULK_LOAD, READ_PATH, WRITE_PATH, READ_MULTI and WRITE_MULTI, the seven messages
  that work on one store, are answered with the error reply, which the client throws, when the store they name
  is unknown, and change nothing on the server. DESTROY of an unknown store is answered OK and changes nothing
  either. (BATCH_WRITE is not among them: it keeps the paths it wrote before it meets an unknown store.)
\<close>

theorem unknown_store_rejected:
  assumes "cs_stores st i = None" "length (val b) < 2 ^ 31" "fits_path p" "good_env E"
    and "length lfs < 2 ^ 31" "fits_bucket bs"
  shows "dispatch E bench st (msg_code RESET) (ser_int i @ ser_int n @ ser_int m) = Inr (send_err ''bad store id'', st)
    \<and> dispatch E bench st (msg_code FILL_DATA) (ser_int i @ ser_block b) = Inr (send_err ''bad store id'', st)
    \<and> dispatch E bench st (msg_code BULK_LOAD) (ser_int i @ ser_int (of_nat (length bs)) @ concat (map ser_block bs))
        = Inr (send_err ''bad store id'', st)
    \<and> dispatch E bench st (msg_code READ_PATH) (ser_int i @ ser_int lf) = Inr (send_err ''bad store id'', st)
    \<and> dispatch E bench st (msg_code WRITE_PATH) (ser_int i @ ser_int lf @ ser_path E p) = Inr (send_err ''bad store id'', st)
    \<and> dispatch E bench st (msg_code READ_MULTI) (ser_int i @ ser_int (of_nat (length lfs)) @ concat (map ser_int lfs))
        = Inr (send_err ''bad store id'', st)
    \<and> dispatch E bench st (msg_code WRITE_MULTI) (ser_int i @ ser_path E p) = Inr (send_err ''bad store id'', st)
    \<and> reply_result (send_err ''bad store id'') = Inl (ServerError ''bad store id'')
    \<and> dispatch E bench st (msg_code DESTROY) (ser_int i) = Inr (send_ok [], st)"
proof -
  obtain p' where p': "parses deser_path p' (ser_path E p)" using parses_path [OF assms(4,3)] by blast
  have l: "parses (deser_list deser_int (length lfs)) lfs (concat (map ser_int lfs))" by (rule parses_list) simp
  have n: "length bs < 2 ^ 31" using assms(6) by (simp add: fits_bucket_def)
  have w: "with_store i st f = Inr (send_err ''bad store id'', st)" for f using assms(1) by (simp add: with_store_def)
  have "reply_result (send_err ''bad store id'') = Inl (ServerError ''bad store id'')"
    by (rule reply_err)
  moreover have "dispatch E bench st (msg_code DESTROY) (ser_int i) = Inr (send_ok [], st)"
    using assms(1) by (simp add: dispatch_def handle_destroy_def parse_simps fun_upd_idem)
  ultimately show ?thesis
    by (simp add: dispatch_def handle_reset_def handle_fill_data_def handle_bulk_load_def handle_read_path_def
        handle_write_path_def handle_read_multi_def handle_write_multi_def parse_simps w
        parses_end [OF parses_block [OF assms(2)]] parses_end [OF p'] parses_app [OF parses_count [OF n]]
        parses_app [OF parses_count [OF assms(5)]] parses_end [OF parses_blocks [OF assms(6)]] parses_end [OF l])
qed

theorem unknown_store_rejected_witness:
  "dispatch id_env no_bench new_client_state (msg_code READ_PATH) (ser_int 3 @ ser_int 0)
     = Inr (send_err ''bad store id'', new_client_state)"
  using unknown_store_rejected [of new_client_state 3 demo_block "[]" id_env "[]" "[]" no_bench 0 0 0]
  by (simp add: new_client_state_def demo_block_def fits_path_def fits_bucket_def id_env_good)

section \<open>Batches\<close>

definition batch_answer :: "client_state \<Rightarrow> i32 \<times> i32 \<Rightarrow> path_map \<Rightarrow> bool" where
  "batch_answer st = (\<lambda>(i, lf) q. \<exists>t. cs_stores st i = Some t \<and> bt_read_path lf t = Inr q)"

lemma batch_read_loop_spec:
  assumes E: "good_env E" and "list_all2 (batch_answer st) reqs qs" "\<forall>q\<in>set qs. fits_path q"
  shows "\<exists>qs' bs. batch_read_loop E st (length reqs) (concat (map (\<lambda>(i, lf). ser_int i @ ser_int lf) reqs)) resp
      = Inr (send_ok (resp @ bs)) \<and> parses (deser_list deser_path (length reqs)) qs' bs
    \<and> list_all2 (\<lambda>q q'. mset q' = mset q) qs qs'"
  using assms(2,3)
proof (induction reqs qs arbitrary: resp rule: list_all2_induct)
  case Nil
  then show ?case by (intro exI [of _ "[]"]) (simp add: parses_def)
next
  case (Cons rq reqs q qs)
  obtain i lf t where r: "rq = (i, lf)" "cs_stores st i = Some t" "bt_read_path lf t = Inr q"
    using Cons.hyps(1) by (cases rq) (auto simp: batch_answer_def)
  obtain q' where q': "parses deser_path q' (ser_path E q)" "mset q' = mset q"
    using parses_path [OF E] Cons.prems by auto
  obtain qs' bs where ih: "batch_read_loop E st (length reqs) (concat (map (\<lambda>(i, lf). ser_int i @ ser_int lf) reqs)) (resp @ ser_path E q)
      = Inr (send_ok ((resp @ ser_path E q) @ bs))" "parses (deser_list deser_path (length reqs)) qs' bs"
    "list_all2 (\<lambda>q q'. mset q' = mset q) qs qs'"
    using Cons.IH [of "resp @ ser_path E q"] Cons.prems by auto
  have "parses (deser_list deser_path (length (rq # reqs))) (q' # qs') (ser_path E q @ bs)"
    unfolding parses_def by (simp add: parses_app [OF q'(1)] parses_app [OF ih(2)])
  then show ?case
    using ih(1,3) q'(2) by (intro exI [of _ "q' # qs'"] exI [of _ "ser_path E q @ bs"])
      (simp add: r parse_simps del: deser_list.simps)
qed

text \<open>
  Claim C23: a batched read returns, in one round trip, the path of every request in order, each read from
  the tree of its own store, and changes no store.
\<close>

theorem batch_read_correct:
  assumes "good_env E" "list_all2 (batch_answer st) reqs qs" "\<forall>q\<in>set qs. fits_path q" "length reqs < 2 ^ 31"
  shows "\<exists>qs'. batch_read_paths (server_requester E bench) reqs st = Inr (qs', st)
    \<and> list_all2 (\<lambda>q q'. mset q' = mset q) qs qs'"
proof -
  obtain qs' bs where *: "batch_read_loop E st (length reqs) (concat (map (\<lambda>(i, lf). ser_int i @ ser_int lf) reqs))
      (ser_int (of_nat (length reqs))) = Inr (send_ok (ser_int (of_nat (length reqs)) @ bs))"
    "parses (deser_list deser_path (length reqs)) qs' bs" "list_all2 (\<lambda>q q'. mset q' = mset q) qs qs'"
    using batch_read_loop_spec [OF assms(1-3)] by blast
  then show ?thesis
    by (intro exI [of _ qs']) (simp add: batch_read_paths_def server_requester_def dispatch_def handle_batch_read_def
        parse_simps sint_of_small_nat [OF assms(4)] parses_app [OF parses_count [OF assms(4)]] parses_end [OF *(2)])
qed

theorem batch_read_correct_witness:
  "\<exists>st q qs'. cs_stores st 0 = Some demo_tree \<and> bt_read_path 1 demo_tree = Inr q
    \<and> batch_read_paths (server_requester id_env no_bench) [(0, 1), (0, 1)] st = Inr (qs', st)
    \<and> list_all2 (\<lambda>q q'. mset q' = mset q) [q, q] qs'"
proof -
  let ?st = "\<lparr>cs_stores = [0 \<mapsto> demo_tree], cs_next_id = 1\<rparr>"
  have lf: "valid_leaf (bt_level demo_tree) (sint (1 :: i32))" by (simp add: demo_tree_inv valid_leaf_def)
  note r = tree_read_path [OF demo_tree_inv(1) lf]
  let ?q = "map (\<lambda>i. (i, bucket_at demo_tree i)) (rev (path_up (bt_level demo_tree) (sint (1 :: i32))))"
  have l1: "1 \<le> bt_level demo_tree" by (simp add: demo_tree_inv)
  have "fits_path ?q"
    by (rule path_fits [OF demo_tree_inv(1,3)]) (use distinct_path_up [OF l1 lf] path_up_range [OF l1 lf] in auto)
  then show ?thesis
    using batch_read_correct [OF id_env_good, of ?st "[(0, 1), (0, 1)]" "[?q, ?q]" no_bench] r
    by (intro exI [of _ ?st] exI [of _ ?q]) (simp add: batch_answer_def)
qed

end
