(* ===== verification/Path_Oram_State.thy ===== *)
theory Path_Oram_State
  imports Path_Oram_Properties Network_Properties
begin

text \<open>
  \<open>PathORAM::export_state\<close> and \<open>from_state_network\<close>: a server that has set up an ORAM hands the state of the
  client over, and the client continues on the tree that stays on the server.
\<close>

text \<open>A counted loop without a reservation: a negative count is an empty loop.\<close>

definition deser_loop :: "'a reader \<Rightarrow> 'a list reader" where
  "deser_loop f p = bind_result (deser_int p) (\<lambda>(n, p1). deser_list f (nat (sint n)) p1)"

definition deser_pair :: "(i32 \<times> i32) reader" where
  "deser_pair p =
     bind_result (deser_int p) (\<lambda>(k, p1). bind_result (deser_int p1) (\<lambda>(v, p2). Inr ((k, v), p2)))"

definition ser_pair :: "i32 \<times> i32 \<Rightarrow> bytes" where
  "ser_pair = (\<lambda>(k, v). ser_int k @ ser_int v)"

text \<open>\<open>pos\<close> is the hash map of the positions in its iteration order.\<close>

definition po_export_state :: "'s storage_ops \<Rightarrow> i32 \<Rightarrow> (i32 \<times> i32) list \<Rightarrow> 's path_oram \<Rightarrow> bytes" where
  "po_export_state ops store_id pos p =
     ser_int store_id @ ser_int (of_nat (po_level ops p)) @ ser_int (word_of_int (po_leaf_range ops p))
     @ ser_int (word_of_int (po_num_data p)) @ ser_int (word_of_int (po_bucket_size p))
     @ ser_int (word_of_int (po_stash_max_size p)) @ ser_int (word_of_int (po_block_size_bytes p))
     @ ser_bytes (po_aes_key p)
     @ ser_int (of_nat (length pos)) @ concat (map ser_pair pos)
     @ ser_int (of_nat (length (po_stash p))) @ concat (map ser_block (po_stash p))"

definition po_from_state_network :: "'c \<Rightarrow> 'c net_storage path_oram reader" where
  "po_from_state_network ch p =
     bind_result (deser_int p) (\<lambda>(store_id, p).
     bind_result (deser_int p) (\<lambda>(lv, p).
     bind_result (deser_int p) (\<lambda>(lrange, p).
     bind_result (deser_int p) (\<lambda>(num_data, p).
     bind_result (deser_int p) (\<lambda>(bsize, p).
     bind_result (deser_int p) (\<lambda>(smax, p).
     bind_result (deser_int p) (\<lambda>(blk, p).
     bind_result (deser_bytes p) (\<lambda>(k, p).
     bind_result (deser_loop deser_pair p) (\<lambda>(pos, p).
     bind_result (deser_loop deser_block p) (\<lambda>(st, p).
       Inr (\<lparr>po_num_data = sint num_data, po_bucket_size = sint bsize, po_stash_max_size = sint smax,
             po_storage = Some (ns_from_existing ch store_id lv lrange bsize), po_stash = st,
             po_pos_map = foldl (\<lambda>m (k, v). m(k \<mapsto> v)) Map.empty pos, po_block_size_bytes = sint blk,
             po_last_bw = zero_bandwidth, po_total_bw = zero_bandwidth, po_aes_key = k,
             po_cached_level = nat (sint lv), po_cached_leaf_range = sint lrange\<rparr>, p)))))))))))"

lemma parses_loop:
  assumes "\<forall>x\<in>set xs. parses f x (g x)" "length xs < 2 ^ 31"
  shows "parses (deser_loop f) xs (ser_int (of_nat (length xs)) @ concat (map g xs))"
  unfolding parses_def
  by (simp add: deser_loop_def parses_app [OF parses_int] sint_of_small_nat [OF assms(2)] parses_app [OF parses_list [OF assms(1)]])

lemma parses_pair: "parses deser_pair x (ser_pair x)"
  by (cases x) (simp add: parses_def deser_pair_def ser_pair_def parses_app [OF parses_int])

lemma foldl_upd_distinct:
  "distinct (map fst ps) \<Longrightarrow> foldl (\<lambda>m (k, v). m(k \<mapsto> v)) m0 ps = m0 ++ map_of ps"
proof (induction ps arbitrary: m0)
  case (Cons x ps)
  obtain k v where x: "x = (k, v)" by (cases x)
  have k: "k \<notin> dom (map_of ps)" and d: "distinct (map fst ps)"
    using Cons.prems by (auto simp: x dom_map_of_conv_image_fst)
  have "m0(k \<mapsto> v) ++ map_of ps = m0 ++ map_of (x # ps)"
    unfolding x map_of.simps fst_conv snd_conv map_add_upd_left [OF k] map_add_upd ..
  then show ?case unfolding foldl.simps x case_prod_conv Cons.IH [OF d] by (simp only: x)
qed simp

definition int_range :: "int \<Rightarrow> bool" where
  "int_range x \<longleftrightarrow> - (2 ^ 31) \<le> x \<and> x < 2 ^ 31"

lemma sint_int_range [simp]: "int_range x \<Longrightarrow> sint (word_of_int x :: i32) = x"
  by (simp add: int_range_def sint_sbintrunc' signed_take_bit_int_eq_self)

text \<open>What of a client fits the 32-bit fields of the message.\<close>

definition exportable :: "'s storage_ops \<Rightarrow> (i32 \<times> i32) list \<Rightarrow> 's path_oram \<Rightarrow> bool" where
  "exportable ops pos p \<longleftrightarrow> int_range (po_num_data p) \<and> int_range (po_bucket_size p) \<and> int_range (po_stash_max_size p)
     \<and> int_range (po_block_size_bytes p) \<and> int_range (po_leaf_range ops p) \<and> po_level ops p < 2 ^ 31
     \<and> length (po_aes_key p) < 2 ^ 31 \<and> fits_bucket (po_stash p)
     \<and> length pos < 2 ^ 31 \<and> distinct (map fst pos) \<and> map_of pos = po_pos_map p"

text \<open>
  Claim C24: a client restored from an exported state has the parameters, the key, the positions and the
  stash of the exported one, in whatever order the hash map of the positions was written, and works on
  the remote store that was named; the message is consumed exactly.
\<close>

theorem path_oram_state_roundtrip:
  assumes "exportable ops pos p"
  shows "po_from_state_network ch (po_export_state ops store_id pos p @ rest) =
    Inr (\<lparr>po_num_data = po_num_data p, po_bucket_size = po_bucket_size p, po_stash_max_size = po_stash_max_size p,
          po_storage = Some (ns_from_existing ch store_id (of_nat (po_level ops p)) (word_of_int (po_leaf_range ops p))
            (word_of_int (po_bucket_size p))),
          po_stash = po_stash p, po_pos_map = po_pos_map p, po_block_size_bytes = po_block_size_bytes p,
          po_last_bw = zero_bandwidth, po_total_bw = zero_bandwidth, po_aes_key = po_aes_key p,
          po_cached_level = po_level ops p, po_cached_leaf_range = po_leaf_range ops p\<rparr>, rest)"
proof -
  have e: "int_range (po_num_data p)" "int_range (po_bucket_size p)" "int_range (po_stash_max_size p)"
    "int_range (po_block_size_bytes p)" "int_range (po_leaf_range ops p)" "po_level ops p < 2 ^ 31"
    "length (po_aes_key p) < 2 ^ 31" "fits_bucket (po_stash p)" "length pos < 2 ^ 31"
    "distinct (map fst pos)" "map_of pos = po_pos_map p"
    using assms by (simp_all add: exportable_def)
  have pm: "foldl (\<lambda>m (k, v). m(k \<mapsto> v)) Map.empty pos = po_pos_map p"
    using foldl_upd_distinct [OF e(10), of Map.empty] e(11) by simp
  have l1: "parses (deser_loop deser_pair) pos (ser_int (of_nat (length pos)) @ concat (map ser_pair pos))"
    by (rule parses_loop [OF _ e(9)]) (simp add: parses_pair)
  have l2: "parses (deser_loop deser_block) (po_stash p)
      (ser_int (of_nat (length (po_stash p))) @ concat (map ser_block (po_stash p)))"
    by (rule parses_loop) (use e(8) in \<open>auto simp: fits_bucket_def parses_block\<close>)
  note app = parses_app [OF l1, unfolded append_assoc] parses_app [OF l2, unfolded append_assoc]
  show ?thesis
    unfolding po_export_state_def po_from_state_network_def append_assoc
    by (simp add: parses_app [OF parses_int] parses_app [OF parses_bytes [OF e(7)]] app e(1-5) pm sint_of_small_nat [OF e(6)])
qed

definition demo_client :: "bucket_tree path_oram" where
  "demo_client =
     \<lparr>po_num_data = 2, po_bucket_size = 4, po_stash_max_size = 7, po_storage = Some demo_tree,
      po_stash = [demo_block], po_pos_map = [5 \<mapsto> 1], po_block_size_bytes = 1, po_last_bw = zero_bandwidth,
      po_total_bw = zero_bandwidth, po_aes_key = replicate 16 3, po_cached_level = 2, po_cached_leaf_range = 2\<rparr>"

lemma demo_exportable: "exportable tree_ops [(5, 1)] demo_client"
  "po_level tree_ops demo_client = 2" "po_leaf_range tree_ops demo_client = 2"
proof -
  show l: "po_level tree_ops demo_client = 2" "po_leaf_range tree_ops demo_client = 2"
    by (simp_all add: po_level_def po_leaf_range_def tree_ops_def demo_client_def demo_tree_inv)
      (simp add: demo_tree_def new_bucket_tree_def log2_2 Let_def)
  show "exportable tree_ops [(5, 1)] demo_client"
    unfolding exportable_def l by (simp add: demo_client_def int_range_def fits_bucket_def demo_block_def)
qed

theorem path_oram_state_roundtrip_witness:
  "case po_from_state_network () (po_export_state tree_ops 3 [(5, 1)] demo_client) of
     Inl e \<Rightarrow> False
   | Inr (p, rest) \<Rightarrow> po_stash p = [demo_block] \<and> po_pos_map p = [5 \<mapsto> 1] \<and> po_num_data p = 2 \<and> rest = []"
  using path_oram_state_roundtrip [OF demo_exportable(1), of "()" 3 "[]"]
  by (simp add: demo_client_def)

end
