(* ===== verification/Maintenance.thy ===== *)
theory Maintenance
  imports Common
begin

text \<open>
  \<open>include/tiered_omap/maintenance.h\<close>: the policy of the tiered map. It counts accesses into epochs,
  estimates the frequency of a key from the metadata stored with its value, decides on which accesses the
  three maintenance steps run, and keeps the cache of keys that are on their way between the tiers.
\<close>

record maintenance_config =
  mc_observation_window :: i32
  mc_swap_interval :: i32
  mc_cache_size :: i32
  mc_enabled :: bool
  mc_piggyback :: bool

definition default_maintenance_config :: maintenance_config where
  "default_maintenance_config =
     \<lparr>mc_observation_window = 65536, mc_swap_interval = 32, mc_cache_size = 8, mc_enabled = False, mc_piggyback = False\<rparr>"

record cache_entry =
  ce_key :: i32
  ce_fp :: i32

datatype swap_state = Idle | HotPend | ColdPend

record maintenance_manager =
  mm_cfg :: maintenance_config
  mm_cache :: "cache_entry list"
  mm_swap_state :: swap_state
  mm_obs_epoch :: i32
  mm_total_accesses :: i32
  mm_scan_ptr :: i32

definition new_maintenance_manager :: "maintenance_config \<Rightarrow> maintenance_manager" where
  "new_maintenance_manager cfg =
     \<lparr>mm_cfg = cfg, mm_cache = [], mm_swap_state = Idle, mm_obs_epoch = 0, mm_total_accesses = 0, mm_scan_ptr = - 1\<rparr>"

section \<open>Epochs\<close>

definition update_meta :: "maintenance_manager \<Rightarrow> epoch_meta \<Rightarrow> epoch_meta" where
  "update_meta mm m =
     (if sint (ep m) < sint (mm_obs_epoch mm)
      then m\<lparr>fp := (if ep m = mm_obs_epoch mm - 1 then cnt m else 0), cnt := 1, ep := mm_obs_epoch mm\<rparr>
      else m\<lparr>cnt := cnt m + 1\<rparr>)"

text \<open>C++ division truncates; a division by zero is undefined.\<close>

definition c_div :: "i32 \<Rightarrow> i32 \<Rightarrow> i32 result" where
  "c_div a b = (if b = 0 then Inl DivideByZero else Inr (word_of_int (sint a sdiv sint b)))"

definition c_mod :: "i32 \<Rightarrow> i32 \<Rightarrow> i32 result" where
  "c_mod a b = (if b = 0 then Inl DivideByZero else Inr (word_of_int (sint a smod sint b)))"

definition tick :: "maintenance_manager \<Rightarrow> maintenance_manager result" where
  "tick mm =
     (let n = mm_total_accesses mm + 1
      in bind_result (c_div n (mc_observation_window (mm_cfg mm))) (\<lambda>e.
           Inr (mm\<lparr>mm_total_accesses := n, mm_obs_epoch := e\<rparr>)))"

section \<open>Triggers\<close>

definition can_maintain :: "maintenance_manager \<Rightarrow> bool" where
  "can_maintain mm \<longleftrightarrow> 0 < sint (mm_total_accesses mm) \<and> 0 < sint (mm_obs_epoch mm)"

definition mm_phase :: "maintenance_manager \<Rightarrow> i32 result" where
  "mm_phase mm = c_mod (mm_total_accesses mm) (mc_swap_interval (mm_cfg mm))"

definition scan_phase :: int where
  "scan_phase = 0"

definition hot_insert_phase :: "maintenance_manager \<Rightarrow> int" where
  "hot_insert_phase mm = max 1 (sint (mc_swap_interval (mm_cfg mm)) sdiv 3)"

definition cold_insert_phase :: "maintenance_manager \<Rightarrow> int" where
  "cold_insert_phase mm = max 2 (sint (2 * mc_swap_interval (mm_cfg mm)) sdiv 3)"

text \<open>\<open>can_maintain() && phase() == p\<close>: the phase is not computed before maintenance has started.\<close>

definition at_phase :: "maintenance_manager \<Rightarrow> int \<Rightarrow> bool result" where
  "at_phase mm p =
     (if can_maintain mm then bind_result (mm_phase mm) (\<lambda>x. Inr (sint x = p)) else Inr False)"

definition should_scan :: "maintenance_manager \<Rightarrow> bool result" where
  "should_scan mm = at_phase mm scan_phase"

definition should_hot_insert :: "maintenance_manager \<Rightarrow> bool result" where
  "should_hot_insert mm = at_phase mm (hot_insert_phase mm)"

definition should_cold_insert :: "maintenance_manager \<Rightarrow> bool result" where
  "should_cold_insert mm = at_phase mm (cold_insert_phase mm)"

definition should_maintain :: "maintenance_manager \<Rightarrow> bool result" where
  "should_maintain mm =
     bind_result (should_scan mm) (\<lambda>a. if a then Inr True else
     bind_result (should_hot_insert mm) (\<lambda>b. if b then Inr True else should_cold_insert mm))"

section \<open>The cache\<close>

definition should_promote :: "i32 \<Rightarrow> maintenance_manager \<Rightarrow> bool" where
  "should_promote f mm =
     (case mm_cache mm of [] \<Rightarrow> False
      | e # es \<Rightarrow> sint f > foldl (\<lambda>m x. if sint (ce_fp x) < m then sint (ce_fp x) else m) (sint (ce_fp e)) es)"

definition should_demote_cache :: "i32 \<Rightarrow> maintenance_manager \<Rightarrow> bool" where
  "should_demote_cache f mm =
     (case mm_cache mm of [] \<Rightarrow> False
      | e # es \<Rightarrow> sint f < foldl (\<lambda>m x. if sint (ce_fp x) > m then sint (ce_fp x) else m) (sint (ce_fp e)) es)"

text \<open>The index of the first largest, or first smallest, frequency.\<close>

fun best_index :: "bool \<Rightarrow> cache_entry list \<Rightarrow> nat \<Rightarrow> nat \<Rightarrow> nat \<Rightarrow> nat" where
  "best_index from_hot cache i 0 idx = idx"
| "best_index from_hot cache i (Suc n) idx =
     (let better = (if from_hot then sint (ce_fp (cache ! i)) > sint (ce_fp (cache ! idx))
                    else sint (ce_fp (cache ! i)) < sint (ce_fp (cache ! idx)))
      in best_index from_hot cache (Suc i) n (if better then i else idx))"

definition cache_admit :: "i32 \<Rightarrow> i32 \<Rightarrow> bool \<Rightarrow> maintenance_manager \<Rightarrow> cache_entry \<times> maintenance_manager" where
  "cache_admit k f from_hot mm =
     (let cache = mm_cache mm @ [\<lparr>ce_key = k, ce_fp = f\<rparr>];
          idx = best_index from_hot cache 1 (length cache - 1) 0
      in (cache ! idx, mm\<lparr>mm_cache := take idx cache @ drop (Suc idx) cache\<rparr>))"

definition set_swap_state :: "swap_state \<Rightarrow> maintenance_manager \<Rightarrow> maintenance_manager" where
  "set_swap_state st mm = mm\<lparr>mm_swap_state := st\<rparr>"

definition set_scan_ptr :: "i32 \<Rightarrow> maintenance_manager \<Rightarrow> maintenance_manager" where
  "set_scan_ptr k mm = mm\<lparr>mm_scan_ptr := k\<rparr>"

definition reset_scan_ptr :: "maintenance_manager \<Rightarrow> maintenance_manager" where
  "reset_scan_ptr mm = mm\<lparr>mm_scan_ptr := - 1\<rparr>"

definition init_cache :: "cache_entry list \<Rightarrow> maintenance_manager \<Rightarrow> maintenance_manager" where
  "init_cache es mm = mm\<lparr>mm_cache := es\<rparr>"

definition is_in_cache :: "i32 \<Rightarrow> maintenance_manager \<Rightarrow> bool" where
  "is_in_cache k mm \<longleftrightarrow> (\<exists>e\<in>set (mm_cache mm). ce_key e = k)"

fun update_first_fp :: "i32 \<Rightarrow> i32 \<Rightarrow> cache_entry list \<Rightarrow> cache_entry list" where
  "update_first_fp k f [] = []"
| "update_first_fp k f (e # es) = (if ce_key e = k then e\<lparr>ce_fp := f\<rparr> # es else e # update_first_fp k f es)"

definition update_cache_fp :: "i32 \<Rightarrow> i32 \<Rightarrow> maintenance_manager \<Rightarrow> maintenance_manager" where
  "update_cache_fp k f mm = mm\<lparr>mm_cache := update_first_fp k f (mm_cache mm)\<rparr>"

section \<open>Lemmas\<close>

text \<open>The best entry is in range and nothing is better.\<close>

definition rank :: "bool \<Rightarrow> cache_entry \<Rightarrow> int" where
  "rank from_hot e = (if from_hot then sint (ce_fp e) else - sint (ce_fp e))"

lemma best_index_spec:
  assumes "idx < i" "i + n \<le> length cache" "\<forall>j<i. rank fh (cache ! j) \<le> rank fh (cache ! idx)"
  shows "best_index fh cache i n idx < i + n
    \<and> (\<forall>j<i + n. rank fh (cache ! j) \<le> rank fh (cache ! best_index fh cache i n idx))"
  using assms
proof (induction n arbitrary: i idx)
  case (Suc n)
  let ?b = "rank fh (cache ! i) > rank fh (cache ! idx)"
  have b: "(if fh then sint (ce_fp (cache ! i)) > sint (ce_fp (cache ! idx))
      else sint (ce_fp (cache ! i)) < sint (ce_fp (cache ! idx))) = ?b"
    by (simp add: rank_def)
  have "\<forall>j<Suc i. rank fh (cache ! j) \<le> rank fh (cache ! (if ?b then i else idx))"
    using Suc.prems(3) by (auto simp: less_Suc_eq)
  moreover have "(if ?b then i else idx) < Suc i" using Suc.prems(1) by simp
  ultimately have "best_index fh cache (Suc i) n (if ?b then i else idx) < Suc i + n
    \<and> (\<forall>j<Suc i + n. rank fh (cache ! j) \<le> rank fh (cache ! best_index fh cache (Suc i) n (if ?b then i else idx)))"
    using Suc.IH [of "if ?b then i else idx" "Suc i"] Suc.prems(2) by simp
  then show ?case unfolding best_index.simps Let_def b by simp
qed auto

lemma cache_admit_spec:
  assumes "cache_admit k f fh mm = (e, mm')"
  shows "mset (mm_cache mm') + {#e#} = mset (mm_cache mm) + {#\<lparr>ce_key = k, ce_fp = f\<rparr>#}"
    and "\<forall>x\<in>set (mm_cache mm). rank fh x \<le> rank fh e" "rank fh \<lparr>ce_key = k, ce_fp = f\<rparr> \<le> rank fh e"
    and "mm' = mm\<lparr>mm_cache := mm_cache mm'\<rparr>"
proof -
  let ?c = "mm_cache mm @ [\<lparr>ce_key = k, ce_fp = f\<rparr>]"
  let ?i = "best_index fh ?c 1 (length ?c - 1) 0"
  have s: "?i < 1 + (length ?c - 1) \<and> (\<forall>j<1 + (length ?c - 1). rank fh (?c ! j) \<le> rank fh (?c ! ?i))"
    by (rule best_index_spec) simp_all
  then have i: "?i < length ?c" by simp
  have best: "\<forall>x\<in>set ?c. rank fh x \<le> rank fh (?c ! ?i)"
  proof
    fix x assume "x \<in> set ?c"
    then obtain j where "j < length ?c" "?c ! j = x" unfolding in_set_conv_nth by blast
    moreover have "1 + (length ?c - 1) = length ?c" by simp
    ultimately show "rank fh x \<le> rank fh (?c ! ?i)" using s by metis
  qed
  have e: "e = ?c ! ?i" "mm' = mm\<lparr>mm_cache := take ?i ?c @ drop (Suc ?i) ?c\<rparr>"
    using assms by (simp_all add: cache_admit_def Let_def)
  have "mset ?c = mset (take ?i ?c @ ?c ! ?i # drop (Suc ?i) ?c)"
    using id_take_nth_drop [OF i] by (rule arg_cong)
  then show "mset (mm_cache mm') + {#e#} = mset (mm_cache mm) + {#\<lparr>ce_key = k, ce_fp = f\<rparr>#}"
    unfolding e by (simp del: append_take_drop_id)
  show "\<forall>x\<in>set (mm_cache mm). rank fh x \<le> rank fh e" "rank fh \<lparr>ce_key = k, ce_fp = f\<rparr> \<le> rank fh e"
    using best e(1) by simp_all
  show "mm' = mm\<lparr>mm_cache := mm_cache mm'\<rparr>" using e(2) by simp
qed

lemma foldl_min_le: "foldl (\<lambda>m x. if g x < m then g x else m) a es \<in> insert a (g ` set es)" for g :: "'a \<Rightarrow> int"
  by (induction es arbitrary: a) auto

lemma foldl_max_ge: "foldl (\<lambda>m x. if g x > m then g x else m) a es \<in> insert a (g ` set es)" for g :: "'a \<Rightarrow> int"
  by (induction es arbitrary: a) auto

lemma should_promote_some: "should_promote f mm \<Longrightarrow> \<exists>e\<in>set (mm_cache mm). sint (ce_fp e) < sint f"
proof (cases "mm_cache mm")
  case (Cons e es)
  assume "should_promote f mm"
  then show ?thesis using foldl_min_le [of "\<lambda>x. sint (ce_fp x)" "sint (ce_fp e)" es] by (auto simp: should_promote_def Cons)
qed (simp add: should_promote_def)

lemma should_demote_some: "should_demote_cache f mm \<Longrightarrow> \<exists>e\<in>set (mm_cache mm). sint f < sint (ce_fp e)"
proof (cases "mm_cache mm")
  case (Cons e es)
  assume "should_demote_cache f mm"
  then show ?thesis using foldl_max_ge [of "\<lambda>x. sint (ce_fp x)" "sint (ce_fp e)" es] by (auto simp: should_demote_cache_def Cons)
qed (simp add: should_demote_cache_def)

text \<open>The phases as the remainder of the access count.\<close>

definition live_maintenance :: "maintenance_manager \<Rightarrow> bool" where
  "live_maintenance mm \<longleftrightarrow> can_maintain mm \<and> 3 \<le> sint (mc_swap_interval (mm_cfg mm)) \<and> sint (mc_swap_interval (mm_cfg mm)) < 2 ^ 30"

lemma phase_value:
  assumes "live_maintenance mm"
  shows "mm_phase mm = Inr (word_of_int (sint (mm_total_accesses mm) mod sint (mc_swap_interval (mm_cfg mm))))"
    "sint (word_of_int (sint (mm_total_accesses mm) mod sint (mc_swap_interval (mm_cfg mm))) :: i32)
      = sint (mm_total_accesses mm) mod sint (mc_swap_interval (mm_cfg mm))"
    "hot_insert_phase mm = sint (mc_swap_interval (mm_cfg mm)) div 3"
    "cold_insert_phase mm = max 2 (2 * sint (mc_swap_interval (mm_cfg mm)) div 3)"
proof -
  let ?b = "mc_swap_interval (mm_cfg mm)" and ?n = "sint (mm_total_accesses mm)"
  have b: "3 \<le> sint ?b" "sint ?b < 2 ^ 30" "0 < ?n" using assms by (simp_all add: live_maintenance_def can_maintain_def)
  then have nz: "?b \<noteq> 0" by auto
  have m: "0 \<le> ?n mod sint ?b" "?n mod sint ?b < sint ?b" using b by simp_all
  have "?n smod sint ?b = ?n mod sint ?b" using b by (simp add: signed_modulo_int_def sgn_if)
  then show "mm_phase mm = Inr (word_of_int (?n mod sint ?b))" using nz by (simp add: mm_phase_def c_mod_def)
  show "sint (word_of_int (?n mod sint ?b) :: i32) = ?n mod sint ?b"
    using m b(2) by (simp add: sint_sbintrunc' signed_take_bit_int_eq_self)
  show "hot_insert_phase mm = sint ?b div 3"
    using b by (simp add: hot_insert_phase_def signed_divide_int_def sgn_if)
  have "sint (2 * ?b) = 2 * sint ?b"
    using b by (simp add: sint_word_mult signed_take_bit_int_eq_self)
  then show "cold_insert_phase mm = max 2 (2 * sint ?b div 3)"
    using b by (simp add: cold_insert_phase_def signed_divide_int_def sgn_if)
qed

lemma at_phase_value:
  "live_maintenance mm \<Longrightarrow> at_phase mm p = Inr (sint (mm_total_accesses mm) mod sint (mc_swap_interval (mm_cfg mm)) = p)"
  by (simp add: at_phase_def phase_value) (simp add: live_maintenance_def)

end
