(* ===== verification/Maintenance_Properties.thy ===== *)
theory Maintenance_Properties
  imports Maintenance
begin

text \<open>
  The properties of the maintenance policy: the three steps never coincide and each comes up once per
  period, the cache keeps its size and the right key leaves it, and the metadata estimates frequencies.
\<close>

section \<open>The schedule\<close>

fun ticks :: "nat \<Rightarrow> maintenance_manager \<Rightarrow> maintenance_manager result" where
  "ticks 0 mm = Inr mm"
| "ticks (Suc n) mm = bind_result (ticks n mm) tick"

text \<open>The epoch is the one of the access count, and \<open>n\<close> more accesses can be counted.\<close>

definition countable_ticks :: "maintenance_manager \<Rightarrow> nat \<Rightarrow> bool" where
  "countable_ticks mm n \<longleftrightarrow> 0 < sint (mc_observation_window (mm_cfg mm))
     \<and> sint (mm_obs_epoch mm) = sint (mm_total_accesses mm) div sint (mc_observation_window (mm_cfg mm))
     \<and> sint (mm_total_accesses mm) + int n < 2 ^ 31"

lemma sint_div_small: "0 \<le> a \<Longrightarrow> a < 2 ^ 31 \<Longrightarrow> 0 < b \<Longrightarrow> sint (word_of_int (a div b) :: i32) = a div (b :: int)"
proof -
  assume *: "0 \<le> a" "a < 2 ^ 31" "0 < b"
  have "0 \<le> a div b" using * by (simp add: pos_imp_zdiv_nonneg_iff)
  moreover have "a div b \<le> a"
  proof -
    have "a div b \<le> (a div b) * b" using * \<open>0 \<le> a div b\<close> by (simp add: mult_le_cancel_left1)
    also have "\<dots> \<le> a" using * by (simp add: minus_mod_eq_div_mult [symmetric])
    finally show ?thesis .
  qed
  ultimately show ?thesis using *(2) by (simp add: sint_sbintrunc' signed_take_bit_int_eq_self)
qed

lemma tick_value:
  assumes "0 < sint (mc_observation_window (mm_cfg mm))" "0 \<le> sint (mm_total_accesses mm)"
    "sint (mm_total_accesses mm) + 1 < 2 ^ 31"
  shows "\<exists>mm'. tick mm = Inr mm' \<and> mm_cfg mm' = mm_cfg mm \<and> sint (mm_total_accesses mm') = sint (mm_total_accesses mm) + 1
    \<and> sint (mm_obs_epoch mm') = (sint (mm_total_accesses mm) + 1) div sint (mc_observation_window (mm_cfg mm))"
proof -
  let ?w = "mc_observation_window (mm_cfg mm)"
  have s: "sint (mm_total_accesses mm + 1) = sint (mm_total_accesses mm) + 1"
    using assms(2,3) by (simp add: sint_word_add signed_take_bit_int_eq_self)
  have nz: "?w \<noteq> 0" using assms(1) by auto
  have d: "(sint (mm_total_accesses mm) + 1) sdiv sint ?w = (sint (mm_total_accesses mm) + 1) div sint ?w"
    using assms by (simp add: signed_divide_int_def sgn_if)
  show ?thesis
    using nz sint_div_small [of "sint (mm_total_accesses mm) + 1" "sint ?w"] assms
    by (simp add: tick_def Let_def c_div_def s d)
qed

lemma ticks_value:
  assumes "live_maintenance mm" "countable_ticks mm n"
  shows "\<exists>mm'. ticks n mm = Inr mm' \<and> mm_cfg mm' = mm_cfg mm \<and> live_maintenance mm'
    \<and> sint (mm_total_accesses mm') = sint (mm_total_accesses mm) + int n"
  using assms(2)
proof (induction n)
  case 0
  then show ?case using assms(1) by simp
next
  case (Suc n)
  let ?w = "sint (mc_observation_window (mm_cfg mm))"
  have c: "countable_ticks mm n" "0 < ?w" "sint (mm_obs_epoch mm) = sint (mm_total_accesses mm) div ?w"
    "sint (mm_total_accesses mm) + int n + 1 < 2 ^ 31"
    using Suc.prems by (simp_all add: countable_ticks_def)
  obtain m1 where m1: "ticks n mm = Inr m1" "mm_cfg m1 = mm_cfg mm" "live_maintenance m1"
    "sint (mm_total_accesses m1) = sint (mm_total_accesses mm) + int n"
    using Suc.IH [OF c(1)] by blast
  have pos: "0 < sint (mm_total_accesses mm)" "0 < sint (mm_obs_epoch mm)"
    using assms(1) by (simp_all add: live_maintenance_def can_maintain_def)
  obtain m2 where m2: "tick m1 = Inr m2" "mm_cfg m2 = mm_cfg m1" "sint (mm_total_accesses m2) = sint (mm_total_accesses m1) + 1"
    "sint (mm_obs_epoch m2) = (sint (mm_total_accesses m1) + 1) div ?w"
    using tick_value [of m1] c(2,4) pos(1) m1(2,4) by auto
  have "sint (mm_obs_epoch mm) \<le> sint (mm_obs_epoch m2)"
    unfolding c(3) m2(4) m1(4) by (rule zdiv_mono1) (use c(2) in simp_all)
  then have "live_maintenance m2"
    using m1(3) m2(2,3) pos(2) by (simp add: live_maintenance_def can_maintain_def)
  then show ?case using m1 m2 by simp
qed

text \<open>
  Claim C19: the schedule is staggered. With a swap interval of at least 3 at most one of the scan, the
  hot insertion and the cold insertion is due on an access.
\<close>

theorem maintenance_staggered:
  assumes "live_maintenance mm"
  shows "case (should_scan mm, should_hot_insert mm, should_cold_insert mm) of
      (Inr a, Inr b, Inr c) \<Rightarrow> \<not> (a \<and> b) \<and> \<not> (a \<and> c) \<and> \<not> (b \<and> c)
    | _ \<Rightarrow> False"
proof -
  have b: "3 \<le> sint (mc_swap_interval (mm_cfg mm))" using assms by (simp add: live_maintenance_def)
  then have "0 < sint (mc_swap_interval (mm_cfg mm)) div 3" "sint (mc_swap_interval (mm_cfg mm)) div 3 < 2
      \<or> sint (mc_swap_interval (mm_cfg mm)) div 3 < 2 * sint (mc_swap_interval (mm_cfg mm)) div 3"
    by presburger+
  then show ?thesis
    by (auto simp: should_scan_def should_hot_insert_def should_cold_insert_def at_phase_value [OF assms]
        phase_value [OF assms] scan_phase_def)
qed

definition demo_manager :: maintenance_manager where
  "demo_manager =
     (new_maintenance_manager default_maintenance_config)\<lparr>mm_total_accesses := 65546, mm_obs_epoch := 1\<rparr>"

lemma demo_live: "live_maintenance demo_manager" "countable_ticks demo_manager 1000"
  by (simp_all add: live_maintenance_def can_maintain_def countable_ticks_def demo_manager_def
      new_maintenance_manager_def default_maintenance_config_def)

theorem maintenance_staggered_witness:
  "case (should_scan demo_manager, should_hot_insert demo_manager, should_cold_insert demo_manager) of
      (Inr a, Inr b, Inr c) \<Rightarrow> \<not> (a \<and> b) \<and> \<not> (a \<and> c) \<and> \<not> (b \<and> c)
    | _ \<Rightarrow> False"
  by (rule maintenance_staggered [OF demo_live(1)])

lemma unique_residue:
  fixes n b p :: int
  assumes "0 < b" "0 \<le> p" "p < b"
  shows "\<exists>!i. i < nat b \<and> (n + int i) mod b = p"
proof (intro ex1I [of _ "nat ((p - n) mod b)"] conjI)
  have r: "0 \<le> (p - n) mod b" "(p - n) mod b < b" using assms(1) by simp_all
  then show "nat ((p - n) mod b) < nat b" by (simp add: nat_less_eq_zless)
  have "(n + (p - n) mod b) mod b = (n + (p - n)) mod b" by (rule mod_add_right_eq)
  then show "(n + int (nat ((p - n) mod b))) mod b = p" using r assms by simp
  fix i assume i: "i < nat b \<and> (n + int i) mod b = p"
  then have "(p - n) mod b = ((n + int i) mod b - n) mod b" by simp
  also have "\<dots> = int i mod b" by (simp add: mod_diff_left_eq)
  also have "\<dots> = int i" using i by (intro mod_pos_pos_trivial) (simp_all add: zless_nat_eq_int_zless)
  finally show "i = nat ((p - n) mod b)" by simp
qed

lemma phase_comes_up:
  assumes live: "live_maintenance mm" and cnt: "countable_ticks mm (nat (sint (mc_swap_interval (mm_cfg mm))))"
    and p: "0 \<le> p" "p < sint (mc_swap_interval (mm_cfg mm))"
    and q: "\<And>mm'. mm_cfg mm' = mm_cfg mm \<Longrightarrow> live_maintenance mm' \<Longrightarrow>
      q mm' = Inr (sint (mm_total_accesses mm') mod sint (mc_swap_interval (mm_cfg mm)) = p)"
  shows "\<exists>!i. i < nat (sint (mc_swap_interval (mm_cfg mm))) \<and> bind_result (ticks i mm) q = Inr True"
proof -
  let ?b = "sint (mc_swap_interval (mm_cfg mm))"
  have eq: "bind_result (ticks i mm) q = Inr ((sint (mm_total_accesses mm) + int i) mod ?b = p)" if "i < nat ?b" for i
  proof -
    have "int i \<le> int (nat ?b)" using that by (simp only: of_nat_le_iff less_imp_le)
    then have "countable_ticks mm i" using cnt unfolding countable_ticks_def by linarith
    from ticks_value [OF live this] q show ?thesis by auto
  qed
  have "0 < ?b" using live by (simp add: live_maintenance_def)
  have "(i < nat ?b \<and> bind_result (ticks i mm) q = Inr True) \<longleftrightarrow> (i < nat ?b \<and> (sint (mm_total_accesses mm) + int i) mod ?b = p)" for i
    by (cases "i < nat ?b") (simp_all add: eq)
  then show ?thesis using unique_residue [OF \<open>0 < ?b\<close> p] by simp
qed

text \<open>
  Claim C16: the schedule is live for swap intervals from 3 up to, but not including, \<open>2 ^ 30\<close>. Once maintenance
  has started, among as many consecutive accesses as the swap interval is long the scan, the hot insertion and
  the cold insertion are due exactly once each, as long as the counter of the accesses, an \<open>int\<close>, does not
  overflow. (For the intervals 1 and 2 the cold insertion is never due: \<open>short_interval_no_cold_insert\<close>.)
\<close>

theorem maintenance_live:
  assumes "live_maintenance mm" "countable_ticks mm (nat (sint (mc_swap_interval (mm_cfg mm))))"
  shows "(\<exists>!i. i < nat (sint (mc_swap_interval (mm_cfg mm))) \<and> bind_result (ticks i mm) should_scan = Inr True)
    \<and> (\<exists>!i. i < nat (sint (mc_swap_interval (mm_cfg mm))) \<and> bind_result (ticks i mm) should_hot_insert = Inr True)
    \<and> (\<exists>!i. i < nat (sint (mc_swap_interval (mm_cfg mm))) \<and> bind_result (ticks i mm) should_cold_insert = Inr True)"
proof -
  let ?b = "sint (mc_swap_interval (mm_cfg mm))"
  have b: "3 \<le> ?b" using assms(1) by (simp add: live_maintenance_def)
  show ?thesis
  proof (intro conjI)
    show "\<exists>!i. i < nat ?b \<and> bind_result (ticks i mm) should_scan = Inr True"
      by (rule phase_comes_up [OF assms, of 0])
        (use b in \<open>simp_all add: should_scan_def at_phase_value scan_phase_def\<close>)
    show "\<exists>!i. i < nat ?b \<and> bind_result (ticks i mm) should_hot_insert = Inr True"
      by (rule phase_comes_up [OF assms, of "?b div 3"])
        (use b in \<open>simp_all add: should_hot_insert_def at_phase_value phase_value\<close>)
    have "max 2 (2 * ?b div 3) < ?b" using b by auto
    then show "\<exists>!i. i < nat ?b \<and> bind_result (ticks i mm) should_cold_insert = Inr True"
      by (intro phase_comes_up [OF assms, of "max 2 (2 * ?b div 3)"])
        (simp_all add: should_cold_insert_def at_phase_value phase_value)
  qed
qed

theorem maintenance_live_witness:
  "\<exists>!i. i < 32 \<and> bind_result (ticks i demo_manager) should_scan = Inr True"
proof -
  have "countable_ticks demo_manager (nat (sint (mc_swap_interval (mm_cfg demo_manager))))"
    using demo_live(2) by (simp add: countable_ticks_def demo_manager_def new_maintenance_manager_def default_maintenance_config_def)
  from maintenance_live [OF demo_live(1) this] show ?thesis
    by (simp add: demo_manager_def new_maintenance_manager_def default_maintenance_config_def)
qed



section \<open>The cache\<close>

text \<open>
  Claim C17: admission to the cache keeps its size: the admitted key and the cached ones, but for the
  evicted one, are what the cache holds. Evicted is a key of the greatest frequency on the way from the
  hot tier, of the least on the way from the cold one; and an admission that \<open>should_promote\<close> or
  \<open>should_demote_cache\<close> has allowed evicts a key that was in the cache before.
\<close>

theorem cache_admission:
  assumes "cache_admit k f from_hot mm = (e, mm')"
  shows "mset (mm_cache mm') + {#e#} = mset (mm_cache mm) + {#\<lparr>ce_key = k, ce_fp = f\<rparr>#}
    \<and> length (mm_cache mm') = length (mm_cache mm) \<and> mm' = mm\<lparr>mm_cache := mm_cache mm'\<rparr>
    \<and> (\<forall>x\<in>set (mm_cache mm'). if from_hot then sint (ce_fp x) \<le> sint (ce_fp e) else sint (ce_fp e) \<le> sint (ce_fp x))
    \<and> ((if from_hot then should_demote_cache f mm else should_promote f mm) \<longrightarrow> e \<in> set (mm_cache mm))"
proof (intro conjI ballI impI)
  let ?n = "\<lparr>ce_key = k, ce_fp = f\<rparr>"
  note s = cache_admit_spec [OF assms]
  show m: "mset (mm_cache mm') + {#e#} = mset (mm_cache mm) + {#?n#}" by (rule s(1))
  from m have "size (mset (mm_cache mm') + {#e#}) = size (mset (mm_cache mm) + {#?n#})" by (rule arg_cong)
  then show "length (mm_cache mm') = length (mm_cache mm)" by simp
  show "mm' = mm\<lparr>mm_cache := mm_cache mm'\<rparr>" by (rule s(4))
  have all: "rank from_hot x \<le> rank from_hot e" if "x \<in># mset (mm_cache mm) + {#?n#}" for x
    using that s(2,3) by auto
  show "if from_hot then sint (ce_fp x) \<le> sint (ce_fp e) else sint (ce_fp e) \<le> sint (ce_fp x)"
    if "x \<in> set (mm_cache mm')" for x
  proof -
    have "x \<in># mset (mm_cache mm') + {#e#}" using that by simp
    then have "rank from_hot x \<le> rank from_hot e" by (intro all) (simp only: m)
    then show ?thesis by (simp add: rank_def split: if_splits)
  qed
  assume "if from_hot then should_demote_cache f mm else should_promote f mm"
  then obtain x where x: "x \<in> set (mm_cache mm)" "rank from_hot ?n < rank from_hot x"
    using should_promote_some [of f mm] should_demote_some [of f mm] by (cases from_hot) (auto simp: rank_def)
  have "rank from_hot x \<le> rank from_hot e" using all x(1) by simp
  then have "e \<noteq> ?n" using x(2) by auto
  moreover have "e \<in># mset (mm_cache mm) + {#?n#}" unfolding m [symmetric] by simp
  ultimately show "e \<in> set (mm_cache mm)" by auto
qed

theorem cache_admission_witness:
  "fst (cache_admit 9 4 False (init_cache [\<lparr>ce_key = 1, ce_fp = 3\<rparr>, \<lparr>ce_key = 2, ce_fp = 5\<rparr>] demo_manager))
     \<in> {\<lparr>ce_key = 1, ce_fp = 3\<rparr>, \<lparr>ce_key = 2, ce_fp = 5\<rparr>}"
proof -
  let ?m = "init_cache [\<lparr>ce_key = 1, ce_fp = 3\<rparr>, \<lparr>ce_key = 2, ce_fp = 5\<rparr>] demo_manager"
  obtain e mm' where a: "cache_admit 9 4 False ?m = (e, mm')" by fastforce
  have "should_promote 4 ?m" by (simp add: should_promote_def init_cache_def)
  with cache_admission [OF a] have "e \<in> set (mm_cache ?m)" by simp
  then show ?thesis using a by (simp add: init_cache_def)
qed

section \<open>The frequency estimate\<close>

fun observe :: "maintenance_manager \<Rightarrow> i32 list \<Rightarrow> epoch_meta \<Rightarrow> epoch_meta" where
  "observe mm [] m = m"
| "observe mm (e # es) m = observe mm es (update_meta (mm\<lparr>mm_obs_epoch := e\<rparr>) m)"

lemma observe_snoc: "observe mm (es @ [e]) m = update_meta (mm\<lparr>mm_obs_epoch := e\<rparr>) (observe mm es m)"
  by (induction es arbitrary: m) simp_all

lemma count_list_None: "x \<notin> set xs \<Longrightarrow> count_list xs x = 0"
  by (induction xs) auto

lemma sorted_le_last: "sorted ys \<Longrightarrow> y \<in> set ys \<Longrightarrow> y \<le> last ys"
  by (induction ys) auto

text \<open>
  Claim C18: the metadata is a frequency estimate. For a key that is accessed in the epochs of a
  non-decreasing list, it holds the last epoch, the number of accesses in it, and the number of accesses
  in the epoch before it, which is what promotion and demotion compare.
\<close>

theorem epoch_frequency:
  assumes "sorted (map sint es)" "es \<noteq> []" "\<forall>e\<in>set es. 0 \<le> sint e"
    and "cnt m = 0" "ep m = - 1 \<or> ep m = 0" "fp m = 0"
  shows "observe mm es m = \<lparr>cnt = of_nat (count_list es (last es)), ep = last es, fp = of_nat (count_list es (last es - 1))\<rparr>"
  using assms(1-3)
proof (induction es rule: rev_induct)
  case (snoc e xs)
  let ?mm = "mm\<lparr>mm_obs_epoch := e\<rparr>"
  have e: "0 \<le> sint e" "e - 1 \<noteq> e" using snoc.prems(3) by auto
  show ?case
  proof (cases "xs = []")
    case True
    have "update_meta ?mm m = \<lparr>cnt = 1, ep = e, fp = 0\<rparr>"
    proof (cases "sint (ep m) < sint e")
      case False
      then have "ep m = e" "ep m = 0" using e(1) assms(5) by (auto simp: signed_eq_0_iff)
      then show ?thesis using False assms(4,6) by (cases m) (simp add: update_meta_def)
    qed (use assms(4) in \<open>cases m; simp add: update_meta_def\<close>)
    then show ?thesis using e(2) by (simp add: True)
  next
    case False
    have s: "sorted (map sint xs)" "\<forall>x\<in>set xs. sint x \<le> sint e" using snoc.prems(1) by (auto simp: sorted_append)
    have pos: "\<forall>x\<in>set xs. 0 \<le> sint x" using snoc.prems(3) by simp
    have le: "sint x \<le> sint (last xs)" if "x \<in> set xs" for x
      using sorted_le_last [OF s(1), of "sint x"] that False by (simp add: last_map)
    note ih = snoc.IH [OF s(1) False pos]
    let ?l = "last xs"
    have l: "?l \<in> set xs" using False by simp
    show ?thesis
    proof (cases "sint ?l < sint e")
      case True
      have se: "sint (e - 1) = sint e - 1"
        using True pos l e(1) sint_lt [of e] by (simp add: sint_word_diff signed_take_bit_int_eq_self)
      have ne: "e \<notin> set xs" using True le by fastforce
      have "count_list xs (e - 1) = 0" if "?l \<noteq> e - 1"
      proof (rule count_list_None)
        have "sint ?l \<noteq> sint (e - 1)" using that by (metis signed_word_eqI)
        then show "e - 1 \<notin> set xs" using True le se by fastforce
      qed
      then show ?thesis
        unfolding observe_snoc ih using True ne e(2) by (simp add: update_meta_def count_list_None)
    next
      case False
      then have eq: "?l = e" using s(2) l by (metis antisym_conv2 signed_word_eqI)
      then show ?thesis
        unfolding observe_snoc ih using e(2) by (simp add: update_meta_def)
    qed
  qed
qed simp

theorem epoch_frequency_witness:
  "observe demo_manager [3, 3, 4, 4, 4] default_meta = \<lparr>cnt = 3, ep = 4, fp = 2\<rparr>"
  using epoch_frequency [of "[3, 3, 4, 4, 4]" default_meta demo_manager] by (simp add: default_meta_def)

end
