(* ===== verification/Avl_Omap.thy ===== *)
theory Avl_Omap
  imports Path_Oram Tee_Avl_Update
begin

text \<open>
  \<open>src/omap/avl_omap.cpp\<close>: the oblivious AVL map of the client, whose nodes are blocks of a Path ORAM,
  or of two of them when the tree is split by depth. An operation takes the nodes of a path out into
  \<open>local_\<close>, works there, assigns new leaves, puts the nodes into the stash and fills up with dummy
  accesses to a fixed number. This theory holds the state and what all operations share.
\<close>

section \<open>State\<close>

text \<open>The client's ORAM without a storage, as the default constructor leaves it.\<close>

definition default_path_oram :: "'s path_oram" where
  "default_path_oram =
     \<lparr>po_num_data = 0, po_bucket_size = 4, po_stash_max_size = 0, po_storage = None, po_stash = [],
      po_pos_map = Map.empty, po_block_size_bytes = 0, po_last_bw = zero_bandwidth,
      po_total_bw = zero_bandwidth, po_aes_key = [], po_cached_level = 0, po_cached_leaf_range = 0\<rparr>"

record 's avl_omap =
  av_capacity :: int
  av_max_height :: int
  av_root_key :: i32
  av_root_leaf :: i32
  av_split_depth :: int
  av_upper :: "'s path_oram"
  av_lower :: "'s path_oram"
  av_local :: "local_node list"
  av_ods_mode :: bool
  av_op_count :: int
  av_upper_ops :: int
  av_lower_ops :: int
  av_last_bw :: bandwidth
  av_total_bw :: bandwidth

definition avl_fresh :: "int \<Rightarrow> int \<Rightarrow> 's path_oram \<Rightarrow> 's path_oram \<Rightarrow> 's avl_omap" where
  "avl_fresh capacity split upper lower =
     \<lparr>av_capacity = capacity, av_max_height = int (avl_max_height capacity),
      av_root_key = INVALID_KEY, av_root_leaf = INVALID_LEAF,
      av_split_depth = (if split > int (avl_max_height capacity) then int (avl_max_height capacity) else split),
      av_upper = upper, av_lower = lower, av_local = [], av_ods_mode = False,
      av_op_count = 0, av_upper_ops = 0, av_lower_ops = 0,
      av_last_bw = zero_bandwidth, av_total_bw = zero_bandwidth\<rparr>"

definition new_avl_omap ::
  "oram_env \<Rightarrow> 's storage_ops \<Rightarrow> (int \<Rightarrow> int \<Rightarrow> 's result) \<Rightarrow> int \<Rightarrow> int \<Rightarrow> rng \<Rightarrow> ('s avl_omap \<times> rng) result" where
  "new_avl_omap E ops create capacity bsize r =
     bind_result (new_path_oram E ops create capacity bsize 7 r) (\<lambda>(lower, r1).
       Inr (avl_fresh capacity 0 default_path_oram lower, r1))"

definition new_avl_omap_split ::
  "oram_env \<Rightarrow> 's storage_ops \<Rightarrow> (int \<Rightarrow> int \<Rightarrow> 's result) \<Rightarrow> int \<Rightarrow> int \<Rightarrow> int \<Rightarrow> int \<Rightarrow> rng
    \<Rightarrow> ('s avl_omap \<times> rng) result" where
  "new_avl_omap_split E ops create capacity bsize split upper_capacity r =
     bind_result (new_path_oram E ops create (max upper_capacity 1) bsize 7 r) (\<lambda>(upper, r1).
     bind_result (new_path_oram E ops create capacity bsize 7 r1) (\<lambda>(lower, r2).
       Inr (avl_fresh capacity split upper lower, r2)))"

text \<open>As the inner tree of an outer map, an AVL map pads nothing and gets its height and its root from outside.\<close>

definition set_ods_mode :: "int \<Rightarrow> 's avl_omap \<Rightarrow> 's avl_omap" where
  "set_ods_mode tree_height_bound t = t\<lparr>av_ods_mode := True, av_max_height := tree_height_bound\<rparr>"

definition av_set_root :: "i32 \<Rightarrow> i32 \<Rightarrow> 's avl_omap \<Rightarrow> 's avl_omap" where
  "av_set_root k lf t = t\<lparr>av_root_key := k, av_root_leaf := lf\<rparr>"

definition av_get_root :: "'s avl_omap \<Rightarrow> i32 \<times> i32" where
  "av_get_root t = (av_root_key t, av_root_leaf t)"

section \<open>Choosing the ORAM\<close>

definition av_is_upper :: "'s avl_omap \<Rightarrow> i32 \<Rightarrow> bool" where
  "av_is_upper t depth \<longleftrightarrow> av_split_depth t > 0 \<and> sint depth < av_split_depth t"

definition av_oram_for_depth :: "'s avl_omap \<Rightarrow> i32 \<Rightarrow> 's path_oram" where
  "av_oram_for_depth t depth = (if av_is_upper t depth then av_upper t else av_lower t)"

definition av_set_oram :: "i32 \<Rightarrow> 's path_oram \<Rightarrow> 's avl_omap \<Rightarrow> 's avl_omap" where
  "av_set_oram depth p t = (if av_is_upper t depth then t\<lparr>av_upper := p\<rparr> else t\<lparr>av_lower := p\<rparr>)"

definition reset_op_counts :: "'s avl_omap \<Rightarrow> 's avl_omap" where
  "reset_op_counts t = t\<lparr>av_op_count := 0, av_upper_ops := 0, av_lower_ops := 0\<rparr>"

text \<open>The start of every operation: \<open>last_bw_.reset()\<close> and \<open>reset_op_counts()\<close>.\<close>

definition av_begin :: "'s avl_omap \<Rightarrow> 's avl_omap" where
  "av_begin t = reset_op_counts (t\<lparr>av_last_bw := zero_bandwidth\<rparr>)"

definition av_count_op :: "i32 \<Rightarrow> 's avl_omap \<Rightarrow> 's avl_omap" where
  "av_count_op depth t =
     (if av_split_depth t > 0
      then if sint depth < av_split_depth t then t\<lparr>av_upper_ops := av_upper_ops t + 1\<rparr>
           else t\<lparr>av_lower_ops := av_lower_ops t + 1\<rparr>
      else t\<lparr>av_op_count := av_op_count t + 1\<rparr>)"

section \<open>ORAM accesses\<close>

definition av_move_to_local ::
  "oram_env \<Rightarrow> 's storage_ops \<Rightarrow> i32 \<Rightarrow> i32 \<Rightarrow> i32 \<Rightarrow> i32 \<Rightarrow> 's avl_omap \<Rightarrow> rng \<Rightarrow> ('s avl_omap \<times> rng) result" where
  "av_move_to_local E ops k lf parent_key depth t r =
     bind_result (po_read_path_to_stash E ops lf (av_oram_for_depth t depth)) (\<lambda>p1.
     bind_result (po_extract_from_stash ops k p1) (\<lambda>(blk, p2).
     bind_result (decode_node (val blk)) (\<lambda>nd.
       let entry = \<lparr>n_key = k, n_leaf = leaf blk, n_avl = nd, n_parent = parent_key, n_depth = depth\<rparr>
       in bind_result (evict_and_write_path E ops lf p2 r) (\<lambda>(p3, r1).
            Inr (av_count_op depth (av_set_oram depth p3 (t\<lparr>av_local := av_local t @ [entry]\<rparr>)), r1)))))"

definition tracked_dummy :: "oram_env \<Rightarrow> 's storage_ops \<Rightarrow> i32 \<Rightarrow> 's avl_omap \<Rightarrow> rng \<Rightarrow> ('s avl_omap \<times> rng) result" where
  "tracked_dummy E ops depth t r =
     bind_result (po_dummy_access E ops (av_oram_for_depth t depth) r) (\<lambda>(p, r1).
       Inr (av_count_op depth (av_set_oram depth p t), r1))"

definition po_dummies :: "oram_env \<Rightarrow> 's storage_ops \<Rightarrow> int \<Rightarrow> 's path_oram \<Rightarrow> rng \<Rightarrow> ('s path_oram \<times> rng) result" where
  "po_dummies E ops n p r = for_loop (\<lambda>i (p1, r1). po_dummy_access E ops p1 r1) 0 (nat n) (p, r)"

definition pad_to_budget :: "oram_env \<Rightarrow> 's storage_ops \<Rightarrow> int \<Rightarrow> 's avl_omap \<Rightarrow> rng \<Rightarrow> ('s avl_omap \<times> rng) result" where
  "pad_to_budget E ops budget t r =
     (if av_split_depth t > 0 then
        let upper_budget = min (av_split_depth t) budget;
            upper_pad = max 0 (upper_budget - av_upper_ops t);
            lower_budget = budget - upper_budget;
            lower_pad = max 0 (lower_budget - av_lower_ops t)
        in bind_result (po_dummies E ops upper_pad (av_upper t) r) (\<lambda>(u, r1).
           bind_result (po_dummies E ops lower_pad (av_lower t) r1) (\<lambda>(l, r2).
             Inr (t\<lparr>av_upper := u, av_lower := l, av_upper_ops := av_upper_ops t + upper_pad,
                    av_lower_ops := av_lower_ops t + lower_pad\<rparr>, r2)))
      else
        let total = av_upper_ops t + av_lower_ops t + av_op_count t;
            pad = max 0 (budget - total)
        in bind_result (po_dummies E ops pad (av_lower t) r) (\<lambda>(l, r1).
             Inr (t\<lparr>av_lower := l, av_op_count := av_op_count t + pad\<rparr>, r1)))"

definition finalize_bw :: "'s storage_ops \<Rightarrow> 's avl_omap \<Rightarrow> 's avl_omap" where
  "finalize_bw ops t =
     (let down = (if av_split_depth t > 0
                  then of_int (av_upper_ops t) * of_int (path_bandwidth_bytes ops (av_upper t))
                       + of_int (av_lower_ops t) * of_int (path_bandwidth_bytes ops (av_lower t))
                  else of_int (av_op_count t) * of_int (path_bandwidth_bytes ops (av_lower t)));
          n = (if av_split_depth t > 0 then av_upper_ops t + av_lower_ops t else av_op_count t);
          bw = \<lparr>bytes_downloaded = down, bytes_uploaded = down, rounds = of_int n\<rparr>
      in t\<lparr>av_last_bw := bw, av_total_bw := add_bandwidth (av_total_bw t) bw\<rparr>)"

text \<open>The end of an operation: the padding, which the outer map of nested trees does itself, and the counters.\<close>

definition av_finish :: "oram_env \<Rightarrow> 's storage_ops \<Rightarrow> 's avl_omap \<Rightarrow> rng \<Rightarrow> ('s avl_omap \<times> rng) result" where
  "av_finish E ops t r =
     bind_result (if av_ods_mode t then Inr (t, r) else pad_to_budget E ops (3 * av_max_height t) t r)
       (\<lambda>(t1, r1). Inr (finalize_bw ops t1, r1))"

section \<open>Putting the local nodes back\<close>

definition av_flush_node :: "local_node \<Rightarrow> 's avl_omap \<Rightarrow> 's avl_omap" where
  "av_flush_node node t =
     av_set_oram (n_depth node)
       (po_add_to_stash \<lparr>key = n_key node, leaf = n_leaf node, val = encode_node (n_avl node)\<rparr>
          (av_oram_for_depth t (n_depth node))) t"

definition av_flush_local :: "'s avl_omap \<Rightarrow> 's avl_omap" where
  "av_flush_local t = (fold av_flush_node (av_local t) t)\<lparr>av_local := []\<rparr>"

text \<open>The first element with a property, and its change; the loops with a \<open>break\<close> are of this form.\<close>

fun upd_first :: "('a \<Rightarrow> bool) \<Rightarrow> ('a \<Rightarrow> 'a) \<Rightarrow> 'a list \<Rightarrow> 'a list" where
  "upd_first P f [] = []"
| "upd_first P f (x # xs) = (if P x then f x # xs else x # upd_first P f xs)"

fun local_index :: "i32 \<Rightarrow> local_node list \<Rightarrow> nat option" where
  "local_index k [] = None"
| "local_index k (nd # nds) = (if n_key nd = k then Some 0 else map_option Suc (local_index k nds))"

definition in_local :: "i32 \<Rightarrow> local_node list \<Rightarrow> bool" where
  "in_local k loc \<longleftrightarrow> k \<in> n_key ` set loc"

text \<open>New leaves are drawn from the last node to the first, and the position maps follow.\<close>

fun av_draw_leaves :: "'s storage_ops \<Rightarrow> nat \<Rightarrow> 's avl_omap \<Rightarrow> rng \<Rightarrow> ('s avl_omap \<times> rng) result" where
  "av_draw_leaves ops 0 t r = Inr (t, r)"
| "av_draw_leaves ops (Suc i) t r =
     (let nd = av_local t ! i; p = av_oram_for_depth t (n_depth nd)
      in bind_result (po_random_leaf ops p r) (\<lambda>(new_leaf, r1).
           av_draw_leaves ops i
             (av_set_oram (n_depth nd) (po_set_leaf (n_key nd) new_leaf p)
                (t\<lparr>av_local := (av_local t)[i := nd\<lparr>n_leaf := new_leaf\<rparr>]\<rparr>)) r1))"

text \<open>The child \<open>i\<close> tells its parent its leaf.\<close>

definition av_link_child :: "nat \<Rightarrow> local_node list \<Rightarrow> local_node list" where
  "av_link_child i loc =
     (let child = loc ! i
      in if n_parent child = INVALID_KEY then loc
         else upd_first (\<lambda>par. n_key par = n_parent child)
                (\<lambda>par. if l_key (n_avl par) = n_key child then par\<lparr>n_avl := (n_avl par)\<lparr>l_leaf := n_leaf child\<rparr>\<rparr>
                       else if r_key (n_avl par) = n_key child then par\<lparr>n_avl := (n_avl par)\<lparr>r_leaf := n_leaf child\<rparr>\<rparr>
                       else par) loc)"

definition av_link_all :: "local_node list \<Rightarrow> local_node list" where
  "av_link_all loc = fold av_link_child (rev [0..<length loc]) loc"

definition av_reassign_leaves :: "'s storage_ops \<Rightarrow> 's avl_omap \<Rightarrow> rng \<Rightarrow> ('s avl_omap \<times> rng) result" where
  "av_reassign_leaves ops t r =
     bind_result (av_draw_leaves ops (length (av_local t)) t r) (\<lambda>(t1, r1).
       let loc = av_link_all (av_local t1)
       in Inr (t1\<lparr>av_local := loc,
                  av_root_leaf := (case local_index (av_root_key t1) loc of
                                     None \<Rightarrow> av_root_leaf t1 | Some i \<Rightarrow> n_leaf (loc ! i))\<rparr>, r1))"

end
