(* ===== verification/Avl_Omap_Ops.thy ===== *)
theory Avl_Omap_Ops
  imports Avl_Omap
begin

text \<open>
  The operations of \<open>src/omap/avl_omap.cpp\<close> that run to their end in one call: the initial build, search,
  the dummy accesses, insert, remove with its bottom-up rebalancing, and two operations in one
  (\<open>search_piggyback\<close>).
\<close>

section \<open>The initial build\<close>

function av_build_balanced :: "(i32 \<times> bytes) list \<Rightarrow> int \<Rightarrow> int \<Rightarrow> (i32 \<rightharpoonup> bytes) \<Rightarrow> i32 \<times> (i32 \<rightharpoonup> bytes)" where
  "av_build_balanced sdata lo hi om =
     (if lo > hi then (INVALID_KEY, om)
      else
        let mid = lo + (hi - lo) div 2;
            (k, v) = sdata ! nat mid;
            (lk, om1) = av_build_balanced sdata lo (mid - 1) om;
            (rk, om2) = av_build_balanced sdata (mid + 1) hi om1
        in (k, om2(k \<mapsto> encode_node ((new_avl_node v)\<lparr>l_key := lk, r_key := rk\<rparr>))))"
  by pat_completeness auto
termination
  by (relation "measure (\<lambda>(sdata, lo, hi, om). nat (hi - lo + 1))") auto

declare av_build_balanced.simps [simp del]

text \<open>The recursions over key pointers carry a depth bound that stands for the call stack, as \<open>fix_heights\<close> does.\<close>

fun av_assign_leaves ::
  "'s storage_ops \<Rightarrow> nat \<Rightarrow> (i32 \<rightharpoonup> avl_node) \<Rightarrow> i32 \<Rightarrow> i32 \<Rightarrow> 's avl_omap \<times> rng \<Rightarrow> ('s avl_omap \<times> rng) result" where
  "av_assign_leaves ops 0 nodes k depth tr = (if k = INVALID_KEY then Inr tr else Inl StackExhausted)"
| "av_assign_leaves ops (Suc n) nodes k depth tr =
     (if k = INVALID_KEY then Inr tr
      else case nodes k of None \<Rightarrow> Inl (NotInMap k)
      | Some nd \<Rightarrow>
          (let p = av_oram_for_depth (fst tr) depth
           in bind_result (po_random_leaf ops p (snd tr)) (\<lambda>(lf, r1).
              bind_result (av_assign_leaves ops n nodes (l_key nd) (depth + 1)
                             (av_set_oram depth (po_set_leaf k lf p) (fst tr), r1))
                (av_assign_leaves ops n nodes (r_key nd) (depth + 1)))))"

fun av_fix_child_leaves ::
  "nat \<Rightarrow> 's avl_omap \<Rightarrow> i32 \<Rightarrow> i32 \<Rightarrow> (i32 \<rightharpoonup> avl_node) \<Rightarrow> (i32 \<rightharpoonup> avl_node) result" where
  "av_fix_child_leaves 0 t k depth nodes = (if k = INVALID_KEY then Inr nodes else Inl StackExhausted)"
| "av_fix_child_leaves (Suc n) t k depth nodes =
     (if k = INVALID_KEY then Inr nodes
      else case nodes k of None \<Rightarrow> Inl (NotInMap k)
      | Some nd \<Rightarrow>
          (let p = av_oram_for_depth t (depth + 1);
               nd1 = (if l_key nd \<noteq> INVALID_KEY then nd\<lparr>l_leaf := po_get_leaf (l_key nd) p\<rparr> else nd);
               nd2 = (if r_key nd \<noteq> INVALID_KEY then nd1\<lparr>r_leaf := po_get_leaf (r_key nd) p\<rparr> else nd1)
           in bind_result (av_fix_child_leaves n t (l_key nd) (depth + 1) (nodes(k \<mapsto> nd2)))
                (av_fix_child_leaves n t (r_key nd) (depth + 1))))"

fun av_partition ::
  "nat \<Rightarrow> 's avl_omap \<Rightarrow> (i32 \<rightharpoonup> avl_node) \<Rightarrow> i32 \<Rightarrow> i32 \<Rightarrow> ((i32 \<rightharpoonup> bytes) \<times> (i32 \<rightharpoonup> bytes)) \<Rightarrow>
   ((i32 \<rightharpoonup> bytes) \<times> (i32 \<rightharpoonup> bytes)) result" where
  "av_partition 0 t nodes k depth ul = (if k = INVALID_KEY then Inr ul else Inl StackExhausted)"
| "av_partition (Suc n) t nodes k depth ul =
     (if k = INVALID_KEY then Inr ul
      else case nodes k of None \<Rightarrow> Inl (NotInMap k)
      | Some nd \<Rightarrow>
          bind_result (av_partition n t nodes (l_key nd) (depth + 1)
                         (if av_is_upper t depth then ((fst ul)(k \<mapsto> encode_node nd), snd ul)
                          else (fst ul, (snd ul)(k \<mapsto> encode_node nd))))
            (av_partition n t nodes (r_key nd) (depth + 1)))"

text \<open>
  \<open>ord\<close> puts the keys of a hash map into the order in which it is iterated; the initial build takes one
  order for the map of nodes and one for the maps of encoded nodes.
\<close>

definition map_entries :: "(i32 list \<Rightarrow> i32 list) \<Rightarrow> i32 list \<Rightarrow> (i32 \<rightharpoonup> 'a) \<Rightarrow> (i32 \<times> 'a) list" where
  "map_entries ord ks m = map (\<lambda>k. (k, the (m k))) (ord (filter (\<lambda>k. m k \<noteq> None) ks))"

fun av_set_leaves :: "'s storage_ops \<Rightarrow> i32 list \<Rightarrow> 's path_oram \<Rightarrow> rng \<Rightarrow> ('s path_oram \<times> rng) result" where
  "av_set_leaves ops [] p r = Inr (p, r)"
| "av_set_leaves ops (k # ks) p r =
     bind_result (po_random_leaf ops p r) (\<lambda>(lf, r1). av_set_leaves ops ks (po_set_leaf k lf p) r1)"

definition av_child_leaves :: "'s path_oram \<Rightarrow> avl_node \<Rightarrow> avl_node" where
  "av_child_leaves p nd =
     (let nd1 = (if l_key nd \<noteq> INVALID_KEY then nd\<lparr>l_leaf := po_get_leaf (l_key nd) p\<rparr> else nd)
      in if r_key nd \<noteq> INVALID_KEY then nd1\<lparr>r_leaf := po_get_leaf (r_key nd) p\<rparr> else nd1)"

fun decode_all :: "(i32 \<times> bytes) list \<Rightarrow> (i32 \<rightharpoonup> avl_node) result" where
  "decode_all [] = Inr Map.empty"
| "decode_all ((k, v) # kvs) =
     bind_result (decode_node v) (\<lambda>nd. bind_result (decode_all kvs) (\<lambda>m. Inr (m(k \<mapsto> nd))))"

definition av_init ::
  "oram_env \<Rightarrow> 's storage_ops \<Rightarrow> (int \<Rightarrow> int \<Rightarrow> 's result) \<Rightarrow> (i32 list \<Rightarrow> i32 list) \<Rightarrow> (i32 list \<Rightarrow> i32 list)
    \<Rightarrow> (i32 \<times> bytes) list \<Rightarrow> 's avl_omap \<Rightarrow> rng \<Rightarrow> ('s avl_omap \<times> rng) result" where
  "av_init E ops create node_order data_order data t r =
     (if data = [] then Inr (t\<lparr>av_root_key := INVALID_KEY, av_root_leaf := INVALID_LEAF\<rparr>, r)
      else
        let sdata = sort_by_key data;
            n = length data;
            ks = remdups (map fst sdata);
            (root, om) = av_build_balanced sdata 0 (int (length sdata) - 1) Map.empty
        in bind_result (decode_all (map_entries data_order ks om)) (\<lambda>nodes.
           bind_result (fix_heights n root nodes) (\<lambda>(h, nodes1).
           bind_result
             (if av_split_depth t > 0 then
                bind_result (new_path_oram E ops create (max (po_num_data (av_upper t)) 1) (po_bucket_size (av_upper t)) 7 r) (\<lambda>(u, r1).
                bind_result (new_path_oram E ops create (av_capacity t) (po_bucket_size (av_lower t)) 7 r1) (\<lambda>(l, r2).
                bind_result (av_assign_leaves ops n nodes1 root 0 (t\<lparr>av_upper := u, av_lower := l\<rparr>, r2)) (\<lambda>(t1, r3).
                bind_result (av_fix_child_leaves n t1 root 0 nodes1) (\<lambda>nodes2.
                bind_result (av_partition n t1 nodes2 root 0 (Map.empty, Map.empty)) (\<lambda>(ups, lows).
                bind_result (po_init E ops (map_entries data_order ks ups) (av_upper t1) r3) (\<lambda>(u1, r4).
                bind_result (po_init E ops (map_entries data_order ks lows) (av_lower t1) r4) (\<lambda>(l1, r5).
                  Inr (t1\<lparr>av_upper := u1, av_lower := l1\<rparr>, r5))))))))
              else
                bind_result (new_path_oram E ops create (av_capacity t) (po_bucket_size (av_lower t)) 7 r) (\<lambda>(l, r1).
                bind_result (av_set_leaves ops (node_order ks) l r1) (\<lambda>(l1, r2).
                bind_result (po_init E ops
                    (map_entries data_order ks (map_option (\<lambda>nd. encode_node (av_child_leaves l1 nd)) \<circ> nodes1)) l1 r2) (\<lambda>(l2, r3).
                  Inr (t\<lparr>av_lower := l2\<rparr>, r3)))))
             (\<lambda>(t2, r6). Inr (t2\<lparr>av_root_key := root,
                                av_root_leaf := po_get_leaf root (av_oram_for_depth t2 0)\<rparr>, r6)))))"

section \<open>Search and the dummy accesses\<close>

definition upd_avl :: "nat \<Rightarrow> (avl_node \<Rightarrow> avl_node) \<Rightarrow> local_node list \<Rightarrow> local_node list" where
  "upd_avl i f loc = loc[i := (loc ! i)\<lparr>n_avl := f (n_avl (loc ! i))\<rparr>]"

definition last_key :: "local_node list \<Rightarrow> i32" where
  "last_key loc = (if loc = [] then INVALID_KEY else n_key (last loc))"

text \<open>
  The way down to a key: the loop of \<open>search\<close>, of the first phase of \<open>remove\<close> and of both searches of
  \<open>search_piggyback\<close>. The outcome names the index of the node found and its value before the update.
\<close>

fun av_descend ::
  "oram_env \<Rightarrow> 's storage_ops \<Rightarrow> i32 \<Rightarrow> bytes option \<Rightarrow> nat \<Rightarrow> nat \<Rightarrow> i32 \<Rightarrow> i32 \<Rightarrow> 's avl_omap \<Rightarrow> rng
    \<Rightarrow> ((nat \<times> bytes) option \<times> 's avl_omap \<times> rng) result" where
  "av_descend E ops k update 0 d cur_key cur_leaf t r = Inr (None, t, r)"
| "av_descend E ops k update (Suc n) d cur_key cur_leaf t r =
     (if cur_key = INVALID_KEY then Inr (None, t, r)
      else bind_result (av_move_to_local E ops cur_key cur_leaf (last_key (av_local t)) (of_nat d) t r) (\<lambda>(t1, r1).
        let i = length (av_local t1) - 1; nd = n_avl (av_local t1 ! i)
        in if k = cur_key
           then Inr (Some (i, avl_data nd),
                     (case update of None \<Rightarrow> t1
                      | Some u \<Rightarrow> t1\<lparr>av_local := upd_avl i (\<lambda>a. a\<lparr>avl_data := u\<rparr>) (av_local t1)\<rparr>), r1)
           else if sint k < sint cur_key then av_descend E ops k update n (Suc d) (l_key nd) (l_leaf nd) t1 r1
           else av_descend E ops k update n (Suc d) (r_key nd) (r_leaf nd) t1 r1))"

text \<open>\<open>reassign_leaves()\<close> and \<open>flush_local_to_stash()\<close> always come together.\<close>

definition av_put_back :: "'s storage_ops \<Rightarrow> 's avl_omap \<Rightarrow> rng \<Rightarrow> ('s avl_omap \<times> rng) result" where
  "av_put_back ops t r =
     bind_result (av_reassign_leaves ops t r) (\<lambda>(t1, r1). Inr (av_flush_local t1, r1))"

definition found_value :: "(nat \<times> bytes) option \<Rightarrow> bytes" where
  "found_value f = (case f of None \<Rightarrow> [] | Some (i, v) \<Rightarrow> v)"

definition av_search ::
  "oram_env \<Rightarrow> 's storage_ops \<Rightarrow> i32 \<Rightarrow> bytes option \<Rightarrow> 's avl_omap \<Rightarrow> rng \<Rightarrow> (bytes \<times> 's avl_omap \<times> rng) result" where
  "av_search E ops k update t0 r =
     (let t = av_begin t0
      in if av_root_key t = INVALID_KEY
         then bind_result (av_finish E ops t r) (\<lambda>(t1, r1). Inr ([], t1, r1))
         else
           bind_result (av_descend E ops k update (nat (av_max_height t)) 0 (av_root_key t) (av_root_leaf t)
                          (t\<lparr>av_local := []\<rparr>) r) (\<lambda>(f, t1, r1).
           bind_result (av_put_back ops t1 r1) (\<lambda>(t2, r2).
           bind_result (av_finish E ops t2 r2) (\<lambda>(t3, r3). Inr (found_value f, t3, r3)))))"

definition av_dummy_access :: "oram_env \<Rightarrow> 's storage_ops \<Rightarrow> 's avl_omap \<Rightarrow> rng \<Rightarrow> ('s avl_omap \<times> rng) result" where
  "av_dummy_access E ops t r =
     bind_result (pad_to_budget E ops (3 * av_max_height t) (av_begin t) r) (\<lambda>(t1, r1).
       Inr (finalize_bw ops t1, r1))"

definition av_partial_dummy_access :: "oram_env \<Rightarrow> 's storage_ops \<Rightarrow> 's avl_omap \<Rightarrow> rng \<Rightarrow> ('s avl_omap \<times> rng) result" where
  "av_partial_dummy_access E ops t0 r =
     (if av_split_depth t0 \<le> 0 then av_dummy_access E ops t0 r
      else
        let t = av_begin t0; eff_split = min (av_split_depth t) (3 * av_max_height t)
        in bind_result (po_dummies E ops eff_split (av_upper t) r) (\<lambda>(u, r1).
           bind_result (po_dummy_access E ops (av_lower t) r1) (\<lambda>(l, r2).
             Inr (finalize_bw ops (t\<lparr>av_upper := u, av_lower := l, av_upper_ops := eff_split, av_lower_ops := 1\<rparr>), r2))))"

end
