(* ===== verification/Avl_Omap_Update.thy ===== *)
theory Avl_Omap_Update
  imports Avl_Omap_Ops
begin

text \<open>
  The operations of \<open>src/omap/avl_omap.cpp\<close> that change the shape of the tree: the rotations on the
  local nodes, insert, remove, and the search with a second operation in the same budget.
\<close>

section \<open>Rebalancing\<close>

text \<open>The local node \<open>j\<close>, when it is a child of the local node \<open>i\<close>, reports its height.\<close>

definition av_report :: "nat \<Rightarrow> nat \<Rightarrow> local_node list \<Rightarrow> local_node list" where
  "av_report i j loc =
     (let loc1 = (if n_key (loc ! j) = l_key (n_avl (loc ! i))
                  then upd_avl i (\<lambda>a. a\<lparr>l_height := node_height (n_avl (loc ! j))\<rparr>) loc else loc)
      in if n_key (loc1 ! j) = r_key (n_avl (loc1 ! i))
         then upd_avl i (\<lambda>a. a\<lparr>r_height := node_height (n_avl (loc1 ! j))\<rparr>) loc1 else loc1)"

definition av_update_heights :: "local_node list \<Rightarrow> local_node list" where
  "av_update_heights loc =
     fold (\<lambda>i l. fold (av_report i) [0..<length l] l) (rev [0..<length loc]) loc"

text \<open>
  \<open>rotate\<close> works on \<open>local_\<close> and \<open>root_key_\<close>. The triple it returns is used by none of its callers. The
  assignments come in the order of the code, each on the list the one before has left.
\<close>

definition hand_over :: "bool \<Rightarrow> avl_node \<Rightarrow> avl_node \<Rightarrow> avl_node" where
  "hand_over left p a =
     (if left then a\<lparr>r_key := l_key p, r_leaf := l_leaf p, r_height := l_height p\<rparr>
      else a\<lparr>l_key := r_key p, l_leaf := r_leaf p, l_height := r_height p\<rparr>)"

definition set_child :: "bool \<Rightarrow> i32 \<Rightarrow> i32 \<Rightarrow> i32 \<Rightarrow> avl_node \<Rightarrow> avl_node" where
  "set_child left k lf h a =
     (if left then a\<lparr>l_key := k, l_leaf := lf, l_height := h\<rparr>
      else a\<lparr>r_key := k, r_leaf := lf, r_height := h\<rparr>)"

text \<open>The local node with key \<open>par\<close>, if its child is \<open>old\<close>, gets a new one.\<close>

definition replace_child :: "i32 \<Rightarrow> i32 \<Rightarrow> i32 \<Rightarrow> i32 \<Rightarrow> i32 \<Rightarrow> local_node list \<Rightarrow> local_node list" where
  "replace_child par old k lf h loc =
     upd_first (\<lambda>p. n_key p = par)
       (\<lambda>p. if l_key (n_avl p) = old then p\<lparr>n_avl := set_child True k lf h (n_avl p)\<rparr>
            else if r_key (n_avl p) = old then p\<lparr>n_avl := set_child False k lf h (n_avl p)\<rparr>
            else p) loc"

definition av_rotate :: "nat \<Rightarrow> bool \<Rightarrow> local_node list \<times> i32 \<Rightarrow> local_node list \<times> i32" where
  "av_rotate idx left = (\<lambda>(loc, rk).
     let pivot_key = (if left then r_key (n_avl (loc ! idx)) else l_key (n_avl (loc ! idx)))
     in case local_index pivot_key loc of None \<Rightarrow> (loc, rk)
     | Some pj \<Rightarrow>
         let transferred = (if left then l_key (n_avl (loc ! pj)) else r_key (n_avl (loc ! pj)));
             loc1 = upd_avl idx (hand_over left (n_avl (loc ! pj))) loc;
             node = loc1 ! idx;
             loc2 = upd_avl pj (set_child left (n_key node) (n_leaf node) (node_height (n_avl node))) loc1;
             pivot = loc2 ! pj;
             loc3 = replace_child (n_parent (loc2 ! idx)) (n_key (loc2 ! idx))
                      (n_key pivot) (n_leaf pivot) (node_height (n_avl pivot)) loc2;
             loc4 = loc3[pj := (loc3 ! pj)\<lparr>n_parent := n_parent (loc3 ! idx)\<rparr>];
             loc5 = loc4[idx := (loc4 ! idx)\<lparr>n_parent := n_key (loc4 ! pj)\<rparr>];
             loc6 = (if transferred = INVALID_KEY then loc5
                     else upd_first (\<lambda>c. n_key c = transferred) (\<lambda>c. c\<lparr>n_parent := n_key (loc5 ! idx)\<rparr>) loc5)
         in (loc6, if rk = n_key (loc6 ! idx) then n_key (loc6 ! pj) else rk))"

text \<open>The first local node with key \<open>k\<close> whose balance has the given sign.\<close>

fun inner_index :: "i32 \<Rightarrow> bool \<Rightarrow> local_node list \<Rightarrow> nat option" where
  "inner_index k neg [] = None"
| "inner_index k neg (nd # nds) =
     (if n_key nd = k \<and> (if neg then sint (node_balance (n_avl nd)) < 0 else sint (node_balance (n_avl nd)) > 0)
      then Some 0 else map_option Suc (inner_index k neg nds))"

definition av_balance_node :: "nat \<Rightarrow> local_node list \<times> i32 \<Rightarrow> local_node list \<times> i32" where
  "av_balance_node idx = (\<lambda>(loc, rk).
     let bal = sint (node_balance (n_avl (loc ! idx)))
     in if bal > 1 then
          av_rotate idx False
            (case inner_index (l_key (n_avl (loc ! idx))) True loc of
               None \<Rightarrow> (loc, rk) | Some i \<Rightarrow> av_rotate i True (loc, rk))
        else if bal < - 1 then
          av_rotate idx True
            (case inner_index (r_key (n_avl (loc ! idx))) False loc of
               None \<Rightarrow> (loc, rk) | Some i \<Rightarrow> av_rotate i False (loc, rk))
        else (loc, rk))"

definition av_rebalance :: "local_node list \<times> i32 \<Rightarrow> local_node list \<times> i32" where
  "av_rebalance lr =
     (case fold (\<lambda>i (loc, rk). av_balance_node i (av_update_heights loc, rk)) (rev [0..<length (fst lr)]) lr of
        (loc, rk) \<Rightarrow> (av_update_heights loc, rk))"

definition av_rebalance_local :: "'s avl_omap \<Rightarrow> 's avl_omap" where
  "av_rebalance_local t =
     (case av_rebalance (av_update_heights (av_local t), av_root_key t) of
        (loc, rk) \<Rightarrow> t\<lparr>av_local := loc, av_root_key := rk\<rparr>)"

section \<open>Insert\<close>

text \<open>A new leaf below the local node \<open>i\<close>, which has no child on that side.\<close>

definition av_attach ::
  "'s storage_ops \<Rightarrow> i32 \<Rightarrow> bytes \<Rightarrow> bool \<Rightarrow> nat \<Rightarrow> i32 \<Rightarrow> 's avl_omap \<Rightarrow> rng \<Rightarrow> ('s avl_omap \<times> rng) result" where
  "av_attach ops k v left i depth t r =
     bind_result (po_random_leaf ops (av_oram_for_depth t depth) r) (\<lambda>(lf, r1).
       let t1 = av_set_oram depth (po_set_leaf k lf (av_oram_for_depth t depth)) t;
           loc = upd_avl i (set_child left k lf 1) (av_local t1);
           child = \<lparr>n_key = k, n_leaf = lf, n_avl = new_avl_node v, n_parent = n_key (loc ! i), n_depth = depth\<rparr>
       in Inr (t1\<lparr>av_local := loc @ [child]\<rparr>, r1))"

fun av_insert_descend ::
  "oram_env \<Rightarrow> 's storage_ops \<Rightarrow> i32 \<Rightarrow> bytes \<Rightarrow> nat \<Rightarrow> nat \<Rightarrow> i32 \<Rightarrow> i32 \<Rightarrow> 's avl_omap \<Rightarrow> rng
    \<Rightarrow> ('s avl_omap \<times> rng) result" where
  "av_insert_descend E ops k v 0 d cur_key cur_leaf t r = Inr (t, r)"
| "av_insert_descend E ops k v (Suc n) d cur_key cur_leaf t r =
     (if cur_key = INVALID_KEY then Inr (t, r)
      else bind_result (av_move_to_local E ops cur_key cur_leaf (last_key (av_local t)) (of_nat d) t r) (\<lambda>(t1, r1).
        let i = length (av_local t1) - 1; nd = n_avl (av_local t1 ! i)
        in if sint k < sint cur_key
           then if l_key nd = INVALID_KEY then av_attach ops k v True i (of_nat d + 1) t1 r1
                else av_insert_descend E ops k v n (Suc d) (l_key nd) (l_leaf nd) t1 r1
           else if r_key nd = INVALID_KEY then av_attach ops k v False i (of_nat d + 1) t1 r1
                else av_insert_descend E ops k v n (Suc d) (r_key nd) (r_leaf nd) t1 r1))"

text \<open>The first node of an empty map goes straight to the stash.\<close>

definition av_insert_root :: "'s storage_ops \<Rightarrow> i32 \<Rightarrow> bytes \<Rightarrow> 's avl_omap \<Rightarrow> rng \<Rightarrow> ('s avl_omap \<times> rng) result" where
  "av_insert_root ops k v t r =
     (let p = av_oram_for_depth t 0
      in bind_result (po_random_leaf ops p r) (\<lambda>(lf, r1).
           Inr ((av_set_oram 0 (po_add_to_stash \<lparr>key = k, leaf = lf, val = encode_node (new_avl_node v)\<rparr>
                                  (po_set_leaf k lf p)) t)\<lparr>av_root_key := k, av_root_leaf := lf\<rparr>, r1)))"

definition av_insert_below ::
  "oram_env \<Rightarrow> 's storage_ops \<Rightarrow> i32 \<Rightarrow> bytes \<Rightarrow> 's avl_omap \<Rightarrow> rng \<Rightarrow> ('s avl_omap \<times> rng) result" where
  "av_insert_below E ops k v t r =
     bind_result (av_insert_descend E ops k v (nat (av_max_height t)) 0 (av_root_key t) (av_root_leaf t)
                    (t\<lparr>av_local := []\<rparr>) r) (\<lambda>(t1, r1).
       av_put_back ops (av_rebalance_local t1) r1)"

definition av_insert ::
  "oram_env \<Rightarrow> 's storage_ops \<Rightarrow> i32 \<Rightarrow> bytes \<Rightarrow> 's avl_omap \<Rightarrow> rng \<Rightarrow> ('s avl_omap \<times> rng) result" where
  "av_insert E ops k v t0 r =
     (let t = av_begin t0
      in bind_result (if av_root_key t = INVALID_KEY then av_insert_root ops k v t r
                      else av_insert_below E ops k v t r) (\<lambda>(t1, r1).
           av_finish E ops t1 r1))"

section \<open>Remove\<close>

text \<open>The way to the in-order successor, from the right child leftwards.\<close>

fun av_succ_descend ::
  "oram_env \<Rightarrow> 's storage_ops \<Rightarrow> nat \<Rightarrow> nat \<Rightarrow> i32 \<Rightarrow> i32 \<Rightarrow> 's avl_omap \<Rightarrow> rng \<Rightarrow> ('s avl_omap \<times> rng) result" where
  "av_succ_descend E ops 0 sd s_key s_leaf t r = Inr (t, r)"
| "av_succ_descend E ops (Suc n) sd s_key s_leaf t r =
     bind_result (av_move_to_local E ops s_key s_leaf (last_key (av_local t)) (of_nat sd) t r) (\<lambda>(t1, r1).
       let nd = n_avl (last (av_local t1))
       in if l_key nd = INVALID_KEY then Inr (t1, r1)
          else av_succ_descend E ops n (Suc sd) (l_key nd) (l_leaf nd) t1 r1)"

definition two_children :: "avl_node \<Rightarrow> bool" where
  "two_children nd \<longleftrightarrow> l_key nd \<noteq> INVALID_KEY \<and> r_key nd \<noteq> INVALID_KEY"

text \<open>The node found takes over key and value of its successor, the last local node.\<close>

definition av_rename :: "nat \<Rightarrow> local_node list \<times> i32 \<Rightarrow> local_node list \<times> i32" where
  "av_rename ti = (\<lambda>(loc, rk).
     let succ = last loc; old_key = n_key (loc ! ti); succ_key = n_key succ;
         loc1 = loc[ti := (loc ! ti)\<lparr>n_key := succ_key, n_avl := (n_avl (loc ! ti))\<lparr>avl_data := avl_data (n_avl succ)\<rparr>\<rparr>];
         par = n_parent (loc1 ! ti);
         loc2 = (if par = INVALID_KEY then loc1
                 else upd_first (\<lambda>p. n_key p = par)
                        (\<lambda>p. if l_key (n_avl p) = old_key then p\<lparr>n_avl := (n_avl p)\<lparr>l_key := succ_key\<rparr>\<rparr>
                             else if r_key (n_avl p) = old_key then p\<lparr>n_avl := (n_avl p)\<lparr>r_key := succ_key\<rparr>\<rparr>
                             else p) loc1);
         loc3 = map (\<lambda>c. if n_parent c = old_key then c\<lparr>n_parent := succ_key\<rparr> else c) loc2
     in (loc3, if rk = old_key then succ_key else rk))"

text \<open>The node at \<open>ti\<close>, with at most one child, is cut out.\<close>

definition av_unlink :: "nat \<Rightarrow> local_node list \<times> i32 \<times> i32 \<Rightarrow> local_node list \<times> i32 \<times> i32" where
  "av_unlink ti = (\<lambda>(loc, rk, root_leaf).
     let nd = loc ! ti; a = n_avl nd; left = (l_key a \<noteq> INVALID_KEY);
         child_key = (if left then l_key a else r_key a);
         child_leaf = (if left then l_leaf a else r_leaf a);
         child_h = (if child_key = INVALID_KEY then 0 else if left then l_height a else r_height a);
         rest = (\<lambda>l. take ti l @ drop (Suc ti) l)
     in if n_parent nd \<noteq> INVALID_KEY
        then (rest (replace_child (n_parent nd) (n_key nd) child_key child_leaf child_h loc), rk, root_leaf)
        else (rest loc, child_key, if child_key \<noteq> INVALID_KEY then child_leaf else INVALID_LEAF))"

definition av_delete_found :: "nat \<Rightarrow> bool \<Rightarrow> 's avl_omap \<Rightarrow> 's avl_omap" where
  "av_delete_found ti two_child t =
     (let (loc1, root1) = (if two_child then av_rename ti (av_local t, av_root_key t) else (av_local t, av_root_key t));
          di = (if two_child then length (av_local t) - 1 else ti);
          (loc2, root2, lf2) = av_unlink di (loc1, root1, av_root_leaf t)
      in t\<lparr>av_local := loc2, av_root_key := root2, av_root_leaf := lf2\<rparr>)"

text \<open>The first phase of \<open>remove\<close>: the way to the key and, below a node with two children, to its successor.\<close>

definition av_find_for_remove ::
  "oram_env \<Rightarrow> 's storage_ops \<Rightarrow> i32 \<Rightarrow> 's avl_omap \<Rightarrow> rng \<Rightarrow> ((nat \<times> bytes) option \<times> bool \<times> 's avl_omap \<times> rng) result" where
  "av_find_for_remove E ops k t r =
     bind_result (av_descend E ops k None (nat (av_max_height t)) 0 (av_root_key t) (av_root_leaf t) t r) (\<lambda>(f, t1, r1).
       case f of None \<Rightarrow> Inr (None, False, t1, r1)
       | Some (ti, v) \<Rightarrow>
           let a = n_avl (av_local t1 ! ti)
           in if two_children a
              then bind_result (av_succ_descend E ops (nat (av_max_height t1) - Suc ti) (Suc ti) (r_key a) (r_leaf a) t1 r1)
                     (\<lambda>(t2, r2). Inr (Some (ti, v), True, t2, r2))
              else Inr (Some (ti, v), False, t1, r1))"

text \<open>
  The second phase walks the keys of the path from the bottom to the top. At every one it makes two
  accesses: dummies, or the child on the heavy side and the inner grandchild that a rotation needs.
\<close>

definition refresh_heights :: "nat \<Rightarrow> local_node list \<Rightarrow> local_node list" where
  "refresh_heights i loc = fold (av_report i) [0..<length loc] loc"

definition av_fetch_or_dummy ::
  "oram_env \<Rightarrow> 's storage_ops \<Rightarrow> i32 \<Rightarrow> i32 \<Rightarrow> i32 \<Rightarrow> i32 \<Rightarrow> 's avl_omap \<Rightarrow> rng \<Rightarrow> ('s avl_omap \<times> rng) result" where
  "av_fetch_or_dummy E ops k lf par depth t r =
     (if k \<noteq> INVALID_KEY \<and> \<not> in_local k (av_local t) then av_move_to_local E ops k lf par depth t r
      else tracked_dummy E ops depth t r)"

definition two_dummies :: "oram_env \<Rightarrow> 's storage_ops \<Rightarrow> i32 \<Rightarrow> 's avl_omap \<Rightarrow> rng \<Rightarrow> ('s avl_omap \<times> rng) result" where
  "two_dummies E ops depth t r =
     bind_result (tracked_dummy E ops depth t r) (\<lambda>(t1, r1). tracked_dummy E ops depth t1 r1)"

definition av_balance_at :: "i32 \<Rightarrow> 's avl_omap \<Rightarrow> 's avl_omap" where
  "av_balance_at nd_key t =
     (let loc = av_update_heights (av_local t);
          (loc1, root1) = (case local_index nd_key loc of None \<Rightarrow> (loc, av_root_key t)
                           | Some ni \<Rightarrow> av_balance_node ni (loc, av_root_key t))
      in t\<lparr>av_local := av_update_heights loc1, av_root_key := root1\<rparr>)"

definition inner_child :: "int \<Rightarrow> i32 \<Rightarrow> local_node list \<Rightarrow> i32 \<Rightarrow> i32 \<times> i32 \<times> i32" where
  "inner_child bal tall_key loc depth =
     (case local_index tall_key loc of None \<Rightarrow> (INVALID_KEY, INVALID_LEAF, depth)
      | Some ti \<Rightarrow>
          let a = n_avl (loc ! ti); tb = sint (node_balance a); d = n_depth (loc ! ti)
          in if bal > 1 \<and> tb < 0 then (r_key a, r_leaf a, d)
             else if bal < - 1 \<and> tb > 0 then (l_key a, l_leaf a, d)
             else (INVALID_KEY, INVALID_LEAF, d))"

definition av_repair_node ::
  "oram_env \<Rightarrow> 's storage_ops \<Rightarrow> i32 \<Rightarrow> 's avl_omap \<Rightarrow> rng \<Rightarrow> ('s avl_omap \<times> rng) result" where
  "av_repair_node E ops nd_key t0 r =
     (case local_index nd_key (av_local t0) of
        None \<Rightarrow> two_dummies E ops (word_of_int (av_split_depth t0)) t0 r
      | Some i \<Rightarrow>
          let t = t0\<lparr>av_local := refresh_heights i (av_local t0)\<rparr>;
              nd = av_local t ! i; bal = sint (node_balance (n_avl nd)); depth = n_depth nd
          in if \<bar>bal\<bar> \<le> 1 then two_dummies E ops depth t r
             else
               let tall_key = (if bal > 1 then l_key (n_avl nd) else r_key (n_avl nd));
                   tall_leaf = (if bal > 1 then l_leaf (n_avl nd) else r_leaf (n_avl nd))
               in bind_result (av_fetch_or_dummy E ops tall_key tall_leaf nd_key (depth + 1) t r) (\<lambda>(t1, r1).
                    let (inner_key, inner_leaf, tall_depth) = inner_child bal tall_key (av_local t1) (depth + 1)
                    in bind_result (av_fetch_or_dummy E ops inner_key inner_leaf tall_key (tall_depth + 1) t1 r1) (\<lambda>(t2, r2).
                         Inr (av_balance_at nd_key t2, r2))))"

fun av_repair_path ::
  "oram_env \<Rightarrow> 's storage_ops \<Rightarrow> i32 list \<Rightarrow> 's avl_omap \<Rightarrow> rng \<Rightarrow> ('s avl_omap \<times> rng) result" where
  "av_repair_path E ops [] t r = Inr (t, r)"
| "av_repair_path E ops (k # ks) t r =
     bind_result (av_repair_node E ops k t r) (\<lambda>(t1, r1). av_repair_path E ops ks t1 r1)"

definition av_remove :: "oram_env \<Rightarrow> 's storage_ops \<Rightarrow> i32 \<Rightarrow> 's avl_omap \<Rightarrow> rng \<Rightarrow> ('s avl_omap \<times> rng) result" where
  "av_remove E ops k t0 r =
     (let t = av_begin t0
      in if av_root_key t = INVALID_KEY then av_finish E ops t r
         else
           bind_result (av_find_for_remove E ops k (t\<lparr>av_local := []\<rparr>) r) (\<lambda>(f, two_child, t1, r1).
           let t2 = (case f of None \<Rightarrow> t1 | Some (ti, v) \<Rightarrow> av_delete_found ti two_child t1)
           in bind_result (av_repair_path E ops (rev (map n_key (av_local t2))) t2 r1) (\<lambda>(t3, r2).
              bind_result (av_put_back ops t3 r2) (\<lambda>(t4, r3). av_finish E ops t4 r3))))"

section \<open>Two operations in one\<close>

text \<open>
  \<open>search_piggyback\<close>: a search padded to its budget, then a read (\<open>'s'\<close>), a removal (\<open>'d'\<close>, without the
  second phase) or an insertion (\<open>'i'\<close>) of another key, padded again. The outcome has the value of the main search and
  what the code stores through \<open>extra_result\<close>, which only the first two do.
\<close>

definition av_extra_find ::
  "oram_env \<Rightarrow> 's storage_ops \<Rightarrow> i32 \<Rightarrow> bool \<Rightarrow> 's avl_omap \<Rightarrow> rng \<Rightarrow> (bytes \<times> 's avl_omap \<times> rng) result" where
  "av_extra_find E ops k del t r =
     bind_result (if del then av_find_for_remove E ops k t r
                  else bind_result (av_descend E ops k None (nat (av_max_height t)) 0 (av_root_key t) (av_root_leaf t) t r)
                         (\<lambda>(f, t1, r1). Inr (f, False, t1, r1))) (\<lambda>(f, two_child, t1, r1).
       let t2 = (case f of None \<Rightarrow> t1
                 | Some (ti, v) \<Rightarrow> if del then av_rebalance_local (av_delete_found ti two_child t1) else t1)
       in bind_result (av_put_back ops t2 r1) (\<lambda>(t3, r2). Inr (found_value f, t3, r2)))"

definition add_ops :: "'s avl_omap \<Rightarrow> 's avl_omap \<Rightarrow> 's avl_omap" where
  "add_ops saved t =
     t\<lparr>av_upper_ops := av_upper_ops t + av_upper_ops saved, av_lower_ops := av_lower_ops t + av_lower_ops saved,
       av_op_count := av_op_count t + av_op_count saved\<rparr>"

definition av_extra ::
  "oram_env \<Rightarrow> 's storage_ops \<Rightarrow> i32 \<Rightarrow> char \<Rightarrow> bytes option \<Rightarrow> 's avl_omap \<Rightarrow> rng
    \<Rightarrow> (bytes option \<times> 's avl_omap \<times> rng) result" where
  "av_extra E ops k op v t r =
     (if op = CHR ''s'' \<or> op = CHR ''d''
      then bind_result (av_extra_find E ops k (op = CHR ''d'') t r) (\<lambda>(w, t1, r1). Inr (Some w, t1, r1))
      else case v of
        Some w \<Rightarrow>
          if op = CHR ''i''
          then bind_result (if av_root_key t = INVALID_KEY then av_insert_root ops k w t r
                            else av_insert_below E ops k w t r) (\<lambda>(t1, r1). Inr (None, t1, r1))
          else Inr (None, t, r)
      | None \<Rightarrow> Inr (None, t, r))"

definition av_search_piggyback ::
  "oram_env \<Rightarrow> 's storage_ops \<Rightarrow> i32 \<Rightarrow> bytes option \<Rightarrow> i32 \<Rightarrow> char \<Rightarrow> bytes option \<Rightarrow> 's avl_omap \<Rightarrow> rng
    \<Rightarrow> (bytes \<times> bytes option \<times> 's avl_omap \<times> rng) result" where
  "av_search_piggyback E ops k update ek eop ev t0 r =
     (let t = av_begin t0; budget = 3 * av_max_height t
      in if av_root_key t = INVALID_KEY
         then
           bind_result (pad_to_budget E ops budget t r) (\<lambda>(t1, r1).
           bind_result (pad_to_budget E ops budget (reset_op_counts t1) r1) (\<lambda>(t2, r2).
             Inr ([], None, finalize_bw ops (add_ops t1 t2), r2)))
         else
           bind_result (av_descend E ops k update (nat (av_max_height t)) 0 (av_root_key t) (av_root_leaf t)
                          (t\<lparr>av_local := []\<rparr>) r) (\<lambda>(f, t1, r1).
           bind_result (av_put_back ops t1 r1) (\<lambda>(t2, r2).
           bind_result (pad_to_budget E ops budget t2 r2) (\<lambda>(t3, r3).
           bind_result (av_extra E ops ek eop ev ((reset_op_counts t3)\<lparr>av_local := []\<rparr>) r3) (\<lambda>(w, t4, r4).
           bind_result (pad_to_budget E ops budget t4 r4) (\<lambda>(t5, r5).
             Inr (found_value f, w, finalize_bw ops (add_ops t3 t5), r5)))))))"

end
