(* ===== verification/Avl_Omap_Steps.thy ===== *)
theory Avl_Omap_Steps
  imports Avl_Omap_Update
begin

text \<open>
  The step machine of \<open>src/omap/avl_omap.cpp\<close>: an access as a sequence of rounds, each of which names
  the paths to read, takes what was fetched, works on it, and names what to write. A second, piggybacked
  operation may run in the same rounds. The pointers to an ORAM are \<open>oram_choice option\<close>s.
\<close>

section \<open>State\<close>

datatype step_phase = StepTraverse | StepPad | StepDone
datatype oram_choice = UpperOram | LowerOram

record step_state =
  ss_phase :: step_phase
  ss_key :: i32
  ss_update :: "bytes option"
  ss_is_dummy :: bool
  ss_cur_key :: i32
  ss_cur_leaf :: i32
  ss_depth :: i32
  ss_budget :: int
  ss_ops :: int
  ss_pad_remaining :: int
  ss_dummy_step :: int
  ss_boundary :: int
  ss_oram :: "oram_choice option"
  ss_leaf :: i32
  ss_round_read :: bool
  ss_result :: bytes

definition idle_step :: step_state where
  "idle_step =
     \<lparr>ss_phase = StepDone, ss_key = INVALID_KEY, ss_update = None, ss_is_dummy = False,
      ss_cur_key = INVALID_KEY, ss_cur_leaf = INVALID_LEAF, ss_depth = 0, ss_budget = 0, ss_ops = 0,
      ss_pad_remaining = 0, ss_dummy_step = 0, ss_boundary = 0, ss_oram = None, ss_leaf = INVALID_LEAF,
      ss_round_read = False, ss_result = []\<rparr>"

record pb_state =
  pb_active :: bool
  pb_phase :: step_phase
  pb_key :: i32
  pb_cur_key :: i32
  pb_cur_leaf :: i32
  pb_depth :: i32
  pb_ops :: int
  pb_budget :: int
  pb_pad_remaining :: int
  pb_dummy_step :: int
  pb_boundary :: int
  pb_oram :: "oram_choice option"
  pb_leaf :: i32
  pb_round_read :: bool
  pb_result :: bytes
  pb_node_in_local :: bool
  pb_traverse_done :: bool
  pb_is_insert :: bool
  pb_insert_value :: bytes

definition idle_pb :: pb_state where
  "idle_pb =
     \<lparr>pb_active = False, pb_phase = StepDone, pb_key = INVALID_KEY, pb_cur_key = INVALID_KEY,
      pb_cur_leaf = INVALID_LEAF, pb_depth = 0, pb_ops = 0, pb_budget = 0, pb_pad_remaining = 0,
      pb_dummy_step = 0, pb_boundary = 0, pb_oram = None, pb_leaf = INVALID_LEAF, pb_round_read = False,
      pb_result = [], pb_node_in_local = False, pb_traverse_done = False, pb_is_insert = False,
      pb_insert_value = []\<rparr>"

text \<open>The members \<open>ss_\<close> and \<open>pb_\<close> beside the map itself.\<close>

record 's avl_machine =
  am_map :: "'s avl_omap"
  am_ss :: step_state
  am_pb :: pb_state

definition choice_for_depth :: "'s avl_omap \<Rightarrow> i32 \<Rightarrow> oram_choice" where
  "choice_for_depth t depth = (if av_is_upper t depth then UpperOram else LowerOram)"

fun av_chosen :: "oram_choice \<Rightarrow> 's avl_omap \<Rightarrow> 's path_oram" where
  "av_chosen UpperOram t = av_upper t"
| "av_chosen LowerOram t = av_lower t"

fun av_set_chosen :: "oram_choice \<Rightarrow> 's path_oram \<Rightarrow> 's avl_omap \<Rightarrow> 's avl_omap" where
  "av_set_chosen UpperOram p t = t\<lparr>av_upper := p\<rparr>"
| "av_set_chosen LowerOram p t = t\<lparr>av_lower := p\<rparr>"

definition with_choice :: "oram_choice option \<Rightarrow> (oram_choice \<Rightarrow> 'a result) \<Rightarrow> 'a result" where
  "with_choice c f = (case c of None \<Rightarrow> Inl NullPointer | Some c \<Rightarrow> f c)"

section \<open>Beginning an operation\<close>

text \<open>The number of paddings that go to the upper ORAM.\<close>

definition pad_boundary :: "'s avl_omap \<Rightarrow> int \<Rightarrow> int" where
  "pad_boundary t budget = (if av_split_depth t > 0 then min (av_split_depth t) budget else budget)"

definition begin_machine :: "step_state \<Rightarrow> 's avl_machine \<Rightarrow> 's avl_machine" where
  "begin_machine s m = \<lparr>am_map = (av_begin (am_map m))\<lparr>av_local := []\<rparr>, am_ss = s, am_pb = idle_pb\<rparr>"

definition begin_step_search :: "i32 \<Rightarrow> bytes option \<Rightarrow> 's avl_machine \<Rightarrow> 's avl_machine" where
  "begin_step_search k update m =
     (let t = am_map m; budget = 3 * av_max_height t;
          s = idle_step\<lparr>ss_key := k, ss_update := update, ss_budget := budget\<rparr>
      in begin_machine
           (if av_root_key t = INVALID_KEY
            then s\<lparr>ss_phase := StepPad, ss_pad_remaining := budget, ss_boundary := pad_boundary t budget,
                   ss_dummy_step := 0\<rparr>
            else s\<lparr>ss_phase := StepTraverse, ss_cur_key := av_root_key t, ss_cur_leaf := av_root_leaf t,
                   ss_depth := 0\<rparr>) m)"

definition begin_step_dummy :: "'s avl_machine \<Rightarrow> 's avl_machine" where
  "begin_step_dummy m =
     (let t = am_map m; budget = 3 * av_max_height t
      in begin_machine
           (idle_step\<lparr>ss_is_dummy := True, ss_budget := budget, ss_phase := StepPad,
              ss_pad_remaining := budget, ss_dummy_step := 0, ss_boundary := pad_boundary t budget\<rparr>) m)"

definition begin_step_partial_dummy :: "'s avl_machine \<Rightarrow> 's avl_machine" where
  "begin_step_partial_dummy m =
     (let t = am_map m
      in if av_split_depth t \<le> 0 then begin_step_dummy m
         else
           let eff_split = min (av_split_depth t) (3 * av_max_height t)
           in begin_machine
                (idle_step\<lparr>ss_is_dummy := True, ss_budget := eff_split + 1, ss_phase := StepPad,
                   ss_pad_remaining := eff_split + 1, ss_dummy_step := 0, ss_boundary := eff_split\<rparr>) m)"

definition pad_or_done :: "int \<Rightarrow> step_phase" where
  "pad_or_done n = (if n = 0 then StepDone else StepPad)"

definition pb_padding :: "'s avl_omap \<Rightarrow> pb_state \<Rightarrow> pb_state" where
  "pb_padding t p =
     p\<lparr>pb_phase := pad_or_done (pb_budget p), pb_pad_remaining := pb_budget p, pb_traverse_done := True,
       pb_dummy_step := 0, pb_boundary := pad_boundary t (pb_budget p)\<rparr>"

definition pb_traversal :: "'s avl_omap \<Rightarrow> pb_state \<Rightarrow> pb_state" where
  "pb_traversal t p =
     p\<lparr>pb_phase := StepTraverse, pb_cur_key := av_root_key t, pb_cur_leaf := av_root_leaf t, pb_depth := 0\<rparr>"

definition begin_piggyback_search :: "i32 \<Rightarrow> 's avl_machine \<Rightarrow> 's avl_machine" where
  "begin_piggyback_search k m =
     (let t = am_map m; p = idle_pb\<lparr>pb_active := True, pb_key := k, pb_budget := 3 * av_max_height t\<rparr>
      in m\<lparr>am_pb := (if av_root_key t = INVALID_KEY then pb_padding t p else pb_traversal t p)\<rparr>)"

definition begin_piggyback_insert ::
  "'s storage_ops \<Rightarrow> i32 \<Rightarrow> bytes \<Rightarrow> 's avl_machine \<Rightarrow> rng \<Rightarrow> ('s avl_machine \<times> rng) result" where
  "begin_piggyback_insert ops k v m r =
     (let t = am_map m;
          p = idle_pb\<lparr>pb_active := True, pb_key := k, pb_is_insert := True, pb_insert_value := v,
                      pb_budget := 3 * av_max_height t\<rparr>
      in if av_root_key t = INVALID_KEY then
           let po = av_oram_for_depth t 0
           in bind_result (po_random_leaf ops po r) (\<lambda>(lf, r1).
                let entry = \<lparr>n_key = k, n_leaf = lf, n_avl = new_avl_node v, n_parent = INVALID_KEY, n_depth = 0\<rparr>;
                    t1 = (av_set_oram 0 (po_set_leaf k lf po) t)
                           \<lparr>av_local := av_local t @ [entry], av_root_key := k, av_root_leaf := lf\<rparr>
                in Inr (m\<lparr>am_map := t1, am_pb := pb_padding t1 p\<rparr>, r1))
         else Inr (m\<lparr>am_pb := pb_traversal t p\<rparr>, r))"

definition begin_piggyback_dummy :: "'s avl_machine \<Rightarrow> 's avl_machine" where
  "begin_piggyback_dummy m =
     m\<lparr>am_pb := pb_padding (am_map m) (idle_pb\<lparr>pb_active := True, pb_budget := 3 * av_max_height (am_map m)\<rparr>)\<rparr>"

section \<open>A round\<close>

definition pad_choice :: "'s avl_omap \<Rightarrow> int \<Rightarrow> int \<Rightarrow> oram_choice" where
  "pad_choice t step boundary = (if av_split_depth t > 0 \<and> step < boundary then UpperOram else LowerOram)"

definition ss_next_read :: "'s storage_ops \<Rightarrow> 's avl_machine \<Rightarrow> rng \<Rightarrow> (oram_choice \<times> i32 \<times> rng) result" where
  "ss_next_read ops m r =
     (let t = am_map m; s = am_ss m
      in if ss_phase s = StepTraverse then Inr (choice_for_depth t (ss_depth s), ss_cur_leaf s, r)
         else let c = pad_choice t (ss_dummy_step s) (ss_boundary s)
              in bind_result (po_random_leaf ops (av_chosen c t) r) (\<lambda>(lf, r1). Inr (c, lf, r1)))"

text \<open>A node that is already in \<open>local_\<close> is not fetched again: a random path is read instead.\<close>

definition pb_next_read ::
  "'s storage_ops \<Rightarrow> 's avl_machine \<Rightarrow> rng \<Rightarrow> (bool \<times> oram_choice \<times> i32 \<times> rng) result" where
  "pb_next_read ops m r =
     (let t = am_map m; p = am_pb m; here = in_local (pb_cur_key p) (av_local t);
          traverse = (pb_phase p = StepTraverse);
          c = (if traverse then choice_for_depth t (pb_depth p) else pad_choice t (pb_dummy_step p) (pb_boundary p))
      in if traverse \<and> \<not> here then Inr (here, c, pb_cur_leaf p, r)
         else bind_result (po_random_leaf ops (av_chosen c t) r) (\<lambda>(lf, r1).
                Inr (if traverse then here else pb_node_in_local p, c, lf, r1)))"

definition step_next_round ::
  "'s storage_ops \<Rightarrow> 's avl_machine \<Rightarrow> rng \<Rightarrow> ((i32 \<times> i32) list \<times> 's avl_machine \<times> rng) result" where
  "step_next_round ops m0 r =
     (let m = m0\<lparr>am_ss := (am_ss m0)\<lparr>ss_round_read := ss_phase (am_ss m0) \<noteq> StepDone\<rparr>,
                 am_pb := (am_pb m0)\<lparr>pb_round_read := pb_active (am_pb m0) \<and> pb_phase (am_pb m0) \<noteq> StepDone\<rparr>\<rparr>
      in bind_result
           (if ss_round_read (am_ss m) then
              bind_result (ss_next_read ops m r) (\<lambda>(c, lf, r1).
                Inr ([(po_get_store_id ops (av_chosen c (am_map m)), lf)],
                     m\<lparr>am_ss := (am_ss m)\<lparr>ss_oram := Some c, ss_leaf := lf\<rparr>\<rparr>, r1))
            else Inr ([], m, r))
           (\<lambda>(reads, m1, r1).
              if pb_round_read (am_pb m1) then
                bind_result (pb_next_read ops m1 r1) (\<lambda>(here, c, lf, r2).
                  Inr (reads @ [(po_get_store_id ops (av_chosen c (am_map m1)), lf)],
                       m1\<lparr>am_pb := (am_pb m1)\<lparr>pb_node_in_local := here, pb_oram := Some c, pb_leaf := lf\<rparr>\<rparr>, r2))
              else Inr (reads, m1, r1)))"

definition apply_to :: "oram_env \<Rightarrow> path_map \<Rightarrow> oram_choice \<Rightarrow> 's avl_machine \<Rightarrow> 's avl_machine result" where
  "apply_to E path c m =
     bind_result (apply_fetched_path E path (av_chosen c (am_map m))) (\<lambda>p.
       Inr (m\<lparr>am_map := av_set_chosen c p (am_map m)\<rparr>))"

definition merge_paths :: "path_map \<Rightarrow> path_map \<Rightarrow> path_map" where
  "merge_paths p q = p @ filter (\<lambda>(i, b). i \<notin> fst ` set p) q"

definition step_apply_reads :: "oram_env \<Rightarrow> path_map list \<Rightarrow> 's avl_machine \<Rightarrow> 's avl_machine result" where
  "step_apply_reads E results m =
     (let s = am_ss m; p = am_pb m
      in if ss_round_read s \<and> pb_round_read p \<and> length results \<ge> 2 then
           with_choice (ss_oram s) (\<lambda>c. with_choice (pb_oram p) (\<lambda>c'.
             if c = c' then apply_to E (merge_paths (results ! 0) (results ! 1)) c m
             else bind_result (apply_to E (results ! 0) c m) (apply_to E (results ! 1) c')))
         else if ss_round_read s \<and> results \<noteq> [] then with_choice (ss_oram s) (\<lambda>c. apply_to E (results ! 0) c m)
         else if pb_round_read p \<and> results \<noteq> [] then with_choice (pb_oram p) (\<lambda>c. apply_to E (results ! 0) c m)
         else Inr m)"

definition evict_from ::
  "oram_env \<Rightarrow> 's storage_ops \<Rightarrow> oram_choice \<Rightarrow> i32 \<Rightarrow> 's avl_machine \<Rightarrow> rng
    \<Rightarrow> ((i32 \<times> path_map) \<times> 's avl_machine \<times> rng) result" where
  "evict_from E ops c lf m r =
     bind_result (prepare_eviction E ops lf (av_chosen c (am_map m)) r) (\<lambda>(path, p, r1).
       Inr ((po_get_store_id ops (av_chosen c (am_map m)), path), m\<lparr>am_map := av_set_chosen c p (am_map m)\<rparr>, r1))"

definition step_prepare_writes ::
  "oram_env \<Rightarrow> 's storage_ops \<Rightarrow> 's avl_machine \<Rightarrow> rng \<Rightarrow> ((i32 \<times> path_map) list \<times> 's avl_machine \<times> rng) result" where
  "step_prepare_writes E ops m r =
     (let s = am_ss m; p = am_pb m
      in if ss_round_read s \<and> pb_round_read p then
           with_choice (ss_oram s) (\<lambda>c. with_choice (pb_oram p) (\<lambda>c'.
             if c = c' then
               bind_result (prepare_eviction_paths E ops [ss_leaf s, pb_leaf p] (av_chosen c (am_map m)) r) (\<lambda>(path, o1, r1).
                 Inr ([(po_get_store_id ops (av_chosen c (am_map m)), path)],
                      m\<lparr>am_map := av_set_chosen c o1 (am_map m)\<rparr>, r1))
             else
               bind_result (evict_from E ops c (ss_leaf s) m r) (\<lambda>(w, m1, r1).
               bind_result (evict_from E ops c' (pb_leaf p) m1 r1) (\<lambda>(w', m2, r2). Inr ([w, w'], m2, r2)))))
         else if ss_round_read s then
           with_choice (ss_oram s) (\<lambda>c.
             bind_result (evict_from E ops c (ss_leaf s) m r) (\<lambda>(w, m1, r1). Inr ([w], m1, r1)))
         else if pb_round_read p then
           with_choice (pb_oram p) (\<lambda>c.
             bind_result (evict_from E ops c (pb_leaf p) m r) (\<lambda>(w, m1, r1). Inr ([w], m1, r1)))
         else Inr ([], m, r))"

section \<open>The work of a round\<close>

text \<open>The node with key \<open>k\<close> comes from the stash of the ORAM \<open>c\<close>.\<close>

definition fetch_local ::
  "'s storage_ops \<Rightarrow> oram_choice \<Rightarrow> i32 \<Rightarrow> i32 \<Rightarrow> i32 \<Rightarrow> 's avl_omap \<Rightarrow> 's avl_omap result" where
  "fetch_local ops c k par depth t =
     bind_result (po_extract_from_stash ops k (av_chosen c t)) (\<lambda>(blk, p).
     bind_result (decode_node (val blk)) (\<lambda>nd.
       Inr ((av_set_chosen c p t)\<lparr>av_local := av_local t @
             [\<lparr>n_key = k, n_leaf = leaf blk, n_avl = nd, n_parent = par, n_depth = depth\<rparr>]\<rparr>)))"

definition ss_traverse ::
  "'s storage_ops \<Rightarrow> 's avl_machine \<Rightarrow> rng \<Rightarrow> ('s avl_machine \<times> rng) result" where
  "ss_traverse ops m r =
     (let s = am_ss m; t = am_map m
      in with_choice (ss_oram s) (\<lambda>c.
         bind_result (fetch_local ops c (ss_cur_key s) (last_key (av_local t)) (ss_depth s) t) (\<lambda>t1.
           let t2 = av_count_op (ss_depth s) t1;
               i = length (av_local t2) - 1; nd = n_avl (av_local t2 ! i);
               found = (ss_key s = ss_cur_key s);
               t3 = (case ss_update s of
                       Some u \<Rightarrow> if found then t2\<lparr>av_local := upd_avl i (\<lambda>a. a\<lparr>avl_data := u\<rparr>) (av_local t2)\<rparr> else t2
                     | None \<Rightarrow> t2);
               at_end = (found \<or> ss_cur_key s = INVALID_KEY \<or> sint (ss_depth s) \<ge> av_max_height t - 1);
               left = (sint (ss_key s) < sint (ss_cur_key s));
               ck = (if at_end then ss_cur_key s else if left then l_key nd else r_key nd);
               cl = (if at_end then ss_cur_leaf s else if left then l_leaf nd else r_leaf nd);
               s1 = s\<lparr>ss_ops := ss_ops s + 1, ss_result := (if found then avl_data nd else ss_result s),
                      ss_cur_key := ck, ss_cur_leaf := cl, ss_depth := ss_depth s + 1\<rparr>
           in if at_end \<or> ck = INVALID_KEY then
                bind_result (av_put_back ops t3 r) (\<lambda>(t4, r1).
                  let pad = max 0 (ss_budget s1 - ss_ops s1)
                  in Inr (m\<lparr>am_map := t4,
                            am_ss := s1\<lparr>ss_phase := pad_or_done pad, ss_pad_remaining := pad, ss_dummy_step := 0,
                                        ss_boundary := (if av_split_depth t4 > 0
                                          then max 0 (min (av_split_depth t4) (ss_budget s1) - av_upper_ops t4)
                                          else pad)\<rparr>\<rparr>, r1))
              else Inr (m\<lparr>am_map := t3, am_ss := s1\<rparr>, r))))"

definition count_pad :: "bool \<Rightarrow> 's avl_omap \<Rightarrow> 's avl_omap" where
  "count_pad upper t =
     (if av_split_depth t > 0
      then if upper then t\<lparr>av_upper_ops := av_upper_ops t + 1\<rparr> else t\<lparr>av_lower_ops := av_lower_ops t + 1\<rparr>
      else t\<lparr>av_op_count := av_op_count t + 1\<rparr>)"

definition ss_pad :: "'s avl_machine \<Rightarrow> 's avl_machine" where
  "ss_pad m =
     (let s = am_ss m; ds = ss_dummy_step s + 1; rem = ss_pad_remaining s - 1
      in m\<lparr>am_map := count_pad (ds \<le> ss_boundary s) (am_map m),
           am_ss := s\<lparr>ss_ops := ss_ops s + 1, ss_dummy_step := ds, ss_pad_remaining := rem,
                      ss_phase := (if rem \<le> 0 then StepDone else ss_phase s)\<rparr>\<rparr>)"

text \<open>The parent of a piggybacked node is the last local node that points to it.\<close>

definition local_parent :: "i32 \<Rightarrow> local_node list \<Rightarrow> i32" where
  "local_parent k loc =
     (case filter (\<lambda>nd. l_key (n_avl nd) = k \<or> r_key (n_avl nd) = k) (rev loc) of
        [] \<Rightarrow> INVALID_KEY | nd # _ \<Rightarrow> n_key nd)"

definition pb_fetch :: "'s storage_ops \<Rightarrow> pb_state \<Rightarrow> 's avl_omap \<Rightarrow> (nat \<times> 's avl_omap) result" where
  "pb_fetch ops p t =
     (case local_index (pb_cur_key p) (av_local t) of
        Some i \<Rightarrow> Inr (i, t)
      | None \<Rightarrow>
          with_choice (if pb_node_in_local p then Some (choice_for_depth t (pb_depth p)) else pb_oram p) (\<lambda>c.
          bind_result (fetch_local ops c (pb_cur_key p) (local_parent (pb_cur_key p) (av_local t)) (pb_depth p) t) (\<lambda>t1.
            Inr (length (av_local t1) - 1, t1))))"

text \<open>What the piggybacked operation does at a node; the flag says that its traversal ends there.\<close>

definition pb_insert_at ::
  "'s storage_ops \<Rightarrow> nat \<Rightarrow> pb_state \<Rightarrow> 's avl_omap \<Rightarrow> rng \<Rightarrow> (bool \<times> pb_state \<times> 's avl_omap \<times> rng) result" where
  "pb_insert_at ops i p t r =
     (let a = n_avl (av_local t ! i); left = (sint (pb_key p) < sint (pb_cur_key p));
          ck = (if left then l_key a else r_key a); cl = (if left then l_leaf a else r_leaf a);
          last_depth = (sint (pb_depth p) \<ge> av_max_height t - 1)
      in if pb_key p = pb_cur_key p
         then Inr (True, p, t\<lparr>av_local := upd_avl i (\<lambda>a. a\<lparr>avl_data := pb_insert_value p\<rparr>) (av_local t)\<rparr>, r)
         else if ck = INVALID_KEY then
           bind_result (av_attach ops (pb_key p) (pb_insert_value p) left i (pb_depth p + 1) t r) (\<lambda>(t1, r1).
             Inr (True, p, t1, r1))
         else Inr (last_depth, p\<lparr>pb_cur_key := ck, pb_cur_leaf := cl\<rparr>, t, r))"

definition pb_search_at :: "nat \<Rightarrow> pb_state \<Rightarrow> 's avl_omap \<Rightarrow> bool \<times> pb_state" where
  "pb_search_at i p t =
     (let a = n_avl (av_local t ! i); found = (pb_key p = pb_cur_key p);
          left = (sint (pb_key p) < sint (pb_cur_key p));
          ck = (if left then l_key a else r_key a); cl = (if left then l_leaf a else r_leaf a)
      in if found then (True, p\<lparr>pb_result := avl_data a\<rparr>)
         else if sint (pb_depth p) \<ge> av_max_height t - 1 then (True, p)
         else (ck = INVALID_KEY, p\<lparr>pb_cur_key := ck, pb_cur_leaf := cl\<rparr>))"

definition pb_traverse :: "'s storage_ops \<Rightarrow> 's avl_machine \<Rightarrow> rng \<Rightarrow> ('s avl_machine \<times> rng) result" where
  "pb_traverse ops m r =
     (let p = am_pb m
      in bind_result (pb_fetch ops p (am_map m)) (\<lambda>(i, t0).
         let t = av_count_op (pb_depth p) t0
         in bind_result (if pb_is_insert p then pb_insert_at ops i p t r
                         else case pb_search_at i p t of (e, p1) \<Rightarrow> Inr (e, p1, t, r)) (\<lambda>(e, p1, t1, r1).
              let p2 = p1\<lparr>pb_ops := pb_ops p1 + 1, pb_depth := pb_depth p1 + 1\<rparr>;
                  pad = max 0 (pb_budget p2 - pb_ops p2)
              in Inr (if e
                      then m\<lparr>am_map := (if pb_is_insert p2 then av_rebalance_local t1 else t1),
                             am_pb := p2\<lparr>pb_traverse_done := True, pb_phase := pad_or_done pad,
                                         pb_pad_remaining := pad, pb_dummy_step := 0, pb_boundary := pad\<rparr>\<rparr>
                      else m\<lparr>am_map := t1, am_pb := p2\<rparr>, r1))))"

definition pb_pad :: "'s avl_machine \<Rightarrow> 's avl_machine" where
  "pb_pad m =
     (let p = am_pb m; rem = pb_pad_remaining p - 1
      in m\<lparr>am_map := count_pad (pb_dummy_step p < pb_boundary p) (am_map m),
           am_pb := p\<lparr>pb_ops := pb_ops p + 1, pb_dummy_step := pb_dummy_step p + 1, pb_pad_remaining := rem,
                      pb_phase := (if rem \<le> 0 then StepDone else pb_phase p)\<rparr>\<rparr>)"

definition step_process :: "'s storage_ops \<Rightarrow> 's avl_machine \<Rightarrow> rng \<Rightarrow> ('s avl_machine \<times> rng) result" where
  "step_process ops m r =
     bind_result
       (case ss_phase (am_ss m) of
          StepTraverse \<Rightarrow> ss_traverse ops m r | StepPad \<Rightarrow> Inr (ss_pad m, r) | StepDone \<Rightarrow> Inr (m, r))
       (\<lambda>(m1, r1).
          if \<not> pb_active (am_pb m1) then Inr (m1, r1)
          else case pb_phase (am_pb m1) of
            StepTraverse \<Rightarrow> pb_traverse ops m1 r1 | StepPad \<Rightarrow> Inr (pb_pad m1, r1) | StepDone \<Rightarrow> Inr (m1, r1))"

section \<open>Ending an operation\<close>

definition step_done :: "'s avl_machine \<Rightarrow> bool" where
  "step_done m \<longleftrightarrow>
     (if pb_active (am_pb m) \<and> pb_phase (am_pb m) \<noteq> StepDone then False else ss_phase (am_ss m) = StepDone)"

definition step_finish :: "'s storage_ops \<Rightarrow> 's avl_machine \<Rightarrow> bytes \<times> 's avl_machine" where
  "step_finish ops m = (ss_result (am_ss m), m\<lparr>am_map := finalize_bw ops (am_map m)\<rparr>)"

definition finish_piggyback :: "'s avl_machine \<Rightarrow> bytes" where
  "finish_piggyback m = pb_result (am_pb m)"

definition piggyback_needs_decision :: "'s avl_machine \<Rightarrow> bool" where
  "piggyback_needs_decision m \<longleftrightarrow> pb_active (am_pb m) \<and> pb_traverse_done (am_pb m) \<and> pb_result (am_pb m) \<noteq> []"

end
