(* ===== verification/Avl_Local.thy ===== *)
theory Avl_Local
  imports Avl_Omap_Update Avl_Paths
begin

text \<open>
  A tree whose upper part has been taken out into local nodes, in any order and with any shape of the
  part taken out: \<open>mixed\<close>. Linking the new leaves and storing the local nodes gives the tree of \<open>tree_at\<close>.
\<close>

section \<open>Local nodes by key\<close>

definition local_of :: "local_node list \<Rightarrow> i32 \<rightharpoonup> local_node" where
  "local_of loc = map_of (map (\<lambda>e. (n_key e, e)) loc)"

lemma local_of_Some: "local_of loc k = Some e \<Longrightarrow> e \<in> set loc \<and> n_key e = k"
  by (auto simp: local_of_def dest!: map_of_SomeD)

lemma local_of_iff: "distinct (map n_key loc) \<Longrightarrow> local_of loc k = Some e \<longleftrightarrow> e \<in> set loc \<and> n_key e = k"
  by (auto simp: local_of_def comp_def)

lemma local_of_None: "local_of loc k = None \<longleftrightarrow> k \<notin> n_key ` set loc"
  by (simp add: local_of_def map_of_eq_None_iff image_image)

lemma dom_local_of: "dom (local_of loc) = n_key ` set loc"
  by (simp add: local_of_def dom_map_of_conv_image_fst image_image)

lemma local_of_append_new: "n_key e \<notin> n_key ` set loc \<Longrightarrow> local_of (loc @ [e]) = (local_of loc)(n_key e \<mapsto> e)"
  by (simp add: local_of_def map_add_upd_left dom_map_of_conv_image_fst image_image)

lemma local_of_map:
  "(\<And>e. n_key (f e) = n_key e) \<Longrightarrow> local_of (map f loc) = map_option f \<circ> local_of loc"
  by (induction loc) (auto simp: local_of_def fun_eq_iff)

lemma upd_first_unique:
  "distinct (map g xs) \<Longrightarrow> upd_first (\<lambda>x. g x = a) f xs = map (\<lambda>x. if g x = a then f x else x) xs"
proof (induction xs)
  case (Cons x xs)
  have "map (\<lambda>x. if g x = a then f x else x) xs = xs" if "g x = a"
    using Cons.prems that by (intro map_idI) (metis distinct.simps(2) image_eqI list.set_map list.simps(9))
  then show ?case using Cons by simp
qed simp

lemma local_index_Some: "local_index k loc = Some i \<Longrightarrow> i < length loc \<and> n_key (loc ! i) = k"
  by (induction loc arbitrary: i) (auto split: if_splits)

lemma local_index_None: "local_index k loc = None \<longleftrightarrow> k \<notin> n_key ` set loc"
  by (induction loc) auto

lemma local_index_local_of:
  "local_of loc k = (case local_index k loc of None \<Rightarrow> None | Some i \<Rightarrow> Some (loc ! i))"
  by (induction loc) (auto simp: local_of_def split: option.splits)

section \<open>Linking\<close>

definition link_to :: "local_node \<Rightarrow> local_node \<Rightarrow> local_node" where
  "link_to c e =
     (if n_parent c \<noteq> INVALID_KEY \<and> n_key e = n_parent c
      then if l_key (n_avl e) = n_key c then e\<lparr>n_avl := (n_avl e)\<lparr>l_leaf := n_leaf c\<rparr>\<rparr>
           else if r_key (n_avl e) = n_key c then e\<lparr>n_avl := (n_avl e)\<lparr>r_leaf := n_leaf c\<rparr>\<rparr>
           else e
      else e)"

lemma link_to_fields [simp]:
  "n_key (link_to c e) = n_key e" "n_leaf (link_to c e) = n_leaf e" "n_parent (link_to c e) = n_parent e"
  "n_depth (link_to c e) = n_depth e" "l_key (n_avl (link_to c e)) = l_key (n_avl e)"
  "r_key (n_avl (link_to c e)) = r_key (n_avl e)"
  by (simp_all add: link_to_def)

lemma link_to_cong:
  "n_key c' = n_key c \<Longrightarrow> n_leaf c' = n_leaf c \<Longrightarrow> n_parent c' = n_parent c \<Longrightarrow> link_to c' e = link_to c e"
  by (simp add: link_to_def)

lemma fold_link_to_fields [simp]:
  "n_key (fold link_to cs e) = n_key e" "n_leaf (fold link_to cs e) = n_leaf e"
  "n_parent (fold link_to cs e) = n_parent e" "n_depth (fold link_to cs e) = n_depth e"
  by (induction cs arbitrary: e) simp_all

lemma av_link_child_map:
  "distinct (map n_key loc) \<Longrightarrow> av_link_child i loc = map (link_to (loc ! i)) loc"
  by (cases "n_parent (loc ! i) = INVALID_KEY")
    (simp_all add: av_link_child_def Let_def link_to_def upd_first_unique map_idI)

lemma av_link_all_eq:
  assumes "distinct (map n_key loc)"
  shows "av_link_all loc = map (fold link_to (rev loc)) loc"
proof -
  have "fold av_link_child is (map (fold link_to cs) loc) = map (fold link_to (cs @ map (\<lambda>i. loc ! i) is)) loc"
    if "\<forall>i\<in>set is. i < length loc" for cs "is"
    using that
  proof (induction "is" arbitrary: cs)
    case (Cons i js)
    have d: "distinct (map n_key (map (fold link_to cs) loc))" using assms by (simp add: comp_def)
    have "av_link_child i (map (fold link_to cs) loc) = map (link_to (loc ! i)) (map (fold link_to cs) loc)"
      unfolding av_link_child_map [OF d] by (rule map_cong [OF refl link_to_cong]) (use Cons.prems in simp_all)
    also have "\<dots> = map (fold link_to (cs @ [loc ! i])) loc" by simp
    finally have "fold av_link_child (i # js) (map (fold link_to cs) loc) =
        fold av_link_child js (map (fold link_to (cs @ [loc ! i])) loc)" by (simp only: fold_simps comp_apply)
    also have "\<dots> = map (fold link_to ((cs @ [loc ! i]) @ map (\<lambda>i. loc ! i) js)) loc"
      by (rule Cons.IH) (use Cons.prems in simp)
    finally show ?case by (simp only: list.map append_assoc append_Cons append_Nil)
  qed simp
  from this [of "rev [0..<length loc]" "[]"]
  have "av_link_all loc = map (fold link_to (map (\<lambda>i. loc ! i) (rev [0..<length loc]))) loc"
    by (simp add: av_link_all_def)
  then show ?thesis by (simp add: rev_map [symmetric] map_nth)
qed

definition linked_leaf :: "(i32 \<rightharpoonup> local_node) \<Rightarrow> i32 \<Rightarrow> i32 \<Rightarrow> i32 \<Rightarrow> i32" where
  "linked_leaf L p k lf =
     (case L k of None \<Rightarrow> lf | Some c \<Rightarrow> if n_parent c = p \<and> p \<noteq> INVALID_KEY then n_leaf c else lf)"

lemma fold_link_to:
  assumes "distinct (map n_key cs)" "l_key (n_avl e) = r_key (n_avl e) \<longrightarrow> l_key (n_avl e) \<notin> n_key ` set cs"
  shows "n_avl (fold link_to cs e) = (n_avl e)
    \<lparr>l_leaf := linked_leaf (local_of cs) (n_key e) (l_key (n_avl e)) (l_leaf (n_avl e)),
     r_leaf := linked_leaf (local_of cs) (n_key e) (r_key (n_avl e)) (r_leaf (n_avl e))\<rparr>"
  using assms
proof (induction cs arbitrary: e)
  case Nil
  then show ?case by (simp add: linked_leaf_def local_of_def)
next
  case (Cons c cs)
  have out: "local_of cs (n_key c) = None" using Cons.prems(1) by (simp add: local_of_None)
  have IH: "n_avl (fold link_to cs (link_to c e)) = (n_avl (link_to c e))
    \<lparr>l_leaf := linked_leaf (local_of cs) (n_key e) (l_key (n_avl e)) (l_leaf (n_avl (link_to c e))),
     r_leaf := linked_leaf (local_of cs) (n_key e) (r_key (n_avl e)) (r_leaf (n_avl (link_to c e)))\<rparr>"
    using Cons.IH [of "link_to c e"] Cons.prems by simp
  have L: "local_of (c # cs) = (local_of cs)(n_key c \<mapsto> c)" by (simp add: local_of_def)
  show ?case
    unfolding fold_simps IH L using Cons.prems(2) out
    by (auto simp: link_to_def linked_leaf_def split: option.splits)
qed

lemma av_link_all_nodes:
  assumes "distinct (map n_key loc)"
    and "\<forall>e\<in>set loc. l_key (n_avl e) = r_key (n_avl e) \<longrightarrow> l_key (n_avl e) \<notin> n_key ` set loc"
  shows "av_link_all loc = map (\<lambda>e. e\<lparr>n_avl := (n_avl e)
    \<lparr>l_leaf := linked_leaf (local_of loc) (n_key e) (l_key (n_avl e)) (l_leaf (n_avl e)),
     r_leaf := linked_leaf (local_of loc) (n_key e) (r_key (n_avl e)) (r_leaf (n_avl e))\<rparr>\<rparr>) loc"
proof -
  have rev: "local_of (rev loc) = local_of loc"
  proof
    fix k
    have d: "distinct (map n_key (rev loc))" using assms(1) by (simp flip: rev_map)
    show "local_of (rev loc) k = local_of loc k"
    proof (cases "local_of loc k")
      case None
      then have "local_of (rev loc) k = None" by (simp add: local_of_None)
      with None show ?thesis by simp
    next
      case (Some e)
      then show ?thesis using local_of_iff [OF assms(1)] local_of_iff [OF d] by (metis set_rev)
    qed
  qed
  have "fold link_to (rev loc) e = e\<lparr>n_avl := (n_avl e)
    \<lparr>l_leaf := linked_leaf (local_of loc) (n_key e) (l_key (n_avl e)) (l_leaf (n_avl e)),
     r_leaf := linked_leaf (local_of loc) (n_key e) (r_key (n_avl e)) (r_leaf (n_avl e))\<rparr>\<rparr>"
    if "e \<in> set loc" for e
  proof -
    have "n_avl (fold link_to (rev loc) e) = (n_avl e)
      \<lparr>l_leaf := linked_leaf (local_of loc) (n_key e) (l_key (n_avl e)) (l_leaf (n_avl e)),
       r_leaf := linked_leaf (local_of loc) (n_key e) (r_key (n_avl e)) (r_leaf (n_avl e))\<rparr>"
      unfolding rev [symmetric] by (rule fold_link_to) (use assms that in \<open>simp_all flip: rev_map\<close>)
    then show ?thesis by (intro local_node.equality) simp_all
  qed
  then show ?thesis unfolding av_link_all_eq [OF assms(1)] by (simp cong: map_cong)
qed

section \<open>Mixed trees\<close>

text \<open>\<open>same x d\<close> says that a node with depth field \<open>x\<close> goes to the ORAM of depth \<open>d\<close>.\<close>

fun mixed ::
  "(i32 \<Rightarrow> nat \<Rightarrow> bool) \<Rightarrow> node_view \<Rightarrow> (bytes \<Rightarrow> bool) \<Rightarrow> (i32 \<rightharpoonup> local_node) \<Rightarrow> nat \<Rightarrow> i32 \<Rightarrow> i32 \<Rightarrow> i32 \<Rightarrow> kv_tree \<Rightarrow> bool" where
  "mixed same om vs L d p k lf Leaf \<longleftrightarrow> k = INVALID_KEY"
| "mixed same om vs L d p k lf (Node l (k', v) r) \<longleftrightarrow>
     (case L k of
        None \<Rightarrow> tree_at om vs d k lf (Node l (k', v) r) \<and> keys_of (Node l (k', v) r) \<inter> dom L = {}
      | Some e \<Rightarrow> k = k' \<and> k \<noteq> INVALID_KEY \<and> vs v \<and> om d k = None \<and> n_leaf e = lf \<and> n_parent e = p \<and> same (n_depth e) d
          \<and> avl_data (n_avl e) = v
          \<and> mixed same om vs L (Suc d) k (l_key (n_avl e)) (l_leaf (n_avl e)) l
          \<and> mixed same om vs L (Suc d) k (r_key (n_avl e)) (r_leaf (n_avl e)) r)"

lemma mixed_root: "mixed same om vs L d p k lf t \<Longrightarrow> t \<noteq> Leaf \<Longrightarrow> k \<noteq> INVALID_KEY \<and> k \<in> keys_of t"
  by (cases t) (auto split: option.splits)

lemma mixed_local_parent:
  "mixed same om vs L d p k lf t \<Longrightarrow> L k = Some c \<Longrightarrow> INVALID_KEY \<notin> dom L \<Longrightarrow> n_parent c = p \<and> n_leaf c = lf"
  by (cases t) (auto split: option.splits)

lemma tree_at_mixed:
  "tree_at om vs d k lf t \<Longrightarrow> keys_of t \<inter> dom L = {} \<Longrightarrow> mixed same om vs L d p k lf t"
  by (cases t) (auto split: option.splits)

lemma mixed_keys: "mixed same om vs L d p k lf t \<Longrightarrow> \<forall>x\<in>keys_of t. x \<noteq> INVALID_KEY"
proof (induction t arbitrary: d p k lf)
  case (Node l kv r)
  obtain k' v where kv: "kv = (k', v)" by fastforce
  show ?case
  proof (cases "L k")
    case None
    then show ?thesis using Node.prems tree_at_valid [of om vs d k lf "Node l kv r"] kv by auto
  next
    case (Some e)
    then have "mixed same om vs L (Suc d) k (l_key (n_avl e)) (l_leaf (n_avl e)) l"
      "mixed same om vs L (Suc d) k (r_key (n_avl e)) (r_leaf (n_avl e)) r" "k = k'" "k \<noteq> INVALID_KEY"
      using Node.prems kv by auto
    with Node.IH(1) [OF this(1)] Node.IH(2) [OF this(2)] show ?thesis using kv by auto
  qed
qed simp

text \<open>Storing the local nodes: the pointers of their parents follow the new leaves \<open>nl\<close>.\<close>

lemma mixed_stored:
  assumes "mixed same om vs L d p k lf t" "tree_distinct t" "INVALID_KEY \<notin> dom L"
    and keep: "\<And>j x. x \<notin> dom L \<Longrightarrow> om' j x = om j x"
    and stored: "\<And>j x e. L x = Some e \<Longrightarrow> same (n_depth e) j \<Longrightarrow>
      om' j x = Some (nl x, encode_node ((n_avl e)\<lparr>
        l_leaf := (case L (l_key (n_avl e)) of None \<Rightarrow> l_leaf (n_avl e)
                   | Some c \<Rightarrow> if n_parent c = x then nl (l_key (n_avl e)) else l_leaf (n_avl e)),
        r_leaf := (case L (r_key (n_avl e)) of None \<Rightarrow> r_leaf (n_avl e)
                   | Some c \<Rightarrow> if n_parent c = x then nl (r_key (n_avl e)) else r_leaf (n_avl e))\<rparr>))"
  shows "tree_at om' vs d k (if k \<in> dom L then nl k else lf) t"
  using assms(1,2)
proof (induction t arbitrary: d p k lf)
  case (Node l kv r)
  obtain k' v where kv: "kv = (k', v)" by fastforce
  show ?case
  proof (cases "L k")
    case None
    then have "tree_at om vs d k lf (Node l kv r)" "keys_of (Node l kv r) \<inter> dom L = {}"
      using Node.prems(1) kv by auto
    then have "tree_at om' vs d k lf (Node l kv r)" by (elim tree_at_cong) (use keep in blast)
    moreover have "k \<notin> dom L" using None by (simp add: domIff)
    ultimately show ?thesis by simp
  next
    case (Some e)
    have m: "k = k'" "k \<noteq> INVALID_KEY" "vs v" "same (n_depth e) d" "avl_data (n_avl e) = v"
      "mixed same om vs L (Suc d) k (l_key (n_avl e)) (l_leaf (n_avl e)) l"
      "mixed same om vs L (Suc d) k (r_key (n_avl e)) (r_leaf (n_avl e)) r"
      using Node.prems(1) kv Some by auto
    have "tree_distinct l" "tree_distinct r" using Node.prems(2) kv by auto
    note IH = Node.IH(1) [OF m(6) this(1)] Node.IH(2) [OF m(7) this(2)]
    have "(case L (l_key (n_avl e)) of None \<Rightarrow> l_leaf (n_avl e)
        | Some c \<Rightarrow> if n_parent c = k then nl (l_key (n_avl e)) else l_leaf (n_avl e)) =
      (if l_key (n_avl e) \<in> dom L then nl (l_key (n_avl e)) else l_leaf (n_avl e))"
      using mixed_local_parent [OF m(6) _ assms(3)] by (auto split: option.splits)
    moreover have "(case L (r_key (n_avl e)) of None \<Rightarrow> r_leaf (n_avl e)
        | Some c \<Rightarrow> if n_parent c = k then nl (r_key (n_avl e)) else r_leaf (n_avl e)) =
      (if r_key (n_avl e) \<in> dom L then nl (r_key (n_avl e)) else r_leaf (n_avl e))"
      using mixed_local_parent [OF m(7) _ assms(3)] by (auto split: option.splits)
    ultimately have "om' d k = Some (nl k, encode_node ((n_avl e)\<lparr>
        l_leaf := (if l_key (n_avl e) \<in> dom L then nl (l_key (n_avl e)) else l_leaf (n_avl e)),
        r_leaf := (if r_key (n_avl e) \<in> dom L then nl (r_key (n_avl e)) else r_leaf (n_avl e))\<rparr>))"
      using stored [OF Some m(4)] by simp
    then show ?thesis using m(1-3,5) IH kv Some by (auto simp: domI)
  qed
qed simp

text \<open>No local node of a tree points to the same child on both sides.\<close>

lemma mixed_children:
  assumes "mixed same om vs L d p k lf t" "tree_distinct t" "INVALID_KEY \<notin> dom L"
    and "L x = Some e" "x \<in> keys_of t"
  shows "l_key (n_avl e) = r_key (n_avl e) \<longrightarrow> l_key (n_avl e) \<notin> dom L"
  using assms(1,2,5)
proof (induction t arbitrary: d p k lf)
  case (Node l kv r)
  obtain k' v where kv: "kv = (k', v)" by fastforce
  show ?case
  proof (cases "L k")
    case None
    then show ?thesis using Node.prems kv assms(4) by auto
  next
    case (Some f)
    have m: "k = k'" "mixed same om vs L (Suc d) k (l_key (n_avl f)) (l_leaf (n_avl f)) l"
      "mixed same om vs L (Suc d) k (r_key (n_avl f)) (r_leaf (n_avl f)) r"
      using Node.prems(1) kv Some by auto
    consider "x = k" | "x \<in> keys_of l" | "x \<in> keys_of r" using Node.prems(3) kv m(1) by auto
    then show ?thesis
    proof cases
      case 1
      then have e: "e = f" using Some assms(4) by simp
      have "l_key (n_avl f) = INVALID_KEY \<or> l_key (n_avl f) \<in> keys_of l" using mixed_root [OF m(2)] m(2) by (cases l) auto
      moreover have "r_key (n_avl f) = INVALID_KEY \<or> r_key (n_avl f) \<in> keys_of r" using mixed_root [OF m(3)] m(3) by (cases r) auto
      moreover have "keys_of l \<inter> keys_of r = {}" using Node.prems(2) kv by auto
      ultimately show ?thesis using e assms(3) by auto
    next
      case 2
      then show ?thesis using Node.IH(1) [OF m(2)] Node.prems(2) kv by auto
    next
      case 3
      then show ?thesis using Node.IH(2) [OF m(3)] Node.prems(2) kv by auto
    qed
  qed
qed simp

lemma mixed_absent:
  "mixed same om vs L d p k lf t \<Longrightarrow> L x = Some e \<Longrightarrow> x \<in> keys_of t \<Longrightarrow>
   \<exists>j. same (n_depth e) j \<and> om j x = None"
proof (induction t arbitrary: d p k lf)
  case (Node l kv r)
  obtain k' v where kv: "kv = (k', v)" by fastforce
  show ?case
  proof (cases "L k")
    case None
    then show ?thesis using Node.prems kv by auto
  next
    case (Some f)
    then have m: "k = k'" "same (n_depth f) d" "om d k = None"
      "mixed same om vs L (Suc d) k (l_key (n_avl f)) (l_leaf (n_avl f)) l"
      "mixed same om vs L (Suc d) k (r_key (n_avl f)) (r_leaf (n_avl f)) r"
      using Node.prems(1) kv by auto
    consider "x = k" | "x \<in> keys_of l" | "x \<in> keys_of r" using Node.prems(3) kv m(1) by auto
    then show ?thesis
      by cases (use m Some Node.prems(2) Node.IH(1) [OF m(4)] Node.IH(2) [OF m(5)] in auto)
  qed
qed simp

text \<open>The values of the local nodes are values a node may hold.\<close>

lemma mixed_values:
  "mixed same om vs L d p k lf t \<Longrightarrow> L x = Some e \<Longrightarrow> x \<in> keys_of t \<Longrightarrow> vs (avl_data (n_avl e))"
proof (induction t arbitrary: d p k lf)
  case (Node l kv r)
  obtain k' v where kv: "kv = (k', v)" by fastforce
  show ?case
  proof (cases "L k")
    case None
    then show ?thesis using Node.prems kv by auto
  next
    case (Some f)
    then have m: "k = k'" "vs (avl_data (n_avl f))"
      "mixed same om vs L (Suc d) k (l_key (n_avl f)) (l_leaf (n_avl f)) l"
      "mixed same om vs L (Suc d) k (r_key (n_avl f)) (r_leaf (n_avl f)) r"
      using Node.prems(1) kv by auto
    consider "x = k" | "x \<in> keys_of l" | "x \<in> keys_of r" using Node.prems(3) kv m(1) by auto
    then show ?thesis
      by cases (use m Some Node.prems(2) Node.IH(1) [OF m(3)] Node.IH(2) [OF m(4)] in auto)
  qed
qed simp

text \<open>A chain of local nodes is a mixed tree.\<close>

lemma chain_mixed:
  assumes "chain om vs d es p k lf t hk hl h" "tree_distinct t" "\<forall>j. same (of_nat j) j"
  shows "mixed same om vs (local_of es) d p k lf t"
proof -
  have "mixed same om vs L d p k lf t"
    if "chain om vs d es p k lf t hk hl h" "tree_distinct t" "\<forall>e\<in>set es. L (n_key e) = Some e"
      "keys_of t \<inter> dom L \<subseteq> n_key ` set es" for L d p k lf t
    using that
  proof (induction es arbitrary: d p k lf t)
    case Nil
    then show ?case using tree_at_mixed by auto
  next
    case (Cons e es)
    from Cons.prems(1) show ?case
    proof (cases rule: chain_cases)
      case (left l v r)
      have sub: "n_key ` set es \<subseteq> keys_of l" and d: "tree_distinct l" "tree_distinct r"
        using chain_keys [OF left(2)] Cons.prems(2) left(1) by auto
      have "mixed same om vs L (Suc d) k (l_key (n_avl e)) (l_leaf (n_avl e)) l"
        by (rule Cons.IH [OF left(2) d(1)]) (use Cons.prems left(1,7) in auto)
      moreover have "keys_of r \<inter> dom L = {}" using Cons.prems(2,4) left(1,7) sub by auto
      then have "mixed same om vs L (Suc d) k (r_key (n_avl e)) (r_leaf (n_avl e)) r"
        by (rule tree_at_mixed [OF left(3)])
      ultimately show ?thesis using left Cons.prems(3) assms(3) by auto
    next
      case (right l v r)
      have sub: "n_key ` set es \<subseteq> keys_of r" and d: "tree_distinct l" "tree_distinct r"
        using chain_keys [OF right(3)] Cons.prems(2) right(1) by auto
      have "mixed same om vs L (Suc d) k (r_key (n_avl e)) (r_leaf (n_avl e)) r"
        by (rule Cons.IH [OF right(3) d(2)]) (use Cons.prems right(1,7) in auto)
      moreover have "keys_of l \<inter> dom L = {}" using Cons.prems(2,4) right(1,7) sub by auto
      then have "mixed same om vs L (Suc d) k (l_key (n_avl e)) (l_leaf (n_avl e)) l"
        by (rule tree_at_mixed [OF right(2)])
      ultimately show ?thesis using right Cons.prems(3) assms(3) by auto
    qed
  qed
  moreover have "distinct (map n_key es)" using chain_distinct [OF assms(1,2)] by simp
  ultimately show ?thesis using assms(1,2) local_of_iff by (metis dom_local_of inf.cobounded2)
qed

end
