(* ===== verification/Avl_Omap_Correct.thy ===== *)
theory Avl_Omap_Correct
  imports Avl_Local Path_Oram_Access
begin

text \<open>
  The client's AVL map over any storage with the laws of \<open>bucket_storage\<close>: \<open>av_ok\<close> says what its two
  ORAMs hold, \<open>av_view\<close> reads a node by depth and key, and the operations follow the tree of
  \<open>Avl_Paths\<close>. The way down takes a stored tree apart into a chain of local nodes above a hole, and
  putting the nodes back stores the tree again.
\<close>

section \<open>What the map holds\<close>

text \<open>A value whose node is small enough to be encrypted.\<close>

definition node_fits :: "bytes \<Rightarrow> bool" where
  "node_fits v \<longleftrightarrow> AES_IV_LEN + AVL_HEADER_SIZE + length v < 2 ^ 31"

lemma node_fits_encode: "fits_cipher (encode_node nd) \<longleftrightarrow> node_fits (avl_data nd)"
  by (simp add: fits_cipher_def node_fits_def add.assoc)

definition av_ok ::
  "crypto \<Rightarrow> ('s \<Rightarrow> bool) \<Rightarrow> ('s \<Rightarrow> int \<Rightarrow> block list) \<Rightarrow> 's storage_ops \<Rightarrow> 's avl_omap
    \<Rightarrow> (i32 \<rightharpoonup> i32 \<times> bytes) \<Rightarrow> (i32 \<rightharpoonup> i32 \<times> bytes) \<Rightarrow> bool" where
  "av_ok cr ok bucket ops t mu ml \<longleftrightarrow>
     (av_split_depth t > 0 \<longrightarrow> po_state cr ok bucket ops {} (av_upper t) mu)
     \<and> po_state cr ok bucket ops {} (av_lower t) ml"

definition av_map_at :: "'s avl_omap \<Rightarrow> (i32 \<rightharpoonup> i32 \<times> bytes) \<Rightarrow> (i32 \<rightharpoonup> i32 \<times> bytes) \<Rightarrow> i32 \<Rightarrow> (i32 \<rightharpoonup> i32 \<times> bytes)" where
  "av_map_at t mu ml depth = (if av_is_upper t depth then mu else ml)"

definition av_view :: "'s avl_omap \<Rightarrow> (i32 \<rightharpoonup> i32 \<times> bytes) \<Rightarrow> (i32 \<rightharpoonup> i32 \<times> bytes) \<Rightarrow> node_view" where
  "av_view t mu ml d = av_map_at t mu ml (of_nat d)"

text \<open>The ORAMs hold no keys but those of the tree.\<close>

definition only_keys :: "node_view \<Rightarrow> kv_tree \<Rightarrow> bool" where
  "only_keys om tree \<longleftrightarrow> (\<forall>j x. om j x \<noteq> None \<longrightarrow> x \<in> keys_of tree)"

lemma only_keys_removed:
  "only_keys om tree \<Longrightarrow> \<forall>j x. x \<noteq> k \<longrightarrow> om' j x = om j x \<Longrightarrow> k \<in> keys_of tree \<Longrightarrow> only_keys om' tree"
  unfolding only_keys_def by metis

text \<open>What the work inside an operation leaves alone.\<close>

definition av_conf :: "'s avl_omap \<Rightarrow> 's avl_omap \<Rightarrow> bool" where
  "av_conf t t' \<longleftrightarrow> av_capacity t' = av_capacity t \<and> av_max_height t' = av_max_height t
     \<and> av_split_depth t' = av_split_depth t \<and> av_ods_mode t' = av_ods_mode t"

lemma av_conf_refl [simp]: "av_conf t t"
  by (simp add: av_conf_def)

lemma av_conf_trans: "av_conf t t' \<Longrightarrow> av_conf t' t'' \<Longrightarrow> av_conf t t''"
  by (simp add: av_conf_def)

lemma av_conf_upper: "av_conf t t' \<Longrightarrow> av_is_upper t' = av_is_upper t"
  by (simp add: av_conf_def av_is_upper_def fun_eq_iff)

lemma av_is_upper_simps [simp]:
  "av_is_upper (t\<lparr>av_local := l\<rparr>) = av_is_upper t"
  "av_is_upper (t\<lparr>av_upper := p\<rparr>) = av_is_upper t"
  "av_is_upper (t\<lparr>av_lower := p\<rparr>) = av_is_upper t"
  "av_is_upper (t\<lparr>av_root_key := k\<rparr>) = av_is_upper t"
  "av_is_upper (t\<lparr>av_root_leaf := k\<rparr>) = av_is_upper t"
  "av_is_upper (t\<lparr>av_op_count := n\<rparr>) = av_is_upper t"
  "av_is_upper (t\<lparr>av_upper_ops := n\<rparr>) = av_is_upper t"
  "av_is_upper (t\<lparr>av_lower_ops := n\<rparr>) = av_is_upper t"
  "av_is_upper (t\<lparr>av_last_bw := bw\<rparr>) = av_is_upper t"
  "av_is_upper (t\<lparr>av_total_bw := bw\<rparr>) = av_is_upper t"
  "av_is_upper (av_set_oram d p t) = av_is_upper t"
  "av_is_upper (av_count_op d t) = av_is_upper t"
  by (simp_all add: av_is_upper_def fun_eq_iff av_set_oram_def av_count_op_def)

lemma av_set_oram_fields [simp]:
  "av_capacity (av_set_oram d p t) = av_capacity t" "av_max_height (av_set_oram d p t) = av_max_height t"
  "av_split_depth (av_set_oram d p t) = av_split_depth t" "av_ods_mode (av_set_oram d p t) = av_ods_mode t"
  "av_root_key (av_set_oram d p t) = av_root_key t" "av_root_leaf (av_set_oram d p t) = av_root_leaf t"
  "av_local (av_set_oram d p t) = av_local t"
  "av_op_count (av_set_oram d p t) = av_op_count t" "av_upper_ops (av_set_oram d p t) = av_upper_ops t"
  "av_lower_ops (av_set_oram d p t) = av_lower_ops t"
  by (simp_all add: av_set_oram_def)

lemma av_count_op_fields [simp]:
  "av_capacity (av_count_op d t) = av_capacity t" "av_max_height (av_count_op d t) = av_max_height t"
  "av_split_depth (av_count_op d t) = av_split_depth t" "av_ods_mode (av_count_op d t) = av_ods_mode t"
  "av_root_key (av_count_op d t) = av_root_key t" "av_root_leaf (av_count_op d t) = av_root_leaf t"
  "av_local (av_count_op d t) = av_local t" "av_upper (av_count_op d t) = av_upper t"
  "av_lower (av_count_op d t) = av_lower t"
  by (simp_all add: av_count_op_def)

lemma av_oram_for_depth_simps [simp]:
  "av_oram_for_depth (t\<lparr>av_local := l\<rparr>) = av_oram_for_depth t"
  "av_oram_for_depth (t\<lparr>av_root_leaf := lf\<rparr>) = av_oram_for_depth t"
  "av_oram_for_depth (av_count_op d t) = av_oram_for_depth t"
  "av_oram_for_depth (av_set_oram d p t) e = (if av_is_upper t d = av_is_upper t e then p else av_oram_for_depth t e)"
  by (auto simp: av_oram_for_depth_def av_set_oram_def fun_eq_iff)

lemma av_ok_cong:
  "av_upper t' = av_upper t \<Longrightarrow> av_lower t' = av_lower t \<Longrightarrow> av_split_depth t' = av_split_depth t \<Longrightarrow>
   av_ok cr ok bucket ops t' mu ml = av_ok cr ok bucket ops t mu ml"
  by (simp add: av_ok_def)

lemma av_view_cong: "av_is_upper t' = av_is_upper t \<Longrightarrow> av_view t' mu ml = av_view t mu ml"
  by (simp add: av_view_def av_map_at_def fun_eq_iff)

lemma av_ok_at:
  "av_ok cr ok bucket ops t mu ml \<Longrightarrow> po_state cr ok bucket ops {} (av_oram_for_depth t d) (av_map_at t mu ml d)"
  by (auto simp: av_ok_def av_oram_for_depth_def av_map_at_def av_is_upper_def)

text \<open>One ORAM changes.\<close>

definition put_map ::
  "'s avl_omap \<Rightarrow> i32 \<Rightarrow> (i32 \<rightharpoonup> i32 \<times> bytes) \<Rightarrow> (i32 \<rightharpoonup> i32 \<times> bytes) \<times> (i32 \<rightharpoonup> i32 \<times> bytes)
    \<Rightarrow> (i32 \<rightharpoonup> i32 \<times> bytes) \<times> (i32 \<rightharpoonup> i32 \<times> bytes)" where
  "put_map t d m mm = (if av_is_upper t d then (m, snd mm) else (fst mm, m))"

lemma av_ok_set:
  assumes "av_ok cr ok bucket ops t mu ml" "po_state cr ok bucket ops {} p m" "put_map t d m (mu, ml) = (mu', ml')"
  shows "av_ok cr ok bucket ops (av_set_oram d p t) mu' ml'"
  using assms by (auto simp: av_ok_def av_set_oram_def put_map_def av_is_upper_def split: if_splits)

lemma av_view_put:
  assumes "put_map t (of_nat d) ((av_view t mu ml d)(k := x)) (mu, ml) = (mu', ml')"
  shows "av_view t mu' ml' d k = x" "y \<noteq> k \<Longrightarrow> av_view t mu' ml' j y = av_view t mu ml j y"
  using assms by (auto simp: av_view_def av_map_at_def put_map_def split: if_splits)

lemma po_state_leaf:
  assumes "po_state cr ok bucket ops P p m" "m k = Some (lf, v)"
  shows "valid_leaf (po_level ops p) (sint lf)" "k \<noteq> INVALID_KEY"
proof -
  obtain s where s: "po_storage p = Some s"
    "\<forall>b\<in>set (live (po_effective cr bucket ops P s p)). valid_leaf (so_level ops s) (sint (leaf b))"
    "keys_distinct (po_effective cr bucket ops P s p)" "block_map (po_effective cr bucket ops P s p) = m"
    using assms(1) unfolding po_state_def by blast
  then show "valid_leaf (po_level ops p) (sint lf)"
    using assms(2) block_map_Some_iff [OF s(3)] by (auto simp: po_level_def)
  show "k \<noteq> INVALID_KEY" using s(4) assms(2) by (metis block_map_INVALID option.distinct(1))
qed

section \<open>Fetching a node\<close>

context bucket_storage
begin

lemma move_to_local_spec:
  assumes E: "good_env E" and ok: "av_ok (oe_crypto E) inv bucket ops t mu ml"
    and k: "av_view t mu ml d k = Some (lf, encode_node nd)"
  shows "safe_run (av_move_to_local E ops k lf par (of_nat d) t r) (\<lambda>(t', r'). \<exists>mu' ml'.
    av_ok (oe_crypto E) inv bucket ops t' mu' ml' \<and> av_conf t t'
    \<and> av_root_key t' = av_root_key t \<and> av_root_leaf t' = av_root_leaf t
    \<and> av_local t' = av_local t @ [\<lparr>n_key = k, n_leaf = lf, n_avl = nd, n_parent = par, n_depth = of_nat d\<rparr>]
    \<and> av_view t' mu' ml' d k = None \<and> (\<forall>j x. x \<noteq> k \<longrightarrow> av_view t' mu' ml' j x = av_view t mu ml j x))"
proof -
  let ?p = "av_oram_for_depth t (of_nat d)" and ?m = "av_view t mu ml d"
  let ?e = "\<lparr>n_key = k, n_leaf = lf, n_avl = nd, n_parent = par, n_depth = of_nat d\<rparr> :: local_node"
  have st: "po_state (oe_crypto E) inv bucket ops {} ?p ?m"
    using av_ok_at [OF ok] by (simp add: av_view_def)
  note lf = po_state_leaf [OF st k]
  have run: "safe_run (bind_result (po_read_path_to_stash E ops lf ?p)
      (\<lambda>p1. bind_result (po_extract_from_stash ops k p1) (\<lambda>(blk, p2). evict_and_write_path E ops lf p2 r)))
    (\<lambda>(p', r'). po_frame ops ?p p' \<and> po_state (oe_crypto E) inv bucket ops {} p' (?m(k := None)))"
  proof (rule po_round_trip [OF E st lf(1), where r = r])
    fix p1
    assume p1: "po_state (oe_crypto E) inv bucket ops (set (path_up (po_level ops ?p) (sint lf))) p1 ?m"
      "\<forall>k v. ?m k = Some (lf, v) \<longrightarrow> \<lparr>key = k, leaf = lf, val = v\<rparr> \<in> set (po_stash p1)"
    have here: "\<lparr>key = k, leaf = lf, val = encode_node nd\<rparr> \<in> set (po_stash p1)" using p1(2) k by blast
    show "\<exists>p2. bind_result (po_extract_from_stash ops k p1) (\<lambda>(blk, p2). evict_and_write_path E ops lf p2 r) =
        evict_and_write_path E ops lf p2 r \<and> po_frame ops p1 p2
      \<and> po_state (oe_crypto E) inv bucket ops (set (path_up (po_level ops ?p) (sint lf))) p2 (?m(k := None))"
      using po_extract_state(2) [OF p1(1) k here] by auto
  qed
  obtain mu' ml' where mm: "put_map t (of_nat d) (?m(k := None)) (mu, ml) = (mu', ml')" by fastforce
  obtain p1 where p1: "po_read_path_to_stash E ops lf ?p = Inr p1"
    "po_state (oe_crypto E) inv bucket ops (set (path_up (po_level ops ?p) (sint lf))) p1 ?m"
    "\<forall>k v. ?m k = Some (lf, v) \<longrightarrow> \<lparr>key = k, leaf = lf, val = v\<rparr> \<in> set (po_stash p1)"
    using read_path_state [OF E st lf(1)] by blast
  obtain p2 where p2: "po_extract_from_stash ops k p1 = Inr (\<lparr>key = k, leaf = lf, val = encode_node nd\<rparr>, p2)"
    using po_extract_state(2) [OF p1(2) k] p1(3) k by blast
  have ev: "safe_run (evict_and_write_path E ops lf p2 r)
    (\<lambda>(p', r'). po_frame ops ?p p' \<and> po_state (oe_crypto E) inv bucket ops {} p' (?m(k := None)))"
    using run by (simp add: p1(1) p2)
  have goal: "safe_run (bind_result (evict_and_write_path E ops lf p2 r)
      (\<lambda>(p3, r1). Inr (av_count_op (of_nat d) (av_set_oram (of_nat d) p3 (t\<lparr>av_local := av_local t @ [?e]\<rparr>)), r1)))
    (\<lambda>(t', r'). \<exists>mu' ml'.
    av_ok (oe_crypto E) inv bucket ops t' mu' ml' \<and> av_conf t t'
    \<and> av_root_key t' = av_root_key t \<and> av_root_leaf t' = av_root_leaf t
    \<and> av_local t' = av_local t @ [?e]
    \<and> av_view t' mu' ml' d k = None \<and> (\<forall>j x. x \<noteq> k \<longrightarrow> av_view t' mu' ml' j x = av_view t mu ml j x))"
  proof (rule safe_run_bind [OF ev], clarify)
    fix p3 r1 assume p3: "po_state (oe_crypto E) inv bucket ops {} p3 (?m(k := None))"
    let ?t = "av_count_op (of_nat d) (av_set_oram (of_nat d) p3 (t\<lparr>av_local := av_local t @ [?e]\<rparr>))"
    have okl: "av_ok (oe_crypto E) inv bucket ops (t\<lparr>av_local := av_local t @ [?e]\<rparr>) mu ml"
      using ok by (simp add: av_ok_def)
    have mm': "put_map (t\<lparr>av_local := av_local t @ [?e]\<rparr>) (of_nat d) (?m(k := None)) (mu, ml) = (mu', ml')"
      using mm by (simp add: put_map_def)
    have "av_ok (oe_crypto E) inv bucket ops ?t mu' ml'"
      using av_ok_set [OF okl p3 mm'] by (simp add: av_ok_def)
    moreover have "av_view ?t mu' ml' = av_view t mu' ml'" by (rule av_view_cong) simp
    ultimately show "safe_run (Inr (?t, r1)) (\<lambda>(t', r'). \<exists>mu' ml'.
      av_ok (oe_crypto E) inv bucket ops t' mu' ml' \<and> av_conf t t'
      \<and> av_root_key t' = av_root_key t \<and> av_root_leaf t' = av_root_leaf t
      \<and> av_local t' = av_local t @ [?e]
      \<and> av_view t' mu' ml' d k = None \<and> (\<forall>j x. x \<noteq> k \<longrightarrow> av_view t' mu' ml' j x = av_view t mu ml j x))"
      using av_view_put [OF mm] unfolding safe_run_simps prod.case
      by (intro exI [of _ mu'] exI [of _ ml']) (simp add: av_conf_def)
  qed
  then show ?thesis unfolding av_move_to_local_def p1(1) bind_result_simps p2 by (simp add: Let_def)
qed

end

section \<open>The way down\<close>

definition upd_tree :: "i32 \<Rightarrow> bytes option \<Rightarrow> kv_tree \<Rightarrow> kv_tree" where
  "upd_tree k update tree = (case update of None \<Rightarrow> tree | Some u \<Rightarrow> set_val k u tree)"

text \<open>The local nodes are a path of the tree, and the rest of it is stored.\<close>

definition apart ::
  "crypto \<Rightarrow> ('s \<Rightarrow> bool) \<Rightarrow> ('s \<Rightarrow> int \<Rightarrow> block list) \<Rightarrow> 's storage_ops \<Rightarrow> (bytes \<Rightarrow> bool) \<Rightarrow> kv_tree
    \<Rightarrow> 's avl_omap \<Rightarrow> 's avl_omap \<Rightarrow> bool" where
  "apart cr ok bucket ops vs tree t0 t \<longleftrightarrow>
     (\<exists>mu ml hk hl h. av_ok cr ok bucket ops t mu ml \<and> av_conf t0 t
        \<and> av_root_key t = av_root_key t0 \<and> av_root_leaf t = av_root_leaf t0
        \<and> chain (av_view t mu ml) vs 0 (av_local t) INVALID_KEY (av_root_key t0) (av_root_leaf t0) tree hk hl h
        \<and> only_keys (av_view t mu ml) tree)"

lemma apart_trans:
  "av_conf t0 t1 \<Longrightarrow> av_root_key t1 = av_root_key t0 \<Longrightarrow> av_root_leaf t1 = av_root_leaf t0 \<Longrightarrow>
   apart cr ok bucket ops vs tree t1 t \<Longrightarrow> apart cr ok bucket ops vs tree t0 t"
  unfolding apart_def by (elim exE conjE) (intro exI conjI, (assumption | simp add: av_conf_def)+)

context bucket_storage
begin

lemma descend_spec:
  assumes E: "good_env E" and ord: "key_ordered tree" and vs: "\<forall>u. update = Some u \<longrightarrow> vs u"
    and "av_ok (oe_crypto E) inv bucket ops t mu ml"
    and "chain (av_view t mu ml) vs 0 (av_local t) INVALID_KEY (av_root_key t) (av_root_leaf t) tree hk hl h"
    and "length (av_local t) = d" "height h \<le> n" "tree_map tree k = tree_map h k" "only_keys (av_view t mu ml) tree"
  shows "safe_run (av_descend E ops k update n d hk hl t r) (\<lambda>(f, t', r').
      apart (oe_crypto E) inv bucket ops vs (upd_tree k update tree) t t' \<and> map_option snd f = tree_map tree k)"
  using assms(4-)
proof (induction n arbitrary: t mu ml d hk hl h r)
  case 0
  then have h: "h = Leaf" by simp
  then have "k \<notin> keys_of tree" using 0(5) by (simp add: tree_map_None)
  then have "upd_tree k update tree = tree" by (simp add: upd_tree_def set_val_id split: option.split)
  then show ?case using 0(1,2,5,6) h unfolding apart_def by (simp, blast)
next
  case (Suc n)
  have dist: "tree_distinct tree" by (rule key_ordered_distinct [OF ord])
  have hole: "tree_at (av_view t mu ml) vs d hk hl h" using chain_keys [OF Suc.prems(2)] Suc.prems(3) by simp
  show ?case
  proof (cases h)
    case Leaf
    then have "hk = INVALID_KEY" using hole by simp
    moreover have "k \<notin> keys_of tree" using Suc.prems(5) Leaf by (simp add: tree_map_None)
    then have "upd_tree k update tree = tree" by (simp add: upd_tree_def set_val_id split: option.split)
    ultimately show ?thesis using Suc.prems(1,2,5,6) Leaf unfolding apart_def by (simp, blast)
  next
    case (Node l kv x)
    obtain k' v where kv: "kv = (k', v)" by fastforce
    obtain nd where nd: "av_view t mu ml d hk = Some (hl, encode_node nd)" "avl_data nd = v" "hk = k'"
      "hk \<noteq> INVALID_KEY" "vs v"
      using hole unfolding Node kv tree_at.simps by blast
    have hn: "h = Node l (hk, v) x" using Node kv nd(3) by simp
    let ?e = "\<lparr>n_key = hk, n_leaf = hl, n_avl = nd, n_parent = last_key (av_local t), n_depth = of_nat d\<rparr>"
    have hord: "key_ordered h"
    proof -
      have "chain om vs d' es p k0 lf0 t0 hk hl h \<Longrightarrow> key_ordered t0 \<Longrightarrow> key_ordered h" for om d' es p k0 lf0 t0
      proof (induction es arbitrary: d' p k0 lf0 t0)
        case (Cons e es)
        from Cons.prems(1) show ?case by (cases rule: chain_cases) (use Cons in auto)
      qed simp
      then show ?thesis using Suc.prems(2) ord by blast
    qed
    show ?thesis
      unfolding av_descend.simps if_not_P [OF nd(4)]
    proof (rule safe_run_bind [OF move_to_local_spec [OF E Suc.prems(1) nd(1)]], clarify)
      fix t1 r1 mu1 ml1
      assume m: "av_ok (oe_crypto E) inv bucket ops t1 mu1 ml1" "av_conf t t1"
        "av_root_key t1 = av_root_key t" "av_root_leaf t1 = av_root_leaf t"
        "av_local t1 = av_local t @ [?e]" "av_view t1 mu1 ml1 d hk = None"
        "\<forall>j x. x \<noteq> hk \<longrightarrow> av_view t1 mu1 ml1 j x = av_view t mu ml j x"
      have fetched: "chain (av_view t1 mu1 ml1) vs 0 (av_local t @ [?e]) INVALID_KEY (av_root_key t) (av_root_leaf t) tree (l_key nd) (l_leaf nd) l
        \<and> chain (av_view t1 mu1 ml1) vs 0 (av_local t @ [?e]) INVALID_KEY (av_root_key t) (av_root_leaf t) tree (r_key nd) (r_leaf nd) x"
        by (rule chain_fetch [OF Suc.prems(2) [unfolded hn] dist])
          (use nd(1) m(6,7) Suc.prems(3) in \<open>auto simp: last_key_def\<close>)
      have hkin: "hk \<in> keys_of tree" using chain_keys [OF Suc.prems(2)] hn by auto
      note w1 = only_keys_removed [OF Suc.prems(6) m(7) hkin]
      have i: "length (av_local t1) - 1 = d" "av_local t1 ! d = ?e" "length (av_local t1) = Suc d"
        using m(5) Suc.prems(3) by (simp_all add: nth_append)
      note mk = tree_map_Node [OF hord [unfolded hn], of k]
      have sub: "safe_run (av_descend E ops k update n (Suc d) hk2 hl2 t1 r1) (\<lambda>(f, t', r').
      apart (oe_crypto E) inv bucket ops vs (upd_tree k update tree) t t' \<and> map_option snd f = tree_map tree k)"
        if "chain (av_view t1 mu1 ml1) vs 0 (av_local t @ [?e]) INVALID_KEY (av_root_key t) (av_root_leaf t) tree hk2 hl2 h2" "height h2 \<le> n"
          "tree_map tree k = tree_map h2 k" for hk2 hl2 h2
      proof -
        have "safe_run (av_descend E ops k update n (Suc d) hk2 hl2 t1 r1) (\<lambda>(f, t', r').
      apart (oe_crypto E) inv bucket ops vs (upd_tree k update tree) t1 t' \<and> map_option snd f = tree_map tree k)"
          by (rule Suc.IH [OF m(1) _ i(3) that(2,3) w1]) (use that(1) m(3-5) in simp)
        then show ?thesis
          by (rule safe_run_mono) (use apart_trans [OF m(2-4)] in blast)
      qed
      show "safe_run (let i = length (av_local t1) - 1; nd = n_avl (av_local t1 ! i)
        in if k = hk
           then Inr (Some (i, avl_data nd),
                     (case update of None \<Rightarrow> t1
                      | Some u \<Rightarrow> t1\<lparr>av_local := upd_avl i (\<lambda>a. a\<lparr>avl_data := u\<rparr>) (av_local t1)\<rparr>), r1)
           else if sint k < sint hk then av_descend E ops k update n (Suc d) (l_key nd) (l_leaf nd) t1 r1
           else av_descend E ops k update n (Suc d) (r_key nd) (r_leaf nd) t1 r1)
        (\<lambda>(f, t', r').
      apart (oe_crypto E) inv bucket ops vs (upd_tree k update tree) t t' \<and> map_option snd f = tree_map tree k)"
      proof (cases "k = hk")
        case True
        have val: "tree_map tree k = Some (avl_data nd)" using Suc.prems(5) mk True nd(2) hn by simp
        show ?thesis
        proof (cases update)
          case None
          have "apart (oe_crypto E) inv bucket ops vs tree t t1"
            unfolding apart_def m(5) using m(1-4) fetched w1 by blast
          then show ?thesis using True None val i by (simp add: upd_tree_def Let_def)
        next
          case (Some u)
          have kin: "k \<in> n_key ` set (av_local t @ [?e])" using True by simp
          have "k \<notin> n_key ` set (av_local t)"
            using chain_distinct [OF Suc.prems(2) dist] True by (auto simp: hn)
          then have se: "map (set_entry k u) (av_local t @ [?e]) = upd_avl d (\<lambda>a. a\<lparr>avl_data := u\<rparr>) (av_local t @ [?e])"
            using True Suc.prems(3)
            by (auto simp: upd_avl_def set_entry_def nth_append list_update_append intro!: map_idI)
          have c: "chain (av_view t1 mu1 ml1) vs 0 (map (set_entry k u) (av_local t @ [?e])) INVALID_KEY (av_root_key t) (av_root_leaf t)
              (set_val k u tree) (l_key nd) (l_leaf nd) l"
            by (rule chain_set_data [OF conjunct1 [OF fetched] dist kin]) (use vs Some in simp)
          let ?t2 = "t1\<lparr>av_local := upd_avl d (\<lambda>a. a\<lparr>avl_data := u\<rparr>) (av_local t @ [?e])\<rparr>"
          have "av_ok (oe_crypto E) inv bucket ops ?t2 mu1 ml1" using m(1) by (simp add: av_ok_def)
          moreover have "av_view ?t2 mu1 ml1 = av_view t1 mu1 ml1" by (rule av_view_cong) simp
          moreover have "av_conf t ?t2" using m(2) by (simp add: av_conf_def)
          moreover have "only_keys (av_view t1 mu1 ml1) (set_val k u tree)" using w1 by (simp add: only_keys_def)
          ultimately have "apart (oe_crypto E) inv bucket ops vs (set_val k u tree) t ?t2"
            unfolding apart_def using c m(3,4) se w1
            by (intro exI [of _ mu1] exI [of _ ml1] exI [of _ "l_key nd"] exI [of _ "l_leaf nd"] exI [of _ l]) simp
          then show ?thesis using True Some val i m(5) by (simp add: upd_tree_def Let_def)
        qed
      next
        case False
        have hb: "height l \<le> n" "height x \<le> n" using Suc.prems(4) by (simp_all add: hn)
        have "safe_run (av_descend E ops k update n (Suc d) (l_key nd) (l_leaf nd) t1 r1) (\<lambda>(f, t', r').
      apart (oe_crypto E) inv bucket ops vs (upd_tree k update tree) t t' \<and> map_option snd f = tree_map tree k)" if "sint k < sint hk"
          by (rule sub [OF conjunct1 [OF fetched] hb(1)]) (use Suc.prems(5) mk that False hn in simp)
        moreover have "safe_run (av_descend E ops k update n (Suc d) (r_key nd) (r_leaf nd) t1 r1) (\<lambda>(f, t', r').
      apart (oe_crypto E) inv bucket ops vs (upd_tree k update tree) t t' \<and> map_option snd f = tree_map tree k)" if "\<not> sint k < sint hk"
          by (rule sub [OF conjunct2 [OF fetched] hb(2)]) (use Suc.prems(5) mk that False hn in simp)
        ultimately show ?thesis using False by (simp add: Let_def i)
      qed
    qed
  qed
qed

end

section \<open>Putting the nodes back\<close>

text \<open>What a step leaves in a stored map.\<close>

definition av_same :: "'s avl_omap \<Rightarrow> 's avl_omap \<Rightarrow> bool" where
  "av_same t t' \<longleftrightarrow> av_conf t t' \<and> av_root_key t' = av_root_key t"

lemma av_same_trans: "av_same t t' \<Longrightarrow> av_same t' t'' \<Longrightarrow> av_same t t''"
  by (simp add: av_same_def av_conf_def)

lemma av_same_upper: "av_same t t' \<Longrightarrow> av_is_upper t' = av_is_upper t"
  by (simp add: av_same_def av_conf_upper)

lemma po_level_set_leaf [simp]: "po_level ops (po_set_leaf k lf p) = po_level ops p"
  by (simp add: po_set_leaf_def)

lemma po_state_set_leaf [simp]:
  "po_state cr ok bucket ops P (po_set_leaf k lf p) m = po_state cr ok bucket ops P p m"
  by (simp add: po_set_leaf_def)

context bucket_storage
begin

lemma draw_leaves_fresh:
  assumes "av_ok (oe_crypto E) inv bucket ops t mu ml" "n \<le> length (av_local t)"
  shows "\<exists>t' r'. av_draw_leaves ops n t r = Inr (t', r') \<and> av_ok (oe_crypto E) inv bucket ops t' mu ml
    \<and> av_same t t' \<and> av_root_leaf t' = av_root_leaf t \<and> length (av_local t') = length (av_local t)
    \<and> (\<forall>i < length (av_local t). \<exists>lf. av_local t' ! i = (av_local t ! i)\<lparr>n_leaf := lf\<rparr>
         \<and> (i < n \<longrightarrow> valid_leaf (po_level ops (av_oram_for_depth t (n_depth (av_local t ! i)))) (sint lf))
         \<and> (i \<ge> n \<longrightarrow> lf = n_leaf (av_local t ! i)))
    \<and> (\<forall>d. po_level ops (av_oram_for_depth t' d) = po_level ops (av_oram_for_depth t d))"
  using assms
proof (induction n arbitrary: t r)
  case 0
  then show ?case
    by (intro exI [of _ t] exI [of _ r]) (auto simp: av_same_def intro: exI [of _ "n_leaf e" for e])
next
  case (Suc n)
  let ?nd = "av_local t ! n"
  let ?p = "av_oram_for_depth t (n_depth ?nd)"
  have st: "po_state (oe_crypto E) inv bucket ops {} ?p (av_map_at t mu ml (n_depth ?nd))"
    by (rule av_ok_at [OF Suc.prems(1)])
  obtain lf r1 where lf: "po_random_leaf ops ?p r = Inr (lf, r1)" "valid_leaf (po_level ops ?p) (sint lf)"
    by (rule random_leaf_valid [OF st])
  let ?t0 = "t\<lparr>av_local := (av_local t)[n := ?nd\<lparr>n_leaf := lf\<rparr>]\<rparr>"
  let ?t = "av_set_oram (n_depth ?nd) (po_set_leaf (n_key ?nd) lf ?p) ?t0"
  have ok: "av_ok (oe_crypto E) inv bucket ops ?t mu ml"
    by (rule av_ok_set [where m = "av_map_at t mu ml (n_depth ?nd)" and mu = mu and ml = ml])
      (use Suc.prems(1) st in \<open>simp_all add: av_ok_def put_map_def av_map_at_def\<close>)
  obtain t' r' where t': "av_draw_leaves ops n ?t r1 = Inr (t', r')" "av_ok (oe_crypto E) inv bucket ops t' mu ml"
    "av_same ?t t'" "av_root_leaf t' = av_root_leaf ?t" "length (av_local t') = length (av_local ?t)"
    "\<forall>i < length (av_local ?t). \<exists>lf. av_local t' ! i = (av_local ?t ! i)\<lparr>n_leaf := lf\<rparr>
         \<and> (i < n \<longrightarrow> valid_leaf (po_level ops (av_oram_for_depth ?t (n_depth (av_local ?t ! i)))) (sint lf))
         \<and> (i \<ge> n \<longrightarrow> lf = n_leaf (av_local ?t ! i))"
    "\<forall>d. po_level ops (av_oram_for_depth t' d) = po_level ops (av_oram_for_depth ?t d)"
    using Suc.IH [OF ok, of r1] Suc.prems(2) by auto
  have lev: "po_level ops (av_oram_for_depth ?t d) = po_level ops (av_oram_for_depth t d)" for d
    by (auto simp: av_oram_for_depth_def av_set_oram_def)
  have run: "av_draw_leaves ops (Suc n) t r = Inr (t', r')" using t'(1) lf(1) by (simp add: Let_def)
  have nodes: "\<exists>lf. av_local t' ! i = (av_local t ! i)\<lparr>n_leaf := lf\<rparr>
         \<and> (i < Suc n \<longrightarrow> valid_leaf (po_level ops (av_oram_for_depth t (n_depth (av_local t ! i)))) (sint lf))
         \<and> (i \<ge> Suc n \<longrightarrow> lf = n_leaf (av_local t ! i))" if i: "i < length (av_local t)" for i
  proof -
    obtain x where x: "av_local t' ! i = (av_local ?t ! i)\<lparr>n_leaf := x\<rparr>"
      "i < n \<longrightarrow> valid_leaf (po_level ops (av_oram_for_depth t (n_depth (av_local ?t ! i)))) (sint x)"
      "i \<ge> n \<longrightarrow> x = n_leaf (av_local ?t ! i)"
      using t'(6) [rule_format, of i] i by (auto simp only: lev av_set_oram_fields) auto
    show ?thesis
      by (rule exI [of _ x]) (use x i lf(2) in \<open>auto simp: nth_list_update split: if_splits\<close>)
  qed
  have "av_same t t'" using t'(3) by (simp add: av_same_def av_conf_def)
  then show ?case
    using run t'(2,4,5,7) nodes lev by (intro exI [of _ t'] exI [of _ r']) simp
qed

text \<open>Storing local nodes whose keys are not in their ORAM.\<close>

lemma flush_spec:
  assumes "av_ok (oe_crypto E) inv bucket ops t mu ml" "distinct (map n_key es)"
    and "\<And>e. e \<in> set es \<Longrightarrow> n_key e \<noteq> INVALID_KEY \<and> av_map_at t mu ml (n_depth e) (n_key e) = None
      \<and> valid_leaf (po_level ops (av_oram_for_depth t (n_depth e))) (sint (n_leaf e)) \<and> node_fits (avl_data (n_avl e))"
  shows "\<exists>mu' ml'. av_ok (oe_crypto E) inv bucket ops (fold av_flush_node es t) mu' ml' \<and> av_same t (fold av_flush_node es t)
    \<and> av_root_leaf (fold av_flush_node es t) = av_root_leaf t
    \<and> (\<forall>d x. x \<notin> n_key ` set es \<longrightarrow> av_map_at t mu' ml' d x = av_map_at t mu ml d x)
    \<and> (\<forall>e\<in>set es. av_map_at t mu' ml' (n_depth e) (n_key e) = Some (n_leaf e, encode_node (n_avl e)))"
  using assms
proof (induction es arbitrary: t mu ml)
  case Nil
  then show ?case by (intro exI [of _ mu] exI [of _ ml]) (simp add: av_same_def)
next
  case (Cons e es)
  let ?d = "n_depth e" and ?b = "\<lparr>key = n_key e, leaf = n_leaf e, val = encode_node (n_avl e)\<rparr>"
  let ?p = "av_oram_for_depth t ?d" and ?m = "av_map_at t mu ml (n_depth e)"
  have e: "n_key e \<noteq> INVALID_KEY" "?m (n_key e) = None" "valid_leaf (po_level ops ?p) (sint (n_leaf e))"
    "node_fits (avl_data (n_avl e))"
    using Cons.prems(3) [of e] by simp_all
  have st: "po_state (oe_crypto E) inv bucket ops {} (po_add_to_stash ?b ?p) (?m(n_key e \<mapsto> (n_leaf e, encode_node (n_avl e))))"
    using po_add_state [OF av_ok_at [OF Cons.prems(1)], of ?b ?d] e by (simp add: node_fits_encode)
  obtain mu1 ml1 where mm: "put_map t ?d (?m(n_key e \<mapsto> (n_leaf e, encode_node (n_avl e)))) (mu, ml) = (mu1, ml1)" by fastforce
  have t1: "av_flush_node e t = av_set_oram ?d (po_add_to_stash ?b ?p) t" by (simp add: av_flush_node_def)
  have ok: "av_ok (oe_crypto E) inv bucket ops (av_flush_node e t) mu1 ml1"
    unfolding t1 by (rule av_ok_set [OF Cons.prems(1) st mm])
  have up: "av_is_upper (av_flush_node e t) = av_is_upper t" by (simp add: t1)
  then have at: "av_map_at (av_flush_node e t) = av_map_at t" by (simp add: av_map_at_def fun_eq_iff)
  have view: "av_map_at t mu1 ml1 d x = (if x = n_key e \<and> av_is_upper t d = av_is_upper t ?d
      then Some (n_leaf e, encode_node (n_avl e)) else av_map_at t mu ml d x)" for d x
    using mm by (auto simp: av_map_at_def put_map_def split: if_splits)
  have lev: "po_level ops (av_oram_for_depth (av_flush_node e t) d) = po_level ops (av_oram_for_depth t d)" for d
    by (auto simp: t1 po_add_to_stash_def av_oram_for_depth_def av_set_oram_def)
  have new: "n_key f \<noteq> n_key e" if "f \<in> set es" for f using Cons.prems(2) that by (metis distinct.simps(2) image_eqI list.set_map list.simps(9))
  obtain mu' ml' where f: "av_ok (oe_crypto E) inv bucket ops (fold av_flush_node es (av_flush_node e t)) mu' ml'"
    "av_same (av_flush_node e t) (fold av_flush_node es (av_flush_node e t))"
    "av_root_leaf (fold av_flush_node es (av_flush_node e t)) = av_root_leaf (av_flush_node e t)"
    "\<forall>d x. x \<notin> n_key ` set es \<longrightarrow> av_map_at t mu' ml' d x = av_map_at t mu1 ml1 d x"
    "\<forall>e\<in>set es. av_map_at t mu' ml' (n_depth e) (n_key e) = Some (n_leaf e, encode_node (n_avl e))"
    using Cons.IH [OF ok, unfolded at lev] Cons.prems(2,3) view new by auto
  have "av_same t (av_flush_node e t)" by (simp add: t1 av_same_def av_conf_def)
  moreover have "n_key e \<notin> n_key ` set es" using new by (metis imageE)
  ultimately show ?case
    using f view av_same_trans by (intro exI [of _ mu'] exI [of _ ml']) (auto simp: t1)
qed

lemma put_back_spec:
  assumes ok: "av_ok (oe_crypto E) inv bucket ops t mu ml"
    and mix: "mixed (\<lambda>x d. av_is_upper t x = av_is_upper t (of_nat d)) (av_view t mu ml) node_fits (local_of (av_local t)) 0
      INVALID_KEY (av_root_key t) rl tree"
    and dist: "tree_distinct tree" "distinct (map n_key (av_local t))"
    and loc: "INVALID_KEY \<notin> n_key ` set (av_local t)" "n_key ` set (av_local t) \<subseteq> keys_of tree"
    and rl: "av_root_key t \<notin> n_key ` set (av_local t) \<longrightarrow> av_root_leaf t = rl"
    and win: "only_keys (av_view t mu ml) tree"
  shows "\<exists>t' r' mu' ml'. av_put_back ops t r = Inr (t', r') \<and> av_ok (oe_crypto E) inv bucket ops t' mu' ml'
    \<and> av_same t t' \<and> av_local t' = []
    \<and> tree_at (av_view t' mu' ml') node_fits 0 (av_root_key t') (av_root_leaf t') tree
    \<and> only_keys (av_view t' mu' ml') tree"
proof -
  let ?loc = "av_local t" and ?L = "local_of (av_local t)"
  obtain t1 r1 where t1: "av_draw_leaves ops (length ?loc) t r = Inr (t1, r1)"
    "av_ok (oe_crypto E) inv bucket ops t1 mu ml" "av_same t t1" "av_root_leaf t1 = av_root_leaf t"
    "length (av_local t1) = length ?loc"
    "\<forall>i < length ?loc. \<exists>lf. av_local t1 ! i = (?loc ! i)\<lparr>n_leaf := lf\<rparr>
         \<and> (i < length ?loc \<longrightarrow> valid_leaf (po_level ops (av_oram_for_depth t (n_depth (?loc ! i)))) (sint lf))
         \<and> (i \<ge> length ?loc \<longrightarrow> lf = n_leaf (?loc ! i))"
    "\<forall>d. po_level ops (av_oram_for_depth t1 d) = po_level ops (av_oram_for_depth t d)"
    using draw_leaves_fresh [OF ok order_refl] by blast
  define nl where "nl k = (case local_of (av_local t1) k of None \<Rightarrow> INVALID_LEAF | Some e \<Rightarrow> n_leaf e)" for k
  have each: "av_local t1 ! i = (?loc ! i)\<lparr>n_leaf := nl (n_key (?loc ! i))\<rparr>"
    "valid_leaf (po_level ops (av_oram_for_depth t (n_depth (?loc ! i)))) (sint (nl (n_key (?loc ! i))))"
    if i: "i < length ?loc" for i
  proof -
    obtain lf where lf: "av_local t1 ! i = (?loc ! i)\<lparr>n_leaf := lf\<rparr>"
      "valid_leaf (po_level ops (av_oram_for_depth t (n_depth (?loc ! i)))) (sint lf)"
      using spec [OF t1(6), of i] i by auto
    have keys: "map n_key (av_local t1) = map n_key ?loc"
    proof (rule nth_equalityI)
      fix j assume "j < length (map n_key (av_local t1))"
      then have j: "j < length ?loc" using t1(5) by simp
      then obtain x where "av_local t1 ! j = (?loc ! j)\<lparr>n_leaf := x\<rparr>" using t1(6) by blast
      then show "map n_key (av_local t1) ! j = map n_key ?loc ! j" using j t1(5) by simp
    qed (use t1(5) in simp)
    have "local_of (av_local t1) (n_key (?loc ! i)) = Some (av_local t1 ! i)"
      using local_of_iff [of "av_local t1"] keys dist(2) i t1(5) lf(1) nth_mem [of i "av_local t1"] by simp
    then have "nl (n_key (?loc ! i)) = lf" using lf(1) by (simp add: nl_def)
    then show "av_local t1 ! i = (?loc ! i)\<lparr>n_leaf := nl (n_key (?loc ! i))\<rparr>"
      "valid_leaf (po_level ops (av_oram_for_depth t (n_depth (?loc ! i)))) (sint (nl (n_key (?loc ! i))))"
      using lf by simp_all
  qed
  let ?f = "\<lambda>e. e\<lparr>n_leaf := nl (n_key e)\<rparr>"
  have loc1: "av_local t1 = map ?f ?loc"
    by (rule nth_equalityI) (use t1(5) each(1) in simp_all)
  have L1: "local_of (map ?f ?loc) = map_option ?f \<circ> ?L" by (rule local_of_map) simp
  let ?new = "\<lambda>e. (?f e)\<lparr>n_avl := (n_avl e)\<lparr>
      l_leaf := linked_leaf (local_of (map ?f ?loc)) (n_key e) (l_key (n_avl e)) (l_leaf (n_avl e)),
      r_leaf := linked_leaf (local_of (map ?f ?loc)) (n_key e) (r_key (n_avl e)) (r_leaf (n_avl e))\<rparr>\<rparr>"
  have inL: "?L (n_key e) = Some e" if "e \<in> set ?loc" for e using local_of_iff [OF dist(2)] that by simp
  have dom: "INVALID_KEY \<notin> dom ?L" using loc(1) by (simp add: dom_local_of)
  have kids: "l_key (n_avl e) = r_key (n_avl e) \<longrightarrow> l_key (n_avl e) \<notin> n_key ` set ?loc" if "e \<in> set ?loc" for e
    using mixed_children [OF mix dist(1) dom inL [OF that]] that loc(2) by (auto simp: dom_local_of)
  have link: "av_link_all (map ?f ?loc) = map ?new ?loc"
    by (subst av_link_all_nodes) (use dist(2) kids in \<open>auto simp: comp_def image_image\<close>)
  let ?t2 = "t1\<lparr>av_local := map ?new ?loc,
      av_root_leaf := (case local_index (av_root_key t1) (map ?new ?loc) of
                         None \<Rightarrow> av_root_leaf t1 | Some i \<Rightarrow> n_leaf (map ?new ?loc ! i))\<rparr>"
  have reas: "av_reassign_leaves ops t r = Inr (?t2, r1)"
    unfolding av_reassign_leaves_def t1(1) bind_result_simps prod.case Let_def loc1 link ..
  have same2: "av_same t ?t2" using t1(3) by (simp add: av_same_def av_conf_def)
  have up2: "av_is_upper ?t2 = av_is_upper t" by (rule av_same_upper [OF same2])
  have ok2: "av_ok (oe_crypto E) inv bucket ops ?t2 mu ml" using t1(2) by (simp add: av_ok_def)
  have at2: "av_map_at ?t2 = av_map_at t" using up2 by (simp add: av_map_at_def fun_eq_iff)
  have absent: "av_map_at t mu ml (n_depth e) (n_key e) = None" if e: "e \<in> set ?loc" for e
  proof -
    obtain j where "av_is_upper t (n_depth e) = av_is_upper t (of_nat j)" "av_view t mu ml j (n_key e) = None"
      using mixed_absent [OF mix inL [OF e]] e loc(2) by auto
    then show ?thesis by (simp add: av_view_def av_map_at_def)
  qed
  have pre: "n_key e \<noteq> INVALID_KEY \<and> av_map_at ?t2 mu ml (n_depth e) (n_key e) = None
      \<and> valid_leaf (po_level ops (av_oram_for_depth ?t2 (n_depth e))) (sint (n_leaf e)) \<and> node_fits (avl_data (n_avl e))" if e: "e \<in> set (map ?new ?loc)" for e
  proof -
    obtain e0 where e0: "e0 \<in> set ?loc" "e = ?new e0" using e by auto
    obtain i where i: "i < length ?loc" "?loc ! i = e0" using e0(1) by (auto simp: in_set_conv_nth)
    have "po_level ops (av_oram_for_depth ?t2 (n_depth e)) = po_level ops (av_oram_for_depth t (n_depth e))"
      using t1(7) by simp
    moreover have "n_depth e = n_depth e0" "n_key e = n_key e0" "n_leaf e = nl (n_key e0)" using e0(2) by simp_all
    moreover have "n_key e0 \<noteq> INVALID_KEY" using loc(1) e0(1) by (metis image_eqI)
    moreover have "avl_data (n_avl e) = avl_data (n_avl e0)" "node_fits (avl_data (n_avl e0))"
      using e0 mixed_values [OF mix inL [OF e0(1)]] loc(2) by auto
    ultimately show ?thesis using absent [OF e0(1)] each(2) [OF i(1)] i(2) by (simp add: at2)
  qed
  have keysn: "n_key ` set (map ?new ?loc) = n_key ` set ?loc" by (simp add: image_image)
  obtain mu' ml' where f: "av_ok (oe_crypto E) inv bucket ops (fold av_flush_node (map ?new ?loc) ?t2) mu' ml'"
    "av_same ?t2 (fold av_flush_node (map ?new ?loc) ?t2)"
    "av_root_leaf (fold av_flush_node (map ?new ?loc) ?t2) = av_root_leaf ?t2"
    "\<forall>d x. x \<notin> n_key ` set ?loc \<longrightarrow> av_map_at t mu' ml' d x = av_map_at t mu ml d x"
    "\<forall>e\<in>set (map ?new ?loc). av_map_at t mu' ml' (n_depth e) (n_key e) = Some (n_leaf e, encode_node (n_avl e))"
  proof -
    have "distinct (map n_key (map ?new ?loc))" using dist(2) by (simp add: comp_def)
    from flush_spec [OF ok2 this pre] that show ?thesis unfolding at2 keysn by blast
  qed
  let ?t3 = "(fold av_flush_node (map ?new ?loc) ?t2)\<lparr>av_local := []\<rparr>"
  have same3: "av_same t ?t3" using av_same_trans [OF same2 f(2)] by (simp add: av_same_def av_conf_def)
  have view3: "av_view ?t3 mu' ml' j = av_map_at t mu' ml' (of_nat j)" for j
    using av_same_upper [OF same3] by (simp add: av_view_def av_map_at_def)
  have tree: "tree_at (av_view ?t3 mu' ml') node_fits 0 (av_root_key t)
      (if av_root_key t \<in> dom ?L then nl (av_root_key t) else rl) tree"
  proof (rule mixed_stored [OF mix dist(1) dom])
    show "av_view ?t3 mu' ml' j x = av_view t mu ml j x" if "x \<notin> dom ?L" for j x
      using f(4) that by (simp add: view3 dom_local_of) (simp add: av_view_def)
    fix j x e assume e: "?L x = Some e" "av_is_upper t (n_depth e) = av_is_upper t (of_nat j)"
    then have e': "e \<in> set ?loc" "n_key e = x" using local_of_Some by blast+
    have xi: "x \<noteq> INVALID_KEY" using loc(1) e' by (metis image_eqI)
    have "av_view ?t3 mu' ml' j x = av_map_at t mu' ml' (n_depth e) x"
      using e(2) by (simp add: view3 av_map_at_def)
    moreover have "av_map_at t mu' ml' (n_depth (?new e)) (n_key (?new e)) = Some (n_leaf (?new e), encode_node (n_avl (?new e)))"
      by (rule bspec [OF f(5)]) (use e'(1) in simp)
    moreover have "linked_leaf (local_of (map ?f ?loc)) x k lf =
        (case ?L k of None \<Rightarrow> lf | Some c \<Rightarrow> if n_parent c = x then nl k else lf)" for k lf
      using xi local_of_Some [of ?loc k] by (auto simp: linked_leaf_def L1 split: option.split)
    ultimately show "av_view ?t3 mu' ml' j x = Some (nl x, encode_node ((n_avl e)\<lparr>
        l_leaf := (case ?L (l_key (n_avl e)) of None \<Rightarrow> l_leaf (n_avl e)
                   | Some c \<Rightarrow> if n_parent c = x then nl (l_key (n_avl e)) else l_leaf (n_avl e)),
        r_leaf := (case ?L (r_key (n_avl e)) of None \<Rightarrow> r_leaf (n_avl e)
                   | Some c \<Rightarrow> if n_parent c = x then nl (r_key (n_avl e)) else r_leaf (n_avl e))\<rparr>))"
      using e'(2) by simp
  qed
  have rk: "av_root_key t1 = av_root_key t" using t1(3) by (simp add: av_same_def)
  have scan: "(case local_index (av_root_key t) (map ?new ?loc) of
      None \<Rightarrow> av_root_leaf t1 | Some i \<Rightarrow> n_leaf (map ?new ?loc ! i)) =
    (if av_root_key t \<in> dom ?L then nl (av_root_key t) else rl)"
  proof (cases "local_index (av_root_key t) (map ?new ?loc)")
    case None
    then have out: "av_root_key t \<notin> n_key ` set ?loc" unfolding local_index_None keysn .
    show ?thesis unfolding None dom_local_of using out rl t1(4) by simp
  next
    case (Some i)
    note li = local_index_Some [OF Some]
    then have i: "i < length ?loc" by simp
    then have k: "n_key (?loc ! i) = av_root_key t" and lf: "n_leaf (map ?new ?loc ! i) = nl (n_key (?loc ! i))"
      using li by simp_all
    have "n_key (?loc ! i) \<in> n_key ` set ?loc" by (rule imageI [OF nth_mem [OF i]])
    then have "av_root_key t \<in> dom ?L" unfolding dom_local_of k .
    then show ?thesis unfolding Some option.case lf k by simp
  qed
  have rleaf: "av_root_leaf ?t3 = (if av_root_key t \<in> dom ?L then nl (av_root_key t) else rl)"
    using f(3) unfolding rk scan by simp
  have "av_put_back ops t r = Inr (?t3, r1)"
    by (simp add: av_put_back_def reas av_flush_local_def)
  moreover have "av_ok (oe_crypto E) inv bucket ops ?t3 mu' ml'" using f(1) by (simp add: av_ok_def)
  moreover have "only_keys (av_view ?t3 mu' ml') tree"
    unfolding only_keys_def
  proof (intro allI impI)
    fix j x assume x: "av_view ?t3 mu' ml' j x \<noteq> None"
    show "x \<in> keys_of tree"
    proof (cases "x \<in> n_key ` set ?loc")
      case False
      then have "av_view t mu ml j x \<noteq> None" using x f(4) unfolding view3 by (simp add: av_view_def)
      then show ?thesis using win by (simp add: only_keys_def)
    qed (use loc(2) in blast)
  qed
  ultimately show ?thesis
    using same3 tree unfolding rleaf [symmetric]
    by (intro exI [of _ ?t3] exI [of _ r1] exI [of _ mu'] exI [of _ ml']) (simp add: av_same_def)
qed

end

section \<open>Padding\<close>

text \<open>The map between two operations stores a search tree.\<close>

definition av_stores ::
  "crypto \<Rightarrow> ('s \<Rightarrow> bool) \<Rightarrow> ('s \<Rightarrow> int \<Rightarrow> block list) \<Rightarrow> 's storage_ops \<Rightarrow> 's avl_omap \<Rightarrow> kv_tree \<Rightarrow> bool" where
  "av_stores cr ok bucket ops t tree \<longleftrightarrow>
     (\<exists>mu ml. av_ok cr ok bucket ops t mu ml
        \<and> tree_at (av_view t mu ml) node_fits 0 (av_root_key t) (av_root_leaf t) tree
        \<and> only_keys (av_view t mu ml) tree)
     \<and> key_ordered tree"

text \<open>Counters do not matter.\<close>

lemma av_stores_cong:
  assumes "av_upper t' = av_upper t" "av_lower t' = av_lower t" "av_split_depth t' = av_split_depth t"
    "av_root_key t' = av_root_key t" "av_root_leaf t' = av_root_leaf t"
  shows "av_stores cr ok bucket ops t' tree = av_stores cr ok bucket ops t tree"
proof -
  have "av_is_upper t' = av_is_upper t" using assms(3) by (simp add: av_is_upper_def fun_eq_iff)
  then have "av_view t' = av_view t" by (simp add: av_view_def av_map_at_def fun_eq_iff)
  then show ?thesis by (simp add: av_stores_def av_ok_cong [OF assms(1-3)] assms(4,5))
qed

definition av_keeps :: "'s avl_omap \<Rightarrow> 's avl_omap \<Rightarrow> bool" where
  "av_keeps t t' \<longleftrightarrow> av_conf t t' \<and> av_root_key t' = av_root_key t \<and> av_root_leaf t' = av_root_leaf t
     \<and> av_local t' = av_local t"

lemma finalize_fields [simp]:
  "av_conf t (finalize_bw ops t)" "av_root_key (finalize_bw ops t) = av_root_key t"
  "av_root_leaf (finalize_bw ops t) = av_root_leaf t" "av_local (finalize_bw ops t) = av_local t"
  "av_upper (finalize_bw ops t) = av_upper t" "av_lower (finalize_bw ops t) = av_lower t"
  "av_split_depth (finalize_bw ops t) = av_split_depth t"
  "av_upper_ops (finalize_bw ops t) = av_upper_ops t" "av_lower_ops (finalize_bw ops t) = av_lower_ops t"
  "av_op_count (finalize_bw ops t) = av_op_count t" "av_max_height (finalize_bw ops t) = av_max_height t"
  "av_ods_mode (finalize_bw ops t) = av_ods_mode t" "av_capacity (finalize_bw ops t) = av_capacity t"
  by (simp_all add: finalize_bw_def av_conf_def Let_def)

lemma begin_fields [simp]:
  "av_conf t (av_begin t)" "av_root_key (av_begin t) = av_root_key t" "av_root_leaf (av_begin t) = av_root_leaf t"
  "av_local (av_begin t) = av_local t" "av_upper (av_begin t) = av_upper t" "av_lower (av_begin t) = av_lower t"
  "av_split_depth (av_begin t) = av_split_depth t" "av_max_height (av_begin t) = av_max_height t"
  "av_ods_mode (av_begin t) = av_ods_mode t" "av_capacity (av_begin t) = av_capacity t"
  "av_upper_ops (av_begin t) = 0" "av_lower_ops (av_begin t) = 0" "av_op_count (av_begin t) = 0"
  by (simp_all add: av_begin_def reset_op_counts_def av_conf_def)

context bucket_storage
begin

lemma dummies_state:
  assumes "good_env E" "po_state (oe_crypto E) inv bucket ops {} p m"
  shows "safe_run (po_dummies E ops n p r) (\<lambda>(p', r'). po_state (oe_crypto E) inv bucket ops {} p' m)"
  unfolding po_dummies_def
proof (rule for_loop_safe)
  show "case (p, r) of (p', r') \<Rightarrow> po_state (oe_crypto E) inv bucket ops {} p' m" using assms(2) by simp
  fix i and tr :: "'s path_oram \<times> rng" assume "case tr of (p', r') \<Rightarrow> po_state (oe_crypto E) inv bucket ops {} p' m"
  then show "safe_run (case tr of (p1, r1) \<Rightarrow> po_dummy_access E ops p1 r1)
      (\<lambda>(p', r'). po_state (oe_crypto E) inv bucket ops {} p' m)"
    by (cases tr) (simp, rule safe_run_mono [OF po_dummy_access_state [OF assms(1)]], auto)
qed

lemma pad_spec:
  assumes E: "good_env E" and ok: "av_ok (oe_crypto E) inv bucket ops t mu ml"
  shows "safe_run (pad_to_budget E ops n t r) (\<lambda>(t', r'). av_ok (oe_crypto E) inv bucket ops t' mu ml \<and> av_keeps t t')"
proof (cases "av_split_depth t > 0")
  case True
  then have st: "po_state (oe_crypto E) inv bucket ops {} (av_upper t) mu" "po_state (oe_crypto E) inv bucket ops {} (av_lower t) ml"
    using ok by (simp_all add: av_ok_def)
  show ?thesis
    unfolding pad_to_budget_def Let_def if_P [OF True]
    by (rule safe_run_bind [OF dummies_state [OF E st(1)]], clarify,
        rule safe_run_bind [OF dummies_state [OF E st(2)]], clarify)
      (simp add: av_ok_def av_keeps_def av_conf_def)
next
  case False
  then have st: "po_state (oe_crypto E) inv bucket ops {} (av_lower t) ml"
    using ok by (simp add: av_ok_def)
  show ?thesis
    unfolding pad_to_budget_def Let_def if_not_P [OF False]
    by (rule safe_run_bind [OF dummies_state [OF E st]], clarify) (use False in \<open>simp add: av_ok_def av_keeps_def av_conf_def\<close>)
qed

lemma stores_pad:
  assumes E: "good_env E" and st: "av_stores (oe_crypto E) inv bucket ops t tree"
  shows "safe_run (pad_to_budget E ops n t r) (\<lambda>(t', r'). av_stores (oe_crypto E) inv bucket ops t' tree \<and> av_keeps t t')"
proof -
  obtain mu ml where m: "av_ok (oe_crypto E) inv bucket ops t mu ml"
    "tree_at (av_view t mu ml) node_fits 0 (av_root_key t) (av_root_leaf t) tree" "key_ordered tree"
    "only_keys (av_view t mu ml) tree"
    using st unfolding av_stores_def by blast
  show ?thesis
  proof (rule safe_run_mono [OF pad_spec [OF E m(1)]], elim case_prodE conjE, hypsubst, unfold prod.case)
    fix t' :: "'s avl_omap" and r' :: rng assume t': "av_ok (oe_crypto E) inv bucket ops t' mu ml" "av_keeps t t'"
    then have up: "av_is_upper t' = av_is_upper t" by (simp add: av_keeps_def av_conf_upper)
    have "av_view t' mu ml = av_view t mu ml" by (rule av_view_cong [OF up])
    then have "av_stores (oe_crypto E) inv bucket ops t' tree"
      unfolding av_stores_def using t' m by (intro conjI exI [of _ mu] exI [of _ ml]) (simp_all add: av_keeps_def)
    then show "av_stores (oe_crypto E) inv bucket ops t' tree \<and> av_keeps t t'" using t'(2) by simp
  qed
qed

lemma stores_finish:
  assumes E: "good_env E" and st: "av_stores (oe_crypto E) inv bucket ops t tree"
  shows "safe_run (av_finish E ops t r) (\<lambda>(t', r'). av_stores (oe_crypto E) inv bucket ops t' tree \<and> av_keeps t t')"
  unfolding av_finish_def
proof (rule safe_run_bind [where P = "\<lambda>(t', r'). av_stores (oe_crypto E) inv bucket ops t' tree \<and> av_keeps t t'"])
  show "safe_run (if av_ods_mode t then Inr (t, r) else pad_to_budget E ops (3 * av_max_height t) t r)
      (\<lambda>(t', r'). av_stores (oe_crypto E) inv bucket ops t' tree \<and> av_keeps t t')"
    using stores_pad [OF E st] st by (simp add: av_keeps_def)
  fix tr :: "'s avl_omap \<times> rng"
  assume "case tr of (t', r') \<Rightarrow> av_stores (oe_crypto E) inv bucket ops t' tree \<and> av_keeps t t'"
  then show "safe_run (case tr of (t1, r1) \<Rightarrow> Inr (finalize_bw ops t1, r1))
      (\<lambda>(t', r'). av_stores (oe_crypto E) inv bucket ops t' tree \<and> av_keeps t t')"
    using av_conf_trans [OF _ finalize_fields(1)]
    by (cases tr) (auto simp: av_keeps_def av_stores_cong [of "finalize_bw ops t" t for t])
qed

lemma dummy_spec:
  assumes E: "good_env E" and st: "av_stores (oe_crypto E) inv bucket ops t tree"
  shows "safe_run (av_dummy_access E ops t r) (\<lambda>(t', r'). av_stores (oe_crypto E) inv bucket ops t' tree \<and> av_keeps t t')"
  unfolding av_dummy_access_def
proof (rule safe_run_bind [OF stores_pad [OF E, of "av_begin t" tree]], goal_cases)
  case 1
  then show ?case using st by (simp add: av_stores_cong [of "av_begin t" t])
next
  case (2 y)
  then show ?case
    by (cases y) (auto simp: av_keeps_def av_conf_def av_stores_cong [of "finalize_bw ops t" t for t])
qed

section \<open>Search\<close>

lemma search_spec:
  assumes E: "good_env E" and st: "av_stores (oe_crypto E) inv bucket ops t tree"
    and h: "int (height tree) \<le> av_max_height t" and fits: "\<forall>u. update = Some u \<longrightarrow> node_fits u"
  shows "safe_run (av_search E ops k update t r) (\<lambda>(v, t', r'). v = (case tree_map tree k of None \<Rightarrow> [] | Some w \<Rightarrow> w)
    \<and> av_stores (oe_crypto E) inv bucket ops t' (upd_tree k update tree) \<and> av_same t t')"
proof -
  let ?t = "av_begin t"
  have st': "av_stores (oe_crypto E) inv bucket ops ?t tree" using st by (simp add: av_stores_cong [of ?t t])
  obtain mu ml where m: "av_ok (oe_crypto E) inv bucket ops ?t mu ml"
    "tree_at (av_view ?t mu ml) node_fits 0 (av_root_key t) (av_root_leaf t) tree" "key_ordered tree"
    "only_keys (av_view ?t mu ml) tree"
    using st' unfolding av_stores_def by auto
  have dist: "tree_distinct tree" by (rule key_ordered_distinct [OF m(3)])
  have keep: "av_same t t'" if "av_keeps ?t t'" for t'
    using that by (auto simp: av_keeps_def av_same_def av_conf_def)
  show ?thesis
  proof (cases "av_root_key t = INVALID_KEY")
    case True
    then have leaf: "tree = Leaf" using tree_at_Leaf_iff [OF m(2)] by simp
    then have u: "upd_tree k update tree = tree" by (simp add: upd_tree_def split: option.split)
    show ?thesis
      unfolding av_search_def Let_def u using True
      by (simp, intro safe_run_bind [OF stores_finish [OF E st']]) (auto simp: leaf keep)
  next
    case False
    let ?tl = "?t\<lparr>av_local := []\<rparr>"
    have ok0: "av_ok (oe_crypto E) inv bucket ops ?tl mu ml" using m(1) by (simp add: av_ok_def)
    have v0: "av_view ?tl mu ml = av_view ?t mu ml" by (rule av_view_cong) simp
    have ch: "chain (av_view ?tl mu ml) node_fits 0 (av_local ?tl) INVALID_KEY (av_root_key ?tl) (av_root_leaf ?tl) tree
        (av_root_key t) (av_root_leaf t) tree"
    proof -
      have r0: "av_local ?tl = []" "av_root_key ?tl = av_root_key t" "av_root_leaf ?tl = av_root_leaf t" by simp_all
      show ?thesis unfolding r0 v0 chain.simps using m(2) by blast
    qed
    have d: "safe_run (av_descend E ops k update (nat (av_max_height t)) 0 (av_root_key t) (av_root_leaf t) ?tl r)
      (\<lambda>(f, t', r'). apart (oe_crypto E) inv bucket ops node_fits (upd_tree k update tree) ?tl t'
         \<and> map_option snd f = tree_map tree k)"
      by (rule descend_spec [OF E m(3) fits ok0 ch]) (use h m(4) v0 in simp_all)
    have ord: "key_ordered (upd_tree k update tree)" using m(3) by (simp add: upd_tree_def split: option.split)
    have rest: "safe_run (bind_result (av_put_back ops t1 r1) (\<lambda>(t2, r2).
           bind_result (av_finish E ops t2 r2) (\<lambda>(t3, r3). Inr (found_value f, t3, r3))))
        (\<lambda>(v, t', r'). v = (case tree_map tree k of None \<Rightarrow> [] | Some w \<Rightarrow> w)
          \<and> av_stores (oe_crypto E) inv bucket ops t' (upd_tree k update tree) \<and> av_same t t')"
      if t1: "apart (oe_crypto E) inv bucket ops node_fits (upd_tree k update tree) ?tl t1"
        and f: "map_option snd f = tree_map tree k" for f t1 r1
    proof -
      let ?tr = "upd_tree k update tree"
      obtain mu1 ml1 hk hl hh where a: "av_ok (oe_crypto E) inv bucket ops t1 mu1 ml1" "av_conf ?tl t1"
        "av_root_key t1 = av_root_key t" "av_root_leaf t1 = av_root_leaf t"
        "chain (av_view t1 mu1 ml1) node_fits 0 (av_local t1) INVALID_KEY (av_root_key t) (av_root_leaf t) ?tr hk hl hh"
        "only_keys (av_view t1 mu1 ml1) ?tr"
        using t1 unfolding apart_def by auto
      have dt: "tree_distinct ?tr" by (rule key_ordered_distinct [OF ord])
      note cd = chain_distinct [OF a(5) dt] and ck = chain_keys [OF a(5)]
      have mix: "mixed (\<lambda>x d. av_is_upper t1 x = av_is_upper t1 (of_nat d)) (av_view t1 mu1 ml1) node_fits (local_of (av_local t1)) 0
          INVALID_KEY (av_root_key t1) (av_root_leaf t) ?tr"
        unfolding a(3) by (rule chain_mixed [OF a(5) dt]) simp
      obtain t2 r2 mu2 ml2 where t2: "av_put_back ops t1 r1 = Inr (t2, r2)" "av_ok (oe_crypto E) inv bucket ops t2 mu2 ml2"
        "av_same t1 t2" "tree_at (av_view t2 mu2 ml2) node_fits 0 (av_root_key t2) (av_root_leaf t2) ?tr"
        "only_keys (av_view t2 mu2 ml2) ?tr"
      proof -
        have "INVALID_KEY \<notin> n_key ` set (av_local t1)" "distinct (map n_key (av_local t1))"
          "n_key ` set (av_local t1) \<subseteq> keys_of ?tr" using cd ck by blast+
        then show ?thesis using put_back_spec [OF a(1) mix dt, of r1] a(4,6) that by blast
      qed
      have s2: "av_stores (oe_crypto E) inv bucket ops t2 ?tr" unfolding av_stores_def using t2(2,4,5) ord by blast
      have same: "av_same t t'" if "av_keeps t2 t'" for t'
        using that t2(3) a(2,3) by (simp add: av_keeps_def av_same_def av_conf_def)
      have fv: "found_value f = (case tree_map tree k of None \<Rightarrow> [] | Some w \<Rightarrow> w)"
        using f [symmetric] by (auto simp: found_value_def split: option.split)
      show ?thesis
        unfolding t2(1) bind_result_simps prod.case
        by (rule safe_run_bind [OF stores_finish [OF E s2]], clarify) (use same fv in simp)
    qed
    have "safe_run (bind_result (av_descend E ops k update (nat (av_max_height t)) 0 (av_root_key t) (av_root_leaf t) ?tl r) (\<lambda>(f, t1, r1).
           bind_result (av_put_back ops t1 r1) (\<lambda>(t2, r2).
           bind_result (av_finish E ops t2 r2) (\<lambda>(t3, r3). Inr (found_value f, t3, r3)))))
        (\<lambda>(v, t', r'). v = (case tree_map tree k of None \<Rightarrow> [] | Some w \<Rightarrow> w)
          \<and> av_stores (oe_crypto E) inv bucket ops t' (upd_tree k update tree) \<and> av_same t t')"
      by (rule safe_run_bind [OF d], elim case_prodE conjE, hypsubst, unfold prod.case) (rule rest)
    then show ?thesis unfolding av_search_def Let_def using False by simp
  qed
qed

end

end
