(* ===== verification/Avl_Rotations.thy ===== *)
theory Avl_Rotations
  imports Avl_Local
begin

text \<open>
  The rotations of the local nodes change the tree and keep what it lists in order. The proofs read a
  list of local nodes as a map from keys to nodes; heights play no part in them, so they hold whatever
  the balancing decides.
\<close>

section \<open>A rotation as a map over the local nodes\<close>

definition same_entry :: "local_node \<Rightarrow> local_node \<Rightarrow> bool" where
  "same_entry e e' \<longleftrightarrow> n_key e' = n_key e \<and> n_leaf e' = n_leaf e \<and> n_parent e' = n_parent e \<and> n_depth e' = n_depth e
     \<and> avl_data (n_avl e') = avl_data (n_avl e) \<and> l_key (n_avl e') = l_key (n_avl e) \<and> l_leaf (n_avl e') = l_leaf (n_avl e)
     \<and> r_key (n_avl e') = r_key (n_avl e) \<and> r_leaf (n_avl e') = r_leaf (n_avl e)"

lemma same_entry_refl [simp]: "same_entry e e"
  by (simp add: same_entry_def)

lemma same_entry_trans: "same_entry a b \<Longrightarrow> same_entry b c \<Longrightarrow> same_entry a c"
  by (simp add: same_entry_def)

lemma distinct_nth_key:
  "distinct (map n_key loc) \<Longrightarrow> i < length loc \<Longrightarrow> e \<in> set loc \<Longrightarrow> n_key e = n_key (loc ! i) \<Longrightarrow> e = loc ! i"
  by (metis distinct_conv_nth in_set_conv_nth length_map nth_map)

lemma upd_map:
  assumes "distinct (map n_key loc)" "i < length loc" "\<forall>e. n_key (g e) = n_key e"
  shows "(map g loc)[i := h (map g loc ! i)] = map (\<lambda>e. if n_key e = n_key (loc ! i) then h (g e) else g e) loc"
  by (rule nth_equalityI) (use assms in \<open>auto simp: nth_list_update nth_eq_iff_index_eq distinct_map inj_on_eq_iff\<close>)

definition swap_child :: "i32 \<Rightarrow> i32 \<Rightarrow> i32 \<Rightarrow> i32 \<Rightarrow> local_node \<Rightarrow> local_node" where
  "swap_child old k lf h p =
     (if l_key (n_avl p) = old then p\<lparr>n_avl := set_child True k lf h (n_avl p)\<rparr>
      else if r_key (n_avl p) = old then p\<lparr>n_avl := set_child False k lf h (n_avl p)\<rparr>
      else p)"

lemma swap_child_fields [simp]:
  "n_key (swap_child old k lf h p) = n_key p" "n_leaf (swap_child old k lf h p) = n_leaf p"
  "n_parent (swap_child old k lf h p) = n_parent p" "n_depth (swap_child old k lf h p) = n_depth p"
  "avl_data (n_avl (swap_child old k lf h p)) = avl_data (n_avl p)"
  by (simp_all add: swap_child_def set_child_def)

definition rot_moved :: "bool \<Rightarrow> local_node \<Rightarrow> local_node \<Rightarrow> local_node \<Rightarrow> local_node" where
  "rot_moved lft ex ey e =
     (let nx = hand_over lft (n_avl ey) (n_avl ex);
          ny = set_child lft (n_key ex) (n_leaf ex) (node_height nx) (n_avl ey)
      in if n_key e = n_key ex then e\<lparr>n_avl := nx, n_parent := n_key ey\<rparr>
         else if n_key e = n_key ey then e\<lparr>n_avl := ny, n_parent := n_parent ex\<rparr>
         else if n_key e = n_parent ex then swap_child (n_key ex) (n_key ey) (n_leaf ey) (node_height ny) e
         else e)"

definition rot_map :: "bool \<Rightarrow> local_node \<Rightarrow> local_node \<Rightarrow> local_node \<Rightarrow> local_node" where
  "rot_map lft ex ey e =
     (let tk = (if lft then l_key (n_avl ey) else r_key (n_avl ey))
      in if tk \<noteq> INVALID_KEY \<and> n_key e = tk then (rot_moved lft ex ey e)\<lparr>n_parent := n_key ex\<rparr>
         else rot_moved lft ex ey e)"

lemma rot_moved_key [simp]: "n_key (rot_moved lft ex ey e) = n_key e"
  by (simp add: rot_moved_def Let_def)

lemma rot_map_key [simp]: "n_key (rot_map lft ex ey e) = n_key e"
  by (simp add: rot_map_def Let_def)

lemma set_child_fields [simp]:
  "avl_data (set_child lft k lf h a) = avl_data a" "avl_data (hand_over lft p a) = avl_data a"
  by (simp_all add: set_child_def hand_over_def)

lemma av_rotate_map:
  assumes dist: "distinct (map n_key loc)" and idx: "idx < length loc"
    and pj: "local_index (if lft then r_key (n_avl (loc ! idx)) else l_key (n_avl (loc ! idx))) loc = Some pj"
    and par: "n_parent (loc ! idx) \<noteq> n_key (loc ! idx)" "n_parent (loc ! idx) \<noteq> n_key (loc ! pj)"
      "n_key (loc ! pj) \<noteq> n_key (loc ! idx)"
  shows "av_rotate idx lft (loc, rk) =
    (map (rot_map lft (loc ! idx) (loc ! pj)) loc, if rk = n_key (loc ! idx) then n_key (loc ! pj) else rk)"
proof -
  let ?x = "loc ! idx" and ?y = "loc ! pj"
  have pl: "pj < length loc" using local_index_Some [OF pj] by simp
  have xin: "e = ?x" if "e \<in> set loc" "n_key e = n_key ?x" for e using distinct_nth_key [OF dist idx that] .
  have yin: "e = ?y" if "e \<in> set loc" "n_key e = n_key ?y" for e using distinct_nth_key [OF dist pl that] .
  let ?nx = "hand_over lft (n_avl ?y) (n_avl ?x)"
  let ?ny = "set_child lft (n_key ?x) (n_leaf ?x) (node_height ?nx) (n_avl ?y)"
  define g1 where "g1 e = (if n_key e = n_key ?x then e\<lparr>n_avl := ?nx\<rparr> else e)" for e :: local_node
  define g2 where "g2 e = (if n_key e = n_key ?y then (g1 e)\<lparr>n_avl := ?ny\<rparr> else g1 e)" for e :: local_node
  define g3 where "g3 e = (if n_key e = n_parent ?x then swap_child (n_key ?x) (n_key ?y) (n_leaf ?y) (node_height ?ny) (g2 e) else g2 e)" for e :: local_node
  define g4 where "g4 e = (if n_key e = n_key ?y then (g3 e)\<lparr>n_parent := n_parent ?x\<rparr> else g3 e)" for e :: local_node
  define g5 where "g5 e = (if n_key e = n_key ?x then (g4 e)\<lparr>n_parent := n_key ?y\<rparr> else g4 e)" for e :: local_node
  have k1: "\<forall>e. n_key (g1 e) = n_key e" by (simp add: g1_def)
  have k2: "\<forall>e. n_key (g2 e) = n_key e" using k1 by (simp add: g2_def)
  have k3: "\<forall>e. n_key (g3 e) = n_key e" using k2 by (simp add: g3_def)
  have k4: "\<forall>e. n_key (g4 e) = n_key e" using k3 by (simp add: g4_def)
  have k5: "\<forall>e. n_key (g5 e) = n_key e" using k4 by (simp add: g5_def)
  have u1: "upd_avl idx (hand_over lft (n_avl ?y)) loc = map g1 loc"
  proof -
    have "upd_avl idx (hand_over lft (n_avl ?y)) loc = (map (\<lambda>e. e) loc)[idx := (\<lambda>e. e\<lparr>n_avl := ?nx\<rparr>) (map (\<lambda>e. e) loc ! idx)]"
      by (simp add: upd_avl_def)
    also have "\<dots> = map g1 loc" unfolding g1_def by (subst upd_map [OF dist idx]) simp_all
    finally show ?thesis .
  qed
  have e1: "map g1 loc ! idx = ?x\<lparr>n_avl := ?nx\<rparr>" "map g1 loc ! pj = ?y"
    using idx pl par(3) by (simp_all add: g1_def)
  have u2: "upd_avl pj (set_child lft (n_key ?x) (n_leaf ?x) (node_height ?nx)) (map g1 loc) = map g2 loc"
  proof -
    have "upd_avl pj (set_child lft (n_key ?x) (n_leaf ?x) (node_height ?nx)) (map g1 loc) =
        (map g1 loc)[pj := (\<lambda>e. e\<lparr>n_avl := ?ny\<rparr>) (map g1 loc ! pj)]"
      by (simp add: upd_avl_def e1)
    also have "\<dots> = map g2 loc" unfolding g2_def by (subst upd_map [OF dist pl k1]) simp
    finally show ?thesis .
  qed
  have e2: "map g2 loc ! idx = ?x\<lparr>n_avl := ?nx\<rparr>" "map g2 loc ! pj = ?y\<lparr>n_avl := ?ny\<rparr>"
    using idx pl par(3) e1 by (simp_all add: g2_def)
  have u3: "replace_child (n_parent ?x) (n_key ?x) (n_key ?y) (n_leaf ?y) (node_height ?ny) (map g2 loc) = map g3 loc"
  proof -
    have "distinct (map n_key (map g2 loc))" using dist k2 by (simp add: comp_def)
    then have "replace_child (n_parent ?x) (n_key ?x) (n_key ?y) (n_leaf ?y) (node_height ?ny) (map g2 loc) =
        map (\<lambda>p. if n_key p = n_parent ?x then swap_child (n_key ?x) (n_key ?y) (n_leaf ?y) (node_height ?ny) p else p) (map g2 loc)"
      unfolding replace_child_def swap_child_def by (rule upd_first_unique)
    then show ?thesis using k2 by (simp add: g3_def [abs_def] comp_def)
  qed
  have e3: "map g3 loc ! idx = ?x\<lparr>n_avl := ?nx\<rparr>" "map g3 loc ! pj = ?y\<lparr>n_avl := ?ny\<rparr>"
    using idx pl par e2 by (simp_all add: g3_def)
  have u4: "(map g3 loc)[pj := (map g3 loc ! pj)\<lparr>n_parent := n_parent (map g3 loc ! idx)\<rparr>] = map g4 loc"
    unfolding e3(1) g4_def by (subst upd_map [OF dist pl k3]) simp
  have e4: "map g4 loc ! idx = ?x\<lparr>n_avl := ?nx\<rparr>" "n_key (map g4 loc ! pj) = n_key ?y"
    using idx pl par(3) e3 k4 by (simp_all add: g4_def)
  have u5: "(map g4 loc)[idx := (map g4 loc ! idx)\<lparr>n_parent := n_key (map g4 loc ! pj)\<rparr>] = map g5 loc"
    unfolding e4(2) g5_def by (subst upd_map [OF dist idx k4]) simp
  have e5: "n_key (map g5 loc ! idx) = n_key ?x" using idx k5 by simp
  let ?tk = "if lft then l_key (n_avl ?y) else r_key (n_avl ?y)"
  have d5: "distinct (map n_key (map g5 loc))" using dist k5 by (simp add: comp_def)
  have moved: "g5 e = rot_moved lft ?x ?y e" if "e \<in> set loc" for e
    using par xin [OF that] yin [OF that]
    by (auto simp: g5_def g4_def g3_def g2_def g1_def rot_moved_def Let_def)
  have u6: "(if ?tk = INVALID_KEY then map g5 loc
      else upd_first (\<lambda>c. n_key c = ?tk) (\<lambda>c. c\<lparr>n_parent := n_key (map g5 loc ! idx)\<rparr>) (map g5 loc)) = map (rot_map lft ?x ?y) loc"
    unfolding e5 upd_first_unique [OF d5] using moved k5 by (auto simp: rot_map_def Let_def)
  have k6: "n_key (map (rot_map lft ?x ?y) loc ! idx) = n_key ?x" "n_key (map (rot_map lft ?x ?y) loc ! pj) = n_key ?y"
    using idx pl by simp_all
  have sel: "n_key (e\<lparr>n_avl := a\<rparr>) = n_key e" "n_leaf (e\<lparr>n_avl := a\<rparr>) = n_leaf e"
    "n_parent (e\<lparr>n_avl := a\<rparr>) = n_parent e" "n_avl (e\<lparr>n_avl := a\<rparr>) = a" for e :: local_node and a
    by simp_all
  show ?thesis
    unfolding av_rotate_def Let_def prod.case pj option.case u1 e1
      sel u2 e2 u3 u4 u5 u6 k6 by (rule refl)
qed

section \<open>Flat trees\<close>

text \<open>With one ORAM the depth of a node does not matter.\<close>

definition flat ::
  "(i32 \<rightharpoonup> i32 \<times> bytes) \<Rightarrow> (bytes \<Rightarrow> bool) \<Rightarrow> (i32 \<rightharpoonup> local_node) \<Rightarrow> i32 \<Rightarrow> i32 \<Rightarrow> i32 \<Rightarrow> kv_tree \<Rightarrow> bool" where
  "flat m vs L p k lf t \<longleftrightarrow> mixed (\<lambda>_ _. True) (\<lambda>_. m) vs L 0 p k lf t"

lemma tree_at_flat: "tree_at (\<lambda>_. m) vs d k lf t = tree_at (\<lambda>_. m) vs d' k lf t"
proof (induction t arbitrary: k lf d d')
  case (Node l kv r)
  obtain k' v where kv: "kv = (k', v)" by fastforce
  show ?case unfolding kv tree_at.simps using Node.IH [of "Suc d" _ _ "Suc d'"] by metis
qed simp

lemma mixed_flat: "mixed (\<lambda>_ _. True) (\<lambda>_. m) vs L d p k lf t = flat m vs L p k lf t"
proof -
  have "mixed (\<lambda>_ _. True) (\<lambda>_. m) vs L d p k lf t = mixed (\<lambda>_ _. True) (\<lambda>_. m) vs L d' p k lf t" for d d'
  proof (induction t arbitrary: p k lf d d')
    case (Node l kv r)
    obtain k' v where kv: "kv = (k', v)" by fastforce
    show ?case
      unfolding kv mixed.simps using Node.IH [of "Suc d" _ _ _ "Suc d'"] tree_at_flat [of m vs d _ _ _ d']
      by (simp del: tree_at.simps split: option.split)
  qed simp
  then show ?thesis by (simp add: flat_def)
qed

lemma flat_simps:
  "flat m vs L p k lf Leaf \<longleftrightarrow> k = INVALID_KEY"
  "flat m vs L p k lf (Node l (k', v) r) \<longleftrightarrow>
     (case L k of
        None \<Rightarrow> tree_at (\<lambda>_. m) vs 0 k lf (Node l (k', v) r) \<and> keys_of (Node l (k', v) r) \<inter> dom L = {}
      | Some e \<Rightarrow> k = k' \<and> k \<noteq> INVALID_KEY \<and> vs v \<and> m k = None \<and> n_leaf e = lf \<and> n_parent e = p
          \<and> avl_data (n_avl e) = v
          \<and> flat m vs L k (l_key (n_avl e)) (l_leaf (n_avl e)) l
          \<and> flat m vs L k (r_key (n_avl e)) (r_leaf (n_avl e)) r)"
  unfolding flat_def mixed.simps by (simp_all add: mixed_flat mixed_flat [symmetric, of m vs L 0] split: option.split)

lemma flat_local:
  assumes "flat m vs L p k lf t" "x \<in> keys_of t" "L x = Some ex"
  obtains l v r e where "t = Node l (k, v) r" "L k = Some e" "k \<noteq> INVALID_KEY" "vs v" "m k = None"
    "n_leaf e = lf" "n_parent e = p" "avl_data (n_avl e) = v"
    "flat m vs L k (l_key (n_avl e)) (l_leaf (n_avl e)) l" "flat m vs L k (r_key (n_avl e)) (r_leaf (n_avl e)) r"
proof (cases t)
  case (Node l kv r)
  obtain k' v where kv: "kv = (k', v)" by fastforce
  show ?thesis
  proof (cases "L k")
    case None
    then show ?thesis using assms Node kv by (auto simp: flat_simps)
  next
    case (Some e)
    then show ?thesis using assms(1) Node kv by (intro that) (auto simp: flat_simps)
  qed
qed (use assms in simp)

lemma flat_root: "flat m vs L p k lf t \<Longrightarrow> k = INVALID_KEY \<and> t = Leaf \<or> k \<in> keys_of t"
proof (cases t)
  case (Node l kv r)
  obtain k' v where kv: "kv = (k', v)" by fastforce
  assume "flat m vs L p k lf t"
  then show ?thesis unfolding Node kv flat_simps by (auto split: option.splits)
qed (simp add: flat_simps)

lemma flat_parent:
  "flat m vs L p k lf t \<Longrightarrow> L k = Some c \<Longrightarrow> INVALID_KEY \<notin> dom L \<Longrightarrow> n_parent c = p \<and> n_leaf c = lf"
  unfolding flat_def by (rule mixed_local_parent)

lemma flat_children:
  assumes "flat m vs L p k lf t" "x \<in> keys_of t" "L x = Some ex"
  shows "l_key (n_avl ex) = INVALID_KEY \<or> l_key (n_avl ex) \<in> keys_of t"
    "r_key (n_avl ex) = INVALID_KEY \<or> r_key (n_avl ex) \<in> keys_of t"
proof -
  have "(l_key (n_avl ex) = INVALID_KEY \<or> l_key (n_avl ex) \<in> keys_of t)
    \<and> (r_key (n_avl ex) = INVALID_KEY \<or> r_key (n_avl ex) \<in> keys_of t)"
    using assms(1,2)
  proof (induction t arbitrary: p k lf)
    case (Node l kv r)
    from Node.prems assms(3) obtain l' v r' e where t: "Node l kv r = Node l' (k, v) r'" "L k = Some e"
      "flat m vs L k (l_key (n_avl e)) (l_leaf (n_avl e)) l'" "flat m vs L k (r_key (n_avl e)) (r_leaf (n_avl e)) r'"
      by (rule flat_local)
    then have eq: "l' = l" "r' = r" "kv = (k, v)" by simp_all
    consider "x = k" | "x \<in> keys_of l" | "x \<in> keys_of r" using Node.prems(2) eq by auto
    then show ?case
    proof cases
      case 1
      then show ?thesis using flat_root [OF t(3)] flat_root [OF t(4)] t(2) assms(3) eq by auto
    next
      case 2
      then show ?thesis using Node.IH(1) [OF t(3) [unfolded eq]] eq by auto
    next
      case 3
      then show ?thesis using Node.IH(2) [OF t(4) [unfolded eq]] eq by auto
    qed
  qed simp
  then show "l_key (n_avl ex) = INVALID_KEY \<or> l_key (n_avl ex) \<in> keys_of t"
    "r_key (n_avl ex) = INVALID_KEY \<or> r_key (n_avl ex) \<in> keys_of t" by simp_all
qed

text \<open>The parent of a local node is neither the node nor one of its children.\<close>

lemma flat_parent_above:
  assumes "flat m vs L p k lf t" "x \<in> keys_of t" "L x = Some ex" "tree_distinct t" "p \<notin> keys_of t"
    and "y \<in> {x, l_key (n_avl ex), r_key (n_avl ex)}" "y \<noteq> INVALID_KEY"
  shows "n_parent ex \<noteq> y"
  using assms(1,2,4,5)
proof (induction t arbitrary: p k lf)
  case (Node l kv r)
  from Node.prems(1,2) assms(3) obtain l' v r' e where t: "Node l kv r = Node l' (k, v) r'" "L k = Some e" "n_parent e = p"
    "flat m vs L k (l_key (n_avl e)) (l_leaf (n_avl e)) l'" "flat m vs L k (r_key (n_avl e)) (r_leaf (n_avl e)) r'"
    by (rule flat_local)
  then have eq: "l' = l" "r' = r" "kv = (k, v)" by simp_all
  consider "x = k" | "x \<in> keys_of l" | "x \<in> keys_of r" using Node.prems(2) eq by auto
  then show ?case
  proof cases
    case 1
    then have "n_parent ex = p" using t(2,3) assms(3) by simp
    moreover have "y \<in> keys_of (Node l kv r)"
      using flat_children [OF Node.prems(1,2) assms(3)] assms(6,7) Node.prems(2) by auto
    ultimately show ?thesis using Node.prems(4) by auto
  next
    case 2
    then show ?thesis using Node.IH(1) [OF t(4) [unfolded eq]] eq Node.prems(3) by auto
  next
    case 3
    then show ?thesis using Node.IH(2) [OF t(5) [unfolded eq]] eq Node.prems(3) by auto
  qed
qed simp

section \<open>The effect on the tree\<close>

text \<open>Subtrees away from the rotation do not change.\<close>

lemma rot_map_other:
  assumes "n_key e \<noteq> n_key ex" "n_key e \<noteq> n_key ey" "l_key (n_avl e) \<noteq> n_key ex" "r_key (n_avl e) \<noteq> n_key ex"
    and "tk = (if lft then l_key (n_avl ey) else r_key (n_avl ey))"
  shows "rot_map lft ex ey e = (if tk \<noteq> INVALID_KEY \<and> n_key e = tk then e\<lparr>n_parent := n_key ex\<rparr> else e)"
  using assms by (simp add: rot_map_def rot_moved_def Let_def swap_child_def)

lemma flat_rotate_other:
  assumes "flat m vs L p k lf t" "keys_of t \<inter> {n_key ex, n_key ey} = {}" "n_key ex \<noteq> INVALID_KEY"
    and "tk = (if lft then l_key (n_avl ey) else r_key (n_avl ey))"
    and "tk \<in> keys_of t \<Longrightarrow> k = tk \<and> p' = n_key ex" "k \<noteq> tk \<Longrightarrow> p' = p" "tree_distinct t" "tk \<noteq> INVALID_KEY \<or> p' = p"
    and L: "\<And>z e. L z = Some e \<Longrightarrow> n_key e = z"
  shows "flat m vs (map_option (rot_map lft ex ey) \<circ> L) p' k lf t"
  using assms(1,2,5-8)
proof (induction t arbitrary: p p' k lf)
  case (Node l kv r)
  obtain k' v where kv: "kv = (k', v)" by fastforce
  show ?case
  proof (cases "L k")
    case None
    then have "tree_at (\<lambda>_. m) vs 0 k lf (Node l kv r)" "keys_of (Node l kv r) \<inter> dom L = {}"
      using Node.prems(1) kv by (auto simp: flat_simps)
    then show ?thesis using None kv by (auto simp: flat_simps)
  next
    case (Some e)
    have t: "k = k'" "k \<noteq> INVALID_KEY" "vs v" "m k = None" "n_leaf e = lf" "n_parent e = p" "avl_data (n_avl e) = v"
      "flat m vs L k (l_key (n_avl e)) (l_leaf (n_avl e)) l" "flat m vs L k (r_key (n_avl e)) (r_leaf (n_avl e)) r"
      using Node.prems(1) Some by (auto simp: kv flat_simps)
    have nk: "n_key e = k" using L [OF Some] .
    have kx: "k \<noteq> n_key ex" "k \<noteq> n_key ey" using Node.prems(2) kv t(1) by auto
    have ptr: "l_key (n_avl e) \<noteq> n_key ex" "r_key (n_avl e) \<noteq> n_key ex"
      using flat_root [OF t(8)] flat_root [OF t(9)] Node.prems(2) assms(3) kv by auto
    have e': "rot_map lft ex ey e = (if tk \<noteq> INVALID_KEY \<and> k = tk then e\<lparr>n_parent := n_key ex\<rparr> else e)"
      using rot_map_other [OF _ _ ptr assms(4)] kx nk by simp
    have sub: "tk \<notin> keys_of l" "tk \<notin> keys_of r" using Node.prems(3,5) kv t(1) by auto
    have l: "flat m vs (map_option (rot_map lft ex ey) \<circ> L) k (l_key (n_avl e)) (l_leaf (n_avl e)) l"
      by (rule Node.IH(1) [OF t(8)]) (use Node.prems(2,5) kv sub in auto)
    have r: "flat m vs (map_option (rot_map lft ex ey) \<circ> L) k (r_key (n_avl e)) (r_leaf (n_avl e)) r"
      by (rule Node.IH(2) [OF t(9)]) (use Node.prems(2,5) kv sub in auto)
    have par: "n_parent (rot_map lft ex ey e) = p'"
      unfolding e' using Node.prems(3,4,6) t(1,2,6) kv by auto
    have "n_leaf (rot_map lft ex ey e) = lf" "n_avl (rot_map lft ex ey e) = n_avl e" using t(5) by (simp_all add: e')
    then show ?thesis unfolding kv flat_simps using Some t(1-4,7) l r par by simp
  qed
qed (simp add: flat_simps)

text \<open>The rotation itself: at the node \<open>ex\<close> with its child \<open>ey\<close>, and further down in any tree.\<close>

lemma flat_rotate_top:
  assumes f: "flat m vs L p (n_key ex) lf t" and dist: "tree_distinct t" "INVALID_KEY \<notin> dom L"
    and L: "\<And>z e. L z = Some e \<Longrightarrow> n_key e = z"
    and ex: "L (n_key ex) = Some ex" and ey: "L (n_key ey) = Some ey"
    and y: "n_key ey = (if lft then r_key (n_avl ex) else l_key (n_avl ex))"
    and tk: "tk = (if lft then l_key (n_avl ey) else r_key (n_avl ey))"
  shows "\<exists>t'. flat m vs (map_option (rot_map lft ex ey) \<circ> L) p (n_key ey) (n_leaf ey) t' \<and> inorder t' = inorder t"
proof -
  let ?x = "n_key ex" and ?y = "n_key ey" and ?L = "map_option (rot_map lft ex ey) \<circ> L"
  have xi: "?x \<noteq> INVALID_KEY" "?y \<noteq> INVALID_KEY" using ex ey dist(2) by auto
  have xin: "?x \<in> keys_of t" using flat_root [OF f] xi(1) by simp
  obtain l v r where t: "t = Node l (?x, v) r" "vs v" "m ?x = None" "n_leaf ex = lf" "n_parent ex = p" "avl_data (n_avl ex) = v"
    "flat m vs L ?x (l_key (n_avl ex)) (l_leaf (n_avl ex)) l" "flat m vs L ?x (r_key (n_avl ex)) (r_leaf (n_avl ex)) r"
    using flat_local [OF f xin ex] ex by (metis option.inject)
  have inner: "flat m vs ?L ?x (if lft then l_key (n_avl ey) else r_key (n_avl ey)) lf' b"
    if "flat m vs L ?y tk lf' b" "keys_of b \<inter> {?x, ?y} = {}" "tree_distinct b" for lf' b
  proof (cases "tk = INVALID_KEY")
    case True
    then have "b = Leaf" using that(1) mixed_keys [OF that(1) [unfolded flat_def]] flat_root [OF that(1)] by auto
    then show ?thesis using True tk by (simp add: flat_simps split: if_splits)
  next
    case False
    have "flat m vs ?L ?x tk lf' b"
      by (rule flat_rotate_other [OF that(1,2) xi(1) tk _ _ that(3) _ L]) (use False in auto)
    then show ?thesis using tk by simp
  qed
  have outer: "flat m vs ?L q k lf' b"
    if "flat m vs L q k lf' b" "keys_of b \<inter> {?x, ?y} = {}" "tree_distinct b" "tk = INVALID_KEY \<or> tk \<notin> keys_of b" for q k lf' b
  proof -
    have "tk \<notin> keys_of b" using that(4) mixed_keys [OF that(1) [unfolded flat_def]] by auto
    then show ?thesis by (intro flat_rotate_other [OF that(1,2) xi(1) tk _ _ that(3) _ L]) auto
  qed
  show ?thesis
  proof (cases lft)
    case True
    have fr: "flat m vs L ?x ?y (r_leaf (n_avl ex)) r" using t(8) y True by simp
    then have yin: "?y \<in> keys_of r" using flat_root [OF fr] xi(2) by simp
    obtain b w c where r: "r = Node b (?y, w) c" "vs w" "m ?y = None" "n_parent ey = ?x" "avl_data (n_avl ey) = w"
      "flat m vs L ?y (l_key (n_avl ey)) (l_leaf (n_avl ey)) b" "flat m vs L ?y (r_key (n_avl ey)) (r_leaf (n_avl ey)) c"
      using flat_local [OF fr yin ey] ey by (metis option.inject)
    have tkb: "tk = INVALID_KEY \<or> tk \<in> keys_of b" using flat_root [OF r(6)] tk True by auto
    have d: "tree_distinct l" "tree_distinct b" "tree_distinct c" "keys_of l \<inter> {?x, ?y} = {}" "keys_of b \<inter> {?x, ?y} = {}"
      "keys_of c \<inter> {?x, ?y} = {}" "keys_of l \<inter> keys_of b = {}" "keys_of b \<inter> keys_of c = {}" "?x \<noteq> ?y"
      using dist(1) t(1) r(1) by auto
    have tx: "tk \<noteq> ?x" "tk \<noteq> ?y" using tkb d(5) xi by auto
    have l': "flat m vs ?L ?x (l_key (n_avl ex)) (l_leaf (n_avl ex)) l" by (rule outer [OF t(7) d(4,1)]) (use tkb d in blast)
    have c': "flat m vs ?L ?y (r_key (n_avl ey)) (r_leaf (n_avl ey)) c" by (rule outer [OF r(7) d(6,3)]) (use tkb d in blast)
    have b': "flat m vs ?L ?x (l_key (n_avl ey)) (l_leaf (n_avl ey)) b"
      using inner [OF _ d(5,2), of "l_leaf (n_avl ey)"] r(6) tk True by simp
    let ?ex = "rot_map lft ex ey ex" and ?ey = "rot_map lft ex ey ey"
    have e': "?L ?x = Some ?ex" "?L ?y = Some ?ey" using ex ey by simp_all
    have px: "n_leaf ?ex = lf" "n_parent ?ex = ?y" "n_avl ?ex = hand_over True (n_avl ey) (n_avl ex)"
      "n_leaf ?ey = n_leaf ey" "n_parent ?ey = p" "r_key (n_avl ?ey) = r_key (n_avl ey)" "r_leaf (n_avl ?ey) = r_leaf (n_avl ey)"
      "l_key (n_avl ?ey) = ?x" "l_leaf (n_avl ?ey) = lf" "avl_data (n_avl ?ey) = avl_data (n_avl ey)"
      using True tx d(9) tk t(4,5) by (auto simp: rot_map_def rot_moved_def Let_def set_child_def)
    have "flat m vs ?L ?y ?x lf (Node l (?x, v) b)"
      unfolding flat_simps e' option.case using t(2,3,6) xi px l' b' by (simp add: hand_over_def)
    then have "flat m vs ?L p ?y (n_leaf ey) (Node (Node l (?x, v) b) (?y, w) c)"
      unfolding flat_simps(2) [of m vs ?L p] e' option.case px using r(2,3,5) xi c' by simp
    then show ?thesis using t(1) r(1) by (intro exI [of _ "Node (Node l (?x, v) b) (?y, w) c"]) simp
  next
    case False
    have fl: "flat m vs L ?x ?y (l_leaf (n_avl ex)) l" using t(7) y False by simp
    then have yin: "?y \<in> keys_of l" using flat_root [OF fl] xi(2) by simp
    obtain c w b where l: "l = Node c (?y, w) b" "vs w" "m ?y = None" "n_parent ey = ?x" "avl_data (n_avl ey) = w"
      "flat m vs L ?y (l_key (n_avl ey)) (l_leaf (n_avl ey)) c" "flat m vs L ?y (r_key (n_avl ey)) (r_leaf (n_avl ey)) b"
      using flat_local [OF fl yin ey] ey by (metis option.inject)
    have tkb: "tk = INVALID_KEY \<or> tk \<in> keys_of b" using flat_root [OF l(7)] tk False by auto
    have d: "tree_distinct r" "tree_distinct b" "tree_distinct c" "keys_of r \<inter> {?x, ?y} = {}" "keys_of b \<inter> {?x, ?y} = {}"
      "keys_of c \<inter> {?x, ?y} = {}" "keys_of r \<inter> keys_of b = {}" "keys_of b \<inter> keys_of c = {}" "?x \<noteq> ?y"
      using dist(1) t(1) l(1) by auto
    have tx: "tk \<noteq> ?x" "tk \<noteq> ?y" using tkb d(5) xi by auto
    have r': "flat m vs ?L ?x (r_key (n_avl ex)) (r_leaf (n_avl ex)) r" by (rule outer [OF t(8) d(4,1)]) (use tkb d in blast)
    have c': "flat m vs ?L ?y (l_key (n_avl ey)) (l_leaf (n_avl ey)) c" by (rule outer [OF l(6) d(6,3)]) (use tkb d in blast)
    have b': "flat m vs ?L ?x (r_key (n_avl ey)) (r_leaf (n_avl ey)) b"
      using inner [OF _ d(5,2), of "r_leaf (n_avl ey)"] l(7) tk False by simp
    let ?ex = "rot_map lft ex ey ex" and ?ey = "rot_map lft ex ey ey"
    have e': "?L ?x = Some ?ex" "?L ?y = Some ?ey" using ex ey by simp_all
    have px: "n_leaf ?ex = lf" "n_parent ?ex = ?y" "n_avl ?ex = hand_over False (n_avl ey) (n_avl ex)"
      "n_leaf ?ey = n_leaf ey" "n_parent ?ey = p" "l_key (n_avl ?ey) = l_key (n_avl ey)" "l_leaf (n_avl ?ey) = l_leaf (n_avl ey)"
      "r_key (n_avl ?ey) = ?x" "r_leaf (n_avl ?ey) = lf" "avl_data (n_avl ?ey) = avl_data (n_avl ey)"
      using False tx d(9) tk t(4,5) by (auto simp: rot_map_def rot_moved_def Let_def set_child_def)
    have "flat m vs ?L ?y ?x lf (Node b (?x, v) r)"
      unfolding flat_simps e' option.case using t(2,3,6) xi px r' b' by (simp add: hand_over_def)
    then have "flat m vs ?L p ?y (n_leaf ey) (Node c (?y, w) (Node b (?x, v) r))"
      unfolding flat_simps(2) [of m vs ?L p] e' option.case px using l(2,3,5) xi c' by simp
    then show ?thesis using t(1) l(1) by (intro exI [of _ "Node c (?y, w) (Node b (?x, v) r)"]) simp
  qed
qed

lemma flat_rotate:
  assumes "flat m vs L p k lf t" and dist: "tree_distinct t" "INVALID_KEY \<notin> dom L"
    and L: "\<And>z e. L z = Some e \<Longrightarrow> n_key e = z"
    and ex: "L (n_key ex) = Some ex" and ey: "L (n_key ey) = Some ey" and x: "n_key ex \<in> keys_of t"
    and y: "n_key ey = (if lft then r_key (n_avl ex) else l_key (n_avl ex))"
  shows "\<exists>t'. flat m vs (map_option (rot_map lft ex ey) \<circ> L) p (if k = n_key ex then n_key ey else k)
      (if k = n_key ex then n_leaf ey else lf) t' \<and> inorder t' = inorder t"
  using assms(1,2) x
proof (induction t arbitrary: p k lf)
  case (Node l kv r)
  let ?x = "n_key ex" and ?y = "n_key ey" and ?L = "map_option (rot_map lft ex ey) \<circ> L"
  define tk where "tk = (if lft then l_key (n_avl ey) else r_key (n_avl ey))"
  have xi: "?x \<noteq> INVALID_KEY" "?y \<noteq> INVALID_KEY" using ex ey dist(2) by auto
  show ?case
  proof (cases "k = ?x")
    case True
    show ?thesis
      unfolding if_P [OF True]
      by (rule flat_rotate_top [OF Node.prems(1) [unfolded True] Node.prems(2) dist(2) L ex ey y tk_def])
  next
    case False
    from Node.prems(1,3) ex obtain l' v r' e where t: "Node l kv r = Node l' (k, v) r'" "L k = Some e" "k \<noteq> INVALID_KEY"
      "vs v" "m k = None" "n_leaf e = lf" "n_parent e = p" "avl_data (n_avl e) = v"
      "flat m vs L k (l_key (n_avl e)) (l_leaf (n_avl e)) l'" "flat m vs L k (r_key (n_avl e)) (r_leaf (n_avl e)) r'"
      by (rule flat_local)
    then have eq: "l' = l" "r' = r" "kv = (k, v)" by simp_all
    note fl = t(9) [unfolded eq] and fr = t(10) [unfolded eq]
    have d: "tree_distinct l" "tree_distinct r" "k \<notin> keys_of l" "k \<notin> keys_of r" "keys_of l \<inter> keys_of r = {}"
      using Node.prems(2) eq by auto
    have nk: "n_key e = k" by (rule L [OF t(2)])
    text \<open>What holds of the subtree with the rotation and of the other one.\<close>
    have inside: "?y \<in> keys_of s" "tk = INVALID_KEY \<or> tk \<in> keys_of s"
      if s: "flat m vs L k k1 lf1 s" "?x \<in> keys_of s" for k1 lf1 s
    proof -
      show yin: "?y \<in> keys_of s" using flat_children [OF s ex] xi(2) unfolding y by (simp split: if_splits)
      show "tk = INVALID_KEY \<or> tk \<in> keys_of s" using flat_children [OF s(1) yin ey] unfolding tk_def by simp
    qed
    have other: "flat m vs ?L k k2 lf2 u"
      if s: "flat m vs L k k1 lf1 s" "?x \<in> keys_of s" and u: "flat m vs L k k2 lf2 u" "tree_distinct u" "keys_of s \<inter> keys_of u = {}"
      for k1 lf1 s k2 lf2 u
    proof -
      have "tk \<notin> keys_of u" using inside(2) [OF s] u(3) mixed_keys [OF u(1) [unfolded flat_def]] by auto
      moreover have "keys_of u \<inter> {?x, ?y} = {}" using s(2) inside(1) [OF s] u(3) by auto
      ultimately show ?thesis by (intro flat_rotate_other [OF u(1) _ xi(1) tk_def _ _ u(2) _ L]) auto
    qed
    have parent: "k1 = ?x \<Longrightarrow> n_parent ex = k" if "flat m vs L k k1 lf1 s" for k1 lf1 s
      using flat_parent [OF that _ dist(2)] ex by blast
    consider (l) "?x \<in> keys_of l" | (r) "?x \<in> keys_of r" using Node.prems(3) False eq by auto
    then show ?thesis
    proof cases
      case l
      obtain l2 where l2: "flat m vs ?L k (if l_key (n_avl e) = ?x then ?y else l_key (n_avl e))
          (if l_key (n_avl e) = ?x then n_leaf ey else l_leaf (n_avl e)) l2" "inorder l2 = inorder l"
        using Node.IH(1) [OF fl d(1) l] by blast
      have r2: "flat m vs ?L k (r_key (n_avl e)) (r_leaf (n_avl e)) r" by (rule other [OF fl l fr d(2,5)])
      have ky: "k \<noteq> ?y" "tk \<noteq> k" using inside [OF fl l] d(3) t(3) by auto
      have rx: "r_key (n_avl e) \<noteq> ?x" using flat_root [OF fr] d(5) l xi(1) by auto
      let ?e = "rot_map lft ex ey e"
      have Lk: "?L k = Some ?e" using t(2) by simp
      have moved: "?e = (if k = n_parent ex then swap_child ?x ?y (n_leaf ey)
          (node_height (set_child lft ?x (n_leaf ex) (node_height (hand_over lft (n_avl ey) (n_avl ex))) (n_avl ey))) e else e)"
        using False ky nk by (simp add: rot_map_def rot_moved_def Let_def tk_def)
      have f: "n_leaf ?e = lf" "n_parent ?e = p" "avl_data (n_avl ?e) = v" using t(6-8) by (simp_all add: moved)
      have ptr: "l_key (n_avl ?e) = (if l_key (n_avl e) = ?x then ?y else l_key (n_avl e))"
        "l_leaf (n_avl ?e) = (if l_key (n_avl e) = ?x then n_leaf ey else l_leaf (n_avl e))"
        "r_key (n_avl ?e) = r_key (n_avl e)" "r_leaf (n_avl ?e) = r_leaf (n_avl e)"
        unfolding moved using parent [OF fl] rx by (auto simp: swap_child_def set_child_def)
      have "flat m vs ?L p k lf (Node l2 (k, v) r)"
        unfolding flat_simps Lk option.case using t(3-5) f ptr l2(1) r2 by simp
      moreover have "inorder (Node l2 (k, v) r) = inorder (Node l kv r)" using eq l2(2) by simp
      ultimately show ?thesis unfolding if_not_P [OF False] by blast
    next
      case r
      obtain r2 where r2: "flat m vs ?L k (if r_key (n_avl e) = ?x then ?y else r_key (n_avl e))
          (if r_key (n_avl e) = ?x then n_leaf ey else r_leaf (n_avl e)) r2" "inorder r2 = inorder r"
        using Node.IH(2) [OF fr d(2) r] by blast
      have l2: "flat m vs ?L k (l_key (n_avl e)) (l_leaf (n_avl e)) l" by (rule other [OF fr r fl d(1)]) (use d(5) in blast)
      have ky: "k \<noteq> ?y" "tk \<noteq> k" using inside [OF fr r] d(4) t(3) by auto
      have lx: "l_key (n_avl e) \<noteq> ?x" using flat_root [OF fl] d(5) r xi(1) by auto
      let ?e = "rot_map lft ex ey e"
      have Lk: "?L k = Some ?e" using t(2) by simp
      have moved: "?e = (if k = n_parent ex then swap_child ?x ?y (n_leaf ey)
          (node_height (set_child lft ?x (n_leaf ex) (node_height (hand_over lft (n_avl ey) (n_avl ex))) (n_avl ey))) e else e)"
        using False ky nk by (simp add: rot_map_def rot_moved_def Let_def tk_def)
      have f: "n_leaf ?e = lf" "n_parent ?e = p" "avl_data (n_avl ?e) = v" using t(6-8) by (simp_all add: moved)
      have ptr: "r_key (n_avl ?e) = (if r_key (n_avl e) = ?x then ?y else r_key (n_avl e))"
        "r_leaf (n_avl ?e) = (if r_key (n_avl e) = ?x then n_leaf ey else r_leaf (n_avl e))"
        "l_key (n_avl ?e) = l_key (n_avl e)" "l_leaf (n_avl ?e) = l_leaf (n_avl e)"
        unfolding moved using parent [OF fr] lx by (auto simp: swap_child_def set_child_def)
      have "flat m vs ?L p k lf (Node l (k, v) r2)"
        unfolding flat_simps Lk option.case using t(3-5) f ptr r2(1) l2 by simp
      moreover have "inorder (Node l (k, v) r2) = inorder (Node l kv r)" using eq r2(2) by simp
      ultimately show ?thesis unfolding if_not_P [OF False] by blast
    qed
  qed
qed simp

section \<open>Rebalancing\<close>

text \<open>The local nodes with the root key \<open>rk\<close> stand for a tree that lists \<open>kvs\<close>.\<close>

definition local_inv ::
  "(i32 \<rightharpoonup> i32 \<times> bytes) \<Rightarrow> (bytes \<Rightarrow> bool) \<Rightarrow> (i32 \<times> bytes) list \<Rightarrow> i32 list \<Rightarrow> local_node list \<times> i32 \<Rightarrow> bool" where
  "local_inv m vs kvs ks lr \<longleftrightarrow>
     map n_key (fst lr) = ks \<and> distinct ks \<and> INVALID_KEY \<notin> set ks \<and> set ks \<subseteq> fst ` set kvs \<and> distinct (map fst kvs)
     \<and> (\<exists>rl t. flat m vs (local_of (fst lr)) INVALID_KEY (snd lr) rl t \<and> inorder t = kvs)"

lemma local_inv_length: "local_inv m vs kvs ks lr \<Longrightarrow> length (fst lr) = length ks"
  by (auto simp: local_inv_def)

lemma rotate_inv:
  assumes inv: "local_inv m vs kvs ks lr" and idx: "idx < length ks"
  shows "local_inv m vs kvs ks (av_rotate idx lft lr)"
proof -
  obtain loc rk where lr: "lr = (loc, rk)" by fastforce
  let ?L = "local_of loc" and ?ex = "loc ! idx"
  have dk: "map n_key loc = ks" "distinct ks" "INVALID_KEY \<notin> set ks" "set ks \<subseteq> fst ` set kvs" "distinct (map fst kvs)"
    using inv by (simp_all add: local_inv_def lr)
  obtain rl t where t: "flat m vs ?L INVALID_KEY rk rl t" "inorder t = kvs"
    using inv by (auto simp: local_inv_def lr)
  have dist: "distinct (map n_key loc)" and il: "idx < length loc" using dk idx by (simp_all flip: dk(1))
  have td: "tree_distinct t" using dk(5) t(2) by (simp add: tree_distinct_def)
  have kt: "keys_of t = fst ` set kvs" using t(2) by (simp add: keys_of_def flip: set_inorder)
  have dom: "INVALID_KEY \<notin> dom ?L" using dk(1,3) by (simp add: dom_local_of flip: dk(1))
  have L: "n_key e = z" if "?L z = Some e" for z e using local_of_Some [OF that] by simp
  have ex: "?L (n_key ?ex) = Some ?ex" using local_of_iff [OF dist] il by simp
  have xin: "n_key ?ex \<in> keys_of t"
  proof -
    have "n_key ?ex \<in> set ks" using il by (simp flip: dk(1))
    then show ?thesis using dk(4) kt by blast
  qed
  have ninv: "INVALID_KEY \<notin> keys_of t" using mixed_keys [OF t(1) [unfolded flat_def]] by auto
  show ?thesis
  proof (cases "local_index (if lft then r_key (n_avl ?ex) else l_key (n_avl ?ex)) loc")
    case None
    then have "av_rotate idx lft lr = lr" by (simp add: av_rotate_def lr Let_def)
    then show ?thesis using inv by simp
  next
    case (Some pj)
    let ?ey = "loc ! pj"
    note lp = local_index_Some [OF Some]
    have ey: "?L (n_key ?ey) = Some ?ey" using local_of_iff [OF dist] lp by simp
    have y: "n_key ?ey = (if lft then r_key (n_avl ?ex) else l_key (n_avl ?ex))" using lp by simp
    have yi: "n_key ?ey \<noteq> INVALID_KEY" using ey dom by auto
    have xi: "n_key ?ex \<noteq> INVALID_KEY" using ex dom by auto
    have px: "n_parent ?ex \<noteq> n_key ?ex" "n_parent ?ex \<noteq> n_key ?ey"
      using flat_parent_above [OF t(1) xin ex td ninv, of "n_key ?ex"] flat_parent_above [OF t(1) xin ex td ninv, of "n_key ?ey"]
        xi yi y by (auto split: if_splits)
    have xy: "n_key ?ey \<noteq> n_key ?ex"
    proof
      assume eq: "n_key ?ey = n_key ?ex"
      have "flat m vs ?L p k lf s \<Longrightarrow> n_key ?ex \<in> keys_of s \<Longrightarrow> tree_distinct s \<Longrightarrow> False" for p k lf s
      proof (induction s arbitrary: p k lf)
        case (Node l kv r)
        from Node.prems(1,2) ex obtain l' v r' e where n: "Node l kv r = Node l' (k, v) r'" "?L k = Some e"
          "flat m vs ?L k (l_key (n_avl e)) (l_leaf (n_avl e)) l'" "flat m vs ?L k (r_key (n_avl e)) (r_leaf (n_avl e)) r'"
          by (rule flat_local)
        then have e: "l' = l" "r' = r" "kv = (k, v)" by simp_all
        consider "n_key ?ex = k" | "n_key ?ex \<in> keys_of l" | "n_key ?ex \<in> keys_of r" using Node.prems(2) e by auto
        then show ?case
        proof cases
          case 1
          then have "e = ?ex" using n(2) ex by simp
          then show ?thesis
            using flat_root [OF n(3)] flat_root [OF n(4)] Node.prems(3) e y eq 1 xi by (auto split: if_splits)
        next
          case 2
          then show ?thesis using Node.IH(1) [OF n(3) [unfolded e]] Node.prems(3) e by auto
        next
          case 3
          then show ?thesis using Node.IH(2) [OF n(4) [unfolded e]] Node.prems(3) e by auto
        qed
      qed simp
      then show False using t(1) xin td by blast
    qed
    have run: "av_rotate idx lft lr = (map (rot_map lft ?ex ?ey) loc, if rk = n_key ?ex then n_key ?ey else rk)"
      unfolding lr by (rule av_rotate_map [OF dist il Some px xy])
    obtain t' where t': "flat m vs (map_option (rot_map lft ?ex ?ey) \<circ> ?L) INVALID_KEY (if rk = n_key ?ex then n_key ?ey else rk)
        (if rk = n_key ?ex then n_leaf ?ey else rl) t'" "inorder t' = inorder t"
      using flat_rotate [OF t(1) td dom L ex ey xin y] by blast
    have "map n_key (map (rot_map lft ?ex ?ey) loc) = ks" using dk(1) by (simp add: comp_def)
    moreover have "inorder t' = kvs" using t'(2) t(2) by simp
    ultimately show ?thesis
      unfolding local_inv_def run fst_conv snd_conv local_of_map [of "rot_map lft ?ex ?ey", OF rot_map_key]
      using dk(2-5) t'(1) by blast
  qed
qed

text \<open>Reporting heights changes no pointer.\<close>

lemma flat_same:
  assumes "flat m vs L p k lf t" "\<And>z e. L z = Some e \<Longrightarrow> \<exists>e'. L' z = Some e' \<and> same_entry e e'" "dom L' = dom L"
  shows "flat m vs L' p k lf t"
  using assms(1)
proof (induction t arbitrary: p k lf)
  case (Node l kv r)
  obtain k' v where kv: "kv = (k', v)" by fastforce
  show ?case
  proof (cases "L k")
    case None
    then have "L' k = None" using assms(3) by (metis domIff)
    then show ?thesis using Node.prems None assms(3) by (simp add: kv flat_simps del: tree_at.simps)
  next
    case (Some e)
    then obtain e' where e': "L' k = Some e'" "same_entry e e'" using assms(2) by blast
    have n: "k = k'" "k \<noteq> INVALID_KEY" "vs v" "m k = None" "n_leaf e = lf" "n_parent e = p" "avl_data (n_avl e) = v"
      "flat m vs L k (l_key (n_avl e)) (l_leaf (n_avl e)) l" "flat m vs L k (r_key (n_avl e)) (r_leaf (n_avl e)) r"
      using Node.prems Some by (auto simp: kv flat_simps)
    show ?thesis
      using n e' Node.IH(1) [OF n(8)] Node.IH(2) [OF n(9)] by (simp add: kv flat_simps same_entry_def)
  qed
qed (simp add: flat_simps)

lemma local_inv_same:
  assumes "local_inv m vs kvs ks (loc, rk)" "list_all2 same_entry loc loc'"
  shows "local_inv m vs kvs ks (loc', rk)"
proof -
  have keys: "map n_key loc' = map n_key loc"
    using assms(2) by (induction rule: list_all2_induct) (simp_all add: same_entry_def)
  have look: "\<exists>e'. local_of loc' z = Some e' \<and> same_entry e e'" if "local_of loc z = Some e" for z e
    using assms(2) that
    by (induction rule: list_all2_induct) (auto simp: local_of_def same_entry_def split: if_splits)
  have "dom (local_of loc') = dom (local_of loc)" unfolding dom_local_of by (metis keys list.set_map)
  with assms(1) show ?thesis
    unfolding local_inv_def fst_conv snd_conv keys by (blast intro: flat_same look)
qed

lemma same_entry_list_trans [trans]:
  "list_all2 same_entry a b \<Longrightarrow> list_all2 same_entry b c \<Longrightarrow> list_all2 same_entry a c"
  by (rule list_all2_trans [of same_entry same_entry same_entry]) (auto intro: same_entry_trans)

lemma same_entry_list_refl: "list_all2 same_entry loc loc"
  by (simp add: list_all2_refl)

lemma upd_avl_same:
  assumes "\<And>a. avl_data (f a) = avl_data a \<and> l_key (f a) = l_key a \<and> l_leaf (f a) = l_leaf a \<and> r_key (f a) = r_key a \<and> r_leaf (f a) = r_leaf a"
  shows "list_all2 same_entry loc (upd_avl i f loc)"
proof (rule list_all2_all_nthI)
  fix n assume "n < length loc"
  then show "same_entry (loc ! n) (upd_avl i f loc ! n)"
    using assms by (cases "n = i") (simp_all add: upd_avl_def same_entry_def)
qed (simp add: upd_avl_def)

lemma report_same: "list_all2 same_entry loc (av_report i j loc)"
proof -
  have 1: "list_all2 same_entry l (if P then upd_avl i (\<lambda>a. a\<lparr>l_height := h\<rparr>) l else l)" for P h l
    by (simp add: upd_avl_same same_entry_list_refl)
  have 2: "list_all2 same_entry l (if P then upd_avl i (\<lambda>a. a\<lparr>r_height := h\<rparr>) l else l)" for P h l
    by (simp add: upd_avl_same same_entry_list_refl)
  show ?thesis unfolding av_report_def Let_def by (rule same_entry_list_trans [OF 1 2])
qed

lemma fold_same:
  "(\<And>x l. list_all2 same_entry l (f x l)) \<Longrightarrow> list_all2 same_entry loc (fold f xs loc)"
  by (induction xs arbitrary: loc) (auto intro: same_entry_list_refl same_entry_list_trans)

lemma update_heights_same: "list_all2 same_entry loc (av_update_heights loc)"
  unfolding av_update_heights_def by (intro fold_same report_same)

lemma update_heights_inv: "local_inv m vs kvs ks (loc, rk) \<Longrightarrow> local_inv m vs kvs ks (av_update_heights loc, rk)"
  by (rule local_inv_same [OF _ update_heights_same])

lemma inner_index_less: "inner_index k neg loc = Some i \<Longrightarrow> i < length loc"
  by (induction loc arbitrary: i) (auto split: if_splits)

lemma balance_node_inv:
  assumes inv: "local_inv m vs kvs ks lr" and idx: "idx < length ks"
  shows "local_inv m vs kvs ks (av_balance_node idx lr)"
proof -
  obtain loc rk where lr: "lr = (loc, rk)" by fastforce
  have len: "length loc = length ks" using local_inv_length [OF inv] lr by simp
  have one: "local_inv m vs kvs ks (case inner_index k neg loc of None \<Rightarrow> (loc, rk) | Some i \<Rightarrow> av_rotate i lft (loc, rk))" for k neg lft
    using inv lr rotate_inv [OF inv] inner_index_less [of k neg loc] len by (simp split: option.split)
  show ?thesis
    unfolding av_balance_node_def lr prod.case Let_def
    using rotate_inv [OF one idx] inv lr by simp
qed

lemma rebalance_inv:
  assumes "local_inv m vs kvs ks lr"
  shows "local_inv m vs kvs ks (av_rebalance lr)"
proof -
  let ?f = "\<lambda>i (loc, rk). av_balance_node i (av_update_heights loc, rk)"
  have "local_inv m vs kvs ks (fold ?f is lr)" if "\<forall>i\<in>set is. i < length ks" for "is"
    using assms that
  proof (induction "is" arbitrary: lr)
    case (Cons i js)
    obtain loc rk where lr: "lr = (loc, rk)" by fastforce
    have "local_inv m vs kvs ks (?f i lr)"
      unfolding lr prod.case by (rule balance_node_inv [OF update_heights_inv]) (use Cons.prems lr in auto)
    then show ?case using Cons.IH Cons.prems(2) by simp
  qed simp
  then have "local_inv m vs kvs ks (fold ?f (rev [0..<length (fst lr)]) lr)"
    using local_inv_length [OF assms] by simp
  then show ?thesis unfolding av_rebalance_def by (auto split: prod.split intro: update_heights_inv)
qed

end
