(* ===== verification/Avl_Insert_Correct.thy ===== *)
theory Avl_Insert_Correct
  imports Avl_Omap_Correct Avl_Rotations
begin

text \<open>
  Insertion into the map with one ORAM: the way down ends at the empty place of the new key, the new leaf
  is linked there, and rebalancing the local nodes keeps the in-order listing.
\<close>

section \<open>Insertion into a tree\<close>

fun ins :: "i32 \<Rightarrow> bytes \<Rightarrow> kv_tree \<Rightarrow> kv_tree" where
  "ins x v Leaf = Node Leaf (x, v) Leaf"
| "ins x v (Node l (k, w) r) = (if sint x < sint k then Node (ins x v l) (k, w) r else Node l (k, w) (ins x v r))"

lemma ins_not_Leaf [simp]: "ins x v t \<noteq> Leaf"
proof (cases t)
  case (Node l kw r)
  then show ?thesis by (cases kw) simp
qed simp

lemma keys_ins [simp]: "keys_of (ins x v t) = insert x (keys_of t)"
  by (induction x v t rule: ins.induct) auto

lemma key_ordered_ins: "key_ordered t \<Longrightarrow> x \<notin> keys_of t \<Longrightarrow> 0 \<le> sint x \<Longrightarrow> key_ordered (ins x v t)"
proof (induction x v t rule: ins.induct)
  case (2 x v l k w r)
  moreover have "sint x \<noteq> sint k" using 2(4) by (auto dest: signed_word_eqI)
  ultimately show ?case by auto
qed simp

lemma tree_map_ins:
  "key_ordered t \<Longrightarrow> x \<notin> keys_of t \<Longrightarrow> 0 \<le> sint x \<Longrightarrow> tree_map (ins x v t) = (tree_map t)(x \<mapsto> v)"
proof (induction x v t rule: ins.induct)
  case (1 x v)
  then show ?case by (simp add: tree_map_def)
next
  case (2 x v l k w r)
  have o: "key_ordered (ins x v (Node l (k, w) r))" by (rule key_ordered_ins [OF 2(3-5)])
  note t = tree_map_Node [OF 2(3)]
  show ?case
  proof (cases "sint x < sint k")
    case True
    then show ?thesis
      using o 2 t tree_map_Node [of "ins x v l" k w r] by (auto simp: fun_eq_iff)
  next
    case False
    moreover have "sint x \<noteq> sint k" using 2(4) by (auto dest: signed_word_eqI)
    ultimately have "sint k < sint x" by simp
    then show ?thesis
      using o 2 t tree_map_Node [of l k w "ins x v r"] False by (auto simp: fun_eq_iff)
  qed
qed

lemma inorder_ins:
  assumes "key_ordered t" "x \<notin> keys_of t"
  shows "inorder (ins x v t) = insort_key (\<lambda>e. sint (fst e)) (x, v) (inorder t)"
proof -
  have before: "insort_key f y (as @ b # bs) = insort_key f y as @ b # bs" if "f y < f b" "sorted (map f (as @ b # bs))"
    for f :: "i32 \<times> bytes \<Rightarrow> int" and y b as bs
    using that by (induction as) auto
  have after: "insort_key f y (as @ bs) = as @ insort_key f y bs" if "\<forall>a\<in>set as. f a < f y"
    for f :: "i32 \<times> bytes \<Rightarrow> int" and y as bs
    using that by (induction as) auto
  show ?thesis
    using assms
  proof (induction x v t rule: ins.induct)
    case (2 x v l k w r)
    have o: "sorted (map (\<lambda>e. sint (fst e)) (inorder l @ (k, w) # inorder r))"
      using 2(3) unfolding key_ordered_def by (auto simp: comp_def strict_sorted_iff simp del: sorted_append)
    have l: "\<forall>a\<in>set (inorder l @ [(k, w)]). (\<lambda>e. sint (fst e)) a < (\<lambda>e. sint (fst e)) (x, v)" if "\<not> sint x < sint k"
    proof -
      have "sint k \<noteq> sint x" using 2(4) by (auto dest: signed_word_eqI)
      then have "sint k < sint x" using that by simp
      moreover have "\<forall>a\<in>set (inorder l). sint (fst a) < sint k" using 2(3) by (auto simp: keys_of_def)
      ultimately show ?thesis by auto
    qed
    show ?case
      using 2 before [of "\<lambda>e. sint (fst e)" "(x, v)" "(k, w)" "inorder l" "inorder r"] o
        after [of "inorder l @ [(k, w)]" "\<lambda>e. sint (fst e)" "(x, v)" "inorder r"] l
      by (cases "sint x < sint k") auto
  qed simp
qed

section \<open>The way to the empty place\<close>

text \<open>A chain that turns at every node as a search for \<open>x\<close> does.\<close>

fun towards ::
  "i32 \<Rightarrow> node_view \<Rightarrow> (bytes \<Rightarrow> bool) \<Rightarrow> nat \<Rightarrow> local_node list \<Rightarrow> i32 \<Rightarrow> i32 \<Rightarrow> i32 \<Rightarrow> kv_tree \<Rightarrow> i32 \<Rightarrow> i32 \<Rightarrow> kv_tree \<Rightarrow> bool" where
  "towards x om vs d [] p k lf t hk hl h \<longleftrightarrow> k = hk \<and> lf = hl \<and> t = h \<and> tree_at om vs d k lf t"
| "towards x om vs d (e # es) p k lf Leaf hk hl h \<longleftrightarrow> False"
| "towards x om vs d (e # es) p k lf (Node l (k', v) r) hk hl h \<longleftrightarrow>
     k = k' \<and> k \<noteq> INVALID_KEY \<and> vs v \<and> om d k = None
     \<and> n_key e = k \<and> n_leaf e = lf \<and> n_parent e = p \<and> n_depth e = of_nat d \<and> avl_data (n_avl e) = v
     \<and> (if sint x < sint k
        then towards x om vs (Suc d) es k (l_key (n_avl e)) (l_leaf (n_avl e)) l hk hl h
          \<and> tree_at om vs (Suc d) (r_key (n_avl e)) (r_leaf (n_avl e)) r
        else tree_at om vs (Suc d) (l_key (n_avl e)) (l_leaf (n_avl e)) l
          \<and> towards x om vs (Suc d) es k (r_key (n_avl e)) (r_leaf (n_avl e)) r hk hl h)"

lemma towards_chain: "towards x om vs d es p k lf t hk hl h \<Longrightarrow> chain om vs d es p k lf t hk hl h"
  by (induction x om vs d es p k lf t hk hl h rule: towards.induct) (auto split: if_splits)

lemma towards_cases [consumes 1, case_names node]:
  assumes "towards x om vs d (e # es) p k lf t hk hl h"
  obtains (node) l v r where "t = Node l (k, v) r" "k \<noteq> INVALID_KEY" "vs v" "om d k = None" "n_key e = k" "n_leaf e = lf"
    "n_parent e = p" "n_depth e = of_nat d" "avl_data (n_avl e) = v"
    "if sint x < sint k
     then towards x om vs (Suc d) es k (l_key (n_avl e)) (l_leaf (n_avl e)) l hk hl h
          \<and> tree_at om vs (Suc d) (r_key (n_avl e)) (r_leaf (n_avl e)) r
     else tree_at om vs (Suc d) (l_key (n_avl e)) (l_leaf (n_avl e)) l
          \<and> towards x om vs (Suc d) es k (r_key (n_avl e)) (r_leaf (n_avl e)) r hk hl h"
proof (cases t)
  case (Node l kv r)
  obtain k' v where kv: "kv = (k', v)" by fastforce
  then show ?thesis using assms unfolding Node kv towards.simps by (elim conjE, intro that) (simp_all add: Node kv)
qed (use assms in simp)

lemma towards_fetch:
  assumes "towards x om vs d es p k lf t hk hl (Node l (hk, v) r)" "tree_distinct t"
    and "om (d + length es) hk = Some (hl, encode_node nd)"
    and frame: "\<And>j x. x \<noteq> hk \<Longrightarrow> om' j x = om j x" "om' (d + length es) hk = None"
    and e: "n_key e = hk" "n_leaf e = hl" "n_avl e = nd" "n_depth e = of_nat (d + length es)"
      "n_parent e = (if es = [] then p else n_key (last es))"
  shows "if sint x < sint hk then towards x om' vs d (es @ [e]) p k lf t (l_key nd) (l_leaf nd) l
    else towards x om' vs d (es @ [e]) p k lf t (r_key nd) (r_leaf nd) r"
  using assms(1-3) frame e
proof (induction es arbitrary: d p k lf t)
  case Nil
  then have h: "t = Node l (hk, v) r" "k = hk" "lf = hl" "hk \<noteq> INVALID_KEY" "vs v" "avl_data nd = v"
    "tree_at om vs (Suc d) (l_key nd) (l_leaf nd) l" "tree_at om vs (Suc d) (r_key nd) (r_leaf nd) r"
    by auto
  then have "hk \<notin> keys_of l" "hk \<notin> keys_of r" using Nil.prems(2) by auto
  then have "tree_at om' vs (Suc d) (l_key nd) (l_leaf nd) l \<and> tree_at om' vs (Suc d) (r_key nd) (r_leaf nd) r"
    using Nil.prems(4) by (metis h(7,8) tree_at_cong)
  then show ?case using h Nil.prems by simp
next
  case (Cons a es)
  have hole: "hk \<in> keys_of (Node l (hk, v) r)" by simp
  have last: "n_parent e = (if es = [] then n_key a else n_key (last es))"
    using Cons.prems(10) by simp
  have keep: "tree_at om' vs j k2 lf2 s" if "tree_at om vs j k2 lf2 s" "hk \<notin> keys_of s" for j k2 lf2 s
    by (rule tree_at_cong [OF that(1)]) (use that(2) Cons.prems(4) in metis)
  from Cons.prems(1) show ?case
  proof (cases rule: towards_cases)
    case (node tl y tr)
    show ?thesis
    proof (cases "sint x < sint k")
      case True
      with node have c: "towards x om vs (Suc d) es k (l_key (n_avl a)) (l_leaf (n_avl a)) tl hk hl (Node l (hk, v) r)"
        "tree_at om vs (Suc d) (r_key (n_avl a)) (r_leaf (n_avl a)) tr" by simp_all
      have "hk \<in> keys_of tl" using chain_keys [OF towards_chain [OF c(1)]] hole by blast
      then have out: "hk \<noteq> k" "hk \<notin> keys_of tr" "tree_distinct tl" using Cons.prems(2) node(1) by auto
      note IH = Cons.IH [OF c(1) out(3)]
      show ?thesis
        using IH keep [OF c(2) out(2)] Cons.prems(3-9) last node out True by simp
    next
      case False
      with node have c: "towards x om vs (Suc d) es k (r_key (n_avl a)) (r_leaf (n_avl a)) tr hk hl (Node l (hk, v) r)"
        "tree_at om vs (Suc d) (l_key (n_avl a)) (l_leaf (n_avl a)) tl" by simp_all
      have "hk \<in> keys_of tr" using chain_keys [OF towards_chain [OF c(1)]] hole by blast
      then have out: "hk \<noteq> k" "hk \<notin> keys_of tl" "tree_distinct tr" using Cons.prems(2) node(1) by auto
      note IH = Cons.IH [OF c(1) out(3)]
      show ?thesis
        using IH keep [OF c(2) out(2)] Cons.prems(3-9) last node out False by simp
    qed
  qed
qed

section \<open>Linking the new leaf\<close>

text \<open>\<open>c\<close> becomes a child of the last node of the chain; all other local nodes are those of the chain.\<close>

lemma towards_attach:
  assumes "towards x (\<lambda>_. m) vs d es p k lf t INVALID_KEY hl Leaf" "es \<noteq> []" "tree_distinct t" "x \<notin> keys_of t"
    and c: "L x = Some c" "n_parent c = n_key (last es)" "n_avl c = new_avl_node v" "x \<noteq> INVALID_KEY" "vs v" "m x = None"
    and L: "\<forall>e\<in>set (butlast es). L (n_key e) = Some e"
      "L (n_key (last es)) =
         Some ((last es)\<lparr>n_avl := set_child (sint x < sint (n_key (last es))) x (n_leaf c) 1 (n_avl (last es))\<rparr>)"
      "keys_of t \<inter> dom L \<subseteq> n_key ` set es" and inv: "INVALID_KEY \<notin> dom L"
  shows "flat m vs L p k lf (ins x v t)"
  using assms(1-4) c(2) L
proof (induction es arbitrary: d p k lf t)
  case (Cons e es)
  have other: "flat m vs L p2 k2 lf2 s" if "tree_at (\<lambda>_. m) vs d2 k2 lf2 s" "keys_of s \<inter> dom L = {}" for p2 k2 lf2 s d2
    unfolding mixed_flat [where d = d2, symmetric] by (rule tree_at_mixed [OF that])
  have new: "flat m vs L p2 x (n_leaf c) (Node Leaf (x, v) Leaf)" if "n_parent c = p2" for p2
    using c that by (simp add: flat_simps new_avl_node_def)
  from Cons.prems(1) show ?case
  proof (cases rule: towards_cases)
    case (node l w r)
    have td: "tree_distinct l" "tree_distinct r" "k \<notin> keys_of l" "k \<notin> keys_of r" "keys_of l \<inter> keys_of r = {}"
      using Cons.prems(3) node(1) by auto
    have xn: "x \<notin> keys_of l" "x \<notin> keys_of r" "x \<noteq> k" using Cons.prems(4) node(1) by auto
    have dl: "(keys_of l \<union> keys_of r) \<inter> dom L \<subseteq> n_key ` set es"
      using Cons.prems(8) node(1,5) td(3,4) by auto
    show ?thesis
    proof (cases "es = []")
      case True
      then have no: "keys_of l \<inter> dom L = {}" "keys_of r \<inter> dom L = {}" using dl by auto
      have Lk: "L k = Some (e\<lparr>n_avl := set_child (sint x < sint k) x (n_leaf c) 1 (n_avl e)\<rparr>)" "n_parent c = k"
        using Cons.prems(7,5) True node(5) by simp_all
      show ?thesis
      proof (cases "sint x < sint k")
        case left: True
        with node(10) True have l: "l = Leaf" and r: "tree_at (\<lambda>_. m) vs (Suc d) (r_key (n_avl e)) (r_leaf (n_avl e)) r" by auto
        show ?thesis
          using node(1-9) Lk left new [OF Lk(2)] other [OF r no(2)] by (simp add: flat_simps(2) set_child_def l)
      next
        case right: False
        with node(10) True have r: "r = Leaf" and l: "tree_at (\<lambda>_. m) vs (Suc d) (l_key (n_avl e)) (l_leaf (n_avl e)) l" by auto
        show ?thesis
          using node(1-9) Lk right new [OF Lk(2)] other [OF l no(1)] by (simp add: flat_simps(2) set_child_def r)
      qed
    next
      case False
      have Lk: "L k = Some e" using Cons.prems(6) node(5) False by simp
      have rest: "\<forall>e\<in>set (butlast es). L (n_key e) = Some e" "n_parent c = n_key (last es)"
        "L (n_key (last es)) = Some ((last es)\<lparr>n_avl := set_child (sint x < sint (n_key (last es))) x (n_leaf c) 1 (n_avl (last es))\<rparr>)"
        using Cons.prems(5-7) False by simp_all
      show ?thesis
      proof (cases "sint x < sint k")
        case left: True
        with node have ch: "towards x (\<lambda>_. m) vs (Suc d) es k (l_key (n_avl e)) (l_leaf (n_avl e)) l INVALID_KEY hl Leaf"
          "tree_at (\<lambda>_. m) vs (Suc d) (r_key (n_avl e)) (r_leaf (n_avl e)) r" by simp_all
        have "n_key ` set es \<subseteq> keys_of l" using chain_keys [OF towards_chain [OF ch(1)]] by blast
        then have "keys_of r \<inter> dom L = {}" "keys_of l \<inter> dom L \<subseteq> n_key ` set es" using dl td(5) by blast+
        note o = other [OF ch(2) this(1)] and IH = Cons.IH [OF ch(1) False td(1) xn(1) rest(2,1,3) this(2)]
        show ?thesis using node Lk left o IH by (simp add: flat_simps(2))
      next
        case right: False
        with node have ch: "towards x (\<lambda>_. m) vs (Suc d) es k (r_key (n_avl e)) (r_leaf (n_avl e)) r INVALID_KEY hl Leaf"
          "tree_at (\<lambda>_. m) vs (Suc d) (l_key (n_avl e)) (l_leaf (n_avl e)) l" by simp_all
        have "n_key ` set es \<subseteq> keys_of r" using chain_keys [OF towards_chain [OF ch(1)]] by blast
        then have "keys_of l \<inter> dom L = {}" "keys_of r \<inter> dom L \<subseteq> n_key ` set es" using dl td(5) by blast+
        note o = other [OF ch(2) this(1)] and IH = Cons.IH [OF ch(1) False td(2) xn(2) rest(2,1,3) this(2)]
        show ?thesis using node Lk right o IH by (simp add: flat_simps(2))
      qed
    qed
  qed
qed simp


section \<open>The operation\<close>

definition grown ::
  "crypto \<Rightarrow> ('s \<Rightarrow> bool) \<Rightarrow> ('s \<Rightarrow> int \<Rightarrow> block list) \<Rightarrow> 's storage_ops \<Rightarrow> kv_tree \<Rightarrow> 's avl_omap \<Rightarrow> 's avl_omap \<Rightarrow> bool" where
  "grown cr ok bucket ops tree t0 t \<longleftrightarrow>
     av_conf t0 t \<and> av_local t \<noteq> []
     \<and> (\<exists>mu ml. av_ok cr ok bucket ops t mu ml \<and> only_keys (\<lambda>_. ml) tree
          \<and> local_inv ml node_fits (inorder tree) (map n_key (av_local t)) (av_local t, av_root_key t))"

lemma grown_trans: "av_conf t0 t1 \<Longrightarrow> grown cr ok bucket ops tree t1 t \<Longrightarrow> grown cr ok bucket ops tree t0 t"
  unfolding grown_def using av_conf_trans by blast

lemma set_keys_inorder: "fst ` set (inorder t) = keys_of t"
  by (simp add: keys_of_def)

lemma grown_rebalance:
  assumes "grown cr ok bucket ops tree t0 t"
  shows "grown cr ok bucket ops tree t0 (av_rebalance_local t)"
proof -
  obtain mu ml where g: "av_conf t0 t" "av_local t \<noteq> []" "av_ok cr ok bucket ops t mu ml" "only_keys (\<lambda>_. ml) tree"
    "local_inv ml node_fits (inorder tree) (map n_key (av_local t)) (av_local t, av_root_key t)"
    using assms unfolding grown_def by blast
  obtain loc rk where lr: "av_rebalance (av_update_heights (av_local t), av_root_key t) = (loc, rk)" by fastforce
  have inv: "local_inv ml node_fits (inorder tree) (map n_key (av_local t)) (loc, rk)"
    unfolding lr [symmetric] by (rule rebalance_inv [OF update_heights_inv [OF g(5)]])
  then have keys: "map n_key loc = map n_key (av_local t)" by (simp add: local_inv_def)
  let ?t = "t\<lparr>av_local := loc, av_root_key := rk\<rparr>"
  have run: "av_rebalance_local t = ?t" by (simp add: av_rebalance_local_def lr)
  have "av_conf t0 ?t" "av_ok cr ok bucket ops ?t mu ml" using g(1,3) by (simp_all add: av_conf_def av_ok_def)
  moreover have "loc \<noteq> []" using keys g(2) by (cases loc) simp_all
  moreover have "local_inv ml node_fits (inorder tree) (map n_key (av_local ?t)) (av_local ?t, av_root_key ?t)"
    using inv keys by simp
  ultimately show ?thesis unfolding run grown_def using g(4) by (simp, blast)
qed

context bucket_storage
begin

text \<open>The new leaf of a key is drawn from the tree it goes to; the position map does not matter.\<close>

lemma attach_spec:
  assumes ok: "av_ok (oe_crypto E) inv bucket ops t mu ml"
    and d: "av_local t \<noteq> []"
  shows "\<exists>t' r' lf. av_attach ops x v lft (length (av_local t) - 1) depth t r = Inr (t', r')
    \<and> av_ok (oe_crypto E) inv bucket ops t' mu ml \<and> av_conf t t' \<and> av_root_key t' = av_root_key t
    \<and> av_local t' = butlast (av_local t)
        @ [(last (av_local t))\<lparr>n_avl := set_child lft x lf 1 (n_avl (last (av_local t)))\<rparr>,
           \<lparr>n_key = x, n_leaf = lf, n_avl = new_avl_node v, n_parent = n_key (last (av_local t)), n_depth = depth\<rparr>]"
proof -
  let ?p = "av_oram_for_depth t depth" and ?e = "last (av_local t)"
  have st: "po_state (oe_crypto E) inv bucket ops {} ?p (av_map_at t mu ml depth)" by (rule av_ok_at [OF ok])
  obtain lf r1 where lf: "po_random_leaf ops ?p r = Inr (lf, r1)" by (rule random_leaf_valid [OF st])
  let ?t1 = "av_set_oram depth (po_set_leaf x lf ?p) t"
  let ?loc = "upd_avl (length (av_local t) - 1) (set_child lft x lf 1) (av_local t)"
  have ok1: "av_ok (oe_crypto E) inv bucket ops ?t1 mu ml"
    by (rule av_ok_set [OF ok, where m = "av_map_at t mu ml depth"]) (use st in \<open>simp_all add: put_map_def av_map_at_def\<close>)
  have loc: "?loc = butlast (av_local t) @ [?e\<lparr>n_avl := set_child lft x lf 1 (n_avl ?e)\<rparr>]"
  proof -
    have "av_local t = butlast (av_local t) @ [?e]" using d by simp
    then obtain es where es: "av_local t = es @ [?e]" "es = butlast (av_local t)" by blast
    have "upd_avl (length (es @ [?e]) - 1) (set_child lft x lf 1) (es @ [?e]) =
        es @ [?e\<lparr>n_avl := set_child lft x lf 1 (n_avl ?e)\<rparr>]" by (simp add: upd_avl_def)
    then show ?thesis by (metis es length_append_singleton diff_Suc_1)
  qed
  have key: "n_key (?loc ! (length (av_local t) - 1)) = n_key ?e"
    unfolding loc by (simp add: nth_append)
  show ?thesis
    unfolding av_attach_def lf bind_result_simps prod.case Let_def
    by (intro exI [of _ "?t1\<lparr>av_local := ?loc @ [\<lparr>n_key = x, n_leaf = lf, n_avl = new_avl_node v,
          n_parent = n_key (?loc ! (length (av_local t) - 1)), n_depth = depth\<rparr>]\<rparr>"] exI [of _ r1] exI [of _ lf])
      (use ok1 loc key in \<open>simp add: av_ok_def av_conf_def\<close>)
qed

lemma insert_descend_spec:
  assumes E: "good_env E" and ord: "key_ordered tree" and x: "x \<notin> keys_of tree" "x \<noteq> INVALID_KEY" "0 \<le> sint x"
    and fits: "node_fits v" and "av_split_depth t \<le> 0" "av_ok (oe_crypto E) inv bucket ops t mu ml"
    and "towards x (\<lambda>_. ml) node_fits 0 (av_local t) INVALID_KEY (av_root_key t) rl tree hk hl h"
    and "length (av_local t) = d" "h \<noteq> Leaf" "height h \<le> n" "only_keys (\<lambda>_. ml) tree"
  shows "safe_run (av_insert_descend E ops x v n d hk hl t r) (\<lambda>(t', r').
      grown (oe_crypto E) inv bucket ops (ins x v tree) t t')"
  using assms(7-)
proof (induction n arbitrary: t mu ml d hk hl h r)
  case (Suc n)
  have dist: "tree_distinct tree" by (rule key_ordered_distinct [OF ord])
  note ch = towards_chain [OF Suc.prems(3)]
  have view: "av_view t2 mu2 ml2 = (\<lambda>_. ml2)" if "av_split_depth t2 \<le> 0" for t2 :: "'s avl_omap" and mu2 ml2
    using that by (simp add: av_view_def av_map_at_def av_is_upper_def fun_eq_iff)
  have hole: "tree_at (\<lambda>_. ml) node_fits d hk hl h" using chain_keys [OF ch] Suc.prems(4) by simp
  obtain l kv y where "h = Node l kv y" using Suc.prems(5) by (cases h) auto
  then obtain v0 nd where hn: "h = Node l (hk, v0) y" and nd: "ml hk = Some (hl, encode_node nd)" "hk \<noteq> INVALID_KEY"
    using hole by (cases kv) auto
  have ndv: "av_view t mu ml d hk = Some (hl, encode_node nd)" using nd(1) view [OF Suc.prems(1)] by simp
  let ?e = "\<lparr>n_key = hk, n_leaf = hl, n_avl = nd, n_parent = last_key (av_local t), n_depth = of_nat d\<rparr>"
  show ?case
    unfolding av_insert_descend.simps if_not_P [OF nd(2)]
  proof (rule safe_run_bind [OF move_to_local_spec [OF E Suc.prems(2) ndv]], clarify)
    fix t1 r1 mu1 ml1
    assume m: "av_ok (oe_crypto E) inv bucket ops t1 mu1 ml1" "av_conf t t1"
      "av_root_key t1 = av_root_key t" "av_root_leaf t1 = av_root_leaf t"
      "av_local t1 = av_local t @ [?e]" "av_view t1 mu1 ml1 d hk = None"
      "\<forall>j x. x \<noteq> hk \<longrightarrow> av_view t1 mu1 ml1 j x = av_view t mu ml j x"
    have split1: "av_split_depth t1 \<le> 0" using m(2) Suc.prems(1) by (simp add: av_conf_def)
    have m6: "ml1 hk = None" and m7: "\<And>y. y \<noteq> hk \<Longrightarrow> ml1 y = ml y"
      using m(6,7) view [OF split1] view [OF Suc.prems(1)] by auto
    have fetched: "if sint x < sint hk
      then towards x (\<lambda>_. ml1) node_fits 0 (av_local t @ [?e]) INVALID_KEY (av_root_key t) rl tree (l_key nd) (l_leaf nd) l
      else towards x (\<lambda>_. ml1) node_fits 0 (av_local t @ [?e]) INVALID_KEY (av_root_key t) rl tree (r_key nd) (r_leaf nd) y"
      by (rule towards_fetch [OF Suc.prems(3) [unfolded hn] dist])
        (use nd(1) m6 m7 Suc.prems(4) in \<open>auto simp: last_key_def\<close>)
    have hkin: "hk \<in> keys_of tree" using chain_keys [OF ch] hn by auto
    have w1: "only_keys (\<lambda>_. ml1) tree"
      by (rule only_keys_removed [OF Suc.prems(7) _ hkin]) (use m7 in simp)
    have len: "length (av_local t1) = Suc d" "length (av_local t1) - 1 = d" "av_local t1 ! d = ?e"
      using m(5) Suc.prems(4) by (simp_all add: nth_append)
    have ne: "av_local t1 \<noteq> []" using m(5) by simp
    have attach: "safe_run (av_attach ops x v lft (length (av_local t1) - 1) (of_nat d + 1) t1 r1)
        (\<lambda>(t', r'). grown (oe_crypto E) inv bucket ops (ins x v tree) t t')"
      if c: "towards x (\<lambda>_. ml1) node_fits 0 (av_local t @ [?e]) INVALID_KEY (av_root_key t) rl tree INVALID_KEY hl2 Leaf"
        and lft: "lft = (sint x < sint hk)" for lft hl2
    proof -
      obtain t' r' lf where a: "av_attach ops x v lft (length (av_local t1) - 1) (of_nat d + 1) t1 r1 = Inr (t', r')"
        "av_ok (oe_crypto E) inv bucket ops t' mu1 ml1" "av_conf t1 t'" "av_root_key t' = av_root_key t1"
        "av_local t' = av_local t @ [?e\<lparr>n_avl := set_child lft x lf 1 nd\<rparr>,
           \<lparr>n_key = x, n_leaf = lf, n_avl = new_avl_node v, n_parent = hk, n_depth = of_nat d + 1\<rparr>]"
        using attach_spec [OF m(1) ne, of x v lft "of_nat d + 1" r1] m(5) by auto
      let ?c = "\<lparr>n_key = x, n_leaf = lf, n_avl = new_avl_node v, n_parent = hk, n_depth = of_nat d + 1\<rparr> :: local_node"
      note cd = chain_distinct [OF towards_chain [OF c] dist] and ck = chain_keys [OF towards_chain [OF c]]
      have keys: "map n_key (av_local t') = map n_key (av_local t @ [?e]) @ [x]" using a(5) by simp
      have sub: "set (map n_key (av_local t @ [?e])) \<subseteq> keys_of tree" "INVALID_KEY \<notin> set (map n_key (av_local t @ [?e]))"
        using ck by auto
      have dk: "distinct (map n_key (av_local t'))" unfolding keys using cd sub(1) x(1) by auto
      have dom: "dom (local_of (av_local t')) = insert x (set (map n_key (av_local t @ [?e])))"
        unfolding dom_local_of a(5) by auto
      have fl: "flat ml1 node_fits (local_of (av_local t')) INVALID_KEY (av_root_key t) rl (ins x v tree)"
      proof (rule towards_attach [OF c _ dist x(1), where c = ?c])
        show "local_of (av_local t') x = Some ?c" using local_of_iff [OF dk] a(5) by simp
        show "\<forall>e\<in>set (butlast (av_local t @ [?e])). local_of (av_local t') (n_key e) = Some e"
          using local_of_iff [OF dk] a(5) by simp
        show "local_of (av_local t') (n_key (last (av_local t @ [?e]))) = Some ((last (av_local t @ [?e]))
          \<lparr>n_avl := set_child (sint x < sint (n_key (last (av_local t @ [?e])))) x (n_leaf ?c) 1 (n_avl (last (av_local t @ [?e])))\<rparr>)"
          using local_of_iff [OF dk] a(5) lft by simp
        show "keys_of tree \<inter> dom (local_of (av_local t')) \<subseteq> n_key ` set (av_local t @ [?e])"
          unfolding dom using x(1) by auto
        show "INVALID_KEY \<notin> dom (local_of (av_local t'))" unfolding dom using sub(2) x(2) by auto
        show "ml1 x = None" using w1 x(1) unfolding only_keys_def by blast
      qed (use x(2) fits in simp_all)
      have "key_ordered (ins x v tree)" by (rule key_ordered_ins [OF ord x(1,3)])
      then have di: "distinct (map fst (inorder (ins x v tree)))" using key_ordered_distinct by (simp add: tree_distinct_def)
      have "local_inv ml1 node_fits (inorder (ins x v tree)) (map n_key (av_local t')) (av_local t', av_root_key t')"
        unfolding local_inv_def fst_conv snd_conv set_keys_inorder a(4) m(3)
        using dk di fl sub x(2) unfolding keys by (intro conjI refl) auto
      moreover have "only_keys (\<lambda>_. ml1) (ins x v tree)" using w1 by (auto simp: only_keys_def)
      moreover have "av_conf t t'" by (rule av_conf_trans [OF m(2) a(3)])
      ultimately show ?thesis unfolding a(1) safe_run_simps prod.case grown_def using a(2,5) by (simp, blast)
    qed
    have sub: "safe_run (av_insert_descend E ops x v n (Suc d) hk2 hl2 t1 r1)
        (\<lambda>(t', r'). grown (oe_crypto E) inv bucket ops (ins x v tree) t t')"
      if "towards x (\<lambda>_. ml1) node_fits 0 (av_local t @ [?e]) INVALID_KEY (av_root_key t) rl tree hk2 hl2 h2" "height h2 \<le> n"
        "h2 \<noteq> Leaf" for hk2 hl2 h2
    proof -
      have "safe_run (av_insert_descend E ops x v n (Suc d) hk2 hl2 t1 r1)
        (\<lambda>(t', r'). grown (oe_crypto E) inv bucket ops (ins x v tree) t1 t')"
        by (rule Suc.IH [OF split1 m(1) _ len(1) that(3,2) w1]) (use that(1) m(3,5) in simp)
      then show ?thesis by (rule safe_run_mono) (use grown_trans [OF m(2)] in blast)
    qed
    have hb: "height l \<le> n" "height y \<le> n" using Suc.prems(6) hn by simp_all
    have nd1: "n_avl (av_local t1 ! (length (av_local t1) - 1)) = nd" using len(2,3) by simp
    have child: "s = Leaf \<longleftrightarrow> k2 = INVALID_KEY"
      if "towards x (\<lambda>_. ml1) node_fits 0 (av_local t @ [?e]) INVALID_KEY (av_root_key t) rl tree k2 lf2 s" for k2 lf2 s
      using tree_at_Leaf_iff [OF conjunct2 [OF conjunct2 [OF conjunct2 [OF chain_keys [OF towards_chain [OF that]]]]]] .
    show "safe_run (let i = length (av_local t1) - 1; nd = n_avl (av_local t1 ! i)
        in if sint x < sint hk
           then if l_key nd = INVALID_KEY then av_attach ops x v True i (of_nat d + 1) t1 r1
                else av_insert_descend E ops x v n (Suc d) (l_key nd) (l_leaf nd) t1 r1
           else if r_key nd = INVALID_KEY then av_attach ops x v False i (of_nat d + 1) t1 r1
                else av_insert_descend E ops x v n (Suc d) (r_key nd) (r_leaf nd) t1 r1)
        (\<lambda>(t', r'). grown (oe_crypto E) inv bucket ops (ins x v tree) t t')"
    proof (cases "sint x < sint hk")
      case True
      with fetched have f: "towards x (\<lambda>_. ml1) node_fits 0 (av_local t @ [?e]) INVALID_KEY (av_root_key t) rl tree (l_key nd) (l_leaf nd) l"
        by simp
      then show ?thesis
        using True child [OF f] f attach [of "l_leaf nd" True] sub [OF f hb(1)] unfolding Let_def nd1 by (cases "l_key nd = INVALID_KEY") simp_all
    next
      case False
      with fetched have f: "towards x (\<lambda>_. ml1) node_fits 0 (av_local t @ [?e]) INVALID_KEY (av_root_key t) rl tree (r_key nd) (r_leaf nd) y"
        by simp
      then show ?thesis
        using False child [OF f] f attach [of "r_leaf nd" False] sub [OF f hb(2)] unfolding Let_def nd1 by (cases "r_key nd = INVALID_KEY") simp_all
    qed
  qed
qed simp


lemma flat_outside: "flat m vs L p k lf t \<Longrightarrow> L k = None \<Longrightarrow> keys_of t \<inter> dom L = {}"
proof (cases t)
  case (Node l kv r)
  obtain k' v where "kv = (k', v)" by fastforce
  then show "flat m vs L p k lf t \<Longrightarrow> L k = None \<Longrightarrow> keys_of t \<inter> dom L = {}" unfolding Node by (simp add: flat_simps)
qed simp

text \<open>Putting the grown tree back.\<close>

lemma grown_put_back:
  assumes g: "grown (oe_crypto E) inv bucket ops tree t0 t" and split: "av_split_depth t0 \<le> 0" and ord: "key_ordered tree"
  shows "\<exists>t' r' tree'. av_put_back ops t r = Inr (t', r') \<and> inorder tree' = inorder tree
    \<and> av_stores (oe_crypto E) inv bucket ops t' tree' \<and> av_conf t0 t'"
proof -
  obtain mu ml where m: "av_conf t0 t" "av_local t \<noteq> []" "av_ok (oe_crypto E) inv bucket ops t mu ml" "only_keys (\<lambda>_. ml) tree"
    "local_inv ml node_fits (inorder tree) (map n_key (av_local t)) (av_local t, av_root_key t)"
    using g unfolding grown_def by blast
  obtain rl tr where tr: "flat ml node_fits (local_of (av_local t)) INVALID_KEY (av_root_key t) rl tr" "inorder tr = inorder tree"
    and li: "distinct (map n_key (av_local t))" "INVALID_KEY \<notin> set (map n_key (av_local t))"
    "set (map n_key (av_local t)) \<subseteq> keys_of tree"
    using m(5) unfolding local_inv_def set_keys_inorder by auto
  have kt: "keys_of tr = keys_of tree" using tr(2) by (simp flip: set_keys_inorder)
  have ot: "key_ordered tr" using ord tr(2) kt by (simp add: key_ordered_def)
  have up: "av_is_upper t y = False" for y using split m(1) by (simp add: av_is_upper_def av_conf_def)
  have view: "av_view t mu ml = (\<lambda>_. ml)" by (simp add: av_view_def av_map_at_def up fun_eq_iff)
  have mix: "mixed (\<lambda>y d. av_is_upper t y = av_is_upper t (of_nat d)) (av_view t mu ml) node_fits (local_of (av_local t)) 0
      INVALID_KEY (av_root_key t) rl tr"
    using tr(1) by (simp add: up view mixed_flat)
  have root: "av_root_key t \<in> n_key ` set (av_local t)"
  proof (rule ccontr)
    assume "av_root_key t \<notin> n_key ` set (av_local t)"
    then have "local_of (av_local t) (av_root_key t) = None" by (simp add: local_of_None)
    then have "keys_of tr \<inter> dom (local_of (av_local t)) = {}"
      using flat_outside [OF tr(1)] by blast
    then show False using li(3) m(2) unfolding kt dom_local_of by (cases "av_local t") auto
  qed
  obtain t' r' mu' ml' where t': "av_put_back ops t r = Inr (t', r')" "av_ok (oe_crypto E) inv bucket ops t' mu' ml'"
    "av_same t t'" "tree_at (av_view t' mu' ml') node_fits 0 (av_root_key t') (av_root_leaf t') tr"
    "only_keys (av_view t' mu' ml') tr"
    using put_back_spec [OF m(3) mix key_ordered_distinct [OF ot] li(1), of r] li root m(4) view kt
    by (auto simp: only_keys_def)
  have "av_stores (oe_crypto E) inv bucket ops t' tr"
    unfolding av_stores_def using t'(2,4,5) ot by blast
  moreover have "av_conf t0 t'" using m(1) t'(3) av_conf_trans by (auto simp: av_same_def)
  ultimately show ?thesis using t'(1) tr(2) by blast
qed

lemma insert_spec:
  assumes E: "good_env E" and st: "av_stores (oe_crypto E) inv bucket ops t tree"
    and h: "int (height tree) \<le> av_max_height t" and split: "av_split_depth t \<le> 0"
    and x: "x \<notin> keys_of tree" "0 \<le> sint x" and fits: "node_fits v"
  shows "safe_run (av_insert E ops x v t r) (\<lambda>(t', r'). \<exists>tree'. inorder tree' = inorder (ins x v tree)
    \<and> av_stores (oe_crypto E) inv bucket ops t' tree' \<and> av_conf t t')"
proof -
  let ?t = "av_begin t" and ?Q = "\<lambda>(t', r' :: rng). \<exists>tree'. inorder tree' = inorder (ins x v tree)
    \<and> av_stores (oe_crypto E) inv bucket ops t' tree' \<and> av_conf t t'"
  have xi: "x \<noteq> INVALID_KEY" using x(2) by (auto simp: INVALID_KEY_def)
  obtain mu ml where m: "av_ok (oe_crypto E) inv bucket ops ?t mu ml"
    "tree_at (av_view ?t mu ml) node_fits 0 (av_root_key t) (av_root_leaf t) tree" "key_ordered tree"
    "only_keys (av_view ?t mu ml) tree"
  proof -
    have "av_stores (oe_crypto E) inv bucket ops ?t tree" using st by (simp add: av_stores_cong [of ?t t])
    then show ?thesis using that unfolding av_stores_def begin_fields by blast
  qed
  note ord = key_ordered_ins [OF m(3) x]
  have up: "av_is_upper t2 y = False" if "av_conf t t2" for t2 :: "'s avl_omap" and y
    using split that by (simp add: av_is_upper_def av_conf_def)
  have view: "av_view t2 mu2 ml2 = (\<lambda>_. ml2)" if "av_conf t t2" for t2 :: "'s avl_omap" and mu2 ml2
    by (simp add: av_view_def av_map_at_def up [OF that] fun_eq_iff)
  have finish: "safe_run (av_finish E ops t1 r1) ?Q"
    if q: "?Q (t1, r1)" for t1 r1
  proof -
    obtain tree' where t1: "inorder tree' = inorder (ins x v tree)" "av_stores (oe_crypto E) inv bucket ops t1 tree'" "av_conf t t1"
      using q by auto
    show ?thesis
      by (rule safe_run_mono [OF stores_finish [OF E t1(2)]])
        (use t1(1,3) av_conf_trans in \<open>fastforce simp: av_keeps_def\<close>)
  qed
  have "safe_run (if av_root_key ?t = INVALID_KEY then av_insert_root ops x v ?t r else av_insert_below E ops x v ?t r) ?Q"
  proof (cases "av_root_key t = INVALID_KEY")
    case True
    then have leaf: "tree = Leaf" using tree_at_Leaf_iff [OF m(2)] by simp
    let ?p = "av_oram_for_depth ?t 0" and ?m = "av_map_at ?t mu ml 0"
    have st: "po_state (oe_crypto E) inv bucket ops {} ?p ?m" by (rule av_ok_at [OF m(1)])
    obtain lf r1 where lf: "po_random_leaf ops ?p r = Inr (lf, r1)" "valid_leaf (po_level ops ?p) (sint lf)"
      by (rule random_leaf_valid [OF st])
    let ?b = "\<lparr>key = x, leaf = lf, val = encode_node (new_avl_node v)\<rparr>"
    have none: "ml y = None" for y
    proof (rule ccontr)
      assume "ml y \<noteq> None"
      then have "y \<in> keys_of tree" using m(4) view [of ?t mu ml] unfolding only_keys_def by auto
      then show False using leaf by simp
    qed
    have mx: "?m x = None" using none by (simp add: av_map_at_def up)
    let ?p1 = "po_add_to_stash ?b (po_set_leaf x lf ?p)"
    have p1: "po_state (oe_crypto E) inv bucket ops {} ?p1 (?m(x \<mapsto> (lf, encode_node (new_avl_node v))))"
      using po_add_state [of _ _ _ _ _ "po_set_leaf x lf ?p" ?m ?b] st mx xi lf(2) fits by (simp add: node_fits_encode new_avl_node_def)
    let ?t1 = "(av_set_oram 0 ?p1 ?t)\<lparr>av_root_key := x, av_root_leaf := lf\<rparr>"
    have run: "av_insert_root ops x v ?t r = Inr (?t1, r1)"
      by (simp add: av_insert_root_def Let_def lf(1))
    have conf: "av_conf t ?t1" by (simp add: av_conf_def)
    have ok0: "av_ok (oe_crypto E) inv bucket ops (av_set_oram 0 ?p1 ?t) mu (?m(x \<mapsto> (lf, encode_node (new_avl_node v))))"
      by (rule av_ok_set [OF m(1) p1]) (simp add: put_map_def up)
    have ok1: "av_ok (oe_crypto E) inv bucket ops ?t1 mu (?m(x \<mapsto> (lf, encode_node (new_avl_node v))))"
      by (rule av_ok_cong [THEN iffD2, OF _ _ _ ok0]) simp_all
    let ?m1 = "?m(x \<mapsto> (lf, encode_node (new_avl_node v)))"
    have "only_keys (av_view ?t1 mu ?m1) (ins x v tree)"
      unfolding view [OF conf] using none by (simp add: only_keys_def av_map_at_def up)
    moreover have "tree_at (av_view ?t1 mu ?m1) node_fits 0 (av_root_key ?t1) (av_root_leaf ?t1) (ins x v tree)"
      unfolding view [OF conf] using leaf xi fits by (auto simp: new_avl_node_def)
    ultimately have "av_stores (oe_crypto E) inv bucket ops ?t1 (ins x v tree)"
      unfolding av_stores_def using ok1 ord by blast
    then show ?thesis using True run conf by auto
  next
    case False
    let ?tl = "?t\<lparr>av_local := []\<rparr>"
    have tree: "tree \<noteq> Leaf" using tree_at_Leaf_iff [OF m(2)] False by simp
    have conf: "av_conf t ?tl" by (simp add: av_conf_def)
    have ok0: "av_ok (oe_crypto E) inv bucket ops ?tl mu ml" using m(1) by (simp add: av_ok_def)
    have "safe_run (av_insert_descend E ops x v (nat (av_max_height t)) 0 (av_root_key t) (av_root_leaf t) ?tl r)
        (\<lambda>(t', r'). grown (oe_crypto E) inv bucket ops (ins x v tree) ?tl t')"
      by (rule insert_descend_spec [OF E m(3) x(1) xi x(2) fits _ ok0, where rl = "av_root_leaf t" and h = tree])
        (use split m(2,4) view [of ?t mu ml] tree h in simp_all)
    then have "safe_run (av_insert_below E ops x v ?t r) ?Q"
      unfolding av_insert_below_def begin_fields
    proof (rule safe_run_bind, elim case_prodE, hypsubst, unfold prod.case)
      fix t1 r1 assume g: "grown (oe_crypto E) inv bucket ops (ins x v tree) ?tl t1"
      show "safe_run (av_put_back ops (av_rebalance_local t1) r1) ?Q"
        using grown_put_back [OF grown_rebalance [OF g] _ ord, of r1] split av_conf_trans [OF conf] by fastforce
    qed
    then show ?thesis using False by simp
  qed
  then show ?thesis
    unfolding av_insert_def Let_def
    by (rule safe_run_bind) (use finish in auto)
qed

end

end
