(* ===== verification/Avl_Omap_Counts.thy ===== *)
theory Avl_Omap_Counts
  imports Avl_Omap_Update
begin

text \<open>
  How many ORAM accesses an operation of the AVL map makes. The way down counts one access per level, to
  the ORAM of that level; the padding fills both counters up to the budget of \<open>3 * max_height\<close>.
\<close>

definition av_counts :: "'s avl_omap \<Rightarrow> int \<times> int \<times> int" where
  "av_counts t = (av_upper_ops t, av_lower_ops t, av_op_count t)"

definition av_geometry :: "'s avl_omap \<Rightarrow> int \<times> int \<times> bool" where
  "av_geometry t = (av_split_depth t, av_max_height t, av_ods_mode t)"

text \<open>The counters after \<open>d\<close> accesses, one per level from the root, and those of a full budget.\<close>

definition level_counts :: "int \<Rightarrow> int \<Rightarrow> int \<times> int \<times> int" where
  "level_counts split d = (if split > 0 then (min d split, max 0 (d - split), 0) else (0, 0, d))"

definition budget_counts :: "int \<Rightarrow> int \<Rightarrow> int \<times> int \<times> int" where
  "budget_counts split b = (if split > 0 then (min split b, b - min split b, 0) else (0, 0, b))"

lemma av_counts_simps [simp]:
  "av_counts (t\<lparr>av_local := l\<rparr>) = av_counts t" "av_counts (t\<lparr>av_root_key := k\<rparr>) = av_counts t"
  "av_counts (t\<lparr>av_root_leaf := lf\<rparr>) = av_counts t" "av_counts (t\<lparr>av_upper := p\<rparr>) = av_counts t"
  "av_counts (t\<lparr>av_lower := p\<rparr>) = av_counts t" "av_counts (av_set_oram d p t) = av_counts t"
  "av_counts (av_begin t) = (0, 0, 0)" "av_counts (finalize_bw ops t) = av_counts t"
  by (simp_all add: av_counts_def av_set_oram_def av_begin_def reset_op_counts_def finalize_bw_def Let_def)

lemma av_geometry_simps [simp]:
  "av_geometry (t\<lparr>av_local := l\<rparr>) = av_geometry t" "av_geometry (t\<lparr>av_root_key := k\<rparr>) = av_geometry t"
  "av_geometry (t\<lparr>av_root_leaf := lf\<rparr>) = av_geometry t" "av_geometry (av_set_oram d p t) = av_geometry t"
  "av_geometry (av_begin t) = av_geometry t" "av_geometry (finalize_bw ops t) = av_geometry t"
  "av_geometry (av_count_op d t) = av_geometry t"
  by (simp_all add: av_geometry_def av_set_oram_def av_begin_def reset_op_counts_def finalize_bw_def Let_def av_count_op_def)

definition av_quiet :: "'s avl_omap \<Rightarrow> 's avl_omap \<Rightarrow> bool" where
  "av_quiet t t' \<longleftrightarrow> av_counts t' = av_counts t \<and> av_geometry t' = av_geometry t"

lemma av_quiet_trans: "av_quiet t t' \<Longrightarrow> av_quiet t' t'' \<Longrightarrow> av_quiet t t''"
  by (simp add: av_quiet_def)

lemma av_quiet_set [simp]: "av_quiet t (av_set_oram d p t)"
  by (simp add: av_quiet_def)

lemma sint_small_nat: "n < 2 ^ 31 \<Longrightarrow> sint (of_nat n :: i32) = int n"
  by (rule sint_of_small_nat)

lemma move_to_local_counts:
  assumes "av_move_to_local E ops k lf par (of_nat d) t r = Inr (t', r')" "d < 2 ^ 31"
    "av_counts t = level_counts (av_split_depth t) (int d)"
  shows "av_counts t' = level_counts (av_split_depth t) (int (Suc d)) \<and> av_geometry t' = av_geometry t"
proof -
  have g: "av_split_depth (av_set_oram e p t0) = av_split_depth t0" for e p and t0 :: "'s avl_omap"
    by (simp add: av_set_oram_def)
  from assms(1) obtain t0 where t0: "t' = av_count_op (of_nat d) t0" "av_counts t0 = av_counts t"
    "av_geometry t0 = av_geometry t" "av_split_depth t0 = av_split_depth t"
    by (auto simp: av_move_to_local_def bind_result_Inr_iff Let_def g)
  then show ?thesis
    using assms(3) sint_small_nat [OF assms(2)]
    by (auto simp: av_count_op_def av_counts_def level_counts_def av_geometry_def)
qed

lemma descend_counts:
  assumes "av_descend E ops k update n d cur_key cur_leaf t r = Inr (f, t', r')" "d + n < 2 ^ 31"
    "av_counts t = level_counts (av_split_depth t) (int d)"
  shows "\<exists>d'. d' \<le> d + n \<and> av_counts t' = level_counts (av_split_depth t) (int d') \<and> av_geometry t' = av_geometry t"
  using assms
proof (induction n arbitrary: d cur_key cur_leaf t r)
  case 0
  then show ?case by auto
next
  case (Suc n)
  show ?case
  proof (cases "cur_key = INVALID_KEY")
    case False
    obtain t1 r1 where m: "av_move_to_local E ops cur_key cur_leaf (last_key (av_local t)) (of_nat d) t r = Inr (t1, r1)"
      using Suc.prems(1) False by (auto simp: bind_result_Inr_iff)
    have c1: "av_counts t1 = level_counts (av_split_depth t1) (int (Suc d))" "av_geometry t1 = av_geometry t"
      "av_split_depth t1 = av_split_depth t"
      using move_to_local_counts [OF m _ Suc.prems(3)] Suc.prems(2) by (auto simp: av_geometry_def)
    let ?nd = "n_avl (av_local t1 ! (length (av_local t1) - 1))"
    have IH: "\<exists>d'. d' \<le> d + Suc n \<and> av_counts t' = level_counts (av_split_depth t) (int d') \<and> av_geometry t' = av_geometry t"
      if "av_descend E ops k update n (Suc d) ck cl t1 r1 = Inr (f, t', r')" for ck cl
      using Suc.IH [OF that _ c1(1)] Suc.prems(2) c1(2,3) by simp
    consider (hit) "k = cur_key" | (lft) "k \<noteq> cur_key" "sint k < sint cur_key" | (rgt) "k \<noteq> cur_key" "\<not> sint k < sint cur_key" by blast
    then show ?thesis
    proof cases
      case hit
      then have "av_counts t' = av_counts t1" "av_geometry t' = av_geometry t1"
        using Suc.prems(1) m False by (auto simp: Let_def split: option.splits)
      then show ?thesis using c1 by (intro exI [of _ "Suc d"]) simp
    next
      case lft
      then show ?thesis using Suc.prems(1) m False by (intro IH [of "l_key ?nd" "l_leaf ?nd"]) (simp add: Let_def)
    next
      case rgt
      then show ?thesis using Suc.prems(1) m False by (intro IH [of "r_key ?nd" "r_leaf ?nd"]) (simp add: Let_def)
    qed
  qed (use Suc.prems in \<open>auto intro: exI [of _ d]\<close>)
qed

lemma attach_quiet: "av_attach ops k v lft i depth t r = Inr (t', r') \<Longrightarrow> av_quiet t t'"
  by (auto simp: av_attach_def bind_result_Inr_iff Let_def av_quiet_def)

lemma insert_descend_counts:
  assumes "av_insert_descend E ops k v n d cur_key cur_leaf t r = Inr (t', r')" "d + n < 2 ^ 31"
    "av_counts t = level_counts (av_split_depth t) (int d)"
  shows "\<exists>d'. d' \<le> d + n \<and> av_counts t' = level_counts (av_split_depth t) (int d') \<and> av_geometry t' = av_geometry t"
  using assms
proof (induction n arbitrary: d cur_key cur_leaf t r)
  case 0
  then show ?case by auto
next
  case (Suc n)
  show ?case
  proof (cases "cur_key = INVALID_KEY")
    case False
    obtain t1 r1 where m: "av_move_to_local E ops cur_key cur_leaf (last_key (av_local t)) (of_nat d) t r = Inr (t1, r1)"
      using Suc.prems(1) False by (auto simp: bind_result_Inr_iff)
    have c1: "av_counts t1 = level_counts (av_split_depth t1) (int (Suc d))" "av_geometry t1 = av_geometry t"
      "av_split_depth t1 = av_split_depth t"
      using move_to_local_counts [OF m _ Suc.prems(3)] Suc.prems(2) by (auto simp: av_geometry_def)
    let ?nd = "n_avl (av_local t1 ! (length (av_local t1) - 1))"
    have IH: "\<exists>d'. d' \<le> d + Suc n \<and> av_counts t' = level_counts (av_split_depth t) (int d') \<and> av_geometry t' = av_geometry t"
      if "av_insert_descend E ops k v n (Suc d) ck cl t1 r1 = Inr (t', r')" for ck cl
      using Suc.IH [OF that _ c1(1)] Suc.prems(2) c1(2,3) by simp
    have at: "\<exists>d'. d' \<le> d + Suc n \<and> av_counts t' = level_counts (av_split_depth t) (int d') \<and> av_geometry t' = av_geometry t"
      if "av_attach ops k v lft i depth t1 r1 = Inr (t', r')" for lft i depth
      using attach_quiet [OF that] c1 by (intro exI [of _ "Suc d"]) (simp add: av_quiet_def)
    show ?thesis
      using Suc.prems(1) m False IH [of "l_key ?nd" "l_leaf ?nd"] IH [of "r_key ?nd" "r_leaf ?nd"] at
      by (simp add: Let_def split: if_splits)
  qed (use Suc.prems in \<open>auto intro: exI [of _ d]\<close>)
qed

lemma draw_leaves_quiet: "av_draw_leaves ops n t r = Inr (t', r') \<Longrightarrow> av_quiet t t'"
proof (induction n arbitrary: t r)
  case (Suc n)
  then obtain lf r1 where "av_draw_leaves ops n (av_set_oram (n_depth (av_local t ! n))
      (po_set_leaf (n_key (av_local t ! n)) lf (av_oram_for_depth t (n_depth (av_local t ! n))))
      (t\<lparr>av_local := (av_local t)[n := (av_local t ! n)\<lparr>n_leaf := lf\<rparr>]\<rparr>)) r1 = Inr (t', r')"
    by (auto simp: bind_result_Inr_iff Let_def)
  from Suc.IH [OF this] show ?case by (simp add: av_quiet_def)
qed (simp add: av_quiet_def)

lemma flush_quiet: "av_quiet t (fold av_flush_node es t)"
proof (induction es arbitrary: t)
  case (Cons e es)
  have "av_quiet t (av_flush_node e t)" by (simp add: av_flush_node_def)
  then show ?case using Cons.IH [of "av_flush_node e t"] by (simp add: av_quiet_trans [of t "av_flush_node e t"])
qed (simp add: av_quiet_def)

lemma put_back_quiet:
  assumes "av_put_back ops t r = Inr (t', r')"
  shows "av_quiet t t'"
proof -
  obtain t1 loc lf where t1: "av_draw_leaves ops (length (av_local t)) t r = Inr (t1, r')"
    and t': "t' = (fold av_flush_node loc (t1\<lparr>av_local := loc, av_root_leaf := lf\<rparr>))\<lparr>av_local := []\<rparr>"
    using assms by (auto simp: av_put_back_def av_reassign_leaves_def bind_result_Inr_iff Let_def av_flush_local_def split: prod.splits)
  have "av_quiet t t1" by (rule draw_leaves_quiet [OF t1])
  moreover have "av_quiet (t1\<lparr>av_local := loc, av_root_leaf := lf\<rparr>) (fold av_flush_node loc (t1\<lparr>av_local := loc, av_root_leaf := lf\<rparr>))"
    by (rule flush_quiet)
  ultimately show ?thesis by (simp add: av_quiet_def t')
qed

lemma pad_counts:
  assumes "pad_to_budget E ops b t r = Inr (t', r')" "av_counts t = level_counts (av_split_depth t) (int d)" "int d \<le> b"
  shows "av_counts t' = budget_counts (av_split_depth t) b \<and> av_geometry t' = av_geometry t"
  using assms
  by (auto simp: pad_to_budget_def Let_def bind_result_Inr_iff av_counts_def level_counts_def budget_counts_def
      av_geometry_def max_def min_def split: if_splits prod.splits)

lemma finish_counts:
  assumes "av_finish E ops t r = Inr (t', r')" "\<not> av_ods_mode t" "av_counts t = level_counts (av_split_depth t) (int d)"
    "int d \<le> 3 * av_max_height t"
  shows "av_counts t' = budget_counts (av_split_depth t) (3 * av_max_height t)"
proof -
  obtain t1 where "pad_to_budget E ops (3 * av_max_height t) t r = Inr (t1, r')" "t' = finalize_bw ops t1"
    using assms(1,2) by (auto simp: av_finish_def bind_result_Inr_iff)
  then show ?thesis using pad_counts [OF _ assms(3,4)] by simp
qed

text \<open>The operations: from \<open>av_begin\<close> on the counters are those of level 0.\<close>

definition av_sized :: "'s avl_omap \<Rightarrow> bool" where
  "av_sized t \<longleftrightarrow> 0 \<le> av_max_height t \<and> av_max_height t < 2 ^ 31 \<and> \<not> av_ods_mode t"

lemma level_counts_0 [simp]: "level_counts split 0 = (0, 0, 0)"
  by (simp add: level_counts_def)

lemma geometry_iff:
  "av_geometry t' = av_geometry t \<longleftrightarrow>
    av_split_depth t' = av_split_depth t \<and> av_max_height t' = av_max_height t \<and> av_ods_mode t' = av_ods_mode t"
  by (simp add: av_geometry_def)

lemma after_descent:
  assumes t1: "d \<le> nat (av_max_height t)" "av_counts t1 = level_counts (av_split_depth t) (int d)" "av_geometry t1 = av_geometry t"
    and q: "av_quiet t1 t2" and f: "av_finish E ops t2 r = Inr (t', r')" and s: "av_sized t"
  shows "av_counts t' = budget_counts (av_split_depth t) (3 * av_max_height t)"
proof -
  have g: "av_split_depth t2 = av_split_depth t" "av_max_height t2 = av_max_height t" "av_ods_mode t2 = av_ods_mode t"
    "av_counts t2 = av_counts t1"
    using q t1(3) by (auto simp: av_quiet_def geometry_iff)
  show ?thesis
    using finish_counts [OF f, of d] s t1(1,2) unfolding g av_sized_def by linarith
qed

lemma av_begin_geometry:
  "av_split_depth (av_begin t) = av_split_depth t" "av_max_height (av_begin t) = av_max_height t"
  "av_root_key (av_begin t) = av_root_key t" "av_root_leaf (av_begin t) = av_root_leaf t"
  by (simp_all add: av_begin_def reset_op_counts_def)

lemma search_op_counts:
  assumes "av_search E ops k update t r = Inr (v, t', r')" "av_sized t"
  shows "av_counts t' = budget_counts (av_split_depth t) (3 * av_max_height t)"
proof (cases "av_root_key t = INVALID_KEY")
  case True
  then obtain r1 where "av_finish E ops (av_begin t) r = Inr (t', r1)"
    using assms(1) by (auto simp: av_search_def bind_result_Inr_iff av_begin_geometry)
  then show ?thesis
    using after_descent [of 0 t "av_begin t" "av_begin t" E ops r t' r1] assms(2) by (simp add: av_quiet_def)
next
  case False
  let ?t0 = "(av_begin t)\<lparr>av_local := []\<rparr>"
  obtain f t1 r1 t2 r2 where
    d: "av_descend E ops k update (nat (av_max_height t)) 0 (av_root_key t) (av_root_leaf t) ?t0 r = Inr (f, t1, r1)" and
    p: "av_put_back ops t1 r1 = Inr (t2, r2)" and f: "av_finish E ops t2 r2 = Inr (t', r')"
    using assms(1) False by (auto simp: av_search_def bind_result_Inr_iff av_begin_geometry Let_def)
  obtain d' where "d' \<le> nat (av_max_height t)" "av_counts t1 = level_counts (av_split_depth t) (int d')" "av_geometry t1 = av_geometry t"
  proof -
    have "0 + nat (av_max_height t) < 2 ^ 31" using assms(2) by (auto simp: av_sized_def)
    from descend_counts [OF d this] show ?thesis using that by (auto simp: av_begin_geometry)
  qed
  from after_descent [OF this put_back_quiet [OF p] f assms(2)] show ?thesis .
qed

lemma insert_op_counts:
  assumes "av_insert E ops k v t r = Inr (t', r')" "av_sized t"
  shows "av_counts t' = budget_counts (av_split_depth t) (3 * av_max_height t)"
proof (cases "av_root_key t = INVALID_KEY")
  case True
  then obtain t1 r1 where t1: "av_insert_root ops k v (av_begin t) r = Inr (t1, r1)" and f: "av_finish E ops t1 r1 = Inr (t', r')"
    using assms(1) by (auto simp: av_insert_def bind_result_Inr_iff av_begin_geometry)
  have "av_quiet (av_begin t) t1" using t1 by (auto simp: av_insert_root_def Let_def bind_result_Inr_iff av_quiet_def)
  from after_descent [where d = 0, OF _ _ _ this f assms(2)] show ?thesis by simp
next
  case False
  let ?t0 = "(av_begin t)\<lparr>av_local := []\<rparr>"
  obtain t1 r1 t2 r2 where
    d: "av_insert_descend E ops k v (nat (av_max_height t)) 0 (av_root_key t) (av_root_leaf t) ?t0 r = Inr (t1, r1)" and
    p: "av_put_back ops (av_rebalance_local t1) r1 = Inr (t2, r2)" and f: "av_finish E ops t2 r2 = Inr (t', r')"
    using assms(1) False by (auto simp: av_insert_def av_insert_below_def bind_result_Inr_iff av_begin_geometry Let_def)
  obtain d' where d': "d' \<le> nat (av_max_height t)" "av_counts t1 = level_counts (av_split_depth t) (int d')" "av_geometry t1 = av_geometry t"
  proof -
    have "0 + nat (av_max_height t) < 2 ^ 31" using assms(2) by (auto simp: av_sized_def)
    from insert_descend_counts [OF d this] show ?thesis using that by (auto simp: av_begin_geometry)
  qed
  have "av_quiet t1 (av_rebalance_local t1)" by (simp add: av_rebalance_local_def av_quiet_def split: prod.split)
  from after_descent [OF d' av_quiet_trans [OF this put_back_quiet [OF p]] f assms(2)] show ?thesis .
qed

lemma dummy_op_counts:
  assumes "av_dummy_access E ops t r = Inr (t', r')" "av_sized t"
  shows "av_counts t' = budget_counts (av_split_depth t) (3 * av_max_height t)"
proof -
  obtain t1 where p: "pad_to_budget E ops (3 * av_max_height t) (av_begin t) r = Inr (t1, r')" and t': "t' = finalize_bw ops t1"
    using assms(1) by (auto simp: av_dummy_access_def bind_result_Inr_iff)
  show ?thesis using pad_counts [OF p, of 0] assms(2) by (simp add: t' av_begin_geometry av_sized_def)
qed

end
