(* ===== verification/Omap_Interface.thy ===== *)
theory Omap_Interface
  imports Storage_Interface
begin

text \<open>
  \<open>include/tiered_omap/omap/omap_interface.h\<close>: what the tiered map asks of the oblivious maps of its two
  tiers. The virtual functions are the fields of \<open>omap_ops\<close>, over a state \<open>'o\<close>; the bodies they have in the
  interface are those of \<open>omap_defaults\<close>. The locale \<open>oblivious_map\<close> says what a client relies on.
\<close>

section \<open>The interface\<close>

type_synonym ('o, 'a) omap_op = "'o \<Rightarrow> rng \<Rightarrow> ('a \<times> 'o \<times> rng) result"
type_synonym 'o omap_step = "'o \<Rightarrow> rng \<Rightarrow> ('o \<times> rng) result"

record scan_result =
  sr_key :: i32
  sr_value :: bytes

definition no_scan :: scan_result where
  "no_scan = \<lparr>sr_key = INVALID_KEY, sr_value = []\<rparr>"

record 'o omap_ops =
  oi_search :: "i32 \<Rightarrow> bytes option \<Rightarrow> ('o, bytes) omap_op"
  oi_insert :: "i32 \<Rightarrow> bytes \<Rightarrow> 'o omap_step"
  oi_remove :: "i32 \<Rightarrow> 'o omap_step"
  oi_dummy :: "'o omap_step"
  oi_partial_dummy :: "'o omap_step"
  oi_init :: "(i32 \<times> bytes) list \<Rightarrow> 'o omap_step"
  oi_search_piggyback :: "i32 \<Rightarrow> bytes option \<Rightarrow> i32 \<Rightarrow> char \<Rightarrow> bytes option \<Rightarrow> ('o, bytes \<times> bytes option) omap_op"
  oi_insert_replacing :: "i32 \<Rightarrow> bytes \<Rightarrow> 'o omap_step"
  oi_last_stats :: "'o \<Rightarrow> bandwidth"
  oi_total_stats :: "'o \<Rightarrow> bandwidth"
  oi_reset_stats :: "'o \<Rightarrow> 'o"
  oi_interleaved :: "'o \<Rightarrow> bool"
  oi_begin_search :: "i32 \<Rightarrow> bytes option \<Rightarrow> 'o omap_step"
  oi_begin_dummy :: "'o omap_step"
  oi_begin_partial :: "'o omap_step"
  oi_next_round :: "('o, (i32 \<times> i32) list) omap_op"
  oi_apply_reads :: "path_map list \<Rightarrow> 'o omap_step"
  oi_process :: "'o omap_step"
  oi_prepare_writes :: "('o, (i32 \<times> path_map) list) omap_op"
  oi_done :: "'o \<Rightarrow> bool"
  oi_finish :: "('o, bytes) omap_op"
  oi_begin_scan :: "'o omap_step"
  oi_finish_scan :: "('o, scan_result) omap_op"
  oi_decision_enabled :: "bool \<Rightarrow> 'o \<Rightarrow> 'o"
  oi_needs_decision :: "'o \<Rightarrow> bool"
  oi_traverse_result :: "'o \<Rightarrow> bytes"
  oi_commit_remove :: "'o omap_step"
  oi_commit_noop :: "'o omap_step"
  oi_pb_decision_enabled :: "bool \<Rightarrow> 'o \<Rightarrow> 'o"
  oi_pb_search :: "i32 \<Rightarrow> 'o omap_step"
  oi_pb_insert :: "i32 \<Rightarrow> bytes \<Rightarrow> 'o omap_step"
  oi_pb_dummy :: "'o omap_step"
  oi_pb_finish :: "('o, bytes) omap_op"
  oi_pb_needs_decision :: "'o \<Rightarrow> bool"
  oi_pb_traverse_result :: "'o \<Rightarrow> bytes"
  oi_pb_commit_remove :: "'o omap_step"
  oi_pb_commit_noop :: "'o omap_step"

text \<open>The bodies in the interface. A map without a step machine is always done.\<close>

definition nothing :: "'o omap_step" where
  "nothing s r = Inr (s, r)"

definition yields :: "'a \<Rightarrow> ('o, 'a) omap_op" where
  "yields x s r = Inr (x, s, r)"

definition pure_step :: "('o \<Rightarrow> 'o) \<Rightarrow> 'o omap_step" where
  "pure_step f s r = Inr (f s, r)"

definition omap_defaults ::
  "(i32 \<Rightarrow> bytes option \<Rightarrow> ('o, bytes) omap_op) \<Rightarrow> (i32 \<Rightarrow> bytes \<Rightarrow> 'o omap_step) \<Rightarrow> (i32 \<Rightarrow> 'o omap_step) \<Rightarrow> 'o omap_step
    \<Rightarrow> ((i32 \<times> bytes) list \<Rightarrow> 'o omap_step) \<Rightarrow> ('o \<Rightarrow> bandwidth) \<Rightarrow> ('o \<Rightarrow> bandwidth) \<Rightarrow> ('o \<Rightarrow> 'o) \<Rightarrow> 'o omap_ops" where
  "omap_defaults srch ins rem dummy init lst tot reset =
     \<lparr>oi_search = srch, oi_insert = ins, oi_remove = rem, oi_dummy = dummy, oi_partial_dummy = dummy, oi_init = init,
      oi_search_piggyback = (\<lambda>k u ek eop ev s r. bind_result (srch k u s r) (\<lambda>(v, s1, r1). Inr ((v, None), s1, r1))),
      oi_insert_replacing = ins, oi_last_stats = lst, oi_total_stats = tot, oi_reset_stats = reset,
      oi_interleaved = (\<lambda>s. False),
      oi_begin_search = (\<lambda>k u. nothing), oi_begin_dummy = nothing, oi_begin_partial = nothing,
      oi_next_round = yields [], oi_apply_reads = (\<lambda>ps. nothing), oi_process = nothing,
      oi_prepare_writes = yields [], oi_done = (\<lambda>s. True), oi_finish = yields [],
      oi_begin_scan = nothing, oi_finish_scan = yields no_scan,
      oi_decision_enabled = (\<lambda>b s. s), oi_needs_decision = (\<lambda>s. False), oi_traverse_result = (\<lambda>s. []),
      oi_commit_remove = nothing, oi_commit_noop = nothing,
      oi_pb_decision_enabled = (\<lambda>b s. s),
      oi_pb_search = (\<lambda>k. nothing), oi_pb_insert = (\<lambda>k v. nothing), oi_pb_dummy = nothing,
      oi_pb_finish = yields [], oi_pb_needs_decision = (\<lambda>s. False), oi_pb_traverse_result = (\<lambda>s. []),
      oi_pb_commit_remove = nothing, oi_pb_commit_noop = nothing\<rparr>"

section \<open>What a client relies on\<close>

text \<open>\<open>holds s m\<close>: the state \<open>s\<close> of the map stores \<open>m\<close>. An absent key reads as the empty value.\<close>

definition read_of :: "(i32 \<rightharpoonup> bytes) \<Rightarrow> i32 \<Rightarrow> bytes" where
  "read_of m k = (case m k of None \<Rightarrow> [] | Some v \<Rightarrow> v)"

locale oblivious_map =
  fixes ops :: "'o omap_ops"
    and holds :: "'o \<Rightarrow> (i32 \<rightharpoonup> bytes) \<Rightarrow> bool"
  assumes search_law: "holds s m \<Longrightarrow> safe_run (oi_search ops k None s r) (\<lambda>(v, s', r'). v = read_of m k \<and> holds s' m)"
    and dummy_law: "holds s m \<Longrightarrow> safe_run (oi_dummy ops s r) (\<lambda>(s', r'). holds s' m)"
    and partial_dummy_law: "holds s m \<Longrightarrow> safe_run (oi_partial_dummy ops s r) (\<lambda>(s', r'). holds s' m)"

end
