(* ===== verification/Avl_Omap_Properties.thy ===== *)
theory Avl_Omap_Properties
  imports Avl_Insert_Correct Avl_Omap_Counts Path_Oram_Properties Omap_Interface
begin

text \<open>
  The properties of the client's AVL map on the local bucket tree, as facts of the interpretation \<open>tree\<close>:
  searches, updates and dummy accesses are those of a map, insertion adds a key, and every operation makes
  the same number of ORAM accesses.
\<close>

section \<open>Sequences of operations\<close>

datatype av_query = AvSearch i32 | AvUpdate i32 bytes | AvDummy | AvPartialDummy

text \<open>The values a sequence writes.\<close>

fun av_written :: "av_query \<Rightarrow> bytes set" where
  "av_written (AvUpdate k u) = {u}"
| "av_written q = {}"

fun av_run ::
  "oram_env \<Rightarrow> 's storage_ops \<Rightarrow> av_query list \<Rightarrow> 's avl_omap \<Rightarrow> rng \<Rightarrow> (bytes list \<times> 's avl_omap \<times> rng) result" where
  "av_run E ops [] t r = Inr ([], t, r)"
| "av_run E ops (q # qs) t r =
     bind_result
       (case q of
          AvSearch k \<Rightarrow> bind_result (av_search E ops k None t r) (\<lambda>(v, t1, r1). Inr ([v], t1, r1))
        | AvUpdate k u \<Rightarrow> bind_result (av_search E ops k (Some u) t r) (\<lambda>(v, t1, r1). Inr ([v], t1, r1))
        | AvDummy \<Rightarrow> bind_result (av_dummy_access E ops t r) (\<lambda>(t1, r1). Inr ([], t1, r1))
        | AvPartialDummy \<Rightarrow> bind_result (av_partial_dummy_access E ops t r) (\<lambda>(t1, r1). Inr ([], t1, r1)))
       (\<lambda>(vs, t1, r1). bind_result (av_run E ops qs t1 r1) (\<lambda>(ws, t2, r2). Inr (vs @ ws, t2, r2)))"

text \<open>The same requests to a map: an absent key reads as the empty value, and its update does nothing.\<close>

fun av_map_run :: "av_query list \<Rightarrow> (i32 \<rightharpoonup> bytes) \<Rightarrow> bytes list \<times> (i32 \<rightharpoonup> bytes)" where
  "av_map_run [] m = ([], m)"
| "av_map_run (AvSearch k # qs) m = (read_of m k # fst (av_map_run qs m), snd (av_map_run qs m))"
| "av_map_run (AvUpdate k u # qs) m =
     (let m' = (if m k = None then m else m(k \<mapsto> u)) in (read_of m k # fst (av_map_run qs m'), snd (av_map_run qs m')))"
| "av_map_run (AvDummy # qs) m = av_map_run qs m"
| "av_map_run (AvPartialDummy # qs) m = av_map_run qs m"

definition avl_holds :: "oram_env \<Rightarrow> bucket_tree avl_omap \<Rightarrow> kv_tree \<Rightarrow> bool" where
  "avl_holds E t tree \<longleftrightarrow> av_stores (oe_crypto E) tree_inv bucket_at tree_ops t tree"

lemma avl_holds_ordered: "avl_holds E t tree \<Longrightarrow> key_ordered tree"
  by (simp add: avl_holds_def av_stores_def)

lemma height_upd_tree [simp]: "height (upd_tree k u tree) = height tree"
  by (simp add: upd_tree_def split: option.split)

lemma tree_map_upd_tree:
  assumes "key_ordered tree"
  shows "tree_map (upd_tree k (Some u) tree) = (if tree_map tree k = None then tree_map tree else (tree_map tree)(k \<mapsto> u))"
  using assms tree_map_set_val [of tree k u] set_val_id [of k tree u]
  by (auto simp: upd_tree_def tree_map_None)

context bucket_storage
begin

lemma partial_dummy_spec:
  assumes E: "good_env E" and st: "av_stores (oe_crypto E) inv bucket ops t tree"
  shows "safe_run (av_partial_dummy_access E ops t r)
    (\<lambda>(t', r'). av_stores (oe_crypto E) inv bucket ops t' tree \<and> av_keeps t t')"
proof (cases "av_split_depth t \<le> 0")
  case True
  then show ?thesis using dummy_spec [OF E st] by (simp add: av_partial_dummy_access_def)
next
  case False
  let ?t = "av_begin t"
  have "av_stores (oe_crypto E) inv bucket ops ?t tree" using st by (simp add: av_stores_cong [of ?t t])
  then obtain mu ml where m: "av_ok (oe_crypto E) inv bucket ops ?t mu ml"
    "tree_at (av_view ?t mu ml) node_fits 0 (av_root_key t) (av_root_leaf t) tree"
    "only_keys (av_view ?t mu ml) tree" "key_ordered tree"
    unfolding av_stores_def begin_fields by blast
  have s: "po_state (oe_crypto E) inv bucket ops {} (av_upper ?t) mu" "po_state (oe_crypto E) inv bucket ops {} (av_lower ?t) ml"
    using m(1) False by (simp_all add: av_ok_def)
  have low: "safe_run (po_dummy_access E ops (av_lower ?t) r1) (\<lambda>(p', r'). po_state (oe_crypto E) inv bucket ops {} p' ml)" for r1
    by (rule safe_run_mono [OF po_dummy_access_state [OF E s(2)]]) auto
  have final: "av_stores (oe_crypto E) inv bucket ops t' tree \<and> av_keeps t t'"
    if u: "po_state (oe_crypto E) inv bucket ops {} u mu" and l: "po_state (oe_crypto E) inv bucket ops {} l ml"
      and t': "t' = finalize_bw ops (?t\<lparr>av_upper := u, av_lower := l, av_upper_ops := a, av_lower_ops := b\<rparr>)" for u l a b t'
  proof -
    have f: "av_upper t' = u" "av_lower t' = l" "av_split_depth t' = av_split_depth ?t" "av_root_key t' = av_root_key t"
      "av_root_leaf t' = av_root_leaf t"
      by (simp_all add: t')
    have "av_ok (oe_crypto E) inv bucket ops t' mu ml" using u l by (simp add: av_ok_def f)
    moreover have "av_view t' = av_view ?t" by (simp add: av_view_def av_map_at_def av_is_upper_def f fun_eq_iff)
    ultimately have "av_stores (oe_crypto E) inv bucket ops t' tree"
      unfolding av_stores_def using m(2-4) f by (intro conjI exI [of _ mu] exI [of _ ml]) simp_all
    then show ?thesis by (simp add: t' av_keeps_def av_conf_def)
  qed
  show ?thesis
    unfolding av_partial_dummy_access_def if_not_P [OF False] Let_def
    by (rule safe_run_bind [OF dummies_state [OF E s(1)]], clarify, rule safe_run_bind [OF low], clarify)
      (use final in simp)
qed

lemma run_spec:
  assumes E: "good_env E" and st: "av_stores (oe_crypto E) inv bucket ops t tree" "int (height tree) \<le> av_max_height t"
    and "\<forall>q\<in>set qs. \<forall>u\<in>av_written q. node_fits u"
  shows "safe_run (av_run E ops qs t r) (\<lambda>(vs, t', r'). \<exists>tree'. av_stores (oe_crypto E) inv bucket ops t' tree'
      \<and> av_conf t t' \<and> height tree' = height tree
      \<and> vs = fst (av_map_run qs (tree_map tree)) \<and> tree_map tree' = snd (av_map_run qs (tree_map tree)))"
  using st assms(4)
proof (induction qs arbitrary: t tree r)
  case Nil
  then show ?case by auto
next
  case (Cons q qs)
  have ord: "key_ordered tree" using Cons.prems(1) by (simp add: av_stores_def)
  let ?step = "case q of
          AvSearch k \<Rightarrow> bind_result (av_search E ops k None t r) (\<lambda>(v, t1, r1). Inr ([v], t1, r1))
        | AvUpdate k u \<Rightarrow> bind_result (av_search E ops k (Some u) t r) (\<lambda>(v, t1, r1). Inr ([v], t1, r1))
        | AvDummy \<Rightarrow> bind_result (av_dummy_access E ops t r) (\<lambda>(t1, r1). Inr ([], t1, r1))
        | AvPartialDummy \<Rightarrow> bind_result (av_partial_dummy_access E ops t r) (\<lambda>(t1, r1). Inr ([], t1, r1))"
  have step: "safe_run ?step (\<lambda>(vs, t', r'). \<exists>tree'. av_stores (oe_crypto E) inv bucket ops t' tree'
      \<and> av_conf t t' \<and> height tree' = height tree
      \<and> av_map_run (q # qs) (tree_map tree) =
          (vs @ fst (av_map_run qs (tree_map tree')), snd (av_map_run qs (tree_map tree'))))"
  proof (cases q)
    case (AvSearch k)
    show ?thesis
      unfolding AvSearch av_query.case
      by (rule safe_run_bind [OF search_spec [OF E Cons.prems(1,2), of None k]], clarify)
        (use tree_map_upd_tree [OF ord] in \<open>auto simp: upd_tree_def read_of_def av_same_def intro!: exI [of _ tree]\<close>)
  next
    case (AvUpdate k u)
    then have fu: "\<forall>w. Some u = Some w \<longrightarrow> node_fits w" using Cons.prems(3) by simp
    show ?thesis
      unfolding AvUpdate av_query.case
      by (rule safe_run_bind [OF search_spec [OF E Cons.prems(1,2) fu, of k]], clarify)
        (use tree_map_upd_tree [OF ord, of k u] in
          \<open>auto simp: read_of_def av_same_def Let_def intro!: exI [of _ "upd_tree k (Some u) tree"]\<close>)
  next
    case AvDummy
    show ?thesis
      unfolding AvDummy av_query.case
      by (rule safe_run_bind [OF dummy_spec [OF E Cons.prems(1)]], clarify) (auto simp: av_keeps_def intro!: exI [of _ tree])
  next
    case AvPartialDummy
    show ?thesis
      unfolding AvPartialDummy av_query.case
      by (rule safe_run_bind [OF partial_dummy_spec [OF E Cons.prems(1)]], clarify)
        (auto simp: av_keeps_def intro!: exI [of _ tree])
  qed
  show ?case
    unfolding av_run.simps
  proof (rule safe_run_bind [OF step], clarify)
    fix vs t1 r1 tree1
    assume t1: "av_stores (oe_crypto E) inv bucket ops t1 tree1" "av_conf t t1" "height tree1 = height tree"
      "av_map_run (q # qs) (tree_map tree) =
          (vs @ fst (av_map_run qs (tree_map tree1)), snd (av_map_run qs (tree_map tree1)))"
    have rest: "\<forall>q\<in>set qs. \<forall>u\<in>av_written q. node_fits u" using Cons.prems(3) by simp
    have h: "int (height tree1) \<le> av_max_height t1" using t1(2,3) Cons.prems(2) by (simp add: av_conf_def)
    show "safe_run (bind_result (av_run E ops qs t1 r1) (\<lambda>(ws, t2, r2). Inr (vs @ ws, t2, r2)))
      (\<lambda>(vs, t', r'). \<exists>tree'. av_stores (oe_crypto E) inv bucket ops t' tree' \<and> av_conf t t' \<and> height tree' = height tree
      \<and> vs = fst (av_map_run (q # qs) (tree_map tree)) \<and> tree_map tree' = snd (av_map_run (q # qs) (tree_map tree)))"
      unfolding t1(4)
      by (rule safe_run_bind [OF Cons.IH [OF t1(1) h rest]], clarify) (use t1(2,3) av_conf_trans in auto)
  qed
qed

end

text \<open>
  Claim C10: the AVL map on the local tree is a map. Whatever the random draws and the nonces are, with one
  ORAM or with the tree split over two, a sequence of searches, updates and dummy accesses returns what the
  sequence of lookups and updates of the map returns, an absent key as the empty value, and leaves a search
  tree of the same height for the map of the end; the only failure is a stash overflow. The values written are
  short enough for their nodes to be encrypted, and the cipher and its random nonces are ready.
\<close>

theorem avl_omap_refines_map:
  assumes "good_env E" "avl_holds E t tree" "int (height tree) \<le> av_max_height t"
    and "\<forall>q\<in>set qs. \<forall>u\<in>av_written q. node_fits u"
  shows "safe_run (av_run E tree_ops qs t r) (\<lambda>(vs, t', r'). \<exists>tree'. avl_holds E t' tree' \<and> height tree' = height tree
    \<and> vs = fst (av_map_run qs (tree_map tree)) \<and> tree_map tree' = snd (av_map_run qs (tree_map tree)))"
  by (rule safe_run_mono [OF tree.run_spec [OF assms(1) assms(2) [unfolded avl_holds_def] assms(3,4)]])
    (auto simp: avl_holds_def)

text \<open>
  Claim C11: with one ORAM, inserting a new non-negative key, whose value is short enough for its node to be
  encrypted, into a tree that is not higher than \<open>max_height\<close> never fails but by a stash overflow. The stored
  tree, rebalanced on the nodes of the path, is a search tree that lists the old entries and the new one.
\<close>

theorem avl_insert_correct:
  assumes "good_env E" "avl_holds E t tree" "int (height tree) \<le> av_max_height t" "av_split_depth t \<le> 0"
    and "k \<notin> keys_of tree" "0 \<le> sint k" "node_fits v"
  shows "safe_run (av_insert E tree_ops k v t r) (\<lambda>(t', r'). \<exists>tree'. avl_holds E t' tree'
    \<and> inorder tree' = insort_key (\<lambda>e. sint (fst e)) (k, v) (inorder tree) \<and> tree_map tree' = (tree_map tree)(k \<mapsto> v))"
proof -
  note ord = avl_holds_ordered [OF assms(2)]
  have ins: "inorder (ins k v tree) = insort_key (\<lambda>e. sint (fst e)) (k, v) (inorder tree)"
    using ord assms(5) by (rule inorder_ins)
  have "tree_map tree' = (tree_map tree)(k \<mapsto> v)" if "inorder tree' = inorder (ins k v tree)" for tree'
    using tree_map_ins [OF ord assms(5,6)] that by (simp add: tree_map_def)
  with ins show ?thesis
    by (intro safe_run_mono [OF tree.insert_spec [OF assms(1) assms(2) [unfolded avl_holds_def] assms(3-7)]])
      (auto simp: avl_holds_def)
qed

datatype av_command = AvQuery av_query | AvInsert i32 bytes

fun av_request ::
  "oram_env \<Rightarrow> 's storage_ops \<Rightarrow> av_command \<Rightarrow> 's avl_omap \<Rightarrow> rng \<Rightarrow> ('s avl_omap \<times> rng) result" where
  "av_request E ops (AvQuery (AvSearch k)) t r = bind_result (av_search E ops k None t r) (\<lambda>(v, t1, r1). Inr (t1, r1))"
| "av_request E ops (AvQuery (AvUpdate k u)) t r = bind_result (av_search E ops k (Some u) t r) (\<lambda>(v, t1, r1). Inr (t1, r1))"
| "av_request E ops (AvQuery AvDummy) t r = av_dummy_access E ops t r"
| "av_request E ops (AvQuery AvPartialDummy) t r = av_partial_dummy_access E ops t r"
| "av_request E ops (AvInsert k v) t r = av_insert E ops k v t r"

text \<open>What an operation asks of its key and value; a partial dummy access is a full one only with a single ORAM.\<close>

fun full_request :: "av_command \<Rightarrow> 's avl_omap \<Rightarrow> kv_tree \<Rightarrow> bool" where
  "full_request (AvInsert k v) t tree \<longleftrightarrow> av_split_depth t \<le> 0 \<and> k \<notin> keys_of tree \<and> 0 \<le> sint k \<and> node_fits v"
| "full_request (AvQuery (AvUpdate k u)) t tree \<longleftrightarrow> node_fits u"
| "full_request (AvQuery AvPartialDummy) t tree \<longleftrightarrow> av_split_depth t \<le> 0"
| "full_request q t tree \<longleftrightarrow> True"

lemma request_runs:
  assumes "good_env E" "avl_holds E t tree" "int (height tree) \<le> av_max_height t" "full_request q t tree"
  shows "safe_run (av_request E tree_ops q t r) (\<lambda>_. True)"
proof -
  note st = assms(2) [unfolded avl_holds_def]
  note search = tree.search_spec [OF assms(1) st assms(3)]
  show ?thesis
  proof (cases q)
    case (AvQuery q')
    show ?thesis
    proof (cases q')
      case (AvSearch k)
      show ?thesis unfolding AvQuery AvSearch av_request.simps by (rule safe_run_bind [OF search [of None k r]]) auto
    next
      case (AvUpdate k u)
      show ?thesis unfolding AvQuery AvUpdate av_request.simps by (rule safe_run_bind [OF search [of "Some u" k r]]) (use assms(4) AvQuery AvUpdate in auto)
    next
      case AvDummy
      show ?thesis unfolding AvQuery AvDummy av_request.simps by (rule safe_run_mono [OF tree.dummy_spec [OF assms(1) st]]) simp
    next
      case AvPartialDummy
      show ?thesis
        unfolding AvQuery AvPartialDummy av_request.simps
        by (rule safe_run_mono [OF tree.partial_dummy_spec [OF assms(1) st]]) simp
    qed
  next
    case (AvInsert k v)
    with assms(4) have k: "av_split_depth t \<le> 0" "k \<notin> keys_of tree" "0 \<le> sint k" "node_fits v" by simp_all
    show ?thesis
      unfolding AvInsert av_request.simps
      by (rule safe_run_mono [OF tree.insert_spec [OF assms(1) st assms(3) k]]) simp
  qed
qed

lemma request_counts:
  assumes "av_request E ops q t r = Inr (t', r')" "full_request q t tree" "av_sized t"
  shows "av_counts t' = budget_counts (av_split_depth t) (3 * av_max_height t)"
  using assms search_op_counts insert_op_counts dummy_op_counts
  by (cases "(E, ops, q, t, r)" rule: av_request.cases)
    (fastforce simp: bind_result_Inr_iff av_partial_dummy_access_def)+

text \<open>
  Claim C12: every search, update and dummy access, over one ORAM or over two, makes \<open>3 * max_height\<close> ORAM
  accesses, split between the two ORAMs in a fixed proportion, whatever the key, the value and the outcome are.
  With one ORAM so do a partial dummy access and the insertion of a new non-negative key. The operation does
  not fail but by a stash overflow, a written value being short enough for its node to be encrypted.
\<close>

theorem avl_access_counts:
  assumes "good_env E" "avl_holds E t tree" "int (height tree) \<le> av_max_height t" "av_sized t" "full_request q t tree"
  shows "safe_run (av_request E tree_ops q t r) (\<lambda>(t', r'). av_counts t' =
    (if av_split_depth t > 0
     then (min (av_split_depth t) (3 * av_max_height t), 3 * av_max_height t - min (av_split_depth t) (3 * av_max_height t), 0)
     else (0, 0, 3 * av_max_height t)))"
proof -
  have "case y of (t', r') \<Rightarrow> av_counts t' = budget_counts (av_split_depth t) (3 * av_max_height t)"
    if "av_request E tree_ops q t r = Inr y" for y
    using request_counts [OF _ assms(5,4)] that by (cases y) auto
  then show ?thesis
    using request_runs [OF assms(1-3,5), of r] by (cases "av_request E tree_ops q t r") (auto simp: budget_counts_def)
qed

section \<open>A stored map\<close>

definition single_tree :: "i32 \<Rightarrow> bytes \<Rightarrow> kv_tree" where
  "single_tree k v = Node Leaf (k, v) Leaf"

lemma single_tree_facts: "tree_map (single_tree k v) = [k \<mapsto> v]" "keys_of (single_tree k v) = {k}" "height (single_tree k v) = 1"
  "0 \<le> sint k \<Longrightarrow> key_ordered (single_tree k v)" "inorder (single_tree k v) = [(k, v)]"
  by (auto simp: single_tree_def tree_map_def)

lemma single_avl:
  assumes "0 \<le> sint k" "node_fits v"
  obtains t :: "bucket_tree avl_omap" where "avl_holds xor_env t (single_tree k v)" "av_split_depth t = 0"
    "av_max_height t = 4" "av_sized t"
proof -
  let ?v = "encode_node (new_avl_node v)"
  have k: "k \<noteq> INVALID_KEY" using assms(1) by (auto simp: INVALID_KEY_def)
  have fit: "fits_cipher ?v" using assms(2) by (simp add: node_fits_encode new_avl_node_def)
  obtain p where p: "tree_rep xor_env p (map_of [(k, ?v)])"
    using tree_load [OF xor_env_good, of 7 2 "[(k, ?v)]" 4 "[]"] demo_load(3) k fit by auto
  then obtain m where m: "po_state (oe_crypto xor_env) tree_inv bucket_at tree_ops {} p m" "[k \<mapsto> ?v] = map_option snd \<circ> m"
    unfolding tree_rep_def po_rep_def by auto
  have "map_option snd (m k) = Some ?v" using fun_cong [OF m(2), of k] by simp
  then obtain lf where lf: "m k = Some (lf, ?v)" by (cases "m k") auto
  have others: "m x = None" if "x \<noteq> k" for x using fun_cong [OF m(2), of x] that by (cases "m x") auto
  let ?t = "(avl_fresh 4 0 default_path_oram p)\<lparr>av_root_key := k, av_root_leaf := lf, av_max_height := 4\<rparr>"
  have f: "av_split_depth ?t = 0" "av_max_height ?t = 4" "\<not> av_ods_mode ?t" "av_lower ?t = p" "av_root_key ?t = k"
    "av_root_leaf ?t = lf"
    by (simp_all add: avl_fresh_def)
  have view: "av_view ?t Map.empty m = (\<lambda>_. m)" by (simp add: av_view_def av_map_at_def av_is_upper_def f fun_eq_iff)
  have "tree_at (\<lambda>_. m) node_fits 0 k lf (single_tree k v)"
    using lf assms k by (auto simp: single_tree_def INVALID_KEY_def new_avl_node_def)
  moreover have "only_keys (\<lambda>_. m) (single_tree k v)"
    unfolding only_keys_def single_tree_facts(2)
  proof (intro allI impI)
    fix x assume "m x \<noteq> None"
    then have "x = k" by (rule contrapos_np) (rule others)
    then show "x \<in> {k}" by simp
  qed
  moreover have "av_ok (oe_crypto xor_env) tree_inv bucket_at tree_ops ?t Map.empty m" using m(1) by (simp add: av_ok_def f)
  ultimately have "avl_holds xor_env ?t (single_tree k v)"
    unfolding avl_holds_def av_stores_def f view [symmetric] using single_tree_facts(4) [OF assms(1)] by blast
  then show ?thesis using that [of ?t] f by (simp add: av_sized_def)
qed

lemma small_fits: "length v \<le> 100 \<Longrightarrow> node_fits v"
  by (simp add: node_fits_def AES_IV_LEN_def AVL_HEADER_SIZE_def)

abbreviation demo_tree :: kv_tree where
  "demo_tree \<equiv> single_tree 5 [1]"

lemmas demo_tree_facts = single_tree_facts [of 5 "[1]", simplified]

lemma demo_avl:
  obtains t :: "bucket_tree avl_omap" where "avl_holds xor_env t demo_tree" "av_split_depth t = 0" "av_max_height t = 4" "av_sized t"
  by (rule single_avl [of 5 "[1]"]) (simp, simp add: small_fits, blast intro: that)


theorem avl_omap_refines_map_witness:
  "\<exists>t. avl_holds xor_env t demo_tree
    \<and> safe_run (av_run xor_env tree_ops [AvSearch 5, AvUpdate 5 [7], AvDummy, AvSearch 6, AvPartialDummy, AvSearch 5] t [3])
        (\<lambda>(vs, t', r'). vs = [[1], [1], [], [7]])"
proof -
  obtain t where t: "avl_holds xor_env t demo_tree" "av_max_height t = 4" using demo_avl by metis
  let ?qs = "[AvSearch 5, AvUpdate 5 [7], AvDummy, AvSearch 6, AvPartialDummy, AvSearch 5]"
  have "fst (av_map_run ?qs (tree_map demo_tree)) = [[1], [1], [], [7]]"
    by (simp add: demo_tree_facts read_of_def Let_def)
  moreover have "int (height demo_tree) \<le> av_max_height t" using t(2) by (simp add: demo_tree_facts)
  moreover have "\<forall>q\<in>set ?qs. \<forall>u\<in>av_written q. node_fits u" by (simp add: small_fits)
  note avl_omap_refines_map [OF xor_env_good t(1) calculation(2) this, of "[3]"]
  ultimately have "safe_run (av_run xor_env tree_ops ?qs t [3]) (\<lambda>(vs, t', r'). vs = [[1], [1], [], [7]])"
    by (auto elim!: safe_run_mono)
  then show ?thesis using t(1) by blast
qed

theorem avl_insert_correct_witness:
  "\<exists>t. avl_holds xor_env t demo_tree
    \<and> safe_run (av_insert xor_env tree_ops 3 [9] t [2])
        (\<lambda>(t', r'). \<exists>tree'. avl_holds xor_env t' tree' \<and> inorder tree' = [(3, [9]), (5, [1])] \<and> tree_map tree' = [5 \<mapsto> [1], 3 \<mapsto> [9]])"
proof -
  obtain t where t: "avl_holds xor_env t demo_tree" "av_max_height t = 4" "av_split_depth t = 0" using demo_avl by metis
  have h: "int (height demo_tree) \<le> av_max_height t" "av_split_depth t \<le> 0" using t(2,3) by (simp_all add: demo_tree_facts)
  have "safe_run (av_insert xor_env tree_ops 3 [9] t [2]) (\<lambda>(t', r'). \<exists>tree'. avl_holds xor_env t' tree'
      \<and> inorder tree' = insort_key (\<lambda>e. sint (fst e)) (3, [9]) (inorder demo_tree) \<and> tree_map tree' = (tree_map demo_tree)(3 \<mapsto> [9]))"
    by (rule avl_insert_correct [OF xor_env_good t(1) h]) (simp_all add: demo_tree_facts small_fits)
  then show ?thesis using t(1) by (auto simp: demo_tree_facts)
qed

theorem avl_access_counts_witness:
  "\<exists>t. avl_holds xor_env t demo_tree
    \<and> safe_run (av_request xor_env tree_ops (AvInsert 3 [9]) t [2]) (\<lambda>(t', r'). av_counts t' = (0, 0, 12))"
proof -
  obtain t where t: "avl_holds xor_env t demo_tree" "av_max_height t = 4" "av_split_depth t = 0" "av_sized t" using demo_avl by metis
  have "int (height demo_tree) \<le> av_max_height t" using t(2) by (simp add: demo_tree_facts)
  from avl_access_counts [OF xor_env_good t(1) this t(4), of "AvInsert 3 [9]" "[2]"] t show ?thesis
    by (auto simp: demo_tree_facts small_fits)
qed

end
