(* ===== verification/Tiered_Omap.thy ===== *)
theory Tiered_Omap
  imports Omap_Interface Path_Oram Maintenance
begin

text \<open>
  \<open>src/tiered_omap.cpp\<close> without its interleaved access: a map in two tiers. Both tiers map keys to references
  of blocks in one data ORAM; the hot tier is small. With maintenance, keys move between the tiers through a
  cache on the client: an eviction from the cache waits as the pending entry until its insert step comes up.
\<close>

section \<open>Configuration and state\<close>

datatype security_mode = FullOblivious | TierMembership

datatype omap_backend = AvlBackend | BPlusBackend | DaAvlBackend | DaBplusBackend

record tiered_config =
  tc_total_keys :: i32
  tc_hot_set_size :: i32
  tc_mode :: security_mode
  tc_use_split :: bool
  tc_bucket_size :: i32
  tc_backend :: omap_backend
  tc_hot_backend :: omap_backend
  tc_use_hot_backend :: bool
  tc_bplus_order :: i32
  tc_maintenance :: maintenance_config

definition effective_hot_backend :: "tiered_config \<Rightarrow> omap_backend" where
  "effective_hot_backend c = (if tc_use_hot_backend c then tc_hot_backend c else tc_backend c)"

definition is_da :: "omap_backend \<Rightarrow> bool" where
  "is_da be \<longleftrightarrow> be = DaAvlBackend \<or> be = DaBplusBackend"

record tm_access_result =
  ar_value :: bytes
  ar_found_in_hot :: bool
  ar_hot_bw :: bandwidth
  ar_cold_bw :: bandwidth
  ar_total_bw :: bandwidth
  ar_rounds :: i32
  ar_last_fp :: i32
  ar_scan_ref :: bytes
  ar_cold_ref :: bytes
  ar_hot_insert_done :: bool
  ar_cold_insert_done :: bool
  ar_decision_handled :: bool
  ar_promotion_done :: bool
  ar_scan_handled :: bool
  ar_scan_demoted :: bool
  ar_scan_fp :: i32

definition new_result :: tm_access_result where
  "new_result =
     \<lparr>ar_value = [], ar_found_in_hot = False, ar_hot_bw = zero_bandwidth, ar_cold_bw = zero_bandwidth,
      ar_total_bw = zero_bandwidth, ar_rounds = 0, ar_last_fp = 0, ar_scan_ref = [], ar_cold_ref = [],
      ar_hot_insert_done = False, ar_cold_insert_done = False, ar_decision_handled = False,
      ar_promotion_done = False, ar_scan_handled = False, ar_scan_demoted = False, ar_scan_fp = 0\<rparr>"

text \<open>
  Hash sets of keys are sets, and the hash map of the references of cached keys is a map. \<open>'o\<close> is the state of a
  tier's map, \<open>'s\<close> that of the storage of the data ORAM, \<open>'w\<close> that of the channel for batches. The pointers to the
  maps are null before \<open>init\<close>.
\<close>

record ('o, 's, 'w) tiered_omap =
  tm_config :: tiered_config
  tm_channel :: "'w option"
  tm_hot :: "'o option"
  tm_cold :: "'o option"
  tm_data :: "'s path_oram"
  tm_next_block :: i32
  tm_hot_keys :: "i32 set"
  tm_phys_hot :: "i32 set"
  tm_hot_list :: "i32 list"
  tm_maint :: "maintenance_manager option"
  tm_hot_capacity :: i32
  tm_cache_keys :: "i32 set"
  tm_cache_refs :: "i32 \<rightharpoonup> bytes"
  tm_pending_key :: i32
  tm_pending_ref :: bytes
  tm_pending_demotions :: "(i32 \<times> i32) list"
  tm_force_cold_dummy :: bool

text \<open>Which map a tier is made of; the constructors are those of the map classes.\<close>

datatype omap_spec =
    MakeAvl i32 i32
  | MakeAvlSplit i32 i32 i32 i32
  | MakeBPlus i32 i32 i32
  | MakeBPlusSplit i32 i32 i32 i32 i32
  | MakeDaAvl i32 i32
  | MakeDaBplus i32 i32 i32

text \<open>
  What the code has around it: the classes of the maps and of the storage, the order of a hash map, the
  floating-point \<open>floor(log(a) / log(b))\<close>, the scan of the distributed map, and the batches over the channel.
\<close>

record ('o, 's, 'w) tiered_env =
  te_oram :: oram_env
  te_ops :: "'s storage_ops"
  te_create :: "int \<Rightarrow> int \<Rightarrow> 's result"
  te_omap :: "'o omap_ops"
  te_construct :: "omap_spec \<Rightarrow> rng \<Rightarrow> ('o \<times> rng) result"
  te_log_floor :: "int \<Rightarrow> int \<Rightarrow> int"
  te_block_order :: "(i32 \<times> bytes) list \<Rightarrow> (i32 \<times> bytes) list"
  te_da_scan :: "('o, scan_result) omap_op"
  te_batch_read :: "(i32 \<times> i32) list \<Rightarrow> 'w \<Rightarrow> (path_map list \<times> 'w) result"
  te_batch_write :: "(i32 \<times> path_map) list \<Rightarrow> 'w \<Rightarrow> 'w result"

section \<open>Tiers, references and the data ORAM\<close>

datatype tier = Hot | Cold

fun other_tier :: "tier \<Rightarrow> tier" where
  "other_tier Hot = Cold"
| "other_tier Cold = Hot"

fun tier_omap :: "tier \<Rightarrow> ('o, 's, 'w) tiered_omap \<Rightarrow> 'o option" where
  "tier_omap Hot tm = tm_hot tm"
| "tier_omap Cold tm = tm_cold tm"

fun put_tier :: "tier \<Rightarrow> 'o \<Rightarrow> ('o, 's, 'w) tiered_omap \<Rightarrow> ('o, 's, 'w) tiered_omap" where
  "put_tier Hot s tm = tm\<lparr>tm_hot := Some s\<rparr>"
| "put_tier Cold s tm = tm\<lparr>tm_cold := Some s\<rparr>"

text \<open>A call of a virtual function of a tier's map, with a value and without.\<close>

definition ask_tier ::
  "('o, 'a) omap_op \<Rightarrow> tier \<Rightarrow> ('o, 's, 'w) tiered_omap \<Rightarrow> rng \<Rightarrow> ('a \<times> ('o, 's, 'w) tiered_omap \<times> rng) result" where
  "ask_tier f tr tm r =
     (case tier_omap tr tm of None \<Rightarrow> Inl NullPointer
      | Some s \<Rightarrow> bind_result (f s r) (\<lambda>(x, s', r'). Inr (x, put_tier tr s' tm, r')))"

definition run_tier ::
  "'o omap_step \<Rightarrow> tier \<Rightarrow> ('o, 's, 'w) tiered_omap \<Rightarrow> rng \<Rightarrow> (('o, 's, 'w) tiered_omap \<times> rng) result" where
  "run_tier f tr tm r =
     (case tier_omap tr tm of None \<Rightarrow> Inl NullPointer
      | Some s \<Rightarrow> bind_result (f s r) (\<lambda>(s', r'). Inr (put_tier tr s' tm, r')))"

definition see_tier :: "('o \<Rightarrow> 'a) \<Rightarrow> tier \<Rightarrow> ('o, 's, 'w) tiered_omap \<Rightarrow> 'a result" where
  "see_tier f tr tm = (case tier_omap tr tm of None \<Rightarrow> Inl NullPointer | Some s \<Rightarrow> Inr (f s))"

definition INVALID_BLOCK :: i32 where
  "INVALID_BLOCK = - 1"

definition ref_to_blk :: "bytes \<Rightarrow> i32" where
  "ref_to_blk ref = (if ref = [] then INVALID_BLOCK else bytes_to_int ref)"

definition data_access ::
  "('o, 's, 'w) tiered_env \<Rightarrow> i32 \<Rightarrow> bytes option \<Rightarrow> ('o, 's, 'w) tiered_omap \<Rightarrow> rng
    \<Rightarrow> (bytes \<times> ('o, 's, 'w) tiered_omap \<times> rng) result" where
  "data_access te blk new_value tm r =
     (if sint blk < 0
      then bind_result (po_dummy_access (te_oram te) (te_ops te) (tm_data tm) r) (\<lambda>(p, r1). Inr ([], tm\<lparr>tm_data := p\<rparr>, r1))
      else bind_result (po_access (te_oram te) (te_ops te) blk new_value (tm_data tm) r) (\<lambda>(v, p, r1).
             Inr (v, tm\<lparr>tm_data := p\<rparr>, r1)))"

definition data_dummy ::
  "('o, 's, 'w) tiered_env \<Rightarrow> ('o, 's, 'w) tiered_omap \<Rightarrow> rng \<Rightarrow> (('o, 's, 'w) tiered_omap \<times> rng) result" where
  "data_dummy te tm r =
     bind_result (po_dummy_access (te_oram te) (te_ops te) (tm_data tm) r) (\<lambda>(p, r1). Inr (tm\<lparr>tm_data := p\<rparr>, r1))"

text \<open>\<open>maint_->\<close> is used only where maintenance is on.\<close>

definition with_maint :: "('o, 's, 'w) tiered_omap \<Rightarrow> (maintenance_manager \<Rightarrow> 'a result) \<Rightarrow> 'a result" where
  "with_maint tm f = (case tm_maint tm of None \<Rightarrow> Inl NullPointer | Some mm \<Rightarrow> f mm)"

definition put_maint :: "maintenance_manager \<Rightarrow> ('o, 's, 'w) tiered_omap \<Rightarrow> ('o, 's, 'w) tiered_omap" where
  "put_maint mm tm = tm\<lparr>tm_maint := Some mm\<rparr>"

section \<open>The sorted list of hot keys\<close>

text \<open>\<open>std::lower_bound\<close> and \<open>std::upper_bound\<close> on a sorted vector.\<close>

definition list_insert :: "i32 \<Rightarrow> i32 list \<Rightarrow> i32 list" where
  "list_insert k ks = takeWhile (\<lambda>x. sint x < sint k) ks @ k # dropWhile (\<lambda>x. sint x < sint k) ks"

definition list_erase :: "i32 \<Rightarrow> i32 list \<Rightarrow> i32 list" where
  "list_erase k ks =
     (case dropWhile (\<lambda>x. sint x < sint k) ks of
        [] \<Rightarrow> ks
      | y # ys \<Rightarrow> if y = k then takeWhile (\<lambda>x. sint x < sint k) ks @ ys else ks)"

definition list_above :: "i32 \<Rightarrow> i32 list \<Rightarrow> i32 list" where
  "list_above k ks = dropWhile (\<lambda>x. sint x \<le> sint k) ks"

section \<open>Construction\<close>

definition new_tiered_omap :: "tiered_config \<Rightarrow> ('o, 's, 'w) tiered_omap" where
  "new_tiered_omap cfg =
     \<lparr>tm_config = cfg, tm_channel = None, tm_hot = None, tm_cold = None,
      tm_data =
        \<lparr>po_num_data = 0, po_bucket_size = 4, po_stash_max_size = 0, po_storage = None, po_stash = [],
         po_pos_map = Map.empty, po_block_size_bytes = 0, po_last_bw = zero_bandwidth,
         po_total_bw = zero_bandwidth, po_aes_key = [], po_cached_level = 0, po_cached_leaf_range = 0\<rparr>,
      tm_next_block = 0, tm_hot_keys = {}, tm_phys_hot = {}, tm_hot_list = [],
      tm_maint = (if mc_enabled (tc_maintenance cfg) then Some (new_maintenance_manager (tc_maintenance cfg)) else None),
      tm_hot_capacity = 0, tm_cache_keys = {}, tm_cache_refs = Map.empty,
      tm_pending_key = INVALID_KEY, tm_pending_ref = [], tm_pending_demotions = [], tm_force_cold_dummy = False\<rparr>"

text \<open>The first keys of the sorted list leave the hot tier for the cache.\<close>

fun extract_keys ::
  "('o, 's, 'w) tiered_env \<Rightarrow> i32 list \<Rightarrow> ('o, 's, 'w) tiered_omap \<Rightarrow> rng
    \<Rightarrow> (cache_entry list \<times> ('o, 's, 'w) tiered_omap \<times> rng) result" where
  "extract_keys te [] tm r = Inr ([], tm, r)"
| "extract_keys te (k # ks) tm r =
     bind_result (ask_tier (oi_search (te_omap te) k None) Hot tm r) (\<lambda>(ref, tm1, r1).
     bind_result (run_tier (oi_remove (te_omap te) k) Hot tm1 r1) (\<lambda>(tm2, r2).
     bind_result (extract_keys te ks
         (tm2\<lparr>tm_phys_hot := tm_phys_hot tm2 - {k}, tm_cache_keys := insert k (tm_cache_keys tm2),
              tm_cache_refs := (tm_cache_refs tm2)(k \<mapsto> ref)\<rparr>) r2) (\<lambda>(es, tm3, r3).
       Inr (\<lparr>ce_key = k, ce_fp = 0\<rparr> # es, tm3, r3))))"

text \<open>A negative count makes the iterator range end before it begins, which is undefined.\<close>

definition fill_cache ::
  "('o, 's, 'w) tiered_env \<Rightarrow> i32 \<Rightarrow> ('o, 's, 'w) tiered_omap \<Rightarrow> rng \<Rightarrow> (('o, 's, 'w) tiered_omap \<times> rng) result" where
  "fill_cache te cache_size tm r =
     (let n = min (sint cache_size) (int (length (tm_hot_list tm)))
      in if n < 0 then Inl OutOfBounds
         else
           bind_result (extract_keys te (take (nat n) (tm_hot_list tm)) tm r) (\<lambda>(es, tm1, r1).
           with_maint tm1 (\<lambda>mm.
             Inr (put_maint (init_cache es mm) (tm1\<lparr>tm_hot_list := drop (nat n) (tm_hot_list tm1)\<rparr>), r1))))"

definition enable_maintenance ::
  "('o, 's, 'w) tiered_env \<Rightarrow> maintenance_config \<Rightarrow> ('o, 's, 'w) tiered_omap \<Rightarrow> rng \<Rightarrow> (('o, 's, 'w) tiered_omap \<times> rng) result" where
  "enable_maintenance te mc tm r =
     (let mc' = mc\<lparr>mc_enabled := True\<rparr>
      in fill_cache te (mc_cache_size mc)
           (tm\<lparr>tm_config := (tm_config tm)\<lparr>tc_maintenance := mc'\<rparr>, tm_maint := Some (new_maintenance_manager mc')\<rparr>) r)"

text \<open>Every pair gets the next block of the data ORAM; \<open>split_refs\<close> says which tier the key goes to.\<close>

fun number_data :: "bool \<Rightarrow> i32 \<Rightarrow> (i32 \<times> bytes) list \<Rightarrow> (i32 \<times> i32 \<times> bytes) list \<times> i32" where
  "number_data use_epoch next [] = ([], next)"
| "number_data use_epoch next ((k, v) # kvs) =
     (let stored = (if use_epoch then encode_with_epoch v \<lparr>cnt = 0, ep = 0, fp = 0\<rparr> else v);
          (rest, last) = number_data use_epoch (next + 1) kvs
      in ((k, next, stored) # rest, last))"

definition split_refs :: "i32 set \<Rightarrow> (i32 \<times> i32 \<times> bytes) list \<Rightarrow> (i32 \<times> bytes) list \<times> (i32 \<times> bytes) list" where
  "split_refs hot xs =
     (map (\<lambda>(k, blk, v). (k, int_to_bytes blk)) (filter (\<lambda>(k, blk, v). k \<in> hot) xs),
      map (\<lambda>(k, blk, v). (k, int_to_bytes blk)) (filter (\<lambda>(k, blk, v). k \<notin> hot) xs))"

definition make_spec ::
  "('o, 's, 'w) tiered_env \<Rightarrow> tiered_config \<Rightarrow> int \<Rightarrow> omap_backend \<Rightarrow> i32 \<Rightarrow> bool \<Rightarrow> omap_spec" where
  "make_spec te cfg n be cap is_cold =
     (let bs = tc_bucket_size cfg; ord = tc_bplus_order cfg; split = (is_cold \<and> tc_use_split cfg \<and> n > 0)
      in case be of
           BPlusBackend \<Rightarrow>
             if split then
               let depth = max 1 (te_log_floor te (max n 2) (max (sint ord) 2));
                   upper = max ((sint ord ^ nat depth - 1) sdiv max (sint ord - 1) 1) n
               in MakeBPlusSplit cap ord bs (word_of_int depth) (word_of_int upper)
             else MakeBPlus cap ord bs
         | DaAvlBackend \<Rightarrow> MakeDaAvl cap bs
         | DaBplusBackend \<Rightarrow> MakeDaBplus cap bs ord
         | AvlBackend \<Rightarrow>
             if split then MakeAvlSplit cap bs (of_nat (ceil_log2 (max n 2))) (word_of_int (max n 1))
             else MakeAvl cap bs)"

definition sort_keys :: "i32 list \<Rightarrow> i32 list" where
  "sort_keys ks = sort_key sint ks"

definition tm_init ::
  "('o, 's, 'w) tiered_env \<Rightarrow> (i32 \<times> bytes) list \<Rightarrow> i32 list \<Rightarrow> ('o, 's, 'w) tiered_omap \<Rightarrow> rng
    \<Rightarrow> (('o, 's, 'w) tiered_omap \<times> rng) result" where
  "tm_init te all_data hot tm r =
     (let cfg = tm_config tm; hk = set hot; use_epoch = mc_enabled (tc_maintenance cfg);
          N = max (int (length all_data)) 1;
          data_cap = (if use_epoch then max (N * 2) (N + 64) else N);
          (blocks, next) = number_data use_epoch 0 all_data;
          (hot_refs, cold_refs) = split_refs hk blocks;
          n = int (length hot_refs); n_cold = int (length cold_refs);
          hot_cap = max n 1;
          cold_cap = (if use_epoch then max n_cold (sint (tc_total_keys cfg)) else max n_cold 1)
      in bind_result (new_path_oram (te_oram te) (te_ops te) (te_create te) data_cap (sint (tc_bucket_size cfg)) 7 r) (\<lambda>(p, r1).
         bind_result (po_init (te_oram te) (te_ops te) (te_block_order te (map snd blocks)) p r1) (\<lambda>(p1, r2).
         bind_result (te_construct te (make_spec te cfg n (effective_hot_backend cfg) (word_of_int hot_cap) False) r2) (\<lambda>(h, r3).
         bind_result (te_construct te (make_spec te cfg n (tc_backend cfg) (word_of_int cold_cap) True) r3) (\<lambda>(c, r4).
         bind_result (oi_init (te_omap te) hot_refs h r4) (\<lambda>(h1, r5).
         bind_result (oi_init (te_omap te) cold_refs c r5) (\<lambda>(c1, r6).
           let tm1 = tm\<lparr>tm_hot_keys := hk, tm_phys_hot := hk, tm_hot_list := sort_keys hot, tm_data := p1,
                        tm_next_block := next, tm_hot_capacity := word_of_int hot_cap,
                        tm_hot := Some h1, tm_cold := Some c1\<rparr>
           in if tm_maint tm1 = None then Inr (tm1, r6)
              else fill_cache te (mc_cache_size (tc_maintenance cfg)) tm1 r6)))))))"

end
