(* ===== verification/Tiered_Interleaved.thy ===== *)
theory Tiered_Interleaved
  imports Tiered_Omap
begin

text \<open>
  The interleaved access of \<open>src/tiered_omap.cpp\<close>: the two tiers run their step machines side by side, and
  every round sends one batch of reads and one of writes for both of them and for the data ORAM. The round
  in which the reference of the key is known starts the access to its block.
\<close>

section \<open>Batches\<close>

definition channel_read ::
  "('o, 's, 'w) tiered_env \<Rightarrow> (i32 \<times> i32) list \<Rightarrow> ('o, 's, 'w) tiered_omap \<Rightarrow> (path_map list \<times> ('o, 's, 'w) tiered_omap) result" where
  "channel_read te reads tm =
     (case tm_channel tm of None \<Rightarrow> Inl NullPointer
      | Some ch \<Rightarrow> bind_result (te_batch_read te reads ch) (\<lambda>(paths, ch'). Inr (paths, tm\<lparr>tm_channel := Some ch'\<rparr>)))"

definition channel_write ::
  "('o, 's, 'w) tiered_env \<Rightarrow> (i32 \<times> path_map) list \<Rightarrow> ('o, 's, 'w) tiered_omap \<Rightarrow> ('o, 's, 'w) tiered_omap result" where
  "channel_write te writes tm =
     (case tm_channel tm of None \<Rightarrow> Inl NullPointer
      | Some ch \<Rightarrow> bind_result (te_batch_write te writes ch) (\<lambda>ch'. Inr (tm\<lparr>tm_channel := Some ch'\<rparr>)))"

text \<open>The next \<open>n\<close> results of a batch; the code does not check that they are there.\<close>

definition take_paths :: "nat \<Rightarrow> path_map list \<Rightarrow> (path_map list \<times> path_map list) result" where
  "take_paths n paths = (if length paths < n then Inl OutOfBounds else Inr (take n paths, drop n paths))"

definition next_reads ::
  "('o, 's, 'w) tiered_env \<Rightarrow> bool \<Rightarrow> tier \<Rightarrow> ('o, 's, 'w) tiered_omap \<Rightarrow> rng
    \<Rightarrow> ((i32 \<times> i32) list \<times> ('o, 's, 'w) tiered_omap \<times> rng) result" where
  "next_reads te active tr tm r = (if active then ask_tier (oi_next_round (te_omap te)) tr tm r else Inr ([], tm, r))"

definition apply_reads ::
  "('o, 's, 'w) tiered_env \<Rightarrow> bool \<Rightarrow> path_map list \<Rightarrow> tier \<Rightarrow> ('o, 's, 'w) tiered_omap \<Rightarrow> rng
    \<Rightarrow> (('o, 's, 'w) tiered_omap \<times> rng) result" where
  "apply_reads te active paths tr tm r =
     (if active \<and> paths \<noteq> [] then run_tier (oi_apply_reads (te_omap te) paths) tr tm r else Inr (tm, r))"

definition process_tier ::
  "('o, 's, 'w) tiered_env \<Rightarrow> bool \<Rightarrow> tier \<Rightarrow> ('o, 's, 'w) tiered_omap \<Rightarrow> rng \<Rightarrow> (('o, 's, 'w) tiered_omap \<times> rng) result" where
  "process_tier te active tr tm r = (if active then run_tier (oi_process (te_omap te)) tr tm r else Inr (tm, r))"

definition tier_writes ::
  "('o, 's, 'w) tiered_env \<Rightarrow> bool \<Rightarrow> tier \<Rightarrow> ('o, 's, 'w) tiered_omap \<Rightarrow> rng
    \<Rightarrow> ((i32 \<times> path_map) list \<times> ('o, 's, 'w) tiered_omap \<times> rng) result" where
  "tier_writes te active tr tm r = (if active then ask_tier (oi_prepare_writes (te_omap te)) tr tm r else Inr ([], tm, r))"

section \<open>Two maps side by side\<close>

definition interleaved_round ::
  "('o, 's, 'w) tiered_env \<Rightarrow> tier \<Rightarrow> tier \<Rightarrow> bool \<Rightarrow> bool \<Rightarrow> ('o, 's, 'w) tiered_omap \<Rightarrow> rng
    \<Rightarrow> (('o, 's, 'w) tiered_omap \<times> rng) result" where
  "interleaved_round te a b a_active b_active tm r =
     bind_result (next_reads te a_active a tm r) (\<lambda>(ar, tm1, r1).
     bind_result (next_reads te b_active b tm1 r1) (\<lambda>(br, tm2, r2).
     bind_result (channel_read te (ar @ br) tm2) (\<lambda>(results, tm3).
     bind_result (take_paths (length ar) results) (\<lambda>(a_res, b_res).
     bind_result (apply_reads te a_active a_res a tm3 r2) (\<lambda>(tm4, r3).
     bind_result (if br = [] then Inr (tm4, r3) else apply_reads te b_active b_res b tm4 r3) (\<lambda>(tm5, r4).
     bind_result (process_tier te a_active a tm5 r4) (\<lambda>(tm6, r5).
     bind_result (process_tier te b_active b tm6 r5) (\<lambda>(tm7, r6).
     bind_result (tier_writes te a_active a tm7 r6) (\<lambda>(aw, tm8, r7).
     bind_result (tier_writes te b_active b tm8 r7) (\<lambda>(bw, tm9, r8).
     bind_result (channel_write te (aw @ bw) tm9) (\<lambda>tm10. Inr (tm10, r8))))))))))))"

text \<open>A loop that is not known to end is an option: \<open>None\<close> says that it never returns.\<close>

partial_function (option) interleaved_loop ::
  "('o, 's, 'w) tiered_env \<Rightarrow> tier \<Rightarrow> tier \<Rightarrow> ('o, 's, 'w) tiered_omap \<Rightarrow> rng
    \<Rightarrow> ((('o, 's, 'w) tiered_omap \<times> rng) result) option" where
  "interleaved_loop te a b tm r =
     (case (see_tier (oi_done (te_omap te)) a tm, see_tier (oi_done (te_omap te)) b tm) of
        (Inr ad, Inr bd) \<Rightarrow>
          if ad \<and> bd then Some (Inr (tm, r))
          else (case interleaved_round te a b (\<not> ad) (\<not> bd) tm r of
                  Inl e \<Rightarrow> Some (Inl e) | Inr (tm', r') \<Rightarrow> interleaved_loop te a b tm' r')
      | _ \<Rightarrow> Some (Inl NullPointer))"

declare interleaved_loop.simps [code]

definition ends :: "'a result option \<Rightarrow> 'a result" where
  "ends x = (case x of None \<Rightarrow> Inl Diverges | Some y \<Rightarrow> y)"

definition run_interleaved_loop ::
  "('o, 's, 'w) tiered_env \<Rightarrow> tier \<Rightarrow> tier \<Rightarrow> ('o, 's, 'w) tiered_omap \<Rightarrow> rng \<Rightarrow> (('o, 's, 'w) tiered_omap \<times> rng) result" where
  "run_interleaved_loop te a b tm r = ends (interleaved_loop te a b tm r)"

section \<open>The state of an interleaved access\<close>

datatype dstep = DIdle | NeedRead | NeedWrite | DDone

record il_options =
  io_key :: i32
  io_new_value :: "bytes option"
  io_partial :: bool
  io_epoch :: bool
  io_scan_key :: i32
  io_hot_insert :: i32
  io_cold_insert :: i32
  io_hot_dummy :: bool
  io_cold_dummy :: bool
  io_searcher :: tier

abbreviation scanning :: "il_options \<Rightarrow> bool" where
  "scanning opt \<equiv> io_scan_key opt \<noteq> INVALID_KEY"

record ('o, 's, 'w) il_state =
  il_tm :: "('o, 's, 'w) tiered_omap"
  il_res :: tm_access_result
  il_data_st :: dstep
  il_data_blk :: i32
  il_data_leaf :: i32
  il_data_new_leaf :: i32
  il_ddummy_st :: dstep
  il_ddummy_leaf :: i32
  il_scan_st :: dstep
  il_scan_blk :: i32
  il_scan_leaf :: i32
  il_scan_new_leaf :: i32
  il_searcher_done :: bool
  il_triggered :: bool
  il_pending :: bool
  il_scan_triggered :: bool
  il_rounds :: int
  il_answer_round :: int
  il_ref :: bytes
  il_fp :: i32

definition new_il_state :: "il_options \<Rightarrow> tm_access_result \<Rightarrow> ('o, 's, 'w) tiered_omap \<Rightarrow> ('o, 's, 'w) il_state" where
  "new_il_state opt res tm =
     \<lparr>il_tm = tm, il_res = res, il_data_st = DIdle, il_data_blk = INVALID_BLOCK, il_data_leaf = - 1,
      il_data_new_leaf = - 1, il_ddummy_st = (if io_partial opt then DDone else DIdle), il_ddummy_leaf = - 1,
      il_scan_st = (if scanning opt then DIdle else DDone), il_scan_blk = INVALID_BLOCK, il_scan_leaf = - 1,
      il_scan_new_leaf = - 1, il_searcher_done = False, il_triggered = False, il_pending = False,
      il_scan_triggered = False, il_rounds = 0, il_answer_round = 0, il_ref = [], il_fp = 0\<rparr>"

text \<open>A piggybacked operation of a tier needs a full operation there, which a partial dummy is not.\<close>

definition carries :: "tier \<Rightarrow> il_options \<Rightarrow> bool" where
  "carries tr opt \<longleftrightarrow> io_searcher opt = tr \<or> \<not> io_partial opt"

definition when_tier ::
  "bool \<Rightarrow> 'o omap_step \<Rightarrow> tier \<Rightarrow> ('o, 's, 'w) tiered_omap \<Rightarrow> rng \<Rightarrow> (('o, 's, 'w) tiered_omap \<times> rng) result" where
  "when_tier c f tr tm r = (if c then run_tier f tr tm r else Inr (tm, r))"

definition il_begin ::
  "('o, 's, 'w) tiered_env \<Rightarrow> il_options \<Rightarrow> ('o, 's, 'w) tiered_omap \<Rightarrow> rng \<Rightarrow> (('o, 's, 'w) tiered_omap \<times> rng) result" where
  "il_begin te opt tm r =
     (let ops = te_omap te; srch = io_searcher opt; dmy = other_tier srch;
          partial = (io_partial opt \<and> (\<not> scanning opt \<or> srch = Hot))
      in bind_result (run_tier (oi_begin_search ops (io_key opt) None) srch tm r) (\<lambda>(tm1, r1).
         bind_result (run_tier (if partial then oi_begin_partial ops else oi_begin_dummy ops) dmy tm1 r1) (\<lambda>(tm2, r2).
         bind_result (when_tier (scanning opt) (oi_pb_search ops (io_scan_key opt)) Hot tm2 r2) (\<lambda>(tm3, r3).
         bind_result (when_tier (scanning opt) (pure_step (oi_pb_decision_enabled ops True)) Hot tm3 r3) (\<lambda>(tm4, r4).
         bind_result (when_tier (io_hot_insert opt \<noteq> INVALID_KEY \<and> carries Hot opt)
                        (oi_pb_insert ops (io_hot_insert opt) (tm_pending_ref tm4)) Hot tm4 r4) (\<lambda>(tm5, r5).
         bind_result (when_tier (io_cold_insert opt \<noteq> INVALID_KEY \<and> carries Cold opt)
                        (oi_pb_insert ops (io_cold_insert opt) (tm_pending_ref tm5)) Cold tm5 r5) (\<lambda>(tm6, r6).
         bind_result (when_tier (io_epoch opt \<and> srch = Cold) (pure_step (oi_decision_enabled ops True)) srch tm6 r6) (\<lambda>(tm7, r7).
         bind_result (when_tier (io_hot_dummy opt \<and> io_hot_insert opt = INVALID_KEY \<and> carries Hot opt) (oi_pb_dummy ops) Hot tm7 r7)
           (\<lambda>(tm8, r8).
         when_tier (io_cold_dummy opt \<and> io_cold_insert opt = INVALID_KEY \<and> carries Cold opt) (oi_pb_dummy ops) Cold tm8 r8)))))))))"

section \<open>A round\<close>

definition data_request :: "('o, 's, 'w) tiered_env \<Rightarrow> dstep \<Rightarrow> i32 \<Rightarrow> ('o, 's, 'w) tiered_omap \<Rightarrow> (i32 \<times> i32) list" where
  "data_request te st lf tm = (if st = NeedRead then [(po_get_store_id (te_ops te) (tm_data tm), lf)] else [])"

text \<open>The fetched paths of the data ORAM, in the order in which they were asked for.\<close>

fun apply_data_paths ::
  "('o, 's, 'w) tiered_env \<Rightarrow> nat \<Rightarrow> path_map list \<Rightarrow> ('o, 's, 'w) tiered_omap \<Rightarrow> ('o, 's, 'w) tiered_omap result" where
  "apply_data_paths te 0 paths tm = Inr tm"
| "apply_data_paths te (Suc n) [] tm = Inl OutOfBounds"
| "apply_data_paths te (Suc n) (path # paths) tm =
     bind_result (apply_fetched_path (te_oram te) path (tm_data tm)) (\<lambda>p. apply_data_paths te n paths (tm\<lparr>tm_data := p\<rparr>))"

text \<open>The reads of a round: both machines and the data ORAM in one batch, then the machines go on.\<close>

definition il_exchange ::
  "('o, 's, 'w) tiered_env \<Rightarrow> tier \<Rightarrow> bool \<Rightarrow> bool \<Rightarrow> ('o, 's, 'w) il_state \<Rightarrow> rng \<Rightarrow> (('o, 's, 'w) il_state \<times> rng) result" where
  "il_exchange te srch s_act d_act s r =
     (let dmy = other_tier srch
      in bind_result (next_reads te s_act srch (il_tm s) r) (\<lambda>(sr, tm1, r1).
         bind_result (next_reads te d_act dmy tm1 r1) (\<lambda>(dr, tm2, r2).
         let data = data_request te (il_data_st s) (il_data_leaf s) tm2
                    @ data_request te (il_ddummy_st s) (il_ddummy_leaf s) tm2
                    @ data_request te (il_scan_st s) (il_scan_leaf s) tm2
         in bind_result (channel_read te (sr @ dr @ data) tm2) (\<lambda>(fetched, tm3).
            bind_result (take_paths (length sr) fetched) (\<lambda>(s_res, rest).
            bind_result (apply_reads te s_act s_res srch tm3 r2) (\<lambda>(tm4, r3).
            bind_result (take_paths (length dr) rest) (\<lambda>(d_res, rest').
            bind_result (apply_reads te d_act d_res dmy tm4 r3) (\<lambda>(tm5, r4).
            bind_result (apply_data_paths te (length data) rest' tm5) (\<lambda>tm6.
            bind_result (process_tier te s_act srch tm6 r4) (\<lambda>(tm7, r5).
            bind_result (process_tier te d_act dmy tm7 r5) (\<lambda>(tm8, r6).
              Inr (s\<lparr>il_tm := tm8\<rparr>, r6))))))))))))"

text \<open>The block of the key has arrived: its value is taken or replaced, with maintenance also its metadata.\<close>

definition il_touch_block ::
  "('o, 's, 'w) tiered_env \<Rightarrow> il_options \<Rightarrow> ('o, 's, 'w) il_state \<Rightarrow> ('o, 's, 'w) il_state result" where
  "il_touch_block te opt s =
     (let tm = il_tm s
      in bind_result (po_extract_from_stash (te_ops te) (il_data_blk s) (tm_data tm)) (\<lambda>(b, p).
         let put = (\<lambda>sv tm'. tm'\<lparr>tm_data := po_add_to_stash \<lparr>key = il_data_blk s, leaf = il_data_new_leaf s, val = sv\<rparr> p\<rparr>)
         in case (io_epoch opt, tm_maint tm) of
              (True, Some mm) \<Rightarrow>
                (let (v, m0) = decode_epoch (val b); m = update_meta mm m0;
                     out = (case io_new_value opt of None \<Rightarrow> v | Some w \<Rightarrow> w);
                     tm1 = (if io_key opt \<in> tm_cache_keys tm then put_maint (update_cache_fp (io_key opt) (fp m) mm) tm else tm)
                 in Inr (s\<lparr>il_res := (il_res s)\<lparr>ar_value := out\<rparr>, il_fp := fp m, il_tm := put (encode_with_epoch out m) tm1\<rparr>))
            | _ \<Rightarrow>
                (let out = (case io_new_value opt of None \<Rightarrow> val b | Some w \<Rightarrow> w)
                 in Inr (s\<lparr>il_res := (il_res s)\<lparr>ar_value := out\<rparr>, il_tm := put out tm\<rparr>))))"

definition il_commit ::
  "('o, 's, 'w) tiered_env \<Rightarrow> il_options \<Rightarrow> ('o, 's, 'w) il_state \<Rightarrow> rng \<Rightarrow> (('o, 's, 'w) il_state \<times> rng) result" where
  "il_commit te opt s r =
     (if \<not> il_pending s then Inr (s, r)
      else
        let f = il_fp s; ops = te_omap te;
            prom = (case tm_maint (il_tm s) of None \<Rightarrow> False
                    | Some mm \<Rightarrow> sint f > 0 \<and> mm_swap_state mm = Idle \<and> should_promote f mm)
        in bind_result (run_tier (if prom then oi_commit_remove ops else oi_commit_noop ops) (io_searcher opt) (il_tm s) r)
             (\<lambda>(tm1, r1).
               Inr (s\<lparr>il_tm := tm1, il_pending := False,
                      il_res := (il_res s)\<lparr>ar_promotion_done := prom \<or> ar_promotion_done (il_res s), ar_decision_handled := True\<rparr>\<rparr>, r1)))"

definition il_main_data ::
  "('o, 's, 'w) tiered_env \<Rightarrow> il_options \<Rightarrow> ('o, 's, 'w) il_state \<Rightarrow> rng \<Rightarrow> (('o, 's, 'w) il_state \<times> rng) result" where
  "il_main_data te opt s r =
     bind_result (if il_data_blk s \<noteq> INVALID_BLOCK then il_touch_block te opt s else Inr s) (\<lambda>s1.
       il_commit te opt (s1\<lparr>il_data_st := NeedWrite, il_answer_round := il_rounds s1\<rparr>) r)"

text \<open>The block of the scanned key: its frequency decides whether the piggybacked search becomes a removal.\<close>

definition il_scan_data ::
  "('o, 's, 'w) tiered_env \<Rightarrow> il_options \<Rightarrow> ('o, 's, 'w) il_state \<Rightarrow> rng \<Rightarrow> (('o, 's, 'w) il_state \<times> rng) result" where
  "il_scan_data te opt s r =
     (if il_scan_blk s = INVALID_BLOCK then Inr (s\<lparr>il_scan_st := NeedWrite\<rparr>, r)
      else
        let ops = te_omap te; tm = il_tm s
        in bind_result (po_extract_from_stash (te_ops te) (il_scan_blk s) (tm_data tm)) (\<lambda>(b, p).
           let tm1 = tm\<lparr>tm_data := p\<rparr>; f = fp (snd (decode_epoch (val b)));
               demote = (case (io_epoch opt, tm_maint tm) of (True, Some mm) \<Rightarrow> Some (should_demote_cache f mm) | _ \<Rightarrow> None);
               res = (case demote of
                        None \<Rightarrow> il_res s
                      | Some d \<Rightarrow> (il_res s)\<lparr>ar_scan_handled := True,
                            ar_scan_demoted := d \<or> ar_scan_demoted (il_res s),
                            ar_scan_fp := (if d then f else ar_scan_fp (il_res s))\<rparr>)
           in bind_result (run_tier (if demote = Some True then oi_pb_commit_remove ops else oi_pb_commit_noop ops) Hot tm1 r)
                (\<lambda>(tm2, r1).
                  let tm3 = tm2\<lparr>tm_data := po_add_to_stash \<lparr>key = il_scan_blk s, leaf = il_scan_new_leaf s, val = val b\<rparr> (tm_data tm2)\<rparr>
                  in Inr (s\<lparr>il_tm := tm3, il_res := res, il_scan_st := NeedWrite\<rparr>, r1))))"

text \<open>The leaf to read next: that of the block, which moves to a new one, or a random one.\<close>

definition locate_block ::
  "('o, 's, 'w) tiered_env \<Rightarrow> i32 \<Rightarrow> i32 \<Rightarrow> ('o, 's, 'w) tiered_omap \<Rightarrow> rng
    \<Rightarrow> (i32 \<times> i32 \<times> ('o, 's, 'w) tiered_omap \<times> rng) result" where
  "locate_block te blk old_new tm r =
     bind_result (po_random_leaf (te_ops te) (tm_data tm) r) (\<lambda>(lf, r1).
       if blk \<noteq> INVALID_BLOCK
       then Inr (po_get_leaf blk (tm_data tm), lf, tm\<lparr>tm_data := po_set_leaf blk lf (tm_data tm)\<rparr>, r1)
       else Inr (lf, old_new, tm, r1))"

definition il_locate ::
  "('o, 's, 'w) tiered_env \<Rightarrow> bytes \<Rightarrow> ('o, 's, 'w) il_state \<Rightarrow> rng \<Rightarrow> (('o, 's, 'w) il_state \<times> rng) result" where
  "il_locate te ref s r =
     bind_result (locate_block te (ref_to_blk ref) (il_data_new_leaf s) (il_tm s) r) (\<lambda>(lf, nlf, tm1, r1).
       Inr (s\<lparr>il_ref := ref, il_data_blk := ref_to_blk ref, il_data_leaf := lf, il_data_new_leaf := nlf, il_tm := tm1,
              il_data_st := NeedRead\<rparr>, r1))"

definition il_decision ::
  "('o, 's, 'w) tiered_env \<Rightarrow> il_options \<Rightarrow> ('o, 's, 'w) il_state \<Rightarrow> rng \<Rightarrow> (('o, 's, 'w) il_state \<times> rng) result" where
  "il_decision te opt s r =
     bind_result (see_tier (oi_needs_decision (te_omap te)) (io_searcher opt) (il_tm s)) (\<lambda>needs.
       if \<not> il_triggered s \<and> \<not> il_searcher_done s \<and> io_epoch opt \<and> io_searcher opt = Cold \<and> needs
       then bind_result (see_tier (oi_traverse_result (te_omap te)) (io_searcher opt) (il_tm s)) (\<lambda>ref.
            bind_result (il_locate te ref (s\<lparr>il_triggered := True\<rparr>) r) (\<lambda>(s1, r1). Inr (s1\<lparr>il_pending := True\<rparr>, r1)))
       else Inr (s, r))"

definition il_scan_decision ::
  "('o, 's, 'w) tiered_env \<Rightarrow> il_options \<Rightarrow> ('o, 's, 'w) il_state \<Rightarrow> rng \<Rightarrow> (('o, 's, 'w) il_state \<times> rng) result" where
  "il_scan_decision te opt s r =
     bind_result (see_tier (oi_pb_needs_decision (te_omap te)) Hot (il_tm s)) (\<lambda>needs.
       if \<not> il_scan_triggered s \<and> scanning opt \<and> needs
       then bind_result (see_tier (oi_pb_traverse_result (te_omap te)) Hot (il_tm s)) (\<lambda>ref.
            bind_result (locate_block te (ref_to_blk ref) (il_scan_new_leaf s) (il_tm s) r) (\<lambda>(lf, nlf, tm1, r1).
              Inr (s\<lparr>il_scan_triggered := True, il_scan_blk := ref_to_blk ref, il_scan_leaf := lf, il_scan_new_leaf := nlf,
                     il_tm := tm1, il_scan_st := NeedRead\<rparr>, r1)))
       else Inr (s, r))"

text \<open>The search of the key is over.\<close>

definition il_search_end ::
  "('o, 's, 'w) tiered_env \<Rightarrow> il_options \<Rightarrow> ('o, 's, 'w) il_state \<Rightarrow> rng \<Rightarrow> (('o, 's, 'w) il_state \<times> rng) result" where
  "il_search_end te opt s r =
     bind_result (see_tier (oi_done (te_omap te)) (io_searcher opt) (il_tm s)) (\<lambda>done_now.
       if \<not> il_searcher_done s \<and> done_now
       then bind_result (ask_tier (oi_finish (te_omap te)) (io_searcher opt) (il_tm s) r) (\<lambda>(ref, tm1, r1).
              let s1 = s\<lparr>il_searcher_done := True, il_tm := tm1\<rparr>
              in if il_triggered s then Inr (s1, r1) else il_locate te ref s1 r1)
       else Inr (s, r))"

text \<open>The writes of the data ORAM; after the one of the key the dummy access of the oblivious mode begins.\<close>

definition evict_data ::
  "('o, 's, 'w) tiered_env \<Rightarrow> bool \<Rightarrow> i32 \<Rightarrow> ('o, 's, 'w) tiered_omap \<Rightarrow> rng
    \<Rightarrow> ((i32 \<times> path_map) list \<times> ('o, 's, 'w) tiered_omap \<times> rng) result" where
  "evict_data te c lf tm r =
     (if c then bind_result (prepare_eviction (te_oram te) (te_ops te) lf (tm_data tm) r) (\<lambda>(path, p, r1).
                  Inr ([(po_get_store_id (te_ops te) (tm_data tm), path)], tm\<lparr>tm_data := p\<rparr>, r1))
      else Inr ([], tm, r))"

definition il_writes ::
  "('o, 's, 'w) tiered_env \<Rightarrow> il_options \<Rightarrow> bool \<Rightarrow> bool \<Rightarrow> ('o, 's, 'w) il_state \<Rightarrow> rng \<Rightarrow> (('o, 's, 'w) il_state \<times> rng) result" where
  "il_writes te opt s_act d_act s r =
     bind_result (tier_writes te s_act (io_searcher opt) (il_tm s) r) (\<lambda>(sw, tm1, r1).
     bind_result (tier_writes te d_act (other_tier (io_searcher opt)) tm1 r1) (\<lambda>(dw, tm2, r2).
     let main = (il_data_st s = NeedWrite); start = (main \<and> \<not> io_partial opt \<and> il_ddummy_st s = DIdle);
         dummy = (il_ddummy_st s = NeedWrite); scan = (il_scan_st s = NeedWrite)
     in bind_result (evict_data te main (il_data_leaf s) tm2 r2) (\<lambda>(w1, tm3, r3).
        bind_result (if start then bind_result (po_random_leaf (te_ops te) (tm_data tm3) r3) (\<lambda>(lf, r4). Inr (lf, r4))
                     else Inr (il_ddummy_leaf s, r3)) (\<lambda>(dlf, r4).
        bind_result (evict_data te dummy dlf tm3 r4) (\<lambda>(w2, tm4, r5).
        bind_result (evict_data te scan (il_scan_leaf s) tm4 r5) (\<lambda>(w3, tm5, r6).
        bind_result (channel_write te (sw @ dw @ w1 @ w2 @ w3) tm5) (\<lambda>tm6.
          Inr (s\<lparr>il_tm := tm6, il_ddummy_leaf := dlf,
                 il_data_st := (if main then DDone else il_data_st s),
                 il_ddummy_st := (if start then NeedRead else if dummy then DDone else il_ddummy_st s),
                 il_scan_st := (if scan then DDone else il_scan_st s)\<rparr>, r6))))))))"

definition il_round ::
  "('o, 's, 'w) tiered_env \<Rightarrow> il_options \<Rightarrow> bool \<Rightarrow> bool \<Rightarrow> ('o, 's, 'w) il_state \<Rightarrow> rng \<Rightarrow> (('o, 's, 'w) il_state \<times> rng) result" where
  "il_round te opt s_act d_act s0 r =
     (let s = s0\<lparr>il_rounds := il_rounds s0 + 1\<rparr>;
          dr = (il_data_st s = NeedRead); dd = (il_ddummy_st s = NeedRead); sdr = (il_scan_st s = NeedRead)
      in bind_result (il_exchange te (io_searcher opt) s_act d_act s r) (\<lambda>(s1, r1).
         bind_result (if dr then il_main_data te opt s1 r1 else Inr (s1, r1)) (\<lambda>(s2, r2).
         let s3 = (if dd then s2\<lparr>il_ddummy_st := NeedWrite\<rparr> else s2)
         in bind_result (if sdr then il_scan_data te opt s3 r2 else Inr (s3, r2)) (\<lambda>(s4, r3).
            bind_result (il_decision te opt s4 r3) (\<lambda>(s5, r4).
            bind_result (il_scan_decision te opt s5 r4) (\<lambda>(s6, r5).
            bind_result (il_search_end te opt s6 r5) (\<lambda>(s7, r6).
              il_writes te opt s_act d_act s7 r6)))))))"

partial_function (option) il_loop ::
  "('o, 's, 'w) tiered_env \<Rightarrow> il_options \<Rightarrow> ('o, 's, 'w) il_state \<Rightarrow> rng \<Rightarrow> ((('o, 's, 'w) il_state \<times> rng) result) option" where
  "il_loop te opt s r =
     (case (see_tier (oi_done (te_omap te)) (io_searcher opt) (il_tm s),
            see_tier (oi_done (te_omap te)) (other_tier (io_searcher opt)) (il_tm s)) of
        (Inr sd, Inr dd) \<Rightarrow>
          if sd \<and> dd \<and> il_data_st s = DDone \<and> il_ddummy_st s = DDone \<and> il_scan_st s = DDone then Some (Inr (s, r))
          else (case il_round te opt (\<not> sd) (\<not> dd) s r of
                  Inl e \<Rightarrow> Some (Inl e) | Inr (s', r') \<Rightarrow> il_loop te opt s' r')
      | _ \<Rightarrow> Some (Inl NullPointer))"

declare il_loop.simps [code]

section \<open>The access\<close>

definition sum_bandwidth :: "bandwidth \<Rightarrow> bandwidth \<Rightarrow> 64 word \<Rightarrow> 64 word \<Rightarrow> 64 word \<Rightarrow> bandwidth" where
  "sum_bandwidth hot cold down up rnds =
     \<lparr>bytes_downloaded = bytes_downloaded hot + bytes_downloaded cold + down,
      bytes_uploaded = bytes_uploaded hot + bytes_uploaded cold + up, rounds = rnds\<rparr>"

definition finish_pb ::
  "('o, 's, 'w) tiered_env \<Rightarrow> bool \<Rightarrow> tier \<Rightarrow> ('o, 's, 'w) tiered_omap \<Rightarrow> rng \<Rightarrow> (bytes \<times> ('o, 's, 'w) tiered_omap \<times> rng) result" where
  "finish_pb te c tr tm r = (if c then ask_tier (oi_pb_finish (te_omap te)) tr tm r else Inr ([], tm, r))"

definition il_end ::
  "('o, 's, 'w) tiered_env \<Rightarrow> il_options \<Rightarrow> ('o, 's, 'w) il_state \<Rightarrow> rng \<Rightarrow> (tm_access_result \<times> ('o, 's, 'w) tiered_omap \<times> rng) result" where
  "il_end te opt s r =
     (let ops = te_omap te; srch = io_searcher opt;
          hot_ins = (io_hot_insert opt \<noteq> INVALID_KEY); cold_ins = (io_cold_insert opt \<noteq> INVALID_KEY)
      in bind_result (if il_searcher_done s then Inr ([], il_tm s, r) else ask_tier (oi_finish ops) srch (il_tm s) r) (\<lambda>(x, tm1, r1).
         bind_result (ask_tier (oi_finish ops) (other_tier srch) tm1 r1) (\<lambda>(y, tm2, r2).
         bind_result (finish_pb te (scanning opt) Hot tm2 r2) (\<lambda>(scan_ref, tm3, r3).
         bind_result (finish_pb te (hot_ins \<or> io_hot_dummy opt \<and> carries Hot opt) Hot tm3 r3) (\<lambda>(z, tm4, r4).
         bind_result (finish_pb te (cold_ins \<or> io_cold_dummy opt \<and> carries Cold opt) Cold tm4 r4) (\<lambda>(w, tm5, r5).
         bind_result (see_tier (oi_last_stats ops) Hot tm5) (\<lambda>hot_bw.
         bind_result (see_tier (oi_last_stats ops) Cold tm5) (\<lambda>cold_bw.
         let nops = (if io_partial opt then 1 else 2) + (if scanning opt then 1 else 0);
             dbw = of_int (path_bandwidth_bytes (te_ops te) (tm_data tm5)) * nops;
             total = sum_bandwidth hot_bw cold_bw dbw dbw (of_int (il_rounds s));
             res = il_res s
         in Inr (res\<lparr>ar_cold_ref := (if srch = Cold then il_ref s else ar_cold_ref res),
                     ar_scan_ref := (if scanning opt then scan_ref else ar_scan_ref res),
                     ar_hot_insert_done := hot_ins, ar_cold_insert_done := cold_ins, ar_last_fp := il_fp s,
                     ar_hot_bw := hot_bw, ar_cold_bw := cold_bw, ar_total_bw := total,
                     ar_rounds := word_of_int (if il_answer_round s > 0 then il_answer_round s else il_rounds s)\<rparr>,
                 tm5, r5)))))))))"

definition interleaved_access ::
  "('o, 's, 'w) tiered_env \<Rightarrow> il_options \<Rightarrow> ('o, 's, 'w) tiered_omap \<Rightarrow> rng
    \<Rightarrow> (tm_access_result \<times> ('o, 's, 'w) tiered_omap \<times> rng) result" where
  "interleaved_access te opt0 tm r =
     (let opt = opt0\<lparr>io_searcher := (if io_key opt0 \<in> tm_phys_hot tm then Hot else Cold)\<rparr>;
          res = new_result\<lparr>ar_found_in_hot := io_key opt \<in> tm_hot_keys tm\<rparr>
      in bind_result (il_begin te opt tm r) (\<lambda>(tm1, r1).
         bind_result (ends (il_loop te opt (new_il_state opt res tm1) r1)) (\<lambda>(s, r2). il_end te opt s r2)))"

end
