(* ===== verification/Tiered_Access.thy ===== *)
theory Tiered_Access
  imports Tiered_Interleaved
begin

text \<open>
  \<open>access\<close> and the maintenance steps of \<open>src/tiered_omap.cpp\<close>. With maintenance an access is served in one
  of four ways (the pending entry, batches over the channel, the cache, one map after the other), and the
  three maintenance steps that were not part of the batches follow.
\<close>

section \<open>Moving keys\<close>

text \<open>\<open>cache_data_refs_[k]\<close> reads the empty reference where there is none.\<close>

definition cache_ref :: "i32 \<Rightarrow> ('o, 's, 'w) tiered_omap \<Rightarrow> bytes" where
  "cache_ref k tm = (case tm_cache_refs tm k of None \<Rightarrow> [] | Some ref \<Rightarrow> ref)"

text \<open>A cold key enters the cache and becomes hot; the entry it displaces waits for the cold tier.\<close>

definition admit_from_cold :: "i32 \<Rightarrow> i32 \<Rightarrow> bytes \<Rightarrow> ('o, 's, 'w) tiered_omap \<Rightarrow> ('o, 's, 'w) tiered_omap result" where
  "admit_from_cold k f ref tm = with_maint tm (\<lambda>mm.
     let (evicted, mm1) = cache_admit k f False mm; ek = ce_key evicted
     in Inr (put_maint (set_swap_state ColdPend mm1)
          (tm\<lparr>tm_pending_key := ek, tm_pending_ref := cache_ref ek tm,
              tm_cache_keys := insert k (tm_cache_keys tm - {ek}),
              tm_cache_refs := (tm_cache_refs tm)(ek := None, k := Some ref),
              tm_hot_keys := insert k (tm_hot_keys tm - {ek})\<rparr>)))"

text \<open>A hot key enters the cache; the entry it displaces waits for the hot tier.\<close>

definition admit_from_hot :: "i32 \<Rightarrow> i32 \<Rightarrow> bytes \<Rightarrow> ('o, 's, 'w) tiered_omap \<Rightarrow> ('o, 's, 'w) tiered_omap result" where
  "admit_from_hot k f ref tm = with_maint tm (\<lambda>mm.
     let (evicted, mm1) = cache_admit k f True mm; ek = ce_key evicted
     in Inr (put_maint (set_swap_state HotPend mm1)
          (tm\<lparr>tm_pending_key := ek, tm_pending_ref := cache_ref ek tm,
              tm_phys_hot := tm_phys_hot tm - {k}, tm_hot_list := list_erase k (tm_hot_list tm),
              tm_cache_keys := insert k (tm_cache_keys tm) - {ek},
              tm_cache_refs := (tm_cache_refs tm)(k := Some ref, ek := None)\<rparr>)))"

definition clear_pending :: "('o, 's, 'w) tiered_omap \<Rightarrow> ('o, 's, 'w) tiered_omap result" where
  "clear_pending tm = with_maint tm (\<lambda>mm.
     Inr (put_maint (set_swap_state Idle mm) (tm\<lparr>tm_pending_key := INVALID_KEY, tm_pending_ref := []\<rparr>)))"

definition hot_arrival :: "i32 \<Rightarrow> ('o, 's, 'w) tiered_omap \<Rightarrow> ('o, 's, 'w) tiered_omap" where
  "hot_arrival k tm = tm\<lparr>tm_phys_hot := insert k (tm_phys_hot tm), tm_hot_list := list_insert k (tm_hot_list tm)\<rparr>"

section \<open>The maintenance steps\<close>

text \<open>The key after the scan pointer, or the first one.\<close>

definition next_scan_key :: "('o, 's, 'w) tiered_omap \<Rightarrow> (i32 \<times> ('o, 's, 'w) tiered_omap) result" where
  "next_scan_key tm =
     (if tm_hot_list tm = [] then Inr (INVALID_KEY, tm)
      else with_maint tm (\<lambda>mm.
        let (sk, mm1) = (case list_above (mm_scan_ptr mm) (tm_hot_list tm) of
                           [] \<Rightarrow> (hd (tm_hot_list tm), reset_scan_ptr mm) | k # ks \<Rightarrow> (k, mm))
        in Inr (sk, put_maint (set_scan_ptr sk mm1) tm)))"

definition da_scans :: "('o, 's, 'w) tiered_omap \<Rightarrow> bool" where
  "da_scans tm \<longleftrightarrow> is_da (effective_hot_backend (tm_config tm)) \<and> mc_piggyback (tc_maintenance (tm_config tm))"

text \<open>With a distributed hot map the scan takes what the accesses have queued.\<close>

definition da_demotion_step ::
  "('o, 's, 'w) tiered_env \<Rightarrow> ('o, 's, 'w) tiered_omap \<Rightarrow> rng \<Rightarrow> (('o, 's, 'w) tiered_omap \<times> rng) result" where
  "da_demotion_step te tm r =
     (let (dk, f, tm1) = (case tm_pending_demotions tm of
            [] \<Rightarrow> (INVALID_KEY, 0, tm) | (k, f) # q \<Rightarrow> (k, f, tm\<lparr>tm_pending_demotions := q\<rparr>))
      in if dk \<noteq> INVALID_KEY \<and> dk \<in> tm_phys_hot tm1 then
           bind_result (ask_tier (oi_search (te_omap te) dk None) Hot tm1 r) (\<lambda>(ref, tm2, r1).
           bind_result (run_tier (oi_remove (te_omap te) dk) Hot tm2 r1) (\<lambda>(tm3, r2).
           bind_result (admit_from_hot dk f ref tm3) (\<lambda>tm4. Inr (tm4, r2))))
         else run_tier (oi_dummy (te_omap te)) Hot tm1 r)"

definition idle_scan ::
  "('o, 's, 'w) tiered_env \<Rightarrow> ('o, 's, 'w) tiered_omap \<Rightarrow> rng \<Rightarrow> (('o, 's, 'w) tiered_omap \<times> rng) result" where
  "idle_scan te tm r =
     bind_result (run_tier (oi_dummy (te_omap te)) Hot tm r) (\<lambda>(tm1, r1). data_dummy te tm1 r1)"

definition do_scan_step ::
  "('o, 's, 'w) tiered_env \<Rightarrow> ('o, 's, 'w) tiered_omap \<Rightarrow> rng \<Rightarrow> (('o, 's, 'w) tiered_omap \<times> rng) result" where
  "do_scan_step te tm r = with_maint tm (\<lambda>mm.
     if mm_swap_state mm \<noteq> Idle then idle_scan te tm r
     else if da_scans tm then da_demotion_step te tm r
     else if tm_hot_list tm = [] then idle_scan te tm r
     else
       bind_result (next_scan_key tm) (\<lambda>(sk, tm1).
       bind_result (ask_tier (oi_search (te_omap te) sk None) Hot tm1 r) (\<lambda>(ref, tm2, r1).
       bind_result (data_access te (ref_to_blk ref) None tm2 r1) (\<lambda>(raw, tm3, r2).
       let f = fp (snd (decode_epoch raw))
       in with_maint tm3 (\<lambda>mm3.
            if should_demote_cache f mm3 then
              bind_result (run_tier (oi_remove (te_omap te) sk) Hot tm3 r2) (\<lambda>(tm4, r3).
              bind_result (admit_from_hot sk f ref tm4) (\<lambda>tm5. Inr (tm5, r3)))
            else Inr (tm3, r2))))))"

definition do_hot_insert_step ::
  "('o, 's, 'w) tiered_env \<Rightarrow> ('o, 's, 'w) tiered_omap \<Rightarrow> rng \<Rightarrow> (('o, 's, 'w) tiered_omap \<times> rng) result" where
  "do_hot_insert_step te tm r = with_maint tm (\<lambda>mm.
     if mm_swap_state mm = HotPend then
       bind_result (run_tier (oi_insert (te_omap te) (tm_pending_key tm) (tm_pending_ref tm)) Hot tm r) (\<lambda>(tm1, r1).
       bind_result (clear_pending (hot_arrival (tm_pending_key tm1) tm1)) (\<lambda>tm2. Inr (tm2, r1)))
     else run_tier (oi_dummy (te_omap te)) Hot tm r)"

definition do_cold_insert_step ::
  "('o, 's, 'w) tiered_env \<Rightarrow> ('o, 's, 'w) tiered_omap \<Rightarrow> rng \<Rightarrow> (('o, 's, 'w) tiered_omap \<times> rng) result" where
  "do_cold_insert_step te tm r = with_maint tm (\<lambda>mm.
     if mm_swap_state mm = ColdPend then
       bind_result (run_tier (oi_insert (te_omap te) (tm_pending_key tm) (tm_pending_ref tm)) Cold tm r) (\<lambda>(tm1, r1).
       bind_result (clear_pending tm1) (\<lambda>tm2. Inr (tm2, r1)))
     else run_tier (oi_dummy (te_omap te)) Cold tm r)"

section \<open>Explicit moves\<close>

definition tm_promote ::
  "('o, 's, 'w) tiered_env \<Rightarrow> i32 \<Rightarrow> ('o, 's, 'w) tiered_omap \<Rightarrow> rng \<Rightarrow> (('o, 's, 'w) tiered_omap \<times> rng) result" where
  "tm_promote te k tm r =
     (if k \<in> tm_hot_keys tm then Inr (tm, r)
      else
        bind_result (ask_tier (oi_search (te_omap te) k None) Cold tm r) (\<lambda>(ref, tm1, r1).
        bind_result (run_tier (oi_remove (te_omap te) k) Cold tm1 r1) (\<lambda>(tm2, r2).
        bind_result (run_tier (oi_insert (te_omap te) k ref) Hot tm2 r2) (\<lambda>(tm3, r3).
          Inr (hot_arrival k (tm3\<lparr>tm_hot_keys := insert k (tm_hot_keys tm3)\<rparr>), r3)))))"

definition tm_demote ::
  "('o, 's, 'w) tiered_env \<Rightarrow> i32 \<Rightarrow> ('o, 's, 'w) tiered_omap \<Rightarrow> rng \<Rightarrow> (('o, 's, 'w) tiered_omap \<times> rng) result" where
  "tm_demote te k tm r =
     (if k \<notin> tm_hot_keys tm then Inr (tm, r)
      else
        bind_result (ask_tier (oi_search (te_omap te) k None) Hot tm r) (\<lambda>(ref, tm1, r1).
        bind_result (run_tier (oi_remove (te_omap te) k) Hot tm1 r1) (\<lambda>(tm2, r2).
        bind_result (run_tier (oi_insert (te_omap te) k ref) Cold tm2 r2) (\<lambda>(tm3, r3).
          Inr (tm3\<lparr>tm_hot_keys := tm_hot_keys tm3 - {k}, tm_phys_hot := tm_phys_hot tm3 - {k},
                   tm_hot_list := list_erase k (tm_hot_list tm3)\<rparr>, r3)))))"

section \<open>Serving an access with maintenance\<close>

text \<open>The value is read, its metadata brought up to date, and both written back.\<close>

definition epoch_touch ::
  "('o, 's, 'w) tiered_env \<Rightarrow> i32 \<Rightarrow> bytes option \<Rightarrow> ('o, 's, 'w) tiered_omap \<Rightarrow> rng
    \<Rightarrow> (bytes \<times> epoch_meta \<times> ('o, 's, 'w) tiered_omap \<times> rng) result" where
  "epoch_touch te blk new_value tm r =
     bind_result (data_access te blk None tm r) (\<lambda>(raw, tm1, r1).
     with_maint tm1 (\<lambda>mm.
       let (v, m0) = decode_epoch raw; m = update_meta mm m0; out = (case new_value of None \<Rightarrow> v | Some w \<Rightarrow> w)
       in bind_result (data_access te blk (Some (encode_with_epoch out m)) tm1 r1) (\<lambda>(x, tm2, r2). Inr (out, m, tm2, r2))))"

definition side_dummy_step :: "('o, 's, 'w) tiered_env \<Rightarrow> ('o, 's, 'w) tiered_omap \<Rightarrow> 'o omap_step" where
  "side_dummy_step te tm =
     (if tc_mode (tm_config tm) = FullOblivious then oi_dummy (te_omap te) else oi_partial_dummy (te_omap te))"

definition both_dummies ::
  "('o, 's, 'w) tiered_env \<Rightarrow> ('o, 's, 'w) tiered_omap \<Rightarrow> rng \<Rightarrow> (('o, 's, 'w) tiered_omap \<times> rng) result" where
  "both_dummies te tm r =
     bind_result (run_tier (oi_dummy (te_omap te)) Hot tm r) (\<lambda>(tm1, r1). run_tier (side_dummy_step te tm1) Cold tm1 r1)"

definition serve_pending ::
  "('o, 's, 'w) tiered_env \<Rightarrow> bytes option \<Rightarrow> tm_access_result \<Rightarrow> ('o, 's, 'w) tiered_omap \<Rightarrow> rng
    \<Rightarrow> (tm_access_result \<times> ('o, 's, 'w) tiered_omap \<times> rng) result" where
  "serve_pending te new_value res tm r =
     bind_result (epoch_touch te (ref_to_blk (tm_pending_ref tm)) new_value tm r) (\<lambda>(out, m, tm1, r1).
     bind_result (both_dummies te tm1 r1) (\<lambda>(tm2, r2).
       Inr (res\<lparr>ar_found_in_hot := True, ar_value := out, ar_last_fp := fp m\<rparr>, tm2, r2)))"

definition serve_cached ::
  "('o, 's, 'w) tiered_env \<Rightarrow> i32 \<Rightarrow> bytes option \<Rightarrow> tm_access_result \<Rightarrow> ('o, 's, 'w) tiered_omap \<Rightarrow> rng
    \<Rightarrow> (tm_access_result \<times> ('o, 's, 'w) tiered_omap \<times> rng) result" where
  "serve_cached te k new_value res tm r =
     bind_result (epoch_touch te (ref_to_blk (cache_ref k tm)) new_value tm r) (\<lambda>(out, m, tm1, r1).
     with_maint tm1 (\<lambda>mm.
     bind_result (both_dummies te (put_maint (update_cache_fp k (fp m) mm) tm1) r1) (\<lambda>(tm2, r2).
       Inr (res\<lparr>ar_value := out\<rparr>, tm2, r2))))"

text \<open>The tier of the key searches, the other one makes a dummy access; a frequent cold key is promoted.\<close>

definition promotes :: "i32 \<Rightarrow> ('o, 's, 'w) tiered_omap \<Rightarrow> bool result" where
  "promotes f tm = with_maint tm (\<lambda>mm. Inr (mm_swap_state mm = Idle \<and> should_promote f mm))"

definition promote_cold ::
  "('o, 's, 'w) tiered_env \<Rightarrow> i32 \<Rightarrow> i32 \<Rightarrow> bytes \<Rightarrow> ('o, 's, 'w) tiered_omap \<Rightarrow> rng \<Rightarrow> (('o, 's, 'w) tiered_omap \<times> rng) result" where
  "promote_cold te k f ref tm r =
     bind_result (run_tier (oi_remove (te_omap te) k) Cold tm r) (\<lambda>(tm1, r1).
     bind_result (admit_from_cold k f ref tm1) (\<lambda>tm2. Inr (tm2, r1)))"

definition key_tier :: "i32 \<Rightarrow> ('o, 's, 'w) tiered_omap \<Rightarrow> tier" where
  "key_tier k tm = (if k \<in> tm_phys_hot tm then Hot else Cold)"

definition serve_sequential ::
  "('o, 's, 'w) tiered_env \<Rightarrow> i32 \<Rightarrow> bytes option \<Rightarrow> tm_access_result \<Rightarrow> ('o, 's, 'w) tiered_omap \<Rightarrow> rng
    \<Rightarrow> (tm_access_result \<times> ('o, 's, 'w) tiered_omap \<times> rng) result" where
  "serve_sequential te k new_value res tm r =
     (let target = key_tier k tm; hot_logical = (k \<in> tm_hot_keys tm)
      in bind_result (ask_tier (oi_search (te_omap te) k None) target tm r) (\<lambda>(ref, tm1, r1).
         bind_result (epoch_touch te (ref_to_blk ref) new_value tm1 r1) (\<lambda>(out, m, tm2, r2).
         bind_result (run_tier (side_dummy_step te tm2) (other_tier target) tm2 r2) (\<lambda>(tm3, r3).
         bind_result
           (if hot_logical \<or> ref = [] then Inr (tm3, r3)
            else bind_result (promotes (fp m) tm3) (\<lambda>p.
              if p then promote_cold te k (fp m) ref tm3 r3 else run_tier (oi_dummy (te_omap te)) Cold tm3 r3))
           (\<lambda>(tm4, r4). Inr (res\<lparr>ar_value := out, ar_last_fp := fp m\<rparr>, tm4, r4))))))"

text \<open>Over the channel: which maintenance steps ride on the batches of this access.\<close>

definition plan_batch ::
  "i32 \<Rightarrow> bytes option \<Rightarrow> ('o, 's, 'w) tiered_omap \<Rightarrow> (il_options \<times> ('o, 's, 'w) tiered_omap) result" where
  "plan_batch k new_value tm = with_maint tm (\<lambda>mm.
     let partial = (tc_mode (tm_config tm) = TierMembership); hot_phys = (k \<in> tm_phys_hot tm);
         st = mm_swap_state mm; pk = tm_pending_key tm;
         opt = \<lparr>io_key = k, io_new_value = new_value, io_partial = partial, io_epoch = True,
                io_scan_key = INVALID_KEY, io_hot_insert = INVALID_KEY, io_cold_insert = INVALID_KEY,
                io_hot_dummy = False, io_cold_dummy = False, io_searcher = key_tier k tm\<rparr>
     in if \<not> mc_piggyback (tc_maintenance (tm_config tm)) then Inr (opt, tm)
        else
          bind_result (should_scan mm) (\<lambda>sc.
          bind_result (if sc \<and> \<not> is_da (effective_hot_backend (tm_config tm)) \<and> st = Idle then next_scan_key tm
                       else Inr (INVALID_KEY, tm)) (\<lambda>(sk, tm1).
          bind_result (should_hot_insert mm) (\<lambda>hi.
          bind_result (should_cold_insert mm) (\<lambda>ci.
            let hot_real = (hi \<and> st = HotPend \<and> pk \<noteq> INVALID_KEY);
                cold_real = (ci \<and> st = ColdPend \<and> pk \<noteq> INVALID_KEY)
            in Inr (opt\<lparr>io_scan_key := sk,
                       io_hot_insert := (if hot_real then pk else INVALID_KEY),
                       io_hot_dummy := (hi \<and> \<not> hot_real \<and> (hot_phys \<or> \<not> partial)),
                       io_cold_insert := (if cold_real then pk else INVALID_KEY),
                       io_cold_dummy := (ci \<and> \<not> cold_real \<and> (\<not> hot_phys \<or> \<not> partial))\<rparr>, tm1))))))"

text \<open>What the batches have done to the tiers.\<close>

definition settle_batch ::
  "('o, 's, 'w) tiered_env \<Rightarrow> il_options \<Rightarrow> bool \<Rightarrow> tm_access_result \<Rightarrow> ('o, 's, 'w) tiered_omap \<Rightarrow> rng
    \<Rightarrow> (('o, 's, 'w) tiered_omap \<times> rng) result" where
  "settle_batch te opt hot_logical ir tm r =
     bind_result (if scanning opt \<and> ar_scan_handled ir \<and> ar_scan_demoted ir
                  then admit_from_hot (io_scan_key opt) (ar_scan_fp ir) (ar_scan_ref ir) tm else Inr tm) (\<lambda>tm1.
     bind_result (if ar_hot_insert_done ir then clear_pending (hot_arrival (io_hot_insert opt) tm1) else Inr tm1) (\<lambda>tm2.
     bind_result (if ar_cold_insert_done ir then clear_pending tm2 else Inr tm2) (\<lambda>tm3.
       if hot_logical then Inr (tm3, r)
       else if ar_decision_handled ir then
         (if ar_promotion_done ir
          then bind_result (admit_from_cold (io_key opt) (ar_last_fp ir) (ar_cold_ref ir) tm3) (\<lambda>tm4. Inr (tm4, r))
          else Inr (tm3, r))
       else
         bind_result (if sint (ar_last_fp ir) > 0 then promotes (ar_last_fp ir) tm3 else Inr False) (\<lambda>p.
           if p then promote_cold te (io_key opt) (ar_last_fp ir) (ar_cold_ref ir) tm3 r
           else run_tier (oi_dummy (te_omap te)) Cold tm3 r))))"

definition serve_batched ::
  "('o, 's, 'w) tiered_env \<Rightarrow> i32 \<Rightarrow> bytes option \<Rightarrow> tm_access_result \<Rightarrow> ('o, 's, 'w) tiered_omap \<Rightarrow> rng
    \<Rightarrow> (tm_access_result \<times> il_options \<times> ('o, 's, 'w) tiered_omap \<times> rng) result" where
  "serve_batched te k new_value res tm r =
     bind_result (plan_batch k new_value tm) (\<lambda>(opt, tm1).
     bind_result (interleaved_access te opt tm1 r) (\<lambda>(ir, tm2, r1).
     bind_result (settle_batch te opt (k \<in> tm_hot_keys tm) ir tm2 r1) (\<lambda>(tm3, r2).
       Inr (res\<lparr>ar_value := ar_value ir, ar_found_in_hot := ar_found_in_hot ir, ar_hot_bw := ar_hot_bw ir,
                ar_cold_bw := ar_cold_bw ir, ar_total_bw := ar_total_bw ir, ar_rounds := ar_rounds ir,
                ar_last_fp := ar_last_fp ir\<rparr>, opt, tm3, r2))))"

definition can_interleave :: "('o, 's, 'w) tiered_env \<Rightarrow> ('o, 's, 'w) tiered_omap \<Rightarrow> bool result" where
  "can_interleave te tm =
     (if tm_channel tm = None then Inr False
      else bind_result (see_tier (oi_interleaved (te_omap te)) Hot tm) (\<lambda>h.
             if \<not> h then Inr False else see_tier (oi_interleaved (te_omap te)) Cold tm))"

text \<open>The ways to serve an access; without a batch no step has ridden along.\<close>

definition no_batch :: "i32 \<Rightarrow> ('o, 's, 'w) tiered_omap \<Rightarrow> il_options" where
  "no_batch k tm =
     \<lparr>io_key = k, io_new_value = None, io_partial = False, io_epoch = True, io_scan_key = INVALID_KEY,
      io_hot_insert = INVALID_KEY, io_cold_insert = INVALID_KEY, io_hot_dummy = False, io_cold_dummy = False,
      io_searcher = key_tier k tm\<rparr>"

definition serve_epoch ::
  "('o, 's, 'w) tiered_env \<Rightarrow> i32 \<Rightarrow> bytes option \<Rightarrow> tm_access_result \<Rightarrow> ('o, 's, 'w) tiered_omap \<Rightarrow> rng
    \<Rightarrow> (tm_access_result \<times> il_options \<times> ('o, 's, 'w) tiered_omap \<times> rng) result" where
  "serve_epoch te k new_value res tm r =
     bind_result (can_interleave te tm) (\<lambda>ci.
       let pending = (k = tm_pending_key tm); cached = (\<not> pending \<and> k \<in> tm_cache_keys tm);
           plain = (\<lambda>(res', tm', r'). Inr (res', no_batch k tm, tm', r'))
       in if pending then bind_result (serve_pending te new_value res tm r) plain
          else if ci \<and> \<not> cached then serve_batched te k new_value res tm r
          else if cached then bind_result (serve_cached te k new_value res tm r) plain
          else bind_result (serve_sequential te k new_value res tm r) plain)"

section \<open>The access\<close>

definition da_scan_step ::
  "('o, 's, 'w) tiered_env \<Rightarrow> ('o, 's, 'w) tiered_omap \<Rightarrow> rng \<Rightarrow> (('o, 's, 'w) tiered_omap \<times> rng) result" where
  "da_scan_step te tm r =
     bind_result (ask_tier (te_da_scan te) Hot tm r) (\<lambda>(sr, tm1, r1).
       if sr_key sr \<noteq> INVALID_KEY \<and> sr_value sr \<noteq> []
       then bind_result (data_access te (ref_to_blk (sr_value sr)) None tm1 r1) (\<lambda>(raw, tm2, r2).
            let f = fp (snd (decode_epoch raw))
            in with_maint tm2 (\<lambda>mm.
                 if should_demote_cache f mm
                 then Inr (tm2\<lparr>tm_pending_demotions := tm_pending_demotions tm2 @ [(sr_key sr, f)]\<rparr>, r2)
                 else Inr (tm2, r2)))
       else Inr (tm1, r1))"

text \<open>\<open>static_cast<int>\<close> of a counter of 64 bits keeps its low half.\<close>

definition answer_rounds :: "bool \<Rightarrow> bandwidth \<Rightarrow> bandwidth \<Rightarrow> i32" where
  "answer_rounds hot_logical hot_bw total_bw = (if hot_logical then ucast (rounds hot_bw) + 1 else ucast (rounds total_bw))"

definition total_of :: "bandwidth \<Rightarrow> bandwidth \<Rightarrow> bandwidth \<Rightarrow> bandwidth" where
  "total_of hot cold data =
     sum_bandwidth hot cold (bytes_downloaded data) (bytes_uploaded data) (max (rounds hot) (rounds cold) + rounds data)"

definition epoch_bandwidth ::
  "('o, 's, 'w) tiered_env \<Rightarrow> bool \<Rightarrow> tm_access_result \<Rightarrow> ('o, 's, 'w) tiered_omap \<Rightarrow> tm_access_result result" where
  "epoch_bandwidth te hot_logical res tm =
     bind_result (see_tier (oi_last_stats (te_omap te)) Hot tm) (\<lambda>h.
     bind_result (see_tier (oi_last_stats (te_omap te)) Cold tm) (\<lambda>c.
       let total = total_of h c (po_last_bw (tm_data tm))
       in Inr (res\<lparr>ar_hot_bw := h, ar_cold_bw := c, ar_total_bw := total, ar_rounds := answer_rounds hot_logical h total\<rparr>)))"

definition stats_now :: "('o, 's, 'w) tiered_env \<Rightarrow> ('o, 's, 'w) tiered_omap \<Rightarrow> bandwidth result" where
  "stats_now te tm =
     bind_result (see_tier (oi_total_stats (te_omap te)) Hot tm) (\<lambda>h.
     bind_result (see_tier (oi_total_stats (te_omap te)) Cold tm) (\<lambda>c.
       Inr (add_bandwidth (add_bandwidth h c) (po_total_bw (tm_data tm)))))"

definition sub_bandwidth :: "bandwidth \<Rightarrow> bandwidth \<Rightarrow> bandwidth" where
  "sub_bandwidth s t =
     \<lparr>bytes_downloaded = bytes_downloaded s - bytes_downloaded t, bytes_uploaded = bytes_uploaded s - bytes_uploaded t,
      rounds = rounds s - rounds t\<rparr>"

text \<open>The steps whose turn it is and that have not ridden on the batches, at their phases.\<close>

definition staggered_steps ::
  "('o, 's, 'w) tiered_env \<Rightarrow> il_options \<Rightarrow> tm_access_result \<Rightarrow> ('o, 's, 'w) tiered_omap \<Rightarrow> rng
    \<Rightarrow> (tm_access_result \<times> ('o, 's, 'w) tiered_omap \<times> rng) result" where
  "staggered_steps te opt res tm r =
     (let turn = (\<lambda>skip should step (tm', r').
            if skip then Inr (tm', r')
            else bind_result (with_maint tm' should) (\<lambda>b. if b then step te tm' r' else Inr (tm', r')))
      in bind_result (stats_now te tm) (\<lambda>before.
         bind_result (turn (scanning opt) should_scan do_scan_step (tm, r)) (\<lambda>tr1.
         bind_result (turn (io_hot_insert opt \<noteq> INVALID_KEY \<or> io_hot_dummy opt) should_hot_insert do_hot_insert_step tr1) (\<lambda>tr2.
         bind_result (turn (io_cold_insert opt \<noteq> INVALID_KEY \<or> io_cold_dummy opt) should_cold_insert do_cold_insert_step tr2) (\<lambda>(tm3, r3).
         bind_result (stats_now te tm3) (\<lambda>after.
           Inr (res\<lparr>ar_total_bw := add_bandwidth (ar_total_bw res) (sub_bandwidth after before)\<rparr>, tm3, r3)))))))"

definition access_epoch ::
  "('o, 's, 'w) tiered_env \<Rightarrow> i32 \<Rightarrow> bytes option \<Rightarrow> ('o, 's, 'w) tiered_omap \<Rightarrow> rng
    \<Rightarrow> (tm_access_result \<times> ('o, 's, 'w) tiered_omap \<times> rng) result" where
  "access_epoch te k new_value tm r = with_maint tm (\<lambda>mm.
     let hot_logical = (k \<in> tm_hot_keys tm)
     in bind_result (tick mm) (\<lambda>mm1.
        bind_result (serve_epoch te k new_value (new_result\<lparr>ar_found_in_hot := hot_logical\<rparr>) (put_maint mm1 tm) r)
          (\<lambda>(res, opt, tm1, r1).
        bind_result (if da_scans tm1 then da_scan_step te tm1 r1 else Inr (tm1, r1)) (\<lambda>(tm2, r2).
        bind_result (epoch_bandwidth te hot_logical res tm2) (\<lambda>res2.
          staggered_steps te opt res2 tm2 r2)))))"

text \<open>
  Without maintenance: in batches, or the two maps one after the other. The tier that does not hold the key
  makes a dummy access. The value returned is what the data ORAM returns, the old one when a new one is written.
\<close>

definition access_plain_seq ::
  "('o, 's, 'w) tiered_env \<Rightarrow> i32 \<Rightarrow> bytes option \<Rightarrow> tm_access_result \<Rightarrow> ('o, 's, 'w) tiered_omap \<Rightarrow> rng
    \<Rightarrow> (tm_access_result \<times> ('o, 's, 'w) tiered_omap \<times> rng) result" where
  "access_plain_seq te k new_value res tm r =
     (let ops = te_omap te; full = (tc_mode (tm_config tm) = FullOblivious); hot_logical = (k \<in> tm_hot_keys tm)
      in bind_result
           (if k \<in> tm_phys_hot tm then
              bind_result (ask_tier (oi_search ops k None) Hot tm r) (\<lambda>(ref, tm1, r1).
              bind_result (see_tier (oi_last_stats ops) Hot tm1) (\<lambda>h.
              bind_result (data_access te (ref_to_blk ref) new_value tm1 r1) (\<lambda>(v, tm2, r2).
              bind_result (run_tier (if full then oi_dummy ops else oi_partial_dummy ops) Cold tm2 r2) (\<lambda>(tm3, r3).
              bind_result (if full then data_dummy te tm3 r3 else Inr (tm3, r3)) (\<lambda>(tm4, r4). Inr (v, h, tm4, r4))))))
            else
              bind_result (run_tier (oi_dummy ops) Hot tm r) (\<lambda>(tm1, r1).
              bind_result (see_tier (oi_last_stats ops) Hot tm1) (\<lambda>h.
              bind_result (ask_tier (oi_search ops k None) Cold tm1 r1) (\<lambda>(ref, tm2, r2).
              bind_result (if full then data_dummy te tm2 r2 else Inr (tm2, r2)) (\<lambda>(tm3, r3).
              bind_result (data_access te (ref_to_blk ref) new_value tm3 r3) (\<lambda>(v, tm4, r4). Inr (v, h, tm4, r4)))))))
           (\<lambda>(v, h, tm5, r5).
         bind_result (see_tier (oi_last_stats ops) Cold tm5) (\<lambda>c.
           let total = total_of h c (po_last_bw (tm_data tm5))
           in Inr (res\<lparr>ar_value := v, ar_hot_bw := h, ar_cold_bw := c, ar_total_bw := total,
                       ar_rounds := answer_rounds hot_logical h total\<rparr>, tm5, r5))))"

definition access_plain ::
  "('o, 's, 'w) tiered_env \<Rightarrow> i32 \<Rightarrow> bytes option \<Rightarrow> ('o, 's, 'w) tiered_omap \<Rightarrow> rng
    \<Rightarrow> (tm_access_result \<times> ('o, 's, 'w) tiered_omap \<times> rng) result" where
  "access_plain te k new_value tm r =
     (let res = new_result\<lparr>ar_found_in_hot := k \<in> tm_hot_keys tm\<rparr>
      in bind_result (can_interleave te tm) (\<lambda>ci.
           if ci then
             bind_result (interleaved_access te
                 (\<lparr>io_key = k, io_new_value = new_value, io_partial = (tc_mode (tm_config tm) = TierMembership),
                   io_epoch = False, io_scan_key = INVALID_KEY, io_hot_insert = INVALID_KEY, io_cold_insert = INVALID_KEY,
                   io_hot_dummy = False, io_cold_dummy = tm_force_cold_dummy tm, io_searcher = key_tier k tm\<rparr>) tm r)
               (\<lambda>(ir, tm1, r1).
                 Inr (res\<lparr>ar_value := ar_value ir, ar_found_in_hot := ar_found_in_hot ir, ar_hot_bw := ar_hot_bw ir,
                          ar_cold_bw := ar_cold_bw ir, ar_total_bw := ar_total_bw ir, ar_rounds := ar_rounds ir\<rparr>, tm1, r1))
           else access_plain_seq te k new_value res tm r))"

definition tm_access ::
  "('o, 's, 'w) tiered_env \<Rightarrow> i32 \<Rightarrow> bytes option \<Rightarrow> ('o, 's, 'w) tiered_omap \<Rightarrow> rng
    \<Rightarrow> (tm_access_result \<times> ('o, 's, 'w) tiered_omap \<times> rng) result" where
  "tm_access te k new_value tm r =
     (if tm_maint tm \<noteq> None then access_epoch te k new_value tm r else access_plain te k new_value tm r)"

section \<open>Two phases over the channel\<close>

text \<open>A search and then a scan of the distributed hot map, each beside a partial dummy access of the other map.\<close>

definition interleaved_da_piggyback ::
  "('o, 's, 'w) tiered_env \<Rightarrow> i32 \<Rightarrow> bytes option \<Rightarrow> ('o, 's, 'w) tiered_omap \<Rightarrow> rng
    \<Rightarrow> (tm_access_result \<times> ('o, 's, 'w) tiered_omap \<times> rng) result" where
  "interleaved_da_piggyback te k new_value tm r =
     (let ops = te_omap te; target = key_tier k tm; other = other_tier target; hot_logical = (k \<in> tm_hot_keys tm)
      in bind_result (run_tier (oi_begin_search ops k None) target tm r) (\<lambda>(tm1, r1).
         bind_result (run_tier (oi_begin_partial ops) other tm1 r1) (\<lambda>(tm2, r2).
         bind_result (run_interleaved_loop te target other tm2 r2) (\<lambda>(tm3, r3).
         bind_result (ask_tier (oi_finish ops) target tm3 r3) (\<lambda>(ref, tm4, r4).
         bind_result (ask_tier (oi_finish ops) other tm4 r4) (\<lambda>(x, tm5, r5).
         let blk = ref_to_blk ref
         in bind_result (data_access te blk None tm5 r5) (\<lambda>(raw, tm6, r6).
            bind_result (data_dummy te tm6 r6) (\<lambda>(tm7, r7).
            with_maint tm7 (\<lambda>mm.
            let (v, m0) = decode_epoch raw; m = update_meta mm m0; out = (case new_value of None \<Rightarrow> v | Some w \<Rightarrow> w)
            in bind_result (data_access te blk (Some (encode_with_epoch out m)) tm7 r7) (\<lambda>(y, tm8, r8).
               bind_result (data_dummy te tm8 r8) (\<lambda>(tm9, r9).
               bind_result (run_tier (oi_begin_scan ops) Hot tm9 r9) (\<lambda>(tm10, r10).
               bind_result (run_tier (oi_begin_partial ops) Cold tm10 r10) (\<lambda>(tm11, r11).
               bind_result (run_interleaved_loop te Hot Cold tm11 r11) (\<lambda>(tm12, r12).
               bind_result (ask_tier (oi_finish ops) Cold tm12 r12) (\<lambda>(z, tm13, r13).
               bind_result (ask_tier (oi_finish_scan ops) Hot tm13 r13) (\<lambda>(sr, tm14, r14).
               bind_result (da_scan_step (te\<lparr>te_da_scan := yields sr\<rparr>) tm14 r14) (\<lambda>(tm15, r15).
               bind_result (epoch_bandwidth te hot_logical
                   (new_result\<lparr>ar_found_in_hot := hot_logical, ar_value := out, ar_last_fp := fp m\<rparr>) tm15) (\<lambda>res.
                 Inr (res, tm15, r15)))))))))))))))))))"

text \<open>A sequence of accesses and the values they return.\<close>

fun tm_run ::
  "('o, 's, 'w) tiered_env \<Rightarrow> (i32 \<times> bytes option) list \<Rightarrow> ('o, 's, 'w) tiered_omap \<Rightarrow> rng
    \<Rightarrow> (bytes list \<times> ('o, 's, 'w) tiered_omap \<times> rng) result" where
  "tm_run te [] tm r = Inr ([], tm, r)"
| "tm_run te ((k, nv) # qs) tm r =
     bind_result (tm_access te k nv tm r) (\<lambda>(res, tm1, r1).
     bind_result (tm_run te qs tm1 r1) (\<lambda>(vs, tm2, r2). Inr (ar_value res # vs, tm2, r2)))"

end
