(* ===== verification/Avl_Omap_Interface.thy ===== *)
theory Avl_Omap_Interface
  imports Avl_Omap_Properties Avl_Omap_Steps
begin

text \<open>
  \<open>class AVLOmap : public OmapInterface\<close> of \<open>include/tiered_omap/omap/avl_omap.h\<close>: the virtual functions the
  class overrides, over the map together with its step machine; the others are those of the interface. The
  interpretation \<open>avl_map\<close> shows that the class keeps what a client of the interface relies on.
\<close>

section \<open>The overridden functions\<close>

definition piggyback_get_traverse_result :: "'s avl_machine \<Rightarrow> bytes" where
  "piggyback_get_traverse_result m = pb_result (am_pb m)"

text \<open>An operation of the map beside the step machine.\<close>

definition on_map :: "('s avl_omap \<Rightarrow> rng \<Rightarrow> ('s avl_omap \<times> rng) result) \<Rightarrow> 's avl_machine omap_step" where
  "on_map f m r = bind_result (f (am_map m) r) (\<lambda>(t, r1). Inr (m\<lparr>am_map := t\<rparr>, r1))"

definition ask_map :: "('s avl_omap \<Rightarrow> rng \<Rightarrow> ('a \<times> 's avl_omap \<times> rng) result) \<Rightarrow> ('s avl_machine, 'a) omap_op" where
  "ask_map f m r = bind_result (f (am_map m) r) (\<lambda>(x, t, r1). Inr (x, m\<lparr>am_map := t\<rparr>, r1))"

definition avl_reset_stats :: "'s avl_machine \<Rightarrow> 's avl_machine" where
  "avl_reset_stats m = m\<lparr>am_map := (am_map m)\<lparr>av_last_bw := zero_bandwidth, av_total_bw := zero_bandwidth\<rparr>\<rparr>"

text \<open>\<open>create\<close> makes the storage of an ORAM; the two orders are those in which the initial load walks its hash maps.\<close>

definition avl_ops ::
  "oram_env \<Rightarrow> 's storage_ops \<Rightarrow> (int \<Rightarrow> int \<Rightarrow> 's result) \<Rightarrow> (i32 list \<Rightarrow> i32 list) \<Rightarrow> (i32 list \<Rightarrow> i32 list)
    \<Rightarrow> 's avl_machine omap_ops" where
  "avl_ops E ops create node_order data_order =
     (omap_defaults (\<lambda>k u. ask_map (av_search E ops k u)) (\<lambda>k v. on_map (av_insert E ops k v))
        (\<lambda>k. on_map (av_remove E ops k)) (on_map (av_dummy_access E ops))
        (\<lambda>kvs. on_map (av_init E ops create node_order data_order kvs))
        (\<lambda>m. av_last_bw (am_map m)) (\<lambda>m. av_total_bw (am_map m)) avl_reset_stats)
     \<lparr>oi_partial_dummy := on_map (av_partial_dummy_access E ops),
      oi_search_piggyback := (\<lambda>k u ek eop ev. ask_map (\<lambda>t r.
        bind_result (av_search_piggyback E ops k u ek eop ev t r) (\<lambda>(v, x, t1, r1). Inr ((v, x), t1, r1)))),
      oi_interleaved := (\<lambda>m. True),
      oi_begin_search := (\<lambda>k u. pure_step (begin_step_search k u)),
      oi_begin_dummy := pure_step begin_step_dummy,
      oi_begin_partial := pure_step begin_step_partial_dummy,
      oi_next_round := step_next_round ops,
      oi_apply_reads := (\<lambda>paths m r. bind_result (step_apply_reads E paths m) (\<lambda>m1. Inr (m1, r))),
      oi_process := step_process ops,
      oi_prepare_writes := step_prepare_writes E ops,
      oi_done := step_done,
      oi_finish := (\<lambda>m r. case step_finish ops m of (v, m1) \<Rightarrow> Inr (v, m1, r)),
      oi_pb_search := (\<lambda>k. pure_step (begin_piggyback_search k)),
      oi_pb_insert := begin_piggyback_insert ops,
      oi_pb_dummy := pure_step begin_piggyback_dummy,
      oi_pb_finish := (\<lambda>m r. Inr (finish_piggyback m, m, r)),
      oi_pb_needs_decision := piggyback_needs_decision,
      oi_pb_traverse_result := piggyback_get_traverse_result\<rparr>"

text \<open>The overridden \<open>piggyback_commit_remove\<close> and \<open>piggyback_commit_noop\<close> do nothing, like those of the interface.\<close>

lemma avl_ops_simps [simp]:
  "oi_search (avl_ops E ops c no dor) k u = ask_map (av_search E ops k u)"
  "oi_insert (avl_ops E ops c no dor) k v = on_map (av_insert E ops k v)"
  "oi_dummy (avl_ops E ops c no dor) = on_map (av_dummy_access E ops)"
  "oi_partial_dummy (avl_ops E ops c no dor) = on_map (av_partial_dummy_access E ops)"
  "oi_needs_decision (avl_ops E ops c no dor) m = False"
  "oi_pb_commit_remove (avl_ops E ops c no dor) = nothing"
  "oi_pb_commit_noop (avl_ops E ops c no dor) = nothing"
  by (simp_all add: avl_ops_def omap_defaults_def)

section \<open>The contract\<close>

definition avl_rep :: "oram_env \<Rightarrow> bucket_tree avl_machine \<Rightarrow> (i32 \<rightharpoonup> bytes) \<Rightarrow> bool" where
  "avl_rep E s m \<longleftrightarrow> good_env E
     \<and> (\<exists>tree. avl_holds E (am_map s) tree \<and> int (height tree) \<le> av_max_height (am_map s) \<and> m = tree_map tree)"

lemma avl_rep_keep:
  assumes "avl_holds E t' tree" "av_conf (am_map s) t'" "good_env E" "int (height tree) \<le> av_max_height (am_map s)"
  shows "avl_rep E (s\<lparr>am_map := t'\<rparr>) (tree_map tree)"
  using assms by (auto simp: avl_rep_def av_conf_def)

interpretation avl_map: oblivious_map "avl_ops E tree_ops create node_order data_order" "avl_rep E"
  for E create node_order data_order
proof
  fix s :: "bucket_tree avl_machine" and m k r
  assume "avl_rep E s m"
  then obtain tree where E: "good_env E" and t: "avl_holds E (am_map s) tree" "int (height tree) \<le> av_max_height (am_map s)"
    and m: "m = tree_map tree"
    by (auto simp: avl_rep_def)
  note st = t(1) [unfolded avl_holds_def]
  note keep = avl_rep_keep [OF _ _ E t(2), folded m, unfolded avl_holds_def]
  show "safe_run (oi_search (avl_ops E tree_ops create node_order data_order) k None s r)
      (\<lambda>(v, s', r'). v = read_of m k \<and> avl_rep E s' m)"
    unfolding avl_ops_simps ask_map_def
    by (rule safe_run_bind [OF tree.search_spec [OF E st t(2), of None k]], clarify)
      (use keep in \<open>auto simp: upd_tree_def read_of_def m av_same_def\<close>)
  show "safe_run (oi_dummy (avl_ops E tree_ops create node_order data_order) s r) (\<lambda>(s', r'). avl_rep E s' m)"
    unfolding avl_ops_simps on_map_def
    by (rule safe_run_bind [OF tree.dummy_spec [OF E st]], clarify) (use keep in \<open>auto simp: av_keeps_def\<close>)
  show "safe_run (oi_partial_dummy (avl_ops E tree_ops create node_order data_order) s r) (\<lambda>(s', r'). avl_rep E s' m)"
    unfolding avl_ops_simps on_map_def
    by (rule safe_run_bind [OF tree.partial_dummy_spec [OF E st]], clarify) (use keep in \<open>auto simp: av_keeps_def\<close>)
qed

end
