(* ===== verification/Tiered_Plain.thy ===== *)
theory Tiered_Plain
  imports Tiered_Access Avl_Omap_Interface
begin

text \<open>
  The tiered map without maintenance and without a channel as a map. The locale \<open>tiered_client\<close> holds what the tiered map relies on:
  the contract of the maps of its tiers and that of the data ORAM. Its facts are used on the AVL map and the
  Path ORAM over the local bucket tree.
\<close>

section \<open>The stored map\<close>

text \<open>The block a key refers to: a key is looked up in one tier only.\<close>

definition block_of :: "i32 set \<Rightarrow> (i32 \<rightharpoonup> bytes) \<Rightarrow> (i32 \<rightharpoonup> bytes) \<Rightarrow> i32 \<rightharpoonup> i32" where
  "block_of hot hm cm k = map_option ref_to_blk (if k \<in> hot then hm k else cm k)"

definition placed :: "i32 set \<Rightarrow> (i32 \<rightharpoonup> bytes) \<Rightarrow> (i32 \<rightharpoonup> bytes) \<Rightarrow> (i32 \<rightharpoonup> bytes) \<Rightarrow> (i32 \<rightharpoonup> bytes) \<Rightarrow> bool" where
  "placed hot hm cm d m \<longleftrightarrow>
     (\<forall>k b. block_of hot hm cm k = Some b \<longrightarrow> 0 \<le> sint b \<and> d b \<noteq> None)
     \<and> (\<forall>k k' b. block_of hot hm cm k = Some b \<and> block_of hot hm cm k' = Some b \<longrightarrow> k = k')
     \<and> m = (\<lambda>k. Option.bind (block_of hot hm cm k) d)"

definition parts_hold ::
  "('o \<Rightarrow> (i32 \<rightharpoonup> bytes) \<Rightarrow> bool) \<Rightarrow> ('s path_oram \<Rightarrow> (i32 \<rightharpoonup> bytes) \<Rightarrow> bool) \<Rightarrow> (i32 \<rightharpoonup> bytes) \<Rightarrow> (i32 \<rightharpoonup> bytes)
    \<Rightarrow> (i32 \<rightharpoonup> bytes) \<Rightarrow> ('o, 's, 'w) tiered_omap \<Rightarrow> bool" where
  "parts_hold holds stores hm cm d tm \<longleftrightarrow>
     (\<exists>h c. tm_hot tm = Some h \<and> tm_cold tm = Some c \<and> holds h hm \<and> holds c cm) \<and> stores (tm_data tm) d"

definition plain_stores ::
  "('o \<Rightarrow> (i32 \<rightharpoonup> bytes) \<Rightarrow> bool) \<Rightarrow> ('s path_oram \<Rightarrow> (i32 \<rightharpoonup> bytes) \<Rightarrow> bool)
    \<Rightarrow> ('o, 's, 'w) tiered_omap \<Rightarrow> (i32 \<rightharpoonup> bytes) \<Rightarrow> bool" where
  "plain_stores holds stores tm m \<longleftrightarrow>
     tm_maint tm = None \<and> tm_channel tm = None
     \<and> (\<exists>hm cm d. parts_hold holds stores hm cm d tm \<and> placed (tm_phys_hot tm) hm cm d m)"

text \<open>An access to the map: a write to an absent key does nothing.\<close>

definition put_value :: "i32 \<Rightarrow> bytes option \<Rightarrow> (i32 \<rightharpoonup> bytes) \<Rightarrow> i32 \<rightharpoonup> bytes" where
  "put_value k nv m = (case nv of None \<Rightarrow> m | Some w \<Rightarrow> if m k = None then m else m(k \<mapsto> w))"

fun tm_map_run :: "(i32 \<times> bytes option) list \<Rightarrow> (i32 \<rightharpoonup> bytes) \<Rightarrow> bytes list \<times> (i32 \<rightharpoonup> bytes)" where
  "tm_map_run [] m = ([], m)"
| "tm_map_run ((k, nv) # qs) m =
     (read_of m k # fst (tm_map_run qs (put_value k nv m)), snd (tm_map_run qs (put_value k nv m)))"

lemma placed_absent:
  assumes "placed hot hm cm d m" "(if k \<in> hot then hm else cm) k = None"
  shows "m k = None"
proof -
  have "block_of hot hm cm k = None" using assms(2) by (simp add: block_of_def split: if_splits)
  moreover have "m = (\<lambda>k. Option.bind (block_of hot hm cm k) d)" using assms(1) unfolding placed_def by blast
  ultimately show ?thesis by simp
qed

lemma placed_present:
  assumes "placed hot hm cm d m" "(if k \<in> hot then hm else cm) k = Some ref"
  shows "0 \<le> sint (ref_to_blk ref)" "d (ref_to_blk ref) = m k" "m k \<noteq> None"
proof -
  have b: "block_of hot hm cm k = Some (ref_to_blk ref)" using assms(2) by (simp add: block_of_def split: if_splits)
  then show "0 \<le> sint (ref_to_blk ref)" "d (ref_to_blk ref) = m k" "m k \<noteq> None"
    using assms(1) unfolding placed_def by auto
qed

lemma placed_write:
  assumes p: "placed hot hm cm d m" and k: "(if k \<in> hot then hm else cm) k = Some ref"
  shows "placed hot hm cm (d(ref_to_blk ref \<mapsto> w)) (m(k \<mapsto> w))"
proof -
  let ?b = "block_of hot hm cm"
  have b: "?b k = Some (ref_to_blk ref)" using k by (simp add: block_of_def split: if_splits)
  have one: "k' = k" if "?b k' = Some (ref_to_blk ref)" for k' using p b that unfolding placed_def by blast
  have "m(k \<mapsto> w) = (\<lambda>x. Option.bind (?b x) (d(ref_to_blk ref \<mapsto> w)))"
  proof
    fix x show "(m(k \<mapsto> w)) x = Option.bind (?b x) (d(ref_to_blk ref \<mapsto> w))"
      using p b one [of x] by (cases "?b x") (auto simp: placed_def)
  qed
  then show ?thesis using p unfolding placed_def by auto
qed

text \<open>Everything but the tiers and the data ORAM stays.\<close>

definition only_parts :: "('o, 's, 'w) tiered_omap \<Rightarrow> ('o, 's, 'w) tiered_omap \<Rightarrow> bool" where
  "only_parts tm tm' \<longleftrightarrow> (\<exists>h c p. tm' = tm\<lparr>tm_hot := h, tm_cold := c, tm_data := p\<rparr>)"

lemma only_parts_trans: "only_parts tm tm' \<Longrightarrow> only_parts tm' tm'' \<Longrightarrow> only_parts tm tm''"
  unfolding only_parts_def by (elim exE) (simp, blast)

lemma only_parts_fields:
  "only_parts tm tm' \<Longrightarrow> tm_maint tm' = tm_maint tm"
  "only_parts tm tm' \<Longrightarrow> tm_channel tm' = tm_channel tm"
  "only_parts tm tm' \<Longrightarrow> tm_phys_hot tm' = tm_phys_hot tm"
  by (auto simp: only_parts_def)

lemma only_parts_updates:
  "only_parts tm (tm\<lparr>tm_hot := h\<rparr>)" "only_parts tm (tm\<lparr>tm_cold := c\<rparr>)" "only_parts tm (tm\<lparr>tm_data := p\<rparr>)"
  unfolding only_parts_def
  by (rule exI [of _ h], rule exI [of _ "tm_cold tm"], rule exI [of _ "tm_data tm"], simp)
    (rule exI [of _ "tm_hot tm"], rule exI [of _ c], rule exI [of _ "tm_data tm"], simp,
     rule exI [of _ "tm_hot tm"], rule exI [of _ "tm_cold tm"], rule exI [of _ p], simp)

section \<open>What the tiered map relies on\<close>

locale tiered_client = oblivious_map ops holds
  for ops :: "'o omap_ops" and holds :: "'o \<Rightarrow> (i32 \<rightharpoonup> bytes) \<Rightarrow> bool" +
  fixes te :: "('o, 's, 'w) tiered_env"
    and stores :: "'s path_oram \<Rightarrow> (i32 \<rightharpoonup> bytes) \<Rightarrow> bool"
  assumes te_map: "te_omap te = ops"
    and access_law: "stores p d \<Longrightarrow> d b = Some v \<Longrightarrow> \<forall>w. nv = Some w \<longrightarrow> fits_cipher w \<Longrightarrow>
      safe_run (po_access (te_oram te) (te_ops te) b nv p r)
        (\<lambda>(res, p', r'). res = v \<and> stores p' (d(b \<mapsto> (case nv of None \<Rightarrow> v | Some w \<Rightarrow> w))))"
    and data_dummy_law: "stores p d \<Longrightarrow>
      safe_run (po_dummy_access (te_oram te) (te_ops te) p r) (\<lambda>(p', r'). stores p' d)"
begin

lemma search_tier:
  assumes "parts_hold holds stores hm cm d tm"
  shows "safe_run (ask_tier (oi_search ops k None) tr tm r)
    (\<lambda>(v, tm', r'). v = read_of (case tr of Hot \<Rightarrow> hm | Cold \<Rightarrow> cm) k \<and> parts_hold holds stores hm cm d tm' \<and> only_parts tm tm')"
proof -
  obtain h c where hc: "tm_hot tm = Some h" "tm_cold tm = Some c" "holds h hm" "holds c cm" "stores (tm_data tm) d"
    using assms unfolding parts_hold_def by blast
  show ?thesis
  proof (cases tr)
    case Hot
    show ?thesis
      unfolding ask_tier_def Hot tier_omap.simps hc(1) option.case
      by (rule safe_run_bind [OF search_law [OF hc(3)]], clarify)
        (use hc in \<open>auto simp: parts_hold_def only_parts_updates\<close>)
  next
    case Cold
    show ?thesis
      unfolding ask_tier_def Cold tier_omap.simps hc(2) option.case
      by (rule safe_run_bind [OF search_law [OF hc(4)]], clarify)
        (use hc in \<open>auto simp: parts_hold_def only_parts_updates\<close>)
  qed
qed

lemma dummy_tier:
  assumes "parts_hold holds stores hm cm d tm"
    and f: "\<And>s m r. holds s m \<Longrightarrow> safe_run (f s r) (\<lambda>(s', r'). holds s' m)"
  shows "safe_run (run_tier f tr tm r) (\<lambda>(tm', r'). parts_hold holds stores hm cm d tm' \<and> only_parts tm tm')"
proof -
  obtain h c where hc: "tm_hot tm = Some h" "tm_cold tm = Some c" "holds h hm" "holds c cm" "stores (tm_data tm) d"
    using assms(1) unfolding parts_hold_def by blast
  show ?thesis
  proof (cases tr)
    case Hot
    show ?thesis
      unfolding run_tier_def Hot tier_omap.simps hc(1) option.case
      by (rule safe_run_bind [OF f [OF hc(3)]], clarify)
        (use hc in \<open>auto simp: parts_hold_def only_parts_updates\<close>)
  next
    case Cold
    show ?thesis
      unfolding run_tier_def Cold tier_omap.simps hc(2) option.case
      by (rule safe_run_bind [OF f [OF hc(4)]], clarify)
        (use hc in \<open>auto simp: parts_hold_def only_parts_updates\<close>)
  qed
qed

lemma dummy_data:
  assumes "parts_hold holds stores hm cm d tm"
  shows "safe_run (data_dummy te tm r) (\<lambda>(tm', r'). parts_hold holds stores hm cm d tm' \<and> only_parts tm tm')"
proof -
  have st: "stores (tm_data tm) d" using assms by (simp add: parts_hold_def)
  show ?thesis
    unfolding data_dummy_def
    by (rule safe_run_bind [OF data_dummy_law [OF st]], clarify)
      (use assms in \<open>auto simp: parts_hold_def only_parts_updates\<close>)
qed

lemma see_tier_runs: "parts_hold holds stores hm cm d tm \<Longrightarrow> \<exists>x. see_tier f tr tm = Inr x"
  unfolding parts_hold_def see_tier_def by (cases tr) auto

text \<open>The access to the block of a key, with the reference its tier gave.\<close>

lemma data_step:
  assumes ph: "parts_hold holds stores hm cm d tm" and pl: "placed hot hm cm d m"
    and ref: "ref = read_of (if k \<in> hot then hm else cm) k" and fit: "\<forall>w. nv = Some w \<longrightarrow> fits_cipher w"
  shows "safe_run (data_access te (ref_to_blk ref) nv tm r)
    (\<lambda>(v, tm', r'). v = read_of m k \<and> only_parts tm tm'
       \<and> (\<exists>d'. parts_hold holds stores hm cm d' tm' \<and> placed hot hm cm d' (put_value k nv m)))"
proof -
  have st: "stores (tm_data tm) d" using ph by (simp add: parts_hold_def)
  have upd: "parts_hold holds stores hm cm d' (tm\<lparr>tm_data := p\<rparr>) \<and> only_parts tm (tm\<lparr>tm_data := p\<rparr>)" if "stores p d'" for p d'
    using ph that by (auto simp: parts_hold_def only_parts_updates)
  show ?thesis
  proof (cases "(if k \<in> hot then hm else cm) k")
    case None
    then have m: "m k = None" by (rule placed_absent [OF pl])
    have b: "sint (ref_to_blk ref) < 0" using None by (simp add: ref read_of_def ref_to_blk_def INVALID_BLOCK_def)
    show ?thesis
      unfolding data_access_def if_P [OF b]
      by (rule safe_run_bind [OF data_dummy_law [OF st]], clarify)
        (use upd pl m in \<open>auto simp: read_of_def put_value_def split: option.split\<close>)
  next
    case (Some rf)
    note p = placed_present [OF pl Some]
    have rf: "ref = rf" using Some by (simp add: ref read_of_def)
    then have nb: "\<not> sint (ref_to_blk ref) < 0" using p(1) by simp
    obtain v where v: "m k = Some v" "d (ref_to_blk ref) = Some v" using p(2,3) rf by auto
    have w: "placed hot hm cm (d(ref_to_blk ref \<mapsto> (case nv of None \<Rightarrow> v | Some w \<Rightarrow> w))) (put_value k nv m)"
      using placed_write [OF pl Some, of "case nv of None \<Rightarrow> v | Some w \<Rightarrow> w"] v rf
      by (auto simp: put_value_def fun_upd_idem split: option.splits)
    show ?thesis
      unfolding data_access_def if_not_P [OF nb]
      by (rule safe_run_bind [OF access_law [OF st v(2) fit]], clarify) (use upd w v in \<open>auto simp: read_of_def\<close>)
  qed
qed

text \<open>An access reads or writes the key, whatever its tier is.\<close>

lemma plain_seq:
  assumes ph: "parts_hold holds stores hm cm d tm" and pl: "placed (tm_phys_hot tm) hm cm d m"
    and fit: "\<forall>w. nv = Some w \<longrightarrow> fits_cipher w"
  shows "safe_run (access_plain_seq te k nv res tm r)
    (\<lambda>(res', tm', r'). ar_value res' = read_of m k \<and> only_parts tm tm'
       \<and> (\<exists>d'. parts_hold holds stores hm cm d' tm' \<and> placed (tm_phys_hot tm) hm cm d' (put_value k nv m)))"
proof -
  let ?hot = "tm_phys_hot tm" and ?full = "tc_mode (tm_config tm) = FullOblivious"
  let ?Q = "\<lambda>v tm'. v = read_of m k \<and> only_parts tm tm'
       \<and> (\<exists>d'. parts_hold holds stores hm cm d' tm' \<and> placed ?hot hm cm d' (put_value k nv m))"
  have side: "safe_run ((if ?full then oi_dummy ops else oi_partial_dummy ops) s r1) (\<lambda>(s', r'). holds s' x)"
    if "holds s x" for s x r1
    using that dummy_law partial_dummy_law by simp
  have pad: "safe_run (if ?full then data_dummy te tm1 r1 else Inr (tm1, r1)) (\<lambda>(tm', r'). parts_hold holds stores hm cm d1 tm' \<and> only_parts tm tm')"
    if "parts_hold holds stores hm cm d1 tm1" "only_parts tm tm1" for tm1 r1 d1
    by (cases ?full) (use safe_run_mono [OF dummy_data [OF that(1), of r1]] only_parts_trans [OF that(2)] that in auto)
  have inner: "safe_run
      (if k \<in> ?hot then
              bind_result (ask_tier (oi_search ops k None) Hot tm r) (\<lambda>(ref, tm1, r1).
              bind_result (see_tier (oi_last_stats ops) Hot tm1) (\<lambda>h.
              bind_result (data_access te (ref_to_blk ref) nv tm1 r1) (\<lambda>(v, tm2, r2).
              bind_result (run_tier (if ?full then oi_dummy ops else oi_partial_dummy ops) Cold tm2 r2) (\<lambda>(tm3, r3).
              bind_result (if ?full then data_dummy te tm3 r3 else Inr (tm3, r3)) (\<lambda>(tm4, r4). Inr (v, h, tm4, r4))))))
            else
              bind_result (run_tier (oi_dummy ops) Hot tm r) (\<lambda>(tm1, r1).
              bind_result (see_tier (oi_last_stats ops) Hot tm1) (\<lambda>h.
              bind_result (ask_tier (oi_search ops k None) Cold tm1 r1) (\<lambda>(ref, tm2, r2).
              bind_result (if ?full then data_dummy te tm2 r2 else Inr (tm2, r2)) (\<lambda>(tm3, r3).
              bind_result (data_access te (ref_to_blk ref) nv tm3 r3) (\<lambda>(v, tm4, r4). Inr (v, h, tm4, r4)))))))
      (\<lambda>(v, h, tm', r'). ?Q v tm')"
  proof (cases "k \<in> ?hot")
    case True
    show ?thesis
      unfolding if_P [OF True]
    proof (rule safe_run_bind [OF search_tier [OF ph, of k Hot]], clarify)
      fix tm1 r1 assume a1: "parts_hold holds stores hm cm d tm1" "only_parts tm tm1"
      obtain h where h: "see_tier (oi_last_stats ops) Hot tm1 = Inr h" using see_tier_runs [OF a1(1), of "oi_last_stats ops" Hot] by blast
      show "safe_run (bind_result (see_tier (oi_last_stats ops) Hot tm1) (\<lambda>h.
              bind_result (data_access te (ref_to_blk (read_of (case Hot of Hot \<Rightarrow> hm | Cold \<Rightarrow> cm) k)) nv tm1 r1) (\<lambda>(v, tm2, r2).
              bind_result (run_tier (if ?full then oi_dummy ops else oi_partial_dummy ops) Cold tm2 r2) (\<lambda>(tm3, r3).
              bind_result (if ?full then data_dummy te tm3 r3 else Inr (tm3, r3)) (\<lambda>(tm4, r4). Inr (v, h, tm4, r4))))))
           (\<lambda>(v, h, tm', r'). ?Q v tm')"
        unfolding h bind_result_simps
      proof (rule safe_run_bind [OF data_step [OF a1(1) pl _ fit, of _ k]], simp add: True, clarify)
        fix tm2 r2 d2
        assume a2: "only_parts tm1 tm2" "parts_hold holds stores hm cm d2 tm2" "placed ?hot hm cm d2 (put_value k nv m)"
        have f2: "only_parts tm tm2" using a1(2) a2(1) by (rule only_parts_trans)
        show "safe_run (bind_result (run_tier (if ?full then oi_dummy ops else oi_partial_dummy ops) Cold tm2 r2) (\<lambda>(tm3, r3).
              bind_result (if ?full then data_dummy te tm3 r3 else Inr (tm3, r3)) (\<lambda>(tm4, r4). Inr (read_of m k, h, tm4, r4))))
            (\<lambda>(v, h, tm', r'). ?Q v tm')"
          by (rule safe_run_bind [OF dummy_tier [OF a2(2) side]], assumption, clarify, rule safe_run_bind [OF pad])
            (use f2 only_parts_trans a2(3) in auto)
      qed
    qed
  next
    case False
    show ?thesis
      unfolding if_not_P [OF False]
    proof (rule safe_run_bind [OF dummy_tier [OF ph dummy_law]], assumption, clarify)
      fix tm1 r1 assume a1: "parts_hold holds stores hm cm d tm1" "only_parts tm tm1"
      obtain h where h: "see_tier (oi_last_stats ops) Hot tm1 = Inr h" using see_tier_runs [OF a1(1), of "oi_last_stats ops" Hot] by blast
      show "safe_run (bind_result (see_tier (oi_last_stats ops) Hot tm1) (\<lambda>h.
              bind_result (ask_tier (oi_search ops k None) Cold tm1 r1) (\<lambda>(ref, tm2, r2).
              bind_result (if ?full then data_dummy te tm2 r2 else Inr (tm2, r2)) (\<lambda>(tm3, r3).
              bind_result (data_access te (ref_to_blk ref) nv tm3 r3) (\<lambda>(v, tm4, r4). Inr (v, h, tm4, r4))))))
           (\<lambda>(v, h, tm', r'). ?Q v tm')"
        unfolding h bind_result_simps
      proof (rule safe_run_bind [OF search_tier [OF a1(1), of k Cold]], clarify)
        fix tm2 r2 assume a2: "parts_hold holds stores hm cm d tm2" "only_parts tm1 tm2"
        have f2: "only_parts tm tm2" using a1(2) a2(2) by (rule only_parts_trans)
        show "safe_run (bind_result (if ?full then data_dummy te tm2 r2 else Inr (tm2, r2)) (\<lambda>(tm3, r3).
              bind_result (data_access te (ref_to_blk (read_of (case Cold of Hot \<Rightarrow> hm | Cold \<Rightarrow> cm) k)) nv tm3 r3)
                (\<lambda>(v, tm4, r4). Inr (v, h, tm4, r4))))
            (\<lambda>(v, h, tm', r'). ?Q v tm')"
        proof (rule safe_run_bind [OF pad [OF a2(1) f2]], clarify)
          fix tm3 r3 assume a3: "parts_hold holds stores hm cm d tm3" "only_parts tm tm3"
          show "safe_run (bind_result (data_access te (ref_to_blk (read_of (case Cold of Hot \<Rightarrow> hm | Cold \<Rightarrow> cm) k)) nv tm3 r3)
                (\<lambda>(v, tm4, r4). Inr (v, h, tm4, r4)))
            (\<lambda>(v, h, tm', r'). ?Q v tm')"
            by (rule safe_run_bind [OF data_step [OF a3(1) pl _ fit, of _ k]], simp add: False, clarify, simp)
              (blast intro: only_parts_trans [OF a3(2)])
        qed
      qed
    qed
  qed
  show ?thesis
    unfolding access_plain_seq_def Let_def te_map
  proof (rule safe_run_bind [OF inner], clarify)
    fix h tm5 r5 d5
    assume a: "only_parts tm tm5" "parts_hold holds stores hm cm d5 tm5" "placed ?hot hm cm d5 (put_value k nv m)"
    obtain c where "see_tier (oi_last_stats ops) Cold tm5 = Inr c" using see_tier_runs [OF a(2), of "oi_last_stats ops" Cold] by blast
    then show "safe_run (bind_result (see_tier (oi_last_stats ops) Cold tm5) (\<lambda>c.
         Inr (res\<lparr>ar_value := read_of m k, ar_hot_bw := h, ar_cold_bw := c,
              ar_total_bw := total_of h c (po_last_bw (tm_data tm5)),
              ar_rounds := answer_rounds (k \<in> tm_hot_keys tm) h (total_of h c (po_last_bw (tm_data tm5)))\<rparr>, tm5, r5)))
      (\<lambda>(res', tm', r'). ar_value res' = read_of m k \<and> only_parts tm tm'
       \<and> (\<exists>d'. parts_hold holds stores hm cm d' tm' \<and> placed ?hot hm cm d' (put_value k nv m)))"
      using a by auto
  qed
qed

lemma plain_access:
  assumes "plain_stores holds stores tm m" "\<forall>w. nv = Some w \<longrightarrow> fits_cipher w"
  shows "safe_run (tm_access te k nv tm r)
    (\<lambda>(res, tm', r'). ar_value res = read_of m k \<and> plain_stores holds stores tm' (put_value k nv m))"
proof -
  from assms(1) obtain hm cm d where tm: "tm_maint tm = None" "tm_channel tm = None"
    "parts_hold holds stores hm cm d tm" "placed (tm_phys_hot tm) hm cm d m"
    unfolding plain_stores_def by blast
  have "safe_run (access_plain_seq te k nv res tm r)
      (\<lambda>(res, tm', r'). ar_value res = read_of m k \<and> plain_stores holds stores tm' (put_value k nv m))" for res
    by (rule safe_run_mono [OF plain_seq [OF tm(3,4) assms(2)]])
      (use tm(1,2) only_parts_fields in \<open>fastforce simp: plain_stores_def\<close>)
  then show ?thesis
    using tm(1,2) by (simp add: tm_access_def access_plain_def can_interleave_def Let_def)
qed

lemma plain_run:
  "plain_stores holds stores tm m \<Longrightarrow> \<forall>k w. (k, Some w) \<in> set qs \<longrightarrow> fits_cipher w \<Longrightarrow> safe_run (tm_run te qs tm r)
    (\<lambda>(vs, tm', r'). vs = fst (tm_map_run qs m) \<and> plain_stores holds stores tm' (snd (tm_map_run qs m)))"
proof (induction qs arbitrary: tm m r)
  case Nil
  then show ?case by simp
next
  case (Cons q qs)
  obtain k nv where q: "q = (k, nv)" by fastforce
  have fit: "\<forall>w. nv = Some w \<longrightarrow> fits_cipher w" and rest: "\<forall>k w. (k, Some w) \<in> set qs \<longrightarrow> fits_cipher w"
    using Cons.prems(2) q by auto
  show ?case
    unfolding q tm_run.simps
  proof (rule safe_run_bind [OF plain_access [OF Cons.prems(1) fit, of k]], clarify)
    fix res :: tm_access_result and tm1 :: "('o, 's, 'w) tiered_omap" and r1
    assume "plain_stores holds stores tm1 (put_value k nv m)"
    then show "safe_run (bind_result (tm_run te qs tm1 r1) (\<lambda>(vs, tm2, r2). Inr (ar_value res # vs, tm2, r2)))
      (\<lambda>(vs, tm', r'). vs = fst (tm_map_run ((k, nv) # qs) m) \<and> plain_stores holds stores tm' (snd (tm_map_run ((k, nv) # qs) m)))"
      if "ar_value res = read_of m k"
      using rest that by (intro safe_run_bind [OF Cons.IH]) auto
  qed
qed

end

end
