(* ===== verification/Tiered_Books.thy ===== *)
theory Tiered_Books
  imports Tiered_Access
begin

text \<open>
  The bookkeeping of the tiered map: which keys are hot, which of them the hot map holds, which are in the
  cache, which one is pending. The accesses to the maps and to the data ORAM, the interleaved one included,
  leave it alone; the maintenance steps keep \<open>tier_inv\<close>.
\<close>

section \<open>The bookkeeping\<close>

text \<open>The state without the maps, the data ORAM, the channel and the frequencies in the cache.\<close>

definition mm_books :: "maintenance_manager \<Rightarrow> maintenance_manager" where
  "mm_books mm = mm\<lparr>mm_cache := map (\<lambda>e. e\<lparr>ce_fp := 0\<rparr>) (mm_cache mm)\<rparr>"

definition blank_oram :: "'s path_oram" where
  "blank_oram =
     \<lparr>po_num_data = 0, po_bucket_size = 0, po_stash_max_size = 0, po_storage = None, po_stash = [],
      po_pos_map = Map.empty, po_block_size_bytes = 0, po_last_bw = zero_bandwidth, po_total_bw = zero_bandwidth,
      po_aes_key = [], po_cached_level = 0, po_cached_leaf_range = 0\<rparr>"

definition books :: "('o, 's, 'w) tiered_omap \<Rightarrow> ('o, 's, 'w) tiered_omap" where
  "books tm =
     tm\<lparr>tm_channel := None, tm_hot := None, tm_cold := None, tm_data := blank_oram,
        tm_maint := map_option mm_books (tm_maint tm)\<rparr>"

lemma books_updates [simp]:
  "books (tm\<lparr>tm_hot := h\<rparr>) = books tm" "books (tm\<lparr>tm_cold := c\<rparr>) = books tm"
  "books (tm\<lparr>tm_data := p\<rparr>) = books tm" "books (tm\<lparr>tm_channel := ch\<rparr>) = books tm"
  by (simp_all add: books_def)

lemma books_fields:
  assumes "books tm' = books tm"
  shows "tm_config tm' = tm_config tm" "tm_hot_keys tm' = tm_hot_keys tm" "tm_phys_hot tm' = tm_phys_hot tm"
    "tm_hot_list tm' = tm_hot_list tm" "tm_cache_keys tm' = tm_cache_keys tm" "tm_cache_refs tm' = tm_cache_refs tm"
    "tm_pending_key tm' = tm_pending_key tm" "tm_pending_ref tm' = tm_pending_ref tm"
    "tm_pending_demotions tm' = tm_pending_demotions tm"
    "map_option mm_books (tm_maint tm') = map_option mm_books (tm_maint tm)"
proof -
  note f = arg_cong [OF assms]
  show "tm_config tm' = tm_config tm" using f [of tm_config] by (simp add: books_def)
  show "tm_hot_keys tm' = tm_hot_keys tm" using f [of tm_hot_keys] by (simp add: books_def)
  show "tm_phys_hot tm' = tm_phys_hot tm" using f [of tm_phys_hot] by (simp add: books_def)
  show "tm_hot_list tm' = tm_hot_list tm" using f [of tm_hot_list] by (simp add: books_def)
  show "tm_cache_keys tm' = tm_cache_keys tm" using f [of tm_cache_keys] by (simp add: books_def)
  show "tm_cache_refs tm' = tm_cache_refs tm" using f [of tm_cache_refs] by (simp add: books_def)
  show "tm_pending_key tm' = tm_pending_key tm" using f [of tm_pending_key] by (simp add: books_def)
  show "tm_pending_ref tm' = tm_pending_ref tm" using f [of tm_pending_ref] by (simp add: books_def)
  show "tm_pending_demotions tm' = tm_pending_demotions tm" using f [of tm_pending_demotions] by (simp add: books_def)
  show "map_option mm_books (tm_maint tm') = map_option mm_books (tm_maint tm)"
    using f [of tm_maint] by (simp add: books_def)
qed

lemma update_first_fp_books: "map (\<lambda>e. e\<lparr>ce_fp := 0\<rparr>) (update_first_fp k f es) = map (\<lambda>e. e\<lparr>ce_fp := 0\<rparr>) es"
  by (induction es) auto

lemma update_cache_fp_books: "tm_maint tm = Some mm \<Longrightarrow> books (put_maint (update_cache_fp k f mm) tm) = books tm"
  by (simp add: books_def put_maint_def mm_books_def update_cache_fp_def update_first_fp_books)

section \<open>Operations that leave it alone\<close>

named_theorems keeps_books \<open>operations that leave the bookkeeping alone\<close>

lemma put_tier_books [simp]: "books (put_tier tr s tm) = books tm"
  by (cases tr) simp_all

lemma ask_tier_books [keeps_books]: "ask_tier f tr tm r = Inr (x, tm', r') \<Longrightarrow> books tm' = books tm"
  by (auto simp: ask_tier_def bind_result_Inr_iff split: option.splits)

lemma run_tier_books [keeps_books]: "run_tier f tr tm r = Inr (tm', r') \<Longrightarrow> books tm' = books tm"
  by (auto simp: run_tier_def bind_result_Inr_iff split: option.splits)

lemma data_access_books [keeps_books]: "data_access te b nv tm r = Inr (v, tm', r') \<Longrightarrow> books tm' = books tm"
  by (auto simp: data_access_def bind_result_Inr_iff split: if_splits)

lemma data_dummy_books [keeps_books]: "data_dummy te tm r = Inr (tm', r') \<Longrightarrow> books tm' = books tm"
  by (auto simp: data_dummy_def bind_result_Inr_iff)

lemma channel_read_books [keeps_books]: "channel_read te reads tm = Inr (ps, tm') \<Longrightarrow> books tm' = books tm"
  by (auto simp: channel_read_def bind_result_Inr_iff split: option.splits)

lemma channel_write_books [keeps_books]: "channel_write te writes tm = Inr tm' \<Longrightarrow> books tm' = books tm"
  by (auto simp: channel_write_def bind_result_Inr_iff split: option.splits)

lemma next_reads_books [keeps_books]: "next_reads te a tr tm r = Inr (x, tm', r') \<Longrightarrow> books tm' = books tm"
  by (auto simp: next_reads_def dest: keeps_books split: if_splits)

lemma apply_reads_books [keeps_books]: "apply_reads te a ps tr tm r = Inr (tm', r') \<Longrightarrow> books tm' = books tm"
  by (auto simp: apply_reads_def dest: keeps_books split: if_splits)

lemma process_tier_books [keeps_books]: "process_tier te a tr tm r = Inr (tm', r') \<Longrightarrow> books tm' = books tm"
  by (auto simp: process_tier_def dest: keeps_books split: if_splits)

lemma tier_writes_books [keeps_books]: "tier_writes te a tr tm r = Inr (x, tm', r') \<Longrightarrow> books tm' = books tm"
  by (auto simp: tier_writes_def dest: keeps_books split: if_splits)

lemma when_tier_books [keeps_books]: "when_tier c f tr tm r = Inr (tm', r') \<Longrightarrow> books tm' = books tm"
  by (auto simp: when_tier_def dest: keeps_books split: if_splits)

lemma finish_pb_books [keeps_books]: "finish_pb te c tr tm r = Inr (x, tm', r') \<Longrightarrow> books tm' = books tm"
  by (auto simp: finish_pb_def dest: keeps_books split: if_splits)

lemma evict_data_books [keeps_books]: "evict_data te c lf tm r = Inr (ws, tm', r') \<Longrightarrow> books tm' = books tm"
  by (auto simp: evict_data_def bind_result_Inr_iff split: if_splits)

lemma locate_block_books [keeps_books]: "locate_block te b nlf tm r = Inr (lf, nlf', tm', r') \<Longrightarrow> books tm' = books tm"
  by (auto simp: locate_block_def bind_result_Inr_iff split: if_splits)

lemma apply_data_paths_books [keeps_books]: "apply_data_paths te n ps tm = Inr tm' \<Longrightarrow> books tm' = books tm"
  by (induction te n ps tm rule: apply_data_paths.induct) (auto simp: bind_result_Inr_iff)

lemma il_begin_books [keeps_books]: "il_begin te opt tm r = Inr (tm', r') \<Longrightarrow> books tm' = books tm"
  by (auto simp: il_begin_def Let_def bind_result_Inr_iff dest!: keeps_books)

section \<open>The interleaved access\<close>

text \<open>Without decisions in the maps no removal is ever committed for the key of the access.\<close>

definition no_decisions :: "('o, 's, 'w) tiered_env \<Rightarrow> bool" where
  "no_decisions te \<longleftrightarrow> (\<forall>m. \<not> oi_needs_decision (te_omap te) m)"

definition undecided :: "('o, 's, 'w) il_state \<Rightarrow> bool" where
  "undecided s \<longleftrightarrow> \<not> il_pending s \<and> \<not> ar_decision_handled (il_res s)"

definition il_keeps :: "('o, 's, 'w) il_state \<Rightarrow> ('o, 's, 'w) il_state \<Rightarrow> bool" where
  "il_keeps s s' \<longleftrightarrow> books (il_tm s') = books (il_tm s) \<and> (undecided s \<longrightarrow> undecided s')"

lemma il_keeps_refl [simp]: "il_keeps s s"
  by (simp add: il_keeps_def)

lemma il_keeps_trans: "il_keeps s s' \<Longrightarrow> il_keeps s' s'' \<Longrightarrow> il_keeps s s''"
  by (simp add: il_keeps_def)

lemma il_exchange_keeps: "il_exchange te srch sa da s r = Inr (s', r') \<Longrightarrow> il_keeps s s'"
  by (auto simp: il_exchange_def Let_def bind_result_Inr_iff il_keeps_def undecided_def dest!: keeps_books)

lemma il_touch_block_keeps: "il_touch_block te opt s = Inr s' \<Longrightarrow> il_keeps s s'"
  by (cases "tm_maint (il_tm s)"; cases "io_epoch opt"; cases "io_key opt \<in> tm_cache_keys (il_tm s)")
    (auto simp: il_touch_block_def Let_def split_def bind_result_Inr_iff il_keeps_def undecided_def update_cache_fp_books)

lemma il_commit_keeps: "il_commit te opt s r = Inr (s', r') \<Longrightarrow> il_keeps s s'"
  by (auto simp: il_commit_def Let_def bind_result_Inr_iff il_keeps_def undecided_def dest!: keeps_books split: if_splits)

lemma il_main_data_keeps: "il_main_data te opt s r = Inr (s', r') \<Longrightarrow> il_keeps s s'"
  by (auto simp: il_main_data_def bind_result_Inr_iff dest!: il_touch_block_keeps il_commit_keeps split: if_splits)
    (auto simp: il_keeps_def undecided_def)

lemma il_scan_data_keeps: "il_scan_data te opt s r = Inr (s', r') \<Longrightarrow> il_keeps s s'"
  by (auto simp: il_scan_data_def Let_def bind_result_Inr_iff il_keeps_def undecided_def dest!: keeps_books
      split: if_splits option.splits bool.splits)

lemma il_locate_keeps: "il_locate te ref s r = Inr (s', r') \<Longrightarrow> il_keeps s s'"
  by (auto simp: il_locate_def bind_result_Inr_iff il_keeps_def undecided_def dest!: keeps_books)

lemma il_decision_keeps:
  assumes "no_decisions te" "il_decision te opt s r = Inr (s', r')"
  shows "il_keeps s s'"
  using assms by (auto simp: il_decision_def no_decisions_def see_tier_def bind_result_Inr_iff split: option.splits)

lemma il_scan_decision_keeps: "il_scan_decision te opt s r = Inr (s', r') \<Longrightarrow> il_keeps s s'"
  by (auto simp: il_scan_decision_def bind_result_Inr_iff il_keeps_def undecided_def dest!: keeps_books split: if_splits)

lemma il_search_end_keeps: "il_search_end te opt s r = Inr (s', r') \<Longrightarrow> il_keeps s s'"
  by (auto simp: il_search_end_def Let_def bind_result_Inr_iff dest!: keeps_books il_locate_keeps split: if_splits)
    (auto simp: il_keeps_def undecided_def)

lemma il_writes_keeps: "il_writes te opt sa da s r = Inr (s', r') \<Longrightarrow> il_keeps s s'"
  by (auto simp: il_writes_def Let_def bind_result_Inr_iff il_keeps_def undecided_def dest!: keeps_books)

lemma il_round_keeps:
  assumes "no_decisions te" "il_round te opt sa da s r = Inr (s', r')"
  shows "il_keeps s s'"
proof -
  from assms(2) obtain s1 r1 s2 r2 s4 r3 s5 r4 s6 r5 s7 r6 where
    a: "il_exchange te (io_searcher opt) sa da (s\<lparr>il_rounds := il_rounds s + 1\<rparr>) r = Inr (s1, r1)"
    and b: "(if il_data_st s = NeedRead then il_main_data te opt s1 r1 else Inr (s1, r1)) = Inr (s2, r2)"
    and c: "(if il_scan_st s = NeedRead
      then il_scan_data te opt (if il_ddummy_st (s\<lparr>il_rounds := il_rounds s + 1\<rparr>) = NeedRead then s2\<lparr>il_ddummy_st := NeedWrite\<rparr> else s2) r2
      else Inr (if il_ddummy_st (s\<lparr>il_rounds := il_rounds s + 1\<rparr>) = NeedRead then s2\<lparr>il_ddummy_st := NeedWrite\<rparr> else s2, r2)) = Inr (s4, r3)"
    and d: "il_decision te opt s4 r3 = Inr (s5, r4)" "il_scan_decision te opt s5 r4 = Inr (s6, r5)"
    "il_search_end te opt s6 r5 = Inr (s7, r6)" "il_writes te opt sa da s7 r6 = Inr (s', r')"
    by (auto simp: il_round_def Let_def bind_result_Inr_iff)
  let ?s3 = "if il_ddummy_st (s\<lparr>il_rounds := il_rounds s + 1\<rparr>) = NeedRead then s2\<lparr>il_ddummy_st := NeedWrite\<rparr> else s2"
  have "il_keeps s (s\<lparr>il_rounds := il_rounds s + 1\<rparr>)" "il_keeps s2 ?s3" by (simp_all add: il_keeps_def undecided_def)
  moreover have "il_keeps s1 s2" using b il_main_data_keeps by (auto split: if_split_asm)
  moreover have "il_keeps ?s3 s4" using c il_scan_data_keeps by (cases "il_scan_st s = NeedRead") auto
  moreover note il_exchange_keeps [OF a] il_decision_keeps [OF assms(1) d(1)] il_scan_decision_keeps [OF d(2)]
    il_search_end_keeps [OF d(3)] il_writes_keeps [OF d(4)]
  ultimately show ?thesis unfolding il_keeps_def by simp
qed

lemma il_loop_keeps:
  assumes "il_loop te opt s r = Some y"
  shows "no_decisions te \<longrightarrow> (\<forall>s' r'. y = Inr (s', r') \<longrightarrow> il_keeps s s')"
proof (rule il_loop.raw_induct [where P = "\<lambda>te opt s r y. no_decisions te \<longrightarrow> (\<forall>s' r'. y = Inr (s', r') \<longrightarrow> il_keeps s s')", OF _ assms],
    intro impI allI)
  fix loop te opt s r y s' r'
  assume IH: "\<And>te opt s r y. loop te opt s r = Some y \<Longrightarrow> no_decisions te \<longrightarrow> (\<forall>s' r'. y = Inr (s', r') \<longrightarrow> il_keeps s s')"
    and body: "(case (see_tier (oi_done (te_omap te)) (io_searcher opt) (il_tm s),
            see_tier (oi_done (te_omap te)) (other_tier (io_searcher opt)) (il_tm s)) of
        (Inr sd, Inr dd) \<Rightarrow>
          if sd \<and> dd \<and> il_data_st s = DDone \<and> il_ddummy_st s = DDone \<and> il_scan_st s = DDone then Some (Inr (s, r))
          else (case il_round te opt (\<not> sd) (\<not> dd) s r of
                  Inl e \<Rightarrow> Some (Inl e) | Inr (s', r') \<Rightarrow> loop te opt s' r')
      | _ \<Rightarrow> Some (Inl NullPointer)) = Some y"
    and te: "no_decisions te" and y: "y = Inr (s', r')"
  obtain sd dd where d: "see_tier (oi_done (te_omap te)) (io_searcher opt) (il_tm s) = Inr sd"
    "see_tier (oi_done (te_omap te)) (other_tier (io_searcher opt)) (il_tm s) = Inr dd"
    using body y by (auto split: sum.splits)
  show "il_keeps s s'"
  proof (cases "sd \<and> dd \<and> il_data_st s = DDone \<and> il_ddummy_st s = DDone \<and> il_scan_st s = DDone")
    case True
    then show ?thesis using body y d by auto
  next
    case False
    then have "(case il_round te opt (\<not> sd) (\<not> dd) s r of Inl e \<Rightarrow> Some (Inl e) | Inr (s1, r1) \<Rightarrow> loop te opt s1 r1) = Some y"
      using body d by (simp add: if_not_P split: if_splits)
    then obtain s1 r1 where round: "il_round te opt (\<not> sd) (\<not> dd) s r = Inr (s1, r1)" and rest: "loop te opt s1 r1 = Some y"
      using y by (auto split: sum.splits)
    have "il_keeps s1 s'" using IH [OF rest] te y by simp
    then show ?thesis by (rule il_keeps_trans [OF il_round_keeps [OF te round]])
  qed
qed

lemma il_end_books: "il_end te opt s r = Inr (res, tm', r') \<Longrightarrow> books tm' = books (il_tm s)
    \<and> ar_decision_handled res = ar_decision_handled (il_res s)
    \<and> ar_hot_insert_done res = (io_hot_insert opt \<noteq> INVALID_KEY) \<and> ar_cold_insert_done res = (io_cold_insert opt \<noteq> INVALID_KEY)"
  by (auto simp: il_end_def Let_def bind_result_Inr_iff dest!: keeps_books split: if_splits)

lemma interleaved_access_books:
  assumes "no_decisions te" "interleaved_access te opt tm r = Inr (res, tm', r')"
  shows "books tm' = books tm \<and> \<not> ar_decision_handled res
    \<and> ar_hot_insert_done res = (io_hot_insert opt \<noteq> INVALID_KEY) \<and> ar_cold_insert_done res = (io_cold_insert opt \<noteq> INVALID_KEY)"
proof -
  let ?opt = "opt\<lparr>io_searcher := (if io_key opt \<in> tm_phys_hot tm then Hot else Cold)\<rparr>"
  from assms(2) obtain tm1 r1 res0 s r2 where
    b: "il_begin te ?opt tm r = Inr (tm1, r1)" and l: "ends (il_loop te ?opt (new_il_state ?opt res0 tm1) r1) = Inr (s, r2)"
    and e: "il_end te ?opt s r2 = Inr (res, tm', r')" and res0: "\<not> ar_decision_handled res0"
    by (auto simp: interleaved_access_def Let_def bind_result_Inr_iff new_result_def)
  have "il_loop te ?opt (new_il_state ?opt res0 tm1) r1 = Some (Inr (s, r2))"
    using l by (auto simp: ends_def split: option.splits)
  from il_loop_keeps [OF this] assms(1) have "books (il_tm s) = books tm1 \<and> undecided s"
    using res0 by (auto simp: il_keeps_def new_il_state_def undecided_def)
  then show ?thesis using il_end_books [OF e] il_begin_books [OF b] by (auto simp: undecided_def)
qed

section \<open>The access with maintenance\<close>

lemma with_maint_Inr_iff: "with_maint tm f = Inr y \<longleftrightarrow> (\<exists>mm. tm_maint tm = Some mm \<and> f mm = Inr y)"
  by (auto simp: with_maint_def split: option.splits)

lemma epoch_touch_books [keeps_books]: "epoch_touch te b nv tm r = Inr (out, m, tm', r') \<Longrightarrow> books tm' = books tm"
  by (auto simp: epoch_touch_def Let_def bind_result_Inr_iff with_maint_Inr_iff split_def dest!: keeps_books)

lemma both_dummies_books [keeps_books]: "both_dummies te tm r = Inr (tm', r') \<Longrightarrow> books tm' = books tm"
  by (auto simp: both_dummies_def bind_result_Inr_iff dest!: keeps_books)

lemma idle_scan_books [keeps_books]: "idle_scan te tm r = Inr (tm', r') \<Longrightarrow> books tm' = books tm"
  by (auto simp: idle_scan_def bind_result_Inr_iff dest!: keeps_books)

lemma serve_pending_books [keeps_books]: "serve_pending te nv res tm r = Inr (res', tm', r') \<Longrightarrow> books tm' = books tm"
  by (auto simp: serve_pending_def bind_result_Inr_iff dest!: keeps_books)

lemma serve_cached_books [keeps_books]: "serve_cached te k nv res tm r = Inr (res', tm', r') \<Longrightarrow> books tm' = books tm"
  by (auto simp: serve_cached_def bind_result_Inr_iff with_maint_Inr_iff update_cache_fp_books dest!: keeps_books)

end
