(* ===== verification/Tiered_Invariant.thy ===== *)
theory Tiered_Invariant
  imports Tiered_Books
begin

text \<open>
  Where the keys are. \<open>tier_inv\<close> says that the sorted list of the hot keys, the cache with its references and
  the pending entry agree with each other and with the state of the swap: a hot key is in exactly one of the
  three places. The initial load establishes it and every access keeps it.
\<close>

section \<open>The invariant\<close>

definition hot_list_ok :: "('o, 's, 'w) tiered_omap \<Rightarrow> bool" where
  "hot_list_ok tm \<longleftrightarrow> sorted_wrt (\<lambda>a b. sint a < sint b) (tm_hot_list tm) \<and> set (tm_hot_list tm) = tm_phys_hot tm"

definition cache_ok :: "maintenance_manager \<Rightarrow> ('o, 's, 'w) tiered_omap \<Rightarrow> bool" where
  "cache_ok mm tm \<longleftrightarrow>
     distinct (map ce_key (mm_cache mm)) \<and> set (map ce_key (mm_cache mm)) = tm_cache_keys tm
     \<and> dom (tm_cache_refs tm) = tm_cache_keys tm \<and> tm_phys_hot tm \<inter> tm_cache_keys tm = {}"

text \<open>Between its eviction from the cache and its insertion a key is pending, and only one key is.\<close>

definition pending_ok :: "maintenance_manager \<Rightarrow> ('o, 's, 'w) tiered_omap \<Rightarrow> bool" where
  "pending_ok mm tm \<longleftrightarrow>
     (let held = tm_phys_hot tm \<union> tm_cache_keys tm
      in INVALID_KEY \<notin> held
         \<and> (case mm_swap_state mm of
              Idle \<Rightarrow> tm_pending_key tm = INVALID_KEY \<and> tm_hot_keys tm = held
            | HotPend \<Rightarrow> tm_pending_key tm \<notin> insert INVALID_KEY held \<and> tm_hot_keys tm = insert (tm_pending_key tm) held
            | ColdPend \<Rightarrow> tm_pending_key tm \<notin> insert INVALID_KEY held \<and> tm_hot_keys tm = held))"

definition tier_inv :: "('o, 's, 'w) tiered_omap \<Rightarrow> bool" where
  "tier_inv tm \<longleftrightarrow>
     (case tm_maint tm of None \<Rightarrow> False | Some mm \<Rightarrow> hot_list_ok tm \<and> cache_ok mm tm \<and> pending_ok mm tm)"

lemma tier_invI:
  "tm_maint tm = Some mm \<Longrightarrow> hot_list_ok tm \<Longrightarrow> cache_ok mm tm \<Longrightarrow> pending_ok mm tm \<Longrightarrow> tier_inv tm"
  by (simp add: tier_inv_def)

lemma tier_invE:
  assumes "tier_inv tm"
  obtains mm where "tm_maint tm = Some mm" "hot_list_ok tm" "cache_ok mm tm" "pending_ok mm tm"
  using assms by (auto simp: tier_inv_def split: option.splits)

lemma tier_inv_maint:
  assumes "tier_inv tm" "tm_maint tm = Some mm" "map ce_key (mm_cache mm') = map ce_key (mm_cache mm)"
    "mm_swap_state mm' = mm_swap_state mm"
  shows "tier_inv (put_maint mm' tm)"
  using assms
  by (cases "mm_swap_state mm") (simp_all add: tier_inv_def hot_list_ok_def cache_ok_def pending_ok_def put_maint_def Let_def)

lemma tier_inv_queue:
  assumes "tier_inv tm"
  shows "tier_inv (tm\<lparr>tm_pending_demotions := q\<rparr>)"
proof -
  obtain mm where "tm_maint tm = Some mm" "hot_list_ok tm" "cache_ok mm tm" "pending_ok mm tm" by (rule tier_invE [OF assms])
  then show ?thesis
    by (cases "mm_swap_state mm") (simp_all add: tier_inv_def hot_list_ok_def cache_ok_def pending_ok_def Let_def)
qed

text \<open>It speaks of the bookkeeping only.\<close>

lemma mm_books_eq:
  assumes "mm_books mm' = mm_books mm"
  shows "map ce_key (mm_cache mm') = map ce_key (mm_cache mm)" "mm_swap_state mm' = mm_swap_state mm"
proof -
  have "map (ce_key \<circ> (\<lambda>e. e\<lparr>ce_fp := 0\<rparr>)) (mm_cache mm') = map (ce_key \<circ> (\<lambda>e. e\<lparr>ce_fp := 0\<rparr>)) (mm_cache mm)"
    using arg_cong [OF assms, of "\<lambda>x. map ce_key (mm_cache x)"] by (simp add: mm_books_def)
  then show "map ce_key (mm_cache mm') = map ce_key (mm_cache mm)" by (simp add: comp_def)
  show "mm_swap_state mm' = mm_swap_state mm" using arg_cong [OF assms, of mm_swap_state] by (simp add: mm_books_def)
qed

lemma tier_inv_books:
  assumes b: "books tm' = books tm" and i: "tier_inv tm"
  shows "tier_inv tm'"
proof -
  note f = books_fields [OF b]
  obtain mm where mm: "tm_maint tm = Some mm" "hot_list_ok tm" "cache_ok mm tm" "pending_ok mm tm" by (rule tier_invE [OF i])
  then obtain mm' where mm': "tm_maint tm' = Some mm'" "mm_books mm' = mm_books mm" using f(10) by auto
  note e = mm_books_eq [OF mm'(2)]
  show ?thesis
    using mm mm'(1)
    by (cases "mm_swap_state mm") (simp_all add: tier_inv_def hot_list_ok_def cache_ok_def pending_ok_def Let_def f e)
qed

lemma books_maint:
  assumes "books tm' = books tm" "tm_maint tm = Some mm"
  shows "\<exists>mm'. tm_maint tm' = Some mm' \<and> mm_swap_state mm' = mm_swap_state mm"
proof -
  obtain mm' where "tm_maint tm' = Some mm'" "mm_books mm' = mm_books mm" using books_fields(10) [OF assms(1)] assms(2) by auto
  then show ?thesis using mm_books_eq(2) [of mm' mm] by simp
qed

section \<open>The sorted list\<close>

abbreviation "ascending \<equiv> sorted_wrt (\<lambda>a b :: i32. sint a < sint b)"

lemma sint_inj: "sint a = sint b \<Longrightarrow> a = b" for a b :: i32
  by (rule signed_word_eqI)

lemma ascending_split:
  assumes "ascending ks"
  obtains a b where "takeWhile (\<lambda>x. sint x < sint k) ks = a" "dropWhile (\<lambda>x. sint x < sint k) ks = b" "ks = a @ b"
    "ascending a" "ascending b" "\<forall>x\<in>set a. \<forall>y\<in>set b. sint x < sint y"
    "\<forall>x\<in>set a. sint x < sint k" "\<forall>x\<in>set b. sint k \<le> sint x"
proof -
  have low: "\<forall>x\<in>set (takeWhile (\<lambda>x. sint x < sint k) ks). sint x < sint k" by (auto dest: set_takeWhileD)
  have high: "\<forall>x\<in>set (dropWhile (\<lambda>x. sint x < sint k) ks). sint k \<le> sint x"
    using assms by (induction ks) auto
  obtain a b where ab: "takeWhile (\<lambda>x. sint x < sint k) ks = a" "dropWhile (\<lambda>x. sint x < sint k) ks = b" by simp
  then have ks: "ks = a @ b" by (metis takeWhile_dropWhile_id)
  show ?thesis
    using that [OF ab ks] low high assms unfolding ab by (simp add: ks sorted_wrt_append)
qed

lemma ascending_insert:
  assumes "ascending ks" "k \<notin> set ks"
  shows "ascending (list_insert k ks)" "set (list_insert k ks) = insert k (set ks)"
proof -
  obtain a b where s: "takeWhile (\<lambda>x. sint x < sint k) ks = a" "dropWhile (\<lambda>x. sint x < sint k) ks = b" "ks = a @ b"
    "ascending a" "ascending b" "\<forall>x\<in>set a. \<forall>y\<in>set b. sint x < sint y"
    "\<forall>x\<in>set a. sint x < sint k" "\<forall>x\<in>set b. sint k \<le> sint x"
    using ascending_split [OF assms(1)] by metis
  have l: "list_insert k ks = a @ k # b" by (simp add: list_insert_def s(1,2))
  have "sint k < sint x" if "x \<in> set b" for x
    using s(3,8) assms(2) that sint_inj [of k x] by (cases "sint k = sint x") auto
  then show "ascending (list_insert k ks)" using s(4-7) by (simp add: l sorted_wrt_append)
  have "set (list_insert k ks) = insert k (set a \<union> set b)" unfolding l by simp
  then show "set (list_insert k ks) = insert k (set ks)" unfolding s(3) by simp
qed

lemma ascending_erase:
  assumes "ascending ks"
  shows "ascending (list_erase k ks) \<and> set (list_erase k ks) = set ks - {k}"
proof -
  obtain a b where s: "takeWhile (\<lambda>x. sint x < sint k) ks = a" "dropWhile (\<lambda>x. sint x < sint k) ks = b" "ks = a @ b"
    "ascending a" "ascending b" "\<forall>x\<in>set a. \<forall>y\<in>set b. sint x < sint y"
    "\<forall>x\<in>set a. sint x < sint k" "\<forall>x\<in>set b. sint k \<le> sint x"
    using ascending_split [OF assms] by metis
  have a: "k \<notin> set a" using s(7) by auto
  show ?thesis
  proof (cases b)
    case Nil
    then have "list_erase k ks = ks" by (simp add: list_erase_def s(2))
    then show ?thesis using assms a s(3) Nil by simp
  next
    case (Cons y ys)
    have ys: "\<forall>x\<in>set ys. sint y < sint x" using s(5) by (simp add: Cons)
    show ?thesis
    proof (cases "y = k")
      case True
      then have "k \<notin> set ys" using ys by auto
      moreover have "list_erase k ks = a @ ys" by (simp add: list_erase_def s(1,2) Cons True)
      ultimately show ?thesis using a s(3-6) by (simp add: Cons True sorted_wrt_append)
    next
      case False
      have "k \<notin> set ys" using ys s(8) False sint_inj [of k y] by (force simp: Cons)
      moreover have "list_erase k ks = ks" using False by (simp add: list_erase_def s(1,2) Cons)
      ultimately show ?thesis using assms a s(3) False by (simp add: Cons)
    qed
  qed
qed

lemma sorted_wrt_distinct_sint: "ascending ks \<Longrightarrow> distinct ks"
  by (induction ks) auto

lemma ascending_sort:
  assumes "distinct ks"
  shows "ascending (sort_keys ks)" "set (sort_keys ks) = set ks"
proof -
  show "set (sort_keys ks) = set ks" by (simp add: sort_keys_def)
  have "distinct (map sint (sort_keys ks))"
    using assms by (simp add: sort_keys_def distinct_map inj_on_def sint_inj)
  moreover have "sorted (map sint (sort_keys ks))" by (simp add: sort_keys_def)
  ultimately have "sorted_wrt (<) (map sint (sort_keys ks))" by (simp add: strict_sorted_iff)
  then show "ascending (sort_keys ks)" by (simp add: sorted_wrt_map)
qed

section \<open>Moving keys\<close>

lemma admitted_keys:
  assumes c: "cache_admit k f fh mm = (e, mm1)" and d: "distinct (map ce_key (mm_cache mm))" "k \<notin> ce_key ` set (mm_cache mm)"
  shows "distinct (map ce_key (mm_cache mm1))"
    "set (map ce_key (mm_cache mm1)) = insert k (set (map ce_key (mm_cache mm))) - {ce_key e}"
    "ce_key e \<in> insert k (set (map ce_key (mm_cache mm)))" "mm_swap_state mm1 = mm_swap_state mm"
proof -
  note s = cache_admit_spec [OF c]
  have "mset (ce_key e # map ce_key (mm_cache mm1)) = mset (k # map ce_key (mm_cache mm))"
    using arg_cong [OF s(1), of "image_mset ce_key"] by simp
  then have m: "mset (k # map ce_key (mm_cache mm)) = mset (ce_key e # map ce_key (mm_cache mm1))" by (rule sym)
  have d': "distinct (ce_key e # map ce_key (mm_cache mm1))"
    using d mset_eq_imp_distinct_iff [OF m] by simp
  have st: "set (k # map ce_key (mm_cache mm)) = set (ce_key e # map ce_key (mm_cache mm1))" by (rule mset_eq_setD [OF m])
  show "distinct (map ce_key (mm_cache mm1))" using d' by simp
  show "set (map ce_key (mm_cache mm1)) = insert k (set (map ce_key (mm_cache mm))) - {ce_key e}" using d' st by auto
  show "ce_key e \<in> insert k (set (map ce_key (mm_cache mm)))" using st by auto
  show "mm_swap_state mm1 = mm_swap_state mm" by (subst s(4)) simp
qed

lemma admit_from_hot_inv:
  assumes i: "tier_inv tm" and k: "k \<in> tm_phys_hot tm" and mm: "tm_maint tm = Some mm" "mm_swap_state mm = Idle"
    and a: "admit_from_hot k f ref tm = Inr tm'"
  shows "tier_inv tm' \<and> tm_hot_keys tm' = tm_hot_keys tm"
proof -
  obtain e mm1 where c: "cache_admit k f True mm = (e, mm1)" by fastforce
  have ok: "hot_list_ok tm" "cache_ok mm tm" "pending_ok mm tm" using i mm(1) by (auto elim: tier_invE)
  have keys: "distinct (map ce_key (mm_cache mm))" "k \<notin> ce_key ` set (mm_cache mm)" "set (map ce_key (mm_cache mm)) = tm_cache_keys tm"
    using ok(2) k by (auto simp: cache_ok_def)
  note n = admitted_keys [OF c keys(1,2)]
  have tm': "tm' = put_maint (set_swap_state HotPend mm1)
          (tm\<lparr>tm_pending_key := ce_key e, tm_pending_ref := cache_ref (ce_key e) tm,
              tm_phys_hot := tm_phys_hot tm - {k}, tm_hot_list := list_erase k (tm_hot_list tm),
              tm_cache_keys := insert k (tm_cache_keys tm) - {ce_key e},
              tm_cache_refs := (tm_cache_refs tm)(k := Some ref, ce_key e := None)\<rparr>)"
    using a by (simp add: admit_from_hot_def with_maint_def mm(1) c Let_def)
  have "hot_list_ok tm'"
    using ok(1) ascending_erase [of "tm_hot_list tm" k] by (simp add: hot_list_ok_def tm' put_maint_def)
  moreover have "cache_ok (set_swap_state HotPend mm1) tm'"
    using ok(2) n keys k by (auto simp: cache_ok_def tm' put_maint_def set_swap_state_def)
  moreover have "pending_ok (set_swap_state HotPend mm1) tm'"
    using ok(2,3) n keys k mm(2) by (auto simp: cache_ok_def pending_ok_def Let_def tm' put_maint_def set_swap_state_def)
  ultimately show ?thesis by (simp add: tier_inv_def tm' put_maint_def)
qed

lemma admit_from_cold_inv:
  assumes i: "tier_inv tm" and k: "k \<notin> tm_hot_keys tm" "k \<noteq> INVALID_KEY" and mm: "tm_maint tm = Some mm" "mm_swap_state mm = Idle"
    and p: "should_promote f mm" and a: "admit_from_cold k f ref tm = Inr tm'"
  shows "tier_inv tm'"
proof -
  obtain e mm1 where c: "cache_admit k f False mm = (e, mm1)" by fastforce
  have ok: "hot_list_ok tm" "cache_ok mm tm" "pending_ok mm tm" using i mm(1) by (auto elim: tier_invE)
  have hk: "tm_hot_keys tm = tm_phys_hot tm \<union> tm_cache_keys tm" "INVALID_KEY \<notin> tm_hot_keys tm"
    using ok(3) mm(2) by (simp_all add: pending_ok_def)
  have keys: "distinct (map ce_key (mm_cache mm))" "k \<notin> ce_key ` set (mm_cache mm)" "set (map ce_key (mm_cache mm)) = tm_cache_keys tm"
    using ok(2) k(1) hk by (auto simp: cache_ok_def)
  note n = admitted_keys [OF c keys(1,2)]
  have ek: "ce_key e \<noteq> k"
  proof
    assume "ce_key e = k"
    have e: "e \<in># mset (mm_cache mm) + {#\<lparr>ce_key = k, ce_fp = f\<rparr>#}"
      unfolding cache_admit_spec(1) [OF c, symmetric] by simp
    then have "e = \<lparr>ce_key = k, ce_fp = f\<rparr>" using keys(2) \<open>ce_key e = k\<close> by auto
    moreover obtain x where "x \<in> set (mm_cache mm)" "sint (ce_fp x) < sint f" using should_promote_some [OF p] by blast
    ultimately show False using cache_admit_spec(2) [OF c] by (fastforce simp: rank_def)
  qed
  have tm': "tm' = put_maint (set_swap_state ColdPend mm1)
          (tm\<lparr>tm_pending_key := ce_key e, tm_pending_ref := cache_ref (ce_key e) tm,
              tm_cache_keys := insert k (tm_cache_keys tm - {ce_key e}),
              tm_cache_refs := (tm_cache_refs tm)(ce_key e := None, k := Some ref),
              tm_hot_keys := insert k (tm_hot_keys tm - {ce_key e})\<rparr>)"
    using a by (simp add: admit_from_cold_def with_maint_def mm(1) c Let_def)
  have "hot_list_ok tm'" using ok(1) by (simp add: hot_list_ok_def tm' put_maint_def)
  moreover have "cache_ok (set_swap_state ColdPend mm1) tm'"
    using ok(2) n keys k ek hk by (auto simp: cache_ok_def tm' put_maint_def set_swap_state_def)
  moreover have "pending_ok (set_swap_state ColdPend mm1) tm'"
    using ok(2) n keys k ek hk by (auto simp: cache_ok_def pending_ok_def Let_def tm' put_maint_def set_swap_state_def)
  ultimately show ?thesis by (simp add: tier_inv_def tm' put_maint_def)
qed

lemma clear_cold_inv:
  assumes i: "tier_inv tm" and mm: "tm_maint tm = Some mm" "mm_swap_state mm = ColdPend" and c: "clear_pending tm = Inr tm'"
  shows "tier_inv tm' \<and> tm_hot_keys tm' = tm_hot_keys tm"
proof -
  have ok: "hot_list_ok tm" "cache_ok mm tm" "pending_ok mm tm" using i mm(1) by (auto elim: tier_invE)
  have tm': "tm' = put_maint (set_swap_state Idle mm) (tm\<lparr>tm_pending_key := INVALID_KEY, tm_pending_ref := []\<rparr>)"
    using c by (simp add: clear_pending_def with_maint_def mm(1))
  show ?thesis
    using ok mm(2)
    by (auto simp: tier_inv_def hot_list_ok_def cache_ok_def pending_ok_def Let_def tm' put_maint_def set_swap_state_def)
qed

lemma clear_hot_inv:
  assumes i: "tier_inv tm" and mm: "tm_maint tm = Some mm" "mm_swap_state mm = HotPend"
    and c: "clear_pending (hot_arrival (tm_pending_key tm) tm) = Inr tm'"
  shows "tier_inv tm' \<and> tm_hot_keys tm' = tm_hot_keys tm"
proof -
  let ?k = "tm_pending_key tm"
  have ok: "hot_list_ok tm" "cache_ok mm tm" "pending_ok mm tm" using i mm(1) by (auto elim: tier_invE)
  have k: "?k \<notin> tm_phys_hot tm" "?k \<notin> tm_cache_keys tm" "?k \<noteq> INVALID_KEY" "tm_hot_keys tm = insert ?k (tm_phys_hot tm \<union> tm_cache_keys tm)"
    using ok(3) mm(2) by (simp_all add: pending_ok_def Let_def)
  have tm': "tm' = put_maint (set_swap_state Idle mm)
      (tm\<lparr>tm_phys_hot := insert ?k (tm_phys_hot tm), tm_hot_list := list_insert ?k (tm_hot_list tm),
          tm_pending_key := INVALID_KEY, tm_pending_ref := []\<rparr>)"
    using c by (simp add: clear_pending_def hot_arrival_def with_maint_def mm(1))
  have "hot_list_ok tm'"
    using ok(1) k(1) ascending_insert [of "tm_hot_list tm" ?k] by (simp add: hot_list_ok_def tm' put_maint_def)
  moreover have "cache_ok (set_swap_state Idle mm) tm'" "pending_ok (set_swap_state Idle mm) tm'"
    using ok(2,3) k by (auto simp: cache_ok_def pending_ok_def Let_def tm' put_maint_def set_swap_state_def)
  ultimately show ?thesis by (simp add: tier_inv_def tm' put_maint_def)
qed

section \<open>The steps and the access\<close>

lemma next_scan_key_inv:
  assumes "tier_inv tm" "next_scan_key tm = Inr (sk, tm')"
  shows "tier_inv tm' \<and> tm_hot_keys tm' = tm_hot_keys tm \<and> tm_phys_hot tm' = tm_phys_hot tm \<and> tm_pending_key tm' = tm_pending_key tm
    \<and> (sk \<noteq> INVALID_KEY \<longrightarrow> sk \<in> tm_phys_hot tm) \<and> (tm_hot_list tm \<noteq> [] \<longrightarrow> sk \<in> tm_phys_hot tm)
    \<and> (\<forall>mm. tm_maint tm = Some mm \<longrightarrow> (\<exists>mm'. tm_maint tm' = Some mm' \<and> mm_swap_state mm' = mm_swap_state mm))"
proof (cases "tm_hot_list tm = []")
  case True
  then show ?thesis using assms by (auto simp: next_scan_key_def)
next
  case False
  obtain mm where mm: "tm_maint tm = Some mm" "hot_list_ok tm" using assms(1) by (auto elim: tier_invE)
  have sub: "set (list_above (mm_scan_ptr mm) (tm_hot_list tm)) \<subseteq> set (tm_hot_list tm)"
    by (auto simp: list_above_def dest: set_dropWhileD)
  from assms(2) False mm(1) obtain mm1 where
    t: "tm' = put_maint (set_scan_ptr sk mm1) tm" and m: "mm_cache mm1 = mm_cache mm" "mm_swap_state mm1 = mm_swap_state mm"
      and sk: "sk \<in> set (tm_hot_list tm)"
    using sub by (auto simp: next_scan_key_def with_maint_def reset_scan_ptr_def split: list.splits)
  have "tier_inv tm'" unfolding t by (rule tier_inv_maint [OF assms(1) mm(1)]) (simp_all add: set_scan_ptr_def m)
  then show ?thesis using sk mm by (auto simp: t put_maint_def hot_list_ok_def set_scan_ptr_def m)
qed

lemma do_hot_insert_inv:
  assumes i: "tier_inv tm" and s: "do_hot_insert_step te tm r = Inr (tm', r')"
  shows "tier_inv tm'"
proof -
  obtain mm where mm: "tm_maint tm = Some mm" using i by (rule tier_invE)
  show ?thesis
  proof (cases "mm_swap_state mm = HotPend")
    case True
    then obtain tm1 r1 where 1: "run_tier (oi_insert (te_omap te) (tm_pending_key tm) (tm_pending_ref tm)) Hot tm r = Inr (tm1, r1)"
      "clear_pending (hot_arrival (tm_pending_key tm1) tm1) = Inr tm'"
      using s by (auto simp: do_hot_insert_step_def with_maint_def mm bind_result_Inr_iff)
    note b = run_tier_books [OF 1(1)]
    obtain mm1 where mm1: "tm_maint tm1 = Some mm1" "mm_swap_state mm1 = HotPend" using books_maint [OF b mm] True by auto
    show ?thesis using clear_hot_inv [OF tier_inv_books [OF b i] mm1 1(2)] ..
  next
    case False
    then show ?thesis
      using s i by (auto simp: do_hot_insert_step_def with_maint_def mm dest!: run_tier_books intro: tier_inv_books)
  qed
qed

lemma do_cold_insert_inv:
  assumes i: "tier_inv tm" and s: "do_cold_insert_step te tm r = Inr (tm', r')"
  shows "tier_inv tm'"
proof -
  obtain mm where mm: "tm_maint tm = Some mm" using i by (rule tier_invE)
  show ?thesis
  proof (cases "mm_swap_state mm = ColdPend")
    case True
    then obtain tm1 r1 where 1: "run_tier (oi_insert (te_omap te) (tm_pending_key tm) (tm_pending_ref tm)) Cold tm r = Inr (tm1, r1)"
      "clear_pending tm1 = Inr tm'"
      using s by (auto simp: do_cold_insert_step_def with_maint_def mm bind_result_Inr_iff)
    note b = run_tier_books [OF 1(1)]
    obtain mm1 where mm1: "tm_maint tm1 = Some mm1" "mm_swap_state mm1 = ColdPend" using books_maint [OF b mm] True by auto
    show ?thesis using clear_cold_inv [OF tier_inv_books [OF b i] mm1 1(2)] ..
  next
    case False
    then show ?thesis
      using s i by (auto simp: do_cold_insert_step_def with_maint_def mm dest!: run_tier_books intro: tier_inv_books)
  qed
qed

text \<open>A key of the hot map that is searched, removed and admitted to the cache.\<close>

lemma demote_inv:
  assumes i: "tier_inv tm" and mm: "tm_maint tm = Some mm" "mm_swap_state mm = Idle" and k: "k \<in> tm_phys_hot tm"
    and b: "books tm1 = books tm" and a: "admit_from_hot k f ref tm1 = Inr tm'"
  shows "tier_inv tm'"
proof -
  obtain mm1 where mm1: "tm_maint tm1 = Some mm1" "mm_swap_state mm1 = Idle" using books_maint [OF b mm(1)] mm(2) by auto
  have "k \<in> tm_phys_hot tm1" using k books_fields(3) [OF b] by simp
  then show ?thesis using admit_from_hot_inv [OF tier_inv_books [OF b i] _ mm1 a] by blast
qed

lemma da_demotion_inv:
  assumes i: "tier_inv tm" and mm: "tm_maint tm = Some mm" "mm_swap_state mm = Idle"
    and s: "da_demotion_step te tm r = Inr (tm', r')"
  shows "tier_inv tm'"
proof -
  obtain dk f tm1 where n: "(case tm_pending_demotions tm of
            [] \<Rightarrow> (INVALID_KEY, 0, tm) | (k, f) # q \<Rightarrow> (k, f, tm\<lparr>tm_pending_demotions := q\<rparr>)) = (dk, f, tm1)"
    using prod_cases3 by blast
  have i1: "tier_inv tm1" "tm_maint tm1 = Some mm"
    using n i mm tier_inv_queue [OF i] by (auto split: list.splits)
  show ?thesis
  proof (cases "dk \<noteq> INVALID_KEY \<and> dk \<in> tm_phys_hot tm1")
    case True
    then obtain ref tm2 r1 tm3 r2 where 1: "ask_tier (oi_search (te_omap te) dk None) Hot tm1 r = Inr (ref, tm2, r1)"
      "run_tier (oi_remove (te_omap te) dk) Hot tm2 r1 = Inr (tm3, r2)" "admit_from_hot dk f ref tm3 = Inr tm'"
      using s n by (auto simp: da_demotion_step_def bind_result_Inr_iff)
    have "books tm3 = books tm1" using ask_tier_books [OF 1(1)] run_tier_books [OF 1(2)] by simp
    then show ?thesis using demote_inv [OF i1 mm(2) _ _ 1(3)] True by blast
  next
    case False
    then show ?thesis
      using s n i1 by (auto simp: da_demotion_step_def dest!: run_tier_books intro: tier_inv_books)
  qed
qed

lemma do_scan_inv:
  assumes i: "tier_inv tm" and s: "do_scan_step te tm r = Inr (tm', r')"
  shows "tier_inv tm'"
proof -
  obtain mm where mm: "tm_maint tm = Some mm" using i by (rule tier_invE)
  consider "mm_swap_state mm \<noteq> Idle \<or> (\<not> da_scans tm \<and> tm_hot_list tm = [])" | "mm_swap_state mm = Idle" "da_scans tm"
    | "mm_swap_state mm = Idle" "\<not> da_scans tm" "tm_hot_list tm \<noteq> []"
    by blast
  then show ?thesis
  proof cases
    case 1
    then have "idle_scan te tm r = Inr (tm', r')"
      using s by (cases "mm_swap_state mm \<noteq> Idle") (simp_all add: do_scan_step_def with_maint_def mm)
    then show ?thesis using tier_inv_books [OF idle_scan_books i] by blast
  next
    case 2
    then have "da_demotion_step te tm r = Inr (tm', r')" using s by (simp add: do_scan_step_def with_maint_def mm)
    then show ?thesis by (rule da_demotion_inv [OF i mm 2(1)])
  next
    case 3
    from s 3 obtain sk tm1 where n: "next_scan_key tm = Inr (sk, tm1)" and rest: "bind_result (ask_tier (oi_search (te_omap te) sk None) Hot tm1 r) (\<lambda>(ref, tm2, r1).
       bind_result (data_access te (ref_to_blk ref) None tm2 r1) (\<lambda>(raw, tm3, r2).
       with_maint tm3 (\<lambda>mm3.
            if should_demote_cache (fp (snd (decode_epoch raw))) mm3 then
              bind_result (run_tier (oi_remove (te_omap te) sk) Hot tm3 r2) (\<lambda>(tm4, r3).
              bind_result (admit_from_hot sk (fp (snd (decode_epoch raw))) ref tm4) (\<lambda>tm5. Inr (tm5, r3)))
            else Inr (tm3, r2)))) = Inr (tm', r')"
      by (auto simp: do_scan_step_def with_maint_def [of tm] mm Let_def bind_result_Inr_iff)
    note k = next_scan_key_inv [OF i n]
    obtain mm1 where mm1: "tm_maint tm1 = Some mm1" "mm_swap_state mm1 = Idle" using k mm 3(1) by auto
    from rest obtain ref tm2 r1 raw tm3 r2 mm3 where
      a: "ask_tier (oi_search (te_omap te) sk None) Hot tm1 r = Inr (ref, tm2, r1)"
      and d: "data_access te (ref_to_blk ref) None tm2 r1 = Inr (raw, tm3, r2)"
      and e: "(if should_demote_cache (fp (snd (decode_epoch raw))) mm3 then
              bind_result (run_tier (oi_remove (te_omap te) sk) Hot tm3 r2) (\<lambda>(tm4, r3).
              bind_result (admit_from_hot sk (fp (snd (decode_epoch raw))) ref tm4) (\<lambda>tm5. Inr (tm5, r3)))
            else Inr (tm3, r2)) = Inr (tm', r')"
      by (auto simp: bind_result_Inr_iff with_maint_Inr_iff)
    have b3: "books tm3 = books tm1" using ask_tier_books [OF a] data_access_books [OF d] by simp
    show ?thesis
    proof (cases "should_demote_cache (fp (snd (decode_epoch raw))) mm3")
      case True
      then obtain tm4 r3 where 4: "run_tier (oi_remove (te_omap te) sk) Hot tm3 r2 = Inr (tm4, r3)"
        "admit_from_hot sk (fp (snd (decode_epoch raw))) ref tm4 = Inr tm'"
        using e by (auto simp: bind_result_Inr_iff)
      have "books tm4 = books tm1" using run_tier_books [OF 4(1)] b3 by simp
      moreover have "sk \<in> tm_phys_hot tm1" using k 3(3) by simp
      ultimately show ?thesis using demote_inv [OF conjunct1 [OF k] mm1 _ _ 4(2)] by blast
    next
      case False
      then have "tm' = tm3" using e by simp
      then show ?thesis using tier_inv_books [OF b3] k by simp
    qed
  qed
qed

lemma promotes_Inr: "promotes f tm = Inr p \<longleftrightarrow> (\<exists>mm. tm_maint tm = Some mm \<and> p = (mm_swap_state mm = Idle \<and> should_promote f mm))"
  by (auto simp: promotes_def with_maint_Inr_iff)

text \<open>The promotion after the removal from the cold map; the frequencies in the cache have not changed.\<close>

lemma promote_cold_inv:
  assumes i: "tier_inv tm" and k: "k \<notin> tm_hot_keys tm" "k \<noteq> INVALID_KEY" and p: "promotes f tm = Inr True"
    and s: "promote_cold te k f ref tm r = Inr (tm', r')"
  shows "tier_inv tm'"
proof -
  obtain mm where mm: "tm_maint tm = Some mm" "mm_swap_state mm = Idle" "should_promote f mm"
    using p by (auto simp: promotes_Inr)
  from s obtain tm1 where 1: "run_tier (oi_remove (te_omap te) k) Cold tm r = Inr (tm1, r')" "admit_from_cold k f ref tm1 = Inr tm'"
    by (auto simp: promote_cold_def bind_result_Inr_iff)
  have same: "tm_maint tm1 = tm_maint tm" using 1(1) by (auto simp: run_tier_def bind_result_Inr_iff split: option.splits)
  note b = run_tier_books [OF 1(1)]
  have k1: "k \<notin> tm_hot_keys tm1" using k(1) books_fields(2) [OF b] by simp
  show ?thesis
    by (rule admit_from_cold_inv [OF tier_inv_books [OF b i] k1 k(2) _ mm(2,3) 1(2)]) (simp add: same mm(1))
qed

lemma serve_sequential_inv:
  assumes i: "tier_inv tm" and k: "k \<noteq> INVALID_KEY" and s: "serve_sequential te k nv res tm r = Inr (res', tm', r')"
  shows "tier_inv tm'"
proof -
  from s obtain ref tm1 r1 out m tm2 r2 tm3 r3 where
    1: "ask_tier (oi_search (te_omap te) k None) (key_tier k tm) tm r = Inr (ref, tm1, r1)"
      "epoch_touch te (ref_to_blk ref) nv tm1 r1 = Inr (out, m, tm2, r2)"
      "run_tier (side_dummy_step te tm2) (other_tier (key_tier k tm)) tm2 r2 = Inr (tm3, r3)"
    and 2: "(if k \<in> tm_hot_keys tm \<or> ref = [] then Inr (tm3, r3)
            else bind_result (promotes (fp m) tm3) (\<lambda>p.
              if p then promote_cold te k (fp m) ref tm3 r3 else run_tier (oi_dummy (te_omap te)) Cold tm3 r3)) = Inr (tm', r')"
    by (auto simp: serve_sequential_def Let_def bind_result_Inr_iff)
  have b: "books tm3 = books tm" using ask_tier_books [OF 1(1)] epoch_touch_books [OF 1(2)] run_tier_books [OF 1(3)] by simp
  note i3 = tier_inv_books [OF b i]
  show ?thesis
  proof (cases "k \<in> tm_hot_keys tm \<or> ref = []")
    case True
    then show ?thesis using 2 i3 by simp
  next
    case False
    then obtain p where p: "promotes (fp m) tm3 = Inr p"
      "(if p then promote_cold te k (fp m) ref tm3 r3 else run_tier (oi_dummy (te_omap te)) Cold tm3 r3) = Inr (tm', r')"
      using 2 by (auto simp: bind_result_Inr_iff)
    show ?thesis
    proof (cases p)
      case True
      have "k \<notin> tm_hot_keys tm3" using False books_fields(2) [OF b] by simp
      then show ?thesis using promote_cold_inv [OF i3 _ k] p True by simp
    next
      case False
      then show ?thesis using p(2) tier_inv_books [OF run_tier_books i3] by auto
    qed
  qed
qed

text \<open>What a batch may carry.\<close>

definition planned :: "il_options \<Rightarrow> ('o, 's, 'w) tiered_omap \<Rightarrow> bool" where
  "planned opt tm \<longleftrightarrow>
     (\<exists>mm. tm_maint tm = Some mm
        \<and> (scanning opt \<longrightarrow> mm_swap_state mm = Idle \<and> io_scan_key opt \<in> tm_phys_hot tm)
        \<and> (io_hot_insert opt \<noteq> INVALID_KEY \<longrightarrow> mm_swap_state mm = HotPend \<and> io_hot_insert opt = tm_pending_key tm)
        \<and> (io_cold_insert opt \<noteq> INVALID_KEY \<longrightarrow> mm_swap_state mm = ColdPend))"

lemma planned_books:
  assumes "books tm' = books tm" "planned opt tm"
  shows "planned opt tm'"
proof -
  obtain mm where mm: "tm_maint tm = Some mm" using assms(2) by (auto simp: planned_def)
  obtain mm' where "tm_maint tm' = Some mm'" "mm_swap_state mm' = mm_swap_state mm" using books_maint [OF assms(1) mm] by blast
  then show ?thesis using assms(2) mm by (simp add: planned_def books_fields [OF assms(1)])
qed

lemma plan_batch_ok:
  assumes i: "tier_inv tm" and p: "plan_batch k nv tm = Inr (opt, tm1)"
  shows "tier_inv tm1 \<and> planned opt tm1 \<and> tm_hot_keys tm1 = tm_hot_keys tm \<and> io_key opt = k"
proof -
  obtain mm where mm: "tm_maint tm = Some mm" using i by (rule tier_invE)
  show ?thesis
  proof (cases "mc_piggyback (tc_maintenance (tm_config tm))")
    case False
    then show ?thesis using p i mm by (auto simp: plan_batch_def with_maint_def planned_def)
  next
    case True
    from p True obtain sc sk hi ci where
      sk: "(if sc \<and> \<not> is_da (effective_hot_backend (tm_config tm)) \<and> mm_swap_state mm = Idle then next_scan_key tm
                       else Inr (INVALID_KEY, tm)) = Inr (sk, tm1)"
      and opt: "io_key opt = k" "io_scan_key opt = sk"
        "io_hot_insert opt = (if hi \<and> mm_swap_state mm = HotPend \<and> tm_pending_key tm \<noteq> INVALID_KEY then tm_pending_key tm else INVALID_KEY)"
        "io_cold_insert opt = (if ci \<and> mm_swap_state mm = ColdPend \<and> tm_pending_key tm \<noteq> INVALID_KEY then tm_pending_key tm else INVALID_KEY)"
      by (auto simp: plan_batch_def with_maint_def [of tm] mm Let_def bind_result_Inr_iff)
    show ?thesis
    proof (cases "sc \<and> \<not> is_da (effective_hot_backend (tm_config tm)) \<and> mm_swap_state mm = Idle")
      case True
      then have n: "next_scan_key tm = Inr (sk, tm1)" using sk by simp
      note f = next_scan_key_inv [OF i n]
      then obtain mm1 where "tm_maint tm1 = Some mm1" "mm_swap_state mm1 = Idle" using mm True by auto
      then show ?thesis using f opt True by (auto simp: planned_def)
    next
      case False
      then have "sk = INVALID_KEY" "tm1 = tm" using sk by (auto split: if_splits)
      then show ?thesis using i opt mm by (auto simp: planned_def)
    qed
  qed
qed

lemma settle_batch_inv:
  assumes i: "tier_inv tm" and p: "planned opt tm" and k: "io_key opt \<noteq> INVALID_KEY"
    and ir: "\<not> ar_decision_handled ir" "ar_hot_insert_done ir = (io_hot_insert opt \<noteq> INVALID_KEY)"
      "ar_cold_insert_done ir = (io_cold_insert opt \<noteq> INVALID_KEY)"
    and s: "settle_batch te opt (io_key opt \<in> tm_hot_keys tm) ir tm r = Inr (tm', r')"
  shows "tier_inv tm'"
proof -
  obtain mm where mm: "tm_maint tm = Some mm" using i by (rule tier_invE)
  let ?scan = "scanning opt \<and> ar_scan_handled ir \<and> ar_scan_demoted ir"
  from s obtain tm1 tm2 tm3 where
    1: "(if ?scan then admit_from_hot (io_scan_key opt) (ar_scan_fp ir) (ar_scan_ref ir) tm else Inr tm) = Inr tm1"
    and 2: "(if ar_hot_insert_done ir then clear_pending (hot_arrival (io_hot_insert opt) tm1) else Inr tm1) = Inr tm2"
    and 3: "(if ar_cold_insert_done ir then clear_pending tm2 else Inr tm2) = Inr tm3"
    and 4: "(if io_key opt \<in> tm_hot_keys tm then Inr (tm3, r)
       else bind_result (if sint (ar_last_fp ir) > 0 then promotes (ar_last_fp ir) tm3 else Inr False) (\<lambda>p.
           if p then promote_cold te (io_key opt) (ar_last_fp ir) (ar_cold_ref ir) tm3 r
           else run_tier (oi_dummy (te_omap te)) Cold tm3 r)) = Inr (tm', r')"
    unfolding settle_batch_def if_not_P [OF ir(1)] by (auto simp: bind_result_Inr_iff)
  have st: "scanning opt \<Longrightarrow> mm_swap_state mm = Idle \<and> io_scan_key opt \<in> tm_phys_hot tm"
    "io_hot_insert opt \<noteq> INVALID_KEY \<Longrightarrow> mm_swap_state mm = HotPend \<and> io_hot_insert opt = tm_pending_key tm"
    "io_cold_insert opt \<noteq> INVALID_KEY \<Longrightarrow> mm_swap_state mm = ColdPend"
    using p mm by (auto simp: planned_def)
  have "tier_inv tm3 \<and> tm_hot_keys tm3 = tm_hot_keys tm"
  proof (cases "mm_swap_state mm")
    case Idle
    then have "\<not> ar_hot_insert_done ir" "\<not> ar_cold_insert_done ir" using st(2,3) ir(2,3) by auto
    then have "tm3 = tm1" using 2 3 by simp
    then show ?thesis using 1 i admit_from_hot_inv [OF i _ mm Idle] st(1) by (cases ?scan) auto
  next
    case HotPend
    then have n: "\<not> scanning opt" and c: "\<not> ar_cold_insert_done ir" using st(1,3) ir(3) by auto
    have "tm1 = tm" using 1 n by simp
    with c show ?thesis using 2 3 i st(2) ir(2) clear_hot_inv [OF i mm HotPend] by (cases "ar_hot_insert_done ir") auto
  next
    case ColdPend
    then have n: "\<not> scanning opt" and c: "\<not> ar_hot_insert_done ir" using st(1,2) ir(2) by auto
    have "tm1 = tm" using 1 n by simp
    then have "tm2 = tm" using 2 c by simp
    then show ?thesis using 3 i clear_cold_inv [OF i mm ColdPend] by (cases "ar_cold_insert_done ir") auto
  qed
  then have i3: "tier_inv tm3" and h3: "tm_hot_keys tm3 = tm_hot_keys tm" by simp_all
  show ?thesis
  proof (cases "io_key opt \<in> tm_hot_keys tm")
    case True
    then show ?thesis using 4 i3 by simp
  next
    case False
    then obtain p where p: "(if sint (ar_last_fp ir) > 0 then promotes (ar_last_fp ir) tm3 else Inr False) = Inr p"
      "(if p then promote_cold te (io_key opt) (ar_last_fp ir) (ar_cold_ref ir) tm3 r
           else run_tier (oi_dummy (te_omap te)) Cold tm3 r) = Inr (tm', r')"
      using 4 by (auto simp: bind_result_Inr_iff)
    show ?thesis
    proof (cases p)
      case True
      then have pr: "promotes (ar_last_fp ir) tm3 = Inr True" using p(1) by (cases "sint (ar_last_fp ir) > 0") simp_all
      have c: "promote_cold te (io_key opt) (ar_last_fp ir) (ar_cold_ref ir) tm3 r = Inr (tm', r')" using p(2) True by simp
      show ?thesis by (rule promote_cold_inv [OF i3 _ k pr c]) (simp add: h3 False)
    next
      case False
      then show ?thesis using p(2) tier_inv_books [OF run_tier_books i3] by auto
    qed
  qed
qed

lemma serve_batched_inv:
  assumes te: "no_decisions te" and i: "tier_inv tm" and k: "k \<noteq> INVALID_KEY"
    and s: "serve_batched te k nv res tm r = Inr (res', opt, tm', r')"
  shows "tier_inv tm'"
proof -
  from s obtain tm1 ir tm2 r1 where 1: "plan_batch k nv tm = Inr (opt, tm1)"
    "interleaved_access te opt tm1 r = Inr (ir, tm2, r1)"
    "settle_batch te opt (k \<in> tm_hot_keys tm) ir tm2 r1 = Inr (tm', r')"
    by (auto simp: serve_batched_def bind_result_Inr_iff)
  note p = plan_batch_ok [OF i 1(1)]
  note a = interleaved_access_books [OF te 1(2)]
  then have b: "books tm2 = books tm1" by blast
  have h: "tm_hot_keys tm2 = tm_hot_keys tm" using p books_fields(2) [OF b] by simp
  have s2: "settle_batch te opt (io_key opt \<in> tm_hot_keys tm2) ir tm2 r1 = Inr (tm', r')" using 1(3) p h by simp
  show ?thesis
    by (rule settle_batch_inv [OF _ _ _ _ _ _ s2]) (use p a k tier_inv_books [OF b] planned_books [OF b] in auto)
qed

lemma tick_keeps: "tick mm = Inr mm' \<Longrightarrow> mm_cache mm' = mm_cache mm \<and> mm_swap_state mm' = mm_swap_state mm"
  by (auto simp: tick_def Let_def bind_result_Inr_iff)

lemma da_scan_inv:
  assumes i: "tier_inv tm" and s: "da_scan_step te tm r = Inr (tm', r')"
  shows "tier_inv tm'"
proof -
  obtain sr tm1 r1 where 1: "ask_tier (te_da_scan te) Hot tm r = Inr (sr, tm1, r1)"
    using s by (auto simp: da_scan_step_def bind_result_Inr_iff)
  note b1 = ask_tier_books [OF 1]
  show ?thesis
  proof (cases "sr_key sr \<noteq> INVALID_KEY \<and> sr_value sr \<noteq> []")
    case True
    then obtain raw tm2 r2 where d: "data_access te (ref_to_blk (sr_value sr)) None tm1 r1 = Inr (raw, tm2, r2)"
      and t: "tm' = tm2 \<or> (\<exists>q. tm' = tm2\<lparr>tm_pending_demotions := q\<rparr>)"
      using s 1 by (auto simp: da_scan_step_def bind_result_Inr_iff with_maint_Inr_iff Let_def split: if_splits)
    have "tier_inv tm2" using tier_inv_books [OF _ i, of tm2] data_access_books [OF d] b1 by simp
    then show ?thesis using t tier_inv_queue by auto
  next
    case False
    then have "tm' = tm1" using s 1 by (auto simp: da_scan_step_def)
    then show ?thesis using tier_inv_books [OF b1 i] by simp
  qed
qed

text \<open>A maintenance step at its phase.\<close>

lemma turn_inv:
  assumes "tier_inv tm" and "\<And>tm2 r2. step te tm r = Inr (tm2, r2) \<Longrightarrow> tier_inv tm2"
    and "(if skip then Inr (tm, r) else bind_result (with_maint tm should) (\<lambda>b. if b then step te tm r else Inr (tm, r))) = Inr (tm', r')"
  shows "tier_inv tm'"
  using assms by (auto simp: bind_result_Inr_iff split: if_splits)

lemma staggered_inv:
  assumes i: "tier_inv tm" and s: "staggered_steps te opt res tm r = Inr (res', tm', r')"
  shows "tier_inv tm'"
proof -
  let ?turn = "\<lambda>skip should step (tm', r').
            if skip then Inr (tm', r')
            else bind_result (with_maint tm' should) (\<lambda>b. if b then step te tm' r' else Inr (tm', r'))"
  from s obtain tm1 r1 tm2 r2 where
    1: "?turn (scanning opt) should_scan do_scan_step (tm, r) = Inr (tm1, r1)"
    and 2: "?turn (io_hot_insert opt \<noteq> INVALID_KEY \<or> io_hot_dummy opt) should_hot_insert do_hot_insert_step (tm1, r1) = Inr (tm2, r2)"
    and 3: "?turn (io_cold_insert opt \<noteq> INVALID_KEY \<or> io_cold_dummy opt) should_cold_insert do_cold_insert_step (tm2, r2) = Inr (tm', r')"
    unfolding staggered_steps_def Let_def by (auto simp: bind_result_Inr_iff)
  have i1: "tier_inv tm1" by (rule turn_inv [OF i do_scan_inv [OF i]]) (use 1 in auto)
  have i2: "tier_inv tm2" by (rule turn_inv [OF i1 do_hot_insert_inv [OF i1]]) (use 2 in auto)
  show ?thesis by (rule turn_inv [OF i2 do_cold_insert_inv [OF i2]]) (use 3 in auto)
qed

lemma serve_epoch_inv:
  assumes te: "tm_channel tm = None \<or> no_decisions te" and i: "tier_inv tm" and k: "k \<noteq> INVALID_KEY"
    and s: "serve_epoch te k nv res tm r = Inr (res', opt, tm', r')"
  shows "tier_inv tm'"
proof -
  obtain ci where ci: "can_interleave te tm = Inr ci" using s by (auto simp: serve_epoch_def bind_result_Inr_iff)
  have te': "no_decisions te" if ci using te ci that by (auto simp: can_interleave_def)
  consider "serve_pending te nv res tm r = Inr (res', tm', r')" | "serve_cached te k nv res tm r = Inr (res', tm', r')"
    | "serve_sequential te k nv res tm r = Inr (res', tm', r')" | "serve_batched te k nv res tm r = Inr (res', opt, tm', r')" ci
    using s by (auto simp: serve_epoch_def ci Let_def bind_result_Inr_iff split: if_split_asm)
  then show ?thesis
  proof cases
    case 1 then show ?thesis by (rule tier_inv_books [OF serve_pending_books i])
  next
    case 2 then show ?thesis by (rule tier_inv_books [OF serve_cached_books i])
  next
    case 3 then show ?thesis by (rule serve_sequential_inv [OF i k])
  next
    case 4 then show ?thesis using serve_batched_inv [OF te' i k] by blast
  qed
qed

lemma access_inv:
  assumes te: "tm_channel tm = None \<or> no_decisions te" and i: "tier_inv tm" and k: "k \<noteq> INVALID_KEY"
    and s: "tm_access te k nv tm r = Inr (res', tm', r')"
  shows "tier_inv tm'"
proof -
  obtain mm where mm: "tm_maint tm = Some mm" using i by (rule tier_invE)
  have "access_epoch te k nv tm r = Inr (res', tm', r')" using s mm by (simp add: tm_access_def)
  then obtain mm1 res opt tm1 r1 tm2 r2 res2 where t: "tick mm = Inr mm1"
    and 1: "serve_epoch te k nv (new_result\<lparr>ar_found_in_hot := k \<in> tm_hot_keys tm\<rparr>) (put_maint mm1 tm) r = Inr (res, opt, tm1, r1)"
    and 2: "(if da_scans tm1 then da_scan_step te tm1 r1 else Inr (tm1, r1)) = Inr (tm2, r2)"
    and 3: "staggered_steps te opt res2 tm2 r2 = Inr (res', tm', r')"
    by (auto simp: access_epoch_def with_maint_def mm Let_def bind_result_Inr_iff)
  have i0: "tier_inv (put_maint mm1 tm)" by (rule tier_inv_maint [OF i mm]) (use tick_keeps [OF t] in simp_all)
  have i1: "tier_inv tm1" by (rule serve_epoch_inv [OF _ i0 k 1]) (use te in \<open>simp add: put_maint_def\<close>)
  have i2: "tier_inv tm2" using 2 i1 da_scan_inv [OF i1] by (cases "da_scans tm1") auto
  show ?thesis by (rule staggered_inv [OF i2 3])
qed

section \<open>The initial load\<close>

lemma extract_keys_fields:
  "extract_keys te ks tm r = Inr (es, tm', r') \<Longrightarrow> map ce_key es = ks
     \<and> tm_phys_hot tm' = tm_phys_hot tm - set ks \<and> tm_cache_keys tm' = tm_cache_keys tm \<union> set ks
     \<and> dom (tm_cache_refs tm') = dom (tm_cache_refs tm) \<union> set ks \<and> tm_hot_list tm' = tm_hot_list tm
     \<and> tm_hot_keys tm' = tm_hot_keys tm \<and> tm_maint tm' = tm_maint tm \<and> tm_pending_key tm' = tm_pending_key tm
     \<and> tm_channel tm' = tm_channel tm"
proof (induction ks arbitrary: tm r es)
  case (Cons k ks)
  have put: "tm_phys_hot (put_tier tr s x) = tm_phys_hot x" "tm_cache_keys (put_tier tr s x) = tm_cache_keys x"
    "tm_cache_refs (put_tier tr s x) = tm_cache_refs x" "tm_hot_list (put_tier tr s x) = tm_hot_list x"
    "tm_hot_keys (put_tier tr s x) = tm_hot_keys x" "tm_maint (put_tier tr s x) = tm_maint x"
    "tm_pending_key (put_tier tr s x) = tm_pending_key x" "tm_channel (put_tier tr s x) = tm_channel x"
    for tr s and x :: "('a, 'b, 'c) tiered_omap"
    by (cases tr, simp_all)+
  from Cons.prems obtain ref s1 r1 s2 r2 es' where es: "es = \<lparr>ce_key = k, ce_fp = 0\<rparr> # es'"
    and rest: "extract_keys te ks ((put_tier Hot s2 (put_tier Hot s1 tm))\<lparr>tm_phys_hot := tm_phys_hot tm - {k},
       tm_cache_keys := insert k (tm_cache_keys tm), tm_cache_refs := (tm_cache_refs tm)(k \<mapsto> ref)\<rparr>) r2 = Inr (es', tm', r')"
    by (auto simp: bind_result_Inr_iff ask_tier_def run_tier_def split: option.splits)
  from Cons.IH [OF rest] show ?case unfolding es by (auto simp: put)
qed simp

text \<open>Before the cache is filled all hot keys are in the hot map.\<close>

lemma fill_cache_inv:
  assumes mm: "tm_maint tm = Some mm" "mm_swap_state mm = Idle" and h: "hot_list_ok tm" "tm_hot_keys tm = tm_phys_hot tm"
      "INVALID_KEY \<notin> tm_phys_hot tm"
    and e: "tm_cache_keys tm = {}" "tm_cache_refs tm = Map.empty" "tm_pending_key tm = INVALID_KEY"
    and s: "fill_cache te n tm r = Inr (tm', r')"
  shows "tier_inv tm' \<and> tm_channel tm' = tm_channel tm"
proof -
  let ?n = "nat (min (sint n) (int (length (tm_hot_list tm))))"
  let ?ks = "take ?n (tm_hot_list tm)"
  from s obtain es tm1 where x: "extract_keys te ?ks tm r = Inr (es, tm1, r')"
    and t: "\<exists>mm1. tm_maint tm1 = Some mm1 \<and> tm' = put_maint (init_cache es mm1) (tm1\<lparr>tm_hot_list := drop ?n (tm_hot_list tm1)\<rparr>)"
    by (auto simp: fill_cache_def Let_def bind_result_Inr_iff with_maint_Inr_iff split: if_split_asm)
  note f = extract_keys_fields [OF x]
  have asc: "ascending (take ?n (tm_hot_list tm) @ drop ?n (tm_hot_list tm))" using h(1) by (simp add: hot_list_ok_def)
  have st: "set (tm_hot_list tm) = tm_phys_hot tm" using h(1) by (simp add: hot_list_ok_def)
  have apart: "set ?ks \<inter> set (drop ?n (tm_hot_list tm)) = {}" using asc unfolding sorted_wrt_append by fastforce
  have both: "set ?ks \<union> set (drop ?n (tm_hot_list tm)) = tm_phys_hot tm" using st by (metis append_take_drop_id set_append)
  have "ascending ?ks" using asc unfolding sorted_wrt_append by blast
  then have d: "distinct ?ks" by (rule sorted_wrt_distinct_sint)
  have t': "tm' = put_maint (init_cache es mm) (tm1\<lparr>tm_hot_list := drop ?n (tm_hot_list tm)\<rparr>)" using t f mm(1) by auto
  have "hot_list_ok tm'"
    using asc both apart f unfolding t' by (auto simp: hot_list_ok_def put_maint_def sorted_wrt_append)
  moreover have "cache_ok (init_cache es mm) tm'"
    using d f e by (auto simp: cache_ok_def put_maint_def t' init_cache_def)
  moreover have "pending_ok (init_cache es mm) tm'"
    using f e h both mm(2) by (auto simp: pending_ok_def put_maint_def t' init_cache_def Let_def)
  ultimately show ?thesis using f by (simp add: tier_inv_def t' put_maint_def)
qed

lemma init_inv:
  assumes cfg: "mc_enabled (tc_maintenance cfg)" and hot: "distinct hot" "INVALID_KEY \<notin> set hot"
    and s: "tm_init te data hot (new_tiered_omap cfg) r = Inr (tm, r')"
  shows "tier_inv tm \<and> tm_channel tm = None"
proof -
  let ?mm = "new_maintenance_manager (tc_maintenance cfg)"
  from s cfg obtain p1 nb hc h1 c1 r6 where
    "fill_cache te (mc_cache_size (tc_maintenance cfg))
       ((new_tiered_omap cfg)\<lparr>tm_hot_keys := set hot, tm_phys_hot := set hot, tm_hot_list := sort_keys hot, tm_data := p1,
          tm_next_block := nb, tm_hot_capacity := hc, tm_hot := Some h1, tm_cold := Some c1\<rparr>) r6 = Inr (tm, r')"
    by (auto simp: tm_init_def Let_def bind_result_Inr_iff new_tiered_omap_def split: prod.splits)
  from fill_cache_inv [OF _ _ _ _ _ _ _ _ this, of ?mm] show ?thesis
    using cfg hot ascending_sort [OF hot(1)]
    by (simp add: new_tiered_omap_def new_maintenance_manager_def hot_list_ok_def)
qed

end
