(* ===== verification/Tiered_Properties.thy ===== *)
theory Tiered_Properties
  imports Tiered_Plain Tiered_Invariant
begin

text \<open>
  The properties of the tiered map: without maintenance and without a channel it is a map, for tiers that are
  AVL maps and a data ORAM that is a Path ORAM, all of them on local bucket trees; with maintenance the books
  the client keeps stay consistent with each other, for any maps and any storage.
\<close>

section \<open>Tiers on local trees\<close>

definition tree_stores :: "oram_env \<Rightarrow> bucket_tree path_oram \<Rightarrow> (i32 \<rightharpoonup> bytes) \<Rightarrow> bool" where
  "tree_stores E p d \<longleftrightarrow> good_env E \<and> tree_rep E p d"

definition avl_tiers ::
  "oram_env \<Rightarrow> (int \<Rightarrow> int \<Rightarrow> bucket_tree result) \<Rightarrow> (i32 list \<Rightarrow> i32 list) \<Rightarrow> (i32 list \<Rightarrow> i32 list)
    \<Rightarrow> (bucket_tree avl_machine, bucket_tree, 'w) tiered_env \<Rightarrow> (bucket_tree avl_machine, bucket_tree, 'w) tiered_env" where
  "avl_tiers E create node_order data_order te =
     te\<lparr>te_oram := E, te_ops := tree_ops, te_omap := avl_ops E tree_ops create node_order data_order\<rparr>"

lemma avl_tiers_simps [simp]:
  "te_oram (avl_tiers E create node_order data_order te) = E"
  "te_ops (avl_tiers E create node_order data_order te) = tree_ops"
  "te_omap (avl_tiers E create node_order data_order te) = avl_ops E tree_ops create node_order data_order"
  by (simp_all add: avl_tiers_def)

interpretation tiers: tiered_client "avl_ops E tree_ops create node_order data_order" "avl_rep E"
    "avl_tiers E create node_order data_order te" "tree_stores E"
  for E create node_order data_order te
proof
  fix p d b v nv r
  assume d: "tree_stores E p d" "d b = Some v" "\<forall>w. nv = Some w \<longrightarrow> fits_cipher w"
  show "safe_run (po_access (te_oram (avl_tiers E create node_order data_order te))
        (te_ops (avl_tiers E create node_order data_order te)) b nv p r)
      (\<lambda>(res, p', r'). res = v \<and> tree_stores E p' (d(b \<mapsto> (case nv of None \<Rightarrow> v | Some w \<Rightarrow> w))))"
    using d safe_run_mono [OF tree_access [of E p d b v nv r]] by (auto simp: tree_stores_def)
next
  fix p d r
  assume d: "tree_stores E p d"
  then have "safe_run (po_dummy_access E tree_ops p r) (\<lambda>(p', r'). tree_rep E p' d)"
    unfolding tree_stores_def tree_rep_def by (intro tree.po_dummy_rep) auto
  then show "safe_run (po_dummy_access (te_oram (avl_tiers E create node_order data_order te))
        (te_ops (avl_tiers E create node_order data_order te)) p r) (\<lambda>(p', r'). tree_stores E p' d)"
    using d by (auto simp: tree_stores_def elim!: safe_run_mono)
qed simp

text \<open>
  Claim C2: without maintenance and without a channel, over AVL maps as tiers and a Path ORAM for the data, all
  on local bucket trees, the tiered map is a map. Whatever the mode, the placement of the keys and the random
  draws are, a sequence of reads and writes returns the values the keys had before each request, the empty
  value for an absent key, and leaves the map of the end; the only failure is a stash overflow. The values
  written are short enough to be encrypted. (Through a channel the rounds of the tiers are interleaved, and a
  write answers with the value it wrote; that branch is modelled and outside this statement.)
\<close>

theorem tiered_omap_refines_map:
  assumes "plain_stores (avl_rep E) (tree_stores E) tm m" "\<forall>k w. (k, Some w) \<in> set qs \<longrightarrow> fits_cipher w"
  shows "safe_run (tm_run (avl_tiers E create node_order data_order te) qs tm r)
    (\<lambda>(vs, tm', r'). vs = fst (tm_map_run qs m) \<and> plain_stores (avl_rep E) (tree_stores E) tm' (snd (tm_map_run qs m)))"
  by (rule tiers.plain_run [OF assms])

text \<open>
  Claim C3: with maintenance the books the client keeps of its hot keys stay consistent with each other. From
  the initial load on, whatever maps and storage the tiers use, with or without the channel, after every
  sequence of accesses: the list \<open>hot_key_list_\<close> of the keys booked as physically hot is sorted and free of
  duplicates, the kept references are those of the cached keys, no cached key is booked as physically hot, an
  entry is pending exactly while a swap is under way, and the hot keys are the ones booked as physically hot,
  the cached ones and the pending one. It speaks of these sets, lists and flags alone, and says nothing of what
  the maps of the tiers store: a removal or an insertion that the maps skip leaves the books as they are. It
  needs maps that do not pause for a decision.
\<close>

theorem tier_bookkeeping:
  assumes "mc_enabled (tc_maintenance cfg)" "distinct hot" "INVALID_KEY \<notin> set hot" "no_decisions te"
    and "INVALID_KEY \<notin> fst ` set qs"
    and "tm_init te data hot (new_tiered_omap cfg) r = Inr (tm0, r0)"
    and "tm_run te qs (tm0\<lparr>tm_channel := ch\<rparr>) r0 = Inr (vs, tm, r1)"
  shows "tier_inv tm"
proof -
  have runs: "tier_inv tm'" if "tier_inv tm" "INVALID_KEY \<notin> fst ` set qs" "tm_run te qs tm r = Inr (vs, tm', r')" for tm r vs tm' r'
    using that
  proof (induction qs arbitrary: tm r vs)
    case (Cons q qs)
    obtain k nv where q: "q = (k, nv)" by fastforce
    then obtain res tm1 r1 vs1 where 1: "tm_access te k nv tm r = Inr (res, tm1, r1)" "tm_run te qs tm1 r1 = Inr (vs1, tm', r')"
      using Cons.prems(3) by (auto simp: bind_result_Inr_iff)
    have "k \<noteq> INVALID_KEY" using Cons.prems(2) q by auto
    then have "tier_inv tm1" using access_inv [OF disjI2 [OF assms(4)] Cons.prems(1) _ 1(1)] by blast
    then show ?case using Cons.IH [OF _ _ 1(2)] Cons.prems(2) by simp
  qed simp
  have "tier_inv (tm0\<lparr>tm_channel := ch\<rparr>)"
    by (rule tier_inv_books [of _ tm0]) (use init_inv [OF assms(1-3,6)] in simp_all)
  then show ?thesis by (rule runs [OF _ assms(5,7)])
qed

lemma avl_tiers_no_decisions: "no_decisions (avl_tiers E create node_order data_order te)"
  by (simp add: no_decisions_def)

text \<open>Maps that are association lists, for two keys of which the cold one is read twice.\<close>

definition list_map_ops :: "(i32 \<times> bytes) list omap_ops" where
  "list_map_ops =
     omap_defaults (\<lambda>k u s r. Inr (case map_of s k of None \<Rightarrow> [] | Some v \<Rightarrow> v, s, r)) (\<lambda>k v s r. Inr ((k, v) # s, r))
       (\<lambda>k s r. Inr (filter (\<lambda>(x, v). x \<noteq> k) s, r)) nothing (\<lambda>kvs s r. Inr (kvs, r))
       (\<lambda>s. zero_bandwidth) (\<lambda>s. zero_bandwidth) (\<lambda>s. s)"

definition upkeep_env :: "((i32 \<times> bytes) list, bucket_tree, unit) tiered_env" where
  "upkeep_env =
     \<lparr>te_oram = xor_env, te_ops = tree_ops, te_create = (\<lambda>n b. Inr (new_bucket_tree 2 b)), te_omap = list_map_ops,
      te_construct = (\<lambda>spec r. Inr ([], r)), te_log_floor = (\<lambda>a b. 1), te_block_order = id,
      te_da_scan = yields no_scan, te_batch_read = (\<lambda>reqs ch. Inr ([], ch)), te_batch_write = (\<lambda>reqs ch. Inr ch)\<rparr>"

definition upkeep_config :: tiered_config where
  "upkeep_config =
     \<lparr>tc_total_keys = 2, tc_hot_set_size = 1, tc_mode = FullOblivious, tc_use_split = False, tc_bucket_size = 4,
      tc_backend = AvlBackend, tc_hot_backend = AvlBackend, tc_use_hot_backend = False, tc_bplus_order = 8,
      tc_maintenance = \<lparr>mc_observation_window = 2, mc_swap_interval = 3, mc_cache_size = 1, mc_enabled = True, mc_piggyback = False\<rparr>\<rparr>"

lemma upkeep_run:
  "case tm_init upkeep_env [(5, [1]), (7, [3])] [5] (new_tiered_omap upkeep_config) [] of
     Inl e \<Rightarrow> False
   | Inr (tm, r) \<Rightarrow>
       (case tm_run upkeep_env [(7, None), (7, Some [9])] tm r of
          Inl e \<Rightarrow> False | Inr (vs, tm', r') \<Rightarrow> vs = [[3], [9]] \<and> tm_hot_keys tm' = {7})"
  by code_simp

theorem tier_bookkeeping_witness:
  "\<exists>tm0 r0 tm r1. tm_init upkeep_env [(5, [1]), (7, [3])] [5] (new_tiered_omap upkeep_config) [] = Inr (tm0, r0)
    \<and> tm_run upkeep_env [(7, None), (7, Some [9])] (tm0\<lparr>tm_channel := None\<rparr>) r0 = Inr ([[3], [9]], tm, r1)
    \<and> tm_hot_keys tm = {7} \<and> tier_inv tm"
proof -
  let ?init = "tm_init upkeep_env [(5, [1]), (7, [3])] [5] (new_tiered_omap upkeep_config) []"
  obtain tm0 r0 where 1: "?init = Inr (tm0, r0)" using upkeep_run by (cases ?init) auto
  have "tm_channel tm0 = None" using init_inv [OF _ _ _ 1] by (simp add: upkeep_config_def INVALID_KEY_def)
  then have ch: "tm0\<lparr>tm_channel := None\<rparr> = tm0" by (cases tm0) simp
  let ?run = "tm_run upkeep_env [(7, None), (7, Some [9])] (tm0\<lparr>tm_channel := None\<rparr>) r0"
  have "case ?run of Inl e \<Rightarrow> False | Inr (vs, tm', r') \<Rightarrow> vs = [[3], [9]] \<and> tm_hot_keys tm' = {7}"
    using upkeep_run unfolding 1 ch by (simp del: tm_run.simps)
  then obtain tm r1 where 2: "?run = Inr ([[3], [9]], tm, r1)" "tm_hot_keys tm = {7}" by (cases ?run) auto
  note t = 1 2
  have nd: "no_decisions upkeep_env" by (simp add: no_decisions_def upkeep_env_def list_map_ops_def omap_defaults_def)
  have "tier_inv tm"
    by (rule tier_bookkeeping [OF _ _ _ nd _ t(1,2)]) (simp_all add: upkeep_config_def INVALID_KEY_def)
  then show ?thesis using t by blast
qed

section \<open>A stored map\<close>

definition demo_config :: tiered_config where
  "demo_config =
     \<lparr>tc_total_keys = 2, tc_hot_set_size = 1, tc_mode = FullOblivious, tc_use_split = False, tc_bucket_size = 4,
      tc_backend = AvlBackend, tc_hot_backend = AvlBackend, tc_use_hot_backend = False, tc_bplus_order = 8,
      tc_maintenance = default_maintenance_config\<rparr>"

lemma demo_tiers:
  obtains tm :: "(bucket_tree avl_machine, bucket_tree, 'w) tiered_omap"
  where "plain_stores (avl_rep xor_env) (tree_stores xor_env) tm [5 \<mapsto> [1], 6 \<mapsto> [2]]"
proof -
  have avl: "\<exists>s. avl_rep xor_env s [k \<mapsto> v]" if k: "0 \<le> sint k" and fit: "node_fits v" for k v
  proof -
    obtain t where t: "avl_holds xor_env t (single_tree k v)" "av_max_height t = 4" by (rule single_avl [OF k fit])
    then have "avl_rep xor_env \<lparr>am_map = t, am_ss = idle_step, am_pb = idle_pb\<rparr> [k \<mapsto> v]"
      unfolding avl_rep_def using xor_env_good by (auto simp: single_tree_facts intro!: exI [of _ "single_tree k v"])
    then show ?thesis by blast
  qed
  obtain h where h: "avl_rep xor_env h [5 \<mapsto> int_to_bytes 0]" using avl [of 5 "int_to_bytes 0"] small_fits by auto
  obtain c where c: "avl_rep xor_env c [6 \<mapsto> int_to_bytes 1]" using avl [of 6 "int_to_bytes 1"] small_fits by auto
  obtain p where p: "tree_rep xor_env p (map_of [(0, [1]), (1, [2])])"
    using tree_load [OF xor_env_good, of 7 2 "[(0, [1]), (1, [2])]" 4 "[]"] demo_load(3)
    by (auto simp: INVALID_KEY_def fits_cipher_def AES_IV_LEN_def)
  let ?tm = "(new_tiered_omap demo_config)\<lparr>tm_hot := Some h, tm_cold := Some c, tm_data := p, tm_phys_hot := {5}, tm_hot_keys := {5}\<rparr>"
  let ?hm = "[5 \<mapsto> int_to_bytes 0]" and ?cm = "[6 \<mapsto> int_to_bytes 1]" and ?d = "map_of [(0 :: i32, [1 :: byte]), (1, [2])]"
  have ref: "ref_to_blk (int_to_bytes b) = b" for b
    using length_int_to_bytes [of b] by (cases "int_to_bytes b = []") (simp_all add: ref_to_blk_def)
  have b: "block_of {5} ?hm ?cm k = (if k = 5 then Some 0 else if k = 6 then Some 1 else None)" for k
    by (simp add: block_of_def ref)
  have "[5 \<mapsto> [1], 6 \<mapsto> [2]] = (\<lambda>k. Option.bind (block_of {5} ?hm ?cm k) ?d)" by (simp add: b fun_eq_iff)
  moreover have "\<forall>k k' x. block_of {5} ?hm ?cm k = Some x \<and> block_of {5} ?hm ?cm k' = Some x \<longrightarrow> k = k'"
    by (simp add: b)
  moreover have "\<forall>k x. block_of {5} ?hm ?cm k = Some x \<longrightarrow> 0 \<le> sint x \<and> ?d x \<noteq> None" by (simp add: b)
  ultimately have "placed {5} ?hm ?cm ?d [5 \<mapsto> [1], 6 \<mapsto> [2]]" unfolding placed_def by blast
  moreover have "parts_hold (avl_rep xor_env) (tree_stores xor_env) ?hm ?cm ?d ?tm"
    using h c p xor_env_good by (simp add: parts_hold_def tree_stores_def)
  moreover have "tm_phys_hot ?tm = {5}" "tm_maint ?tm = None" "tm_channel ?tm = None"
    by (simp_all add: new_tiered_omap_def demo_config_def default_maintenance_config_def)
  ultimately have "plain_stores (avl_rep xor_env) (tree_stores xor_env) ?tm [5 \<mapsto> [1], 6 \<mapsto> [2]]"
    unfolding plain_stores_def by metis
  then show ?thesis by (rule that)
qed

definition demo_tiered_env :: "(bucket_tree avl_machine, bucket_tree, unit) tiered_env" where
  "demo_tiered_env =
     avl_tiers xor_env (\<lambda>n b. Inr (new_bucket_tree n b)) rev rev
       \<lparr>te_oram = xor_env, te_ops = tree_ops, te_create = (\<lambda>n b. Inr (new_bucket_tree n b)),
        te_omap = avl_ops xor_env tree_ops (\<lambda>n b. Inr (new_bucket_tree n b)) rev rev,
        te_construct = (\<lambda>spec r. Inl NullPointer), te_log_floor = (\<lambda>a b. 1), te_block_order = rev,
        te_da_scan = yields no_scan, te_batch_read = (\<lambda>reqs ch. Inr ([], ch)), te_batch_write = (\<lambda>reqs ch. Inr ch)\<rparr>"

theorem tiered_omap_refines_map_witness:
  "\<exists>tm. plain_stores (avl_rep xor_env) (tree_stores xor_env) tm [5 \<mapsto> [1], 6 \<mapsto> [2]]
    \<and> safe_run (tm_run demo_tiered_env [(5, None), (6, Some [7]), (9, Some [3]), (6, None), (9, None)] tm [3])
        (\<lambda>(vs, tm', r'). vs = [[1], [2], [], [7], []])"
proof -
  obtain tm :: "(bucket_tree avl_machine, bucket_tree, unit) tiered_omap"
    where tm: "plain_stores (avl_rep xor_env) (tree_stores xor_env) tm [5 \<mapsto> [1], 6 \<mapsto> [2]]"
    by (rule demo_tiers)
  let ?qs = "[(5, None), (6, Some [7]), (9, Some [3]), (6, None), (9, None)]"
  have v: "fst (tm_map_run ?qs [5 \<mapsto> [1], 6 \<mapsto> [2]]) = [[1], [2], [], [7], []]" by (simp add: read_of_def put_value_def)
  have "safe_run (tm_run demo_tiered_env ?qs tm [3]) (\<lambda>(vs, tm', r'). vs = [[1], [2], [], [7], []])"
    unfolding demo_tiered_env_def by (rule safe_run_mono [OF tiered_omap_refines_map [OF tm]])
      (auto simp: v fits_cipher_def AES_IV_LEN_def simp del: tm_map_run.simps)
  then show ?thesis using tm by blast
qed

end
