(* ===== verification/Spec2Isabelle.thy ===== *)
theory Spec2Isabelle
  imports Data_Properties Enclave_Oram_Properties Enclave_Store Tee_Server_Properties
    Path_Oram_State Maintenance_Properties Avl_Omap_Steps
    Avl_Omap_Properties Tiered_Properties
begin

text \<open>
  TieredOMap is an oblivious key-value store: a client, or an SGX enclave, keeps a map in untrusted
  storage so that the addresses it touches do not depend on the keys. Records are split into a small hot
  tier and a large cold tier. This library models the C++ code under \<open>src/\<close> and \<open>include/tiered_omap/\<close> as
  HOL functions and proves its components correct.

  \<^bold>\<open>The parts and how they interact.\<close> There are two stacks that share the data layer.

  \<^item> The client stack. \<open>TieredOMap\<close> (\<open>Tiered_Omap\<close>, \<open>Tiered_Interleaved\<close>, \<open>Tiered_Access\<close>) keeps a hot and a cold
    oblivious map, reached through the virtual functions of \<open>OmapInterface\<close> (\<open>Omap_Interface\<close>), a data ORAM, and
    the maintenance policy (\<open>Maintenance\<close>) that moves keys between the tiers. The map is the AVL map
    (\<open>Avl_Node\<close>, \<open>Avl_Omap\<close>, \<open>Avl_Omap_Ops\<close>, \<open>Avl_Omap_Update\<close>, \<open>Avl_Omap_Steps\<close>, \<open>Avl_Omap_Interface\<close>), whose nodes
    are blocks of one or two Path ORAMs (\<open>Path_Oram\<close>, \<open>Path_Oram_State\<close>). A Path ORAM encrypts its blocks (\<open>Crypto\<close>)
    and keeps them in a bucket tree behind the virtual functions of \<open>StorageInterface\<close> (\<open>Storage_Interface\<close>): the
    local tree (\<open>Bucket_Tree\<close>) or the tree of a server (\<open>Network_Storage\<close>), which talks over a socket (\<open>Sockets\<close>,
    \<open>Wire\<close>) to the storage server (\<open>Storage_Server\<close>).
  \<^item> The enclave stack. The server (\<open>Tee_Server\<close>) reads requests from a socket and answers them from the tiered
    map of the enclave (\<open>Tee_Omap\<close>): the packed directory of hot keys (\<open>Packed_Directory\<close>) with their blocks in one
    enclave ORAM (\<open>Enclave_Oram\<close>), and the enclave AVL map (\<open>Tee_Avl\<close>, \<open>Tee_Avl_Ops\<close>, \<open>Tee_Avl_Update\<close>) in two more. The
    code is written with branch-free primitives (\<open>Oblivious\<close>).

  \<^bold>\<open>How the code is read.\<close> \<open>Prelude\<close> and \<open>Common\<close> hold what all components share. A stored C++ \<open>int\<close> is a 32-bit
  word read by \<open>sint\<close>; counters of 64 bits are 64-bit words; sizes, levels and loop counters are naturals or
  integers. A byte vector is a list of 8-bit words, a struct a record whose fields carry a prefix of the
  component, a class the record of its members, and a method a function from the state to a result and the new
  state. An operation that can fail returns \<open>error + 'a\<close>; a failing operation drops the state. \<open>OutOfBounds\<close>,
  \<open>NullPointer\<close> and \<open>DivideByZero\<close> are undefined behaviour of the code, so that a theorem that excludes them says that
  the code is free of it. \<open>std::mt19937\<close> is a random tape, a list of naturals that every draw consumes, and every theorem
  holds for every tape. A hash map is a partial map where its order does not matter, an association list where the code
  iterates over it. An abstract class is a record of functions over a state type (\<open>storage_ops\<close>, \<open>omap_ops\<close>).

  \<^bold>\<open>What is a parameter.\<close> OpenSSL is the record \<open>crypto\<close>, with the documented law of AES-CTR (\<open>cipher_law\<close>) and,
  where a theorem excludes failures of encryption, the condition on the machine that its random generator is seeded
  (\<open>rand_ready\<close>); both are \<open>good_crypto\<close>. The code casts lengths to \<open>int\<close>, so the theorems ask for values
  short enough for that (\<open>fits_cipher\<close>, \<open>node_fits\<close>). The orders in which hash maps are walked are functions (\<open>oe_order\<close>, \<open>node_order\<close>, \<open>data_order\<close>, \<open>te_block_order\<close>); the network is the
  stream of bytes with the chunks in which it arrives; the floating-point \<open>floor(log / log)\<close> is \<open>te_log_floor\<close>; the batches
  over the channel of the tiered map are \<open>te_batch_read\<close> and \<open>te_batch_write\<close>, and every \<open>NetworkStorage\<close> carries its own channel
  state; the constructors of the maps behind the interface are \<open>te_construct\<close>, and the scan of the distributed map is
  \<open>te_da_scan\<close>. Witnesses instantiate them with concrete functions (\<open>xor_crypto\<close>, \<open>rev\<close>, local trees).

  \<^bold>\<open>Recursion and fuel.\<close> The loops over trees, stashes and levels are structural or take the loop bound of the code as
  an argument, so no fuel is chosen. The walk of the enclave map that recomputes heights and the client's build are bounded by
  the number of nodes, which a tree that is one satisfies; beyond it the result is \<open>StackExhausted\<close>. The interleaved loops of the
  tiered map are \<open>partial_function (option)\<close>: a loop that never returns is \<open>None\<close>, which \<open>ends\<close> turns into \<open>Diverges\<close>.

  \<^bold>\<open>Contracts.\<close> \<open>bucket_storage\<close> (what an ORAM client relies on; interpretation \<open>tree\<close>), \<open>oblivious_map\<close> (what a client of
  \<open>OmapInterface\<close> relies on; interpretation \<open>avl_map\<close>), \<open>tiered_client\<close> (what the tiered map relies on; interpretation \<open>tiers\<close>),
  \<open>key_directory\<close> and \<open>oblivious_store\<close> (what the enclave map relies on; interpretations \<open>dir\<close> and \<open>enclave\<close>).

  \<^bold>\<open>What the lemmas show.\<close>

  \<^item> \<open>Block_Lists\<close>, \<open>Tree_Geometry\<close>, \<open>Data_Properties\<close>: live blocks as a map, the layout of the trees, codecs, the branch-free
    primitives as conditionals, the directory as a partial map.
  \<^item> \<open>Stash_Compaction\<close>, \<open>Enclave_Oram_Correct\<close>, \<open>Enclave_Oram_Evict\<close>, \<open>Enclave_Oram_Access\<close>, \<open>Enclave_Oram_Load\<close>, \<open>Enclave_Reinsert\<close>,
    \<open>Enclave_Store\<close>, \<open>Enclave_Oram_Properties\<close>: the invariant of the enclave ORAM, its accesses as those of a map, what an
    observer sees, eviction and the initial load.
  \<^item> \<open>Tee_Avl_Search\<close>, \<open>Tee_Avl_Lookup\<close>, \<open>Tee_Avl_Counts\<close>, \<open>Tee_Avl_Properties\<close>, \<open>Tee_Omap_Correct\<close>, \<open>Tee_Omap_Properties\<close>,
    \<open>Tee_Server_Properties\<close>: the enclave map finds and writes what its search tree holds, the number of its ORAM steps, the two
    tiers as one map, the session of a client as answers of that map.
  \<^item> \<open>Path_Oram_Correct\<close>, \<open>Path_Oram_Access\<close>, \<open>Path_Oram_Load\<close>, \<open>Path_Oram_Properties\<close>: the Path ORAM over any \<open>bucket_storage\<close> is a
    map; the only failure is a stash overflow. \<open>Network_Properties\<close>: the remote tree refines the local one, messages and
    sessions round trip.
  \<^item> \<open>Avl_Paths\<close>, \<open>Avl_Local\<close>, \<open>Avl_Rotations\<close>, \<open>Avl_Omap_Correct\<close>, \<open>Avl_Insert_Correct\<close>, \<open>Avl_Omap_Counts\<close>, \<open>Avl_Omap_Properties\<close>: the
    search tree in the ORAM, nodes taken out and put back, rotations, search, insertion, and the fixed number of accesses.
  \<^item> \<open>Maintenance_Properties\<close>: for swap intervals of at least 3 the three steps never coincide and each comes up;
    the right key leaves the cache.
    \<open>Tiered_Plain\<close>, \<open>Tiered_Books\<close>, \<open>Tiered_Invariant\<close>, \<open>Tiered_Properties\<close>: without maintenance and without a channel the tiered
    map is a map; with maintenance the client's books of its hot keys stay consistent with each other, which says nothing of what
    the maps of the tiers store.

  \<^bold>\<open>Not modelled.\<close> The position-map hierarchy \<open>oram/da_oram.cpp\<close> with the map \<open>omap/da_ost_omap.cpp\<close> built on it, and the B+ tree
  map \<open>omap/bplus_omap.cpp\<close>: two alternative backends of the same interface. Debug output, timing (\<open>set_round_delay_us\<close>), the
  bandwidth benchmarks and the \<open>main\<close> functions: measurements without core logic. A stash bound large enough to exclude
  an overflow holds with overwhelming probability only, so theorems leave that failure open.
\<close>

end
